(* ===== verification/Prelude.thy ===== *)
theory Prelude
  imports Main "HOL-Library.Word" "HOL-Library.Finite_Map" "HOL-Library.Sublist"
    "HOL-Library.Monad_Syntax"
begin

text \<open>
  What the components share: the names of the machine types the SDK uses, the result type of
  its fallible operations, the collections of simplification rules, and the generic lemmas on
  lists, finite maps and words.

  \<^item> \<open>std::uint32_t\<close>, \<open>std::uint64_t\<close> and \<open>size_t\<close> (LP64) are words, so every
    \<open>+\<close>, \<open>-\<close>, \<open><<\<close> wraps as in the code.
  \<^item> \<open>time_t\<close> and \<open>int64_t\<close> are \<open>int\<close>; the code never relies on their overflow.
  \<^item> \<open>std::string\<close> is \<open>string\<close>: a list of bytes.
  \<^item> \<open>boost::optional<T>\<close> and a nullable pointer are \<open>T option\<close>.
\<close>

unbundle bit_operations_syntax

type_synonym u8 = "8 word"
type_synonym u16 = "16 word"
type_synonym u32 = "32 word"
type_synonym u64 = "64 word"
type_synonym size_t = "64 word"
type_synonym time_t = int

named_theorems model_simps
  \<open>Equations that unfold the operations of a component to their branches.\<close>

named_theorems bit_simps_sdk
  \<open>Membership of a single bit in the words the components build.\<close>

section \<open>Lists\<close>

text \<open>The head and the last element of a list as an iterator that may be \<open>end()\<close>.\<close>

fun hd_or :: "'a list \<Rightarrow> 'a option \<Rightarrow> 'a option" where
  "hd_or [] d = d"
| "hd_or (x # _) d = Some x"

fun last_or :: "'a list \<Rightarrow> 'a option \<Rightarrow> 'a option" where
  "last_or [] d = d"
| "last_or (x # xs) d = last_or xs (Some x)"

lemma hd_or_append [simp]: "hd_or (xs @ ys) d = hd_or xs (hd_or ys d)"
  by (cases xs) auto

lemma last_or_append [simp]: "last_or (xs @ ys) d = last_or ys (last_or xs d)"
  by (induction xs arbitrary: d) auto

lemma last_or_snoc: "last_or (xs @ [x]) d = Some x"
  by simp

lemma hd_or_Some_iff: "hd_or xs None = Some k \<longleftrightarrow> xs \<noteq> [] \<and> hd xs = k"
  by (cases xs) auto

lemma last_or_nonempty: "xs \<noteq> [] \<Longrightarrow> last_or xs d = Some (last xs)"
  by (induction xs arbitrary: d) auto

lemma hd_or_None_iff [simp]: "hd_or xs None = None \<longleftrightarrow> xs = []"
  by (cases xs) auto

lemma last_or_None_iff [simp]: "last_or xs None = None \<longleftrightarrow> xs = []"
  by (induction xs rule: rev_induct) auto

lemma last_or_cong: "xs \<noteq> [] \<Longrightarrow> last_or xs d = last_or xs e"
  by (cases xs) auto

lemma hd_or_cong: "xs \<noteq> [] \<Longrightarrow> hd_or xs d = hd_or xs e"
  by (cases xs) auto

lemma remove1_append_not_in: "x \<notin> set xs \<Longrightarrow> remove1 x (xs @ x # ys) = xs @ ys"
  by (simp add: remove1_append)

lemma sum_list_split_mid:
  "sum_list (map f (xs @ x # ys)) = (f x :: 'a::comm_monoid_add) + sum_list (map f (xs @ ys))"
  by (simp add: add.left_commute)

text \<open>A range-for whose body may fail to return.\<close>

fun fold_option :: "('a \<Rightarrow> 'b \<Rightarrow> 'b option) \<Rightarrow> 'a list \<Rightarrow> 'b \<Rightarrow> 'b option" where
  "fold_option f [] s = Some s"
| "fold_option f (x # xs) s = Option.bind (f x s) (fold_option f xs)"

lemma fold_option_append_set:
  assumes "\<And>x ret. x \<in> set xs \<Longrightarrow> f x ret = Some (ret @ g x)"
  shows "fold_option f xs r = Some (r @ concat (map g xs))"
  using assms by (induction xs arbitrary: r) auto

section \<open>Options\<close>

lemma bind_Some_iff: "Option.bind x f = Some y \<longleftrightarrow> (\<exists>a. x = Some a \<and> f a = Some y)"
  by (cases x) auto

section \<open>Words\<close>

lemma unat_less_two_power_32: "unat (w :: u32) < 4294967296"
  using unsigned_less [of w, where 'a = nat] by simp

lemma bit_word32_bound: "bit (w :: u32) n \<Longrightarrow> n < 32"
  using bit_imp_le_length [of w n] by simp

lemma bit_word64_bound: "bit (w :: u64) n \<Longrightarrow> n < 64"
  using bit_imp_le_length [of w n] by simp

lemma unat_succ: "(i :: 'a::len word) < m \<Longrightarrow> unat (i + 1) = Suc (unat i)"
  by unat_arith

lemma word_less_succ: "(i :: 'a::len word) < m \<Longrightarrow> i < i + 1"
  by unat_arith

section \<open>Bits of words\<close>

lemma bit_exp_word: "n < LENGTH('a) \<Longrightarrow> bit (push_bit n (1 :: 'a::len word)) k \<longleftrightarrow> k = n"
  unfolding bit_push_bit_iff by (auto simp: bit_1_iff)

lemma exp_minus_1_mask: "push_bit n (1 :: 'a::len word) - 1 = mask n"
  by (simp add: mask_eq_exp_minus_1)

lemma unat_push_bit_1: "n < LENGTH('a) \<Longrightarrow> unat (push_bit n (1 :: 'a::len word)) = 2 ^ n"
  using unsigned_of_nat [where 'a = nat and 'b = 'a, of "2 ^ n"] by (simp add: take_bit_nat_eq_self)

lemma unat_less_exp_iff_bits: "unat (w :: 'a::len word) < 2 ^ k \<longleftrightarrow> (\<forall>n \<ge> k. \<not> bit w n)"
proof -
  have "unat w < 2 ^ k \<longleftrightarrow> take_bit k (unat w) = unat w" by (simp add: take_bit_nat_eq_self_iff)
  also have "\<dots> \<longleftrightarrow> take_bit k w = w" by (metis unsigned_take_bit_eq unsigned_word_eqI)
  finally show ?thesis unfolding bit_eq_iff bit_take_bit_iff by (meson not_le bit_imp_possible_bit)
qed

lemma less_exp_iff_bits:
  "l < LENGTH('a) \<Longrightarrow> (w :: 'a::len word) < push_bit l 1 \<longleftrightarrow> (\<forall>n \<ge> l. \<not> bit w n)"
  by (simp add: word_less_nat_alt unat_push_bit_1 unat_less_exp_iff_bits del: push_bit_of_1)

lemma bits_below: "n < LENGTH('a) \<Longrightarrow> (w :: 'a::len word) < push_bit n 1 \<Longrightarrow> bit w k \<Longrightarrow> k < n"
  using less_exp_iff_bits [of n w] by (metis not_le)

text \<open>The highest and the lowest set bit of a word.\<close>

definition top_bit :: "'a::len word \<Rightarrow> nat \<Rightarrow> bool" where
  "top_bit w m \<longleftrightarrow> bit w m \<and> (\<forall>n > m. \<not> bit w n)"

lemma top_bit_0: "top_bit w 0 \<longleftrightarrow> w = 1"
proof
  show "w = 1" if "top_bit w 0"
    using that by (intro bit_eqI) (auto simp: top_bit_def bit_1_iff intro: gr0I)
qed (auto simp: top_bit_def bit_1_iff)

lemma top_bit_gt_1: "top_bit (w :: 'a::len word) (Suc m) \<Longrightarrow> w > 1"
proof -
  assume "top_bit w (Suc m)"
  then have "w \<noteq> 0" "w \<noteq> 1" by (auto simp: top_bit_def bit_1_iff)
  then have "unat w \<noteq> 0" "unat w \<noteq> 1"
    using unsigned_word_eqI [of w 1, where 'a = nat] by (auto simp: unat_eq_0)
  then show "w > 1" by (simp add: word_less_nat_alt)
qed

lemma top_bit_drop: "top_bit w (k + m) \<longleftrightarrow> top_bit (drop_bit k w) m"
  by (auto simp: top_bit_def bit_drop_bit_eq) (metis less_add_same_cancel1 add_less_cancel_left le_add_diff_inverse less_imp_le_nat le_add1 le_trans)

lemma top_bit_ge_iff:
  "top_bit (w :: 'a::len word) m \<Longrightarrow> n < LENGTH('a) \<Longrightarrow> push_bit n 1 \<le> w \<longleftrightarrow> n \<le> m"
  using less_exp_iff_bits [of n w] by (auto simp: top_bit_def not_less [symmetric])

lemma top_bit_iff_unat: "top_bit (w :: 'a::len word) m \<longleftrightarrow> 2 ^ m \<le> unat w \<and> unat w < 2 ^ Suc m"
proof -
  have "2 ^ m \<le> unat w \<longleftrightarrow> (\<exists>n \<ge> m. bit w n)" by (simp add: unat_less_exp_iff_bits flip: not_less)
  moreover have "unat w < 2 ^ Suc m \<longleftrightarrow> (\<forall>n > m. \<not> bit w n)"
    by (simp only: unat_less_exp_iff_bits Suc_le_eq)
  ultimately show ?thesis unfolding top_bit_def by (metis le_neq_implies_less order_refl)
qed

lemma top_bit_exists: "(w :: 'a::len word) \<noteq> 0 \<Longrightarrow> \<exists>m. top_bit w m"
proof -
  assume "w \<noteq> 0"
  then obtain n where n: "bit w n" by (metis bit_eqI bit_0_eq bot_apply bot_bool_def)
  have b: "bit w k \<Longrightarrow> k \<le> LENGTH('a)" for k using bit_imp_le_length [of w k] by simp
  show ?thesis unfolding top_bit_def
    using GreatestI_nat [of "bit w" n, OF n b] Greatest_le_nat [of "bit w" _, OF _ b] by (meson not_le)
qed

definition low_bit :: "'a::len word \<Rightarrow> nat \<Rightarrow> bool" where
  "low_bit w m \<longleftrightarrow> bit w m \<and> (\<forall>n < m. \<not> bit w n)"

lemma low_bit_exists: "(w :: 'a::len word) \<noteq> 0 \<Longrightarrow> \<exists>m. low_bit w m"
proof -
  assume "w \<noteq> 0"
  then obtain n where "bit w n" by (metis bit_eqI bit_0_eq bot_apply bot_bool_def)
  then show ?thesis unfolding low_bit_def by (meson exists_least_iff)
qed

lemma lowest_bit_isolated:
  assumes "low_bit (w :: 'a::len word) m"
  shows "w AND - w = push_bit m 1"
proof -
  define v where "v = drop_bit m w"
  have w: "w = push_bit m v"
  proof (rule bit_eqI)
    fix n assume "possible_bit TYPE('a word) n"
    then show "bit w n = bit (push_bit m v) n"
      using assms unfolding v_def
      by (cases "n < m") (auto simp: bit_push_bit_iff bit_drop_bit_eq low_bit_def)
  qed
  have odd: "odd v" using assms by (simp add: v_def low_bit_def bit_iff_odd_drop_bit)
  have "even (NOT v)" using odd by simp
  then have "- v = NOT v OR 1"
    by (simp add: minus_eq_not_plus_1 or_one_eq)
  then have "v AND - v = v AND 1"
    by (auto intro!: bit_eqI simp: bit_and_iff bit_or_iff bit_not_iff)
  also have "\<dots> = 1" using odd by (simp add: and_one_eq odd_iff_mod_2_eq_one)
  finally have "v AND - v = 1" .
  moreover have "- w = push_bit m (- v)" by (simp add: w push_bit_eq_mult)
  ultimately show ?thesis by (simp add: w flip: push_bit_and)
qed

lemma sint_word_of_int_small: "- (2 ^ 31) \<le> k \<Longrightarrow> k < 2 ^ 31 \<Longrightarrow> sint (word_of_int k :: u32) = k"
  by (simp add: signed_of_int signed_take_bit_int_eq_self)

lemma sint_of_nat_small: "n < 2 ^ 31 \<Longrightarrow> sint (of_nat n :: u32) = int n"
  using sint_word_of_int_small [of "int n"] by simp

lemma unat_of_nat_level: "m < 32 \<Longrightarrow> unat (of_nat m :: u32) = m"
  by (simp add: unat_of_nat)

lemma sint_level_diff:
  assumes "unat (a :: u32) < 32" "unat b < 32" shows "sint (a - b) = int (unat a) - int (unat b)"
proof -
  have w: "a - b = word_of_int (int (unat a) - int (unat b))" by simp
  obtain x y where xy: "int (unat a) = x" "int (unat b) = y" "0 \<le> x" "x < 32" "0 \<le> y" "y < 32"
    using assms by (metis of_nat_0_le_iff of_nat_less_iff of_nat_numeral)
  show ?thesis unfolding w xy(1,2) using xy(3-) by (intro sint_word_of_int_small) simp_all
qed

lemma bit_255: "bit (0xFF :: u32) n \<longleftrightarrow> n < 8"
proof -
  have "(0xFF :: u32) = mask 8" by (simp add: mask_eq_exp_minus_1)
  then show ?thesis by (simp only: bit_mask_iff) auto
qed

lemma and_255: "x AND 0xFF = (take_bit 8 x :: u32)"
  by (rule bit_eqI) (auto simp only: bit_and_iff bit_take_bit_iff bit_255)

section \<open>Decimal numerals\<close>

text \<open>
  \<open>std::to_string\<close>, \<open>operator<<\<close> with \<open>std::dec\<close>, and the digit loop of \<open>strtoull\<close> and
  \<open>strtol\<close> in base 10.
\<close>

fun dec_digits :: "nat \<Rightarrow> string" where
  "dec_digits n = (if n < 10 then [char_of (48 + n)]
                   else dec_digits (n div 10) @ [char_of (48 + n mod 10)])"

declare dec_digits.simps [simp del]

definition is_digit :: "char \<Rightarrow> bool" where
  "is_digit c \<longleftrightarrow> 48 \<le> (of_char c :: nat) \<and> (of_char c :: nat) \<le> 57"

definition digit_val :: "char \<Rightarrow> nat" where
  "digit_val c = of_char c - 48"

fun dec_value :: "nat \<Rightarrow> string \<Rightarrow> nat" where
  "dec_value acc [] = acc"
| "dec_value acc (c # cs) = dec_value (acc * 10 + digit_val c) cs"

definition is_space :: "char \<Rightarrow> bool" where
  "is_space c \<longleftrightarrow> c = CHR '' '' \<or> (9 \<le> (of_char c :: nat) \<and> (of_char c :: nat) \<le> 13)"

text \<open>\<open>strtoull(s, nullptr, 10)\<close>: leading space, an optional sign, digits; saturates at \<open>ULLONG_MAX\<close>.\<close>

definition strtoull :: "string \<Rightarrow> u64" where
  "strtoull s =
     (let s1 = dropWhile is_space s;
          neg = (s1 \<noteq> [] \<and> hd s1 = CHR ''-'');
          s2 = (if s1 \<noteq> [] \<and> (hd s1 = CHR ''-'' \<or> hd s1 = CHR ''+'') then tl s1 else s1);
          v = dec_value 0 (takeWhile is_digit s2)
      in if v \<ge> 2 ^ 64 then - 1 else if neg then - of_nat v else of_nat v)"

lemma of_char_digit [simp]: "d < 10 \<Longrightarrow> (of_char (char_of (48 + d :: nat)) :: nat) = 48 + d"
  by (simp add: of_char_of)

lemma digit_char_simps [simp]:
  "d < 10 \<Longrightarrow> is_digit (char_of (48 + d :: nat))"
  "d < 10 \<Longrightarrow> digit_val (char_of (48 + d :: nat)) = d"
  by (simp_all add: is_digit_def digit_val_def)

lemma dec_value_append: "dec_value acc (xs @ ys) = dec_value (dec_value acc xs) ys"
  by (induction xs arbitrary: acc) auto

lemma dec_digits_nonempty [simp]: "dec_digits n \<noteq> []"
  by (subst dec_digits.simps) simp

lemma dec_digits_are_digits: "c \<in> set (dec_digits n) \<Longrightarrow> is_digit c"
proof (induction n rule: dec_digits.induct)
  case (1 n)
  then show ?case
    by (subst (asm) dec_digits.simps) (auto split: if_splits)
qed

lemma dec_value_dec_digits [simp]: "dec_value 0 (dec_digits n) = n"
proof (induction n rule: dec_digits.induct)
  case (1 n)
  then show ?case
    by (subst dec_digits.simps) (auto simp: dec_value_append)
qed

lemma is_digit_not_special:
  "is_digit c \<Longrightarrow> \<not> is_space c \<and> c \<noteq> CHR ''-'' \<and> c \<noteq> CHR ''+'' \<and> c \<noteq> CHR '':'' \<and> c \<noteq> CHR '',''"
  by (auto simp: is_digit_def is_space_def)

lemma strtoull_dec_digits [simp]:
  assumes "n < 2 ^ 64"
  shows "strtoull (dec_digits n) = of_nat n"
proof -
  obtain c cs where c: "dec_digits n = c # cs"
    by (cases "dec_digits n") auto
  have d: "is_digit x" if "x \<in> set (c # cs)" for x
    using that dec_digits_are_digits [of x n] c by simp
  have tw: "takeWhile is_digit (c # cs) = c # cs"
    using d by (simp add: takeWhile_eq_all_conv)
  have dw: "dropWhile is_space (c # cs) = c # cs"
    using d [of c] is_digit_not_special [of c] by simp
  have v: "dec_value 0 (c # cs) = n"
    using c dec_value_dec_digits [of n] by simp
  have "c \<noteq> CHR ''-'' \<and> c \<noteq> CHR ''+''"
    using d [of c] is_digit_not_special [of c] by simp
  with assms show ?thesis
    unfolding strtoull_def Let_def c dw
    by (simp add: tw v del: dec_value.simps takeWhile.simps)
qed

text \<open>\<open>std::to_string\<close> and \<open>operator<<\<close> of an integer.\<close>

definition to_string_int :: "int \<Rightarrow> string" where
  "to_string_int n = (if n < 0 then CHR ''-'' # dec_digits (nat (- n)) else dec_digits (nat n))"

lemma dec_digits_inj: "dec_digits m = dec_digits n \<Longrightarrow> m = n"
  by (metis dec_value_dec_digits)

lemma dec_digits_no_minus: "CHR ''-'' \<notin> set (dec_digits n)"
  using dec_digits_are_digits is_digit_not_special by blast

lemma to_string_int_inj: "to_string_int m = to_string_int n \<longleftrightarrow> m = n"
proof
  assume e: "to_string_int m = to_string_int n"
  have "CHR ''-'' # dec_digits a \<noteq> dec_digits b" for a b
    using dec_digits_no_minus [of b] by (metis list.set_intros(1))
  with e show "m = n"
    by (auto simp: to_string_int_def split: if_splits dest!: dec_digits_inj) (metis)+
qed simp

lemma to_string_int_chars: "c \<in> set (to_string_int n) \<Longrightarrow> is_digit c \<or> c = CHR ''-''"
  using dec_digits_are_digits by (auto simp: to_string_int_def split: if_splits)

section \<open>Splitting strings\<close>

text \<open>The parts between the occurrences of a character, empty ones included.\<close>

fun split_char :: "char \<Rightarrow> string \<Rightarrow> string list" where
  "split_char d [] = [[]]"
| "split_char d (c # cs) =
     (if c = d then [] # split_char d cs
      else case split_char d cs of [] \<Rightarrow> [[c]] | p # ps \<Rightarrow> (c # p) # ps)"

lemma split_char_nonempty [simp]: "split_char d s \<noteq> []"
  by (induction s) (auto split: list.splits)

lemma split_char_none: "d \<notin> set s \<Longrightarrow> split_char d s = [s]"
  by (induction s) auto

lemma split_char_append: "d \<notin> set s \<Longrightarrow> split_char d (s @ d # t) = s # split_char d t"
  by (induction s) auto

end
