(* ===== verification/Tile_Key.thy ===== *)
theory Tile_Key
  imports Prelude
begin

text \<open>
  Component geo/tiling: \<open>TileKey\<close> and \<open>QuadKey64Helper\<close>
  (\<open>olp/core/geo/tiling/TileKey.h\<close>, \<open>src/geo/tiling/TileKey.cpp\<close>), the relative and
  absolute sub tile keys of \<open>TileKeyUtils.cpp\<close>, the two subdivision schemes, and the
  iterator over the sub tiles of a tile (\<open>SubTiles.h\<close>).

  A tile key is a row, a column and a level, all \<open>std::uint32_t\<close>. Shifts are \<open>push_bit\<close>
  and \<open>drop_bit\<close> on words; C++ leaves a shift by 32 or more (64 or more) undefined, and the
  model gives 0 there, so every theorem below is stated for the levels the class allows.
\<close>

section \<open>The data and its accessors\<close>

record TileKey =
  Row :: u32
  Column :: u32
  Level :: u32

definition LevelCount :: u32 where
  "LevelCount = 32"

definition MaxLevel :: u32 where
  "MaxLevel = LevelCount - 1"

text \<open>The default constructor makes the invalid key.\<close>

definition TileKey_default :: TileKey where
  "TileKey_default = \<lparr>Row = 0, Column = 0, Level = LevelCount\<rparr>"

definition FromRowColumnLevel :: "u32 \<Rightarrow> u32 \<Rightarrow> u32 \<Rightarrow> TileKey" where
  "FromRowColumnLevel row column level = \<lparr>Row = row, Column = column, Level = level\<rparr>"

definition shl32 :: "u32 \<Rightarrow> u32 \<Rightarrow> u32" where
  "shl32 x n = push_bit (unat n) x"

definition IsValid :: "TileKey \<Rightarrow> bool" where
  "IsValid t \<longleftrightarrow> Level t < LevelCount \<and> Row t < shl32 1 (Level t) \<and> Column t < shl32 1 (Level t)"

definition RowCount :: "TileKey \<Rightarrow> u32" where
  "RowCount t = shl32 1 (Level t)"

definition ColumnCount :: "TileKey \<Rightarrow> u32" where
  "ColumnCount t = shl32 1 (Level t)"

definition TileKey_eq :: "TileKey \<Rightarrow> TileKey \<Rightarrow> bool" where
  "TileKey_eq a b \<longleftrightarrow> Level a = Level b \<and> Row a = Row b \<and> Column a = Column b"

text \<open>\<open>operator<\<close>: first the level, then the row, then the column.\<close>

definition TileKey_less :: "TileKey \<Rightarrow> TileKey \<Rightarrow> bool" where
  "TileKey_less a b \<longleftrightarrow>
     (if Level a \<noteq> Level b then Level a < Level b
      else if Row a \<noteq> Row b then Row a < Row b
      else Column a < Column b)"

definition HasNextRow :: "TileKey \<Rightarrow> bool" where
  "HasNextRow t \<longleftrightarrow> Row t < shl32 1 (Level t) - 1"

definition NextRow :: "TileKey \<Rightarrow> TileKey" where
  "NextRow t = FromRowColumnLevel (Row t + 1) (Column t) (Level t)"

definition HasNextColumn :: "TileKey \<Rightarrow> bool" where
  "HasNextColumn t \<longleftrightarrow> Column t < shl32 1 (Level t) - 1"

definition NextColumn :: "TileKey \<Rightarrow> TileKey" where
  "NextColumn t = FromRowColumnLevel (Row t) (Column t + 1) (Level t)"

definition HasPreviousRow :: "TileKey \<Rightarrow> bool" where
  "HasPreviousRow t \<longleftrightarrow> Row t > 0"

definition PreviousRow :: "TileKey \<Rightarrow> TileKey" where
  "PreviousRow t = FromRowColumnLevel (Row t - 1) (Column t) (Level t)"

definition HasPreviousColumn :: "TileKey \<Rightarrow> bool" where
  "HasPreviousColumn t \<longleftrightarrow> Column t > 0"

definition PreviousColumn :: "TileKey \<Rightarrow> TileKey" where
  "PreviousColumn t = FromRowColumnLevel (Row t) (Column t - 1) (Level t)"

section \<open>Morton codes\<close>

text \<open>The table of \<open>ToQuadKey64\<close>: entry \<open>i\<close> spreads the eight bits of \<open>i\<close> to the even bits.\<close>

definition MortonTable256 :: "u64 list" where
  "MortonTable256 = [
    0x0000, 0x0001, 0x0004, 0x0005, 0x0010, 0x0011, 0x0014, 0x0015, 0x0040, 0x0041, 0x0044, 0x0045, 0x0050, 0x0051, 0x0054, 0x0055,
    0x0100, 0x0101, 0x0104, 0x0105, 0x0110, 0x0111, 0x0114, 0x0115, 0x0140, 0x0141, 0x0144, 0x0145, 0x0150, 0x0151, 0x0154, 0x0155,
    0x0400, 0x0401, 0x0404, 0x0405, 0x0410, 0x0411, 0x0414, 0x0415, 0x0440, 0x0441, 0x0444, 0x0445, 0x0450, 0x0451, 0x0454, 0x0455,
    0x0500, 0x0501, 0x0504, 0x0505, 0x0510, 0x0511, 0x0514, 0x0515, 0x0540, 0x0541, 0x0544, 0x0545, 0x0550, 0x0551, 0x0554, 0x0555,
    0x1000, 0x1001, 0x1004, 0x1005, 0x1010, 0x1011, 0x1014, 0x1015, 0x1040, 0x1041, 0x1044, 0x1045, 0x1050, 0x1051, 0x1054, 0x1055,
    0x1100, 0x1101, 0x1104, 0x1105, 0x1110, 0x1111, 0x1114, 0x1115, 0x1140, 0x1141, 0x1144, 0x1145, 0x1150, 0x1151, 0x1154, 0x1155,
    0x1400, 0x1401, 0x1404, 0x1405, 0x1410, 0x1411, 0x1414, 0x1415, 0x1440, 0x1441, 0x1444, 0x1445, 0x1450, 0x1451, 0x1454, 0x1455,
    0x1500, 0x1501, 0x1504, 0x1505, 0x1510, 0x1511, 0x1514, 0x1515, 0x1540, 0x1541, 0x1544, 0x1545, 0x1550, 0x1551, 0x1554, 0x1555,
    0x4000, 0x4001, 0x4004, 0x4005, 0x4010, 0x4011, 0x4014, 0x4015, 0x4040, 0x4041, 0x4044, 0x4045, 0x4050, 0x4051, 0x4054, 0x4055,
    0x4100, 0x4101, 0x4104, 0x4105, 0x4110, 0x4111, 0x4114, 0x4115, 0x4140, 0x4141, 0x4144, 0x4145, 0x4150, 0x4151, 0x4154, 0x4155,
    0x4400, 0x4401, 0x4404, 0x4405, 0x4410, 0x4411, 0x4414, 0x4415, 0x4440, 0x4441, 0x4444, 0x4445, 0x4450, 0x4451, 0x4454, 0x4455,
    0x4500, 0x4501, 0x4504, 0x4505, 0x4510, 0x4511, 0x4514, 0x4515, 0x4540, 0x4541, 0x4544, 0x4545, 0x4550, 0x4551, 0x4554, 0x4555,
    0x5000, 0x5001, 0x5004, 0x5005, 0x5010, 0x5011, 0x5014, 0x5015, 0x5040, 0x5041, 0x5044, 0x5045, 0x5050, 0x5051, 0x5054, 0x5055,
    0x5100, 0x5101, 0x5104, 0x5105, 0x5110, 0x5111, 0x5114, 0x5115, 0x5140, 0x5141, 0x5144, 0x5145, 0x5150, 0x5151, 0x5154, 0x5155,
    0x5400, 0x5401, 0x5404, 0x5405, 0x5410, 0x5411, 0x5414, 0x5415, 0x5440, 0x5441, 0x5444, 0x5445, 0x5450, 0x5451, 0x5454, 0x5455,
    0x5500, 0x5501, 0x5504, 0x5505, 0x5510, 0x5511, 0x5514, 0x5515, 0x5540, 0x5541, 0x5544, 0x5545, 0x5550, 0x5551, 0x5554, 0x5555
    ]"

definition ToQuadKey64 :: "TileKey \<Rightarrow> u64" where
  "ToQuadKey64 t =
    (let morton = (\<lambda>x :: u32. MortonTable256 ! unat (x AND 0xFF)) in
       push_bit (unat (2 * Level t)) 1 OR push_bit 49 (morton (drop_bit 24 (Row t))) OR
       push_bit 33 (morton (drop_bit 16 (Row t))) OR
       push_bit 17 (morton (drop_bit 8 (Row t))) OR
       push_bit 1 (morton (Row t)) OR
       push_bit 48 (morton (drop_bit 24 (Column t))) OR
       push_bit 32 (morton (drop_bit 16 (Column t))) OR
       push_bit 16 (morton (drop_bit 8 (Column t))) OR
       morton (Column t))"

text \<open>The loop of \<open>FromQuadKey64\<close>: the mask is \<open>1 << Level\<close>, and the key shrinks by two bits.\<close>

function FromQuadKey64_loop :: "u64 \<Rightarrow> TileKey \<Rightarrow> TileKey" where
  "FromQuadKey64_loop quad_key result =
     (if quad_key > 1 then
        (let mask = shl32 1 (Level result);
             c = (if quad_key AND 0x1 \<noteq> 0 then Column result OR mask else Column result);
             r = (if quad_key AND 0x2 \<noteq> 0 then Row result OR mask else Row result)
         in FromQuadKey64_loop (drop_bit 2 quad_key)
              \<lparr>Row = r, Column = c, Level = Level result + 1\<rparr>)
      else result)"
  by pat_completeness auto
termination
  by (relation "measure (\<lambda>(q, _). unat q)")
    (auto simp: unat_drop_bit_eq drop_bit_eq_div word_less_nat_alt unat_div)

declare FromQuadKey64_loop.simps [simp del]

definition FromQuadKey64 :: "u64 \<Rightarrow> TileKey" where
  "FromQuadKey64 quad_key = FromQuadKey64_loop quad_key (FromRowColumnLevel 0 0 0)"

section \<open>String forms\<close>

text \<open>\<open>key[level_ - i - 1]\<close> receives the \<open>i\<close>-th two-bit group of the Morton code.\<close>

definition quad_digit :: "u64 \<Rightarrow> nat \<Rightarrow> char" where
  "quad_digit morton_key i = char_of (48 + unat ((morton_key div push_bit (2 * i) 1) mod 4))"

definition ToQuadKey :: "TileKey \<Rightarrow> string" where
  "ToQuadKey t =
     (if \<not> IsValid t then []
      else if Level t = 0 then ''-''
      else rev (map (quad_digit (ToQuadKey64 t)) [0..<unat (Level t)]))"

text \<open>One iteration of the loop of \<open>FromQuadKey\<close>: \<open>d = quadKey[level_ - i - 1] - '0'\<close>.\<close>

definition FromQuadKey_step :: "string \<Rightarrow> nat \<Rightarrow> TileKey \<Rightarrow> TileKey" where
  "FromQuadKey_step quadKey i result =
     (let mask = push_bit i (1 :: u32);
          d = int (of_char (quadKey ! (length quadKey - i - 1))) - 48;
          c = (if bit d 0 then Column result OR mask else Column result);
          r = (if bit d 1 then Row result OR mask else Row result)
      in result\<lparr>Column := c, Row := r\<rparr>)"

definition FromQuadKey :: "string \<Rightarrow> TileKey" where
  "FromQuadKey quadKey =
     (if quadKey = [] then TileKey_default
      else if quadKey = ''-'' then FromRowColumnLevel 0 0 0
      else fold (FromQuadKey_step quadKey) [0..<length quadKey]
             (FromRowColumnLevel 0 0 (of_nat (length quadKey))))"

definition ToHereTile :: "TileKey \<Rightarrow> string" where
  "ToHereTile t = dec_digits (unat (ToQuadKey64 t))"

definition FromHereTile :: "string \<Rightarrow> TileKey" where
  "FromHereTile key = (if key = [] then TileKey_default else FromQuadKey64 (strtoull key))"

section \<open>Navigation\<close>

definition Parent :: "TileKey \<Rightarrow> TileKey" where
  "Parent t = (if Level t > 0
               then FromRowColumnLevel (drop_bit 1 (Row t)) (drop_bit 1 (Column t)) (Level t - 1)
               else TileKey_default)"

text \<open>
  \<open>int level = level_ + delta\<close> is computed on \<open>std::uint32_t\<close> and read back as \<open>int\<close>.
\<close>

definition ChangedLevelBy :: "TileKey \<Rightarrow> int \<Rightarrow> TileKey" where
  "ChangedLevelBy t delta =
     (if delta = 0 then t
      else let level = sint (Level t + word_of_int delta);
               level' = (if level < 0 then 0 else level)
           in if delta \<ge> 0
              then \<lparr>Row = push_bit (nat delta) (Row t), Column = push_bit (nat delta) (Column t),
                    Level = word_of_int level'\<rparr>
              else \<lparr>Row = drop_bit (nat (- delta)) (Row t),
                    Column = drop_bit (nat (- delta)) (Column t), Level = word_of_int level'\<rparr>)"

definition ChangedLevelTo :: "TileKey \<Rightarrow> u32 \<Rightarrow> TileKey" where
  "ChangedLevelTo t level = ChangedLevelBy t (sint (level - Level t))"

definition IsChildOf :: "TileKey \<Rightarrow> TileKey \<Rightarrow> bool" where
  "IsChildOf t tile_key \<longleftrightarrow>
     (if Level t \<le> Level tile_key then False
      else TileKey_eq (ChangedLevelTo t (Level tile_key)) tile_key)"

definition IsParentOf :: "TileKey \<Rightarrow> TileKey \<Rightarrow> bool" where
  "IsParentOf t tile_key \<longleftrightarrow> IsChildOf tile_key t"

definition GetChild :: "TileKey \<Rightarrow> u8 \<Rightarrow> TileKey" where
  "GetChild t index =
     (let result = ChangedLevelBy t 1
      in result\<lparr>Column := Column result OR ucast (index AND 1),
                Row := Row result OR ucast (drop_bit 1 index)\<rparr>)"

datatype TileKeyQuadrant = SW | SE | NW | NE | Invalid

fun quadrant_code :: "TileKeyQuadrant \<Rightarrow> u8" where
  "quadrant_code SW = 0"
| "quadrant_code SE = 1"
| "quadrant_code NW = 2"
| "quadrant_code NE = 3"
| "quadrant_code Invalid = 4"

definition GetChild_direction :: "TileKey \<Rightarrow> TileKeyQuadrant \<Rightarrow> TileKey" where
  "GetChild_direction t direction = GetChild t (quadrant_code direction)"

text \<open>The \<open>static_cast\<close> to the enumeration keeps the low byte of the number.\<close>

definition RelationshipToParent :: "TileKey \<Rightarrow> u8" where
  "RelationshipToParent t =
     (if Level t = 0 then quadrant_code Invalid
      else let swTile = GetChild (Parent t) 0
           in ucast ((Row t - Row swTile) * 2 + Column t - Column swTile))"

section \<open>Sub keys\<close>

definition QuadKey64Helper_Parent :: "u64 \<Rightarrow> u64" where
  "QuadKey64Helper_Parent key = drop_bit 2 key"

definition QuadKey64Helper_Child :: "u64 \<Rightarrow> u64" where
  "QuadKey64Helper_Child key = push_bit 2 key"

definition QuadKey64Helper_GetSubkey :: "u64 \<Rightarrow> nat \<Rightarrow> u64" where
  "QuadKey64Helper_GetSubkey key delta =
     (let msb = push_bit (2 * delta) 1; mask = msb - 1 in (key AND mask) OR msb)"

text \<open>
  The loop of \<open>AddedSubkey\<close>; \<open>mask << 2\<close> wraps to 0, so the loop need not end, and not
  returning is \<open>None\<close>.
\<close>

partial_function (option) AddedSubkey_loop :: "u64 \<Rightarrow> u64 \<Rightarrow> u64 \<Rightarrow> (u64 \<times> u64) option" where
  "AddedSubkey_loop sub_key result msk =
     (if sub_key \<ge> push_bit 2 msk
      then AddedSubkey_loop sub_key (push_bit 2 result) (push_bit 2 msk)
      else Some (result, msk))"

definition QuadKey64Helper_AddedSubkey :: "u64 \<Rightarrow> u64 \<Rightarrow> u64 option" where
  "QuadKey64Helper_AddedSubkey key sub_key =
     map_option (\<lambda>(result, mask). result OR (sub_key AND (mask - 1)))
       (AddedSubkey_loop sub_key key 1)"

definition RowsAtLevel :: "u32 \<Rightarrow> u32" where
  "RowsAtLevel level = shl32 1 level"

definition ChildrenAtLevel :: "u32 \<Rightarrow> u32" where
  "ChildrenAtLevel level = shl32 1 (push_bit 1 level)"

definition GetSubkey64 :: "TileKey \<Rightarrow> nat \<Rightarrow> u64" where
  "GetSubkey64 t delta = QuadKey64Helper_GetSubkey (ToQuadKey64 t) delta"

definition AddedSubkey64 :: "TileKey \<Rightarrow> u64 \<Rightarrow> TileKey option" where
  "AddedSubkey64 t sub_quad_key =
     map_option FromQuadKey64 (QuadKey64Helper_AddedSubkey (ToQuadKey64 t) sub_quad_key)"

definition AddedSub :: "TileKey \<Rightarrow> TileKey \<Rightarrow> TileKey" where
  "AddedSub t subQuad =
     (let child = ChangedLevelBy t (sint (Level subQuad))
      in FromRowColumnLevel (Row child + Row subQuad) (Column child + Column subQuad)
           (Level child))"

definition AddedSubkey :: "TileKey \<Rightarrow> string \<Rightarrow> TileKey" where
  "AddedSubkey t sub_quad_key =
     AddedSub t (FromQuadKey (if sub_quad_key = [] then ''-'' else sub_quad_key))"

definition AddedSubHereTile :: "TileKey \<Rightarrow> string \<Rightarrow> TileKey" where
  "AddedSubHereTile t sub_here_tile = AddedSub t (FromHereTile sub_here_tile)"

definition GetRelativeSubTileKey :: "TileKey \<Rightarrow> u32 \<Rightarrow> TileKey" where
  "GetRelativeSubTileKey key parent_level =
     (let originKey = ChangedLevelTo (ChangedLevelTo key parent_level) (Level key)
      in FromRowColumnLevel (Row key - Row originKey) (Column key - Column originKey)
           (Level key - parent_level))"

definition GetAbsoluteSubTileKey :: "TileKey \<Rightarrow> TileKey \<Rightarrow> TileKey" where
  "GetAbsoluteSubTileKey parent sub_tile =
     (let absSubTileKey = ChangedLevelBy parent (sint (Level sub_tile))
      in FromRowColumnLevel (Row absSubTileKey + Row sub_tile)
           (Column absSubTileKey + Column sub_tile) (Level absSubTileKey))"

section \<open>Sets of levels\<close>

text \<open>
  \<open>TileKeyLevels\<close> is \<open>std::bitset<32>\<close>; bit \<open>l\<close> says that level \<open>l\<close> is stored.
  \<open>to_ulong()\<close> is the 64-bit value of those bits.
\<close>

type_synonym TileKeyLevels = u32

definition debruijn_lookup_table :: "u32 list" where
  "debruijn_lookup_table =
     [0, 1, 28, 2, 29, 14, 24, 3, 30, 22, 20, 15, 25, 17, 4, 8,
      31, 27, 13, 23, 21, 19, 16, 7, 26, 12, 18, 6, 11, 5, 10, 9]"

definition GetMinTileKeyLevel :: "TileKeyLevels \<Rightarrow> u32 option" where
  "GetMinTileKeyLevel levels =
     (if levels = 0 then None
      else let levelBits = (ucast levels :: u64)
           in Some (debruijn_lookup_table !
                unat (drop_bit 27 (ucast ((levelBits AND - levelBits) * 0x077CB531) :: u32))))"

text \<open>\<open>static_cast<uint32_t>(std::log2(n))\<close>: the exponent of the highest power of two below \<open>n\<close>.\<close>

fun floor_log2 :: "nat \<Rightarrow> nat" where
  "floor_log2 n = (if n < 2 then 0 else Suc (floor_log2 (n div 2)))"

declare floor_log2.simps [simp del]

definition GetMaxTileKeyLevel :: "TileKeyLevels \<Rightarrow> u32 option" where
  "GetMaxTileKeyLevel levels =
     (if levels = 0 then None else Some (of_nat (floor_log2 (unat levels))))"

text \<open>
  The search loop: \<open>n\<close> iterations are left, \<open>dist\<close> counts up from 0. The first distance at
  which a level is stored ends it, the upper level before the lower one.
\<close>

fun nearest_loop :: "TileKeyLevels \<Rightarrow> int \<Rightarrow> nat \<Rightarrow> int \<Rightarrow> int" where
  "nearest_loop levels level 0 dist = level"
| "nearest_loop levels level (Suc n) dist =
     (if level + dist < 32 \<and> bit levels (nat (level + dist)) then level + dist
      else if level \<ge> dist \<and> bit levels (nat (level - dist)) then level - dist
      else nearest_loop levels level n (dist + 1))"

definition GetNearestAvailableTileKeyLevel :: "TileKeyLevels \<Rightarrow> u32 \<Rightarrow> u32 option" where
  "GetNearestAvailableTileKeyLevel levels referenceLevel =
     (case (GetMinTileKeyLevel levels, GetMaxTileKeyLevel levels) of
        (Some minLevel, Some maxLevel) \<Rightarrow>
          (let level = uint (max (min referenceLevel maxLevel) minLevel);
               maxDist = max \<bar>level - uint minLevel\<bar> \<bar>level - uint maxLevel\<bar>
           in Some (word_of_int (nearest_loop levels level (nat (maxDist + 1)) 0)))
      | _ \<Rightarrow> None)"

section \<open>Subdivision schemes and sub tiles\<close>

definition QuadTree_GetSubdivisionAt :: "u32 \<Rightarrow> u32 \<times> u32" where
  "QuadTree_GetSubdivisionAt level = (2, 2)"

definition QuadTree_GetLevelSize :: "u32 \<Rightarrow> u32 \<times> u32" where
  "QuadTree_GetLevelSize level = (shl32 1 level, shl32 1 level)"

definition HalfQuadTree_GetSubdivisionAt :: "u32 \<Rightarrow> u32 \<times> u32" where
  "HalfQuadTree_GetSubdivisionAt level = (2, if level = 0 then 1 else 2)"

definition HalfQuadTree_GetLevelSize :: "u32 \<Rightarrow> u32 \<times> u32" where
  "HalfQuadTree_GetLevelSize level =
     (shl32 1 level, if level = 0 then 1 else shl32 1 (level - 1))"

record SubTiles =
  st_tile_key :: TileKey
  st_level :: u32
  st_count :: u32
  st_mask :: u16
  st_shift :: u32

definition SubTiles_new :: "TileKey \<Rightarrow> u32 \<Rightarrow> u16 \<Rightarrow> SubTiles" where
  "SubTiles_new tileKey level msk =
     \<lparr>st_tile_key = tileKey, st_level = level, st_count = shl32 1 (push_bit 1 level),
      st_mask = msk, st_shift = (if level > 2 then push_bit 1 (level - 2) else 0)\<rparr>"

function SubTiles_Skip :: "SubTiles \<Rightarrow> u32 \<Rightarrow> u32" where
  "SubTiles_Skip s index =
     (if st_mask s = - 1 then index
      else if index < st_count s \<and> \<not> bit (st_mask s) (unat (drop_bit (unat (st_shift s)) index))
      then SubTiles_Skip s (index + 1) else index)"
  by pat_completeness auto
termination
  by (relation "measure (\<lambda>(s, i). unat (st_count s) - unat i)")
    (auto simp: unat_succ word_less_nat_alt [symmetric] intro: diff_less_mono2)

declare SubTiles_Skip.simps [simp del]

definition SubTiles_deref :: "SubTiles \<Rightarrow> u32 \<Rightarrow> TileKey" where
  "SubTiles_deref s index =
     FromRowColumnLevel
       (shl32 (Row (st_tile_key s)) (st_level s) OR drop_bit (unat (st_level s)) index)
       (shl32 (Column (st_tile_key s)) (st_level s) OR (index AND (shl32 1 (st_level s) - 1)))
       (Level (st_tile_key s) + st_level s)"

lemma SubTiles_Skip_ge: "index \<le> SubTiles_Skip s index"
proof (induction s index rule: SubTiles_Skip.induct)
  case (1 s index)
  show ?case
  proof (cases "st_mask s \<noteq> - 1 \<and> index < st_count s \<and>
      \<not> bit (st_mask s) (unat (drop_bit (unat (st_shift s)) index))")
    case True
    then have "index + 1 \<le> SubTiles_Skip s (index + 1)" using 1 by simp
    moreover have "index < index + 1" using True word_less_succ by blast
    ultimately show ?thesis using True by (simp add: SubTiles_Skip.simps [of s index])
  next
    case False
    then show ?thesis by (auto simp: SubTiles_Skip.simps [of s index])
  qed
qed

text \<open>
  The range-for over a \<open>SubTiles\<close>, from \<open>begin()\<close> (index \<open>Skip(0)\<close>) until the index reaches that
  of \<open>end()\<close>, which is \<open>count_\<close>.
\<close>

function SubTiles_iterate :: "SubTiles \<Rightarrow> u32 \<Rightarrow> TileKey list" where
  "SubTiles_iterate s index =
     (if index < st_count s
      then SubTiles_deref s index # SubTiles_iterate s (SubTiles_Skip s (index + 1)) else [])"
  by pat_completeness auto
termination
proof (relation "measure (\<lambda>(s, i). unat (st_count s) - unat i)")
  fix s :: SubTiles and index :: u32
  assume "index < st_count s"
  moreover from this have "index < index + 1" by (rule word_less_succ)
  ultimately show "((s, SubTiles_Skip s (index + 1)), (s, index)) \<in> measure (\<lambda>(s, i). unat (st_count s) - unat i)"
    using SubTiles_Skip_ge [of "index + 1" s] by (auto simp: word_less_nat_alt word_le_nat_alt)
qed simp

declare SubTiles_iterate.simps [simp del]

definition SubTiles_list :: "SubTiles \<Rightarrow> TileKey list" where
  "SubTiles_list s = SubTiles_iterate s (SubTiles_Skip s 0)"

end
