(* ===== verification/Tile_Codes.thy ===== *)
theory Tile_Codes
  imports Tile_Key
begin

text \<open>
  The codes of a tile key. The 64-bit quad key is described bit by bit: \<open>ToQuadKey64\<close>
  interleaves the bits of row and column below a marker bit at twice the level, and
  \<open>FromQuadKey64\<close> takes them apart again. From that description follow the round trips of the
  three codes (64-bit, base-4 string, decimal \<open>HereTile\<close> string).
\<close>

section \<open>The Morton table\<close>

text \<open>\<open>spread_bits\<close> moves bit \<open>k\<close> to bit \<open>2 k\<close>; each entry of the table is the spread of its index.\<close>

definition spread_bits :: "nat list \<Rightarrow> u64 \<Rightarrow> u64" where
  "spread_bits ks x = foldr (\<lambda>k acc. push_bit k (x AND push_bit k 1) OR acc) ks 0"

lemma bit_spread_bits:
  "bit (spread_bits ks x) n \<longleftrightarrow> n < 64 \<and> (\<exists>k \<in> set ks. n = 2 * k \<and> bit x k)"
  by (induction ks)
    (auto simp: spread_bits_def bit_or_iff bit_push_bit_iff bit_and_iff bit_1_iff bit_exp_iff)

lemma MortonTable256_spread:
  "MortonTable256 = map (\<lambda>i. spread_bits [0..<8] (of_nat i)) [0..<256]"
  by (simp add: MortonTable256_def upt_conv_Cons, simp add: spread_bits_def)

lemma bit_morton_byte:
  "bit (MortonTable256 ! unat (x AND 0xFF :: u32)) n \<longleftrightarrow> n < 16 \<and> even n \<and> bit x (n div 2)"
proof -
  have "unat (x AND 0xFF) < 256"
    by (simp add: and_255 unsigned_take_bit_eq take_bit_nat_less_exp [of 8, simplified])
  then have "MortonTable256 ! unat (x AND 0xFF) = spread_bits [0..<8] (ucast (x AND 0xFF))"
    by (simp add: MortonTable256_spread del: upt_rec_numeral)
  then show ?thesis
    by (auto simp: bit_spread_bits bit_unsigned_iff and_255 bit_take_bit_iff elim!: evenE dest: bit_word32_bound)
qed

lemma unat_double_level: "l < 32 \<Longrightarrow> unat (2 * l :: u32) = 2 * unat l"
  using unat_mult_lem [of "2 :: u32" l] by (simp add: word_less_nat_alt)

lemma bit_level_bit: "l < 32 \<Longrightarrow> bit (push_bit (unat (2 * l :: u32)) (1 :: u64)) n \<longleftrightarrow> n = 2 * unat l"
  by (auto simp: unat_double_level bit_push_bit_iff bit_1_iff bit_exp_iff word_less_nat_alt)

lemma block16_iff:
  assumes "j < (2 :: nat)"
  shows "n mod 2 = j \<and> n div 16 = k \<longleftrightarrow> 16 * k + j \<le> n \<and> n - (16 * k + j) < 16 \<and> even (n - (16 * k + j))"
proof (cases "16 * k + j \<le> n")
  case True
  then obtain d where d: "n = 16 * k + (j + d)" using le_Suc_ex by (metis add.assoc)
  have "n div 16 = k \<longleftrightarrow> j + d < 16" unfolding d by (simp add: div_eq_0_iff)
  moreover have "n mod 2 = (j + d) mod 2" unfolding d by presburger
  moreover have "(j + d) mod 2 = j \<longleftrightarrow> even d" using assms by presburger
  moreover have "even d \<Longrightarrow> j + d < 16 \<longleftrightarrow> d < 16" using assms by presburger
  ultimately show ?thesis using d by auto
next
  case False
  have "16 * (n div 16) + n mod 2 \<le> n" by presburger
  with False show ?thesis by auto
qed

lemma bit_morton_shifted:
  "8 * k \<le> 24 \<Longrightarrow> j < 2 \<Longrightarrow>
   bit (push_bit (16 * k + j) (MortonTable256 ! unat (drop_bit (8 * k) x AND 0xFF :: u32))) n
     \<longleftrightarrow> n mod 2 = j \<and> n div 16 = k \<and> bit x (n div 2)"
proof -
  assume "8 * k \<le> 24" and j: "j < 2"
  have eq: "8 * k + (n - (16 * k + j)) div 2 = n div 2" if "16 * k + j \<le> n" "even (n - (16 * k + j))"
  proof -
    obtain d where d: "n = 16 * k + j + d" using \<open>16 * k + j \<le> n\<close> le_Suc_ex by blast
    with that j show ?thesis by (auto elim!: evenE)
  qed
  have "bit x (n div 2) \<Longrightarrow> n < 64"
    using bit_word32_bound [of x "n div 2"] by simp
  moreover have "bit (push_bit (16 * k + j) (MortonTable256 ! unat (drop_bit (8 * k) x AND 0xFF :: u32))) n
    \<longleftrightarrow> n < 64 \<and> 16 * k + j \<le> n \<and> n - (16 * k + j) < 16 \<and> even (n - (16 * k + j)) \<and>
      bit x (8 * k + (n - (16 * k + j)) div 2)"
    by (simp only: bit_push_bit_iff bit_morton_byte bit_drop_bit_eq o_apply possible_bit_def) auto
  ultimately show ?thesis
    using eq block16_iff [OF j, of n k] by metis
qed

lemma bit_ToQuadKey64:
  assumes "Level t < 32"
  shows "bit (ToQuadKey64 t) n \<longleftrightarrow>
    n = 2 * unat (Level t) \<or> even n \<and> bit (Column t) (n div 2) \<or> odd n \<and> bit (Row t) (n div 2)"
proof -
  note s = bit_morton_shifted [of 0 0, simplified] bit_morton_shifted [of 1 0, simplified] 
    bit_morton_shifted [of 2 0, simplified]  bit_morton_shifted [of 3 0, simplified] 
    bit_morton_shifted [of 1 1, simplified]
    bit_morton_shifted [of 2 1, simplified]  bit_morton_shifted [of 3 1, simplified] 
  have s1: "bit (push_bit 1 (MortonTable256 ! unat (x AND 0xFF :: u32))) n \<longleftrightarrow>
      n mod 2 = 1 \<and> n div 16 = 0 \<and> bit x (n div 2)" for x
    using bit_morton_shifted [of 0 1 x n] by simp
  define k where "k = n div 16"
  have "k = 0 \<or> k = 1 \<or> k = 2 \<or> k = 3" if "n div 2 < 32"
    using that unfolding k_def by auto
  then have "k = 0 \<or> k = 1 \<or> k = 2 \<or> k = 3" if "bit (Column t) (n div 2) \<or> bit (Row t) (n div 2)"
    using that bit_word32_bound by blast
  then show ?thesis
    unfolding ToQuadKey64_def Let_def bit_or_iff s1 s [unfolded One_nat_def [symmetric]] bit_level_bit [OF assms] k_def [symmetric]
     even_iff_mod_2_eq_zero odd_iff_mod_2_eq_one not_mod_2_eq_0_eq_1
    by metis
qed

section \<open>Reading a quad key\<close>

lemma IsValid_bits:
  "IsValid t \<longleftrightarrow> unat (Level t) < 32 \<and>
     (\<forall>n \<ge> unat (Level t). \<not> bit (Row t) n \<and> \<not> bit (Column t) n)"
  by (auto simp: IsValid_def LevelCount_def shl32_def word_less_nat_alt
      less_exp_iff_bits [where 'a = 32, simplified, unfolded word_less_nat_alt])

lemma TileKey_eqI:
  "Row a = Row b \<Longrightarrow> Column a = Column b \<Longrightarrow> Level a = Level b \<Longrightarrow> a = (b :: TileKey)"
  by (cases a; cases b) auto

lemma low_bits: "(q :: u64) AND 0x1 \<noteq> 0 \<longleftrightarrow> bit q 0" "q AND 0x2 \<noteq> 0 \<longleftrightarrow> bit q 1"
proof -
  have "(1 :: u64) = push_bit 0 1" "(2 :: u64) = push_bit 1 1" by simp_all
  then show "q AND 0x1 \<noteq> 0 \<longleftrightarrow> bit q 0" "q AND 0x2 \<noteq> 0 \<longleftrightarrow> bit q 1"
    by (simp_all only: bit_iff_and_push_bit_not_eq_0)
qed

lemma digit_window:
  "L \<le> n \<and> n < L + Suc m \<and> bit q (2 * (n - L) + j) \<longleftrightarrow>
   n = L \<and> bit q j \<or> Suc L \<le> n \<and> n < Suc L + m \<and> bit (drop_bit 2 q) (2 * (n - Suc L) + j)"
proof (cases "n \<le> L")
  case False
  then obtain d where "n = Suc (L + d)" using less_imp_Suc_add not_le by blast
  then show ?thesis by (simp add: bit_drop_bit_eq)
qed auto

lemma FromQuadKey64_loop_bits:
  assumes "top_bit q (2 * m)" "unat (Level t) + m < 32"
  shows "Level (FromQuadKey64_loop q t) = Level t + of_nat m \<and>
    (\<forall>n. bit (Row (FromQuadKey64_loop q t)) n \<longleftrightarrow> bit (Row t) n \<or>
       unat (Level t) \<le> n \<and> n < unat (Level t) + m \<and> bit q (2 * (n - unat (Level t)) + 1)) \<and>
    (\<forall>n. bit (Column (FromQuadKey64_loop q t)) n \<longleftrightarrow> bit (Column t) n \<or>
       unat (Level t) \<le> n \<and> n < unat (Level t) + m \<and> bit q (2 * (n - unat (Level t)) + 0))"
  using assms
proof (induction m arbitrary: q t)
  case 0
  then show ?case by (auto simp: top_bit_0 FromQuadKey64_loop.simps [of 1])
next
  case (Suc m)
  define t' where "t' = \<lparr>Row = if bit q 1 then Row t OR shl32 1 (Level t) else Row t,
     Column = if bit q 0 then Column t OR shl32 1 (Level t) else Column t, Level = Level t + 1\<rparr>"
  have lev: "unat (Level t') = Suc (unat (Level t))"
    using Suc.prems unat_succ [of "Level t" 32] by (simp add: t'_def word_less_nat_alt)
  have top: "top_bit (drop_bit 2 q) (2 * m)"
    using Suc.prems top_bit_drop [of q 2 "2 * m"] by simp
  have "q > 1" using Suc.prems top_bit_gt_1 [of q "Suc (2 * m)"] by simp
  then have eq: "FromQuadKey64_loop q t = FromQuadKey64_loop (drop_bit 2 q) t'"
    by (simp only: FromQuadKey64_loop.simps [of q t] t'_def Let_def low_bits if_True)
  have bits: "bit (shl32 1 (Level t)) n \<longleftrightarrow> n = unat (Level t)" for n
    using Suc.prems by (auto simp: shl32_def bit_push_bit_iff bit_1_iff bit_exp_iff)
  have prem: "unat (Level t') + m < 32" using Suc.prems lev by simp
  have rc: "bit (Row t') n \<longleftrightarrow> bit (Row t) n \<or> n = unat (Level t) \<and> bit q 1"
    "bit (Column t') n \<longleftrightarrow> bit (Column t) n \<or> n = unat (Level t) \<and> bit q 0" for n
    by (auto simp: t'_def bit_or_iff bits)
  have l: "Level t' + of_nat m = Level t + of_nat (Suc m)" by (simp add: t'_def)
  show ?case unfolding eq digit_window [of "unat (Level t)"]
    using Suc.IH [OF top prem] unfolding lev rc l disj_assoc .
qed

lemma FromQuadKey64_bits:
  assumes "top_bit q (2 * m)" "m < 32"
  shows "Level (FromQuadKey64 q) = of_nat m"
    "bit (Row (FromQuadKey64 q)) n \<longleftrightarrow> n < m \<and> bit q (2 * n + 1)"
    "bit (Column (FromQuadKey64 q)) n \<longleftrightarrow> n < m \<and> bit q (2 * n)"
  using FromQuadKey64_loop_bits [OF assms(1), of "FromRowColumnLevel 0 0 0"] assms(2)
  by (auto simp: FromQuadKey64_def FromRowColumnLevel_def)

lemma top_bit_ToQuadKey64:
  assumes "IsValid t" shows "top_bit (ToQuadKey64 t) (2 * unat (Level t))"
  using assms unfolding IsValid_bits top_bit_def
  by (auto simp: bit_ToQuadKey64 word_less_nat_alt)

lemma FromQuadKey64_IsValid:
  "top_bit q (2 * m) \<Longrightarrow> m < 32 \<Longrightarrow> IsValid (FromQuadKey64 q)"
  by (auto simp: IsValid_bits FromQuadKey64_bits unat_of_nat_level)

lemma FromQuadKey64_ToQuadKey64:
  assumes "IsValid t" shows "FromQuadKey64 (ToQuadKey64 t) = t"
proof -
  have l: "unat (Level t) < 32" and hi: "\<And>n. bit (Row t) n \<or> bit (Column t) n \<Longrightarrow> n < unat (Level t)"
    using assms by (auto simp: IsValid_bits not_le [symmetric])
  note b = FromQuadKey64_bits [OF top_bit_ToQuadKey64 [OF assms] l]
  have odd_even: "Suc (2 * a) \<noteq> 2 * b" for a b :: nat by presburger
  have "Row (FromQuadKey64 (ToQuadKey64 t)) = Row t"
    using hi l by (intro bit_eqI) (auto simp: b bit_ToQuadKey64 word_less_nat_alt odd_even)
  moreover have "Column (FromQuadKey64 (ToQuadKey64 t)) = Column t"
    using hi l by (intro bit_eqI) (auto simp: b bit_ToQuadKey64 word_less_nat_alt)
  ultimately show ?thesis by (intro TileKey_eqI) (auto simp: b)
qed

lemma ToQuadKey64_FromQuadKey64:
  assumes "top_bit q (2 * m)" "m < 32" shows "ToQuadKey64 (FromQuadKey64 q) = q"
proof (rule bit_eqI)
  fix n
  have l: "Level (FromQuadKey64 q) < 32" using assms by (auto simp: FromQuadKey64_bits word_less_nat_alt unat_of_nat_level)
  have hi: "bit q k \<Longrightarrow> k \<le> 2 * m" for k using assms(1) by (meson top_bit_def not_le)
  show "bit (ToQuadKey64 (FromQuadKey64 q)) n = bit q n"
    using assms(1) hi [of n] assms(2)
    by (cases "even n") (auto simp: bit_ToQuadKey64 [OF l] FromQuadKey64_bits [OF assms] unat_of_nat_level top_bit_def elim!: evenE oddE)
qed

section \<open>String codes\<close>

lemma unat_quad_digit_word:
  "unat ((q :: u64) div push_bit (2 * i) 1 mod 4) = take_bit 2 (drop_bit (2 * i) (unat q))" if "i < 32"
proof -
  have "unat (push_bit (2 * i) (1 :: u64)) = 2 ^ (2 * i)"
    using that unsigned_of_nat [where 'a = nat and 'b = 64, of "2 ^ (2 * i)"]
    by (simp add: take_bit_nat_eq_self)
  then show ?thesis
    by (simp add: unat_mod unat_div take_bit_eq_mod drop_bit_eq_div)
qed

lemma quad_digit_bits:
  assumes "i < 32"
  shows "of_char (quad_digit q i) = (48 :: nat) + take_bit 2 (drop_bit (2 * i) (unat q))"
    and "j < 2 \<Longrightarrow> bit (int (of_char (quad_digit q i)) - 48) j \<longleftrightarrow> bit q (2 * i + j)"
proof -
  have "take_bit 2 (drop_bit (2 * i) (unat q)) < 4"
    using take_bit_nat_less_exp [of 2 "drop_bit (2 * i) (unat q)"] by simp
  then show d: "of_char (quad_digit q i) = (48 :: nat) + take_bit 2 (drop_bit (2 * i) (unat q))"
    unfolding quad_digit_def unat_quad_digit_word [OF assms] by simp
  show "bit (int (of_char (quad_digit q i)) - 48) j \<longleftrightarrow> bit q (2 * i + j)" if "j < 2"
    using that by (simp add: d bit_of_nat_iff_bit bit_take_bit_iff bit_drop_bit_eq bit_unsigned_iff)
qed

lemma FromQuadKey_fold_bits:
  assumes "k \<le> 32"
  shows "Level (fold (FromQuadKey_step s) [0..<k] t) = Level t"
    "bit (Row (fold (FromQuadKey_step s) [0..<k] t)) n \<longleftrightarrow>
       bit (Row t) n \<or> n < k \<and> bit (int (of_char (s ! (length s - n - 1))) - 48) 1"
    "bit (Column (fold (FromQuadKey_step s) [0..<k] t)) n \<longleftrightarrow>
       bit (Column t) n \<or> n < k \<and> bit (int (of_char (s ! (length s - n - 1))) - 48) 0"
  using assms
  by (induction k)
    (auto simp: FromQuadKey_step_def Let_def bit_or_iff bit_push_bit_iff bit_1_iff bit_exp_iff less_Suc_eq)

lemma ToQuadKey_length:
  "IsValid t \<Longrightarrow> Level t \<noteq> 0 \<Longrightarrow> length (ToQuadKey t) = unat (Level t)"
  by (simp add: ToQuadKey_def)

lemma ToQuadKey_nth:
  "IsValid t \<Longrightarrow> i < unat (Level t) \<Longrightarrow>
   ToQuadKey t ! (length (ToQuadKey t) - i - 1) = quad_digit (ToQuadKey64 t) i"
  by (auto simp: ToQuadKey_def rev_nth)

lemma ToQuadKey_not_dash: "IsValid t \<Longrightarrow> Level t \<noteq> 0 \<Longrightarrow> ToQuadKey t \<noteq> ''-''"
proof
  assume v: "IsValid t" "Level t \<noteq> 0" and eq: "ToQuadKey t = ''-''"
  then have "quad_digit (ToQuadKey64 t) 0 = CHR ''-''" and "0 < unat (Level t)"
    using ToQuadKey_nth [OF v(1), of 0] by (auto simp: unat_gt_0)
  with quad_digit_bits(1) [of 0 "ToQuadKey64 t"] show False by simp
qed

section \<open>Properties\<close>

text \<open>C33: the 64-bit quad key of a valid tile key determines it: reading it back gives the same row,
  column and level.\<close>

theorem quadkey64_roundtrip:
  assumes "IsValid t" shows "FromQuadKey64 (ToQuadKey64 t) = t"
  using assms by (rule FromQuadKey64_ToQuadKey64)

theorem quadkey64_roundtrip_witness:
  "IsValid \<lparr>Row = 5, Column = 3, Level = 3\<rparr> \<and>
   FromQuadKey64 (ToQuadKey64 \<lparr>Row = 5, Column = 3, Level = 3\<rparr>) = \<lparr>Row = 5, Column = 3, Level = 3\<rparr>"
proof -
  have "IsValid \<lparr>Row = 5, Column = 3, Level = 3\<rparr>" by (simp add: IsValid_def LevelCount_def shl32_def)
  with quadkey64_roundtrip [OF this] show ?thesis by simp
qed

text \<open>Every 64-bit number whose highest set bit is at an even position is the quad key of a valid
  tile key, at half that level, and converting to the tile key and back keeps the number.\<close>

theorem quadkey64_surjective:
  assumes "4 ^ m \<le> unat q" "unat q < 2 * 4 ^ m"
  shows "IsValid (FromQuadKey64 q) \<and> Level (FromQuadKey64 q) = of_nat m \<and>
    ToQuadKey64 (FromQuadKey64 q) = q"
proof -
  have "top_bit q (2 * m)" using assms by (simp add: top_bit_iff_unat power_mult)
  moreover from this have "m < 32" using bit_word64_bound [of q "2 * m"] by (simp add: top_bit_def)
  ultimately show ?thesis
    by (simp add: FromQuadKey64_IsValid FromQuadKey64_bits ToQuadKey64_FromQuadKey64)
qed

theorem quadkey64_surjective_witness:
  "ToQuadKey64 (FromQuadKey64 0x5A) = 0x5A \<and> Level (FromQuadKey64 0x5A) = 3"
  using quadkey64_surjective [of 3 "0x5A"] by simp

text \<open>The base-4 string quad key of a valid tile key, the string \<open>-\<close> for the root included, reads back
  as the same tile key.\<close>

theorem quadkey_string_roundtrip:
  assumes v: "IsValid t" shows "FromQuadKey (ToQuadKey t) = t"
proof (cases "Level t = 0")
  case True
  with v show ?thesis
    by (auto simp: ToQuadKey_def FromQuadKey_def FromRowColumnLevel_def IsValid_def shl32_def intro!: TileKey_eqI)
next
  case False
  let ?s = "ToQuadKey t"
  have l: "unat (Level t) < 32" and hi: "\<And>n. bit (Row t) n \<or> bit (Column t) n \<Longrightarrow> n < unat (Level t)"
    using v by (auto simp: IsValid_bits not_le [symmetric])
  have len: "length ?s = unat (Level t)" by (rule ToQuadKey_length [OF v False])
  then have eq: "FromQuadKey ?s = fold (FromQuadKey_step ?s) [0..<unat (Level t)] (FromRowColumnLevel 0 0 (Level t))"
    using ToQuadKey_not_dash [OF v False] False by (auto simp: FromQuadKey_def simp flip: unat_eq_0)
  have d: "n < unat (Level t) \<Longrightarrow> j < 2 \<Longrightarrow>
    bit (int (of_char (?s ! (length ?s - n - 1))) - 48) j \<longleftrightarrow> bit (ToQuadKey64 t) (2 * n + j)" for n j
    using l quad_digit_bits(2) [of n j] ToQuadKey_nth [OF v, of n] by simp
  have odd_even: "Suc (2 * a) \<noteq> 2 * b" for a b :: nat by presburger
  note b = FromQuadKey_fold_bits [of "unat (Level t)" ?s "FromRowColumnLevel 0 0 (Level t)"]
  have bits: "bit (ToQuadKey64 t) (2 * n + 0) \<longleftrightarrow> bit (Column t) n"  "bit (ToQuadKey64 t) (2 * n + 1) \<longleftrightarrow> bit (Row t) n"
    if "n < unat (Level t)" for n using that l by (auto simp: bit_ToQuadKey64 word_less_nat_alt odd_even)
  have "bit (Row (FromQuadKey ?s)) n \<longleftrightarrow> bit (Row t) n" for n
    unfolding eq using l hi [of n] b(2) [of n] bits [of n] d [of n 1] by (auto simp: FromRowColumnLevel_def)
  moreover have "bit (Column (FromQuadKey ?s)) n \<longleftrightarrow> bit (Column t) n" for n
    unfolding eq using l hi [of n] b(3) [of n] bits [of n] d [of n 0] by (auto simp: FromRowColumnLevel_def)
  moreover have "Level (FromQuadKey ?s) = Level t"
    unfolding eq using l b(1) by (simp add: FromRowColumnLevel_def)
  ultimately show ?thesis by (intro TileKey_eqI bit_eqI) simp_all
qed

theorem quadkey_string_roundtrip_witness:
  "FromQuadKey (ToQuadKey \<lparr>Row = 5, Column = 3, Level = 3\<rparr>) = \<lparr>Row = 5, Column = 3, Level = 3\<rparr> \<and>
   FromQuadKey (ToQuadKey \<lparr>Row = 0, Column = 0, Level = 0\<rparr>) = \<lparr>Row = 0, Column = 0, Level = 0\<rparr>"
  using quadkey_string_roundtrip [of "\<lparr>Row = 5, Column = 3, Level = 3\<rparr>"]
    quadkey_string_roundtrip [of "\<lparr>Row = 0, Column = 0, Level = 0\<rparr>"]
  by (simp add: IsValid_def LevelCount_def shl32_def)

text \<open>The decimal string of a valid tile key (\<open>ToHereTile\<close>) reads back as the same tile key; the number
  always fits \<open>strtoull\<close>.\<close>

theorem here_tile_roundtrip:
  assumes "IsValid t" shows "FromHereTile (ToHereTile t) = t"
proof -
  have "unat (ToQuadKey64 t) < 2 ^ 64" using unsigned_less [of "ToQuadKey64 t", where 'a = nat] by simp
  then have "strtoull (dec_digits (unat (ToQuadKey64 t))) = ToQuadKey64 t" by simp
  with assms show ?thesis by (simp add: FromHereTile_def ToHereTile_def FromQuadKey64_ToQuadKey64)
qed

theorem here_tile_roundtrip_witness:
  "FromHereTile (ToHereTile \<lparr>Row = 5, Column = 3, Level = 3\<rparr>) = \<lparr>Row = 5, Column = 3, Level = 3\<rparr>"
  using here_tile_roundtrip [of "\<lparr>Row = 5, Column = 3, Level = 3\<rparr>"]
  by (simp add: IsValid_def LevelCount_def shl32_def)

end
