(* ===== verification/Tile_Navigation.thy ===== *)
theory Tile_Navigation
  imports Tile_Codes
begin

text \<open>
  Moving between tiles: changing the level, parents and children, ancestors as prefixes of the
  quad key, sub keys, relative and absolute sub tile keys, the nearest stored level, the
  subdivision schemes as an interface with two instances, the order of tile keys, and the
  enumeration of the sub tiles of a tile.
\<close>

section \<open>Changing the level\<close>

lemma ChangedLevelBy_up:
  assumes "unat (Level t) + d < 2 ^ 31"
  shows "ChangedLevelBy t (int d) =
    \<lparr>Row = push_bit d (Row t), Column = push_bit d (Column t), Level = Level t + of_nat d\<rparr>"
proof -
  have w: "Level t + of_nat d = of_nat (unat (Level t) + d)" by simp
  have s: "sint (Level t + of_nat d) = int (unat (Level t) + d)"
    unfolding w by (rule sint_of_nat_small [OF assms])
  show ?thesis by (simp add: ChangedLevelBy_def Let_def s TileKey_eqI del: of_nat_add) simp
qed

lemma ChangedLevelBy_down:
  assumes "d \<le> unat (Level t)" "unat (Level t) < 2 ^ 31"
  shows "ChangedLevelBy t (- int d) =
    \<lparr>Row = drop_bit d (Row t), Column = drop_bit d (Column t), Level = Level t - of_nat d\<rparr>"
proof -
  have w: "Level t - of_nat d = of_nat (unat (Level t) - d)"
    using assms by (simp add: of_nat_diff)
  have s: "sint (Level t - of_nat d) = int (unat (Level t) - d)"
    unfolding w using assms by (intro sint_of_nat_small) simp
  show ?thesis by (simp add: ChangedLevelBy_def Let_def s TileKey_eqI) (simp add: w)
qed

lemma ChangedLevelTo_down:
  assumes "l \<le> Level t" "Level t < 32"
  shows "ChangedLevelTo t l =
    \<lparr>Row = drop_bit (unat (Level t) - unat l) (Row t),
     Column = drop_bit (unat (Level t) - unat l) (Column t), Level = l\<rparr>"
proof -
  have le: "unat l \<le> unat (Level t)" "unat (Level t) < 32" using assms by (auto simp: word_le_nat_alt word_less_nat_alt)
  then have s: "sint (l - Level t) = - int (unat (Level t) - unat l)"
    using sint_level_diff [of l "Level t"] by (simp add: of_nat_diff)
  have "Level t - of_nat (unat (Level t) - unat l) = l" using le by (simp add: of_nat_diff)
  then show ?thesis
    unfolding ChangedLevelTo_def s using le
    by (subst ChangedLevelBy_down) (auto simp: of_nat_diff)
qed

lemma ChangedLevelTo_up:
  assumes "Level t \<le> l" "l < 32"
  shows "ChangedLevelTo t l =
    \<lparr>Row = push_bit (unat l - unat (Level t)) (Row t),
     Column = push_bit (unat l - unat (Level t)) (Column t), Level = l\<rparr>"
proof -
  have le: "unat (Level t) \<le> unat l" "unat l < 32" using assms by (auto simp: word_le_nat_alt word_less_nat_alt)
  then have s: "sint (l - Level t) = int (unat l - unat (Level t))"
    using sint_level_diff [of l "Level t"] by (simp add: of_nat_diff)
  have "Level t + of_nat (unat l - unat (Level t)) = l" using le by (simp add: of_nat_diff)
  then show ?thesis
    unfolding ChangedLevelTo_def s using le
    by (subst ChangedLevelBy_up) (auto simp: of_nat_diff)
qed

section \<open>Parents and children\<close>

lemma GetChild_eq:
  assumes "unat (Level t) < 31"
  shows "GetChild t i = \<lparr>Row = push_bit 1 (Row t) OR ucast (drop_bit 1 i),
    Column = push_bit 1 (Column t) OR ucast (i AND 1), Level = Level t + 1\<rparr>"
proof -
  have "ChangedLevelBy t 1 =
    \<lparr>Row = push_bit 1 (Row t), Column = push_bit 1 (Column t), Level = Level t + 1\<rparr>"
    using ChangedLevelBy_up [of t 1] assms by simp
  then show ?thesis by (simp add: GetChild_def Let_def)
qed

lemma index_bits: "(i :: u8) < 4 \<Longrightarrow> bit i k \<Longrightarrow> k < 2"
  using bits_below [of 2 i k] by simp

lemma child_bits:
  assumes "unat (Level t) < 31" "i < 4"
  shows "bit (Row (GetChild t i)) n \<longleftrightarrow> n < 32 \<and> (if n = 0 then bit i 1 else bit (Row t) (n - 1))"
    "bit (Column (GetChild t i)) n \<longleftrightarrow> n < 32 \<and> (if n = 0 then bit i 0 else bit (Column t) (n - 1))"
proof -
  have hi: "\<not> bit i (Suc n)" if "n \<noteq> 0" using index_bits [OF assms(2), of "Suc n"] that by auto
  show "bit (Row (GetChild t i)) n \<longleftrightarrow> n < 32 \<and> (if n = 0 then bit i 1 else bit (Row t) (n - 1))"
    "bit (Column (GetChild t i)) n \<longleftrightarrow> n < 32 \<and> (if n = 0 then bit i 0 else bit (Column t) (n - 1))"
    unfolding GetChild_eq [OF assms(1)] TileKey.select_convs bit_or_iff bit_push_bit_iff
    using hi by (auto simp: bit_and_iff bit_1_iff bit_unsigned_iff bit_drop_bit_eq)
qed

lemma unat_child_level: "unat (Level t) < 31 \<Longrightarrow> unat (Level (GetChild t i)) = Suc (unat (Level t))"
  using unat_succ [of "Level t" 31] by (simp add: GetChild_eq word_less_nat_alt)

lemma GetChild_IsValid:
  assumes "IsValid t" "unat (Level t) < 31" "i < 4" shows "IsValid (GetChild t i)"
  using assms unfolding IsValid_bits by (auto simp: child_bits unat_child_level)

lemma Parent_GetChild:
  assumes "IsValid t" "unat (Level t) < 31" "i < 4" shows "Parent (GetChild t i) = t"
proof -
  have l: "Level (GetChild t i) = Level t + 1" using assms by (simp add: GetChild_eq)
  have "Level (GetChild t i) > 0" using unat_child_level [of t i] assms by (simp add: word_less_nat_alt)
  moreover have hi: "bit (Row t) n \<or> bit (Column t) n \<Longrightarrow> n < 31" for n
    using assms by (meson IsValid_bits not_le order.strict_trans2 less_imp_le)
  have "drop_bit 1 (Row (GetChild t i)) = Row t" "drop_bit 1 (Column (GetChild t i)) = Column t"
    using assms hi by (auto intro!: bit_eqI simp: bit_drop_bit_eq child_bits)
  ultimately show ?thesis by (simp add: Parent_def FromRowColumnLevel_def l TileKey_eqI)
qed

lemma ToQuadKey64_GetChild:
  assumes "IsValid t" "unat (Level t) < 31" "i < 4"
  shows "ToQuadKey64 (GetChild t i) = push_bit 2 (ToQuadKey64 t) OR ucast i"
proof (rule bit_eqI)
  fix n assume n: "possible_bit TYPE(64 word) n"
  have l: "Level t < 32" "Level (GetChild t i) < 32"
    using assms unat_child_level [of t i] by (auto simp: word_less_nat_alt)
  consider "n = 0" | "n = 1" | m where "n = m + 2" by (metis One_nat_def Suc_eq_plus1 add_2_eq_Suc' not0_implies_Suc)
  then show "bit (ToQuadKey64 (GetChild t i)) n = bit (push_bit 2 (ToQuadKey64 t) OR ucast i) n"
  proof cases
    case 3
    have "bit (ucast i :: u64) n = False" using index_bits [OF assms(3), of n] 3 by (auto simp: bit_unsigned_iff)
    moreover have "n div 2 = Suc (m div 2)" "m < 62" using 3 n by auto
    ultimately show ?thesis using assms 3
      by (auto simp: bit_or_iff bit_push_bit_iff bit_ToQuadKey64 l unat_child_level child_bits)
  qed (use assms in \<open>auto simp: bit_or_iff bit_push_bit_iff bit_ToQuadKey64 l unat_child_level child_bits bit_unsigned_iff\<close>)
qed

lemma RelationshipToParent_GetChild:
  assumes "IsValid t" "unat (Level t) < 31" "i < 4" 
  shows "RelationshipToParent (GetChild t i) = i"
proof -
  have "i = 0 \<or> i = 1 \<or> i = 2 \<or> i = 3" using assms(3) by unat_arith
  have "\<not> bit (push_bit 1 x :: u32) 0" for x unfolding bit_push_bit_iff by simp
  then have z: "push_bit 1 x OR (1 :: u32) = push_bit 1 x + 1" for x
    by (metis disjunctive_add bit_1_iff)
  have nz: "Level (GetChild t i) \<noteq> 0" using unat_child_level [of t i] assms(2) by auto
  have r: "Row (GetChild t i) = push_bit 1 (Row t) + ucast (drop_bit 1 i)"
    and c: "Column (GetChild t i) = push_bit 1 (Column t) + ucast (i AND 1)"
    using \<open>i = 0 \<or> i = 1 \<or> i = 2 \<or> i = 3\<close> z by (auto simp: GetChild_eq [OF assms(2)])
  have r0: "Row (GetChild t 0) = push_bit 1 (Row t)" "Column (GetChild t 0) = push_bit 1 (Column t)"
    by (simp_all add: GetChild_eq [OF assms(2)])
  have "RelationshipToParent (GetChild t i) = ucast (ucast (drop_bit 1 i) * 2 + ucast (i AND 1) :: u32)"
    unfolding RelationshipToParent_def Let_def Parent_GetChild [OF assms] r c r0 using nz
    by (simp add: algebra_simps)
  then show ?thesis using \<open>i = 0 \<or> i = 1 \<or> i = 2 \<or> i = 3\<close> by auto
qed

lemma TileKey_eq_iff: "TileKey_eq a b \<longleftrightarrow> a = b"
  by (auto simp: TileKey_eq_def TileKey_eqI)

lemma ChangedLevelTo_IsValid:
  assumes t: "IsValid t" and l: "l \<le> Level t" shows "IsValid (ChangedLevelTo t l)"
  using assms unfolding IsValid_bits
  by (subst (1 2 3 4) ChangedLevelTo_down) (auto simp: bit_drop_bit_eq word_le_nat_alt word_less_nat_alt)

lemma ToQuadKey64_ChangedLevelTo:
  assumes t: "IsValid t" and l: "l \<le> Level t"
  shows "ToQuadKey64 (ChangedLevelTo t l) = drop_bit (2 * (unat (Level t) - unat l)) (ToQuadKey64 t)"
proof (rule bit_eqI)
  fix n
  have lt: "unat (Level t) < 32" "unat l \<le> unat (Level t)" "l < 32"
    using t l by (auto simp: IsValid_bits word_le_nat_alt word_less_nat_alt)
  define d where "d = unat (Level t) - unat l"
  have lev: "2 * d + n = 2 * unat (Level t) \<longleftrightarrow> n = 2 * unat l" using lt d_def by auto
  have down: "ChangedLevelTo t l = \<lparr>Row = drop_bit d (Row t), Column = drop_bit d (Column t), Level = l\<rparr>"
    using ChangedLevelTo_down [of l t] l lt by (simp add: d_def word_less_nat_alt)
  show "bit (ToQuadKey64 (ChangedLevelTo t l)) n =
      bit (drop_bit (2 * (unat (Level t) - unat l)) (ToQuadKey64 t)) n"
    unfolding down d_def [symmetric] using lt lev
    by (auto simp: bit_drop_bit_eq bit_ToQuadKey64 word_less_nat_alt elim!: evenE oddE)
qed

section \<open>Sub keys\<close>

lemma bit_GetSubkey:
  assumes "d < 32"
  shows "bit (QuadKey64Helper_GetSubkey key d) n \<longleftrightarrow> n < 2 * d \<and> bit key n \<or> n = 2 * d"
proof -
  have "bit (push_bit (2 * d) (1 :: u64)) n \<longleftrightarrow> n = 2 * d" using assms bit_exp_word [of "2 * d" n, where 'a = 64] by simp
  then show ?thesis
    unfolding QuadKey64Helper_GetSubkey_def Let_def exp_minus_1_mask bit_or_iff bit_and_iff bit_mask_iff
    using assms by (auto dest: bit_word64_bound)
qed

lemma top_bit_GetSubkey: "d < 32 \<Longrightarrow> top_bit (QuadKey64Helper_GetSubkey key d) (2 * d)"
  by (auto simp: top_bit_def bit_GetSubkey)

lemma AddedSubkey_loop_returns:
  assumes "top_bit s (2 * d)" "d \<le> 30" "k \<le> d"
  shows "AddedSubkey_loop s (push_bit (2 * k) r) (push_bit (2 * k) 1) =
    Some (push_bit (2 * d) r, push_bit (2 * d) 1)"
  using assms(3)
proof (induction "d - k" arbitrary: k)
  case 0
  then have "\<not> push_bit (2 * k + 2) 1 \<le> s" using assms top_bit_ge_iff [of s "2 * d" "2 * k + 2"] by simp
  with 0 show ?case by (subst AddedSubkey_loop.simps) (simp add: push_bit_push_bit add.commute del: push_bit_of_1)
next
  case (Suc j)
  then have "push_bit (2 * k + 2) 1 \<le> s" using assms top_bit_ge_iff [of s "2 * d" "2 * k + 2"] by simp
  then have "AddedSubkey_loop s (push_bit (2 * k) r) (push_bit (2 * k) 1) =
      AddedSubkey_loop s (push_bit (2 * Suc k) r) (push_bit (2 * Suc k) 1)"
    by (subst AddedSubkey_loop.simps) (simp add: push_bit_push_bit add.commute del: push_bit_of_1)
  also have "\<dots> = Some (push_bit (2 * d) r, push_bit (2 * d) 1)" using Suc by (intro Suc.hyps(1)) auto
  finally show ?case .
qed

lemma AddedSubkey_eq:
  assumes "top_bit s (2 * d)" "d \<le> 30"
  shows "QuadKey64Helper_AddedSubkey key s = Some (push_bit (2 * d) key OR take_bit (2 * d) s)"
  using AddedSubkey_loop_returns [OF assms, of 0 key]
  by (simp add: QuadKey64Helper_AddedSubkey_def take_bit_eq_mask mask_eq_exp_minus_1)

lemma AddedSubkey_GetSubkey:
  assumes "d \<le> 30"
  shows "QuadKey64Helper_AddedSubkey (drop_bit (2 * d) key) (QuadKey64Helper_GetSubkey key d) = Some key"
proof -
  have "push_bit (2 * d) (drop_bit (2 * d) key) OR take_bit (2 * d) (QuadKey64Helper_GetSubkey key d) = key"
  proof (rule bit_eqI)
    fix n assume "possible_bit TYPE(64 word) n"
    with assms show "bit (push_bit (2 * d) (drop_bit (2 * d) key) OR
        take_bit (2 * d) (QuadKey64Helper_GetSubkey key d)) n = bit key n"
      by (cases "n < 2 * d") (auto simp: bit_or_iff bit_push_bit_iff bit_drop_bit_eq bit_take_bit_iff
        bit_GetSubkey)
  qed
  with assms top_bit_GetSubkey [of d key] show ?thesis by (simp add: AddedSubkey_eq)
qed

definition power_of_four_or_zero :: "u64 \<Rightarrow> bool" where
  "power_of_four_or_zero m \<longleftrightarrow> m = 0 \<or> (\<exists>k \<le> 31. m = push_bit (2 * k) 1)"

lemma power_of_four_shift:
  assumes "power_of_four_or_zero m"
  shows "power_of_four_or_zero (push_bit 2 m)" "push_bit 2 m \<le> push_bit 62 1"
proof -
  have "push_bit 2 m = 0 \<or> (\<exists>k \<le> 31. push_bit 2 m = push_bit (2 * k) 1)"
  proof (cases "m = 0")
    case False
    then obtain k where k: "k \<le> 31" "m = push_bit (2 * k) 1" using assms by (auto simp: power_of_four_or_zero_def)
    have "push_bit 2 m = push_bit (2 * Suc k) 1" by (simp add: k push_bit_push_bit add.commute del: push_bit_of_1)
    moreover have "push_bit 64 (1 :: u64) = 0" by simp
    ultimately show ?thesis using k by (cases "k = 31") (auto simp del: push_bit_of_1 intro: exI [of _ "Suc k"])
  qed simp
  moreover have "push_bit (2 * k) (1 :: u64) \<le> push_bit 62 1" if "k \<le> 31" for k
    using that top_bit_ge_iff [of "push_bit 62 (1 :: u64)" 62 "2 * k"] by (simp add: top_bit_def bit_exp_word del: push_bit_of_1)
  ultimately show "power_of_four_or_zero (push_bit 2 m)" "push_bit 2 m \<le> push_bit 62 1"
    by (auto simp: power_of_four_or_zero_def)
qed

lemma AddedSubkey_loop_diverges:
  assumes "push_bit 62 1 \<le> s" "power_of_four_or_zero m"
  shows "AddedSubkey_loop s r m = None"
proof (rule ccontr)
  assume "AddedSubkey_loop s r m \<noteq> None"
  then obtain y where y: "AddedSubkey_loop s r m = Some y" by blast
  have "push_bit 62 1 \<le> s \<longrightarrow> \<not> power_of_four_or_zero m"
  proof (rule AddedSubkey_loop.raw_induct
      [where P = "\<lambda>a _ c _. push_bit 62 1 \<le> a \<longrightarrow> \<not> power_of_four_or_zero c", OF _ y])
    fix loop :: "u64 \<Rightarrow> u64 \<Rightarrow> u64 \<Rightarrow> (u64 \<times> u64) option" and a b c y
    assume IH: "\<And>a b c y. loop a b c = Some y \<Longrightarrow> push_bit 62 1 \<le> a \<longrightarrow> \<not> power_of_four_or_zero c"
      and eq: "(if push_bit 2 c \<le> a then loop a (push_bit 2 b) (push_bit 2 c) else Some (b, c)) = Some y"
    show "push_bit 62 1 \<le> a \<longrightarrow> \<not> power_of_four_or_zero c"
    proof (intro impI notI)
      assume a: "push_bit 62 1 \<le> a" and c: "power_of_four_or_zero c"
      have "push_bit 2 c \<le> a" using power_of_four_shift(2) [OF c] a by (rule order_trans)
      with eq have "loop a (push_bit 2 b) (push_bit 2 c) = Some y" by (simp only: if_True)
      from IH [OF this] a power_of_four_shift(1) [OF c] show False by blast
    qed
  qed
  with assms show False by simp
qed

section \<open>Sets of levels\<close>

lemma debruijn_index:
  assumes "m < 32"
  shows "debruijn_lookup_table ! unat (drop_bit 27 (ucast (push_bit m 1 * 0x077CB531 :: u64) :: u32)) = of_nat m"
proof -
  have "m \<in> set [0..<32]" using assms by simp
  then show ?thesis
    by (simp add: upt_conv_Cons debruijn_lookup_table_def) (elim disjE; simp)
qed

lemma GetMinTileKeyLevel_low:
  assumes "low_bit levels m" shows "GetMinTileKeyLevel levels = Some (of_nat m)"
proof -
  have "m < 32" and nz: "levels \<noteq> 0" using assms by (auto simp: low_bit_def dest: bit_word32_bound)
  moreover have "low_bit (ucast levels :: u64) m"
    using assms \<open>m < 32\<close> by (auto simp: low_bit_def bit_unsigned_iff)
  ultimately show ?thesis
    unfolding GetMinTileKeyLevel_def Let_def by (simp only: lowest_bit_isolated debruijn_index if_False)
qed

lemma floor_log2_unique: "2 ^ m \<le> n \<Longrightarrow> n < 2 ^ Suc m \<Longrightarrow> floor_log2 n = m"
proof (induction m arbitrary: n)
  case (Suc m)
  then have "floor_log2 (n div 2) = m" by (intro Suc.IH) auto
  moreover have "2 \<le> n" using Suc.prems(1) by (meson order_trans self_le_power le_refl one_le_numeral zero_less_Suc)
  ultimately show ?case by (simp add: floor_log2.simps [of n])
qed (simp add: floor_log2.simps)

lemma GetMaxTileKeyLevel_top:
  assumes "top_bit levels m" shows "GetMaxTileKeyLevel levels = Some (of_nat m)"
  using assms floor_log2_unique [of m "unat levels"]
  by (auto simp: GetMaxTileKeyLevel_def top_bit_iff_unat)

definition nearest_hit :: "TileKeyLevels \<Rightarrow> int \<Rightarrow> int \<Rightarrow> bool" where
  "nearest_hit levels level d \<longleftrightarrow>
     level + d < 32 \<and> bit levels (nat (level + d)) \<or> level \<ge> d \<and> bit levels (nat (level - d))"

lemma nearest_loop_spec:
  assumes "\<exists>d. dist \<le> d \<and> d < dist + int n \<and> nearest_hit levels level d"
  shows "\<exists>d \<ge> dist. nearest_hit levels level d \<and> (\<forall>d'. dist \<le> d' \<and> d' < d \<longrightarrow> \<not> nearest_hit levels level d') \<and>
     nearest_loop levels level n dist =
       (if level + d < 32 \<and> bit levels (nat (level + d)) then level + d else level - d)"
  using assms
proof (induction n arbitrary: dist)
  case (Suc n)
  show ?case
  proof (cases "nearest_hit levels level dist")
    case True
    then show ?thesis by (intro exI [of _ dist]) (auto simp: nearest_hit_def)
  next
    case False
    obtain d where d: "dist \<le> d" "d < dist + int (Suc n)" "nearest_hit levels level d" using Suc.prems by blast
    with False have "d \<noteq> dist" by auto
    with d have "\<exists>d. dist + 1 \<le> d \<and> d < dist + 1 + int n \<and> nearest_hit levels level d"
      by (intro exI [of _ d]) auto
    from Suc.IH [OF this] obtain e where e: "e \<ge> dist + 1" "nearest_hit levels level e"
      "\<forall>d'. dist + 1 \<le> d' \<and> d' < e \<longrightarrow> \<not> nearest_hit levels level d'"
      "nearest_loop levels level n (dist + 1) =
        (if level + e < 32 \<and> bit levels (nat (level + e)) then level + e else level - e)" by blast
    moreover have "nearest_loop levels level (Suc n) dist = nearest_loop levels level n (dist + 1)"
      using False by (auto simp: nearest_hit_def)
    moreover have "\<not> nearest_hit levels level d'" if "dist \<le> d'" "d' < e" for d'
      using that e(3) False by (cases "d' = dist") auto
    ultimately show ?thesis by (intro exI [of _ e]) auto
  qed
qed auto

lemma nearest_hit_stored:
  assumes "bit levels k" "0 \<le> level" shows "nearest_hit levels level \<bar>int k - level\<bar>"
  using assms bit_word32_bound [of levels k] by (auto simp: nearest_hit_def abs_if)

section \<open>Sub tiles\<close>

definition sub_tile_wanted :: "SubTiles \<Rightarrow> nat \<Rightarrow> bool" where
  "sub_tile_wanted s j \<longleftrightarrow>
     st_mask s = - 1 \<or> bit (st_mask s) (unat (drop_bit (unat (st_shift s)) (of_nat j :: u32)))"

lemma SubTiles_Skip_iterate:
  "SubTiles_iterate s (SubTiles_Skip s i) =
    map (\<lambda>j. SubTiles_deref s (of_nat j)) (filter (sub_tile_wanted s) [unat i..<unat (st_count s)])"
proof (induction "unat (st_count s) - unat i" arbitrary: i rule: less_induct)
  case less
  show ?case
  proof (cases "i < st_count s")
    case True
    then have lt: "unat i < unat (st_count s)" and suc: "unat (i + 1) = Suc (unat i)"
      using unat_succ by (auto simp: word_less_nat_alt)
    have IH: "SubTiles_iterate s (SubTiles_Skip s (i + 1)) =
       map (\<lambda>j. SubTiles_deref s (of_nat j)) (filter (sub_tile_wanted s) [Suc (unat i)..<unat (st_count s)])"
      using less [of "i + 1"] lt by (simp add: suc)
    show ?thesis
    proof (cases "sub_tile_wanted s (unat i)")
      case True
      then have "SubTiles_Skip s i = i" by (subst SubTiles_Skip.simps) (auto simp: sub_tile_wanted_def)
      with True lt \<open>i < st_count s\<close> show ?thesis
        by (simp add: SubTiles_iterate.simps [of s i] IH upt_conv_Cons)
    next
      case False
      then have "SubTiles_Skip s i = SubTiles_Skip s (i + 1)"
        using \<open>i < st_count s\<close> by (subst SubTiles_Skip.simps) (auto simp: sub_tile_wanted_def)
      with False lt show ?thesis by (simp add: IH upt_conv_Cons)
    qed
  next
    case False
    then have "SubTiles_Skip s i = i" by (subst SubTiles_Skip.simps) auto
    with False show ?thesis by (simp add: SubTiles_iterate.simps [of s i] word_less_nat_alt)
  qed
qed

lemma SubTiles_list_eq:
  "SubTiles_list s = map (\<lambda>j. SubTiles_deref s (of_nat j)) (filter (sub_tile_wanted s) [0..<unat (st_count s)])"
  by (simp add: SubTiles_list_def SubTiles_Skip_iterate)

lemma SubTiles_count: "unat l < 16 \<Longrightarrow> unat (st_count (SubTiles_new t l msk)) = 2 ^ (2 * unat l)"
proof -
  assume "unat l < 16"
  then have "unat (push_bit 1 l) = 2 * unat l"
    using unat_double_level [of l] by (simp add: word_less_nat_alt mult.commute)
  with \<open>unat l < 16\<close> show ?thesis
    unfolding SubTiles_new_def shl32_def by (simp add: unat_push_bit_1 del: push_bit_of_1 push_bit_Suc)
qed

lemma SubTiles_deref_bits:
  fixes i :: u32 and msk :: u16
  assumes "IsValid t" "unat l < 16" "unat (Level t) + unat l < 32"
  defines "u \<equiv> SubTiles_deref (SubTiles_new t l msk) i"
  shows "Level u = Level t + l"
    "bit (Row u) n \<longleftrightarrow> unat l \<le> n \<and> n < 32 \<and> bit (Row t) (n - unat l) \<or> bit i (unat l + n)"
    "bit (Column u) n \<longleftrightarrow> (if n < unat l then bit i n else n < 32 \<and> bit (Column t) (n - unat l))"
proof -
  have m: "shl32 1 l - 1 = mask (unat l)" unfolding shl32_def exp_minus_1_mask ..
  show "Level u = Level t + l" by (simp add: u_def SubTiles_deref_def SubTiles_new_def FromRowColumnLevel_def)
  show "bit (Row u) n \<longleftrightarrow> unat l \<le> n \<and> n < 32 \<and> bit (Row t) (n - unat l) \<or> bit i (unat l + n)"
    by (auto simp: u_def SubTiles_deref_def SubTiles_new_def FromRowColumnLevel_def bit_or_iff shl32_def
      bit_push_bit_iff bit_drop_bit_eq)
  show "bit (Column u) n \<longleftrightarrow> (if n < unat l then bit i n else n < 32 \<and> bit (Column t) (n - unat l))"
    unfolding u_def SubTiles_deref_def SubTiles_new_def FromRowColumnLevel_def SubTiles.select_convs
      TileKey.select_convs m bit_or_iff bit_and_iff bit_mask_iff
    using assms(2) by (auto simp: shl32_def bit_push_bit_iff)
qed

lemma SubTiles_deref_descends:
  fixes j :: nat and msk :: u16
  assumes "IsValid t" "unat l < 16" "unat (Level t) + unat l < 32" "j < 2 ^ (2 * unat l)"
  defines "u \<equiv> SubTiles_deref (SubTiles_new t l msk) (of_nat j)"
  shows "IsValid u" "ChangedLevelTo u (Level t) = t"
proof -
  note b = SubTiles_deref_bits [OF assms(1-3), of msk "of_nat j", folded u_def]
  have lev: "unat (Level u) = unat (Level t) + unat l" and l32: "unat (Level t) < 32"
    using assms(3) b(1) by (simp_all add: unat_add_lem [THEN iffD1])
  have hi: "bit (Row t) n \<or> bit (Column t) n \<Longrightarrow> n < unat (Level t)" for n
    using assms(1) by (auto simp: IsValid_bits not_le [symmetric])
  have idx: "n < 2 * unat l" if "bit (of_nat j :: u32) n" for n
  proof -
    have "bit j n" using that by (simp add: bit_of_nat_iff)
    then show ?thesis using assms(4) by (metis bit_take_bit_iff take_bit_nat_eq_self)
  qed
  have le: "Level t \<le> Level u" using lev by (simp add: word_le_nat_alt)
  show "IsValid u" unfolding IsValid_bits using lev assms(3) hi idx by (force simp: b)
  have "drop_bit (unat l) (Row u) = Row t" "drop_bit (unat l) (Column u) = Column t"
    using hi idx assms(3) by (auto intro!: bit_eqI simp: bit_drop_bit_eq b) (force)+
  then show "ChangedLevelTo u (Level t) = t"
    using ChangedLevelTo_down [OF le] lev assms(3) by (simp add: word_less_nat_alt TileKey_eqI)
qed

lemma low_bits_index:
  fixes j :: nat assumes "j < 2 ^ (2 * L)" shows "bit (of_nat j :: u32) n \<Longrightarrow> n < 2 * L"
  using assms by (metis bit_of_nat_iff bit_take_bit_iff take_bit_nat_eq_self)

lemma SubTiles_deref_inj:
  assumes "IsValid t" "unat l < 16" "unat (Level t) + unat l < 32" "i < 2 ^ (2 * unat l)" "j < 2 ^ (2 * unat l)"
    and eq: "SubTiles_deref (SubTiles_new t l msk) (of_nat i) = SubTiles_deref (SubTiles_new t l msk) (of_nat j)"
  shows "i = j"
proof -
  note b = SubTiles_deref_bits(2,3) [OF assms(1-3), where msk = msk]
  have "bit (of_nat i :: u32) n = bit (of_nat j :: u32) n" for n
  proof (cases "n < unat l")
    case True
    then show ?thesis using arg_cong [OF eq, of "\<lambda>u. bit (Column u) n"] by (simp add: b)
  next
    case False
    then obtain k where k: "n = unat l + k" using le_Suc_ex not_less by blast
    show ?thesis
    proof (cases "k < unat l")
      case True
      then show ?thesis using arg_cong [OF eq, of "\<lambda>u. bit (Row u) k"] by (simp add: b k)
    next
      case False
      then show ?thesis using low_bits_index [OF assms(4), of n] low_bits_index [OF assms(5), of n] k by auto
    qed
  qed
  then have w: "(of_nat i :: u32) = of_nat j" by (intro bit_eqI)
  have "2 ^ (2 * unat l) < (2 :: nat) ^ 32" using assms(2) by (intro power_strict_increasing) auto
  then have "unat (of_nat i :: u32) = i" "unat (of_nat j :: u32) = j"
    using assms(4,5) by (simp_all add: unsigned_of_nat take_bit_nat_eq_self)
  with w show ?thesis by metis
qed

lemma SubTiles_deref_surj:
  assumes t: "IsValid t" "unat l < 16" "unat (Level t) + unat l < 32"
    and u: "IsValid u" "Level u = Level t + l" "ChangedLevelTo u (Level t) = t"
  shows "\<exists>j < 2 ^ (2 * unat l). u = SubTiles_deref (SubTiles_new t l msk) (of_nat j)"
proof -
  define i where "i = push_bit (unat l) (take_bit (unat l) (Row u)) OR take_bit (unat l) (Column u)"
  have ib: "bit i n \<longleftrightarrow> (if n < unat l then bit (Column u) n else n < 2 * unat l \<and> bit (Row u) (n - unat l))" for n
    using t(2) bit_word32_bound [of "Column u" n] by (auto simp: i_def bit_or_iff bit_push_bit_iff bit_take_bit_iff)
  have lev: "unat (Level u) = unat (Level t) + unat l"
    using t(3) u(2) by (simp add: unat_add_lem [THEN iffD1])
  have "Row t = drop_bit (unat l) (Row u)" "Column t = drop_bit (unat l) (Column u)"
    using ChangedLevelTo_down [of "Level t" u] lev t(3) u(3)
    by (simp_all add: word_le_nat_alt word_less_nat_alt TileKey.equality split: ) (metis TileKey.select_convs)+
  then have rt: "bit (Row t) n = bit (Row u) (unat l + n)" "bit (Column t) n = bit (Column u) (unat l + n)" for n
    by (auto simp: bit_drop_bit_eq)
  have "i < push_bit (2 * unat l) 1"
    using t(2) by (subst less_exp_iff_bits) (auto simp: ib)
  then have j: "unat i < 2 ^ (2 * unat l)" using t(2) by (simp add: word_less_nat_alt unat_push_bit_1 del: push_bit_of_1)
  note b = SubTiles_deref_bits [OF t, where msk = msk and i = i]
  have "u = SubTiles_deref (SubTiles_new t l msk) i"
    using t(2) by (intro TileKey_eqI bit_eqI) (auto simp: b ib rt u(2) dest: bit_word32_bound)
  with j show ?thesis by (intro exI [of _ "unat i"]) simp
qed

lemma set_SubTiles_list:
  assumes "IsValid t" "unat l < 16" "unat (Level t) + unat l < 32"
  shows "set (SubTiles_list (SubTiles_new t l 0xFFFF)) =
      {u. IsValid u \<and> Level u = Level t + l \<and> ChangedLevelTo u (Level t) = t}"
    and "distinct (SubTiles_list (SubTiles_new t l 0xFFFF))"
    and "length (SubTiles_list (SubTiles_new t l 0xFFFF)) = 4 ^ unat l"
proof -
  let ?s = "SubTiles_new t l 0xFFFF"
  have "sub_tile_wanted ?s j" for j by (simp add: sub_tile_wanted_def SubTiles_new_def)
  then have eq: "SubTiles_list ?s = map (\<lambda>j. SubTiles_deref ?s (of_nat j)) [0..<2 ^ (2 * unat l)]"
    using SubTiles_count [OF assms(2)] by (simp add: SubTiles_list_eq filter_True)
  show "set (SubTiles_list ?s) = {u. IsValid u \<and> Level u = Level t + l \<and> ChangedLevelTo u (Level t) = t}"
    using SubTiles_deref_descends [OF assms] SubTiles_deref_surj [OF assms] SubTiles_deref_bits(1) [OF assms]
    by (auto simp: eq image_iff Bex_def)
  show "distinct (SubTiles_list ?s)"
    using SubTiles_deref_inj [OF assms] by (auto simp: eq distinct_map inj_on_def)
  show "length (SubTiles_list ?s) = 4 ^ unat l" by (simp add: eq power_mult)
qed

section \<open>Subdivision schemes and the order of keys\<close>

locale subdivision_scheme =
  fixes GetSubdivisionAt :: "u32 \<Rightarrow> u32 \<times> u32"
    and GetLevelSize :: "u32 \<Rightarrow> u32 \<times> u32"
  assumes root_size: "GetLevelSize 0 = (1, 1)"
    and next_size: "l < 31 \<Longrightarrow> GetLevelSize (l + 1) =
      (fst (GetLevelSize l) * fst (GetSubdivisionAt l), snd (GetLevelSize l) * snd (GetSubdivisionAt l))"
begin

lemma level_size_product:
  "n \<le> 31 \<Longrightarrow> GetLevelSize (of_nat n) =
     (prod_list (map (\<lambda>l. fst (GetSubdivisionAt (of_nat l))) [0..<n]),
      prod_list (map (\<lambda>l. snd (GetSubdivisionAt (of_nat l))) [0..<n]))"
proof (induction n)
  case (Suc n)
  then have "(of_nat n :: u32) < 31" by (simp add: word_less_nat_alt unat_of_nat_level)
  from next_size [OF this] Suc show ?case by (simp add: add.commute)
qed (simp add: root_size)

end

lemma shl32_succ: "l < 31 \<Longrightarrow> shl32 1 (l + 1) = shl32 1 l * 2"
  using unat_succ [of l 31] by (simp add: shl32_def)

interpretation quad_tree: subdivision_scheme QuadTree_GetSubdivisionAt QuadTree_GetLevelSize
  by unfold_locales
    (auto simp: QuadTree_GetSubdivisionAt_def QuadTree_GetLevelSize_def shl32_succ, simp_all add: shl32_def)

interpretation half_quad_tree: subdivision_scheme HalfQuadTree_GetSubdivisionAt HalfQuadTree_GetLevelSize
proof
  show "HalfQuadTree_GetLevelSize 0 = (1, 1)" by (simp add: HalfQuadTree_GetLevelSize_def shl32_def)
  fix l :: u32
  assume l: "l < 31"
  then have "l + 1 \<noteq> 0" using unat_succ [OF l] by auto
  moreover have "shl32 1 l = shl32 1 (l - 1) * 2" if "l \<noteq> 0"
  proof -
    have "l - 1 < 31" using that l by unat_arith
    from shl32_succ [OF this] show ?thesis by simp
  qed
  ultimately show "HalfQuadTree_GetLevelSize (l + 1) =
      (fst (HalfQuadTree_GetLevelSize l) * fst (HalfQuadTree_GetSubdivisionAt l),
       snd (HalfQuadTree_GetLevelSize l) * snd (HalfQuadTree_GetSubdivisionAt l))"
    using l by (auto simp: HalfQuadTree_GetLevelSize_def HalfQuadTree_GetSubdivisionAt_def shl32_succ shl32_def [of 1 0])
qed

definition TileKey_less_eq :: "TileKey \<Rightarrow> TileKey \<Rightarrow> bool" where
  "TileKey_less_eq a b \<longleftrightarrow> \<not> TileKey_less b a"

interpretation tile_order: linorder TileKey_less_eq TileKey_less
  by unfold_locales
    (auto simp: TileKey_less_eq_def TileKey_less_def split: if_splits intro!: TileKey_eqI)

section \<open>Properties\<close>

text \<open>The four children of a valid tile are valid, have it as their parent, know their quadrant, and their
  64-bit quad keys are those of the tile with the quadrant appended as two low bits.\<close>

theorem child_parent:
  assumes "IsValid t" "unat (Level t) < 31" "i < 4"
  shows "IsValid (GetChild t i) \<and> Parent (GetChild t i) = t \<and> RelationshipToParent (GetChild t i) = i \<and>
    ToQuadKey64 (GetChild t i) = QuadKey64Helper_Child (ToQuadKey64 t) OR ucast i \<and>
    QuadKey64Helper_Parent (ToQuadKey64 (GetChild t i)) = ToQuadKey64 t"
proof -
  have "top_bit (ToQuadKey64 t) (2 * unat (Level t))" using top_bit_ToQuadKey64 assms(1) by simp
  then have hi: "bit (ToQuadKey64 t) n \<Longrightarrow> n < 62" for n
    using assms(2) by (auto simp: top_bit_def not_le [symmetric])
  have no: "\<not> bit i (Suc (Suc n))" for n using index_bits [OF assms(3), of "Suc (Suc n)"] by auto
  have "drop_bit 2 (push_bit 2 (ToQuadKey64 t) OR ucast i) = ToQuadKey64 t"
    using hi by (auto intro!: bit_eqI simp: bit_drop_bit_eq bit_or_iff bit_push_bit_iff bit_unsigned_iff no)
  then show ?thesis using assms
    by (simp only: GetChild_IsValid Parent_GetChild RelationshipToParent_GetChild ToQuadKey64_GetChild
        QuadKey64Helper_Child_def QuadKey64Helper_Parent_def)
qed

theorem child_parent_witness:
  "Parent (GetChild \<lparr>Row = 5, Column = 3, Level = 3\<rparr> 2) = \<lparr>Row = 5, Column = 3, Level = 3\<rparr>"
  using child_parent [of "\<lparr>Row = 5, Column = 3, Level = 3\<rparr>" 2]
  by (simp add: IsValid_def LevelCount_def shl32_def)

text \<open>One valid tile is below another exactly when the 64-bit quad key of the upper one is a proper prefix
  of its own.\<close>

theorem IsChildOf_prefix:
  assumes t: "IsValid t" and p: "IsValid p"
  shows "IsChildOf t p \<longleftrightarrow> Level p < Level t \<and>
    drop_bit (2 * (unat (Level t) - unat (Level p))) (ToQuadKey64 t) = ToQuadKey64 p"
proof (cases "Level p < Level t")
  case True
  then have "Level p \<le> Level t" by simp
  then have "drop_bit (2 * (unat (Level t) - unat (Level p))) (ToQuadKey64 t) = ToQuadKey64 p \<longleftrightarrow>
      ChangedLevelTo t (Level p) = p"
    using FromQuadKey64_ToQuadKey64 [OF p] FromQuadKey64_ToQuadKey64 [OF ChangedLevelTo_IsValid [OF t]]
    by (metis ToQuadKey64_ChangedLevelTo [OF t])
  with True show ?thesis by (simp add: IsChildOf_def TileKey_eq_iff not_le)
next
  case False
  then show ?thesis by (simp add: IsChildOf_def not_le)
qed

theorem IsChildOf_prefix_witness:
  "IsChildOf \<lparr>Row = 5, Column = 3, Level = 3\<rparr> \<lparr>Row = 2, Column = 1, Level = 2\<rparr> \<longleftrightarrow>
   drop_bit 2 (ToQuadKey64 \<lparr>Row = 5, Column = 3, Level = 3\<rparr>) =
     ToQuadKey64 \<lparr>Row = 2, Column = 1, Level = 2\<rparr>"
  using IsChildOf_prefix [of "\<lparr>Row = 5, Column = 3, Level = 3\<rparr>" "\<lparr>Row = 2, Column = 1, Level = 2\<rparr>"]
  by (simp add: IsValid_def LevelCount_def shl32_def)

text \<open>A tile is recovered from its ancestor at any level and the sub key between them, whenever at most 30
  levels lie between; the loop of \<open>AddedSubkey\<close> ends there.\<close>

theorem added_subkey_roundtrip:
  assumes t: "IsValid t" and l: "l \<le> Level t" "unat (Level t) - unat l \<le> 30"
  shows "AddedSubkey64 (ChangedLevelTo t l) (GetSubkey64 t (unat (Level t) - unat l)) = Some t"
proof -
  let ?d = "unat (Level t) - unat l"
  have "ToQuadKey64 (ChangedLevelTo t l) = drop_bit (2 * ?d) (ToQuadKey64 t)"
    by (rule ToQuadKey64_ChangedLevelTo [OF t l(1)])
  then show ?thesis
    using AddedSubkey_GetSubkey [OF l(2)] by (simp add: AddedSubkey64_def GetSubkey64_def FromQuadKey64_ToQuadKey64 [OF t])
qed

theorem added_subkey_roundtrip_witness:
  "AddedSubkey64 (ChangedLevelTo \<lparr>Row = 5, Column = 3, Level = 3\<rparr> 1)
     (GetSubkey64 \<lparr>Row = 5, Column = 3, Level = 3\<rparr> 2) = Some \<lparr>Row = 5, Column = 3, Level = 3\<rparr>"
  using added_subkey_roundtrip [of "\<lparr>Row = 5, Column = 3, Level = 3\<rparr>" 1]
  by (simp add: IsValid_def LevelCount_def shl32_def)

text \<open>The sub key for a level difference of 31, which the documentation allows, makes the loop of
  \<open>AddedSubkey\<close> run for ever: its mask wraps to 0.\<close>

theorem added_subkey_diverges:
  "QuadKey64Helper_AddedSubkey key (QuadKey64Helper_GetSubkey key' 31) = None"
proof -
  have "push_bit 62 1 \<le> QuadKey64Helper_GetSubkey key' 31"
    using top_bit_ge_iff [OF top_bit_GetSubkey [of 31 key'], of 62] by simp
  moreover have "power_of_four_or_zero 1" unfolding power_of_four_or_zero_def by (rule disjI2, rule exI [of _ 0]) simp
  ultimately show ?thesis by (simp add: QuadKey64Helper_AddedSubkey_def AddedSubkey_loop_diverges del: push_bit_of_1)
qed

text \<open>A tile is recovered from its ancestor and its key relative to that ancestor.\<close>

theorem absolute_of_relative:
  assumes t: "IsValid t" and l: "l \<le> Level t"
  shows "GetAbsoluteSubTileKey (ChangedLevelTo t l) (GetRelativeSubTileKey t l) = t"
proof -
  have lt: "unat (Level t) < 32" "unat l \<le> unat (Level t)"
    using t l by (auto simp: IsValid_bits word_le_nat_alt)
  define d where "d = unat (Level t) - unat l"
  have sub: "unat (Level t - l) = d" using l d_def by (simp add: unat_sub)
  have down: "ChangedLevelTo t l = \<lparr>Row = drop_bit d (Row t), Column = drop_bit d (Column t), Level = l\<rparr>"
    using ChangedLevelTo_down [of l t] l lt by (simp add: d_def word_less_nat_alt)
  have up: "ChangedLevelTo (ChangedLevelTo t l) (Level t) = \<lparr>Row = push_bit d (drop_bit d (Row t)),
      Column = push_bit d (drop_bit d (Column t)), Level = Level t\<rparr>"
    using ChangedLevelTo_up [of "ChangedLevelTo t l" "Level t"] l lt by (simp add: down d_def word_less_nat_alt)
  have "sint (Level t - l) = int d" using sint_level_diff [of "Level t" l] lt by (simp add: d_def of_nat_diff)
  moreover have "ChangedLevelBy (ChangedLevelTo t l) (int d) = \<lparr>Row = push_bit d (drop_bit d (Row t)),
      Column = push_bit d (drop_bit d (Column t)), Level = Level t\<rparr>"
    using ChangedLevelBy_up [of "ChangedLevelTo t l" d] lt by (simp add: down d_def of_nat_diff)
  ultimately show ?thesis
    by (simp add: GetAbsoluteSubTileKey_def GetRelativeSubTileKey_def Let_def up FromRowColumnLevel_def TileKey_eqI)
qed

theorem absolute_of_relative_witness:
  "GetAbsoluteSubTileKey (ChangedLevelTo \<lparr>Row = 5, Column = 3, Level = 3\<rparr> 1)
     (GetRelativeSubTileKey \<lparr>Row = 5, Column = 3, Level = 3\<rparr> 1) = \<lparr>Row = 5, Column = 3, Level = 3\<rparr>"
  using absolute_of_relative [of "\<lparr>Row = 5, Column = 3, Level = 3\<rparr>" 1]
  by (simp add: IsValid_def LevelCount_def shl32_def)

text \<open>The level looked up in a non-empty set of stored levels is stored, no stored level is nearer to the
  requested one, and of two equally near levels it is the upper one.\<close>

theorem nearest_level:
  assumes "levels \<noteq> 0"
  shows "\<exists>m. GetNearestAvailableTileKeyLevel levels ref = Some (of_nat m) \<and> bit levels m \<and>
    (\<forall>k. bit levels k \<longrightarrow> \<bar>uint ref - int m\<bar> < \<bar>uint ref - int k\<bar> \<or>
       \<bar>uint ref - int m\<bar> = \<bar>uint ref - int k\<bar> \<and> k \<le> m)"
proof -
  obtain lo hi where lo: "low_bit levels lo" and hi: "top_bit levels hi"
    using low_bit_exists top_bit_exists assms by blast
  have b: "lo < 32" "hi < 32" "lo \<le> hi" using lo hi
    by (auto simp: low_bit_def top_bit_def dest: bit_word32_bound intro: leI)
  have range: "bit levels k \<Longrightarrow> lo \<le> k \<and> k \<le> hi" for k using lo hi by (meson low_bit_def top_bit_def not_le)
  define level where "level = uint (max (min ref (of_nat hi)) (of_nat lo))"
  have ul: "uint (of_nat lo :: u32) = int lo" "uint (of_nat hi :: u32) = int hi"
    using b unat_of_nat_level by (simp_all add: uint_nat)
  have level: "level = max (min (uint ref) (int hi)) (int lo)"
    unfolding level_def using ul by (auto simp: max_def min_def word_le_def)
  then have l0: "0 \<le> level" "int lo \<le> level" "level \<le> int hi" using b by auto
  define n where "n = nat (max \<bar>level - int lo\<bar> \<bar>level - int hi\<bar> + 1)"
  have "nearest_hit levels level \<bar>int lo - level\<bar>"
    using nearest_hit_stored [of levels lo level] lo l0 by (simp add: low_bit_def)
  then have "\<exists>d. 0 \<le> d \<and> d < 0 + int n \<and> nearest_hit levels level d"
    by (intro exI [of _ "\<bar>int lo - level\<bar>"]) (auto simp: n_def)
  from nearest_loop_spec [OF this] obtain d where d: "0 \<le> d" "nearest_hit levels level d"
    "\<forall>d'. 0 \<le> d' \<and> d' < d \<longrightarrow> \<not> nearest_hit levels level d'"
    and res: "nearest_loop levels level n 0 =
       (if level + d < 32 \<and> bit levels (nat (level + d)) then level + d else level - d)" by blast
  define m where "m = nat (nearest_loop levels level n 0)"
  have m: "int m = nearest_loop levels level n 0" "bit levels m"
    using d l0 res by (auto simp: m_def nearest_hit_def)
  have far: "d \<le> \<bar>int k - level\<bar>" if "bit levels k" for k
    using d(3) nearest_hit_stored [OF that l0(1)] by (meson abs_ge_zero not_le)
  have md: "int m = level + d \<or> int m = level - d \<and> \<not> (level + d < 32 \<and> bit levels (nat (level + d)))"
    using res m by auto
  have "\<bar>uint ref - int m\<bar> < \<bar>uint ref - int k\<bar> \<or> \<bar>uint ref - int m\<bar> = \<bar>uint ref - int k\<bar> \<and> k \<le> m"
    if k: "bit levels k" for k
  proof -
    have up: "int m = level - d \<and> int k = level + d \<longrightarrow> d = 0"
    proof (intro impI, elim conjE)
      assume "int m = level - d" "int k = level + d"
      then have "level + d < 32 \<and> bit levels (nat (level + d))"
        using k bit_word32_bound [OF k] by (metis nat_int of_nat_less_iff of_nat_numeral)
      with md \<open>int m = level - d\<close> show "d = 0" by auto
    qed
    show ?thesis
      using far [OF k] md range [OF k] range [OF m(2)] b level l0 up d(1) by (auto simp: max_def min_def abs_if split: if_splits)
  qed
  moreover have "GetNearestAvailableTileKeyLevel levels ref = Some (of_nat m)"
    using m(1) unfolding GetNearestAvailableTileKeyLevel_def GetMinTileKeyLevel_low [OF lo] GetMaxTileKeyLevel_top [OF hi]
    by (simp add: Let_def ul level_def [symmetric] n_def [symmetric] flip: m(1))
  ultimately show ?thesis using m(2) by blast
qed

theorem nearest_level_witness:
  "\<exists>m. GetNearestAvailableTileKeyLevel 0x14 3 = Some (of_nat m) \<and> bit (0x14 :: u32) m"
  using nearest_level [of "0x14" 3] by auto

text \<open>The range-for over the sub tiles of a valid tile with the full mask visits each valid tile that lies
  the given number of levels below it exactly once.\<close>

theorem sub_tiles_enumerated:
  assumes "IsValid t" "unat l < 16" "unat (Level t) + unat l < 32"
  shows "distinct (SubTiles_list (SubTiles_new t l 0xFFFF)) \<and>
    set (SubTiles_list (SubTiles_new t l 0xFFFF)) =
      {u. IsValid u \<and> Level u = Level t + l \<and> ChangedLevelTo u (Level t) = t}"
  using set_SubTiles_list [OF assms] by simp

theorem sub_tiles_enumerated_witness:
  "distinct (SubTiles_list (SubTiles_new \<lparr>Row = 5, Column = 3, Level = 3\<rparr> 2 0xFFFF))"
  using sub_tiles_enumerated [of "\<lparr>Row = 5, Column = 3, Level = 3\<rparr>" 2]
  by (simp add: IsValid_def LevelCount_def shl32_def)

text \<open>The number of rows and columns of a level is the product of the subdivisions of the levels above it,
  in the quad tree and in the half quad tree alike.\<close>

theorem level_sizes_are_products:
  assumes "n \<le> 31"
  shows "QuadTree_GetLevelSize (of_nat n) =
     (prod_list (map (\<lambda>l. fst (QuadTree_GetSubdivisionAt (of_nat l))) [0..<n]),
      prod_list (map (\<lambda>l. snd (QuadTree_GetSubdivisionAt (of_nat l))) [0..<n])) \<and>
   HalfQuadTree_GetLevelSize (of_nat n) =
     (prod_list (map (\<lambda>l. fst (HalfQuadTree_GetSubdivisionAt (of_nat l))) [0..<n]),
      prod_list (map (\<lambda>l. snd (HalfQuadTree_GetSubdivisionAt (of_nat l))) [0..<n]))"
  using quad_tree.level_size_product [OF assms] half_quad_tree.level_size_product [OF assms] by simp

theorem level_sizes_are_products_witness:
  "QuadTree_GetLevelSize 3 = (8, 8) \<and> HalfQuadTree_GetLevelSize 3 = (8, 4)"
  using level_sizes_are_products [of 3]
  by (simp add: QuadTree_GetSubdivisionAt_def HalfQuadTree_GetSubdivisionAt_def upt_conv_Cons)

end
