(* ===== verification/Prefetch_Tiles.thy ===== *)
theory Prefetch_Tiles
  imports Tile_Navigation
begin

text \<open>
  Component dataservice-read: the tiles a prefetch asks for,
  \<open>PrefetchTilesRepository::EffectiveTileKeys\<close> and \<open>GetChildAtLevel\<close>
  (\<open>src/repositories/PrefetchTilesRepository.cpp\<close>).

  \<open>SubQuadsRequest\<close> is a \<open>std::map\<close> from the \<open>HereTile\<close> string to a tile and a depth; it is a
  finite map here, as no operation of this part depends on its order. The recursion and the
  \<open>while\<close> loop of \<open>AddParents\<close> take fuel, and \<open>None\<close> says that it ran out. 72 is enough for every
  tile when the minimum level is at least 1 (tree depth 32 for the recursion plus 40 for the loops
  it starts); for the minimum level 0 no fuel is enough.
\<close>

section \<open>The model\<close>

type_synonym TileKeyAndDepth = "TileKey \<times> int"
type_synonym SubQuadsRequest = "(string, TileKeyAndDepth) fmap"

definition kMaxQuadTreeIndexDepth :: u32 where
  "kMaxQuadTreeIndexDepth = 4"

text \<open>\<open>std::max\<close> on \<open>std::pair<TileKey, int32_t>\<close>: lexicographic, the first argument when not smaller.\<close>

definition pair_less :: "TileKeyAndDepth \<Rightarrow> TileKeyAndDepth \<Rightarrow> bool" where
  "pair_less a b \<longleftrightarrow> TileKey_less (fst a) (fst b) \<or> \<not> TileKey_less (fst b) (fst a) \<and> snd a < snd b"

definition pair_max :: "TileKeyAndDepth \<Rightarrow> TileKeyAndDepth \<Rightarrow> TileKeyAndDepth" where
  "pair_max a b = (if pair_less a b then b else a)"

text \<open>The loops that insert the tiles of one map into another, keeping the greater value of a key.\<close>

definition merge_requests :: "SubQuadsRequest \<Rightarrow> SubQuadsRequest \<Rightarrow> SubQuadsRequest" where
  "merge_requests ret childTiles =
     ret ++\<^sub>f fmmap_keys (\<lambda>k new. case fmlookup ret k of Some old \<Rightarrow> pair_max old new | None \<Rightarrow> new) childTiles"

fun GetChildAtLevel :: "nat \<Rightarrow> TileKey \<Rightarrow> u32 \<Rightarrow> TileKey list option" where
  "GetChildAtLevel 0 tilekey minLevel = None"
| "GetChildAtLevel (Suc fuel) tilekey minLevel =
     (if Level tilekey \<ge> minLevel then Some [tilekey]
      else fold_option (\<lambda>i ret. map_option (\<lambda>child. ret @ child)
             (GetChildAtLevel fuel (GetChild tilekey i) minLevel)) [0, 1, 2, 3] [])"

text \<open>The loop of the lambda \<open>AddParents\<close>; the assignment overwrites an existing entry.\<close>

fun AddParents :: "nat \<Rightarrow> u32 \<Rightarrow> u32 \<Rightarrow> TileKey \<Rightarrow> SubQuadsRequest \<Rightarrow> SubQuadsRequest option" where
  "AddParents 0 minLevel maxLevel tile ret = None"
| "AddParents (Suc fuel) minLevel maxLevel tile ret =
     (if Level tile \<ge> minLevel
      then AddParents fuel minLevel maxLevel (Parent tile)
             (if Level tile \<le> maxLevel then fmupd (ToHereTile tile) (tile, 0) ret else ret)
      else Some ret)"

fun EffectiveTileKeys_tile :: "nat \<Rightarrow> TileKey \<Rightarrow> u32 \<Rightarrow> u32 \<Rightarrow> bool \<Rightarrow> SubQuadsRequest option" where
  "EffectiveTileKeys_tile 0 tilekey minLevel maxLevel addAncestors = None"
| "EffectiveTileKeys_tile (Suc fuel) tilekey minLevel maxLevel addAncestors =
     (let currentLevel = Level tilekey;
          AddChildren = (\<lambda>child ret. map_option (merge_requests ret)
                           (EffectiveTileKeys_tile fuel child minLevel maxLevel False))
      in if currentLevel > maxLevel then AddParents fuel minLevel maxLevel (Parent tilekey) fmempty
         else if currentLevel < minLevel
         then Option.bind (GetChildAtLevel fuel tilekey minLevel)
                (\<lambda>children. fold_option AddChildren children fmempty)
         else Option.bind
                (if addAncestors then AddParents fuel minLevel maxLevel (Parent tilekey) fmempty
                 else Some fmempty)
                (\<lambda>ret. let tilekeyStr = ToHereTile tilekey
                  in if maxLevel - currentLevel \<le> kMaxQuadTreeIndexDepth
                     then Some (fmupd tilekeyStr (tilekey, uint (maxLevel - currentLevel)) ret)
                     else Option.bind
                       (GetChildAtLevel fuel tilekey (currentLevel + kMaxQuadTreeIndexDepth + 1))
                       (\<lambda>children. fold_option AddChildren children
                          (fmupd tilekeyStr (tilekey, uint kMaxQuadTreeIndexDepth) ret))))"

definition EffectiveTileKeys :: "nat \<Rightarrow> TileKey list \<Rightarrow> u32 \<Rightarrow> u32 \<Rightarrow> SubQuadsRequest option" where
  "EffectiveTileKeys fuel tilekeys minLevel maxLevel =
     fold_option (\<lambda>tilekey ret. map_option (merge_requests ret)
       (EffectiveTileKeys_tile fuel tilekey minLevel maxLevel True)) tilekeys fmempty"


section \<open>Descendants\<close>

definition below :: "TileKey \<Rightarrow> TileKey \<Rightarrow> bool" where
  "below u t \<longleftrightarrow> Level t \<le> Level u \<and> ChangedLevelTo u (Level t) = t"

lemma below_iff:
  assumes "IsValid u"
  shows "below u t \<longleftrightarrow> unat (Level t) \<le> unat (Level u) \<and>
    Row t = drop_bit (unat (Level u) - unat (Level t)) (Row u) \<and>
    Column t = drop_bit (unat (Level u) - unat (Level t)) (Column u)"
proof (cases "Level t \<le> Level u")
  case True
  then have "ChangedLevelTo u (Level t) = \<lparr>Row = drop_bit (unat (Level u) - unat (Level t)) (Row u),
     Column = drop_bit (unat (Level u) - unat (Level t)) (Column u), Level = Level t\<rparr>"
    using assms by (intro ChangedLevelTo_down) (auto simp: IsValid_def LevelCount_def)
  with True show ?thesis unfolding below_def by (cases t) (auto simp: word_le_nat_alt)
qed (auto simp: below_def word_le_nat_alt)

lemma below_refl [simp]: "IsValid u \<Longrightarrow> below u u"
  by (simp add: below_iff)

lemma below_same_level: "IsValid u \<Longrightarrow> below u t \<Longrightarrow> Level u = Level t \<Longrightarrow> u = t"
  by (auto simp: below_iff intro: TileKey_eqI)

lemma below_trans: "IsValid u \<Longrightarrow> IsValid v \<Longrightarrow> below u v \<Longrightarrow> below v t \<Longrightarrow> below u t"
  by (auto simp: below_iff)

lemma below_valid: "IsValid u \<Longrightarrow> below u t \<Longrightarrow> IsValid t"
  unfolding below_def by (metis ChangedLevelTo_IsValid)

lemma ancestor_at:
  assumes "IsValid u" "l \<le> Level u"
  shows "IsValid (ChangedLevelTo u l) \<and> below u (ChangedLevelTo u l) \<and> Level (ChangedLevelTo u l) = l"
proof -
  have "Level (ChangedLevelTo u l) = l"
    using assms by (subst ChangedLevelTo_down) (auto simp: IsValid_def LevelCount_def)
  with assms show ?thesis by (simp add: below_def ChangedLevelTo_IsValid)
qed

lemma below_linear:
  assumes "IsValid u" "below u a" "below u b" "Level a \<le> Level b" shows "below b a"
  using assms below_valid [OF assms(1,3)] by (auto simp: below_iff word_le_nat_alt)

lemma below_Parent:
  assumes "IsValid u" "Level u \<noteq> 0"
  shows "below u (Parent u) \<and> IsValid (Parent u) \<and> unat (Level (Parent u)) = unat (Level u) - 1"
proof -
  have "Level u > 0" using assms(2) by (simp add: word_neq_0_conv)
  moreover have l: "unat (Level u - 1) = unat (Level u) - 1" using assms(2) by (simp add: unat_minus_one)
  moreover have "unat (Level u) > 0" using assms(2) by (simp add: unat_gt_0)
  ultimately have "below u (Parent u) \<and> unat (Level (Parent u)) = unat (Level u) - 1"
    using assms(1) by (auto simp: below_iff Parent_def FromRowColumnLevel_def)
  with below_valid assms(1) show ?thesis by blast
qed

lemma below_child_iff:
  assumes t: "IsValid t" "unat (Level t) < 31" and u: "IsValid u" "Level t < Level u"
  shows "below u t \<longleftrightarrow> (\<exists>i \<in> set [0, 1, 2, 3]. below u (GetChild t i))"
proof
  assume "below u t"
  have lt: "unat (Level t) < unat (Level u)" using u by (simp add: word_less_nat_alt)
  then have suc: "unat (Level t + 1) = Suc (unat (Level t))" using unat_succ [OF u(2)] by simp
  define c where "c = ChangedLevelTo u (Level t + 1)"
  have "Level t + 1 \<le> Level u" using lt suc by (simp add: word_le_nat_alt)
  then have c: "IsValid c" "below u c" "Level c = Level t + 1" using ancestor_at [OF u(1)] c_def by auto
  then have "below c t" using below_linear [OF u(1) \<open>below u t\<close> c(2)] suc by (simp add: word_le_nat_alt)
  then have rc: "Row t = drop_bit 1 (Row c)" "Column t = drop_bit 1 (Column c)"
    using c by (auto simp: below_iff suc)
  define i :: u8 where "i = (if bit (Row c) 0 then 2 else 0) + (if bit (Column c) 0 then 1 else 0)"
  have i: "i \<in> set [0, 1, 2, 3]" by (auto simp: i_def)
  have i4: "i < 4" by (auto simp: i_def)
  have ib: "bit i 0 = bit (Column c) 0" "bit i 1 = bit (Row c) 0" "bit i (Suc 0) = bit (Row c) 0"
    by (auto simp: i_def)
  have "GetChild t i = c"
  proof (rule TileKey_eqI)
    show "Row (GetChild t i) = Row c"
      by (rule bit_eqI) (auto simp: child_bits [OF t(2) i4] rc bit_drop_bit_eq ib)
    show "Column (GetChild t i) = Column c"
      by (rule bit_eqI) (auto simp: child_bits [OF t(2) i4] rc bit_drop_bit_eq ib)
    show "Level (GetChild t i) = Level c" using c by (simp add: GetChild_eq t)
  qed
  with i c show "\<exists>i \<in> set [0, 1, 2, 3]. below u (GetChild t i)" by blast
next
  assume "\<exists>i \<in> set [0, 1, 2, 3]. below u (GetChild t i)"
  then obtain i where i: "i \<in> set [0, 1, 2, 3]" "below u (GetChild t i)" by blast
  from i(1) have "i < 4" by auto
  moreover from this have v: "IsValid (GetChild t i)" using GetChild_IsValid t by blast
  moreover have "Level (GetChild t i) \<noteq> 0" using unat_child_level [OF t(2), of i] by auto
  then have "below (GetChild t i) t"
    using Parent_GetChild [OF t \<open>i < 4\<close>] below_Parent [OF v] by auto
  ultimately show "below u t" using below_trans u i(2) by blast
qed

lemma GetChildAtLevel_spec:
  assumes "IsValid t" "unat (Level t) \<le> unat m" "unat m < 32" "unat m - unat (Level t) < fuel"
  shows "\<exists>cs. GetChildAtLevel fuel t m = Some cs \<and>
    set cs = {u. IsValid u \<and> Level u = m \<and> below u t}"
  using assms
proof (induction fuel arbitrary: t)
  case (Suc fuel)
  show ?case
  proof (cases "Level t = m")
    case True
    then show ?thesis using Suc.prems by (auto dest: below_same_level)
  next
    case False
    then have lt: "unat (Level t) < unat m" using Suc.prems word_unat_eq_iff by fastforce
    then have l31: "unat (Level t) < 31" using Suc.prems by simp
    have IH: "\<exists>cs. GetChildAtLevel fuel (GetChild t i) m = Some cs \<and>
        set cs = {u. IsValid u \<and> Level u = m \<and> below u (GetChild t i)}" if "i < 4" for i
      using Suc.prems lt that unat_child_level [OF l31, of i] GetChild_IsValid [OF _ l31 that]
      by (intro Suc.IH) auto
    then obtain g where g: "\<And>i. i < 4 \<Longrightarrow> GetChildAtLevel fuel (GetChild t i) m = Some (g i) \<and>
        set (g i) = {u. IsValid u \<and> Level u = m \<and> below u (GetChild t i)}"
      by metis
    have "fold_option (\<lambda>i ret. map_option (\<lambda>child. ret @ child) (GetChildAtLevel fuel (GetChild t i) m)) [0, 1, 2, 3] [] =
        Some ([] @ concat (map g [0, 1, 2, 3]))"
      using g by (intro fold_option_append_set) auto
    moreover have "\<not> m \<le> Level t" using lt by (simp add: word_le_nat_alt)
    ultimately have "GetChildAtLevel (Suc fuel) t m = Some (concat (map g [0, 1, 2, 3]))" by simp
    moreover have "set (concat (map g [0, 1, 2, 3])) =
        (\<Union>i \<in> set [0, 1, 2, 3]. {u. IsValid u \<and> Level u = m \<and> below u (GetChild t i)})"
      using g by auto
    moreover have "\<dots> = {u. IsValid u \<and> Level u = m \<and> below u t}"
      using below_child_iff [OF Suc.prems(1) l31] lt by (auto simp: word_less_nat_alt simp del: set_simps)
    ultimately show ?thesis by (intro exI [of _ "concat (map g [0, 1, 2, 3])"]) simp
  qed
qed simp

section \<open>What a request covers\<close>

definition wf_request :: "SubQuadsRequest \<Rightarrow> bool" where
  "wf_request req \<longleftrightarrow> (\<forall>k v d. fmlookup req k = Some (v, d) \<longrightarrow>
     IsValid v \<and> k = ToHereTile v \<and> 0 \<le> d \<and> d \<le> 4)"

definition covered :: "SubQuadsRequest \<Rightarrow> TileKey set" where
  "covered req = {u. IsValid u \<and> (\<exists>k v d. fmlookup req k = Some (v, d) \<and>
     below u v \<and> uint (Level u) \<le> uint (Level v) + d)}"

lemma ToHereTile_inj: "IsValid a \<Longrightarrow> IsValid b \<Longrightarrow> ToHereTile a = ToHereTile b \<Longrightarrow> a = b"
proof -
  assume v: "IsValid a" "IsValid b" and eq: "ToHereTile a = ToHereTile b"
  then have "unat (ToQuadKey64 a) = unat (ToQuadKey64 b)"
    using dec_value_dec_digits by (metis ToHereTile_def)
  then have "ToQuadKey64 a = ToQuadKey64 b" by (metis unsigned_word_eqI)
  then show "a = b" using v FromQuadKey64_ToQuadKey64 by metis
qed

lemma covered_empty [simp]: "covered fmempty = {}" "wf_request fmempty"
  by (auto simp: covered_def wf_request_def)

lemma TileKey_less_irrefl [simp]: "\<not> TileKey_less a a"
  by (simp add: TileKey_less_def)

lemma pair_max_same: "pair_max (v, d) (v, e) = (v, max d e)"
  by (auto simp: pair_max_def pair_less_def)

lemma fmlookup_merge:
  "fmlookup (merge_requests a b) k = (case fmlookup b k of None \<Rightarrow> fmlookup a k
     | Some n \<Rightarrow> Some (case fmlookup a k of None \<Rightarrow> n | Some m \<Rightarrow> pair_max m n))"
  by (auto simp: merge_requests_def fmlookup_dom_iff split: option.splits)

lemma merge_requests_spec:
  assumes "wf_request a" "wf_request b"
  shows "wf_request (merge_requests a b)" "covered (merge_requests a b) = covered a \<union> covered b"
proof -
  have cases: "fmlookup (merge_requests a b) k = Some (v, d) \<longleftrightarrow>
      fmlookup a k = Some (v, d) \<and> fmlookup b k = None \<or> fmlookup a k = None \<and> fmlookup b k = Some (v, d) \<or>
      (\<exists>x y. fmlookup a k = Some (v, x) \<and> fmlookup b k = Some (v, y) \<and> d = max x y)" for k v d
  proof (cases "fmlookup a k"; cases "fmlookup b k")
    fix p q assume pq: "fmlookup a k = Some p" "fmlookup b k = Some q"
    then have "fst p = fst q" using assms ToHereTile_inj by (metis prod.collapse wf_request_def)
    with pq show ?thesis by (cases p; cases q) (auto simp: fmlookup_merge pair_max_same)
  qed (auto simp: fmlookup_merge)
  show "wf_request (merge_requests a b)"
    using assms unfolding wf_request_def cases by (metis max_def)
  show "covered (merge_requests a b) = covered a \<union> covered b"
  proof (intro equalityI subsetI)
    fix u assume "u \<in> covered (merge_requests a b)"
    then show "u \<in> covered a \<union> covered b"
      unfolding covered_def cases by (auto simp: max_def split: if_splits)
  next
    fix u assume "u \<in> covered a \<union> covered b"
    then obtain k v d where k: "fmlookup a k = Some (v, d) \<or> fmlookup b k = Some (v, d)"
      and u: "IsValid u" "below u v" "uint (Level u) \<le> uint (Level v) + d"
      by (auto simp: covered_def)
    obtain v' d' where m: "fmlookup (merge_requests a b) k = Some (v', d')"
      using k by (cases "fmlookup (merge_requests a b) k") (auto simp: fmlookup_merge split: option.splits)
    have "v' = v \<and> d \<le> d'" using m k unfolding cases by auto
    with m u show "u \<in> covered (merge_requests a b)" unfolding covered_def by force
  qed
qed

lemma covered_upd:
  assumes "wf_request req" "IsValid v" "0 \<le> d" "d \<le> 4"
    and "\<And>v' d'. fmlookup req (ToHereTile v) = Some (v', d') \<Longrightarrow> d' \<le> d"
  shows "wf_request (fmupd (ToHereTile v) (v, d) req)"
    "covered (fmupd (ToHereTile v) (v, d) req) =
       covered req \<union> {u. IsValid u \<and> below u v \<and> uint (Level u) \<le> uint (Level v) + d}"
proof -
  show "wf_request (fmupd (ToHereTile v) (v, d) req)" using assms by (auto simp: wf_request_def)
  show "covered (fmupd (ToHereTile v) (v, d) req) =
       covered req \<union> {u. IsValid u \<and> below u v \<and> uint (Level u) \<le> uint (Level v) + d}"
  proof (intro equalityI subsetI)
    fix u assume "u \<in> covered (fmupd (ToHereTile v) (v, d) req)"
    then show "u \<in> covered req \<union> {u. IsValid u \<and> below u v \<and> uint (Level u) \<le> uint (Level v) + d}"
      unfolding covered_def by (auto split: if_splits)
  next
    fix u assume u: "u \<in> covered req \<union> {u. IsValid u \<and> below u v \<and> uint (Level u) \<le> uint (Level v) + d}"
    show "u \<in> covered (fmupd (ToHereTile v) (v, d) req)"
    proof (cases "u \<in> covered req")
      case True
      then obtain k v' d' where k: "IsValid u" "fmlookup req k = Some (v', d')" "below u v'"
        "uint (Level u) \<le> uint (Level v') + d'" by (auto simp: covered_def)
      show ?thesis
      proof (cases "k = ToHereTile v")
        case True
        then have "v' = v" using k assms(1,2) ToHereTile_inj by (metis wf_request_def)
        moreover have "d' \<le> d" using assms(5) k True by blast
        ultimately show ?thesis using k unfolding covered_def by force
      qed (use k in \<open>auto simp: covered_def intro!: exI [of _ k]\<close>)
    qed (use u in \<open>auto simp: covered_def\<close>)
  qed
qed

definition depth_zero :: "SubQuadsRequest \<Rightarrow> bool" where
  "depth_zero req \<longleftrightarrow> (\<forall>k v d. fmlookup req k = Some (v, d) \<longrightarrow> d = 0)"

lemma depth_zero_simps [simp]: "depth_zero fmempty" "depth_zero req \<Longrightarrow> depth_zero (fmupd k (v, 0) req)"
  by (auto simp: depth_zero_def)

lemma below_Parent_iff:
  assumes "IsValid t" "Level t \<noteq> 0"
  shows "below t a \<longleftrightarrow> a = t \<or> below (Parent t) a"
proof
  note p = below_Parent [OF assms]
  have pos: "0 < unat (Level t)" using assms(2) by (simp add: unat_gt_0)
  assume a: "below t a"
  show "a = t \<or> below (Parent t) a"
  proof (cases "Level a = Level t")
    case False
    then have "Level a \<le> Level (Parent t)" using a p pos
      by (auto simp: below_def word_le_nat_alt) (metis One_nat_def Suc_pred less_Suc_eq_le order_le_less unsigned_word_eqI)
    then show ?thesis using below_linear assms(1) a p by blast
  qed (use a below_same_level [OF assms(1) a] in auto)
next
  assume "a = t \<or> below (Parent t) a"
  then show "below t a" using assms(1) below_Parent [OF assms] below_trans below_refl by blast
qed

lemma AddParents_spec:
  assumes "IsValid tile" "0 < unat minL" "unat (Level tile) + 1 < fuel" "wf_request ret" "depth_zero ret"
  shows "\<exists>r. AddParents fuel minL maxL tile ret = Some r \<and> wf_request r \<and> depth_zero r \<and>
    covered r = covered ret \<union> {a. IsValid a \<and> below tile a \<and> minL \<le> Level a \<and> Level a \<le> maxL}"
  using assms
proof (induction fuel arbitrary: tile ret)
  case (Suc fuel)
  show ?case
  proof (cases "minL \<le> Level tile")
    case False
    then have "{a. IsValid a \<and> below tile a \<and> minL \<le> Level a \<and> Level a \<le> maxL} = {}"
      by (auto simp: below_def)
    with False Suc.prems show ?thesis by auto
  next
    case True
    have nz: "Level tile \<noteq> 0" using True Suc.prems(2) by (auto simp: word_le_nat_alt)
    note p = below_Parent [OF Suc.prems(1) nz]
    have pos: "0 < unat (Level tile)" using nz by (simp add: unat_gt_0)
    define ret' where "ret' = (if Level tile \<le> maxL then fmupd (ToHereTile tile) (tile, 0) ret else ret)"
    have one: "{u. IsValid u \<and> below u tile \<and> uint (Level u) \<le> uint (Level tile) + 0} = {tile}"
    proof -
      have "u = tile" if "IsValid u" "below u tile" "uint (Level u) \<le> uint (Level tile)" for u
        using that by (intro below_same_level antisym) (auto simp: below_def simp flip: word_le_def)
      then show ?thesis using Suc.prems(1) below_refl by auto
    qed
    have dz: "\<And>v' d'. fmlookup ret (ToHereTile tile) = Some (v', d') \<Longrightarrow> d' \<le> 0"
      using Suc.prems(5) by (auto simp: depth_zero_def)
    have up: "wf_request (fmupd (ToHereTile tile) (tile, 0) ret)"
        "covered (fmupd (ToHereTile tile) (tile, 0) ret) = covered ret \<union> {tile}"
      using covered_upd [OF Suc.prems(4,1) order_refl _ dz] by (simp_all only: one)
    have ret': "wf_request ret'" "depth_zero ret'"
      "covered ret' = covered ret \<union> (if Level tile \<le> maxL then {tile} else {})"
      using Suc.prems up by (auto simp: ret'_def)
    have "\<exists>r. AddParents fuel minL maxL (Parent tile) ret' = Some r \<and> wf_request r \<and> depth_zero r \<and>
      covered r = covered ret' \<union> {a. IsValid a \<and> below (Parent tile) a \<and> minL \<le> Level a \<and> Level a \<le> maxL}"
      using Suc.prems p ret' pos by (intro Suc.IH) auto
    moreover have "AddParents (Suc fuel) minL maxL tile ret = AddParents fuel minL maxL (Parent tile) ret'"
      using True by (simp add: ret'_def)
    ultimately show ?thesis using True Suc.prems(1) ret'(3) below_Parent_iff [OF Suc.prems(1) nz] by auto
  qed
qed simp

lemma fold_merge_spec:
  assumes "\<And>c. c \<in> set cs \<Longrightarrow> \<exists>r. E c = Some r \<and> wf_request r \<and> covered r = S c" "wf_request r0"
  shows "\<exists>r. fold_option (\<lambda>c ret. map_option (merge_requests ret) (E c)) cs r0 = Some r \<and> wf_request r \<and>
    covered r = covered r0 \<union> (\<Union>c \<in> set cs. S c)"
  using assms
proof (induction cs arbitrary: r0)
  case (Cons c cs)
  then obtain r where r: "E c = Some r" "wf_request r" "covered r = S c" by force
  note m = merge_requests_spec [OF Cons.prems(2) r(2)]
  from Cons.IH [OF Cons.prems(1) m(1)] m(2) r show ?case by (auto simp: Un_assoc)
qed simp

section \<open>The tiles of a prefetch\<close>

definition related_tiles :: "TileKey \<Rightarrow> u32 \<Rightarrow> u32 \<Rightarrow> bool \<Rightarrow> TileKey set" where
  "related_tiles t minL maxL anc =
     {u. IsValid u \<and> minL \<le> Level u \<and> Level u \<le> maxL \<and> (below u t \<or> anc \<and> below t u)}"

lemma below_split:
  assumes "IsValid u" "unat (Level t) \<le> unat l" "l \<le> Level u"
  shows "below u t \<longleftrightarrow> (\<exists>c. IsValid c \<and> Level c = l \<and> below c t \<and> below u c)"
proof
  assume "below u t"
  then show "\<exists>c. IsValid c \<and> Level c = l \<and> below c t \<and> below u c"
    using ancestor_at [OF assms(1,3)] below_linear [OF assms(1) \<open>below u t\<close>] assms(2)
    by (intro exI [of _ "ChangedLevelTo u l"]) (auto simp: word_le_nat_alt)
qed (use below_trans assms(1) in blast)

text \<open>What a recursive call of \<open>EffectiveTileKeys\<close> on a tile below \<open>t\<close> gives.\<close>

definition calls_ok :: "nat \<Rightarrow> TileKey \<Rightarrow> u32 \<Rightarrow> u32 \<Rightarrow> bool" where
  "calls_ok fuel t minL maxL \<longleftrightarrow> (\<forall>c. IsValid c \<and> unat (Level t) < unat (Level c) \<longrightarrow>
     (\<exists>r. EffectiveTileKeys_tile fuel c minL maxL False = Some r \<and> wf_request r \<and>
        covered r = related_tiles c minL maxL (Level c > maxL)))"

abbreviation AddChildren_all :: "nat \<Rightarrow> u32 \<Rightarrow> u32 \<Rightarrow> TileKey list \<Rightarrow> SubQuadsRequest \<Rightarrow> SubQuadsRequest option" where
  "AddChildren_all fuel minL maxL cs r0 \<equiv>
     fold_option (\<lambda>c ret. map_option (merge_requests ret) (EffectiveTileKeys_tile fuel c minL maxL False)) cs r0"

lemma AddChildren_all_spec:
  assumes "calls_ok fuel t minL maxL" "wf_request r0" "unat (Level t) < unat l"
    and "set cs = {u. IsValid u \<and> Level u = l \<and> below u t}"
  shows "\<exists>r. AddChildren_all fuel minL maxL cs r0 = Some r \<and> wf_request r \<and>
      covered r = covered r0 \<union> (\<Union>c \<in> set cs. related_tiles c minL maxL (l > maxL))"
proof (rule fold_merge_spec [OF _ assms(2)])
  fix c assume "c \<in> set cs"
  then have "IsValid c" "Level c = l" using assms(4) by auto
  then show "\<exists>r. EffectiveTileKeys_tile fuel c minL maxL False = Some r \<and> wf_request r \<and>
      covered r = related_tiles c minL maxL (l > maxL)"
    using assms(1,3) unfolding calls_ok_def by metis
qed

lemma related_tiles_from_level:
  assumes cs: "set cs = {u. IsValid u \<and> Level u = l \<and> below u t}"
    and l: "unat (Level t) < unat l" "minL \<le> l" "l \<le> maxL"
  shows "(\<Union>c \<in> set cs. related_tiles c minL maxL (l > maxL)) =
      {u. IsValid u \<and> l \<le> Level u \<and> Level u \<le> maxL \<and> below u t}"
proof -
  have "(\<exists>c. (IsValid c \<and> Level c = l \<and> below c t) \<and> minL \<le> Level u \<and> below u c) \<longleftrightarrow> l \<le> Level u \<and> below u t"
    if u: "IsValid u" for u
  proof
    assume "\<exists>c. (IsValid c \<and> Level c = l \<and> below c t) \<and> minL \<le> Level u \<and> below u c"
    then obtain c where "IsValid c" "Level c = l" "below c t" "below u c" by blast
    then show "l \<le> Level u \<and> below u t" using below_trans [OF u] by (auto simp: below_def)
  next
    assume a: "l \<le> Level u \<and> below u t"
    then have "minL \<le> Level u" using l(2) by auto
    with a below_split [OF u, of t l] l(1) show
      "\<exists>c. (IsValid c \<and> Level c = l \<and> below c t) \<and> minL \<le> Level u \<and> below u c" by auto
  qed
  then show ?thesis unfolding cs related_tiles_def using l(3) by (auto simp: not_less [symmetric])
qed

lemma parents_spec:
  assumes t: "IsValid t" "Level t \<noteq> 0" and "0 < unat minL" "40 \<le> fuel"
  shows "\<exists>r. AddParents fuel minL maxL (Parent t) fmempty = Some r \<and> wf_request r \<and> depth_zero r \<and>
      covered r = {a. IsValid a \<and> below (Parent t) a \<and> minL \<le> Level a \<and> Level a \<le> maxL}"
proof -
  have "unat (Level (Parent t)) < 32" using below_Parent [OF t] by (simp add: IsValid_bits)
  then show ?thesis
    using AddParents_spec [of "Parent t" minL fuel fmempty maxL] below_Parent [OF t] assms(3,4) by auto
qed

lemma EffectiveTileKeys_above:
  assumes t: "IsValid t" and "0 < unat minL" "40 \<le> fuel" and 1: "Level t > maxL"
  shows "\<exists>r. EffectiveTileKeys_tile (Suc fuel) t minL maxL anc = Some r \<and> wf_request r \<and>
    covered r = related_tiles t minL maxL True"
proof -
  have nz: "Level t \<noteq> 0" using 1 by auto
  from parents_spec [OF t nz assms(2,3)] obtain r where
    r: "AddParents fuel minL maxL (Parent t) fmempty = Some r" "wf_request r"
    "covered r = {a. IsValid a \<and> below (Parent t) a \<and> minL \<le> Level a \<and> Level a \<le> maxL}" by blast
  have "covered r = related_tiles t minL maxL True"
    unfolding r(3) related_tiles_def using below_Parent_iff [OF t nz] 1 by (auto simp: below_def)
  with r 1 show ?thesis by (simp add: Let_def)
qed

lemma EffectiveTileKeys_before:
  assumes t: "IsValid t" and "unat minL < 32" "40 \<le> fuel" "calls_ok fuel t minL maxL"
    and 2: "Level t \<le> maxL" "Level t < minL"
  shows "\<exists>r. EffectiveTileKeys_tile (Suc fuel) t minL maxL anc = Some r \<and> wf_request r \<and>
    covered r = related_tiles t minL maxL anc"
proof -
  have lt: "unat (Level t) < unat minL" using 2 by (simp add: word_less_nat_alt)
  obtain cs where cs: "GetChildAtLevel fuel t minL = Some cs"
    "set cs = {u. IsValid u \<and> Level u = minL \<and> below u t}"
  proof -
    have "unat minL - unat (Level t) < fuel" using assms(2,3) by linarith
    from GetChildAtLevel_spec [OF t less_imp_le [OF lt] assms(2) this] that show thesis by blast
  qed
  from AddChildren_all_spec [OF assms(4) covered_empty(2) lt cs(2)] obtain r where
    r: "AddChildren_all fuel minL maxL cs fmempty = Some r" "wf_request r"
    "covered r = (\<Union>c \<in> set cs. related_tiles c minL maxL (minL > maxL))" by auto
  have no: "\<not> (below t u \<and> minL \<le> Level u)" for u using 2 by (auto simp: below_def)
  have "covered r = related_tiles t minL maxL anc"
  proof (cases "minL > maxL")
    case True
    then show ?thesis unfolding r(3) related_tiles_def by auto
  next
    case False
    have "covered r = {u. IsValid u \<and> minL \<le> Level u \<and> Level u \<le> maxL \<and> below u t}"
      using r(3) related_tiles_from_level [OF cs(2) lt order_refl leI [OF False]] by simp
    with no show ?thesis unfolding related_tiles_def by auto
  qed
  moreover have "EffectiveTileKeys_tile (Suc fuel) t minL maxL anc = Some r"
    using r(1) cs(1) 2 leD [OF 2(1)] by (simp add: Let_def)
  ultimately show ?thesis using r(2) by (auto simp del: EffectiveTileKeys_tile.simps)
qed

lemma deep_level:
  assumes "Level t \<le> maxL" "unat maxL < 32" "\<not> maxL - Level t \<le> 4"
  shows "unat (Level t + kMaxQuadTreeIndexDepth + 1) = unat (Level t) + 5 \<and> unat (Level t) + 5 \<le> unat maxL"
proof -
  have "unat (maxL - Level t) = unat maxL - unat (Level t)" using assms(1) by (simp add: unat_sub)
  moreover have "4 < unat (maxL - Level t)" using assms(3) by (simp add: word_le_nat_alt)
  ultimately have le: "unat (Level t) + 5 \<le> unat maxL" by simp
  have "Level t + kMaxQuadTreeIndexDepth + 1 = of_nat (unat (Level t) + 5)"
    by (simp add: kMaxQuadTreeIndexDepth_def add.assoc)
  with le assms(2) show ?thesis by (simp only: unat_of_nat_level)
qed

lemma EffectiveTileKeys_within:
  assumes t: "IsValid t" and "0 < unat minL" "unat maxL < 32" "40 \<le> fuel" "calls_ok fuel t minL maxL"
    and 3: "Level t \<le> maxL" "minL \<le> Level t"
  shows "\<exists>r. EffectiveTileKeys_tile (Suc fuel) t minL maxL anc = Some r \<and> wf_request r \<and>
    covered r = related_tiles t minL maxL anc"
proof -
  have nz: "Level t \<noteq> 0" using 3 assms(2) by (auto simp: word_le_nat_alt)
  define A where "A = (if anc then {a. IsValid a \<and> below (Parent t) a \<and> minL \<le> Level a \<and> Level a \<le> maxL} else {})"
  obtain r0 where r0: "(if anc then AddParents fuel minL maxL (Parent t) fmempty else Some fmempty) = Some r0"
    "wf_request r0" "depth_zero r0" "covered r0 = A"
    using parents_spec [OF t nz assms(2,4)] by (cases anc) (auto simp: A_def)
  have dz: "\<And>v' d'. fmlookup r0 (ToHereTile t) = Some (v', d') \<Longrightarrow> d' = 0"
    using r0(3) by (auto simp: depth_zero_def)
  have upd: "wf_request (fmupd (ToHereTile t) (t, d) r0)"
    "covered (fmupd (ToHereTile t) (t, d) r0) = A \<union> {u. IsValid u \<and> below u t \<and> uint (Level u) \<le> uint (Level t) + d}"
    if "0 \<le> d" "d \<le> 4" for d
    using covered_upd [OF r0(2) t that] dz that r0(4) by auto
  have rel: "related_tiles t minL maxL anc = A \<union> {u. IsValid u \<and> below u t \<and> Level u \<le> maxL}"
    unfolding related_tiles_def A_def using below_Parent_iff [OF t nz] 3 t by (auto simp: below_def)
  have diff: "uint (maxL - Level t) = uint maxL - uint (Level t)"
    using 3 by (simp add: uint_sub_lem [THEN iffD1] word_le_def)
  show ?thesis
  proof (cases "maxL - Level t \<le> 4")
    case True
    then have "uint maxL - uint (Level t) \<le> 4" "0 \<le> uint maxL - uint (Level t)"
      using diff 3 by (auto simp: word_le_def)
    note u = upd [OF this(2,1)]
    have "EffectiveTileKeys_tile (Suc fuel) t minL maxL anc =
        Some (fmupd (ToHereTile t) (t, uint maxL - uint (Level t)) r0)"
      using r0(1) True leD [OF 3(1)] leD [OF 3(2)] by (simp add: Let_def kMaxQuadTreeIndexDepth_def diff)
    moreover have "covered (fmupd (ToHereTile t) (t, uint maxL - uint (Level t)) r0) = related_tiles t minL maxL anc"
      unfolding u(2) rel by (simp add: word_le_def)
    ultimately show ?thesis using u(1) by blast
  next
    case False
    let ?l = "Level t + kMaxQuadTreeIndexDepth + 1"
    have l: "unat ?l = unat (Level t) + 5" "unat (Level t) + 5 \<le> unat maxL"
      using deep_level [OF 3(1) assms(3) False] by auto
    obtain cs where cs: "GetChildAtLevel fuel t ?l = Some cs"
      "set cs = {u. IsValid u \<and> Level u = ?l \<and> below u t}"
    proof -
      have "unat (Level t) \<le> unat ?l" "unat ?l < 32" "unat ?l - unat (Level t) < fuel" using l assms(3,4) by linarith+
      from GetChildAtLevel_spec [OF t this] that show thesis by blast
    qed
    have ul: "uint (Level u) \<le> uint (Level t) + 4 \<longleftrightarrow> \<not> ?l \<le> Level u" for u :: TileKey
      unfolding word_le_nat_alt l(1) using uint_nat [of "Level u"] uint_nat [of "Level t"] by linarith
    have lm: "minL \<le> ?l" "?l \<le> maxL" "unat (Level t) < unat ?l" using l 3 by (auto simp: word_le_nat_alt)
    let ?r1 = "fmupd (ToHereTile t) (t, uint kMaxQuadTreeIndexDepth) r0"
    have "uint kMaxQuadTreeIndexDepth = 4" by (simp add: kMaxQuadTreeIndexDepth_def)
    then have r1: "wf_request ?r1" "covered ?r1 = A \<union> {u. IsValid u \<and> below u t \<and> \<not> ?l \<le> Level u}"
      using upd [of 4] unfolding ul by simp_all
    from AddChildren_all_spec [OF assms(5) r1(1) lm(3) cs(2)] obtain r where
      r: "AddChildren_all fuel minL maxL cs ?r1 = Some r" "wf_request r"
      "covered r = covered ?r1 \<union> (\<Union>c \<in> set cs. related_tiles c minL maxL (?l > maxL))" by blast
    have "covered r = (A \<union> {u. IsValid u \<and> below u t \<and> \<not> ?l \<le> Level u}) \<union>
        {u. IsValid u \<and> ?l \<le> Level u \<and> Level u \<le> maxL \<and> below u t}"
      using r(3) r1(2) related_tiles_from_level [OF cs(2) lm(3,1,2)] by simp
    also have "\<dots> = related_tiles t minL maxL anc"
      unfolding rel using lm(2) order_trans [OF less_imp_le lm(2)] by (auto simp: not_le)
    finally have "covered r = related_tiles t minL maxL anc" .
    moreover have "EffectiveTileKeys_tile (Suc fuel) t minL maxL anc = Some r"
      using r(1) r0(1) cs(1) False leD [OF 3(1)] leD [OF 3(2)] by (simp add: Let_def kMaxQuadTreeIndexDepth_def)
    ultimately show ?thesis using r(2) by blast
  qed
qed

lemma EffectiveTileKeys_tile_spec:
  assumes "IsValid t" "0 < unat minL" "unat minL < 32" "unat maxL < 32" "72 \<le> fuel + unat (Level t)"
  shows "\<exists>r. EffectiveTileKeys_tile fuel t minL maxL anc = Some r \<and> wf_request r \<and>
    covered r = related_tiles t minL maxL (anc \<or> Level t > maxL)"
  using assms(1,5)
proof (induction fuel arbitrary: t anc)
  case 0
  then show ?case by (simp add: IsValid_bits)
next
  case (Suc fuel)
  have f: "40 \<le> fuel" using Suc.prems by (simp add: IsValid_bits)
  have ok: "calls_ok fuel t minL maxL"
    unfolding calls_ok_def using Suc.IH [where anc = False] Suc.prems(2) by simp
  consider "Level t > maxL" | "Level t \<le> maxL" "Level t < minL" | "Level t \<le> maxL" "minL \<le> Level t" by fastforce
  then show ?case
  proof cases
    case 1
    with EffectiveTileKeys_above [OF Suc.prems(1) assms(2) f 1] show ?thesis by (simp del: EffectiveTileKeys_tile.simps)
  next
    case 2
    with EffectiveTileKeys_before [OF Suc.prems(1) assms(3) f ok 2, of anc] show ?thesis
      by (simp add: leD del: EffectiveTileKeys_tile.simps)
  next
    case 3
    with EffectiveTileKeys_within [OF Suc.prems(1) assms(2,4) f ok 3, of anc] show ?thesis
      by (simp add: leD del: EffectiveTileKeys_tile.simps)
  qed
qed

lemma EffectiveTileKeys_spec:
  assumes "\<And>t. t \<in> set ts \<Longrightarrow> IsValid t" "0 < unat minL" "unat minL < 32" "unat maxL < 32" "72 \<le> fuel"
  shows "\<exists>r. EffectiveTileKeys fuel ts minL maxL = Some r \<and> wf_request r \<and>
    covered r = (\<Union>t \<in> set ts. related_tiles t minL maxL True)"
proof -
  have "\<exists>r. EffectiveTileKeys_tile fuel t minL maxL True = Some r \<and> wf_request r \<and>
      covered r = related_tiles t minL maxL True" if "t \<in> set ts" for t
    using EffectiveTileKeys_tile_spec [of t minL maxL fuel True] assms that by auto
  from fold_merge_spec [OF this covered_empty(2)] show ?thesis
    by (simp add: EffectiveTileKeys_def)
qed

lemma AddParents_diverges: "AddParents fuel 0 maxL tile ret = None"
  by (induction fuel arbitrary: tile ret) auto

lemma EffectiveTileKeys_tile_diverges:
  "Level t \<le> maxL \<Longrightarrow> EffectiveTileKeys_tile fuel t 0 maxL True = None"
  by (cases fuel) (auto simp: Let_def AddParents_diverges)

section \<open>Properties\<close>



text \<open>With the minimum level 0, the default of \<open>PrefetchTilesRequest\<close>, the computation never returns
  for a tile at or above the maximum level: the loop over the parents does not stop at the root,
  whose parent is the invalid key of level 32.\<close>

theorem effective_tile_keys_diverges:
  assumes "Level t \<le> maxLevel"
  shows "EffectiveTileKeys fuel (t # tilekeys) 0 maxLevel = None"
  using EffectiveTileKeys_tile_diverges [OF assms] by (simp add: EffectiveTileKeys_def)

theorem effective_tile_keys_diverges_witness:
  "EffectiveTileKeys 1000 [\<lparr>Row = 5, Column = 3, Level = 3\<rparr>] 0 9 = None"
  using effective_tile_keys_diverges [of "\<lparr>Row = 5, Column = 3, Level = 3\<rparr>" 9 1000 "[]"] by simp

end
