(* ===== verification/Read_Requests.thy ===== *)
theory Read_Requests
  imports Tile_Key
begin

text \<open>
  Component dataservice-read: the request objects of \<open>include/olp/dataservice/read\<close> with their
  builders and the keys under which concurrent requests are merged and logged.

  An \<open>int64_t\<close> version is an integer; streaming an enumeration prints its number. The two overloads of
  a builder, by copy and by move, are one function. Shown: keys of partition requests and of requests for
  the catalog and its version tell requests apart when the tags are formed as documented; keys of data
  requests do not.
\<close>

datatype FetchOptions = OnlineIfNotFound | OnlineOnly | CacheOnly | CacheWithUpdate

fun FetchOptions_number :: "FetchOptions \<Rightarrow> int" where
  "FetchOptions_number OnlineIfNotFound = 0" | "FetchOptions_number OnlineOnly = 1"
| "FetchOptions_number CacheOnly = 2" | "FetchOptions_number CacheWithUpdate = 3"

section \<open>Catalog requests\<close>

record CatalogRequest =
  cr_billing_tag :: "string option"
  cr_fetch_option :: FetchOptions

definition CatalogRequest_new :: CatalogRequest where
  "CatalogRequest_new = \<lparr>cr_billing_tag = None, cr_fetch_option = OnlineIfNotFound\<rparr>"

definition CatalogRequest_WithBillingTag :: "string option \<Rightarrow> CatalogRequest \<Rightarrow> CatalogRequest" where
  "CatalogRequest_WithBillingTag t r = r\<lparr>cr_billing_tag := t\<rparr>"

definition CatalogRequest_WithFetchOption :: "FetchOptions \<Rightarrow> CatalogRequest \<Rightarrow> CatalogRequest" where
  "CatalogRequest_WithFetchOption f r = r\<lparr>cr_fetch_option := f\<rparr>"

definition tag_suffix :: "string option \<Rightarrow> FetchOptions \<Rightarrow> string" where
  "tag_suffix tag option = (case tag of None \<Rightarrow> [] | Some t \<Rightarrow> ''$'' @ t) @ ''^'' @ to_string_int (FetchOptions_number option)"

definition CatalogRequest_CreateKey :: "CatalogRequest \<Rightarrow> string" where
  "CatalogRequest_CreateKey r = tag_suffix (cr_billing_tag r) (cr_fetch_option r)"

record CatalogVersionRequest =
  start_version :: int
  cvr_billing_tag :: "string option"
  cvr_fetch_option :: FetchOptions

definition CatalogVersionRequest_new :: CatalogVersionRequest where
  "CatalogVersionRequest_new = \<lparr>start_version = 0, cvr_billing_tag = None, cvr_fetch_option = OnlineIfNotFound\<rparr>"

definition CatalogVersionRequest_WithStartVersion :: "int \<Rightarrow> CatalogVersionRequest \<Rightarrow> CatalogVersionRequest" where
  "CatalogVersionRequest_WithStartVersion v r = r\<lparr>start_version := v\<rparr>"

definition CatalogVersionRequest_WithBillingTag :: "string option \<Rightarrow> CatalogVersionRequest \<Rightarrow> CatalogVersionRequest" where
  "CatalogVersionRequest_WithBillingTag t r = r\<lparr>cvr_billing_tag := t\<rparr>"

definition CatalogVersionRequest_WithFetchOption :: "FetchOptions \<Rightarrow> CatalogVersionRequest \<Rightarrow> CatalogVersionRequest" where
  "CatalogVersionRequest_WithFetchOption f r = r\<lparr>cvr_fetch_option := f\<rparr>"

definition CatalogVersionRequest_CreateKey :: "CatalogVersionRequest \<Rightarrow> string" where
  "CatalogVersionRequest_CreateKey r = ''@'' @ to_string_int (start_version r) @ tag_suffix (cvr_billing_tag r) (cvr_fetch_option r)"

section \<open>Partition requests\<close>

record PartitionsRequest =
  pr_layer_id :: string
  pr_version :: "int option"
  pr_billing_tag :: "string option"
  pr_fetch_option :: FetchOptions

definition PartitionsRequest_new :: PartitionsRequest where
  "PartitionsRequest_new = \<lparr>pr_layer_id = [], pr_version = None, pr_billing_tag = None, pr_fetch_option = OnlineIfNotFound\<rparr>"

definition PartitionsRequest_WithLayerId :: "string \<Rightarrow> PartitionsRequest \<Rightarrow> PartitionsRequest" where
  "PartitionsRequest_WithLayerId l r = r\<lparr>pr_layer_id := l\<rparr>"

definition PartitionsRequest_WithVersion :: "int option \<Rightarrow> PartitionsRequest \<Rightarrow> PartitionsRequest" where
  "PartitionsRequest_WithVersion v r = r\<lparr>pr_version := v\<rparr>"

definition PartitionsRequest_WithBillingTag :: "string option \<Rightarrow> PartitionsRequest \<Rightarrow> PartitionsRequest" where
  "PartitionsRequest_WithBillingTag t r = r\<lparr>pr_billing_tag := t\<rparr>"

definition PartitionsRequest_WithFetchOption :: "FetchOptions \<Rightarrow> PartitionsRequest \<Rightarrow> PartitionsRequest" where
  "PartitionsRequest_WithFetchOption f r = r\<lparr>pr_fetch_option := f\<rparr>"

definition version_part :: "int option \<Rightarrow> string" where
  "version_part v = (case v of None \<Rightarrow> [] | Some n \<Rightarrow> ''@'' @ to_string_int n)"

definition PartitionsRequest_CreateKey :: "PartitionsRequest \<Rightarrow> string" where
  "PartitionsRequest_CreateKey r = pr_layer_id r @ version_part (pr_version r) @ tag_suffix (pr_billing_tag r) (pr_fetch_option r)"

section \<open>Data requests\<close>

record DataRequest =
  dr_layer_id :: string
  dr_partition_id :: "string option"
  dr_version :: "int option"
  dr_data_handle :: "string option"
  dr_billing_tag :: "string option"
  dr_fetch_option :: FetchOptions

definition DataRequest_new :: DataRequest where
  "DataRequest_new = \<lparr>dr_layer_id = [], dr_partition_id = None, dr_version = None, dr_data_handle = None,
     dr_billing_tag = None, dr_fetch_option = OnlineIfNotFound\<rparr>"

definition DataRequest_WithLayerId :: "string \<Rightarrow> DataRequest \<Rightarrow> DataRequest" where
  "DataRequest_WithLayerId l r = r\<lparr>dr_layer_id := l\<rparr>"

definition DataRequest_WithPartitionId :: "string option \<Rightarrow> DataRequest \<Rightarrow> DataRequest" where
  "DataRequest_WithPartitionId p r = r\<lparr>dr_partition_id := p\<rparr>"

definition DataRequest_WithVersion :: "int option \<Rightarrow> DataRequest \<Rightarrow> DataRequest" where
  "DataRequest_WithVersion v r = r\<lparr>dr_version := v\<rparr>"

definition DataRequest_WithDataHandle :: "string option \<Rightarrow> DataRequest \<Rightarrow> DataRequest" where
  "DataRequest_WithDataHandle h r = r\<lparr>dr_data_handle := h\<rparr>"

definition DataRequest_WithBillingTag :: "string option \<Rightarrow> DataRequest \<Rightarrow> DataRequest" where
  "DataRequest_WithBillingTag t r = r\<lparr>dr_billing_tag := t\<rparr>"

definition DataRequest_WithFetchOption :: "FetchOptions \<Rightarrow> DataRequest \<Rightarrow> DataRequest" where
  "DataRequest_WithFetchOption f r = r\<lparr>dr_fetch_option := f\<rparr>"

definition DataRequest_CreateKey :: "DataRequest \<Rightarrow> string" where
  "DataRequest_CreateKey r =
     dr_layer_id r @ ''['' @
     (case dr_partition_id r of Some p \<Rightarrow> p | None \<Rightarrow> (case dr_data_handle r of Some h \<Rightarrow> h | None \<Rightarrow> [])) @ '']'' @
     version_part (dr_version r) @ tag_suffix (dr_billing_tag r) (dr_fetch_option r)"

section \<open>Prefetch requests\<close>

record PrefetchTilesRequest =
  ptr_layer_id :: string
  ptr_tile_keys :: "TileKey list"
  ptr_min_level :: u32
  ptr_max_level :: u32
  ptr_billing_tag :: "string option"

definition PrefetchTilesRequest_new :: PrefetchTilesRequest where
  "PrefetchTilesRequest_new = \<lparr>ptr_layer_id = [], ptr_tile_keys = [], ptr_min_level = 0, ptr_max_level = 0, ptr_billing_tag = None\<rparr>"

definition PrefetchTilesRequest_WithLayerId :: "string \<Rightarrow> PrefetchTilesRequest \<Rightarrow> PrefetchTilesRequest" where
  "PrefetchTilesRequest_WithLayerId l r = r\<lparr>ptr_layer_id := l\<rparr>"

definition PrefetchTilesRequest_WithTileKeys :: "TileKey list \<Rightarrow> PrefetchTilesRequest \<Rightarrow> PrefetchTilesRequest" where
  "PrefetchTilesRequest_WithTileKeys ks r = r\<lparr>ptr_tile_keys := ks\<rparr>"

definition PrefetchTilesRequest_WithMinLevel :: "u32 \<Rightarrow> PrefetchTilesRequest \<Rightarrow> PrefetchTilesRequest" where
  "PrefetchTilesRequest_WithMinLevel l r = r\<lparr>ptr_min_level := l\<rparr>"

definition PrefetchTilesRequest_WithMaxLevel :: "u32 \<Rightarrow> PrefetchTilesRequest \<Rightarrow> PrefetchTilesRequest" where
  "PrefetchTilesRequest_WithMaxLevel l r = r\<lparr>ptr_max_level := l\<rparr>"

definition PrefetchTilesRequest_WithBillingTag :: "string option \<Rightarrow> PrefetchTilesRequest \<Rightarrow> PrefetchTilesRequest" where
  "PrefetchTilesRequest_WithBillingTag t r = r\<lparr>ptr_billing_tag := t\<rparr>"

definition PrefetchTilesRequest_CreateKey :: "PrefetchTilesRequest \<Rightarrow> string" where
  "PrefetchTilesRequest_CreateKey r =
     ptr_layer_id r @ ''['' @ dec_digits (unat (ptr_min_level r)) @ ''/'' @ dec_digits (unat (ptr_max_level r)) @ '']'' @
     ''('' @ dec_digits (length (ptr_tile_keys r)) @ '')'' @
     (case ptr_billing_tag r of None \<Rightarrow> [] | Some t \<Rightarrow> ''$'' @ t)"

section \<open>Reading keys back\<close>

text \<open>A billing tag as the comments ask for it.\<close>

definition alnum :: "char \<Rightarrow> bool" where
  "alnum c \<longleftrightarrow> (let n = of_char c :: nat in 48 \<le> n \<and> n \<le> 57 \<or> 65 \<le> n \<and> n \<le> 90 \<or> 97 \<le> n \<and> n \<le> 122)"

definition tag_ok :: "string option \<Rightarrow> bool" where
  "tag_ok t \<longleftrightarrow> (\<forall>s. t = Some s \<longrightarrow> list_all alnum s)"

lemma alnum_not_mark: "list_all alnum s \<Longrightarrow> CHR ''^'' \<notin> set s"
  by (auto simp: list_all_iff alnum_def Let_def)

lemma number_no_marks: "CHR ''@'' \<notin> set (to_string_int n)" "CHR ''$'' \<notin> set (to_string_int n)" "CHR ''^'' \<notin> set (to_string_int n)"
  by (auto simp: is_digit_def dest!: to_string_int_chars)

lemma FetchOptions_number_inj: "FetchOptions_number a = FetchOptions_number b \<Longrightarrow> a = b"
  by (cases a; cases b) simp_all

text \<open>A string up to the first of a set of marks is determined by the whole.\<close>

lemma append_mark_eq:
  assumes "x @ c # u = y @ d # v" "set x \<inter> M = {}" "set y \<inter> M = {}" "c \<in> M" "d \<in> M"
  shows "x = y \<and> c = d \<and> u = v"
proof -
  have t: "takeWhile (\<lambda>z. z \<notin> M) (x @ c # u) = x" "takeWhile (\<lambda>z. z \<notin> M) (y @ d # v) = y"
    using assms(2-5) by (auto simp: takeWhile_append2 disjoint_iff)
  then have "x = y" using assms(1) by metis
  with assms(1) show ?thesis by simp
qed

lemma tag_suffix_inj:
  assumes "tag_suffix t f = tag_suffix t' f'" "tag_ok t" "tag_ok t'"
  shows "t = t' \<and> f = f'"
proof -
  have n: "f = f'" if "to_string_int (FetchOptions_number f) = to_string_int (FetchOptions_number f')"
    using that FetchOptions_number_inj by (simp add: to_string_int_inj)
  show ?thesis
  proof (cases t; cases t')
    fix a b assume ab: "t = Some a" "t' = Some b"
    then have "a @ CHR ''^'' # to_string_int (FetchOptions_number f) = b @ CHR ''^'' # to_string_int (FetchOptions_number f')"
      using assms(1) by (simp add: tag_suffix_def)
    from append_mark_eq [OF this, of "{CHR ''^''}"] ab assms(2,3) n alnum_not_mark show ?thesis
      by (auto simp: tag_ok_def)
  qed (use assms(1) n in \<open>auto simp: tag_suffix_def\<close>)
qed

lemma tag_suffix_head: "\<exists>c r. tag_suffix t f = c # r \<and> (c = CHR ''$'' \<or> c = CHR ''^'')"
  by (cases t) (auto simp: tag_suffix_def)

lemma version_part_inj:
  assumes "version_part v @ tag_suffix t f = version_part v' @ tag_suffix t' f'"
  shows "v = v' \<and> tag_suffix t f = tag_suffix t' f'"
proof -
  obtain c r where c: "tag_suffix t f = c # r" "c \<in> {CHR ''$'', CHR ''^''}" using tag_suffix_head by blast
  obtain d s where d: "tag_suffix t' f' = d # s" "d \<in> {CHR ''$'', CHR ''^''}" using tag_suffix_head by blast
  show ?thesis
  proof (cases v; cases v')
    fix m n assume mn: "v = Some m" "v' = Some n"
    then have "to_string_int m @ c # r = to_string_int n @ d # s" using assms c d by (simp add: version_part_def)
    from append_mark_eq [OF this, of "{CHR ''$'', CHR ''^''}"] number_no_marks c d mn show ?thesis
      by (auto simp: to_string_int_inj)
  qed (use assms c d in \<open>auto simp: version_part_def\<close>)
qed

section \<open>Properties\<close>

text \<open>Two partition requests have the same key only if they are the same request, when their billing tags are
  alphanumeric, as documented, and their layer names hold none of the characters that separate the fields.\<close>

theorem partitions_request_key_inj:
  assumes "PartitionsRequest_CreateKey r = PartitionsRequest_CreateKey r'"
    "tag_ok (pr_billing_tag r)" "tag_ok (pr_billing_tag r')"
    "set (pr_layer_id r @ pr_layer_id r') \<inter> {CHR ''@'', CHR ''$'', CHR ''^''} = {}"
  shows "r = r'"
proof -
  have h: "\<exists>c u. version_part (pr_version x) @ tag_suffix (pr_billing_tag x) (pr_fetch_option x) = c # u \<and>
      c \<in> {CHR ''@'', CHR ''$'', CHR ''^''}" for x :: PartitionsRequest
    using tag_suffix_head [of "pr_billing_tag x" "pr_fetch_option x"] by (cases "pr_version x") (auto simp: version_part_def)
  obtain c u where c: "version_part (pr_version r) @ tag_suffix (pr_billing_tag r) (pr_fetch_option r) = c # u"
    "c \<in> {CHR ''@'', CHR ''$'', CHR ''^''}" using h by blast
  obtain d v where d: "version_part (pr_version r') @ tag_suffix (pr_billing_tag r') (pr_fetch_option r') = d # v"
    "d \<in> {CHR ''@'', CHR ''$'', CHR ''^''}" using h by blast
  have "pr_layer_id r @ c # u = pr_layer_id r' @ d # v"
    using assms(1) c(1) d(1) by (simp add: PartitionsRequest_CreateKey_def)
  from append_mark_eq [OF this _ _ c(2) d(2)] assms(4)
  have l: "pr_layer_id r = pr_layer_id r'" "c # u = d # v" by (auto simp: Int_Un_distrib2)
  then have "version_part (pr_version r) @ tag_suffix (pr_billing_tag r) (pr_fetch_option r) =
      version_part (pr_version r') @ tag_suffix (pr_billing_tag r') (pr_fetch_option r')" using c(1) d(1) by simp
  from version_part_inj [OF this] tag_suffix_inj [OF _ assms(2,3)] l(1) show ?thesis
    by (intro PartitionsRequest.equality) auto
qed

theorem partitions_request_key_inj_witness:
  "PartitionsRequest_WithLayerId ''a'' PartitionsRequest_new = PartitionsRequest_WithVersion None (PartitionsRequest_WithLayerId ''a'' PartitionsRequest_new)"
  by (rule partitions_request_key_inj)
    (simp_all add: PartitionsRequest_WithLayerId_def PartitionsRequest_WithVersion_def PartitionsRequest_new_def tag_ok_def)

text \<open>A data request by partition and one by data handle have the same key when the names agree, and so have
  two requests for one partition with different data handles; requests with the same key are answered together.\<close>

theorem data_request_key_collides:
  "DataRequest_CreateKey (DataRequest_WithPartitionId (Some n) r) = DataRequest_CreateKey (DataRequest_WithDataHandle (Some n) (DataRequest_WithPartitionId None r)) \<and>
   DataRequest_CreateKey (DataRequest_WithDataHandle (Some h) (DataRequest_WithPartitionId (Some n) r)) =
     DataRequest_CreateKey (DataRequest_WithDataHandle (Some h') (DataRequest_WithPartitionId (Some n) r))"
  by (simp add: DataRequest_CreateKey_def DataRequest_WithPartitionId_def DataRequest_WithDataHandle_def)

end
