(* ===== verification/Multi_Request.thy ===== *)
theory Multi_Request
  imports Read_Requests
begin

text \<open>
  Component dataservice-read: \<open>MultiRequestContext\<close>, which merges concurrent requests of one key,
  \<open>PendingRequests\<close> and the request methods of \<open>CatalogClientImpl\<close>.

  A step of the model is a section that holds the mutex, with the callbacks it hands on: a context that was
  taken out of \<open>active_reqs_\<close> under the lock is not reached by any other thread. Shown: no merged request is
  answered twice and, when nothing is cancelled, each is answered or waits under its key; the cancellation of
  one of several merged requests loses the others; the requests of a client are answered once and leave no
  entry among the pending requests, except those of \<open>PrefetchTiles\<close>, whose entry stays.
\<close>

section \<open>Merged requests\<close>

text \<open>
  The contexts are objects, named by their number, that \<open>active_reqs\<close> refers to. A request is named by the
  number of its call, in place of the random uuid; callbacks are called in the order of the uuids, here in
  the order of the calls. The token of the request that a context started is the number of the context.
  The caller that made the context runs the request (\<open>Inserted\<close>, \<open>Executing\<close>) and stores its token
  after the lock is released; then the caller has its own token (\<open>Returned\<close>).
\<close>

record MergedContext =
  cancellation_token :: "nat option"
  callbacks :: "nat list"

datatype request_phase = Inserted nat | Executing nat | Returned

record caller =
  caller_key :: string
  caller_phase :: request_phase

record 'r MultiRequestContext =
  active_reqs :: "string \<rightharpoonup> nat"
  contexts :: "MergedContext list"
  callers :: "caller list"
  started :: "string list"
  cancels :: "nat list"
  answers :: "(nat \<times> 'r) list"

definition MultiRequestContext_new :: "'r MultiRequestContext" where
  "MultiRequestContext_new = \<lparr>active_reqs = Map.empty, contexts = [], callers = [], started = [], cancels = [], answers = []\<rparr>"

definition ExecuteOrAssociate :: "string \<Rightarrow> 'r MultiRequestContext \<Rightarrow> 'r MultiRequestContext" where
  "ExecuteOrAssociate key m =
     (let request_id = length (callers m)
      in case active_reqs m key of
           Some c \<Rightarrow> m\<lparr>contexts := (contexts m)[c := (contexts m ! c)\<lparr>callbacks := callbacks (contexts m ! c) @ [request_id]\<rparr>],
                        callers := callers m @ [\<lparr>caller_key = key, caller_phase = Returned\<rparr>]\<rparr>
         | None \<Rightarrow> let newContext = length (contexts m)
                   in m\<lparr>contexts := contexts m @ [\<lparr>cancellation_token = None, callbacks = [request_id]\<rparr>],
                        active_reqs := (active_reqs m)(key \<mapsto> newContext),
                        callers := callers m @ [\<lparr>caller_key = key, caller_phase = Inserted newContext\<rparr>]\<rparr>)"

definition execute_fn_called :: "nat \<Rightarrow> 'r MultiRequestContext \<Rightarrow> 'r MultiRequestContext" where
  "execute_fn_called i m =
     (case caller_phase (callers m ! i) of
        Inserted c \<Rightarrow> m\<lparr>callers := (callers m)[i := (callers m ! i)\<lparr>caller_phase := Executing c\<rparr>],
                         started := started m @ [caller_key (callers m ! i)]\<rparr>
      | _ \<Rightarrow> m)"

definition execute_fn_returned :: "nat \<Rightarrow> 'r MultiRequestContext \<Rightarrow> 'r MultiRequestContext" where
  "execute_fn_returned i m =
     (case caller_phase (callers m ! i) of
        Executing c \<Rightarrow> m\<lparr>callers := (callers m)[i := (callers m ! i)\<lparr>caller_phase := Returned\<rparr>],
                          contexts := (contexts m)[c := (contexts m ! c)\<lparr>cancellation_token := Some c\<rparr>]\<rparr>
      | _ \<Rightarrow> m)"

definition onRequestCompleted :: "'r \<Rightarrow> string \<Rightarrow> 'r MultiRequestContext \<Rightarrow> 'r MultiRequestContext" where
  "onRequestCompleted response key m =
     (case active_reqs m key of
        None \<Rightarrow> m
      | Some c \<Rightarrow> m\<lparr>active_reqs := (active_reqs m)(key := None),
                     answers := answers m @ map (\<lambda>i. (i, response)) (callbacks (contexts m ! c))\<rparr>)"

definition onRequestCancelled :: "'r \<Rightarrow> string \<Rightarrow> nat \<Rightarrow> 'r MultiRequestContext \<Rightarrow> 'r MultiRequestContext" where
  "onRequestCancelled cancelled key request_id m =
     (case active_reqs m key of
        None \<Rightarrow> m
      | Some c \<Rightarrow>
          (let m1 = m\<lparr>active_reqs := (active_reqs m)(key := None)\<rparr>; ctx = contexts m1 ! c
           in if request_id \<in> set (callbacks ctx)
              then let m2 = (if length (callbacks ctx) \<le> 1
                             then m1\<lparr>cancels := cancels m1 @ (case cancellation_token ctx of None \<Rightarrow> [] | Some t \<Rightarrow> [t])\<rparr>
                             else m1)
                   in m2\<lparr>contexts := (contexts m2)[c := ctx\<lparr>callbacks := remove1 request_id (callbacks ctx)\<rparr>],
                         answers := answers m2 @ [(request_id, cancelled)]\<rparr>
              else m1))"

text \<open>
  Callers make requests; the request of a context starts, may be answered from then on, and returns its
  token; callers use their tokens, at any time and more than once, if \<open>may_cancel\<close>.
\<close>

inductive multi_step :: "bool \<Rightarrow> 'r \<Rightarrow> 'r MultiRequestContext \<Rightarrow> 'r MultiRequestContext \<Rightarrow> bool" for may_cancel cancelled where
  call: "multi_step may_cancel cancelled m (ExecuteOrAssociate key m)"
| execute: "i < length (callers m) \<Longrightarrow> multi_step may_cancel cancelled m (execute_fn_called i m)"
| returned: "i < length (callers m) \<Longrightarrow> multi_step may_cancel cancelled m (execute_fn_returned i m)"
| complete: "key \<in> set (started m) \<Longrightarrow> multi_step may_cancel cancelled m (onRequestCompleted response key m)"
| cancel: "may_cancel \<Longrightarrow> i < length (callers m) \<Longrightarrow> caller_phase (callers m ! i) = Returned \<Longrightarrow>
    multi_step may_cancel cancelled m (onRequestCancelled cancelled (caller_key (callers m ! i)) i m)"

definition multi_steps :: "bool \<Rightarrow> 'r \<Rightarrow> 'r MultiRequestContext \<Rightarrow> 'r MultiRequestContext \<Rightarrow> bool" where
  "multi_steps may_cancel cancelled = (multi_step may_cancel cancelled)\<^sup>*\<^sup>*"

section \<open>Pending requests\<close>

text \<open>The empty token of a placeholder is \<open>None\<close>.\<close>

record 't PendingRequests =
  pending_key :: int
  requests_map :: "int \<rightharpoonup> 't option"

definition PendingRequests_new :: "'t PendingRequests" where
  "PendingRequests_new = \<lparr>pending_key = 0, requests_map = Map.empty\<rparr>"

text \<open>The result and the tokens that are cancelled; an empty token does nothing.\<close>

definition CancelPendingRequests :: "'t PendingRequests \<Rightarrow> bool \<times> 't set" where
  "CancelPendingRequests p = (True, {t. Some t \<in> ran (requests_map p)})"

definition GenerateRequestPlaceholder :: "'t PendingRequests \<Rightarrow> int \<times> 't PendingRequests" where
  "GenerateRequestPlaceholder p =
     (let k = pending_key p + 1 in (k, \<lparr>pending_key = k, requests_map = (requests_map p)(k \<mapsto> None)\<rparr>))"

definition Pending_Insert :: "'t option \<Rightarrow> int \<Rightarrow> 't PendingRequests \<Rightarrow> bool \<times> 't PendingRequests" where
  "Pending_Insert request key p =
     (if requests_map p key = None then (False, p)
      else (True, p\<lparr>requests_map := (requests_map p)(key \<mapsto> request)\<rparr>))"

definition Pending_Remove :: "int \<Rightarrow> 't PendingRequests \<Rightarrow> bool \<times> 't PendingRequests" where
  "Pending_Remove key p =
     (if requests_map p key \<noteq> None then (True, p\<lparr>requests_map := (requests_map p)(key := None)\<rparr>) else (False, p))"

section \<open>Requests of the catalog client\<close>

text \<open>
  The methods of \<open>CatalogClientImpl\<close> give a repository a callback that removes the request and answers the
  caller (\<open>ForCaller\<close>), that only removes it (\<open>ForUpdate\<close>), or, in \<open>PrefetchTiles\<close>, that only answers
  the caller (\<open>ForPrefetch\<close>). A repository is a parameter: for a request it gives its token and, when it
  calls back before it returns, the response. Callbacks it will call later are in \<open>waiting\<close>;
  \<open>client_calls\<close> are the calls of the callers' callbacks.
\<close>

datatype callback_kind = ForCaller | ForUpdate | ForPrefetch

record ('t, 'r) CatalogClientImpl =
  pending :: "'t PendingRequests"
  waiting :: "(int \<times> callback_kind) list"
  client_calls :: "(int \<times> 'r) list"

type_synonym ('q, 't, 'r) repo_call = "'q \<Rightarrow> 't option \<times> 'r option"

definition CatalogClientImpl_new :: "('t, 'r) CatalogClientImpl" where
  "CatalogClientImpl_new = \<lparr>pending = PendingRequests_new, waiting = [], client_calls = []\<rparr>"

definition request_callback :: "callback_kind \<Rightarrow> int \<Rightarrow> 'r \<Rightarrow> ('t, 'r) CatalogClientImpl \<Rightarrow> ('t, 'r) CatalogClientImpl" where
  "request_callback kind request_key response c =
     (case kind of
        ForCaller \<Rightarrow>
          (let (removed, p) = Pending_Remove request_key (pending c); c1 = c\<lparr>pending := p\<rparr>
           in if removed then c1\<lparr>client_calls := client_calls c1 @ [(request_key, response)]\<rparr> else c1)
      | ForUpdate \<Rightarrow> c\<lparr>pending := snd (Pending_Remove request_key (pending c))\<rparr>
      | ForPrefetch \<Rightarrow> c\<lparr>client_calls := client_calls c @ [(request_key, response)]\<rparr>)"

definition repo_run :: "callback_kind \<Rightarrow> int \<Rightarrow> 'r option \<Rightarrow> ('t, 'r) CatalogClientImpl \<Rightarrow> ('t, 'r) CatalogClientImpl" where
  "repo_run kind request_key response c =
     (case response of Some r \<Rightarrow> request_callback kind request_key r c
      | None \<Rightarrow> c\<lparr>waiting := waiting c @ [(request_key, kind)]\<rparr>)"

definition client_placeholder :: "('t, 'r) CatalogClientImpl \<Rightarrow> int \<times> ('t, 'r) CatalogClientImpl" where
  "client_placeholder c = (let (k, p) = GenerateRequestPlaceholder (pending c) in (k, c\<lparr>pending := p\<rparr>))"

definition client_insert :: "'t option \<Rightarrow> int \<Rightarrow> ('t, 'r) CatalogClientImpl \<Rightarrow> ('t, 'r) CatalogClientImpl" where
  "client_insert token request_key c = c\<lparr>pending := snd (Pending_Insert token request_key (pending c))\<rparr>"

text \<open>The body that the four methods share, over the request with its fetch option replaced.\<close>

definition client_request :: "('q, 't, 'r) repo_call \<Rightarrow> (FetchOptions \<Rightarrow> 'q) \<Rightarrow> FetchOptions \<Rightarrow> 'q \<Rightarrow>
    ('t, 'r) CatalogClientImpl \<Rightarrow> 't option \<times> ('t, 'r) CatalogClientImpl" where
  "client_request repo with_option fetch_option request c =
     (let (request_key, c1) = client_placeholder c
      in if fetch_option = CacheWithUpdate
         then let (token, response) = repo (with_option CacheOnly);
                  c2 = repo_run ForCaller request_key response c1;
                  (onlineKey, c3) = client_placeholder c2;
                  (online_token, online_response) = repo (with_option OnlineIfNotFound);
                  c4 = client_insert online_token onlineKey (repo_run ForUpdate onlineKey online_response c3)
              in (token, client_insert token request_key c4)
         else let (token, response) = repo request
              in (token, client_insert token request_key (repo_run ForCaller request_key response c1)))"

definition Client_GetCatalog :: "(CatalogRequest, 't, 'r) repo_call \<Rightarrow> CatalogRequest \<Rightarrow>
    ('t, 'r) CatalogClientImpl \<Rightarrow> 't option \<times> ('t, 'r) CatalogClientImpl" where
  "Client_GetCatalog repo request =
     client_request repo (\<lambda>f. CatalogRequest_WithFetchOption f request) (cr_fetch_option request) request"

definition Client_GetCatalogMetadataVersion :: "(CatalogVersionRequest, 't, 'r) repo_call \<Rightarrow> CatalogVersionRequest \<Rightarrow>
    ('t, 'r) CatalogClientImpl \<Rightarrow> 't option \<times> ('t, 'r) CatalogClientImpl" where
  "Client_GetCatalogMetadataVersion repo request =
     client_request repo (\<lambda>f. CatalogVersionRequest_WithFetchOption f request) (cvr_fetch_option request) request"

definition Client_GetPartitions :: "(PartitionsRequest, 't, 'r) repo_call \<Rightarrow> PartitionsRequest \<Rightarrow>
    ('t, 'r) CatalogClientImpl \<Rightarrow> 't option \<times> ('t, 'r) CatalogClientImpl" where
  "Client_GetPartitions repo request =
     client_request repo (\<lambda>f. PartitionsRequest_WithFetchOption f request) (pr_fetch_option request) request"

definition Client_GetData :: "(DataRequest, 't, 'r) repo_call \<Rightarrow> DataRequest \<Rightarrow>
    ('t, 'r) CatalogClientImpl \<Rightarrow> 't option \<times> ('t, 'r) CatalogClientImpl" where
  "Client_GetData repo request =
     client_request repo (\<lambda>f. DataRequest_WithFetchOption f request) (dr_fetch_option request) request"

definition Client_PrefetchTiles :: "(PrefetchTilesRequest, 't, 'r) repo_call \<Rightarrow> PrefetchTilesRequest \<Rightarrow>
    ('t, 'r) CatalogClientImpl \<Rightarrow> 't option \<times> ('t, 'r) CatalogClientImpl" where
  "Client_PrefetchTiles provider request c =
     (let (request_key, c1) = client_placeholder c; (token, response) = provider request
      in (token, client_insert token request_key (repo_run ForPrefetch request_key response c1)))"

text \<open>A repository calls a waiting callback.\<close>

definition client_answer :: "nat \<Rightarrow> 'r \<Rightarrow> ('t, 'r) CatalogClientImpl \<Rightarrow> ('t, 'r) CatalogClientImpl" where
  "client_answer n response c =
     (if n < length (waiting c)
      then let (k, kind) = waiting c ! n
           in request_callback kind k response (c\<lparr>waiting := take n (waiting c) @ drop (Suc n) (waiting c)\<rparr>)
      else c)"

inductive client_step :: "bool \<Rightarrow> ('t, 'r) CatalogClientImpl \<Rightarrow> ('t, 'r) CatalogClientImpl \<Rightarrow> bool" for may_prefetch where
  get_catalog: "client_step may_prefetch c (snd (Client_GetCatalog catalogs cr c))"
| get_version: "client_step may_prefetch c (snd (Client_GetCatalogMetadataVersion versions vr c))"
| get_partitions: "client_step may_prefetch c (snd (Client_GetPartitions partitions pr c))"
| get_data: "client_step may_prefetch c (snd (Client_GetData data dr c))"
| prefetch: "may_prefetch \<Longrightarrow> client_step may_prefetch c (snd (Client_PrefetchTiles provider tr c))"
| answer: "client_step may_prefetch c (client_answer n response c)"

definition client_steps :: "bool \<Rightarrow> ('t, 'r) CatalogClientImpl \<Rightarrow> ('t, 'r) CatalogClientImpl \<Rightarrow> bool" where
  "client_steps may_prefetch = (client_step may_prefetch)\<^sup>*\<^sup>*"


lemma multi_steps_refl: "multi_steps may_cancel cancelled m m"
  by (simp add: multi_steps_def)

lemma multi_steps_snoc:
  "multi_steps may_cancel cancelled m m' \<Longrightarrow> multi_step may_cancel cancelled m' m'' \<Longrightarrow> multi_steps may_cancel cancelled m m''"
  unfolding multi_steps_def by (rule rtranclp.rtrancl_into_rtrancl)

section \<open>Merged requests are answered once\<close>

definition context_ok :: "'r MultiRequestContext \<Rightarrow> string \<Rightarrow> nat \<Rightarrow> bool" where
  "context_ok m key c \<longleftrightarrow> c < length (contexts m) \<and> callbacks (contexts m ! c) \<noteq> [] \<and> distinct (callbacks (contexts m ! c)) \<and>
     (\<forall>i \<in> set (callbacks (contexts m ! c)). i < length (callers m) \<and> caller_key (callers m ! i) = key \<and> i \<notin> fst ` set (answers m))"

definition multi_ok :: "'r MultiRequestContext \<Rightarrow> bool" where
  "multi_ok m \<longleftrightarrow> (\<forall>key c. active_reqs m key = Some c \<longrightarrow> context_ok m key c) \<and>
     distinct (map fst (answers m)) \<and> (\<forall>i \<in> fst ` set (answers m). i < length (callers m))"

text \<open>A request that waits under its key.\<close>

definition waits :: "nat \<Rightarrow> 'r MultiRequestContext \<Rightarrow> bool" where
  "waits i m \<longleftrightarrow> (\<exists>c. active_reqs m (caller_key (callers m ! i)) = Some c \<and> i \<in> set (callbacks (contexts m ! c)))"

definition none_lost :: "'r MultiRequestContext \<Rightarrow> bool" where
  "none_lost m \<longleftrightarrow> (\<forall>i < length (callers m). i \<in> fst ` set (answers m) \<or> waits i m)"

text \<open>A request that waits under no key and was not answered.\<close>

definition lost :: "nat \<Rightarrow> 'r MultiRequestContext \<Rightarrow> bool" where
  "lost i m \<longleftrightarrow> i < length (callers m) \<and> i \<notin> fst ` set (answers m) \<and>
     (\<forall>key c. active_reqs m key = Some c \<longrightarrow> i \<notin> set (callbacks (contexts m ! c)))"

lemma multi_ok_new: "multi_ok MultiRequestContext_new" "none_lost MultiRequestContext_new"
  by (simp_all add: multi_ok_def none_lost_def MultiRequestContext_new_def)

lemma context_okD:
  assumes "multi_ok m" "active_reqs m key = Some c"
  shows "c < length (contexts m)" "callbacks (contexts m ! c) \<noteq> []" "distinct (callbacks (contexts m ! c))"
    "i \<in> set (callbacks (contexts m ! c)) \<Longrightarrow> i < length (callers m)"
    "i \<in> set (callbacks (contexts m ! c)) \<Longrightarrow> caller_key (callers m ! i) = key"
    "i \<in> set (callbacks (contexts m ! c)) \<Longrightarrow> i \<notin> fst ` set (answers m)"
  using assms unfolding multi_ok_def context_ok_def by blast+

text \<open>Keys have contexts of their own.\<close>

lemma context_unique:
  assumes "multi_ok m" "active_reqs m k = Some c" "active_reqs m k' = Some c"
  shows "k = k'"
proof -
  obtain i where "i \<in> set (callbacks (contexts m ! c))" using context_okD(2) [OF assms(1,2)] by (cases "callbacks (contexts m ! c)") auto
  then show ?thesis using context_okD(5) assms by metis
qed

lemma multi_ok_call: "multi_ok m \<Longrightarrow> multi_ok (ExecuteOrAssociate key m)"
proof -
  assume ok: "multi_ok m"
  have a: "\<forall>i \<in> fst ` set (answers m). i < length (callers m)" "distinct (map fst (answers m))" using ok by (auto simp: multi_ok_def)
  have n: "length (callers m) \<notin> fst ` set (answers m)" using a(1) by auto
  show ?thesis
  proof (cases "active_reqs m key")
    case None
    have "context_ok (ExecuteOrAssociate key m) k c" if "active_reqs (ExecuteOrAssociate key m) k = Some c" for k c
      using that None n context_okD [OF ok, of k c]
      by (auto simp: ExecuteOrAssociate_def context_ok_def Let_def nth_append split: if_splits)
    then show ?thesis using None a unfolding multi_ok_def by (auto simp: ExecuteOrAssociate_def Let_def less_Suc_eq)
  next
    case (Some d)
    have "context_ok (ExecuteOrAssociate key m) k c" if k: "active_reqs m k = Some c" for k c
    proof (cases "c = d")
      case True
      then have "k = key" using context_unique [OF ok k] Some by simp
      then show ?thesis using True Some n context_okD [OF ok Some]
        by (auto simp: ExecuteOrAssociate_def context_ok_def nth_append intro: less_SucI)
    next
      case False
      then show ?thesis using Some k context_okD [OF ok k]
        by (auto simp: ExecuteOrAssociate_def context_ok_def nth_append intro: less_SucI)
    qed
    then show ?thesis using Some a unfolding multi_ok_def by (auto simp: ExecuteOrAssociate_def less_Suc_eq)
  qed
qed

text \<open>Running the request of a context leaves callbacks, keys and answers as they are.\<close>

lemma phase_keys:
  assumes "i < length (callers m)"
  shows "caller_key ((callers m)[i := (callers m ! i)\<lparr>caller_phase := p\<rparr>] ! j) = caller_key (callers m ! j)"
  using assms by (cases "i = j") auto

lemma token_callbacks: "callbacks ((contexts m)[c := (contexts m ! c)\<lparr>cancellation_token := t\<rparr>] ! d) = callbacks (contexts m ! d)"
  by (cases "c = d"; cases "c < length (contexts m)") (auto simp: list_update_beyond not_less)

definition same_requests :: "'r MultiRequestContext \<Rightarrow> 'r MultiRequestContext \<Rightarrow> bool" where
  "same_requests m m' \<longleftrightarrow> active_reqs m' = active_reqs m \<and> answers m' = answers m \<and> length (contexts m') = length (contexts m) \<and>
     length (callers m') = length (callers m) \<and> (\<forall>c. callbacks (contexts m' ! c) = callbacks (contexts m ! c)) \<and>
     (\<forall>i. caller_key (callers m' ! i) = caller_key (callers m ! i))"

lemma same_requests_execute:
  "i < length (callers m) \<Longrightarrow> same_requests m (execute_fn_called i m)"
  "i < length (callers m) \<Longrightarrow> same_requests m (execute_fn_returned i m)"
  by (auto simp: same_requests_def execute_fn_called_def execute_fn_returned_def phase_keys token_callbacks split: request_phase.splits)

lemma same_requests_keeps:
  assumes "same_requests m m'"
  shows "multi_ok m' = multi_ok m" "none_lost m' = none_lost m" "lost i m' = lost i m"
  using assms by (simp_all add: same_requests_def multi_ok_def none_lost_def lost_def context_ok_def waits_def)

lemma multi_ok_complete: "multi_ok m \<Longrightarrow> multi_ok (onRequestCompleted response key m)"
proof (cases "active_reqs m key")
  case (Some c)
  assume ok: "multi_ok m"
  let ?m = "onRequestCompleted response key m"
  have m: "?m = m\<lparr>active_reqs := (active_reqs m)(key := None),
                   answers := answers m @ map (\<lambda>i. (i, response)) (callbacks (contexts m ! c))\<rparr>"
    using Some by (simp add: onRequestCompleted_def)
  have "context_ok ?m k d" if k: "active_reqs m k = Some d" "k \<noteq> key" for k d
    using context_okD [OF ok k(1)] context_okD(5) [OF ok Some] k(2) unfolding m context_ok_def by (auto simp: image_iff) metis
  then show ?thesis
    using ok context_okD(3,4) [OF ok Some] context_okD(6) [OF ok Some] unfolding multi_ok_def m
    by (auto simp: comp_def image_iff disjoint_iff) fastforce
qed (simp add: onRequestCompleted_def)

lemma multi_ok_cancel: "multi_ok m \<Longrightarrow> multi_ok (onRequestCancelled cancelled key i m)"
proof (cases "active_reqs m key")
  case (Some c)
  assume ok: "multi_ok m"
  let ?m = "onRequestCancelled cancelled key i m"
  have act: "active_reqs ?m = (active_reqs m)(key := None)" and calls: "callers ?m = callers m"
    using Some by (simp_all add: onRequestCancelled_def Let_def)
  have ctx: "contexts ?m ! d = contexts m ! d" if "d \<noteq> c" for d
    using Some that by (auto simp: onRequestCancelled_def Let_def split: if_splits)
  have len: "length (contexts ?m) = length (contexts m)"
    using Some by (auto simp: onRequestCancelled_def Let_def)
  have ans: "answers ?m = answers m @ (if i \<in> set (callbacks (contexts m ! c)) then [(i, cancelled)] else [])"
    using Some by (simp add: onRequestCancelled_def Let_def)
  have "context_ok ?m k d" if k: "active_reqs m k = Some d" "k \<noteq> key" for k d
  proof -
    have "d \<noteq> c" using context_unique [OF ok k(1)] Some k(2) by blast
    then show ?thesis using context_okD [OF ok k(1)] context_okD(5) [OF ok Some] k(2)
      unfolding context_ok_def ctx [OF \<open>d \<noteq> c\<close>] calls len ans by (auto split: if_splits) metis
  qed
  then show ?thesis
    using ok context_okD [OF ok Some] unfolding multi_ok_def act calls ans by auto
qed (simp add: onRequestCancelled_def)

lemma multi_ok_step: "multi_step may_cancel cancelled m m' \<Longrightarrow> multi_ok m \<Longrightarrow> multi_ok m'"
  by (induction rule: multi_step.induct)
    (simp_all add: multi_ok_call multi_ok_complete multi_ok_cancel same_requests_keeps(1) [OF same_requests_execute(1)]
      same_requests_keeps(1) [OF same_requests_execute(2)])

lemma multi_ok_steps: "multi_steps may_cancel cancelled m m' \<Longrightarrow> multi_ok m \<Longrightarrow> multi_ok m'"
  unfolding multi_steps_def by (induction rule: rtranclp_induct) (auto dest: multi_ok_step)


text \<open>Calls and completions of requests lose none.\<close>

lemma none_lost_call: "multi_ok m \<Longrightarrow> none_lost m \<Longrightarrow> none_lost (ExecuteOrAssociate key m)"
proof -
  assume ok: "multi_ok m" and nl: "none_lost m"
  let ?m = "ExecuteOrAssociate key m"
  have "i \<in> fst ` set (answers ?m) \<or> waits i ?m" if i: "i < Suc (length (callers m))" for i
  proof (cases "i = length (callers m)")
    case True
    then show ?thesis using context_okD(1) [OF ok, of key]
      by (auto simp: waits_def ExecuteOrAssociate_def Let_def nth_append split: option.splits)
  next
    case False
    then have "i \<in> fst ` set (answers m) \<or> waits i m" using nl i by (simp add: none_lost_def)
    moreover have "waits i ?m" if w: "waits i m"
    proof -
      obtain c where c: "active_reqs m (caller_key (callers m ! i)) = Some c" "i \<in> set (callbacks (contexts m ! c))"
        using w by (auto simp: waits_def)
      have "c < length (contexts m)" using context_okD(1) [OF ok c(1)] .
      then show ?thesis using c False i context_okD(1) [OF ok, of key]
        by (auto simp: waits_def ExecuteOrAssociate_def Let_def nth_append nth_list_update less_Suc_eq split: option.splits)
    qed
    ultimately show ?thesis by (auto simp: ExecuteOrAssociate_def Let_def split: option.splits)
  qed
  moreover have "length (callers ?m) = Suc (length (callers m))" by (simp add: ExecuteOrAssociate_def Let_def split: option.splits)
  ultimately show ?thesis by (simp add: none_lost_def)
qed

lemma none_lost_complete: "none_lost m \<Longrightarrow> none_lost (onRequestCompleted response key m)"
proof (cases "active_reqs m key")
  case (Some c)
  assume nl: "none_lost m"
  let ?m = "onRequestCompleted response key m"
  have ans: "fst ` set (answers ?m) = fst ` set (answers m) \<union> set (callbacks (contexts m ! c))"
    using Some by (simp add: onRequestCompleted_def image_Un image_image)
  have keep: "active_reqs ?m = (active_reqs m)(key := None)" "contexts ?m = contexts m" "callers ?m = callers m"
    using Some by (simp_all add: onRequestCompleted_def)
  have "i \<in> fst ` set (answers m) \<union> set (callbacks (contexts m ! c)) \<or> waits i ?m" if "i < length (callers m)" for i
    using nl that Some unfolding none_lost_def waits_def keep by (cases "caller_key (callers m ! i) = key") auto
  then show ?thesis unfolding none_lost_def ans keep by blast
qed (simp add: onRequestCompleted_def)

lemma none_lost_step: "multi_step False cancelled m m' \<Longrightarrow> multi_ok m \<Longrightarrow> none_lost m \<Longrightarrow> none_lost m'"
  by (induction rule: multi_step.induct)
    (simp_all add: none_lost_call none_lost_complete same_requests_keeps(2) [OF same_requests_execute(1)]
      same_requests_keeps(2) [OF same_requests_execute(2)])

lemma none_lost_steps: "multi_steps False cancelled m m' \<Longrightarrow> multi_ok m \<Longrightarrow> none_lost m \<Longrightarrow> none_lost m'"
  unfolding multi_steps_def
  by (induction rule: rtranclp_induct) (auto dest: none_lost_step multi_ok_steps [unfolded multi_steps_def])


text \<open>A lost request stays lost.\<close>

lemma lost_call:
  assumes ok: "multi_ok m" and l: "lost i m"
  shows "lost i (ExecuteOrAssociate key m)"
proof -
  have r: "c < length (contexts m) \<and> i \<notin> set (callbacks (contexts m ! c))" if "active_reqs m k = Some c" for k c
    using context_okD(1) [OF ok that] l that by (auto simp: lost_def)
  show ?thesis
  proof (cases "active_reqs m key")
    case None
    then show ?thesis using l r by (auto simp: lost_def ExecuteOrAssociate_def Let_def nth_append)
  next
    case (Some d)
    then show ?thesis using l r by (auto simp: lost_def ExecuteOrAssociate_def nth_list_update)
  qed
qed

lemma lost_complete: "lost i m \<Longrightarrow> lost i (onRequestCompleted response key m)"
  by (cases "active_reqs m key") (auto simp: lost_def onRequestCompleted_def image_iff)

lemma lost_cancel:
  assumes "multi_ok m" "lost i m"
  shows "lost i (onRequestCancelled cancelled key j m)"
proof (cases "active_reqs m key")
  case (Some c)
  have u: "d \<noteq> c" if "active_reqs m k = Some d" "k \<noteq> key" for k d
    using context_unique [OF assms(1) Some, of k] that by auto
  show ?thesis using assms(2) Some u context_okD(1) [OF assms(1) Some]
    by (auto simp: lost_def onRequestCancelled_def Let_def nth_list_update)
qed (use assms in \<open>simp add: onRequestCancelled_def\<close>)

lemma lost_step: "multi_step may_cancel cancelled m m' \<Longrightarrow> multi_ok m \<Longrightarrow> lost i m \<Longrightarrow> lost i m'"
  by (induction rule: multi_step.induct)
    (simp_all add: lost_call lost_complete lost_cancel same_requests_keeps(3) [OF same_requests_execute(1)]
      same_requests_keeps(3) [OF same_requests_execute(2)])

lemma lost_steps: "multi_steps may_cancel cancelled m m' \<Longrightarrow> multi_ok m \<Longrightarrow> lost i m \<Longrightarrow> lost i m'"
  unfolding multi_steps_def
  by (induction rule: rtranclp_induct) (auto dest: lost_step multi_ok_steps [unfolded multi_steps_def])

text \<open>Cancelling one of several merged requests takes the context of all of them out.\<close>

lemma cancel_loses:
  assumes ok: "multi_ok m" and c: "active_reqs m key = Some c" and j: "j \<in> set (callbacks (contexts m ! c))" "j \<noteq> i"
  shows "lost j (onRequestCancelled cancelled key i m)"
proof -
  have o: "j \<notin> set (callbacks (contexts m ! d))" if "active_reqs m k = Some d" "k \<noteq> key" for k d
    using context_okD(5) [OF ok that(1), of j] context_okD(5) [OF ok c j(1)] that(2) by auto
  have u: "d \<noteq> c" if "active_reqs m k = Some d" "k \<noteq> key" for k d
    using context_unique [OF ok c, of k] that by auto
  show ?thesis using c j context_okD(4,6) [OF ok c j(1)] o u context_okD(1) [OF ok c]
    by (auto simp: lost_def onRequestCancelled_def Let_def nth_list_update)
qed


lemma multi_example_steps:
  "multi_steps may_cancel cancelled MultiRequestContext_new
     (ExecuteOrAssociate ''a'' (execute_fn_returned 0 (execute_fn_called 0 (ExecuteOrAssociate ''a'' MultiRequestContext_new))))"
proof -
  let ?m1 = "ExecuteOrAssociate ''a'' MultiRequestContext_new"
  have 1: "multi_step may_cancel cancelled MultiRequestContext_new ?m1" by (rule multi_step.call)
  have 2: "multi_step may_cancel cancelled ?m1 (execute_fn_called 0 ?m1)"
    by (rule multi_step.execute) (simp add: ExecuteOrAssociate_def MultiRequestContext_new_def Let_def)
  have 3: "multi_step may_cancel cancelled (execute_fn_called 0 ?m1) (execute_fn_returned 0 (execute_fn_called 0 ?m1))"
    by (rule multi_step.returned) (simp add: execute_fn_called_def ExecuteOrAssociate_def MultiRequestContext_new_def Let_def)
  show ?thesis
    by (intro multi_steps_snoc [OF _ multi_step.call] multi_steps_snoc [OF _ 3] multi_steps_snoc [OF _ 2] multi_steps_snoc [OF multi_steps_refl 1])
qed

lemma multi_example:
  "ExecuteOrAssociate ''a'' (execute_fn_returned 0 (execute_fn_called 0 (ExecuteOrAssociate ''a'' MultiRequestContext_new))) =
     \<lparr>active_reqs = [''a'' \<mapsto> 0], contexts = [\<lparr>cancellation_token = Some 0, callbacks = [0, 1]\<rparr>],
      callers = [\<lparr>caller_key = ''a'', caller_phase = Returned\<rparr>, \<lparr>caller_key = ''a'', caller_phase = Returned\<rparr>],
      started = [''a''], cancels = [], answers = []\<rparr>"
  by (simp add: ExecuteOrAssociate_def execute_fn_called_def execute_fn_returned_def MultiRequestContext_new_def Let_def)


text \<open>
  When one of several merged requests is cancelled its caller is told so, but the context of the key is
  taken out with the other callbacks: no other request merged with it is ever answered, whatever happens
  next, and the request they wait for is not cancelled.
\<close>

theorem multi_request_cancel_loses:
  assumes "multi_steps True cancelled MultiRequestContext_new m" "active_reqs m key = Some c"
    "i \<in> set (callbacks (contexts m ! c))" "j \<in> set (callbacks (contexts m ! c))" "j \<noteq> i"
    "multi_steps True cancelled (onRequestCancelled cancelled key i m) m'"
  shows "(i, cancelled) \<in> set (answers (onRequestCancelled cancelled key i m)) \<and>
    cancels (onRequestCancelled cancelled key i m) = cancels m \<and> j \<notin> fst ` set (answers m')"
proof -
  have ok: "multi_ok m" by (rule multi_ok_steps [OF assms(1) multi_ok_new(1)])
  have "lost j m'"
    by (rule lost_steps [OF assms(6) multi_ok_cancel [OF ok] cancel_loses [OF ok assms(2,4,5)]])
  moreover have "\<not> length (callbacks (contexts m ! c)) \<le> 1"
    using assms(3-5) by (auto simp: le_Suc_eq length_Suc_conv)
  ultimately show ?thesis using assms(2,3) by (simp add: lost_def onRequestCancelled_def Let_def)
qed

theorem multi_request_cancel_loses_witness:
  "answers (onRequestCompleted ''data'' ''a'' (onRequestCancelled ''cancelled'' ''a'' 0 (ExecuteOrAssociate ''a''
     (execute_fn_returned 0 (execute_fn_called 0 (ExecuteOrAssociate ''a'' MultiRequestContext_new)))))) = [(0, ''cancelled'')] \<and>
   1 \<notin> fst ` set (answers (onRequestCompleted ''data'' ''a'' (onRequestCancelled ''cancelled'' ''a'' 0 (ExecuteOrAssociate ''a''
     (execute_fn_returned 0 (execute_fn_called 0 (ExecuteOrAssociate ''a'' MultiRequestContext_new)))))))"
proof -
  let ?m = "ExecuteOrAssociate ''a'' (execute_fn_returned 0 (execute_fn_called 0 (ExecuteOrAssociate ''a'' MultiRequestContext_new)))"
  let ?c = "onRequestCancelled ''cancelled'' ''a'' 0 ?m"
  have "''a'' \<in> set (started ?c)" unfolding multi_example by (simp add: onRequestCancelled_def Let_def)
  then have "multi_steps True ''cancelled'' ?c (onRequestCompleted ''data'' ''a'' ?c)"
    unfolding multi_steps_def by (intro r_into_rtranclp multi_step.complete)
  from multi_request_cancel_loses [OF multi_example_steps _ _ _ _ this, of 0 1] show ?thesis
    unfolding multi_example by (simp add: onRequestCancelled_def onRequestCompleted_def Let_def)
qed


section \<open>Pending requests of the client\<close>

text \<open>The entries are the requests whose callback is still to come and those being issued, \<open>D\<close>.\<close>

definition keys_of :: "(int \<times> 'a) list \<Rightarrow> int list" where
  "keys_of xs = map fst xs"

lemma keys_of_simps [simp]:
  "keys_of [] = []" "keys_of (xs @ ys) = keys_of xs @ keys_of ys" "keys_of (x # xs) = fst x # keys_of xs"
  by (simp_all add: keys_of_def)

definition client_ok :: "int set \<Rightarrow> ('t, 'r) CatalogClientImpl \<Rightarrow> bool" where
  "client_ok D c \<longleftrightarrow> dom (requests_map (pending c)) = set (keys_of (waiting c)) \<union> D \<and> D \<inter> set (keys_of (waiting c)) = {} \<and>
     (\<forall>k \<in> dom (requests_map (pending c)) \<union> set (keys_of (client_calls c)). k \<le> pending_key (pending c)) \<and>
     distinct (keys_of (waiting c)) \<and> list_all (\<lambda>w. snd w \<noteq> ForPrefetch) (waiting c) \<and>
     distinct (keys_of (client_calls c)) \<and> set (keys_of (client_calls c)) \<inter> dom (requests_map (pending c)) = {}"

lemma client_ok_new: "client_ok {} CatalogClientImpl_new"
  by (simp add: client_ok_def CatalogClientImpl_new_def PendingRequests_new_def)

lemma client_ok_placeholder:
  assumes "client_ok D c" "client_placeholder c = (k, c1)"
  shows "client_ok (insert k D) c1"
proof -
  have k: "k = pending_key (pending c) + 1"
    "c1 = c\<lparr>pending := \<lparr>pending_key = k, requests_map = (requests_map (pending c))(k \<mapsto> None)\<rparr>\<rparr>"
    using assms(2) by (auto simp: client_placeholder_def GenerateRequestPlaceholder_def Let_def)
  have b: "\<forall>k' \<in> dom (requests_map (pending c)) \<union> set (keys_of (client_calls c)). k' \<le> pending_key (pending c)"
    using assms(1) by (simp add: client_ok_def)
  then have "k \<notin> dom (requests_map (pending c)) \<union> set (keys_of (client_calls c))"
    "\<forall>k' \<in> dom (requests_map (pending c)) \<union> set (keys_of (client_calls c)). k' \<le> k"
    using k(1) by (metis linorder_not_less zless_add1_eq, metis add_increasing2 zero_le_one)
  then show ?thesis using assms(1) unfolding client_ok_def k(2) by simp blast
qed

lemma client_ok_insert: "client_ok D (client_insert t k c) \<longleftrightarrow> client_ok D c"
proof -
  have "dom (requests_map (snd (Pending_Insert t k p))) = dom (requests_map p) \<and> pending_key (snd (Pending_Insert t k p)) = pending_key p"
    for p :: "'a PendingRequests" by (auto simp: Pending_Insert_def)
  then show ?thesis by (simp add: client_ok_def client_insert_def)
qed

lemma client_ok_callback:
  assumes "client_ok D c" "k \<in> D" "kind \<noteq> ForPrefetch"
  shows "client_ok (D - {k}) (request_callback kind k r c)"
proof -
  have "requests_map (pending c) k \<noteq> None" using assms(1,2) by (auto simp: client_ok_def)
  then show ?thesis using assms
    by (cases kind) (auto simp: client_ok_def request_callback_def Pending_Remove_def Let_def)
qed

lemma client_ok_run:
  assumes "client_ok D c" "k \<in> D" "kind \<noteq> ForPrefetch"
  shows "client_ok (D - {k}) (repo_run kind k r c)"
proof (cases r)
  case None
  then show ?thesis using assms by (auto simp: client_ok_def repo_run_def)
next
  case (Some x)
  then show ?thesis using client_ok_callback [OF assms] by (simp add: repo_run_def)
qed

lemma client_ok_request: "client_ok {} c \<Longrightarrow> client_ok {} (snd (client_request repo w f q c))"
proof -
  assume ok: "client_ok {} c"
  obtain k c1 where k: "client_placeholder c = (k, c1)" by (cases "client_placeholder c")
  note 1 = client_ok_placeholder [OF ok k]
  have run: "client_ok {} (repo_run ForCaller k r c1)" for r using client_ok_run [OF 1, of k ForCaller r] by simp
  show ?thesis
  proof (cases "f = CacheWithUpdate")
    case False
    then show ?thesis using k run by (simp add: client_request_def client_ok_insert split_beta)
  next
    case True
    obtain k2 c3 where k2: "client_placeholder (repo_run ForCaller k (snd (repo (w CacheOnly))) c1) = (k2, c3)"
      by (cases "client_placeholder (repo_run ForCaller k (snd (repo (w CacheOnly))) c1)")
    have "client_ok {} (repo_run ForUpdate k2 r c3)" for r
      using client_ok_run [OF client_ok_placeholder [OF run k2], of k2 ForUpdate r] by simp
    then show ?thesis using True k k2 by (simp add: client_request_def client_ok_insert split_beta)
  qed
qed

lemma client_ok_waiting_removed:
  assumes "client_ok {} c" "n < length (waiting c)" "waiting c ! n = (k, kind)"
  shows "client_ok {k} (c\<lparr>waiting := take n (waiting c) @ drop (Suc n) (waiting c)\<rparr>)" "kind \<noteq> ForPrefetch"
proof -
  have w: "waiting c = take n (waiting c) @ (k, kind) # drop (Suc n) (waiting c)" using assms(2,3) id_take_nth_drop by metis
  note ks = arg_cong [OF w, of keys_of] arg_cong [OF w, of "list_all (\<lambda>w. snd w \<noteq> ForPrefetch)"]
  show "client_ok {k} (c\<lparr>waiting := take n (waiting c) @ drop (Suc n) (waiting c)\<rparr>)" "kind \<noteq> ForPrefetch"
    using assms(1) ks unfolding client_ok_def by auto
qed

lemma client_ok_answer: "client_ok {} c \<Longrightarrow> client_ok {} (client_answer n r c)"
  using client_ok_callback [OF client_ok_waiting_removed(1), of c n] client_ok_waiting_removed(2) [of c n]
  by (fastforce simp: client_answer_def split: prod.splits)

lemma client_ok_step: "client_step False c c' \<Longrightarrow> client_ok {} c \<Longrightarrow> client_ok {} c'"
  by (induction rule: client_step.induct)
    (simp_all add: Client_GetCatalog_def Client_GetCatalogMetadataVersion_def Client_GetPartitions_def Client_GetData_def
      client_ok_request client_ok_answer)

lemma client_ok_steps: "client_steps False c c' \<Longrightarrow> client_ok {} c \<Longrightarrow> client_ok {} c'"
  unfolding client_steps_def by (induction rule: rtranclp_induct) (auto dest: client_ok_step)




text \<open>An entry that no waiting callback will remove.\<close>

definition leaked :: "int \<Rightarrow> ('t, 'r) CatalogClientImpl \<Rightarrow> bool" where
  "leaked k c \<longleftrightarrow> k \<in> dom (requests_map (pending c)) \<and> k \<le> pending_key (pending c) \<and> list_all (\<lambda>w. fst w = k \<longrightarrow> snd w = ForPrefetch) (waiting c)"


lemma leaked_placeholder: "leaked k c \<Longrightarrow> client_placeholder c = (k', c1) \<Longrightarrow> leaked k c1 \<and> k' \<noteq> k"
  by (auto simp: leaked_def client_placeholder_def GenerateRequestPlaceholder_def Let_def)

lemma leaked_insert: "leaked k (client_insert t k' c) \<longleftrightarrow> leaked k c"
  by (auto simp: leaked_def client_insert_def Pending_Insert_def)

lemma leaked_callback: "leaked k c \<Longrightarrow> k' \<noteq> k \<or> kind = ForPrefetch \<Longrightarrow> leaked k (request_callback kind k' r c)"
  by (cases kind) (auto simp: leaked_def request_callback_def Pending_Remove_def Let_def)

lemma leaked_run: "leaked k c \<Longrightarrow> k' \<noteq> k \<or> kind = ForPrefetch \<Longrightarrow> leaked k (repo_run kind k' r c)"
  by (cases r) (auto simp: repo_run_def leaked_callback, auto simp: leaked_def)

lemma leaked_request:
  assumes l: "leaked k c"
  shows "leaked k (snd (client_request repo w f q c))"
proof -
  obtain k1 c1 where k1: "client_placeholder c = (k1, c1)" by (cases "client_placeholder c")
  have run: "leaked k (repo_run ForCaller k1 r c1)" for r using leaked_run leaked_placeholder [OF l k1] by blast
  show ?thesis
  proof (cases "f = CacheWithUpdate")
    case False
    then show ?thesis using k1 run by (simp add: client_request_def leaked_insert split_beta)
  next
    case True
    obtain k2 c3 where k2: "client_placeholder (repo_run ForCaller k1 (snd (repo (w CacheOnly))) c1) = (k2, c3)"
      by (cases "client_placeholder (repo_run ForCaller k1 (snd (repo (w CacheOnly))) c1)")
    have "leaked k (repo_run ForUpdate k2 r c3)" for r using leaked_run leaked_placeholder [OF run k2] by blast
    then show ?thesis using True k1 k2 by (simp add: client_request_def leaked_insert split_beta)
  qed
qed

lemma leaked_answer: "leaked k c \<Longrightarrow> leaked k (client_answer n r c)"
proof (cases "n < length (waiting c)")
  case True
  assume l: "leaked k c"
  obtain k' kind where w: "waiting c ! n = (k', kind)" by (cases "waiting c ! n")
  have "k' \<noteq> k \<or> kind = ForPrefetch" using l True w by (auto simp: leaked_def list_all_length)
  moreover have "leaked k (c\<lparr>waiting := take n (waiting c) @ drop (Suc n) (waiting c)\<rparr>)"
    using l by (auto simp: leaked_def list_all_iff dest: in_set_takeD in_set_dropD)
  ultimately show ?thesis using True w by (simp add: client_answer_def leaked_callback)
qed (simp add: client_answer_def)

lemma leaked_prefetch: "leaked k c \<Longrightarrow> leaked k (snd (Client_PrefetchTiles provider request c))"
  using leaked_placeholder [of k c]
  by (cases "client_placeholder c"; cases "provider request") (simp add: Client_PrefetchTiles_def leaked_insert leaked_run)

lemma leaked_step: "client_step may_prefetch c c' \<Longrightarrow> leaked k c \<Longrightarrow> leaked k c'"
  by (induction rule: client_step.induct)
    (simp_all add: Client_GetCatalog_def Client_GetCatalogMetadataVersion_def Client_GetPartitions_def Client_GetData_def
      leaked_request leaked_answer leaked_prefetch)

lemma leaked_steps: "client_steps may_prefetch c c' \<Longrightarrow> leaked k c \<Longrightarrow> leaked k c'"
  unfolding client_steps_def by (induction rule: rtranclp_induct) (auto dest: leaked_step)

text \<open>
  The entry of a prefetch is never removed: it stays among the pending requests whatever the client does
  next, and whether or not the prefetch was answered.
\<close>

theorem prefetch_entry_leaks:
  assumes "client_steps False CatalogClientImpl_new c"
    "client_steps True (snd (Client_PrefetchTiles provider request c)) c'"
  shows "pending_key (pending c) + 1 \<in> dom (requests_map (pending c'))"
proof -
  let ?k = "pending_key (pending c) + 1"
  have "client_ok {} c" by (rule client_ok_steps [OF assms(1) client_ok_new])
  then have w: "\<forall>k \<in> set (keys_of (waiting c)). k < ?k" by (auto simp: client_ok_def)
  obtain c1 where c1: "client_placeholder c = (?k, c1)" "leaked ?k c1"
    using w by (force simp: client_placeholder_def GenerateRequestPlaceholder_def Let_def leaked_def list_all_iff keys_of_def)
  have "leaked ?k (snd (Client_PrefetchTiles provider request c))"
    using c1 by (auto simp: Client_PrefetchTiles_def leaked_insert split: prod.splits intro: leaked_run)
  from leaked_steps [OF assms(2) this] show ?thesis by (simp add: leaked_def)
qed

theorem prefetch_entry_leaks_witness:
  "1 \<in> dom (requests_map (pending (snd (Client_PrefetchTiles (\<lambda>q. (Some (0 :: nat), Some ''tiles'')) PrefetchTilesRequest_new CatalogClientImpl_new)))) \<and>
   client_calls (snd (Client_PrefetchTiles (\<lambda>q. (Some (0 :: nat), Some ''tiles'')) PrefetchTilesRequest_new CatalogClientImpl_new)) = [(1, ''tiles'')]"
proof -
  let ?c = "CatalogClientImpl_new :: (nat, string) CatalogClientImpl"
  let ?c' = "snd (Client_PrefetchTiles (\<lambda>q. (Some (0 :: nat), Some ''tiles'')) PrefetchTilesRequest_new ?c)"
  have "client_steps False CatalogClientImpl_new ?c" "client_steps True ?c' ?c'" by (simp_all add: client_steps_def)
  from prefetch_entry_leaks [OF this] show ?thesis
    by (simp add: CatalogClientImpl_new_def PendingRequests_new_def Client_PrefetchTiles_def client_placeholder_def
      GenerateRequestPlaceholder_def repo_run_def request_callback_def client_insert_def)
qed

end
