(* ===== verification/Refinement.thy ===== *)
theory Refinement
  imports Prelude
begin

text \<open>
  The interface between a component and its specification: operations are the elements of a type,
  a step of the code gives a result and a new state or fails (\<open>None\<close>: undefined behaviour or a
  failed assertion), a step of the specification always gives a result. If single steps refine the
  specification, so do sequences of operations.
\<close>

fun run_ops :: "('s \<Rightarrow> 'o \<Rightarrow> ('r \<times> 's) option) \<Rightarrow> 's \<Rightarrow> 'o list \<Rightarrow> ('r list \<times> 's) option" where
  "run_ops step c [] = Some ([], c)"
| "run_ops step c (oper # ops) = do {
     (r, c1) \<leftarrow> step c oper;
     (rs, c2) \<leftarrow> run_ops step c1 ops;
     Some (r # rs, c2)
   }"

fun run_spec :: "('a \<Rightarrow> 'o \<Rightarrow> 'r \<times> 'a) \<Rightarrow> 'a \<Rightarrow> 'o list \<Rightarrow> 'r list \<times> 'a" where
  "run_spec step a [] = ([], a)"
| "run_spec step a (oper # ops) = (let (r, a1) = step a oper; (rs, a2) = run_spec step a1 ops in (r # rs, a2))"

locale data_refinement =
  fixes R :: "'s \<Rightarrow> 'a \<Rightarrow> bool"
    and cstep :: "'s \<Rightarrow> 'o \<Rightarrow> ('r \<times> 's) option"
    and astep :: "'a \<Rightarrow> 'o \<Rightarrow> 'r \<times> 'a"
  assumes step_refines: "R c a \<Longrightarrow> \<exists>c'. cstep c oper = Some (fst (astep a oper), c') \<and> R c' (snd (astep a oper))"
begin

lemma run_refines:
  "R c a \<Longrightarrow> \<exists>c'. run_ops cstep c ops = Some (fst (run_spec astep a ops), c') \<and> R c' (snd (run_spec astep a ops))"
proof (induction ops arbitrary: c a)
  case (Cons oper ops)
  from step_refines [OF Cons.prems, of oper] obtain c1 where
    c1: "cstep c oper = Some (fst (astep a oper), c1)" "R c1 (snd (astep a oper))" by blast
  from Cons.IH [OF c1(2)] c1(1) show ?case by (auto simp: Let_def split_beta)
qed simp

end


end
