(* ===== verification/Lru_Cache.thy ===== *)
theory Lru_Cache
  imports Refinement
begin

text \<open>
  Component core/utils: \<open>LruCache\<close> (\<open>olp/core/utils/LruCache.h\<close>).

  The \<open>std::map\<close> of buckets is a finite map; an iterator into it is the key it points to, \<open>None\<close> is
  \<open>end()\<close>. The buckets form a doubly linked list through \<open>next_\<close> and \<open>previous_\<close>, kept as in the
  code: every operation follows and rewrites single links, and dereferencing \<open>end()\<close> or failing
  an assertion gives \<open>None\<close>. The costs are \<open>std::size_t\<close> and wrap. The eviction callback is the list of the
  entries it is called with, in order. The cost function is a parameter, as in the template.
\<close>

section \<open>The model\<close>

record ('k, 'v) Bucket =
  b_next :: "'k option"
  b_previous :: "'k option"
  b_value :: 'v

record ('k, 'v) LruCache =
  lru_map :: "('k, ('k, 'v) Bucket) fmap"
  lru_first :: "'k option"
  lru_last :: "'k option"
  lru_max_size :: size_t
  lru_size :: size_t

definition LruCache_new :: "size_t \<Rightarrow> ('k, 'v) LruCache" where
  "LruCache_new maxSize = \<lparr>lru_map = fmempty, lru_first = None, lru_last = None, lru_max_size = maxSize, lru_size = 0\<rparr>"

text \<open>\<open>it->second\<close>: dereferencing \<open>end()\<close> is undefined, here \<open>None\<close>.\<close>

definition deref :: "('k, ('k, 'v) Bucket) fmap \<Rightarrow> 'k option \<Rightarrow> ('k, 'v) Bucket option" where
  "deref m it = Option.bind it (fmlookup m)"

definition setNext :: "('k, ('k, 'v) Bucket) fmap \<Rightarrow> 'k option \<Rightarrow> 'k option \<Rightarrow> ('k, ('k, 'v) Bucket) fmap option" where
  "setNext m it n = do { k \<leftarrow> it; b \<leftarrow> fmlookup m k; Some (fmupd k (b\<lparr>b_next := n\<rparr>) m) }"

definition setPrevious :: "('k, ('k, 'v) Bucket) fmap \<Rightarrow> 'k option \<Rightarrow> 'k option \<Rightarrow> ('k, ('k, 'v) Bucket) fmap option" where
  "setPrevious m it p = do { k \<leftarrow> it; b \<leftarrow> fmlookup m k; Some (fmupd k (b\<lparr>b_previous := p\<rparr>) m) }"

definition Promote :: "('k, 'v) LruCache \<Rightarrow> 'k \<Rightarrow> ('k, 'v) LruCache option" where
  "Promote c it =
     (if Some it = lru_first c then Some c
      else do {
        b \<leftarrow> deref (lru_map c) (Some it);
        m1 \<leftarrow> setNext (lru_map c) (b_previous b) (b_next b);
        b \<leftarrow> deref m1 (Some it);
        (m2, last) \<leftarrow> (if b_next b \<noteq> None
                     then map_option (\<lambda>m. (m, lru_last c)) (setPrevious m1 (b_next b) (b_previous b))
                     else Some (m1, b_previous b));
        m3 \<leftarrow> setPrevious m2 (Some it) None;
        m4 \<leftarrow> setNext m3 (Some it) (lru_first c);
        m5 \<leftarrow> setPrevious m4 (lru_first c) (Some it);
        Some (c\<lparr>lru_map := m5, lru_first := Some it, lru_last := last\<rparr>)
      })"

definition Erase_it :: "('v \<Rightarrow> size_t) \<Rightarrow> ('k, 'v) LruCache \<Rightarrow> 'k \<Rightarrow> bool \<Rightarrow> (('k, 'v) LruCache \<times> ('k \<times> 'v) list) option" where
  "Erase_it cost_func c it doEvictionCallback = do {
     b \<leftarrow> deref (lru_map c) (Some it);
     let cost = cost_func (b_value b);
     (m1, last) \<leftarrow> (if b_next b = None then Some (lru_map c, b_previous b)
                  else map_option (\<lambda>m. (m, lru_last c)) (setPrevious (lru_map c) (b_next b) (b_previous b)));
     b \<leftarrow> deref m1 (Some it);
     (m2, first) \<leftarrow> (if b_previous b = None then Some (m1, b_next b)
                   else map_option (\<lambda>m. (m, lru_first c)) (setNext m1 (b_previous b) (b_next b)));
     b \<leftarrow> deref m2 (Some it);
     let evicted = (if doEvictionCallback then [(it, b_value b)] else []);
     Some (c\<lparr>lru_map := fmdrop it m2, lru_first := first, lru_last := last, lru_size := lru_size c - cost\<rparr>, evicted)
   }"

definition PopLast :: "('v \<Rightarrow> size_t) \<Rightarrow> ('k, 'v) LruCache \<Rightarrow> (('k, 'v) LruCache \<times> ('k \<times> 'v) list) option" where
  "PopLast cost_func c = do {
     k \<leftarrow> lru_last c;
     b \<leftarrow> deref (lru_map c) (Some k);
     if b_next b = None then Erase_it cost_func c k True else None
   }"

lemma fmdom_set_pointers:
  "setNext m it n = Some m' \<Longrightarrow> fmdom m' = fmdom m"
  "setPrevious m it n = Some m' \<Longrightarrow> fmdom m' = fmdom m"
  by (auto simp: setNext_def setPrevious_def bind_Some_iff intro: fmdomI finsert_absorb)

lemma PopLast_shrinks:
  "PopLast cost_func c = Some (c', es) \<Longrightarrow> fcard (fmdom (lru_map c')) < fcard (fmdom (lru_map c))"
  by (auto simp: PopLast_def Erase_it_def bind_Some_iff Let_def deref_def split: if_splits
    dest!: fmdom_set_pointers intro!: fcard_fminus1_less intro: fmdomI)

function evict :: "('v \<Rightarrow> size_t) \<Rightarrow> ('k, 'v) LruCache \<Rightarrow> (('k, 'v) LruCache \<times> ('k \<times> 'v) list) option" where
  "evict cost_func c =
     (if lru_size c > lru_max_size c
      then (case PopLast cost_func c of
              None \<Rightarrow> None
            | Some (c', es) \<Rightarrow> map_option (\<lambda>(c'', es'). (c'', es @ es')) (evict cost_func c'))
      else Some (c, []))"
  by pat_completeness auto
termination
  by (relation "measure (\<lambda>(_, c). fcard (fmdom (lru_map c)))") (auto dest: PopLast_shrinks)

declare evict.simps [simp del]

definition AddInternal :: "('v \<Rightarrow> size_t) \<Rightarrow> ('k, 'v) LruCache \<Rightarrow> 'k \<Rightarrow> size_t \<Rightarrow> size_t option \<Rightarrow>
    (('k, 'v) LruCache \<times> ('k \<times> 'v) list) option" where
  "AddInternal cost_func c it cost oldCost = do {
     c1 \<leftarrow> (case oldCost of
        None \<Rightarrow>
          (if fcard (fmdom (lru_map c)) = 1
           then (if lru_last c = None \<and> lru_first c = None
                 then Some (c\<lparr>lru_last := Some it, lru_first := Some it, lru_size := lru_size c + cost\<rparr>)
                 else None)
           else do {
             m1 \<leftarrow> setNext (lru_map c) (Some it) (lru_first c);
             m2 \<leftarrow> setPrevious m1 (lru_first c) (Some it);
             Some (c\<lparr>lru_map := m2, lru_first := Some it, lru_size := lru_size c + cost\<rparr>)
           })
      | Some old \<Rightarrow> Promote (c\<lparr>lru_size := lru_size c + (cost - old)\<rparr>) it);
     evict cost_func c1
   }"

type_synonym ('k, 'v) insert_result = "('k option \<times> bool) \<times> ('k, 'v) LruCache \<times> ('k \<times> 'v) list"

definition Insert :: "('v \<Rightarrow> size_t) \<Rightarrow> ('k, 'v) LruCache \<Rightarrow> 'k \<Rightarrow> 'v \<Rightarrow> ('k, 'v) insert_result option" where
  "Insert cost_func c key value =
     (let valueCost = cost_func value in
      if valueCost > lru_max_size c then Some ((None, False), c, [])
      else case fmlookup (lru_map c) key of
        None \<Rightarrow> map_option (\<lambda>r. ((Some key, True), r))
          (AddInternal cost_func
             (c\<lparr>lru_map := fmupd key \<lparr>b_next = None, b_previous = None, b_value = value\<rparr> (lru_map c)\<rparr>)
             key valueCost None)
      | Some _ \<Rightarrow> map_option (\<lambda>c'. ((Some key, False), c', [])) (Promote c key))"

definition InsertOrAssign :: "('v \<Rightarrow> size_t) \<Rightarrow> ('k, 'v) LruCache \<Rightarrow> 'k \<Rightarrow> 'v \<Rightarrow> ('k, 'v) insert_result option" where
  "InsertOrAssign cost_func c key value =
     (case fmlookup (lru_map c) key of
        Some b \<Rightarrow>
          (let oldCost = cost_func (b_value b); newCost = cost_func value in
           map_option (\<lambda>r. ((Some key, False), r))
             (AddInternal cost_func (c\<lparr>lru_map := fmupd key (b\<lparr>b_value := value\<rparr>) (lru_map c)\<rparr>)
                key newCost (Some oldCost)))
      | None \<Rightarrow>
          (let newCost = cost_func value in
           if newCost > lru_max_size c then Some ((None, False), c, [])
           else map_option (\<lambda>r. ((Some key, True), r))
             (AddInternal cost_func
                (c\<lparr>lru_map := fmupd key \<lparr>b_next = None, b_previous = None, b_value = value\<rparr> (lru_map c)\<rparr>)
                key newCost None)))"

definition Erase :: "('v \<Rightarrow> size_t) \<Rightarrow> ('k, 'v) LruCache \<Rightarrow> 'k \<Rightarrow> (bool \<times> ('k, 'v) LruCache) option" where
  "Erase cost_func c key =
     (if fmlookup (lru_map c) key = None then Some (False, c)
      else map_option (\<lambda>(c', _). (True, c')) (Erase_it cost_func c key False))"

definition iterator_next :: "('k, 'v) LruCache \<Rightarrow> 'k option \<Rightarrow> 'k option option" where
  "iterator_next c it = map_option b_next (deref (lru_map c) it)"

definition Erase_iterator :: "('v \<Rightarrow> size_t) \<Rightarrow> ('k, 'v) LruCache \<Rightarrow> 'k option \<Rightarrow> ('k option \<times> ('k, 'v) LruCache) option" where
  "Erase_iterator cost_func c it = do {
     it' \<leftarrow> iterator_next c it;
     k \<leftarrow> it;
     (_, c') \<leftarrow> Erase cost_func c k;
     Some (it', c')
   }"

definition Resize :: "('v \<Rightarrow> size_t) \<Rightarrow> ('k, 'v) LruCache \<Rightarrow> size_t \<Rightarrow> (('k, 'v) LruCache \<times> ('k \<times> 'v) list) option" where
  "Resize cost_func c maxSize = evict cost_func (c\<lparr>lru_max_size := maxSize\<rparr>)"

definition Find :: "('k, 'v) LruCache \<Rightarrow> 'k \<Rightarrow> ('k option \<times> ('k, 'v) LruCache) option" where
  "Find c key =
     (if fmlookup (lru_map c) key \<noteq> None then map_option (\<lambda>c'. (Some key, c')) (Promote c key)
      else Some (None, c))"

definition FindNoPromote :: "('k, 'v) LruCache \<Rightarrow> 'k \<Rightarrow> 'k option" where
  "FindNoPromote c key = (if fmlookup (lru_map c) key \<noteq> None then Some key else None)"

definition iterator_value :: "('k, 'v) LruCache \<Rightarrow> 'k option \<Rightarrow> 'v option" where
  "iterator_value c it = map_option b_value (deref (lru_map c) it)"

definition Find_or :: "('k, 'v) LruCache \<Rightarrow> 'k \<Rightarrow> 'v \<Rightarrow> ('v \<times> ('k, 'v) LruCache) option" where
  "Find_or c key nullValue = do {
     (it, c') \<leftarrow> Find c key;
     if it = None then Some (nullValue, c') else map_option (\<lambda>v. (v, c')) (iterator_value c' it)
   }"

definition Clear :: "('k, 'v) LruCache \<Rightarrow> ('k, 'v) LruCache" where
  "Clear c = c\<lparr>lru_map := fmempty, lru_first := None, lru_last := None, lru_size := 0\<rparr>"

text \<open>The range from \<open>begin()\<close> to \<open>end()\<close>, at most \<open>n\<close> steps.\<close>

fun iterate :: "nat \<Rightarrow> ('k, 'v) LruCache \<Rightarrow> 'k option \<Rightarrow> ('k \<times> 'v) list option" where
  "iterate n c None = Some []"
| "iterate 0 c (Some k) = None"
| "iterate (Suc n) c (Some k) = do {
     b \<leftarrow> deref (lru_map c) (Some k);
     map_option (\<lambda>xs. (k, b_value b) # xs) (iterate n c (b_next b))
   }"

section \<open>The chain of buckets\<close>

fun seg :: "('k, ('k, 'v) Bucket) fmap \<Rightarrow> 'k option \<Rightarrow> ('k \<times> 'v) list \<Rightarrow> 'k option \<Rightarrow> bool" where
  "seg m p [] n \<longleftrightarrow> True"
| "seg m p ((k, v) # xs) n \<longleftrightarrow>
     fmlookup m k = Some \<lparr>b_next = hd_or (map fst xs) n, b_previous = p, b_value = v\<rparr> \<and>
     seg m (Some k) xs n"

lemma seg_append:
  "seg m p (xs @ ys) n \<longleftrightarrow> seg m p xs (hd_or (map fst ys) n) \<and> seg m (last_or (map fst xs) p) ys n"
  by (induction m p xs n rule: seg.induct) auto

lemma seg_frame: "k \<notin> fst ` set xs \<Longrightarrow> seg (fmupd k b m) p xs n = seg m p xs n"
  by (induction m p xs n rule: seg.induct) auto

lemma seg_drop: "k \<notin> fst ` set xs \<Longrightarrow> seg (fmdrop k m) p xs n = seg m p xs n"
  by (induction m p xs n rule: seg.induct) auto

text \<open>
  The representation: the chain from \<open>first_\<close> to \<open>last_\<close> is the list of entries, from the most
  to the least recently used; it holds all keys of the map once.
\<close>

definition rep :: "('v \<Rightarrow> size_t) \<Rightarrow> ('k, 'v) LruCache \<Rightarrow> ('k \<times> 'v) list \<Rightarrow> bool" where
  "rep cost_func c xs \<longleftrightarrow> seg (lru_map c) None xs None \<and> distinct (map fst xs) \<and>
     fset (fmdom (lru_map c)) = fst ` set xs \<and>
     lru_first c = hd_or (map fst xs) None \<and> lru_last c = last_or (map fst xs) None \<and>
     lru_size c = sum_list (map (cost_func \<circ> snd) xs)"

lemma seg_last_next:
  "seg m p (xs @ [(k, v)]) n \<Longrightarrow> distinct (map fst (xs @ [(k, v)])) \<Longrightarrow>
   \<exists>m'. setNext m (Some k) n' = Some m' \<and> seg m' p (xs @ [(k, v)]) n' \<and>
     (\<forall>j. j \<noteq> k \<longrightarrow> fmlookup m' j = fmlookup m j) \<and> fmdom m' = fmdom m"
  by (auto simp: seg_append seg_frame setNext_def fmdomI intro: finsert_absorb)

lemma seg_first_prev:
  "seg m p ((k, v) # xs) n \<Longrightarrow> distinct (map fst ((k, v) # xs)) \<Longrightarrow>
   \<exists>m'. setPrevious m (Some k) p' = Some m' \<and> seg m' p' ((k, v) # xs) n \<and>
     (\<forall>j. j \<noteq> k \<longrightarrow> fmlookup m' j = fmlookup m j) \<and> fmdom m' = fmdom m"
  by (auto simp: seg_frame setPrevious_def fmdomI intro: finsert_absorb)

lemma seg_cong: "(\<And>j. j \<in> fst ` set xs \<Longrightarrow> fmlookup m' j = fmlookup m j) \<Longrightarrow> seg m' p xs n = seg m p xs n"
  by (induction m p xs n rule: seg.induct) auto

lemma set_previous_head:
  assumes "seg m p bs n" "distinct (map fst bs)" "bs \<noteq> []"
  obtains m' where "setPrevious m (hd_or (map fst bs) e) p' = Some m'" "seg m' p' bs n"
    "\<And>j. j \<notin> fst ` set bs \<Longrightarrow> fmlookup m' j = fmlookup m j" "fmdom m' = fmdom m"
proof (cases bs)
  case (Cons kv bs')
  then obtain k v where [simp]: "bs = (k, v) # bs'" by (cases kv) auto
  from seg_first_prev [of m p k v bs' n p'] assms that show ?thesis by fastforce
qed (use assms in simp)

lemma set_next_last:
  assumes "seg m p as n" "distinct (map fst as)" "as \<noteq> []"
  obtains m' where "setNext m (last_or (map fst as) e) n' = Some m'" "seg m' p as n'"
    "\<And>j. j \<notin> fst ` set as \<Longrightarrow> fmlookup m' j = fmlookup m j" "fmdom m' = fmdom m"
proof (cases as rule: rev_cases)
  case (snoc as' kv)
  then obtain k v where [simp]: "as = as' @ [(k, v)]" by (cases kv) auto
  from seg_last_next [of m p as' k v n n'] assms that show ?thesis by fastforce
qed (use assms in simp)

lemma rep_lookup:
  assumes "rep cost c (as @ (k, v) # bs)"
  shows "fmlookup (lru_map c) k =
    Some \<lparr>b_next = hd_or (map fst bs) None, b_previous = last_or (map fst as) None, b_value = v\<rparr>"
  using assms by (simp add: rep_def seg_append)

lemma rep_lookup_iff:
  assumes "rep cost c xs"
  shows "fmlookup (lru_map c) k = None \<longleftrightarrow> k \<notin> fst ` set xs"
  using assms by (metis fmdom_notD fmdom_notI rep_def)

lemma relink_previous:
  assumes "seg m None (as @ (k, v) # bs) None" "distinct (map fst (as @ (k, v) # bs))"
  obtains m1 where
    "(if hd_or (map fst bs) None = None then Some (m, last_or (map fst as) None)
      else map_option (\<lambda>m'. (m', last_or (map fst (as @ (k, v) # bs)) None))
        (setPrevious m (hd_or (map fst bs) None) (last_or (map fst as) None))) = Some (m1, last_or (map fst (as @ bs)) None)"
    "seg m1 None as (Some k)" "seg m1 (last_or (map fst as) None) bs None" "fmlookup m1 k = fmlookup m k" "fmdom m1 = fmdom m"
proof (cases "bs = []")
  case True
  with assms that [of m] show ?thesis by (simp add: seg_append)
next
  case False
  have d: "distinct (map fst bs)" "seg m (Some k) bs None" using assms by (auto simp: seg_append)
  obtain m1 where m1: "setPrevious m (hd_or (map fst bs) None) (last_or (map fst as) None) = Some m1"
    "seg m1 (last_or (map fst as) None) bs None"
    "\<And>j. j \<notin> fst ` set bs \<Longrightarrow> fmlookup m1 j = fmlookup m j" "fmdom m1 = fmdom m"
    using set_previous_head [OF d(2,1) False] by metis
  have "seg m None as (Some k)" "\<And>j. j \<in> fst ` set as \<Longrightarrow> j \<notin> fst ` set bs"
    using assms by (auto simp: seg_append)
  then have "seg m1 None as (Some k)" using seg_cong [of as m1 m] m1(3) by blast
  moreover have "fmlookup m1 k = fmlookup m k" using m1(3) assms(2) by auto
  moreover have "last_or (map fst (as @ (k, v) # bs)) None = last_or (map fst (as @ bs)) None"
    using False last_or_cong [of "map fst bs"] by simp
  moreover have "hd_or (map fst bs) None \<noteq> None" using False by simp
  ultimately show ?thesis using m1(1,2,4) that [of m1] by (simp only: if_False option.map)
qed

lemma relink_next:
  assumes "seg m None as (Some k)" "distinct (map fst (as @ (k, v) # bs))" "seg m (last_or (map fst as) None) bs None"
  obtains m2 where
    "(if last_or (map fst as) None = None then Some (m, hd_or (map fst bs) None)
      else map_option (\<lambda>m'. (m', hd_or (map fst (as @ (k, v) # bs)) None))
        (setNext m (last_or (map fst as) None) (hd_or (map fst bs) None))) = Some (m2, hd_or (map fst (as @ bs)) None)"
    "seg m2 None (as @ bs) None" "fmlookup m2 k = fmlookup m k" "fmdom m2 = fmdom m"
proof (cases "as = []")
  case True
  with assms that [of m] show ?thesis by (simp add: seg_append)
next
  case False
  obtain m2 where m2: "setNext m (last_or (map fst as) None) (hd_or (map fst bs) None) = Some m2"
    "seg m2 None as (hd_or (map fst bs) None)"
    "\<And>j. j \<notin> fst ` set as \<Longrightarrow> fmlookup m2 j = fmlookup m j" "fmdom m2 = fmdom m"
    using set_next_last [OF assms(1) _ False] assms(2) by (metis distinct_append map_append)
  have "\<And>j. j \<in> fst ` set bs \<Longrightarrow> j \<notin> fst ` set as" using assms(2) by auto
  then have "seg m2 (last_or (map fst as) None) bs None" using assms(3) seg_cong [of bs m2 m] m2(3) by blast
  moreover have "fmlookup m2 k = fmlookup m k" using m2(3) assms(2) by auto
  moreover have "hd_or (map fst (as @ (k, v) # bs)) None = hd_or (map fst (as @ bs)) None"
    using False by (cases as) auto
  moreover have "last_or (map fst as) None \<noteq> None" using False by simp
  ultimately show ?thesis using m2(1,2,4) that [of m2] by (simp only: if_False option.map seg_append)
qed

lemma Erase_it_rep:
  assumes "rep cost c (as @ (k, v) # bs)"
  shows "\<exists>c'. Erase_it cost c k cb = Some (c', if cb then [(k, v)] else []) \<and> rep cost c' (as @ bs) \<and>
    lru_max_size c' = lru_max_size c"
proof -
  let ?m = "lru_map c"
  have r: "seg ?m None (as @ (k, v) # bs) None" "distinct (map fst (as @ (k, v) # bs))"
    "lru_first c = hd_or (map fst (as @ (k, v) # bs)) None" "lru_last c = last_or (map fst (as @ (k, v) # bs)) None"
    using assms by (simp_all add: rep_def)
  obtain m1 where m1: "(if hd_or (map fst bs) None = None then Some (?m, last_or (map fst as) None)
      else map_option (\<lambda>m'. (m', last_or (map fst (as @ (k, v) # bs)) None))
        (setPrevious ?m (hd_or (map fst bs) None) (last_or (map fst as) None))) = Some (m1, last_or (map fst (as @ bs)) None)"
    "seg m1 None as (Some k)" "seg m1 (last_or (map fst as) None) bs None" "fmlookup m1 k = fmlookup ?m k" "fmdom m1 = fmdom ?m"
    by (rule relink_previous [OF r(1,2)])
  obtain m2 where m2: "(if last_or (map fst as) None = None then Some (m1, hd_or (map fst bs) None)
      else map_option (\<lambda>m'. (m', hd_or (map fst (as @ (k, v) # bs)) None))
        (setNext m1 (last_or (map fst as) None) (hd_or (map fst bs) None))) = Some (m2, hd_or (map fst (as @ bs)) None)"
    "seg m2 None (as @ bs) None" "fmlookup m2 k = fmlookup m1 k" "fmdom m2 = fmdom m1"
    by (rule relink_next [OF m1(2) r(2) m1(3)])
  have k: "deref ?m (Some k) = Some \<lparr>b_next = hd_or (map fst bs) None, b_previous = last_or (map fst as) None, b_value = v\<rparr>"
    using rep_lookup [OF assms] by (simp add: deref_def)
  then have k12: "deref m1 (Some k) = deref ?m (Some k)" "deref m2 (Some k) = deref ?m (Some k)"
    using m1(4) m2(3) by (simp_all add: deref_def)
  define c' where "c' = c\<lparr>lru_map := fmdrop k m2, lru_first := hd_or (map fst (as @ bs)) None,
    lru_last := last_or (map fst (as @ bs)) None, lru_size := lru_size c - cost v\<rparr>"
  have "Erase_it cost c k cb = Some (c', if cb then [(k, v)] else [])"
    by (simp only: Erase_it_def k k12 Option.bind_lunit Let_def Bucket.select_convs r(3,4) m1(1) m2(1) prod.case c'_def)
  moreover have "rep cost c' (as @ bs)"
    using assms m1(5) m2(2,4) seg_drop [of k "as @ bs" m2 None None] by (auto simp: rep_def c'_def image_Un)
  ultimately show ?thesis by (auto simp: c'_def)
qed


lemma rep_nonempty_last:
  assumes "rep cost c xs" "xs \<noteq> []"
  obtains as k v where "xs = as @ [(k, v)]" "lru_last c = Some k"
  using assms by (cases xs rule: rev_cases) (auto simp: rep_def)

lemma PopLast_rep:
  assumes "rep cost c (as @ [(k, v)])"
  shows "\<exists>c'. PopLast cost c = Some (c', [(k, v)]) \<and> rep cost c' as \<and> lru_max_size c' = lru_max_size c"
proof -
  have "lru_last c = Some k" using assms by (simp add: rep_def)
  moreover have "deref (lru_map c) (Some k) = Some \<lparr>b_next = None, b_previous = last_or (map fst as) None, b_value = v\<rparr>"
    using rep_lookup [OF assms] by (simp add: deref_def)
  ultimately show ?thesis using Erase_it_rep [OF assms, of True] by (simp add: PopLast_def)
qed

text \<open>The specification of eviction: drop from the end while the costs exceed the maximum.\<close>

function trim :: "('v \<Rightarrow> size_t) \<Rightarrow> size_t \<Rightarrow> ('k \<times> 'v) list \<Rightarrow> ('k \<times> 'v) list" where
  "trim cost mx xs = (if xs \<noteq> [] \<and> sum_list (map (cost \<circ> snd) xs) > mx then trim cost mx (butlast xs) else xs)"
  by pat_completeness auto
termination
  by (relation "measure (\<lambda>(_, _, xs). length xs)") auto

declare trim.simps [simp del]

lemma trim_prefix: "\<exists>ys. xs = trim cost mx xs @ ys"
proof (induction xs rule: rev_induct)
  case (snoc x xs)
  then obtain ys where "xs = trim cost mx xs @ ys" by blast
  then have "xs @ [x] = trim cost mx xs @ (ys @ [x])" by (metis append_assoc)
  then have "\<exists>zs. xs @ [x] = trim cost mx xs @ zs" by blast
  then show ?case unfolding trim.simps [of cost mx "xs @ [x]"] by simp
qed (simp add: trim.simps)

lemma trim_fits: "sum_list (map (cost \<circ> snd) (trim cost mx xs)) \<le> mx"
proof (induction xs rule: rev_induct)
  case (snoc x xs)
  then show ?case unfolding trim.simps [of cost mx "xs @ [x]"] by (simp add: not_less o_def)
qed (simp add: trim.simps)

lemma trim_id: "sum_list (map (cost \<circ> snd) xs) \<le> mx \<Longrightarrow> trim cost mx xs = xs"
  by (subst trim.simps) auto

lemma evict_rep:
  assumes "rep cost c xs"
  shows "\<exists>c'. evict cost c = Some (c', rev (drop (length (trim cost (lru_max_size c) xs)) xs)) \<and>
    rep cost c' (trim cost (lru_max_size c) xs) \<and> lru_max_size c' = lru_max_size c"
  using assms
proof (induction xs arbitrary: c rule: rev_induct)
  case Nil
  then show ?case by (subst evict.simps) (auto simp: rep_def trim.simps)
next
  case (snoc x xs)
  obtain k v where x: "x = (k, v)" by (cases x)
  have size: "lru_size c = sum_list (map (cost \<circ> snd) (xs @ [(k, v)]))" using snoc.prems x by (simp add: rep_def)
  show ?case
  proof (cases "lru_size c > lru_max_size c")
    case True
    then have t: "trim cost (lru_max_size c) (xs @ [x]) = trim cost (lru_max_size c) xs"
      by (subst trim.simps) (simp add: size x)
    obtain c1 where c1: "PopLast cost c = Some (c1, [(k, v)])" "rep cost c1 xs" "lru_max_size c1 = lru_max_size c"
      using PopLast_rep snoc.prems x by metis
    have "length (trim cost (lru_max_size c) xs) \<le> length xs"
      using trim_prefix [of xs cost "lru_max_size c"] by (metis le_add1 length_append)
    with snoc.IH [OF c1(2)] c1 True t x show ?thesis by (subst evict.simps) auto
  next
    case False
    then have "trim cost (lru_max_size c) (xs @ [x]) = xs @ [x]"
      using size x by (intro trim_id) (simp add: not_less)
    with False snoc.prems show ?thesis by (subst evict.simps) auto
  qed
qed

lemma push_front:
  assumes "seg m None xs None" "xs \<noteq> []" "distinct (map fst xs)" "k \<notin> fst ` set xs" "fmlookup m k = Some b" "b_value b = v"
  obtains m5 where
    "do { m3 \<leftarrow> setPrevious m (Some k) None; m4 \<leftarrow> setNext m3 (Some k) (hd_or (map fst xs) None);
          setPrevious m4 (hd_or (map fst xs) None) (Some k) } = Some m5"
    "seg m5 None ((k, v) # xs) None" "fmdom m5 = fmdom m"
proof -
  let ?h = "hd_or (map fst xs) None"
  define m4 where "m4 = fmupd k (b\<lparr>b_previous := None, b_next := ?h\<rparr>) (fmupd k (b\<lparr>b_previous := None\<rparr>) m)"
  have m4: "Option.bind (setPrevious m (Some k) None) (\<lambda>m3. setNext m3 (Some k) ?h) = Some m4"
    using assms(5) by (simp add: setPrevious_def setNext_def m4_def)
  have seg4: "seg m4 None xs None" using assms(1,4) by (simp add: m4_def seg_frame)
  obtain m5 where m5: "setPrevious m4 ?h (Some k) = Some m5" "seg m5 (Some k) xs None"
    "\<And>j. j \<notin> fst ` set xs \<Longrightarrow> fmlookup m5 j = fmlookup m4 j" "fmdom m5 = fmdom m4"
    using set_previous_head [OF seg4 assms(3,2)] by metis
  have "fmlookup m5 k = Some \<lparr>b_next = ?h, b_previous = None, b_value = v\<rparr>"
    using m5(3) [OF assms(4)] assms(6) by (cases b) (simp add: m4_def)
  moreover have "fmdom m5 = fmdom m" using m5(4) assms(5) by (auto simp: m4_def fmdomI intro: finsert_absorb)
  ultimately show ?thesis using that [of m5] m4 m5(1,2) by (auto simp: Option.bind_assoc bind_Some_iff)
qed

definition to_front :: "'k \<Rightarrow> ('k \<times> 'v) list \<Rightarrow> ('k \<times> 'v) list" where
  "to_front k xs = filter (\<lambda>x. fst x = k) xs @ filter (\<lambda>x. fst x \<noteq> k) xs"

lemma to_front_mid:
  "distinct (map fst (as @ (k, v) # bs)) \<Longrightarrow> to_front k (as @ (k, v) # bs) = (k, v) # as @ bs"
proof -
  assume d: "distinct (map fst (as @ (k, v) # bs))"
  have "filter (\<lambda>x. fst x = k) ys = [] \<and> filter (\<lambda>x. fst x \<noteq> k) ys = ys" if "k \<notin> fst ` set ys" for ys :: "('a \<times> 'b) list"
    using that by (induction ys) auto
  with d show ?thesis by (simp add: to_front_def)
qed

lemma unlink:
  assumes s: "seg m None as (Some k)" "seg m (Some k) bs None" and ne: "as \<noteq> []"
    and d: "distinct (map fst (as @ (k, v) # bs))"
  obtains m1 m2 where "setNext m (last_or (map fst as) None) (hd_or (map fst bs) None) = Some m1"
    "(if hd_or (map fst bs) None \<noteq> None
      then map_option (\<lambda>m'. (m', last_or (map fst bs) (Some k))) (setPrevious m1 (hd_or (map fst bs) None) (last_or (map fst as) None))
      else Some (m1, last_or (map fst as) None)) = Some (m2, last_or (map fst (as @ bs)) None)"
    "fmlookup m1 k = fmlookup m k" "seg m2 None (as @ bs) None" "fmlookup m2 k = fmlookup m k" "fmdom m2 = fmdom m"
proof -
  have disj: "\<And>j. j \<in> fst ` set bs \<Longrightarrow> j \<notin> fst ` set as" "k \<notin> fst ` set as" "k \<notin> fst ` set bs"
    "distinct (map fst as)" "distinct (map fst bs)" using d by auto
  obtain m1 where m1: "setNext m (last_or (map fst as) None) (hd_or (map fst bs) None) = Some m1"
    "seg m1 None as (hd_or (map fst bs) None)"
    "\<And>j. j \<notin> fst ` set as \<Longrightarrow> fmlookup m1 j = fmlookup m j" "fmdom m1 = fmdom m"
    using set_next_last [OF s(1) disj(4) ne] by metis
  have b1: "seg m1 (Some k) bs None" using s(2) seg_cong [of bs m1 m] m1(3) disj(1) by blast
  show thesis
  proof (cases "bs = []")
    case True
    with that [of m1 m1] m1 disj(2) show thesis by simp
  next
    case False
    obtain m2 where m2: "setPrevious m1 (hd_or (map fst bs) None) (last_or (map fst as) None) = Some m2"
      "seg m2 (last_or (map fst as) None) bs None"
      "\<And>j. j \<notin> fst ` set bs \<Longrightarrow> fmlookup m2 j = fmlookup m1 j" "fmdom m2 = fmdom m1"
      using set_previous_head [OF b1 disj(5) False] by metis
    have "seg m2 None as (hd_or (map fst bs) None)" using m1(2) seg_cong [of as m2 m1] m2(3) disj(1) by blast
    then have "seg m2 None (as @ bs) None" using m2(2) by (simp add: seg_append)
    moreover have "hd_or (map fst bs) None \<noteq> None" "last_or (map fst bs) (Some k) = last_or (map fst (as @ bs)) None"
      using False last_or_cong [of "map fst bs"] by auto
    ultimately show thesis
      using that [of m1 m2] m1(1,3,4) m2(1,3,4) disj(2,3) by simp
  qed
qed

lemma Promote_rep_mid:
  assumes r: "rep cost c (as @ (k, v) # bs)" and ne: "as \<noteq> []"
  shows "\<exists>c'. Promote c k = Some c' \<and> rep cost c' ((k, v) # as @ bs) \<and> lru_max_size c' = lru_max_size c"
proof -
  let ?m = "lru_map c"
  have d: "distinct (map fst (as @ (k, v) # bs))" using r by (simp add: rep_def)
  have s: "seg ?m None as (Some k)" "seg ?m (Some k) bs None" "fmlookup ?m k =
      Some \<lparr>b_next = hd_or (map fst bs) None, b_previous = last_or (map fst as) None, b_value = v\<rparr>"
    using r by (simp_all add: rep_def seg_append)
  have fl: "lru_first c = hd_or (map fst (as @ bs)) None" "lru_last c = last_or (map fst bs) (Some k)"
    using r ne by (cases as; simp add: rep_def)+
  have nf: "Some k \<noteq> lru_first c" using d fl(1) ne by (cases as) auto
  obtain m1 m2 where m1: "setNext ?m (last_or (map fst as) None) (hd_or (map fst bs) None) = Some m1"
    and m2: "(if hd_or (map fst bs) None \<noteq> None
      then map_option (\<lambda>m'. (m', last_or (map fst bs) (Some k))) (setPrevious m1 (hd_or (map fst bs) None) (last_or (map fst as) None))
      else Some (m1, last_or (map fst as) None)) = Some (m2, last_or (map fst (as @ bs)) None)"
    and k1: "fmlookup m1 k = fmlookup ?m k" and seg2: "seg m2 None (as @ bs) None"
    and k2: "fmlookup m2 k = fmlookup ?m k" and dom2: "fmdom m2 = fmdom ?m"
    using unlink [OF s(1,2) ne d] by blast
  have dd: "distinct (map fst (as @ bs))" "k \<notin> fst ` set (as @ bs)" "as @ bs \<noteq> []"
    using d ne by auto
  obtain m5 where m5: "do { m3 \<leftarrow> setPrevious m2 (Some k) None; m4 \<leftarrow> setNext m3 (Some k) (lru_first c);
        setPrevious m4 (lru_first c) (Some k) } = Some m5"
      "seg m5 None ((k, v) # as @ bs) None" "fmdom m5 = fmdom m2"
    using push_front [OF seg2 dd(3,1,2) k2 [unfolded s(3)] Bucket.select_convs(3)] unfolding fl(1) by blast
  define c' where "c' = c\<lparr>lru_map := m5, lru_first := Some k, lru_last := last_or (map fst (as @ bs)) None\<rparr>"
  have k01: "deref ?m (Some k) = Some \<lparr>b_next = hd_or (map fst bs) None, b_previous = last_or (map fst as) None, b_value = v\<rparr>"
    "deref m1 (Some k) = Some \<lparr>b_next = hd_or (map fst bs) None, b_previous = last_or (map fst as) None, b_value = v\<rparr>"
    using s(3) k1 by (simp_all add: deref_def)
  have "Promote c k = Option.bind (do { m3 \<leftarrow> setPrevious m2 (Some k) None; m4 \<leftarrow> setNext m3 (Some k) (lru_first c);
        setPrevious m4 (lru_first c) (Some k) }) (\<lambda>m5. Some (c\<lparr>lru_map := m5, lru_first := Some k,
          lru_last := last_or (map fst (as @ bs)) None\<rparr>))"
    unfolding Promote_def using nf
    by (simp only: k01 Option.bind_lunit Bucket.select_convs m1 m2 fl(2) prod.case if_False Option.bind_assoc)
  then have "Promote c k = Some c'" unfolding m5(1) by (simp add: c'_def)
  moreover have "rep cost c' ((k, v) # as @ bs)"
    using r m5(2,3) dom2 dd last_or_cong [of "map fst (as @ bs)" None "Some k"]
    by (simp add: rep_def c'_def add.left_commute insert_commute)
  ultimately show ?thesis by (auto simp: c'_def)
qed

lemma Promote_rep:
  assumes r: "rep cost c xs" and k: "k \<in> fst ` set xs"
  shows "\<exists>c'. Promote c k = Some c' \<and> rep cost c' (to_front k xs) \<and> lru_max_size c' = lru_max_size c"
proof -
  obtain as v bs where xs: "xs = as @ (k, v) # bs" using k by (auto dest: split_list)
  have d: "distinct (map fst (as @ (k, v) # bs))" using r xs by (simp add: rep_def)
  show ?thesis
  proof (cases "as = []")
    case True
    then have "Promote c k = Some c" using r xs by (simp add: Promote_def rep_def)
    then show ?thesis using r xs True to_front_mid [OF d] by simp
  next
    case False
    with Promote_rep_mid [of cost c as k v bs] r show ?thesis unfolding xs to_front_mid [OF d] by simp
  qed
qed

section \<open>The specification and its refinement\<close>

datatype ('k, 'v) lru_op =
  OpInsert 'k 'v | OpInsertOrAssign 'k 'v | OpFind 'k | OpFindNoPromote 'k | OpErase 'k | OpResize size_t | OpClear

datatype ('k, 'v) lru_result =
  RInsert "'k option" bool "('k \<times> 'v) list" | RFind "'v option" | RErase bool | REvicted "('k \<times> 'v) list" | RUnit

fun lru_step :: "('v \<Rightarrow> size_t) \<Rightarrow> ('k, 'v) LruCache \<Rightarrow> ('k, 'v) lru_op \<Rightarrow> (('k, 'v) lru_result \<times> ('k, 'v) LruCache) option" where
  "lru_step cost c (OpInsert k v) = map_option (\<lambda>((it, b), c', es). (RInsert it b es, c')) (Insert cost c k v)"
| "lru_step cost c (OpInsertOrAssign k v) = map_option (\<lambda>((it, b), c', es). (RInsert it b es, c')) (InsertOrAssign cost c k v)"
| "lru_step cost c (OpFind k) = map_option (\<lambda>(it, c'). (RFind (iterator_value c' it), c')) (Find c k)"
| "lru_step cost c (OpFindNoPromote k) = Some (RFind (iterator_value c (FindNoPromote c k)), c)"
| "lru_step cost c (OpErase k) = map_option (\<lambda>(b, c'). (RErase b, c')) (Erase cost c k)"
| "lru_step cost c (OpResize n) = map_option (\<lambda>(c', es). (REvicted es, c')) (Resize cost c n)"
| "lru_step cost c OpClear = Some (RUnit, Clear c)"

definition spec_put :: "('v \<Rightarrow> size_t) \<Rightarrow> size_t \<Rightarrow> ('k \<times> 'v) list \<Rightarrow> ('k \<times> 'v) list \<times> ('k \<times> 'v) list" where
  "spec_put cost mx xs = (let ys = trim cost mx xs in (rev (drop (length ys) xs), ys))"

fun spec_step :: "('v \<Rightarrow> size_t) \<Rightarrow> ('k \<times> 'v) list \<times> size_t \<Rightarrow> ('k, 'v) lru_op \<Rightarrow> ('k, 'v) lru_result \<times> ('k \<times> 'v) list \<times> size_t" where
  "spec_step cost (xs, mx) (OpInsert k v) =
     (if cost v > mx then (RInsert None False [], xs, mx)
      else if k \<in> fst ` set xs then (RInsert (Some k) False [], to_front k xs, mx)
      else let (es, ys) = spec_put cost mx ((k, v) # xs) in (RInsert (Some k) True es, ys, mx))"
| "spec_step cost (xs, mx) (OpInsertOrAssign k v) =
     (if k \<in> fst ` set xs
      then let (es, ys) = spec_put cost mx ((k, v) # filter (\<lambda>x. fst x \<noteq> k) xs) in (RInsert (Some k) False es, ys, mx)
      else if cost v > mx then (RInsert None False [], xs, mx)
      else let (es, ys) = spec_put cost mx ((k, v) # xs) in (RInsert (Some k) True es, ys, mx))"
| "spec_step cost (xs, mx) (OpFind k) = (RFind (map_of xs k), to_front k xs, mx)"
| "spec_step cost (xs, mx) (OpFindNoPromote k) = (RFind (map_of xs k), xs, mx)"
| "spec_step cost (xs, mx) (OpErase k) = (RErase (k \<in> fst ` set xs), filter (\<lambda>x. fst x \<noteq> k) xs, mx)"
| "spec_step cost (xs, mx) (OpResize n) = (let (es, ys) = spec_put cost n xs in (REvicted es, ys, n))"
| "spec_step cost (xs, mx) OpClear = (RUnit, [], mx)"

definition lru_rel :: "('v \<Rightarrow> size_t) \<Rightarrow> ('k, 'v) LruCache \<Rightarrow> ('k \<times> 'v) list \<times> size_t \<Rightarrow> bool" where
  "lru_rel cost c a \<longleftrightarrow> rep cost c (fst a) \<and> lru_max_size c = snd a"

lemma rep_map_of:
  assumes "rep cost c xs" shows "map_option b_value (fmlookup (lru_map c) k) = map_of xs k"
proof (cases "k \<in> fst ` set xs")
  case True
  then obtain as v bs where xs: "xs = as @ (k, v) # bs" by (auto dest: split_list)
  have "k \<notin> fst ` set as" using assms xs by (simp add: rep_def)
  then have "map_of as k = None" by (simp add: map_of_eq_None_iff)
  with rep_lookup [of cost c as k v bs] assms xs show ?thesis by (simp add: map_add_def)
next
  case False
  then have "map_of xs k = None" by (simp add: map_of_eq_None_iff)
  with False rep_lookup_iff [OF assms, of k] show ?thesis by simp
qed

lemma map_of_filter_key:
  "map_of (filter (\<lambda>x. fst x = k) xs) j = (if j = k then map_of xs j else None)"
  "map_of (filter (\<lambda>x. fst x \<noteq> k) xs) j = (if j = k then None else map_of xs j)"
  by (induction xs) auto

lemma map_of_to_front: "map_of (to_front k xs) = map_of xs"
  by (rule ext) (auto simp: to_front_def map_add_def map_of_filter_key split: option.splits)

lemma to_front_absent: "k \<notin> fst ` set xs \<Longrightarrow> to_front k xs = xs \<and> filter (\<lambda>x. fst x \<noteq> k) xs = xs"
  unfolding to_front_def by (induction xs) auto

lemma filter_key_mid:
  "distinct (map fst (as @ (k, v) # bs)) \<Longrightarrow> filter (\<lambda>x. fst x \<noteq> k) (as @ (k, v) # bs) = as @ bs"
  using to_front_absent [of k as] to_front_absent [of k bs] by simp

lemma evict_spec_put:
  assumes "rep cost c xs"
  shows "\<exists>c'. evict cost c = Some (c', fst (spec_put cost (lru_max_size c) xs)) \<and>
    rep cost c' (snd (spec_put cost (lru_max_size c) xs)) \<and> lru_max_size c' = lru_max_size c"
  using evict_rep [OF assms] by (simp add: spec_put_def Let_def)

lemma AddInternal_new:
  assumes r: "rep cost c xs" and k: "k \<notin> fst ` set xs"
  shows "\<exists>c'. AddInternal cost (c\<lparr>lru_map := fmupd k \<lparr>b_next = None, b_previous = None, b_value = v\<rparr> (lru_map c)\<rparr>) k (cost v) None
      = Some (c', fst (spec_put cost (lru_max_size c) ((k, v) # xs))) \<and>
    rep cost c' (snd (spec_put cost (lru_max_size c) ((k, v) # xs))) \<and> lru_max_size c' = lru_max_size c"
proof -
  let ?m = "fmupd k \<lparr>b_next = None, b_previous = None, b_value = v\<rparr> (lru_map c)"
  have d: "distinct (map fst xs)" "seg ?m None xs None" "fset (fmdom ?m) = insert k (fst ` set xs)"
    using r k by (auto simp: rep_def seg_frame)
  have card: "fcard (fmdom ?m) = Suc (length xs)"
  proof -
    have "card (fst ` set xs) = length xs" using d(1) by (metis distinct_card length_map set_map)
    then show ?thesis using d(3) k by (simp add: fcard.rep_eq)
  qed
  have "\<exists>c1. AddInternal cost (c\<lparr>lru_map := ?m\<rparr>) k (cost v) None = evict cost c1 \<and>
      rep cost c1 ((k, v) # xs) \<and> lru_max_size c1 = lru_max_size c"
  proof (cases "xs = []")
    case True
    then show ?thesis using r card d
      by (intro exI [of _ "c\<lparr>lru_map := ?m, lru_last := Some k, lru_first := Some k, lru_size := lru_size c + cost v\<rparr>"])
        (simp add: AddInternal_def rep_def)
  next
    case False
    let ?h = "hd_or (map fst xs) None"
    define m1 where "m1 = fmupd k \<lparr>b_next = ?h, b_previous = None, b_value = v\<rparr> ?m"
    have m1: "setNext ?m (Some k) ?h = Some m1" "seg m1 None xs None" using d(2) k by (simp_all add: setNext_def m1_def seg_frame)
    obtain m2 where m2: "setPrevious m1 ?h (Some k) = Some m2" "seg m2 (Some k) xs None"
      "\<And>j. j \<notin> fst ` set xs \<Longrightarrow> fmlookup m2 j = fmlookup m1 j" "fmdom m2 = fmdom m1"
      using set_previous_head [OF m1(2) d(1) False] by metis
    have f: "lru_first c = ?h" using r by (simp add: rep_def)
    have "seg m2 None ((k, v) # xs) None" using m2(2,3) k by (simp add: m1_def)
    moreover have "last_or (map fst xs) (Some k) = last_or (map fst xs) None" using False last_or_cong [of "map fst xs"] by simp
    ultimately have "rep cost (c\<lparr>lru_map := m2, lru_first := Some k, lru_size := lru_size c + cost v\<rparr>) ((k, v) # xs)"
      using r k m2(4) d by (simp add: rep_def m1_def add.commute)
    moreover have "AddInternal cost (c\<lparr>lru_map := ?m\<rparr>) k (cost v) None =
        evict cost (c\<lparr>lru_map := m2, lru_first := Some k, lru_size := lru_size c + cost v\<rparr>)"
      using False card m1(1) m2(1) f by (simp add: AddInternal_def)
    ultimately show ?thesis by fastforce
  qed
  then obtain c1 where c1: "AddInternal cost (c\<lparr>lru_map := ?m\<rparr>) k (cost v) None = evict cost c1"
      "rep cost c1 ((k, v) # xs)" "lru_max_size c1 = lru_max_size c" by blast
  from evict_spec_put [OF c1(2)] c1(1,3) show ?thesis by simp
qed

lemma AddInternal_assign:
  assumes r: "rep cost c xs" and k: "fmlookup (lru_map c) k = Some b"
  shows "\<exists>c'. AddInternal cost (c\<lparr>lru_map := fmupd k (b\<lparr>b_value := v\<rparr>) (lru_map c)\<rparr>) k (cost v) (Some (cost (b_value b)))
      = Some (c', fst (spec_put cost (lru_max_size c) ((k, v) # filter (\<lambda>x. fst x \<noteq> k) xs))) \<and>
    rep cost c' (snd (spec_put cost (lru_max_size c) ((k, v) # filter (\<lambda>x. fst x \<noteq> k) xs))) \<and> lru_max_size c' = lru_max_size c"
proof -
  have "k \<in> fst ` set xs" using rep_lookup_iff [OF r, of k] k by auto
  then obtain as w bs where xs: "xs = as @ (k, w) # bs" by (auto dest: split_list)
  have b: "b = \<lparr>b_next = hd_or (map fst bs) None, b_previous = last_or (map fst as) None, b_value = w\<rparr>"
    using rep_lookup [of cost c as k w bs] r xs k by simp
  have d: "distinct (map fst (as @ (k, w) # bs))" "distinct (map fst (as @ (k, v) # bs))" using r xs by (simp_all add: rep_def)
  define c1 where "c1 = c\<lparr>lru_map := fmupd k (b\<lparr>b_value := v\<rparr>) (lru_map c), lru_size := lru_size c + (cost v - cost w)\<rparr>"
  have rep1: "rep cost c1 (as @ (k, v) # bs)"
    using r d k unfolding xs rep_def c1_def b by (simp add: seg_append seg_frame fmdomI insert_absorb algebra_simps)
  have "k \<in> fst ` set (as @ (k, v) # bs)" by simp
  from Promote_rep [OF rep1 this] obtain c2 where
    c2: "Promote c1 k = Some c2" "rep cost c2 ((k, v) # as @ bs)" "lru_max_size c2 = lru_max_size c"
    unfolding to_front_mid [OF d(2)] by (auto simp: c1_def)
  from evict_spec_put [OF c2(2)] c2 show ?thesis
    unfolding xs filter_key_mid [OF d(1)] by (simp add: AddInternal_def c1_def b)
qed

lemma Insert_refines:
  assumes "lru_rel cost c (xs, mx)"
  shows "\<exists>c'. lru_step cost c (OpInsert k v) = Some (fst (spec_step cost (xs, mx) (OpInsert k v)), c') \<and>
    lru_rel cost c' (snd (spec_step cost (xs, mx) (OpInsert k v)))"
proof -
  have r: "rep cost c xs" "lru_max_size c = mx" using assms by (auto simp: lru_rel_def)
  consider "cost v > mx" | "\<not> cost v > mx" "k \<in> fst ` set xs" | "\<not> cost v > mx" "k \<notin> fst ` set xs" by blast
  then show ?thesis
  proof cases
    case 2
    then obtain b where "fmlookup (lru_map c) k = Some b" using rep_lookup_iff [OF r(1), of k] by auto
    with 2 Promote_rep [OF r(1) 2(2)] r(2) show ?thesis by (auto simp: Insert_def lru_rel_def)
  next
    case 3
    then have "fmlookup (lru_map c) k = None" using rep_lookup_iff [OF r(1), of k] by auto
    with 3 AddInternal_new [OF r(1) 3(2), of v] r(2) show ?thesis by (auto simp: Insert_def lru_rel_def Let_def split_beta)
  qed (use r in \<open>auto simp: Insert_def lru_rel_def\<close>)
qed

lemma InsertOrAssign_refines:
  assumes "lru_rel cost c (xs, mx)"
  shows "\<exists>c'. lru_step cost c (OpInsertOrAssign k v) = Some (fst (spec_step cost (xs, mx) (OpInsertOrAssign k v)), c') \<and>
    lru_rel cost c' (snd (spec_step cost (xs, mx) (OpInsertOrAssign k v)))"
proof -
  have r: "rep cost c xs" "lru_max_size c = mx" using assms by (auto simp: lru_rel_def)
  show ?thesis
  proof (cases "fmlookup (lru_map c) k")
    case None
    then have "k \<notin> fst ` set xs" using rep_lookup_iff [OF r(1), of k] by auto
    with None AddInternal_new [OF r(1) this, of v] r show ?thesis
      by (auto simp: InsertOrAssign_def lru_rel_def Let_def split_beta)
  next
    case (Some b)
    then have "k \<in> fst ` set xs" using rep_lookup_iff [OF r(1), of k] by auto
    with Some AddInternal_assign [OF r(1) Some, of v] r show ?thesis
      by (auto simp: InsertOrAssign_def lru_rel_def Let_def split_beta)
  qed
qed

lemma Find_refines:
  assumes "lru_rel cost c (xs, mx)"
  shows "\<exists>c'. lru_step cost c (OpFind k) = Some (fst (spec_step cost (xs, mx) (OpFind k)), c') \<and>
    lru_rel cost c' (snd (spec_step cost (xs, mx) (OpFind k)))"
proof -
  have r: "rep cost c xs" "lru_max_size c = mx" using assms by (auto simp: lru_rel_def)
  show ?thesis
  proof (cases "k \<in> fst ` set xs")
    case True
    then obtain c' where c': "Promote c k = Some c'" "rep cost c' (to_front k xs)" "lru_max_size c' = mx"
      using Promote_rep [OF r(1)] r(2) by blast
    have "iterator_value c' (Some k) = map_of xs k"
      using rep_map_of [OF c'(2), of k] by (simp add: iterator_value_def deref_def map_of_to_front)
    moreover have "fmlookup (lru_map c) k \<noteq> None" using rep_lookup_iff [OF r(1), of k] True by simp
    ultimately show ?thesis using c' by (auto simp: Find_def lru_rel_def)
  next
    case False
    then have "map_of xs k = None" "fmlookup (lru_map c) k = None" "to_front k xs = xs"
      using rep_lookup_iff [OF r(1), of k] to_front_absent [of k xs] by (auto simp: map_of_eq_None_iff)
    with r show ?thesis by (simp add: Find_def lru_rel_def iterator_value_def deref_def)
  qed
qed

lemma Erase_refines:
  assumes "lru_rel cost c (xs, mx)"
  shows "\<exists>c'. lru_step cost c (OpErase k) = Some (fst (spec_step cost (xs, mx) (OpErase k)), c') \<and>
    lru_rel cost c' (snd (spec_step cost (xs, mx) (OpErase k)))"
proof -
  have r: "rep cost c xs" "lru_max_size c = mx" using assms by (auto simp: lru_rel_def)
  show ?thesis
  proof (cases "k \<in> fst ` set xs")
    case True
    then obtain as v bs where xs: "xs = as @ (k, v) # bs" by (auto dest: split_list)
    have d: "distinct (map fst (as @ (k, v) # bs))" using r(1) xs by (simp add: rep_def)
    obtain c' where "Erase_it cost c k False = Some (c', [])" "rep cost c' (as @ bs)" "lru_max_size c' = mx"
      using Erase_it_rep [of cost c as k v bs False] r xs by auto
    moreover have "fmlookup (lru_map c) k \<noteq> None" using rep_lookup_iff [OF r(1), of k] True by simp
    ultimately show ?thesis using True filter_key_mid [OF d] by (auto simp: Erase_def lru_rel_def xs)
  next
    case False
    then have "fmlookup (lru_map c) k = None" "filter (\<lambda>x. fst x \<noteq> k) xs = xs"
      using rep_lookup_iff [OF r(1), of k] to_front_absent [of k xs] by auto
    with False r show ?thesis by (simp add: Erase_def lru_rel_def)
  qed
qed

lemma Resize_refines:
  assumes "lru_rel cost c (xs, mx)"
  shows "\<exists>c'. lru_step cost c (OpResize n) = Some (fst (spec_step cost (xs, mx) (OpResize n)), c') \<and>
    lru_rel cost c' (snd (spec_step cost (xs, mx) (OpResize n)))"
proof -
  have "rep cost (c\<lparr>lru_max_size := n\<rparr>) xs" using assms by (simp add: lru_rel_def rep_def)
  from evict_spec_put [OF this] show ?thesis by (auto simp: Resize_def lru_rel_def Let_def split_beta)
qed

interpretation lru: data_refinement "lru_rel cost" "lru_step cost" "spec_step cost" for cost
proof
  fix c a oper
  assume "lru_rel cost c a"
  moreover obtain xs mx where a: "a = (xs, mx)" by (cases a)
  ultimately have r: "lru_rel cost c (xs, mx)" by simp
  show "\<exists>c'. lru_step cost c oper = Some (fst (spec_step cost a oper), c') \<and> lru_rel cost c' (snd (spec_step cost a oper))"
  proof (cases oper)
    case (OpFindNoPromote k)
    have "iterator_value c (FindNoPromote c k) = map_of xs k"
      using rep_map_of [of cost c xs k] r by (auto simp: lru_rel_def FindNoPromote_def iterator_value_def deref_def)
    with r OpFindNoPromote a show ?thesis by simp
  next
    case OpClear
    with r a show ?thesis by (simp add: lru_rel_def rep_def Clear_def)
  qed (use r a Insert_refines InsertOrAssign_refines Find_refines Erase_refines Resize_refines in \<open>simp_all only:\<close>)
qed

lemma lru_rel_new: "lru_rel cost (LruCache_new n) ([], n)"
  by (simp add: lru_rel_def rep_def LruCache_new_def)

lemma seg_iterate:
  "seg (lru_map c) p xs None \<Longrightarrow> iterate (length xs) c (hd_or (map fst xs) None) = Some xs"
  by (induction xs arbitrary: p) (auto simp: deref_def)

section \<open>The bound on the costs\<close>

definition total_cost :: "('v \<Rightarrow> size_t) \<Rightarrow> ('k \<times> 'v) list \<Rightarrow> nat" where
  "total_cost cost xs = sum_list (map (\<lambda>x. unat (cost (snd x))) xs)"

lemma total_cost_append: "total_cost cost (xs @ ys) = total_cost cost xs + total_cost cost ys"
  by (simp add: total_cost_def)

lemma total_cost_Cons: "total_cost cost (x # ys) = unat (cost (snd x)) + total_cost cost ys"
  by (simp add: total_cost_def)

lemma total_cost_Nil [simp]: "total_cost cost [] = 0"
  by (simp add: total_cost_def)

lemma total_cost_filter: "total_cost cost (filter P xs) \<le> total_cost cost xs"
  by (induction xs) (auto simp: total_cost_def)

lemma total_cost_to_front: "total_cost cost (to_front k xs) = total_cost cost xs"
  by (induction xs) (auto simp: total_cost_def to_front_def)

lemma word_sum_total: "sum_list (map (cost \<circ> snd) xs) = (of_nat (total_cost cost xs) :: size_t)"
  by (induction xs) (auto simp: total_cost_def)

lemma total_cost_trim:
  assumes "total_cost cost xs < 2 ^ 64" shows "total_cost cost (trim cost mx xs) \<le> unat mx"
proof -
  obtain ys where "xs = trim cost mx xs @ ys" using trim_prefix by blast
  then have lt: "total_cost cost (trim cost mx xs) < 2 ^ 64"
    using assms total_cost_append [of cost "trim cost mx xs" ys] by simp
  have "of_nat (total_cost cost (trim cost mx xs)) \<le> mx" using trim_fits word_sum_total by metis
  with lt show ?thesis by (simp add: word_le_nat_alt unsigned_of_nat take_bit_nat_eq_self)
qed

fun small_op :: "('v \<Rightarrow> size_t) \<Rightarrow> ('k, 'v) lru_op \<Rightarrow> bool" where
  "small_op cost (OpInsert k v) \<longleftrightarrow> unat (cost v) < 2 ^ 63"
| "small_op cost (OpInsertOrAssign k v) \<longleftrightarrow> unat (cost v) < 2 ^ 63"
| "small_op cost (OpResize n) \<longleftrightarrow> unat n < 2 ^ 63"
| "small_op cost _ \<longleftrightarrow> True"

lemma total_cost_put:
  assumes "total_cost cost xs \<le> unat (mx :: size_t)" "unat mx < 2 ^ 63" "unat (cost v) < 2 ^ 63"
  shows "total_cost cost ((k, v) # xs) < 2 ^ 64" "total_cost cost ((k, v) # filter P xs) < 2 ^ 64"
  using assms total_cost_filter [of cost P xs] by (simp_all add: total_cost_Cons)

lemma spec_step_fits:
  assumes "total_cost cost xs \<le> unat mx" "unat mx < 2 ^ 63" "small_op cost oper"
  shows "case snd (spec_step cost (xs, mx) oper) of (ys, my) \<Rightarrow> total_cost cost ys \<le> unat my \<and> unat my < 2 ^ 63"
proof (cases oper)
  case (OpInsert k v)
  then show ?thesis
    using assms total_cost_trim [OF total_cost_put(1) [OF assms(1,2)]]
    by (auto simp: Let_def spec_put_def total_cost_to_front)
next
  case (OpInsertOrAssign k v)
  then show ?thesis
    using assms total_cost_trim [OF total_cost_put(1) [OF assms(1,2)]] total_cost_trim [OF total_cost_put(2) [OF assms(1,2)]]
    by (auto simp: Let_def spec_put_def)
next
  case (OpErase k)
  then show ?thesis using assms total_cost_filter [of cost _ xs] by (auto intro: order_trans)
next
  case (OpResize n)
  then show ?thesis using assms total_cost_trim [of cost xs n] by (auto simp: Let_def spec_put_def)
qed (use assms in \<open>auto simp: total_cost_to_front\<close>)

lemma run_spec_fits:
  assumes "total_cost cost xs \<le> unat mx" "unat mx < 2 ^ 63" "\<forall>oper \<in> set ops. small_op cost oper"
  shows "case snd (run_spec (spec_step cost) (xs, mx) ops) of (ys, my) \<Rightarrow> total_cost cost ys \<le> unat my"
  using assms
proof (induction ops arbitrary: xs mx)
  case (Cons oper ops)
  obtain r ys my where s: "spec_step cost (xs, mx) oper = (r, ys, my)" by (metis surj_pair)
  have "total_cost cost ys \<le> unat my" "unat my < 2 ^ 63"
    using spec_step_fits [of cost xs mx oper] Cons.prems s by auto
  from Cons.IH [OF this] Cons.prems s show ?case by (auto simp: split_beta Let_def)
qed simp


lemma trim_head: "cost v \<le> mx \<Longrightarrow> \<exists>ys. trim cost mx ((k, v) # xs) = (k, v) # ys"
proof (induction xs rule: rev_induct)
  case Nil
  then show ?case by (subst trim.simps) auto
next
  case (snoc x xs)
  then show ?case unfolding trim.simps [of cost mx "(k, v) # xs @ [x]"] by (simp add: butlast_append)
qed

lemma spec_put_find:
  assumes "cost v \<le> mx"
  shows "map_of (fst (snd (spec_step cost (xs, mx) (OpInsertOrAssign k v)))) k = Some v"
proof -
  obtain ys zs where "trim cost mx ((k, v) # xs) = (k, v) # ys"
    "trim cost mx ((k, v) # filter (\<lambda>x. fst x \<noteq> k) xs) = (k, v) # zs" using trim_head assms by metis
  with assms show ?thesis by (simp add: spec_put_def Let_def)
qed

section \<open>Properties\<close>

text \<open>C3: every sequence of public operations on a new cache runs without dereferencing \<open>end()\<close> or
  failing an assertion, and gives the results of the specification, a list of entries from the
  most to the least recently used; following the chain from \<open>begin()\<close> lists exactly its entries, and the size is
  the sum of their costs.\<close>

theorem lru_cache_refines:
  "\<exists>c'. run_ops (lru_step cost) (LruCache_new n) ops = Some (fst (run_spec (spec_step cost) ([], n) ops), c') \<and>
    (case snd (run_spec (spec_step cost) ([], n) ops) of (ys, my) \<Rightarrow>
       iterate (length ys) c' (lru_first c') = Some ys \<and> lru_max_size c' = my \<and>
       lru_size c' = of_nat (total_cost cost ys) \<and> distinct (map fst ys))"
proof -
  obtain c' where c': "run_ops (lru_step cost) (LruCache_new n) ops = Some (fst (run_spec (spec_step cost) ([], n) ops), c')"
    "lru_rel cost c' (snd (run_spec (spec_step cost) ([], n) ops))"
    using lru.run_refines [OF lru_rel_new, of cost n ops] by blast
  obtain ys my where ys: "snd (run_spec (spec_step cost) ([], n) ops) = (ys, my)" by (metis surj_pair)
  with c'(2) have r: "rep cost c' ys" "lru_max_size c' = my" by (auto simp: lru_rel_def)
  then have "iterate (length ys) c' (lru_first c') = Some ys"
    using seg_iterate [of c' None ys] by (simp add: rep_def)
  with r c'(1) ys show ?thesis by (auto simp: rep_def word_sum_total)
qed

text \<open>As long as maximal sizes and costs are below \<open>2 ^ 63\<close>, so that the sum of a full cache and one
  more value does not wrap, no sequence of operations leaves a cache larger than its maximal size.\<close>

theorem lru_cache_bounded:
  assumes "unat n < 2 ^ 63" "\<forall>oper \<in> set ops. small_op cost oper"
    "run_ops (lru_step cost) (LruCache_new n) ops = Some (rs, c)"
  shows "lru_size c \<le> lru_max_size c"
proof -
  obtain ys my where ys: "snd (run_spec (spec_step cost) ([], n) ops) = (ys, my)" by (metis surj_pair)
  then have "lru_rel cost c (ys, my)"
    using lru.run_refines [OF lru_rel_new, of cost n ops] assms(3) by auto
  then have s: "lru_size c = of_nat (total_cost cost ys)" "lru_max_size c = my"
    by (auto simp: lru_rel_def rep_def word_sum_total)
  have "total_cost cost ys \<le> unat my" using run_spec_fits [of cost "[]" n ops] assms(1,2) ys by simp
  moreover from this have "total_cost cost ys < 2 ^ 64" using unsigned_less [of my, where 'a = nat] by simp
  ultimately show ?thesis by (simp add: s word_le_nat_alt unsigned_of_nat take_bit_nat_eq_self)
qed

theorem lru_cache_bounded_witness:
  "lru_size (snd (the (run_ops (lru_step (\<lambda>_. 2)) (LruCache_new 3) [OpInsert ''a'' (1 :: nat), OpInsert ''b'' 2]))) \<le>
   lru_max_size (snd (the (run_ops (lru_step (\<lambda>_. 2)) (LruCache_new 3) [OpInsert ''a'' (1 :: nat), OpInsert ''b'' 2])))"
proof -
  obtain rs c where "run_ops (lru_step (\<lambda>_. 2)) (LruCache_new 3) [OpInsert ''a'' (1 :: nat), OpInsert ''b'' 2] = Some (rs, c)"
    using lru.run_refines [OF lru_rel_new, of "\<lambda>_. 2" 3 "[OpInsert ''a'' (1 :: nat), OpInsert ''b'' 2]"] by auto
  with lru_cache_bounded [OF _ _ this] show ?thesis by simp
qed

text \<open>In every reachable cache, a value whose cost fits is found under its key directly after it was
  assigned, whatever was evicted for it.\<close>

theorem lru_cache_find_assigned:
  assumes "run_ops (lru_step cost) (LruCache_new n) ops = Some (rs, c)" "cost v \<le> lru_max_size c"
  shows "\<exists>r c1 es c2. InsertOrAssign cost c k v = Some (r, c1, es) \<and> Find c1 k = Some (Some k, c2) \<and>
    iterator_value c2 (Some k) = Some v"
proof -
  obtain xs mx where a: "snd (run_spec (spec_step cost) ([], n) ops) = (xs, mx)" by (metis surj_pair)
  have r: "lru_rel cost c (xs, mx)" using lru.run_refines [OF lru_rel_new, of cost n ops] assms(1) a by auto
  then have mx: "lru_max_size c = mx" by (simp add: lru_rel_def)
  obtain c1 where s1: "lru_step cost c (OpInsertOrAssign k v) = Some (fst (spec_step cost (xs, mx) (OpInsertOrAssign k v)), c1)"
    "lru_rel cost c1 (snd (spec_step cost (xs, mx) (OpInsertOrAssign k v)))" using InsertOrAssign_refines [OF r] by blast
  obtain ys my where ys: "snd (spec_step cost (xs, mx) (OpInsertOrAssign k v)) = (ys, my)" by (metis surj_pair)
  have v: "map_of ys k = Some v" using spec_put_find [of cost v mx xs k] assms(2) mx ys by simp
  obtain c2 where s2: "lru_step cost c1 (OpFind k) = Some (RFind (map_of ys k), c2)"
    using Find_refines [of cost c1 ys my k] s1(2) ys by auto
  from s1(1) obtain r es where "InsertOrAssign cost c k v = Some (r, c1, es)" by auto
  moreover have "Find c1 k = Some (Some k, c2)" "iterator_value c2 (Some k) = Some v"
    using s2 v by (auto simp: Find_def iterator_value_def deref_def split: if_splits)
  ultimately show ?thesis by blast
qed

theorem lru_cache_find_assigned_witness:
  "\<exists>r c1 es c2. InsertOrAssign (\<lambda>_. 2) (LruCache_new 3) ''a'' (7 :: nat) = Some (r, c1, es) \<and>
     Find c1 ''a'' = Some (Some ''a'', c2) \<and> iterator_value c2 (Some ''a'') = Some 7"
  using lru_cache_find_assigned [of "\<lambda>_. 2" 3 "[]" "[]" "LruCache_new 3" 7 "''a''"]
  by (simp add: LruCache_new_def)

end
