(* ===== verification/Memory_Cache.thy ===== *)
theory Memory_Cache
  imports Lru_Cache
begin

text \<open>
  Component core/cache: \<open>InMemoryCache\<close> (\<open>src/cache/InMemoryCache.cpp\<close>), a \<open>LruCache\<close> of item tuples
  with a record of expiry times.

  The time provider is the argument \<open>now\<close> of the operations that read it: one value per operation,
  which is what the operations rely on. An operation takes its mutex for its whole duration, so
  operations of several threads are a sequence of the operations here. The eviction callback
  \<open>OnEviction\<close> runs on the evicted entries in order.
\<close>

section \<open>The model\<close>

definition time_max :: time_t where
  "time_max = 2 ^ 63 - 1"

type_synonym 'a ItemTuple = "string \<times> time_t \<times> 'a \<times> size_t"

abbreviation item_key :: "'a ItemTuple \<Rightarrow> string" where "item_key t \<equiv> fst t"
abbreviation item_expiry :: "'a ItemTuple \<Rightarrow> time_t" where "item_expiry t \<equiv> fst (snd t)"
abbreviation item_any :: "'a ItemTuple \<Rightarrow> 'a" where "item_any t \<equiv> fst (snd (snd t))"
abbreviation item_size :: "'a ItemTuple \<Rightarrow> size_t" where "item_size t \<equiv> snd (snd (snd t))"

definition EqualityCacheCost :: "'a ItemTuple \<Rightarrow> size_t" where
  "EqualityCacheCost t = 1"

definition PresetModelSizeCacheCost :: "'a ItemTuple \<Rightarrow> size_t" where
  "PresetModelSizeCacheCost t = (if item_size t = 0 then 1 else item_size t)"

record 'a InMemoryCache =
  m_itemTuples :: "(string, 'a ItemTuple) LruCache"
  m_itemExpiries :: "(time_t, 'a ItemTuple list) fmap"
  m_cacheCost :: "'a ItemTuple \<Rightarrow> size_t"

definition InMemoryCache_new :: "size_t \<Rightarrow> ('a ItemTuple \<Rightarrow> size_t) \<Rightarrow> 'a InMemoryCache" where
  "InMemoryCache_new maxSize cacheCost =
     \<lparr>m_itemTuples = LruCache_new maxSize, m_itemExpiries = fmempty, m_cacheCost = cacheCost\<rparr>"

definition HasExpiry :: "time_t \<Rightarrow> bool" where
  "HasExpiry expirySeconds \<longleftrightarrow> expirySeconds \<noteq> time_max"

text \<open>\<open>m_itemExpiries[t]\<close>: the entry is made when it is missing.\<close>

definition expiries_at :: "(time_t, 'a list) fmap \<Rightarrow> time_t \<Rightarrow> (time_t, 'a list) fmap" where
  "expiries_at m t = (if fmlookup m t = None then fmupd t [] m else m)"

definition expiries_vec :: "(time_t, 'a list) fmap \<Rightarrow> time_t \<Rightarrow> 'a list" where
  "expiries_vec m t = (case fmlookup m t of Some v \<Rightarrow> v | None \<Rightarrow> [])"

text \<open>The entry is erased from a copy of the vector only.\<close>

definition OnEviction :: "string \<times> 'a ItemTuple \<Rightarrow> (time_t, 'a ItemTuple list) fmap \<Rightarrow> (time_t, 'a ItemTuple list) fmap" where
  "OnEviction kv expiries =
     (let expiry = item_expiry (snd kv) in
      if HasExpiry expiry
      then let m1 = expiries_at expiries expiry
           in if expiries_vec m1 expiry = [] then fmdrop expiry m1 else m1
      else expiries)"

definition PurgeExpired_at :: "'a InMemoryCache \<Rightarrow> time_t \<Rightarrow> 'a InMemoryCache option" where
  "PurgeExpired_at c expireTime = do {
     let m1 = expiries_at (m_itemExpiries c) expireTime;
     lru \<leftarrow> fold_option (\<lambda>itExp lru. map_option snd (Erase (m_cacheCost c) lru (item_key itExp)))
              (expiries_vec m1 expireTime) (m_itemTuples c);
     Some (c\<lparr>m_itemTuples := lru, m_itemExpiries := fmdrop expireTime m1\<rparr>)
   }"

definition PurgeExpired :: "time_t \<Rightarrow> 'a InMemoryCache \<Rightarrow> 'a InMemoryCache option" where
  "PurgeExpired now c =
     (let expiredKeys = takeWhile (\<lambda>t. t < now) (sorted_list_of_fset (fmdom (m_itemExpiries c)))
      in fold_option (\<lambda>t c. PurgeExpired_at c t) expiredKeys c)"

definition InMemoryCache_Put :: "time_t \<Rightarrow> 'a InMemoryCache \<Rightarrow> string \<Rightarrow> 'a \<Rightarrow> time_t \<Rightarrow> size_t \<Rightarrow> (bool \<times> 'a InMemoryCache) option" where
  "InMemoryCache_Put now c key item expireSeconds sz = do {
     c \<leftarrow> PurgeExpired now c;
     let expires = HasExpiry expireSeconds;
     if expires \<and> expireSeconds \<le> 0 then Some (False, c)
     else do {
       let expireSeconds = (if expires then expireSeconds + now else expireSeconds);
       let itemTuple = (key, expireSeconds, item, sz);
       ((it, inserted), lru, evicted) \<leftarrow> InsertOrAssign (m_cacheCost c) (m_itemTuples c) key itemTuple;
       let m1 = fold OnEviction evicted (m_itemExpiries c);
       let m2 = (if inserted \<and> expires
                 then fmupd expireSeconds (expiries_vec m1 expireSeconds @ [itemTuple]) m1 else m1);
       Some (inserted, c\<lparr>m_itemTuples := lru, m_itemExpiries := m2\<rparr>)
     }
   }"

definition InMemoryCache_Get :: "time_t \<Rightarrow> 'a InMemoryCache \<Rightarrow> string \<Rightarrow> ('a option \<times> 'a InMemoryCache) option" where
  "InMemoryCache_Get now c key = do {
     (it, lru) \<leftarrow> Find (m_itemTuples c) key;
     let c = c\<lparr>m_itemTuples := lru\<rparr>;
     if it \<noteq> None
     then do {
       item \<leftarrow> iterator_value lru it;
       if item_expiry item < now
       then do { c \<leftarrow> PurgeExpired_at c (item_expiry item); Some (None, c) }
       else Some (Some (item_any item), c)
     }
     else Some (None, c)
   }"

definition InMemoryCache_Size :: "'a InMemoryCache \<Rightarrow> size_t" where
  "InMemoryCache_Size c = lru_size (m_itemTuples c)"

definition InMemoryCache_Clear :: "'a InMemoryCache \<Rightarrow> 'a InMemoryCache" where
  "InMemoryCache_Clear c = c\<lparr>m_itemExpiries := fmempty, m_itemTuples := Clear (m_itemTuples c)\<rparr>"

definition InMemoryCache_Remove :: "'a InMemoryCache \<Rightarrow> string \<Rightarrow> 'a InMemoryCache option" where
  "InMemoryCache_Remove c key =
     map_option (\<lambda>(_, lru). c\<lparr>m_itemTuples := lru\<rparr>) (Erase (m_cacheCost c) (m_itemTuples c) key)"

text \<open>The loop from \<open>begin()\<close> to \<open>end()\<close>; every step goes on to the next bucket of the chain.\<close>

fun remove_prefix_loop :: "nat \<Rightarrow> ('v \<Rightarrow> size_t) \<Rightarrow> (string, 'v) LruCache \<Rightarrow> string option \<Rightarrow> string \<Rightarrow> (string, 'v) LruCache option" where
  "remove_prefix_loop n cost lru None pre = Some lru"
| "remove_prefix_loop 0 cost lru (Some k) pre = None"
| "remove_prefix_loop (Suc n) cost lru (Some k) pre =
     (if take (length pre) k = pre
      then do { (it, lru') \<leftarrow> Erase_iterator cost lru (Some k); remove_prefix_loop n cost lru' it pre }
      else do { it \<leftarrow> iterator_next lru (Some k); remove_prefix_loop n cost lru it pre })"

definition InMemoryCache_RemoveKeysWithPrefix :: "'a InMemoryCache \<Rightarrow> string \<Rightarrow> 'a InMemoryCache option" where
  "InMemoryCache_RemoveKeysWithPrefix c keyPrefix =
     map_option (\<lambda>lru. c\<lparr>m_itemTuples := lru\<rparr>)
       (remove_prefix_loop (fcard (fmdom (lru_map (m_itemTuples c)))) (m_cacheCost c) (m_itemTuples c)
          (lru_first (m_itemTuples c)) keyPrefix)"

section \<open>The specification\<close>

datatype 'a mem_op =
  MPut time_t string 'a time_t size_t | MGet time_t string | MRemove string | MRemovePrefix string | MClear

datatype 'a mem_result = MStored bool | MValue "'a option" | MDone

fun mem_step :: "'a InMemoryCache \<Rightarrow> 'a mem_op \<Rightarrow> ('a mem_result \<times> 'a InMemoryCache) option" where
  "mem_step c (MPut now k v e s) = map_option (\<lambda>(b, c'). (MStored b, c')) (InMemoryCache_Put now c k v e s)"
| "mem_step c (MGet now k) = map_option (\<lambda>(v, c'). (MValue v, c')) (InMemoryCache_Get now c k)"
| "mem_step c (MRemove k) = map_option (Pair MDone) (InMemoryCache_Remove c k)"
| "mem_step c (MRemovePrefix p) = map_option (Pair MDone) (InMemoryCache_RemoveKeysWithPrefix c p)"
| "mem_step c MClear = Some (MDone, InMemoryCache_Clear c)"

text \<open>
  The specification: the entries from the most to the least recently used, the maximal size, and the record of
  expiry times.
\<close>

type_synonym 'a mem_spec = "(string \<times> 'a ItemTuple) list \<times> size_t \<times> (time_t, 'a ItemTuple list) fmap"

definition expired_keys :: "(time_t, 'a ItemTuple list) fmap \<Rightarrow> time_t set \<Rightarrow> string set" where
  "expired_keys ex T = (\<Union>t \<in> T. item_key ` set (expiries_vec ex t))"

definition spec_purge :: "time_t \<Rightarrow> 'a mem_spec \<Rightarrow> 'a mem_spec" where
  "spec_purge now = (\<lambda>(xs, mx, ex).
     (filter (\<lambda>x. fst x \<notin> expired_keys ex {t. t < now}) xs, mx, fmfilter (\<lambda>t. \<not> t < now) ex))"

fun mem_spec_step :: "('a ItemTuple \<Rightarrow> size_t) \<Rightarrow> 'a mem_spec \<Rightarrow> 'a mem_op \<Rightarrow> 'a mem_result \<times> 'a mem_spec" where
  "mem_spec_step cost a (MPut now k v e s) =
     (let (xs, mx, ex) = spec_purge now a; e' = (if HasExpiry e then e + now else e); i = (k, e', v, s) in
      if HasExpiry e \<and> e \<le> 0 then (MStored False, xs, mx, ex)
      else if k \<in> fst ` set xs
      then let (es, ys) = spec_put cost mx ((k, i) # filter (\<lambda>x. fst x \<noteq> k) xs) in (MStored False, ys, mx, fold OnEviction es ex)
      else if cost i > mx then (MStored False, xs, mx, ex)
      else let (es, ys) = spec_put cost mx ((k, i) # xs); ex' = fold OnEviction es ex in
        (MStored True, ys, mx, if HasExpiry e then fmupd e' (expiries_vec ex' e' @ [i]) ex' else ex'))"
| "mem_spec_step cost (xs, mx, ex) (MGet now k) =
     (case map_of xs k of
        None \<Rightarrow> (MValue None, xs, mx, ex)
      | Some i \<Rightarrow> if item_expiry i < now
          then (MValue None, filter (\<lambda>x. fst x \<notin> expired_keys ex {item_expiry i}) (to_front k xs), mx, fmdrop (item_expiry i) ex)
          else (MValue (Some (item_any i)), to_front k xs, mx, ex))"
| "mem_spec_step cost (xs, mx, ex) (MRemove k) = (MDone, filter (\<lambda>x. fst x \<noteq> k) xs, mx, ex)"
| "mem_spec_step cost (xs, mx, ex) (MRemovePrefix p) =
     (MDone, filter (\<lambda>x. \<not> take (length p) (fst x) = p) xs, mx, ex)"
| "mem_spec_step cost (xs, mx, ex) MClear = (MDone, [], mx, fmempty)"

definition mem_rel :: "('a ItemTuple \<Rightarrow> size_t) \<Rightarrow> 'a InMemoryCache \<Rightarrow> 'a mem_spec \<Rightarrow> bool" where
  "mem_rel cost c a \<longleftrightarrow> m_cacheCost c = cost \<and> lru_rel cost (m_itemTuples c) (fst a, fst (snd a)) \<and>
     m_itemExpiries c = snd (snd a)"

lemma Erase_rep:
  assumes "lru_rel cost c (xs, mx)"
  shows "\<exists>c'. Erase cost c k = Some (k \<in> fst ` set xs, c') \<and> lru_rel cost c' (filter (\<lambda>x. fst x \<noteq> k) xs, mx)"
  using Erase_refines [OF assms, of k] by auto

lemma fold_Erase_rep:
  assumes "lru_rel cost c (xs, mx)"
  shows "\<exists>c'. fold_option (\<lambda>i lru. map_option snd (Erase cost lru (item_key i))) is c = Some c' \<and>
    lru_rel cost c' (filter (\<lambda>x. fst x \<notin> item_key ` set is) xs, mx)"
  using assms
proof (induction "is" arbitrary: c xs)
  case (Cons i "is")
  obtain c1 where c1: "Erase cost c (item_key i) = Some (item_key i \<in> fst ` set xs, c1)"
    "lru_rel cost c1 (filter (\<lambda>x. fst x \<noteq> item_key i) xs, mx)" using Erase_rep [OF Cons.prems] by blast
  have "filter (\<lambda>x. fst x \<notin> item_key ` set (i # is)) xs =
      filter (\<lambda>x. fst x \<notin> item_key ` set is) (filter (\<lambda>x. fst x \<noteq> item_key i) xs)" by (induction xs) auto
  with Cons.IH [OF c1(2)] c1(1) show ?case by simp
qed simp

lemma expiries_at_simps [simp]: "expiries_vec (expiries_at ex t) s = expiries_vec ex s" "fmdrop t (expiries_at ex t) = fmdrop t ex"
  by (auto simp: expiries_at_def expiries_vec_def intro!: fmap_ext)

lemma PurgeExpired_at_rep:
  assumes "mem_rel cost c (xs, mx, ex)"
  shows "\<exists>c'. PurgeExpired_at c t = Some c' \<and>
    mem_rel cost c' (filter (\<lambda>x. fst x \<notin> expired_keys ex {t}) xs, mx, fmdrop t ex)"
proof -
  have r: "lru_rel cost (m_itemTuples c) (xs, mx)" "m_cacheCost c = cost" "m_itemExpiries c = ex"
    using assms by (auto simp: mem_rel_def)
  have "expired_keys ex {t} = item_key ` set (expiries_vec ex t)" by (auto simp: expired_keys_def)
  with fold_Erase_rep [OF r(1), of "expiries_vec ex t"] show ?thesis
    by (auto simp: PurgeExpired_at_def mem_rel_def r)
qed

lemma expired_keys_Un: "expired_keys ex (S \<union> T) = expired_keys ex S \<union> expired_keys ex T"
  by (auto simp: expired_keys_def)

lemma fold_PurgeExpired_rep:
  assumes "mem_rel cost c (xs, mx, ex)" "distinct ts"
  shows "\<exists>c'. fold_option (\<lambda>t c. PurgeExpired_at c t) ts c = Some c' \<and>
    mem_rel cost c' (filter (\<lambda>x. fst x \<notin> expired_keys ex (set ts)) xs, mx, fmfilter (\<lambda>t. t \<notin> set ts) ex)"
  using assms
proof (induction ts arbitrary: c xs ex)
  case Nil
  then show ?case by (simp add: expired_keys_def fmfilter_true)
next
  case (Cons t ts)
  obtain c1 where c1: "PurgeExpired_at c t = Some c1"
    "mem_rel cost c1 (filter (\<lambda>x. fst x \<notin> expired_keys ex {t}) xs, mx, fmdrop t ex)"
    using PurgeExpired_at_rep [OF Cons.prems(1)] by blast
  have "expiries_vec (fmdrop t ex) s = expiries_vec ex s" if "s \<noteq> t" for s
    using that by (simp add: expiries_vec_def)
  then have ek: "expired_keys (fmdrop t ex) (set ts) = expired_keys ex (set ts)"
    using Cons.prems(2) unfolding expired_keys_def by (intro SUP_cong [OF refl]) (metis distinct.simps(2))
  have "filter (\<lambda>x. fst x \<notin> expired_keys ex (set (t # ts))) xs =
      filter (\<lambda>x. fst x \<notin> expired_keys ex (set ts)) (filter (\<lambda>x. fst x \<notin> expired_keys ex {t}) xs)"
    using expired_keys_Un [of ex "{t}" "set ts"] by (simp add: conj_commute)
  moreover have "fmfilter (\<lambda>s. s \<notin> set (t # ts)) ex = fmfilter (\<lambda>s. s \<notin> set ts) (fmdrop t ex)"
    by (intro fmap_ext) auto
  ultimately show ?case using Cons.IH [OF c1(2)] Cons.prems(2) c1(1) ek by simp
qed

lemma sorted_takeWhile_less:
  "sorted xs \<Longrightarrow> takeWhile (\<lambda>t. t < n) xs = filter (\<lambda>t. t < (n :: 'a::linorder)) xs"
proof (induction xs)
  case (Cons a xs)
  then have "\<not> a < n \<Longrightarrow> filter (\<lambda>t. t < n) xs = []" by (auto simp: filter_empty_conv not_less intro: order_trans)
  with Cons show ?case by simp
qed simp

lemma expired_keys_mono: "S \<subseteq> T \<Longrightarrow> expired_keys ex S \<subseteq> expired_keys ex T"
  unfolding expired_keys_def by (rule UN_mono) auto

lemma expired_keys_dom: "expired_keys ex {t. t < now} = expired_keys ex {t. t |\<in>| fmdom ex \<and> t < now}"
proof (rule equalityI)
  show "expired_keys ex {t. t < now} \<subseteq> expired_keys ex {t. t |\<in>| fmdom ex \<and> t < now}"
  proof
    fix k assume "k \<in> expired_keys ex {t. t < now}"
    then obtain t where t: "t < now" "k \<in> item_key ` set (expiries_vec ex t)" unfolding expired_keys_def by (elim UN_E) simp
    then have "fmlookup ex t \<noteq> None" by (cases "fmlookup ex t") (auto simp: expiries_vec_def)
    then have "t |\<in>| fmdom ex" by (simp add: fmlookup_dom_iff)
    with t show "k \<in> expired_keys ex {t. t |\<in>| fmdom ex \<and> t < now}" unfolding expired_keys_def by (intro UN_I) simp_all
  qed
qed (intro expired_keys_mono, simp add: Collect_mono)

lemma PurgeExpired_rep:
  assumes "mem_rel cost c a" shows "\<exists>c'. PurgeExpired now c = Some c' \<and> mem_rel cost c' (spec_purge now a)"
proof -
  obtain xs mx ex where a: "a = (xs, mx, ex)" by (metis surj_pair)
  let ?l = "sorted_list_of_fset (fmdom ex)"
  let ?ts = "takeWhile (\<lambda>t. t < now) ?l"
  have ts: "?ts = filter (\<lambda>t. t < now) ?l" by (rule sorted_takeWhile_less) (simp add: sorted_list_of_fset.rep_eq)
  then have set: "set ?ts = {t. t |\<in>| fmdom ex \<and> t < now}" by auto
  have "distinct ?ts" by (rule distinct_takeWhile) (simp add: sorted_list_of_fset.rep_eq)
  from fold_PurgeExpired_rep [OF assms [unfolded a] this] obtain c' where
    "fold_option (\<lambda>t c. PurgeExpired_at c t) ?ts c = Some c'"
    "mem_rel cost c' (filter (\<lambda>x. fst x \<notin> expired_keys ex (set ?ts)) xs, mx, fmfilter (\<lambda>t. t \<notin> set ?ts) ex)" by blast
  moreover have "fmfilter (\<lambda>t. t \<notin> set ?ts) ex = fmfilter (\<lambda>t. \<not> t < now) ex"
    unfolding set by (intro fmap_ext) (auto simp: fmdom_notD)
  moreover have "m_itemExpiries c = ex" using assms a by (simp add: mem_rel_def)
  ultimately show ?thesis
    unfolding PurgeExpired_def spec_purge_def a set expired_keys_dom by simp
qed

lemma Find_rep:
  assumes "lru_rel cost c (xs, mx)"
  shows "\<exists>c'. Find c k = Some (if k \<in> fst ` set xs then Some k else None, c') \<and>
    (k \<in> fst ` set xs \<longrightarrow> iterator_value c' (Some k) = map_of xs k) \<and> lru_rel cost c' (to_front k xs, mx)"
proof -
  obtain c' where c': "lru_step cost c (OpFind k) = Some (RFind (map_of xs k), c')" "lru_rel cost c' (to_front k xs, mx)"
    using Find_refines [OF assms, of k] by auto
  have "fmlookup (lru_map c) k = None \<longleftrightarrow> k \<notin> fst ` set xs"
    using rep_lookup_iff [of cost c xs k] assms by (simp add: lru_rel_def)
  with c' show ?thesis by (auto simp: Find_def split: if_splits)
qed

lemma InsertOrAssign_rep:
  assumes "lru_rel cost c (xs, mx)"
  shows "\<exists>c'. (if k \<in> fst ` set xs
    then InsertOrAssign cost c k v = Some ((Some k, False), c', fst (spec_put cost mx ((k, v) # filter (\<lambda>x. fst x \<noteq> k) xs))) \<and>
      lru_rel cost c' (snd (spec_put cost mx ((k, v) # filter (\<lambda>x. fst x \<noteq> k) xs)), mx)
    else if cost v > mx then InsertOrAssign cost c k v = Some ((None, False), c', []) \<and> lru_rel cost c' (xs, mx)
    else InsertOrAssign cost c k v = Some ((Some k, True), c', fst (spec_put cost mx ((k, v) # xs))) \<and>
      lru_rel cost c' (snd (spec_put cost mx ((k, v) # xs)), mx))"
  using InsertOrAssign_refines [OF assms, of k v] by (auto simp: Let_def split_beta split: if_splits)

lemma mem_rel_simps [simp]:
  "mem_rel cost c (xs, mx, ex) \<longleftrightarrow>
     m_cacheCost c = cost \<and> lru_rel cost (m_itemTuples c) (xs, mx) \<and> m_itemExpiries c = ex"
  by (simp add: mem_rel_def)

lemma Put_refines:
  assumes "mem_rel cost c a"
  shows "\<exists>c'. mem_step c (MPut now k v e s) = Some (fst (mem_spec_step cost a (MPut now k v e s)), c') \<and>
    mem_rel cost c' (snd (mem_spec_step cost a (MPut now k v e s)))"
proof -
  obtain c1 where c1: "PurgeExpired now c = Some c1" "mem_rel cost c1 (spec_purge now a)" using PurgeExpired_rep [OF assms] by blast
  obtain xs mx ex where a: "spec_purge now a = (xs, mx, ex)" by (metis surj_pair)
  have r: "lru_rel cost (m_itemTuples c1) (xs, mx)" "m_cacheCost c1 = cost" "m_itemExpiries c1 = ex" using c1(2) a by auto
  let ?e = "if HasExpiry e then e + now else e"
  from InsertOrAssign_rep [OF r(1), of k "(k, ?e, v, s)"] c1(1) a r show ?thesis
    by (auto simp: InMemoryCache_Put_def Let_def split_beta ex_bool_eq split: if_splits)
qed

lemma Get_refines:
  assumes "mem_rel cost c (xs, mx, ex)"
  shows "\<exists>c'. mem_step c (MGet now k) = Some (fst (mem_spec_step cost (xs, mx, ex) (MGet now k)), c') \<and>
    mem_rel cost c' (snd (mem_spec_step cost (xs, mx, ex) (MGet now k)))"
proof -
  have r: "lru_rel cost (m_itemTuples c) (xs, mx)" "m_cacheCost c = cost" "m_itemExpiries c = ex" using assms by auto
  obtain lru where lru: "Find (m_itemTuples c) k = Some (if k \<in> fst ` set xs then Some k else None, lru)"
    "k \<in> fst ` set xs \<longrightarrow> iterator_value lru (Some k) = map_of xs k" "lru_rel cost lru (to_front k xs, mx)"
    using Find_rep [OF r(1)] by blast
  show ?thesis
  proof (cases "map_of xs k")
    case None
    then have k: "k \<notin> fst ` set xs" by (simp add: map_of_eq_None_iff)
    with None lru r to_front_absent [of k xs] show ?thesis by (auto simp: InMemoryCache_Get_def)
  next
    case (Some i)
    then have k: "k \<in> fst ` set xs" by (metis map_of_eq_None_iff option.distinct(1))
    have "mem_rel cost (c\<lparr>m_itemTuples := lru\<rparr>) (to_front k xs, mx, ex)" using lru(3) r by simp
    from PurgeExpired_at_rep [OF this, of "item_expiry i"] Some k lru r show ?thesis
      by (auto simp: InMemoryCache_Get_def)
  qed
qed

lemma rep_iterator_next:
  assumes "rep cost c (as @ (k, v) # bs)" shows "iterator_next c (Some k) = Some (hd_or (map fst bs) None)"
  using rep_lookup [OF assms] by (simp add: iterator_next_def deref_def)

lemma remove_prefix_loop_rep:
  assumes "lru_rel cost c (as @ bs, mx)" "length bs \<le> n"
  shows "\<exists>c'. remove_prefix_loop n cost c (hd_or (map fst bs) None) p = Some c' \<and>
    lru_rel cost c' (as @ filter (\<lambda>x. \<not> take (length p) (fst x) = p) bs, mx)"
  using assms
proof (induction n arbitrary: c as bs)
  case 0
  then show ?case by simp
next
  case (Suc n)
  show ?case
  proof (cases bs)
    case Nil
    then show ?thesis using Suc.prems by simp
  next
    case (Cons kv bs')
    then obtain k v where bs: "bs = (k, v) # bs'" by (cases kv) auto
    have rep: "rep cost c (as @ (k, v) # bs')" using Suc.prems(1) bs by (simp add: lru_rel_def)
    note nx = rep_iterator_next [OF rep]
    show ?thesis
    proof (cases "take (length p) k = p")
      case True
      have d: "distinct (map fst (as @ (k, v) # bs'))" using rep by (simp add: rep_def)
      obtain c1 where c1: "Erase cost c k = Some (True, c1)" "lru_rel cost c1 (as @ bs', mx)"
        using Erase_rep [OF Suc.prems(1), of k] filter_key_mid [OF d] bs by auto
      then have "Erase_iterator cost c (Some k) = Some (hd_or (map fst bs') None, c1)"
        using nx by (simp add: Erase_iterator_def)
      with Suc.IH [OF c1(2)] Suc.prems(2) True bs show ?thesis by simp
    next
      case False
      have "lru_rel cost c ((as @ [(k, v)]) @ bs', mx)" using Suc.prems(1) bs by simp
      from Suc.IH [OF this] Suc.prems(2) False nx bs show ?thesis by simp
    qed
  qed
qed

lemma RemovePrefix_refines:
  assumes "mem_rel cost c (xs, mx, ex)"
  shows "\<exists>c'. mem_step c (MRemovePrefix p) = Some (fst (mem_spec_step cost (xs, mx, ex) (MRemovePrefix p)), c') \<and>
    mem_rel cost c' (snd (mem_spec_step cost (xs, mx, ex) (MRemovePrefix p)))"
proof -
  have r: "lru_rel cost (m_itemTuples c) ([] @ xs, mx)" "m_cacheCost c = cost" "m_itemExpiries c = ex" using assms by auto
  then have rep: "rep cost (m_itemTuples c) xs" by (simp add: lru_rel_def)
  then have "card (fset (fmdom (lru_map (m_itemTuples c)))) = length xs"
    unfolding rep_def by (metis distinct_card length_map set_map)
  then have "length xs \<le> fcard (fmdom (lru_map (m_itemTuples c)))" by (simp add: fcard.rep_eq)
  from remove_prefix_loop_rep [OF r(1) this, of p] rep r(2,3) show ?thesis
    by (auto simp: InMemoryCache_RemoveKeysWithPrefix_def rep_def)
qed

interpretation mem: data_refinement "mem_rel cost" mem_step "mem_spec_step cost" for cost
proof
  fix c a oper
  assume "mem_rel cost c a"
  moreover obtain xs mx ex where a: "a = (xs, mx, ex)" by (metis surj_pair)
  ultimately have r: "mem_rel cost c (xs, mx, ex)" by simp
  show "\<exists>c'. mem_step c oper = Some (fst (mem_spec_step cost a oper), c') \<and> mem_rel cost c' (snd (mem_spec_step cost a oper))"
  proof (cases oper)
    case (MRemove k)
    with r Erase_rep [of cost "m_itemTuples c" xs mx k] a show ?thesis by (auto simp: InMemoryCache_Remove_def)
  next
    case MClear
    with r a show ?thesis by (simp add: InMemoryCache_Clear_def lru_rel_def rep_def Clear_def)
  qed (use r a Put_refines Get_refines RemovePrefix_refines in \<open>simp_all only:\<close>)
qed

lemma mem_rel_new: "mem_rel cost (InMemoryCache_new n cost) ([], n, fmempty)"
  using lru_rel_new by (simp add: InMemoryCache_new_def)

section \<open>Where the items come from\<close>

definition put_items :: "'a mem_op set \<Rightarrow> (string \<times> 'a ItemTuple) set" where
  "put_items ops = {(k, k, if HasExpiry e then e + t else e, v, s) | t k v e s. MPut t k v e s \<in> ops}"

lemma trim_subset: "set (trim cost mx xs) \<subseteq> set xs"
  using trim_prefix [of xs cost mx] by (metis Un_upper1 set_append)

lemma mem_spec_step_items:
  assumes "set (fst a) \<subseteq> put_items ops" "oper \<in> ops"
  shows "set (fst (snd (mem_spec_step cost a oper))) \<subseteq> put_items ops"
proof -
  obtain xs mx ex where a: "a = (xs, mx, ex)" by (metis surj_pair)
  have "set (to_front k xs) = set xs" for k by (auto simp: to_front_def)
  moreover have "set (trim cost mx ((k, k, if HasExpiry e then e + t else e, v, s) # ys)) \<subseteq> put_items ops"
    if "MPut t k v e s \<in> ops" "set ys \<subseteq> set xs" for t k v e s ys
  proof -
    have "(k, k, if HasExpiry e then e + t else e, v, s) \<in> put_items ops" using that(1) unfolding put_items_def by blast
    then show ?thesis using trim_subset [of cost mx] that(2) assms(1) a by fastforce
  qed
  ultimately show ?thesis using assms a
    by (cases oper) (auto simp: spec_purge_def spec_put_def Let_def split: if_splits option.splits)
qed


lemma run_spec_items:
  assumes "set (fst a) \<subseteq> put_items P" "set ops \<subseteq> P"
  shows "set (fst (snd (run_spec (mem_spec_step cost) a ops))) \<subseteq> put_items P"
  using assms
proof (induction ops arbitrary: a)
  case (Cons oper ops)
  have "set (fst (snd (mem_spec_step cost a oper))) \<subseteq> put_items P" using mem_spec_step_items [OF Cons.prems(1), of oper cost] Cons.prems(2) by simp
  from Cons.IH [OF this] Cons.prems show ?case by (simp add: split_beta Let_def)
qed simp

lemma Put_then_Get:
  assumes r: "mem_rel cost c a" and put: "InMemoryCache_Put now c k v e s = Some (True, c1)"
    and "HasExpiry e \<longrightarrow> now' \<le> e + now" "\<not> HasExpiry e \<longrightarrow> now' \<le> e"
  shows "\<exists>c2. InMemoryCache_Get now' c1 k = Some (Some v, c2)"
proof -
  let ?i = "(k, if HasExpiry e then e + now else e, v, s)"
  obtain xs mx ex where p: "spec_purge now a = (xs, mx, ex)" by (metis surj_pair)
  obtain c' where "mem_step c (MPut now k v e s) = Some (fst (mem_spec_step cost a (MPut now k v e s)), c')"
    "mem_rel cost c' (snd (mem_spec_step cost a (MPut now k v e s)))" using Put_refines [OF r] by blast
  with put have st: "fst (mem_spec_step cost a (MPut now k v e s)) = MStored True"
    and r1: "mem_rel cost c1 (snd (mem_spec_step cost a (MPut now k v e s)))" by auto
  have cs: "k \<notin> fst ` set xs" "\<not> cost ?i > mx" using st p by (auto simp: Let_def spec_put_def split: if_splits)
  obtain ys where "trim cost mx ((k, ?i) # xs) = (k, ?i) # ys" using trim_head cs(2) by (metis not_less)
  then have "\<exists>ex'. snd (mem_spec_step cost a (MPut now k v e s)) = ((k, ?i) # ys, mx, ex')"
    using st p cs by (auto simp: Let_def spec_put_def split: if_splits)
  with r1 obtain ex' where "mem_rel cost c1 ((k, ?i) # ys, mx, ex')" by metis
  from Get_refines [OF this, of now' k] assms(3,4) show ?thesis by (auto split: if_splits)
qed

lemma Remove_then_Get:
  assumes "mem_rel cost c a" "InMemoryCache_Remove c k = Some c1"
  shows "\<exists>c2. InMemoryCache_Get now c1 k = Some (None, c2)"
proof -
  obtain xs mx ex where a: "a = (xs, mx, ex)" by (metis surj_pair)
  have r: "lru_rel cost (m_itemTuples c) (xs, mx)" "m_cacheCost c = cost" using assms(1) a by auto
  obtain l where "Erase cost (m_itemTuples c) k = Some (k \<in> fst ` set xs, l)" "lru_rel cost l (filter (\<lambda>x. fst x \<noteq> k) xs, mx)"
    using Erase_rep [OF r(1)] by blast
  then have "mem_rel cost c1 (filter (\<lambda>x. fst x \<noteq> k) xs, mx, m_itemExpiries c)"
    using assms(2) r by (auto simp: InMemoryCache_Remove_def)
  from Get_refines [OF this, of now k] show ?thesis by (auto simp: map_of_filter_key)
qed

section \<open>Properties\<close>


text \<open>Whatever the history of the cache, an item it returns was put under that key before, and its
  expiry time, if it has one, has not passed.\<close>

theorem memory_get_fresh:
  assumes "run_ops mem_step (InMemoryCache_new n cost) ops = Some (rs, c)"
    and "InMemoryCache_Get now c k = Some (Some v, c')"
  shows "\<exists>t e s. MPut t k v e s \<in> set ops \<and> (if HasExpiry e then now \<le> e + t else now \<le> e)"
proof -
  obtain xs mx ex where a: "snd (run_spec (mem_spec_step cost) ([], n, fmempty) ops) = (xs, mx, ex)" by (metis surj_pair)
  have r: "mem_rel cost c (xs, mx, ex)" using mem.run_refines [OF mem_rel_new [of cost n], of ops] assms(1) a by auto
  have "fst (mem_spec_step cost (xs, mx, ex) (MGet now k)) = MValue (Some v)"
    using Get_refines [OF r, of now k] assms(2) by auto
  then obtain i where i: "map_of xs k = Some i" "\<not> item_expiry i < now" "item_any i = v"
    by (auto split: option.splits if_splits)
  have "(k, i) \<in> put_items (set ops)"
    using run_spec_items [of "([], n, fmempty)" "set ops" ops cost] a map_of_SomeD [OF i(1)] by auto
  then show ?thesis using i(2,3) unfolding put_items_def by (fastforce split: if_splits)
qed

theorem memory_get_fresh_witness:
  "\<exists>t e s. MPut t ''k'' 7 e s \<in> set [MPut 5 ''k'' (7 :: nat) 10 1] \<and> (if HasExpiry e then (12 :: int) \<le> e + t else 12 \<le> e)"
proof -
  let ?run = "run_spec (mem_spec_step EqualityCacheCost) ([], 3, fmempty)"
  let ?put = "MPut 5 ''k'' (7 :: nat) 10 1"
  obtain rs c where c: "run_ops mem_step (InMemoryCache_new 3 EqualityCacheCost) [?put] = Some (rs, c)"
    "mem_rel EqualityCacheCost c (snd (?run [?put]))"
    using mem.run_refines [OF mem_rel_new [of EqualityCacheCost 3], of "[?put]"] by auto
  have s: "fst (snd (?run [?put])) = [(''k'', ''k'', 15, 7, 1)]"
    by (simp add: spec_purge_def HasExpiry_def time_max_def spec_put_def trim.simps EqualityCacheCost_def Let_def)
  then obtain mx ex where s': "snd (?run [?put]) = ([(''k'', ''k'', 15, 7, 1)], mx, ex)" by (metis prod.collapse)
  obtain c' where "mem_step c (MGet 12 ''k'') = Some (MValue (Some 7), c')"
    using Get_refines [OF c(2) [unfolded s'], of 12 "''k''"] by auto
  then have "InMemoryCache_Get 12 c ''k'' = Some (Some 7, c')" by auto
  from memory_get_fresh [OF c(1) this] show ?thesis by simp
qed

text \<open>When \<open>Put\<close> reports success, \<open>Get\<close> returns the item until its expiry time has passed.\<close>

theorem memory_put_get:
  assumes "run_ops mem_step (InMemoryCache_new n cost) ops = Some (rs, c)"
    and "InMemoryCache_Put now c k v e s = Some (True, c1)" and "HasExpiry e \<longrightarrow> now' \<le> e + now" "\<not> HasExpiry e \<longrightarrow> now' \<le> e"
  shows "\<exists>c2. InMemoryCache_Get now' c1 k = Some (Some v, c2)"
proof -
  have r: "mem_rel cost c (snd (run_spec (mem_spec_step cost) ([], n, fmempty) ops))"
    using mem.run_refines [OF mem_rel_new [of cost n], of ops] assms(1) by auto
  from Put_then_Get [OF r assms(2-4)] show ?thesis .
qed

theorem memory_put_get_witness:
  "\<exists>c1 c2. InMemoryCache_Put 5 (InMemoryCache_new 3 EqualityCacheCost) ''k'' (7 :: nat) 10 1 = Some (True, c1) \<and>
    InMemoryCache_Get 15 c1 ''k'' = Some (Some 7, c2)"
proof -
  obtain c1 where "mem_step (InMemoryCache_new 3 EqualityCacheCost) (MPut 5 ''k'' (7 :: nat) 10 1) = Some (MStored True, c1)"
    using Put_refines [OF mem_rel_new [of EqualityCacheCost 3], of 5 "''k''" "7 :: nat" 10 1]
    by (auto simp: spec_purge_def HasExpiry_def time_max_def spec_put_def trim.simps EqualityCacheCost_def Let_def)
  then have "InMemoryCache_Put 5 (InMemoryCache_new 3 EqualityCacheCost) ''k'' (7 :: nat) 10 1 = Some (True, c1)" by auto
  with memory_put_get [of 3 EqualityCacheCost "[]" "[]" "InMemoryCache_new 3 EqualityCacheCost" 5 "''k''" "7 :: nat" 10 1 c1 15]
  show ?thesis by (auto simp: HasExpiry_def time_max_def)
qed


lemma mem_run_results:
  "fst (run_spec (mem_spec_step cost) ([], n, fmempty) ops) = rs \<Longrightarrow>
   \<exists>c. run_ops mem_step (InMemoryCache_new n cost) ops = Some (rs, c)"
  using mem.run_refines [OF mem_rel_new [of cost n], of ops] by auto

text \<open>Putting a new value under a stored key assigns it, and \<open>Get\<close> returns the new value, yet \<open>Put\<close>
  reports failure.\<close>

theorem memory_put_assigns_but_fails:
  "\<exists>c. run_ops mem_step (InMemoryCache_new 100 PresetModelSizeCacheCost)
      [MPut 0 ''k'' (7 :: nat) time_max 1, MPut 1 ''k'' 8 time_max 1, MGet 2 ''k''] =
    Some ([MStored True, MStored False, MValue (Some 8)], c)"
  by (rule mem_run_results)
    (simp add: spec_purge_def expired_keys_def expiries_vec_def HasExpiry_def spec_put_def trim.simps
      PresetModelSizeCacheCost_def Let_def to_front_def, simp add: time_max_def)

text \<open>Removing an item leaves its record of the expiry time behind; an item without expiry that is put
  under the same key later is dropped when that time has passed.\<close>

theorem memory_stale_expiry_drops_item:
  "\<exists>c. run_ops mem_step (InMemoryCache_new 100 PresetModelSizeCacheCost)
      [MPut 0 ''k'' (7 :: nat) 10 1, MRemove ''k'', MPut 1 ''k'' 8 time_max 1, MPut 20 ''x'' 9 time_max 1, MGet 20 ''k''] =
    Some ([MStored True, MDone, MStored True, MStored True, MValue None], c)"
  by (rule mem_run_results)
    (simp add: spec_purge_def expired_keys_def expiries_vec_def HasExpiry_def spec_put_def trim.simps
      PresetModelSizeCacheCost_def Let_def to_front_def time_max_def)

end
