(* ===== verification/Default_Cache.thy ===== *)
theory Default_Cache
  imports Memory_Cache
begin

unbundle bit_operations_syntax

text \<open>
  Component core/cache: \<open>DefaultCache\<close> (\<open>src/cache/DefaultCache.cpp\<close>), which is the memory cache in front
  of the disk cache, and \<open>DiskCache\<close> (\<open>src/cache/DiskCache.cpp\<close>), which keeps a LevelDB database.

  LevelDB and the functions on directories are the record \<open>storage_ops\<close>, over a state \<open>'w\<close>. The values
  of the memory cache are \<open>boost::any\<close>: empty, a byte vector, or a model object of type \<open>'a\<close>. The
  time is an argument, as in \<open>Memory_Cache\<close>. Times are unbounded integers: \<open>expiry + now\<close> does not wrap.
  The environment that limits the size is kept as the path it watches; \<open>env_size\<close> is its \<open>Size\<close>.

  Shown: no operation runs into undefined behaviour; what was put is got until it expires, from memory
  or from disk; the scan that removes a prefix removes the keys with this prefix and no others; the
  record of an expiry time outlives its item.
\<close>

section \<open>The disk cache\<close>

text \<open>
  What the disk cache calls outside the repository: LevelDB and the directory functions. \<open>'w\<close> is the
  state of the file system with its databases. A status is as LevelDB reports it; \<open>db_get\<close> gives the
  value when the status is ok.
\<close>

datatype db_status = StatusOk | StatusNotFound | StatusCorruption | StatusIOError | StatusNotSupported | StatusInvalidArgument

record DbOptions =
  write_buffer_size :: u64
  db_max_file_size :: "size_t option"
  create_if_missing :: bool
  size_limit_env :: "(string \<times> bool) option"

record 'w storage_ops =
  dir_exists :: "'w \<Rightarrow> string \<Rightarrow> bool"
  dir_create :: "'w \<Rightarrow> string \<Rightarrow> bool \<times> 'w"
  dir_remove :: "'w \<Rightarrow> string \<Rightarrow> bool \<times> 'w"
  env_create_dir :: "'w \<Rightarrow> string \<Rightarrow> 'w"
  env_delete_dir :: "'w \<Rightarrow> string \<Rightarrow> 'w"
  env_children :: "'w \<Rightarrow> string \<Rightarrow> string list option"
  env_size :: "'w \<Rightarrow> string \<Rightarrow> u64"
  db_open :: "'w \<Rightarrow> DbOptions \<Rightarrow> string \<Rightarrow> db_status \<times> 'w"
  db_repair :: "'w \<Rightarrow> string \<Rightarrow> db_status \<times> 'w"
  db_destroy :: "'w \<Rightarrow> string \<Rightarrow> db_status \<times> 'w"
  db_put :: "'w \<Rightarrow> string \<Rightarrow> string \<Rightarrow> string \<Rightarrow> db_status \<times> 'w"
  db_get :: "'w \<Rightarrow> string \<Rightarrow> string \<Rightarrow> string option"
  db_delete :: "'w \<Rightarrow> string \<Rightarrow> string \<Rightarrow> db_status \<times> 'w"
  db_keys :: "'w \<Rightarrow> string \<Rightarrow> string list"
  db_write_deletes :: "'w \<Rightarrow> string \<Rightarrow> string list \<Rightarrow> db_status \<times> 'w"

datatype OpenResult = OpenFail | OpenRepaired | OpenSuccess

datatype DiskErrorCode = DiskUnknown | DiskNotFound | DiskInvalidArgument | DiskInternalFailure | DiskBadRequest

record StorageSettings =
  max_disk_storage :: u64
  max_chunk_size :: u64
  enforce_immediate_flush :: bool
  max_file_size :: size_t

text \<open>\<open>database_\<close> is the path of the open database, \<open>environment_\<close> that of the size limit.\<close>

record DiskCache =
  disk_cache_path :: string
  database :: "string option"
  disk_environment :: "string option"
  disk_max_size :: u64
  check_crc :: bool
  open_error :: "DiskErrorCode option"

definition DiskCache_new :: DiskCache where
  "DiskCache_new = \<lparr>disk_cache_path = [], database = None, disk_environment = None, disk_max_size = - 1,
     check_crc = False, open_error = None\<rparr>"

definition tokenizePath :: "string \<Rightarrow> char \<Rightarrow> string list" where
  "tokenizePath dirName delimiter = filter (\<lambda>matched_element. matched_element \<noteq> []) (split_char delimiter dirName)"

definition createDir :: "'w storage_ops \<Rightarrow> 'w \<Rightarrow> string \<Rightarrow> 'w" where
  "createDir S w dirName =
     (let dirNames = tokenizePath dirName (CHR ''/'');
          dirNames = (if length dirNames \<le> 1 then tokenizePath dirName (CHR 0x5C) else dirNames)
      in snd (fold (\<lambda>dirName (path, w). let path = path @ dirName @ ''/'' in (path, env_create_dir S w path))
           dirNames (''/'', w)))"

definition repairCache :: "'w storage_ops \<Rightarrow> 'w \<Rightarrow> string \<Rightarrow> bool \<times> 'w" where
  "repairCache S w versionedDataPath =
     (let (status, w1) = db_repair S w versionedDataPath
      in if status = StatusOk then (True, env_delete_dir S w1 (versionedDataPath @ ''/lost''))
         else let (status, w2) = db_destroy S w1 versionedDataPath in (status = StatusOk, w2))"

definition removeOtherDB :: "'w storage_ops \<Rightarrow> 'w \<Rightarrow> string \<Rightarrow> string \<Rightarrow> 'w" where
  "removeOtherDB S w dataPath versionedDataPathToKeep =
     (case env_children S w dataPath of
        None \<Rightarrow> w
      | Some pathContents \<Rightarrow>
          fold (\<lambda>item w. if item = ''..'' then w
                 else let fullPath = dataPath @ ''/'' @ item
                      in if fullPath \<noteq> versionedDataPathToKeep then snd (db_destroy S w fullPath) else w)
            pathContents w)"

definition setOpenError :: "DiskCache \<Rightarrow> db_status \<Rightarrow> DiskCache" where
  "setOpenError d status = d\<lparr>open_error := Some (case status of
     StatusNotFound \<Rightarrow> DiskNotFound | StatusInvalidArgument \<Rightarrow> DiskInvalidArgument
   | StatusCorruption \<Rightarrow> DiskInternalFailure | StatusIOError \<Rightarrow> DiskInternalFailure
   | StatusNotSupported \<Rightarrow> DiskBadRequest | StatusOk \<Rightarrow> DiskUnknown)\<rparr>"

definition DiskCache_Close :: "DiskCache \<Rightarrow> DiskCache" where
  "DiskCache_Close d = d\<lparr>database := None\<rparr>"

definition DiskCache_Clear :: "'w storage_ops \<Rightarrow> 'w \<Rightarrow> DiskCache \<Rightarrow> bool \<times> 'w \<times> DiskCache" where
  "DiskCache_Clear S w d =
     (let d1 = d\<lparr>database := None\<rparr>
      in if disk_cache_path d1 \<noteq> [] then let (r, w1) = dir_remove S w (disk_cache_path d1) in (r, w1, d1)
         else (True, w, d1))"

datatype OpenOptions = Default | ReadOnly | CheckCrc

fun OpenOptions_bits :: "OpenOptions \<Rightarrow> u8" where
  "OpenOptions_bits Default = 0" | "OpenOptions_bits ReadOnly = 1" | "OpenOptions_bits CheckCrc = 2"

definition DiskCache_Open ::
  "'w storage_ops \<Rightarrow> 'w \<Rightarrow> DiskCache \<Rightarrow> string \<Rightarrow> string \<Rightarrow> StorageSettings \<Rightarrow> OpenOptions \<Rightarrow> OpenResult \<times> 'w \<times> DiskCache" where
  "DiskCache_Open S w d dataPath versionedDataPath settings openOptions =
     (let d1 = d\<lparr>disk_cache_path := dataPath\<rparr>;
          (ok, w1) = (if dir_exists S w dataPath then (True, w) else dir_create S w dataPath)
      in if \<not> ok then (OpenFail, w1, d1)
         else let
           isReadOnly = (OpenOptions_bits openOptions AND OpenOptions_bits ReadOnly = OpenOptions_bits ReadOnly);
           d2 = d1\<lparr>disk_max_size := max_disk_storage settings\<rparr>;
           w2 = (if isReadOnly then w1
                 else let w = createDir S w1 dataPath
                      in if dataPath \<noteq> versionedDataPath then removeOtherDB S w dataPath versionedDataPath else w);
           limited = (\<not> isReadOnly \<and> disk_max_size d2 \<noteq> - 1);
           d3 = (if limited then d2\<lparr>disk_environment := Some versionedDataPath\<rparr> else d2);
           options = \<lparr>write_buffer_size = max_chunk_size settings,
             db_max_file_size = (if max_file_size settings \<noteq> 0 then Some (max_file_size settings) else None),
             create_if_missing = (\<not> isReadOnly),
             size_limit_env = (if limited then Some (versionedDataPath, enforce_immediate_flush settings) else None)\<rparr>;
           d4 = d3\<lparr>check_crc := OpenOptions_bits openOptions AND OpenOptions_bits CheckCrc \<noteq> 0\<rparr>;
           (status, w3) = db_open S w2 options versionedDataPath;
           (repaired, w4) =
             (if (status = StatusCorruption \<or> status = StatusIOError) \<and> \<not> isReadOnly
              then repairCache S w3 versionedDataPath else (False, w3));
           (status, w5) = (if repaired then db_open S w4 options versionedDataPath else (status, w4))
         in if repaired \<and> status = StatusOk then (OpenRepaired, w5, d4\<lparr>database := Some versionedDataPath\<rparr>)
            else if status \<noteq> StatusOk then (OpenFail, w5, setOpenError d4 status)
            else (OpenSuccess, w5, d4\<lparr>database := Some versionedDataPath\<rparr>))"

definition DiskCache_Put :: "'w storage_ops \<Rightarrow> 'w \<Rightarrow> DiskCache \<Rightarrow> string \<Rightarrow> string \<Rightarrow> bool \<times> 'w" where
  "DiskCache_Put S w d key value =
     (case database d of
        None \<Rightarrow> (False, w)
      | Some db \<Rightarrow>
          (if (case disk_environment d of
                 Some env \<Rightarrow> disk_max_size d \<noteq> - 1 \<and> env_size S w env \<ge> disk_max_size d
               | None \<Rightarrow> False)
           then (False, w)
           else let (status, w1) = db_put S w db key value in (status = StatusOk, w1)))"

definition DiskCache_Get :: "'w storage_ops \<Rightarrow> 'w \<Rightarrow> DiskCache \<Rightarrow> string \<Rightarrow> string option" where
  "DiskCache_Get S w d key = Option.bind (database d) (\<lambda>db. db_get S w db key)"

definition DiskCache_Remove :: "'w storage_ops \<Rightarrow> 'w \<Rightarrow> DiskCache \<Rightarrow> string \<Rightarrow> bool \<times> 'w" where
  "DiskCache_Remove S w d key =
     (case database d of
        None \<Rightarrow> (False, w)
      | Some db \<Rightarrow> let (status, w1) = db_delete S w db key in (status = StatusOk, w1))"

text \<open>LevelDB orders keys bytewise; \<open>Seek\<close> goes to the first key that is not less.\<close>

fun bytes_less :: "string \<Rightarrow> string \<Rightarrow> bool" where
  "bytes_less _ [] = False"
| "bytes_less [] (_ # _) = True"
| "bytes_less (a # as) (b # bs) =
     ((of_char a :: nat) < of_char b \<or> a = b \<and> bytes_less as bs)"

definition DiskCache_RemoveKeysWithPrefix :: "'w storage_ops \<Rightarrow> 'w \<Rightarrow> DiskCache \<Rightarrow> string \<Rightarrow> bool \<times> 'w" where
  "DiskCache_RemoveKeysWithPrefix S w d keyPrefix =
     (case database d of
        None \<Rightarrow> (False, w)
      | Some db \<Rightarrow>
          (let batch = (if keyPrefix = [] then db_keys S w db
                        else takeWhile (prefix keyPrefix)
                               (dropWhile (\<lambda>k. bytes_less k keyPrefix) (db_keys S w db)));
               (status, w1) = db_write_deletes S w db batch
           in (status = StatusOk, w1)))"

section \<open>The default cache\<close>

datatype 'a any = AnyEmpty | AnyBytes string | AnyModel 'a

datatype cache_error = Undefined | StolInvalid | BadAnyCast

definition sum_bind :: "'e + 'a \<Rightarrow> ('a \<Rightarrow> 'e + 'b) \<Rightarrow> 'e + 'b" where
  "sum_bind x f = (case x of Inl e \<Rightarrow> Inl e | Inr a \<Rightarrow> f a)"

lemma sum_bind_simps [simp]: "sum_bind (Inl e) f = Inl e" "sum_bind (Inr a) f = f a"
  by (simp_all add: sum_bind_def)

definition defined :: "'a option \<Rightarrow> cache_error + 'a" where
  "defined x = (case x of None \<Rightarrow> Inl Undefined | Some a \<Rightarrow> Inr a)"

lemma defined_simps [simp]: "defined (Some a) = Inr a" "defined None = Inl Undefined"
  by (simp_all add: defined_def)

record CacheSettings =
  disk_path :: "string option"
  cs_max_disk_storage :: u64
  cs_max_chunk_size :: size_t
  cs_enforce_immediate_flush :: bool
  cs_max_file_size :: size_t
  max_memory_cache_size :: size_t
  openOptions :: OpenOptions

record 'a DefaultCache =
  dc_settings :: CacheSettings
  is_open :: bool
  memory_cache :: "'a any InMemoryCache option"
  disk_cache :: "DiskCache option"

definition CacheSettings_new :: CacheSettings where
  "CacheSettings_new = \<lparr>disk_path = None, cs_max_disk_storage = 1024 * 1024 * 32, cs_max_chunk_size = 1024 * 1024 * 32,
     cs_enforce_immediate_flush = True, cs_max_file_size = 1024 * 1024 * 2, max_memory_cache_size = 1024 * 1024,
     openOptions = Default\<rparr>"

definition DefaultCache_new :: "CacheSettings \<Rightarrow> 'a DefaultCache" where
  "DefaultCache_new settings =
     \<lparr>dc_settings = settings, is_open = False, memory_cache = None, disk_cache = None\<rparr>"

text \<open>\<open>std::stol\<close> throws without a digit or out of range.\<close>

definition stol :: "string \<Rightarrow> int option" where
  "stol s =
     (let s1 = dropWhile is_space s;
          neg = (s1 \<noteq> [] \<and> hd s1 = CHR ''-'');
          s2 = (if s1 \<noteq> [] \<and> (hd s1 = CHR ''-'' \<or> hd s1 = CHR ''+'') then tl s1 else s1);
          ds = takeWhile is_digit s2;
          v = (if neg then - int (dec_value 0 ds) else int (dec_value 0 ds))
      in if ds = [] \<or> v < - (2 ^ 63) \<or> v \<ge> 2 ^ 63 then None else Some v)"

definition CreateExpiryKey :: "string \<Rightarrow> string" where
  "CreateExpiryKey key = key @ ''::expiry''"

definition GetRemainingExpiryTime :: "'w storage_ops \<Rightarrow> time_t \<Rightarrow> 'w \<Rightarrow> string \<Rightarrow> DiskCache \<Rightarrow> cache_error + time_t" where
  "GetRemainingExpiryTime S now w key disk =
     (case DiskCache_Get S w disk (CreateExpiryKey key) of
        None \<Rightarrow> Inr time_max
      | Some s \<Rightarrow> (case stol s of None \<Rightarrow> Inl StolInvalid | Some expiry \<Rightarrow> Inr (expiry - now)))"

definition PurgeDiskItem :: "'w storage_ops \<Rightarrow> 'w \<Rightarrow> string \<Rightarrow> DiskCache \<Rightarrow> 'w" where
  "PurgeDiskItem S w key disk =
     snd (DiskCache_Remove S (snd (DiskCache_Remove S w disk key)) disk (CreateExpiryKey key))"

definition StoreExpiry :: "'w storage_ops \<Rightarrow> time_t \<Rightarrow> 'w \<Rightarrow> string \<Rightarrow> DiskCache \<Rightarrow> time_t \<Rightarrow> bool \<times> 'w" where
  "StoreExpiry S now w key disk expiry = DiskCache_Put S w disk (CreateExpiryKey key) (to_string_int (expiry + now))"

datatype StorageOpenResult = StorageSuccess | OpenDiskPathFailure

definition SetupStorage :: "'w storage_ops \<Rightarrow> 'w \<Rightarrow> 'a DefaultCache \<Rightarrow> StorageOpenResult \<times> 'w \<times> 'a DefaultCache" where
  "SetupStorage S w c =
     (let settings = dc_settings c;
          c1 = c\<lparr>memory_cache := (if max_memory_cache_size settings > 0
                   then Some (InMemoryCache_new (max_memory_cache_size settings) PresetModelSizeCacheCost) else None),
                 disk_cache := None\<rparr>
      in case disk_path settings of
           None \<Rightarrow> (StorageSuccess, w, c1)
         | Some path \<Rightarrow>
             (let storage_settings = \<lparr>max_disk_storage = cs_max_disk_storage settings,
                    max_chunk_size = cs_max_chunk_size settings,
                    enforce_immediate_flush = cs_enforce_immediate_flush settings,
                    max_file_size = cs_max_file_size settings\<rparr>;
                  (status, w1, d) = DiskCache_Open S w DiskCache_new path path storage_settings Default
              in if status = OpenFail
                 then (OpenDiskPathFailure, w1, c1\<lparr>dc_settings := settings\<lparr>disk_path := None\<rparr>\<rparr>)
                 else (StorageSuccess, w1, c1\<lparr>disk_cache := Some d\<rparr>)))"

definition DefaultCache_Open :: "'w storage_ops \<Rightarrow> 'w \<Rightarrow> 'a DefaultCache \<Rightarrow> StorageOpenResult \<times> 'w \<times> 'a DefaultCache" where
  "DefaultCache_Open S w c = SetupStorage S w (c\<lparr>is_open := True\<rparr>)"

definition DefaultCache_Close :: "'a DefaultCache \<Rightarrow> 'a DefaultCache" where
  "DefaultCache_Close c =
     (if \<not> is_open c then c else c\<lparr>memory_cache := None, disk_cache := None, is_open := False\<rparr>)"

definition DefaultCache_Clear :: "'w storage_ops \<Rightarrow> 'w \<Rightarrow> 'a DefaultCache \<Rightarrow> bool \<times> 'w \<times> 'a DefaultCache" where
  "DefaultCache_Clear S w c =
     (if \<not> is_open c then (False, w, c)
      else let
        c1 = c\<lparr>memory_cache := map_option InMemoryCache_Clear (memory_cache c)\<rparr>;
        (ok, w1, c2) = (case disk_cache c1 of
            None \<Rightarrow> (True, w, c1)
          | Some d \<Rightarrow> let (r, w1, d1) = DiskCache_Clear S w d in (r, w1, c1\<lparr>disk_cache := Some d1\<rparr>))
      in if \<not> ok then (False, w1, c2)
         else let (r, w2, c3) = SetupStorage S w1 c2 in (r = StorageSuccess, w2, c3))"

text \<open>The two \<open>Put\<close> differ in the value kept in memory only; \<open>encoded\<close> is what the disk keeps.\<close>

definition DefaultCache_put ::
  "'w storage_ops \<Rightarrow> time_t \<Rightarrow> 'w \<Rightarrow> 'a DefaultCache \<Rightarrow> string \<Rightarrow> 'a any \<Rightarrow> string \<Rightarrow> time_t \<Rightarrow> cache_error + bool \<times> 'w \<times> 'a DefaultCache" where
  "DefaultCache_put S now w c key value encoded expiry =
     (if \<not> is_open c then Inr (False, w, c)
      else sum_bind
        (case memory_cache c of
           None \<Rightarrow> Inr (True, c)
         | Some m \<Rightarrow> sum_bind (defined (InMemoryCache_Put now m key value expiry (of_nat (length encoded))))
             (\<lambda>(r, m'). Inr (r, c\<lparr>memory_cache := Some m'\<rparr>)))
        (\<lambda>(ok, c1).
           if \<not> ok then Inr (False, w, c1)
           else case disk_cache c1 of
             None \<Rightarrow> Inr (True, w, c1)
           | Some d \<Rightarrow>
               (let (stored, w1) = (if expiry < time_max then StoreExpiry S now w key d expiry else (True, w))
                in if \<not> stored then Inr (False, w1, c1)
                   else let (r, w2) = DiskCache_Put S w1 d key encoded in Inr (r, w2, c1))))"

definition DefaultCache_Put where
  "DefaultCache_Put S now w c key value encoder expiry =
     DefaultCache_put S now w c key value (encoder ()) expiry"

definition DefaultCache_Put_data where
  "DefaultCache_Put_data S now w c key value expiry =
     DefaultCache_put S now w c key (AnyBytes value) value expiry"

definition DefaultCache_get ::
  "'w storage_ops \<Rightarrow> time_t \<Rightarrow> 'w \<Rightarrow> 'a DefaultCache \<Rightarrow> string \<Rightarrow> (string \<Rightarrow> 'a any) \<Rightarrow> cache_error + 'a any \<times> 'w \<times> 'a DefaultCache" where
  "DefaultCache_get S now w c key decoder =
     (if \<not> is_open c then Inr (AnyEmpty, w, c)
      else sum_bind
        (case memory_cache c of
           None \<Rightarrow> Inr (AnyEmpty, c)
         | Some m \<Rightarrow> sum_bind (defined (InMemoryCache_Get now m key))
             (\<lambda>(v, m'). Inr (case v of None \<Rightarrow> AnyEmpty | Some a \<Rightarrow> a, c\<lparr>memory_cache := Some m'\<rparr>)))
        (\<lambda>(value, c1).
           if value \<noteq> AnyEmpty then Inr (value, w, c1)
           else case disk_cache c1 of
             None \<Rightarrow> Inr (AnyEmpty, w, c1)
           | Some d \<Rightarrow> sum_bind (GetRemainingExpiryTime S now w key d) (\<lambda>expiry.
               if expiry \<le> 0 then Inr (AnyEmpty, PurgeDiskItem S w key d, c1)
               else case DiskCache_Get S w d key of
                 None \<Rightarrow> Inr (AnyEmpty, w, c1)
               | Some v \<Rightarrow>
                   (let decoded_item = decoder v
                    in case memory_cache c1 of
                         None \<Rightarrow> Inr (decoded_item, w, c1)
                       | Some m \<Rightarrow> sum_bind (defined (InMemoryCache_Put now m key decoded_item expiry (of_nat (length v))))
                           (\<lambda>(_, m'). Inr (decoded_item, w, c1\<lparr>memory_cache := Some m'\<rparr>))))))"

definition DefaultCache_Get where
  "DefaultCache_Get S now w c key decoder = DefaultCache_get S now w c key decoder"

text \<open>\<open>boost::any_cast\<close> throws when the value in memory is not a byte vector.\<close>

definition DefaultCache_Get_data ::
  "'w storage_ops \<Rightarrow> time_t \<Rightarrow> 'w \<Rightarrow> 'a DefaultCache \<Rightarrow> string \<Rightarrow> cache_error + string option \<times> 'w \<times> 'a DefaultCache" where
  "DefaultCache_Get_data S now w c key =
     sum_bind (DefaultCache_get S now w c key AnyBytes) (\<lambda>(v, w1, c1).
       case v of AnyEmpty \<Rightarrow> Inr (None, w1, c1) | AnyBytes b \<Rightarrow> Inr (Some b, w1, c1) | AnyModel _ \<Rightarrow> Inl BadAnyCast)"

definition DefaultCache_Remove :: "'w storage_ops \<Rightarrow> 'w \<Rightarrow> 'a DefaultCache \<Rightarrow> string \<Rightarrow> cache_error + bool \<times> 'w \<times> 'a DefaultCache" where
  "DefaultCache_Remove S w c key =
     (if \<not> is_open c then Inr (False, w, c)
      else sum_bind
        (case memory_cache c of
           None \<Rightarrow> Inr c
         | Some m \<Rightarrow> sum_bind (defined (InMemoryCache_Remove m key)) (\<lambda>m'. Inr (c\<lparr>memory_cache := Some m'\<rparr>)))
        (\<lambda>c1. case disk_cache c1 of
             None \<Rightarrow> Inr (True, w, c1)
           | Some d \<Rightarrow> let (r, w1) = DiskCache_Remove S w d key in Inr (r, w1, c1)))"

definition DefaultCache_RemoveKeysWithPrefix ::
  "'w storage_ops \<Rightarrow> 'w \<Rightarrow> 'a DefaultCache \<Rightarrow> string \<Rightarrow> cache_error + bool \<times> 'w \<times> 'a DefaultCache" where
  "DefaultCache_RemoveKeysWithPrefix S w c key =
     (if \<not> is_open c then Inr (False, w, c)
      else sum_bind
        (case memory_cache c of
           None \<Rightarrow> Inr c
         | Some m \<Rightarrow> sum_bind (defined (InMemoryCache_RemoveKeysWithPrefix m key)) (\<lambda>m'. Inr (c\<lparr>memory_cache := Some m'\<rparr>)))
        (\<lambda>c1. case disk_cache c1 of
             None \<Rightarrow> Inr (True, w, c1)
           | Some d \<Rightarrow> let (r, w1) = DiskCache_RemoveKeysWithPrefix S w d key in Inr (r, w1, c1)))"

section \<open>No undefined behaviour\<close>

lemma is_digit_iff_not:
  "is_digit c \<Longrightarrow> \<not> is_space c" "is_digit c \<Longrightarrow> c \<noteq> CHR ''-''" "is_digit c \<Longrightarrow> c \<noteq> CHR ''+''"
  using is_digit_not_special by auto

lemma takeWhile_digits [simp]: "takeWhile is_digit (dec_digits n) = dec_digits n"
  using dec_digits_are_digits by (simp add: takeWhile_eq_all_conv)

lemma dec_digits_head: "is_digit (hd (dec_digits n))"
  using dec_digits_are_digits dec_digits_nonempty by (metis hd_in_set)

lemma dropWhile_digits [simp]: "dropWhile is_space (dec_digits n) = dec_digits n"
proof -
  obtain c cs where "dec_digits n = c # cs" by (cases "dec_digits n") auto
  with dec_digits_head [of n] is_digit_iff_not show ?thesis by auto
qed

lemma stol_to_string_int:
  assumes "- (2 ^ 63) \<le> n" "n < 2 ^ 63" shows "stol (to_string_int n) = Some n"
proof (cases "n < 0")
  case True
  have "\<not> is_space (CHR ''-'')" by (simp add: is_space_def)
  with True assms show ?thesis by (simp add: stol_def to_string_int_def Let_def)
next
  case False
  have "hd (dec_digits (nat n)) \<noteq> CHR ''-''" "hd (dec_digits (nat n)) \<noteq> CHR ''+''"
    using dec_digits_head [of "nat n"] is_digit_iff_not by auto
  with False assms show ?thesis by (simp add: stol_def to_string_int_def Let_def)
qed

definition memory_ok :: "'a any InMemoryCache \<Rightarrow> bool" where
  "memory_ok m \<longleftrightarrow> (\<exists>a. mem_rel PresetModelSizeCacheCost m a)"

definition cache_ok :: "'a DefaultCache \<Rightarrow> bool" where
  "cache_ok c \<longleftrightarrow> (\<forall>m. memory_cache c = Some m \<longrightarrow> memory_ok m)"

lemma memory_ok_step: "memory_ok m \<Longrightarrow> \<exists>r m'. mem_step m oper = Some (r, m') \<and> memory_ok m'"
  unfolding memory_ok_def using mem.step_refines by blast

lemma memory_ok_new [simp]: "memory_ok (InMemoryCache_new n PresetModelSizeCacheCost)"
  unfolding memory_ok_def using mem_rel_new by blast

lemma memory_ok_ops:
  assumes "memory_ok m"
  shows "\<exists>r m'. InMemoryCache_Put now m k v e s = Some (r, m') \<and> memory_ok m'"
    "\<exists>r m'. InMemoryCache_Get now m k = Some (r, m') \<and> memory_ok m'"
    "\<exists>m'. InMemoryCache_Remove m k = Some m' \<and> memory_ok m'"
    "\<exists>m'. InMemoryCache_RemoveKeysWithPrefix m k = Some m' \<and> memory_ok m'"
    "memory_ok (InMemoryCache_Clear m)"
  using memory_ok_step [OF assms, of "MPut now k v e s"] memory_ok_step [OF assms, of "MGet now k"]
    memory_ok_step [OF assms, of "MRemove k"] memory_ok_step [OF assms, of "MRemovePrefix k"]
    memory_ok_step [OF assms, of MClear] by auto

datatype 'a dc_op =
  DOpen | DClose | DClear | DPut time_t string "'a any" string time_t | DPutData time_t string string time_t
  | DGet time_t string "string \<Rightarrow> 'a any" | DGetData time_t string | DRemove string | DRemovePrefix string

datatype 'a dc_result = DStatus StorageOpenResult | DBool bool | DAny "'a any" | DData "string option" | DUnit

fun dc_step :: "'w storage_ops \<Rightarrow> 'w \<times> 'a DefaultCache \<Rightarrow> 'a dc_op \<Rightarrow> cache_error + 'a dc_result \<times> 'w \<times> 'a DefaultCache" where
  "dc_step S (w, c) DOpen = (let (r, w1, c1) = DefaultCache_Open S w c in Inr (DStatus r, w1, c1))"
| "dc_step S (w, c) DClose = Inr (DUnit, w, DefaultCache_Close c)"
| "dc_step S (w, c) DClear = (let (r, w1, c1) = DefaultCache_Clear S w c in Inr (DBool r, w1, c1))"
| "dc_step S (w, c) (DPut now k v s e) = map_sum id (map_prod DBool id) (DefaultCache_Put S now w c k v (\<lambda>_ :: unit. s) e)"
| "dc_step S (w, c) (DPutData now k v e) = map_sum id (map_prod DBool id) (DefaultCache_Put_data S now w c k v e)"
| "dc_step S (w, c) (DGet now k d) = map_sum id (map_prod DAny id) (DefaultCache_Get S now w c k d)"
| "dc_step S (w, c) (DGetData now k) = map_sum id (map_prod DData id) (DefaultCache_Get_data S now w c k)"
| "dc_step S (w, c) (DRemove k) = map_sum id (map_prod DBool id) (DefaultCache_Remove S w c k)"
| "dc_step S (w, c) (DRemovePrefix p) = map_sum id (map_prod DBool id) (DefaultCache_RemoveKeysWithPrefix S w c p)"

definition ok_result :: "cache_error + 'r \<times> 'w \<times> 'a DefaultCache \<Rightarrow> bool" where
  "ok_result x \<longleftrightarrow> (case x of Inl e \<Rightarrow> e \<noteq> Undefined | Inr (_, _, c) \<Rightarrow> cache_ok c)"

lemma ok_result_simps [simp]:
  "ok_result (Inl e) \<longleftrightarrow> e \<noteq> Undefined" "ok_result (Inr (r, w, c)) \<longleftrightarrow> cache_ok c"
  "ok_result (map_sum id (map_prod f id) x) = ok_result x"
  by (auto simp: ok_result_def split: sum.splits)

lemma cache_ok_simps [simp]:
  "cache_ok (c\<lparr>memory_cache := Some m\<rparr>) \<longleftrightarrow> memory_ok m" "cache_ok (c\<lparr>memory_cache := None\<rparr>)"
  "cache_ok (c\<lparr>disk_cache := d\<rparr>) = cache_ok c" "cache_ok (c\<lparr>is_open := b\<rparr>) = cache_ok c"
  "cache_ok (c\<lparr>dc_settings := s\<rparr>) = cache_ok c"
  by (auto simp: cache_ok_def)

lemma SetupStorage_ok: "cache_ok (snd (snd (SetupStorage S w c)))"
  by (auto simp: SetupStorage_def Let_def cache_ok_def split: option.splits prod.splits if_splits)

lemma cache_ok_memory [dest]: "cache_ok c \<Longrightarrow> memory_cache c = Some m \<Longrightarrow> memory_ok m"
  by (simp add: cache_ok_def)

lemma cache_ok_None [simp]: "memory_cache c = None \<Longrightarrow> cache_ok c"
  by (simp add: cache_ok_def)

lemma SetupStorage_okD: "SetupStorage S w c = (r, w', c') \<Longrightarrow> cache_ok c'"
  using SetupStorage_ok [of S w c] by simp

lemma put_ok:
  assumes "cache_ok c" shows "ok_result (DefaultCache_put S now w c k v s e)"
proof (cases "memory_cache c")
  case None
  with assms show ?thesis
    by (auto simp: DefaultCache_put_def Let_def split: option.splits prod.splits)
next
  case (Some m)
  with assms have "memory_ok m" by blast
  then obtain r m' where "InMemoryCache_Put now m k v e (of_nat (length s)) = Some (r, m')" "memory_ok m'"
    using memory_ok_ops(1) by blast
  with Some assms show ?thesis
    by (auto simp: DefaultCache_put_def Let_def split: option.splits prod.splits)
qed

lemma get_disk_ok:
  assumes "cache_ok c"
  shows "ok_result (case disk_cache c of
             None \<Rightarrow> Inr (AnyEmpty, w, c)
           | Some d \<Rightarrow> sum_bind (GetRemainingExpiryTime S now w key d) (\<lambda>expiry.
               if expiry \<le> 0 then Inr (AnyEmpty, PurgeDiskItem S w key d, c)
               else case DiskCache_Get S w d key of
                 None \<Rightarrow> Inr (AnyEmpty, w, c)
               | Some v \<Rightarrow>
                   (let decoded_item = decoder v
                    in case memory_cache c of
                         None \<Rightarrow> Inr (decoded_item, w, c)
                       | Some m \<Rightarrow> sum_bind (defined (InMemoryCache_Put now m key decoded_item expiry (of_nat (length v))))
                           (\<lambda>(_, m'). Inr (decoded_item, w, c\<lparr>memory_cache := Some m'\<rparr>)))))"
proof (cases "disk_cache c")
  case (Some d)
  show ?thesis
  proof (cases "GetRemainingExpiryTime S now w key d")
    case (Inl e)
    with Some show ?thesis by (auto simp: GetRemainingExpiryTime_def split: option.splits)
  next
    case (Inr e)
    have "ok_result (case memory_cache c of
        None \<Rightarrow> Inr (x, w, c)
      | Some m \<Rightarrow> sum_bind (defined (InMemoryCache_Put now m key x e s))
           (\<lambda>(_, m'). Inr (x, w, c\<lparr>memory_cache := Some m'\<rparr>)))" for x s
    proof (cases "memory_cache c")
      case (Some m)
      with assms have "memory_ok m" by blast
      then obtain r m' where "InMemoryCache_Put now m key x e s = Some (r, m')" "memory_ok m'"
        using memory_ok_ops(1) by blast
      with Some show ?thesis by simp
    qed (use assms in simp)
    with Some Inr assms show ?thesis by (simp add: Let_def split: option.split)
  qed
qed (use assms in simp)

lemma get_ok:
  assumes "cache_ok c" shows "ok_result (DefaultCache_get S now w c k d)"
proof (cases "memory_cache c")
  case None
  with assms get_disk_ok [OF assms, of w S now k d] show ?thesis by (simp add: DefaultCache_get_def)
next
  case (Some m)
  with assms have "memory_ok m" by blast
  then obtain r m' where "InMemoryCache_Get now m k = Some (r, m')" "memory_ok m'"
    using memory_ok_ops(2) by blast
  with Some assms get_disk_ok [of "c\<lparr>memory_cache := Some m'\<rparr>" w S now k d] show ?thesis
    by (simp add: DefaultCache_get_def)
qed

lemma get_data_ok: "cache_ok c \<Longrightarrow> ok_result (DefaultCache_Get_data S now w c k)"
  using get_ok [of c S now w k AnyBytes]
  by (auto simp: DefaultCache_Get_data_def ok_result_def sum_bind_def split: sum.splits any.splits)

lemma remove_ok:
  assumes "cache_ok c" shows "ok_result (DefaultCache_Remove S w c k)"
    "ok_result (DefaultCache_RemoveKeysWithPrefix S w c k)"
proof -
  have m: "\<exists>m'. InMemoryCache_Remove m k = Some m' \<and> memory_ok m'"
    "\<exists>m'. InMemoryCache_RemoveKeysWithPrefix m k = Some m' \<and> memory_ok m'" if "memory_cache c = Some m" for m
    using memory_ok_ops(3,4) [of m k] assms that by blast+
  show "ok_result (DefaultCache_Remove S w c k)"
    using m(1) assms by (cases "memory_cache c")
      (fastforce simp: DefaultCache_Remove_def Let_def split: option.splits prod.splits)+
  show "ok_result (DefaultCache_RemoveKeysWithPrefix S w c k)"
    using m(2) assms by (cases "memory_cache c")
      (fastforce simp: DefaultCache_RemoveKeysWithPrefix_def Let_def split: option.splits prod.splits)+
qed

lemma clear_ok:
  assumes "cache_ok c" shows "cache_ok (snd (snd (DefaultCache_Clear S w c)))"
proof -
  have "cache_ok (c\<lparr>memory_cache := map_option InMemoryCache_Clear (memory_cache c)\<rparr>)"
    using assms memory_ok_ops(5) by (cases "memory_cache c") auto
  then show ?thesis
    using assms by (auto simp: DefaultCache_Clear_def Let_def split: option.splits prod.splits dest: SetupStorage_okD)
qed

lemma dc_step_ok:
  assumes "cache_ok c" shows "ok_result (dc_step S (w, c) oper)"
proof (cases oper)
  case DOpen
  then show ?thesis by (auto simp: DefaultCache_Open_def Let_def split: prod.split dest: SetupStorage_okD)
next
  case DClear
  with clear_ok [OF assms, of S w] show ?thesis by (auto simp: Let_def split: prod.split)
qed (simp_all add: assms DefaultCache_Close_def DefaultCache_Put_def DefaultCache_Put_data_def DefaultCache_Get_def
  put_ok get_ok get_data_ok remove_ok)

inductive dc_reachable :: "'w storage_ops \<Rightarrow> CacheSettings \<Rightarrow> 'w \<times> 'a DefaultCache \<Rightarrow> bool" for S s where
  created: "dc_reachable S s (w, DefaultCache_new s)"
| stepped: "dc_reachable S s (w, c) \<Longrightarrow> dc_step S (w, c) oper = Inr (r, w', c') \<Longrightarrow> dc_reachable S s (w', c')"

lemma dc_reachable_ok: "dc_reachable S s wc \<Longrightarrow> cache_ok (snd wc)"
proof (induction rule: dc_reachable.induct)
  case (stepped w c oper r w' c')
  then show ?case using dc_step_ok [of c S w oper] by simp
qed (simp add: DefaultCache_new_def)

section \<open>What is put is got\<close>

text \<open>What LevelDB documents of a successful put and delete.\<close>

definition kv_laws :: "'w storage_ops \<Rightarrow> bool" where
  "kv_laws S \<longleftrightarrow>
     (\<forall>w db k v w'. db_put S w db k v = (StatusOk, w') \<longrightarrow>
        db_get S w' db k = Some v \<and> (\<forall>k'. k' \<noteq> k \<longrightarrow> db_get S w' db k' = db_get S w db k')) \<and>
     (\<forall>w db k w'. db_delete S w db k = (StatusOk, w') \<longrightarrow>
        db_get S w' db k = None \<and> (\<forall>k'. k' \<noteq> k \<longrightarrow> db_get S w' db k' = db_get S w db k'))"

lemma DiskCache_Put_Get:
  assumes "kv_laws S" "DiskCache_Put S w d k v = (True, w')"
  shows "DiskCache_Get S w' d k = Some v" "k' \<noteq> k \<Longrightarrow> DiskCache_Get S w' d k' = DiskCache_Get S w d k'"
  using assms by (auto simp: kv_laws_def DiskCache_Put_def DiskCache_Get_def Let_def
    split: option.splits prod.splits if_splits)

lemma DiskCache_Remove_Get:
  assumes "kv_laws S" "DiskCache_Remove S w d k = (True, w')"
  shows "DiskCache_Get S w' d k = None" "k' \<noteq> k \<Longrightarrow> DiskCache_Get S w' d k' = DiskCache_Get S w d k'"
  using assms by (auto simp: kv_laws_def DiskCache_Remove_def DiskCache_Get_def Let_def
    split: option.splits prod.splits)

lemma CreateExpiryKey_neq [simp]: "CreateExpiryKey k \<noteq> k" "k \<noteq> CreateExpiryKey k"
  by (simp_all add: CreateExpiryKey_def)

lemma memory_put_get_any:
  assumes "memory_ok m" "InMemoryCache_Put now m k v e s = Some (True, m1)"
    "HasExpiry e \<longrightarrow> now' \<le> e + now" "\<not> HasExpiry e \<longrightarrow> now' \<le> e"
  shows "\<exists>m2. InMemoryCache_Get now' m1 k = Some (Some v, m2)"
proof -
  obtain a where "mem_rel PresetModelSizeCacheCost m a" using assms(1) by (auto simp: memory_ok_def)
  from Put_then_Get [OF this assms(2-4)] show ?thesis .
qed

lemma put_memory:
  assumes "DefaultCache_put S now w c k v s e = Inr (True, w1, c1)" "is_open c" "memory_cache c = Some m"
  shows "\<exists>m1. InMemoryCache_Put now m k v e (of_nat (length s)) = Some (True, m1) \<and> memory_cache c1 = Some m1 \<and> is_open c1"
proof (cases "InMemoryCache_Put now m k v e (of_nat (length s))")
  case None
  with assms show ?thesis by (simp add: DefaultCache_put_def)
next
  case (Some p)
  with assms show ?thesis
    by (cases p) (auto simp: DefaultCache_put_def Let_def split: option.splits prod.splits if_splits)
qed

lemma put_disk:
  assumes "DefaultCache_put S now w c k v s e = Inr (True, w1, c1)" "is_open c" "memory_cache c = None"
    "disk_cache c = Some d"
  shows "c1 = c" and
    "\<exists>w0. (if e < time_max then StoreExpiry S now w k d e else (True, w)) = (True, w0) \<and> DiskCache_Put S w0 d k s = (True, w1)"
  using assms by (auto simp: DefaultCache_put_def Let_def split: prod.splits if_splits)

lemma get_disk_hit:
  assumes "is_open c" "memory_cache c = None" "disk_cache c = Some d"
    "GetRemainingExpiryTime S now w k d = Inr t" "t > 0" "DiskCache_Get S w d k = Some s"
  shows "DefaultCache_get S now w c k dec = Inr (dec s, w, c)"
  using assms by (simp add: DefaultCache_get_def)

lemma put_disk_expiry:
  assumes "kv_laws S" "(if e < time_max then StoreExpiry S now w k d e else (True, w)) = (True, w0)"
    "DiskCache_Put S w0 d k s = (True, w1)"
    "e < time_max \<longrightarrow> - (2 ^ 63) \<le> e + now \<and> e + now < 2 ^ 63"
    "\<not> e < time_max \<longrightarrow> DiskCache_Get S w d (CreateExpiryKey k) = None"
  shows "GetRemainingExpiryTime S now' w1 k d = Inr (if e < time_max then e + now - now' else time_max)"
proof (cases "e < time_max")
  case True
  then have "DiskCache_Get S w0 d (CreateExpiryKey k) = Some (to_string_int (e + now))"
    using assms DiskCache_Put_Get(1) by (auto simp: StoreExpiry_def)
  then have "DiskCache_Get S w1 d (CreateExpiryKey k) = Some (to_string_int (e + now))"
    using DiskCache_Put_Get(2) [OF assms(1,3)] by simp
  with True assms show ?thesis by (simp add: GetRemainingExpiryTime_def stol_to_string_int)
next
  case False
  with assms DiskCache_Put_Get(2) [OF assms(1,3)] show ?thesis by (simp add: GetRemainingExpiryTime_def)
qed

text \<open>A file system with one database, kept as an association list, and room for every write.\<close>

definition map_storage :: "((string \<times> string) list) storage_ops" where
  "map_storage = \<lparr>dir_exists = \<lambda>w p. True, dir_create = \<lambda>w p. (True, w), dir_remove = \<lambda>w p. (True, []),
     env_create_dir = \<lambda>w p. w, env_delete_dir = \<lambda>w p. w, env_children = \<lambda>w p. Some [], env_size = \<lambda>w p. 0,
     db_open = \<lambda>w opt p. (StatusOk, w), db_repair = \<lambda>w p. (StatusOk, w), db_destroy = \<lambda>w p. (StatusOk, []),
     db_put = \<lambda>w p k v. (StatusOk, (k, v) # w), db_get = \<lambda>w p k. map_of w k,
     db_delete = \<lambda>w p k. (StatusOk, filter (\<lambda>x. fst x \<noteq> k) w), db_keys = \<lambda>w p. map fst w,
     db_write_deletes = \<lambda>w p ks. (StatusOk, filter (\<lambda>x. fst x \<notin> set ks) w)\<rparr>"

lemma map_storage_laws: "kv_laws map_storage"
  by (auto simp: kv_laws_def map_storage_def map_of_filter_key)

definition disk_settings :: CacheSettings where
  "disk_settings = CacheSettings_new\<lparr>disk_path := Some ''p'', cs_max_disk_storage := 1000, max_memory_cache_size := 0\<rparr>"

definition disk_only :: "nat DefaultCache" where
  "disk_only = snd (snd (DefaultCache_Open map_storage [] (DefaultCache_new disk_settings)))"

lemma disk_only_simps [simp]:
  "is_open disk_only" "memory_cache disk_only = None"
  "disk_cache disk_only = Some \<lparr>disk_cache_path = ''p'', database = Some ''p'', disk_environment = Some ''p'',
     disk_max_size = 1000, check_crc = False, open_error = None\<rparr>"
  by (simp_all add: disk_only_def DefaultCache_Open_def SetupStorage_def DefaultCache_new_def disk_settings_def CacheSettings_new_def
    DiskCache_Open_def createDir_def tokenizePath_def map_storage_def DiskCache_new_def removeOtherDB_def Let_def)

section \<open>Prefix removal\<close>

lemma bytes_less_prefix: "prefix p k \<Longrightarrow> \<not> bytes_less k p"
  by (induction k p rule: bytes_less.induct) auto

lemma bytes_less_trans: "bytes_less a b \<Longrightarrow> bytes_less b c \<Longrightarrow> bytes_less a c"
  by (induction a b arbitrary: c rule: bytes_less.induct) (case_tac c; auto)+

lemma bytes_less_past_prefix:
  "\<not> bytes_less k p \<Longrightarrow> \<not> prefix p k \<Longrightarrow> bytes_less k k' \<Longrightarrow> \<not> prefix p k'"
proof (induction k p arbitrary: k' rule: bytes_less.induct)
  case (3 a as b bs)
  then show ?case by (cases k') auto
qed auto

lemma seek_prefix:
  assumes "sorted_wrt bytes_less ks"
  shows "takeWhile (prefix p) (dropWhile (\<lambda>k. bytes_less k p) ks) = filter (prefix p) ks"
  using assms
proof (induction ks)
  case (Cons k ks)
  show ?case
  proof (cases "bytes_less k p")
    case True
    with Cons bytes_less_prefix show ?thesis by auto
  next
    case False
    have all: "\<not> bytes_less x p" if "x \<in> set ks" for x
      using Cons.prems that False bytes_less_trans by auto
    then have d: "dropWhile (\<lambda>k. bytes_less k p) ks = ks" by (cases ks) auto
    have "\<forall>x\<in>set ks. \<not> prefix p x" if "\<not> prefix p k"
      using bytes_less_past_prefix [OF False that] Cons.prems by auto
    with False d Cons show ?thesis by auto
  qed
qed simp

text \<open>What LevelDB documents of a batch of deletions and of a scan.\<close>

definition batch_laws :: "'w storage_ops \<Rightarrow> bool" where
  "batch_laws S \<longleftrightarrow>
     (\<forall>w db ks w'. db_write_deletes S w db ks = (StatusOk, w') \<longrightarrow>
        (\<forall>k. db_get S w' db k = (if k \<in> set ks then None else db_get S w db k))) \<and>
     (\<forall>w db k v. db_get S w db k = Some v \<longrightarrow> k \<in> set (db_keys S w db))"

lemma map_of_filter_in: "map_of (filter (\<lambda>x. fst x \<notin> A) xs) k = (if k \<in> A then None else map_of xs k)"
  by (induction xs) auto

lemma map_storage_batch_laws: "batch_laws map_storage"
  by (auto simp: batch_laws_def map_storage_def map_of_filter_in dest: map_of_SomeD)
    (metis fst_conv image_eqI map_of_SomeD)?

section \<open>Properties\<close>





text \<open>Removing an item from disk leaves its expiry record; an item put later without expiry is dropped
  when that time has passed.\<close>

theorem default_stale_expiry_drops_item:
  "\<exists>w1 w2 w3 w4.
     DefaultCache_Put_data map_storage 0 [] disk_only ''k'' ''a'' 10 = Inr (True, w1, disk_only) \<and>
     DefaultCache_Remove map_storage w1 disk_only ''k'' = Inr (True, w2, disk_only) \<and>
     DefaultCache_Put_data map_storage 1 w2 disk_only ''k'' ''b'' time_max = Inr (True, w3, disk_only) \<and>
     DefaultCache_Get_data map_storage 20 w3 disk_only ''k'' = Inr (None, w4, disk_only)"
  by (simp add: DefaultCache_Put_data_def DefaultCache_put_def DefaultCache_Remove_def DefaultCache_Get_data_def
    DefaultCache_get_def StoreExpiry_def DiskCache_Put_def DiskCache_Remove_def DiskCache_Get_def PurgeDiskItem_def
    GetRemainingExpiryTime_def CreateExpiryKey_def map_storage_def time_max_def stol_to_string_int)

text \<open>The seek and scan of \<open>RemoveKeysWithPrefix\<close> removes the keys with the prefix, and every other key
  keeps its value.\<close>

theorem disk_prefix_removal:
  assumes "batch_laws S" "database d = Some db" "sorted_wrt bytes_less (db_keys S w db)"
    "DiskCache_RemoveKeysWithPrefix S w d p = (True, w')"
  shows "DiskCache_Get S w' d k = (if prefix p k then None else DiskCache_Get S w d k)"
proof -
  have b: "(if p = [] then db_keys S w db else takeWhile (prefix p) (dropWhile (\<lambda>k. bytes_less k p) (db_keys S w db))) =
     filter (prefix p) (db_keys S w db)" using seek_prefix [OF assms(3)] by simp
  have "db_write_deletes S w db (filter (prefix p) (db_keys S w db)) = (StatusOk, w')"
    using assms(2,4) by (auto simp: DiskCache_RemoveKeysWithPrefix_def b Let_def split: prod.splits)
  then have "db_get S w' db k = (if k \<in> set (filter (prefix p) (db_keys S w db)) then None else db_get S w db k)"
    and "db_get S w db k \<noteq> None \<Longrightarrow> k \<in> set (db_keys S w db)"
    using assms(1) unfolding batch_laws_def by blast+
  with assms(2) show ?thesis by (cases "db_get S w db k") (auto simp: DiskCache_Get_def)
qed

theorem disk_prefix_removal_witness:
  "DiskCache_RemoveKeysWithPrefix map_storage [(''a'', ''1''), (''b1'', ''2''), (''b2'', ''3'')] (DiskCache_new\<lparr>database := Some ''p''\<rparr>) ''b''
    = (True, [(''a'', ''1'')]) \<and>
   DiskCache_Get map_storage [(''a'', ''1'')] (DiskCache_new\<lparr>database := Some ''p''\<rparr>) ''b1'' = None"
proof -
  have e: "DiskCache_RemoveKeysWithPrefix map_storage [(''a'', ''1''), (''b1'', ''2''), (''b2'', ''3'')] (DiskCache_new\<lparr>database := Some ''p''\<rparr>) ''b''
    = (True, [(''a'', ''1'')])" and o: "sorted_wrt bytes_less (db_keys map_storage [(''a'', ''1''), (''b1'', ''2''), (''b2'', ''3'')] ''p'')"
    by (simp_all add: DiskCache_RemoveKeysWithPrefix_def map_storage_def)
  have "DiskCache_Get map_storage [(''a'', ''1'')] (DiskCache_new\<lparr>database := Some ''p''\<rparr>) ''b1'' =
      (if prefix ''b'' ''b1'' then None
       else DiskCache_Get map_storage [(''a'', ''1''), (''b1'', ''2''), (''b2'', ''3'')] (DiskCache_new\<lparr>database := Some ''p''\<rparr>) ''b1'')"
    by (rule disk_prefix_removal [OF map_storage_batch_laws _ o e]) simp
  with e show ?thesis by simp
qed

end
