(* ===== verification/Network_Request.thy ===== *)
theory Network_Request
  imports Prelude
begin

text \<open>
  Component core/network: status codes and their error codes (\<open>HttpStatusCode.h\<close>, \<open>ErrorCode.h\<close>,
  \<open>ApiError.h\<close>, \<open>ApiResponse.h\<close>), requests and their configuration (\<open>NetworkRequest.cpp\<close>,
  \<open>NetworkProxy.cpp\<close>, \<open>NetworkConfig.cpp\<close>) and the priority queue of requests
  (\<open>NetworkRequestPriorityQueue.cpp\<close>).

  The time stamp of a request is an argument. A shared pointer to a request context that is never null
  is the context itself; the queue holds contexts by pointer, and \<open>Pop\<close> skips a null pointer, so its
  elements are options. Of the three callbacks of a context only the one for the response is kept, as whether
  it is set; the payload stream and the configuration are passed through and left out. Shown: which codes can be retried; the priority is always an index of the
  queue; \<open>Pop\<close> takes the oldest request of the highest priority; nothing is lost or doubled.
\<close>

section \<open>Status and error codes\<close>

datatype ErrorCode =
  ErrUnknown | ErrCancelled | ErrInvalidArgument | ErrRequestTimeout | ErrInternalFailure | ErrServiceUnavailable
  | ErrAccessDenied | ErrBadRequest | ErrPreconditionFailed | ErrNotFound | ErrSlowDown | ErrNetworkConnection

text \<open>The negative codes of \<open>Network::ErrorCode\<close> and the HTTP codes the switch statements name.\<close>

definition IOError :: int where "IOError = - 1"
definition AuthorizationError :: int where "AuthorizationError = - 2"
definition InvalidURLError :: int where "InvalidURLError = - 3"
definition Offline :: int where "Offline = - 4"
definition NetCancelled :: int where "NetCancelled = - 5"
definition AuthenticationError :: int where "AuthenticationError = - 6"
definition TimedOut :: int where "TimedOut = - 7"
definition UnknownError :: int where "UnknownError = - 8"

lemmas network_codes = IOError_def AuthorizationError_def InvalidURLError_def Offline_def NetCancelled_def
  AuthenticationError_def TimedOut_def UnknownError_def

definition IsRetryableHttpStatusCode :: "int \<Rightarrow> bool" where
  "IsRetryableHttpStatusCode http_code \<longleftrightarrow>
     \<not> http_code < 0 \<and> http_code \<in> {500, 503, 429, 509, 408, 419, 440, 504, 598, 599}"

definition GetErrorForHttpStatusCode :: "int \<Rightarrow> ErrorCode" where
  "GetErrorForHttpStatusCode http_code =
     (if http_code < 0
      then if http_code = Offline \<or> http_code = IOError then ErrNetworkConnection
        else if http_code = TimedOut then ErrRequestTimeout
        else if http_code = NetCancelled then ErrCancelled
        else if http_code = AuthorizationError \<or> http_code = AuthenticationError then ErrAccessDenied
        else if http_code = InvalidURLError then ErrServiceUnavailable
        else ErrUnknown
      else if http_code = 400 then ErrBadRequest
        else if http_code \<in> {401, 403} then ErrAccessDenied
        else if http_code = 404 then ErrNotFound
        else if http_code = 412 then ErrPreconditionFailed
        else if http_code \<in> {429, 509} then ErrSlowDown
        else if http_code = 500 then ErrInternalFailure
        else if http_code = 503 then ErrServiceUnavailable
        else if http_code \<in> {408, 419, 440, 504, 598, 599} then ErrRequestTimeout
        else ErrUnknown)"

record ApiError =
  error_code :: ErrorCode
  http_status_code :: int
  message :: string
  is_retryable :: bool

definition ApiError_default :: ApiError where
  "ApiError_default = \<lparr>error_code = ErrUnknown, http_status_code = UnknownError, message = [], is_retryable = False\<rparr>"

definition ApiError_code :: "ErrorCode \<Rightarrow> string \<Rightarrow> bool \<Rightarrow> ApiError" where
  "ApiError_code code msg retry =
     (let e = \<lparr>error_code = code, http_status_code = UnknownError, message = msg, is_retryable = retry\<rparr>
      in if code = ErrCancelled then e\<lparr>http_status_code := NetCancelled\<rparr> else e)"

definition ApiError_status :: "int \<Rightarrow> string \<Rightarrow> ApiError" where
  "ApiError_status status msg =
     \<lparr>error_code = GetErrorForHttpStatusCode status, http_status_code = status, message = msg,
      is_retryable = IsRetryableHttpStatusCode status\<rparr>"

text \<open>A response with its success flag: the result or the error.\<close>

type_synonym 'r ApiResponse = "ApiError + 'r"

definition IsSuccessful :: "'r ApiResponse \<Rightarrow> bool" where
  "IsSuccessful r \<longleftrightarrow> (case r of Inl _ \<Rightarrow> False | Inr _ \<Rightarrow> True)"

record HttpResponse =
  status :: int
  response :: string

definition HttpResponse_default :: HttpResponse where
  "HttpResponse_default = \<lparr>status = UnknownError, response = []\<rparr>"

section \<open>Proxy and configuration\<close>

datatype ProxyType = ProxyUnknown | ProxyHttp | ProxySocks4 | ProxySocks4A | ProxySocks5 | ProxySocks5Hostname

record NetworkProxy =
  proxy_name :: string
  proxy_port :: u16
  proxy_type :: ProxyType
  proxy_user_name :: string
  proxy_user_password :: string

definition NetworkProxy_default :: NetworkProxy where
  "NetworkProxy_default =
     \<lparr>proxy_name = [], proxy_port = 0, proxy_type = ProxyUnknown, proxy_user_name = [], proxy_user_password = []\<rparr>"

definition NetworkProxy_IsValid :: "NetworkProxy \<Rightarrow> bool" where
  "NetworkProxy_IsValid p \<longleftrightarrow> proxy_type p \<noteq> ProxyUnknown \<and> proxy_name p \<noteq> []"

record NetworkConfig =
  retries :: size_t
  connect_timeout :: int
  transfer_timeout :: int
  skip_content_when_error :: bool
  enable_auto_decompression :: bool
  config_proxy :: NetworkProxy
  network_interface :: string
  ca_cert :: string

definition NetworkConfig_new :: "int \<Rightarrow> int \<Rightarrow> bool \<Rightarrow> size_t \<Rightarrow> bool \<Rightarrow> NetworkConfig" where
  "NetworkConfig_new connect transfer dont_verify_certificate n skip =
     \<lparr>retries = n, connect_timeout = connect, transfer_timeout = transfer,
      skip_content_when_error = skip, enable_auto_decompression = True, config_proxy = NetworkProxy_default,
      network_interface = [], ca_cert = []\<rparr>"

definition NetworkConfig_default :: NetworkConfig where
  "NetworkConfig_default = NetworkConfig_new 60 30 False 3 False"

definition SetTimeouts :: "int \<Rightarrow> int \<Rightarrow> NetworkConfig \<Rightarrow> NetworkConfig" where
  "SetTimeouts connect transfer c = c\<lparr>connect_timeout := connect, transfer_timeout := transfer\<rparr>"

definition SetSkipContentWhenError :: "bool \<Rightarrow> NetworkConfig \<Rightarrow> NetworkConfig" where
  "SetSkipContentWhenError s c = c\<lparr>skip_content_when_error := s\<rparr>"

definition SetRetries :: "size_t \<Rightarrow> NetworkConfig \<Rightarrow> NetworkConfig" where
  "SetRetries n c = c\<lparr>retries := n\<rparr>"

definition SetProxy :: "NetworkProxy \<Rightarrow> NetworkConfig \<Rightarrow> NetworkConfig" where
  "SetProxy p c = c\<lparr>config_proxy := p\<rparr>"

definition SetNetworkInterface :: "string \<Rightarrow> NetworkConfig \<Rightarrow> NetworkConfig" where
  "SetNetworkInterface s c = c\<lparr>network_interface := s\<rparr>"

definition SetCaCert :: "string \<Rightarrow> NetworkConfig \<Rightarrow> NetworkConfig" where
  "SetCaCert s c = c\<lparr>ca_cert := s\<rparr>"

definition EnableAutoDecompression :: "bool \<Rightarrow> NetworkConfig \<Rightarrow> NetworkConfig" where
  "EnableAutoDecompression b c = c\<lparr>enable_auto_decompression := b\<rparr>"

section \<open>Requests\<close>

datatype HttpVerb = GET | POST | HEAD | PUT | DEL | PATCH

definition PriorityMin :: int where "PriorityMin = 0"
definition PriorityDefault :: int where "PriorityDefault = 2"
definition PriorityMax :: int where "PriorityMax = 5"

lemmas priorities = PriorityMin_def PriorityDefault_def PriorityMax_def

record NetworkRequest =
  url :: string
  extra_headers :: "(string \<times> string) list"
  content :: "string option"
  modified_since :: u64
  verb :: HttpVerb
  priority :: int
  ignore_offset :: bool
  get_statistics :: bool
  timestamp :: int

definition SetPriority :: "int \<Rightarrow> NetworkRequest \<Rightarrow> NetworkRequest" where
  "SetPriority p r =
     (if p < PriorityMin then r\<lparr>priority := PriorityMin\<rparr>
      else if p > PriorityMax then r\<lparr>priority := PriorityMax\<rparr>
      else r\<lparr>priority := p\<rparr>)"

definition NetworkRequest_default :: "int \<Rightarrow> NetworkRequest" where
  "NetworkRequest_default now =
     \<lparr>url = [], extra_headers = [], content = None, modified_since = 0, verb = GET, priority = PriorityDefault,
      ignore_offset = False, get_statistics = False, timestamp = now\<rparr>"

definition NetworkRequest_new :: "int \<Rightarrow> string \<Rightarrow> u64 \<Rightarrow> int \<Rightarrow> HttpVerb \<Rightarrow> NetworkRequest" where
  "NetworkRequest_new now u modified prio vrb =
     SetPriority prio (NetworkRequest_default now\<lparr>url := u, modified_since := modified, verb := vrb\<rparr>)"

definition AddHeader :: "string \<Rightarrow> string \<Rightarrow> NetworkRequest \<Rightarrow> NetworkRequest" where
  "AddHeader name value r = r\<lparr>extra_headers := extra_headers r @ [(name, value)]\<rparr>"

definition RemoveHeader :: "(string \<times> string \<Rightarrow> bool) \<Rightarrow> NetworkRequest \<Rightarrow> NetworkRequest" where
  "RemoveHeader condition r = r\<lparr>extra_headers := filter (\<lambda>h. \<not> condition h) (extra_headers r)\<rparr>"

definition RemoveHeaderByName :: "string \<Rightarrow> NetworkRequest \<Rightarrow> NetworkRequest" where
  "RemoveHeaderByName name_to_remove r = RemoveHeader (\<lambda>name_and_value. name_to_remove = fst name_and_value) r"

definition SetUrl :: "string \<Rightarrow> NetworkRequest \<Rightarrow> NetworkRequest" where "SetUrl u r = r\<lparr>url := u\<rparr>"
definition SetVerb :: "HttpVerb \<Rightarrow> NetworkRequest \<Rightarrow> NetworkRequest" where "SetVerb v r = r\<lparr>verb := v\<rparr>"
definition SetContent :: "string option \<Rightarrow> NetworkRequest \<Rightarrow> NetworkRequest" where "SetContent c r = r\<lparr>content := c\<rparr>"
definition SetIgnoreOffset :: "bool \<Rightarrow> NetworkRequest \<Rightarrow> NetworkRequest" where "SetIgnoreOffset b r = r\<lparr>ignore_offset := b\<rparr>"
definition SetStatistics :: "NetworkRequest \<Rightarrow> NetworkRequest" where "SetStatistics r = r\<lparr>get_statistics := True\<rparr>"

section \<open>The priority queue\<close>

text \<open>The array of six deques, indexed by priority.\<close>

record RequestContext =
  rc_request :: NetworkRequest
  rc_id :: int
  rc_callback :: bool

type_synonym NetworkRequestPriorityQueue = "RequestContext option list list"

definition kArraySize :: nat where
  "kArraySize = nat (PriorityMax - PriorityMin + 1)"

definition NetworkRequestPriorityQueue_new :: NetworkRequestPriorityQueue where
  "NetworkRequestPriorityQueue_new = replicate kArraySize []"

text \<open>An index out of the array is undefined behaviour.\<close>

definition Queue_Push :: "RequestContext \<Rightarrow> NetworkRequestPriorityQueue \<Rightarrow> NetworkRequestPriorityQueue option" where
  "Queue_Push ctx q =
     (let i = priority (rc_request ctx)
      in if 0 \<le> i \<and> nat i < length q then Some (q[nat i := q ! nat i @ [Some ctx]]) else None)"

fun Pop_loop :: "nat \<Rightarrow> NetworkRequestPriorityQueue \<Rightarrow> RequestContext option \<times> NetworkRequestPriorityQueue" where
  "Pop_loop i q =
     (case q ! i of
        Some ctx # rest \<Rightarrow> (Some ctx, q[i := rest])
      | _ \<Rightarrow> (case i of 0 \<Rightarrow> (None, q) | Suc j \<Rightarrow> Pop_loop j q))"

declare Pop_loop.simps [simp del]

definition Queue_Pop :: "NetworkRequestPriorityQueue \<Rightarrow> RequestContext option \<times> NetworkRequestPriorityQueue" where
  "Queue_Pop q = Pop_loop (nat PriorityMax) q"

definition Queue_RemoveIf ::
  "(RequestContext option \<Rightarrow> bool) \<Rightarrow> NetworkRequestPriorityQueue \<Rightarrow> RequestContext option list \<times> NetworkRequestPriorityQueue" where
  "Queue_RemoveIf f q = (concat (map (filter f) q), map (filter (\<lambda>c. \<not> f c)) q)"

definition Queue_Size :: "NetworkRequestPriorityQueue \<Rightarrow> size_t" where
  "Queue_Size q = fold (\<lambda>d count. count + of_nat (length d)) q 0"

section \<open>Lemmas\<close>

lemma SetPriority_range: "PriorityMin \<le> priority (SetPriority p r) \<and> priority (SetPriority p r) \<le> PriorityMax"
  by (simp add: SetPriority_def priorities)

text \<open>A queue of the constructor, filled by \<open>Push\<close> only.\<close>

definition queue_ok :: "NetworkRequestPriorityQueue \<Rightarrow> bool" where
  "queue_ok q \<longleftrightarrow> length q = kArraySize \<and>
     (\<forall>i < kArraySize. \<forall>c \<in> set (q ! i). \<exists>ctx. c = Some ctx \<and> priority (rc_request ctx) = int i)"

lemma kArraySize_6: "kArraySize = 6"
  by (simp add: kArraySize_def priorities)

lemma queue_ok_new: "queue_ok NetworkRequestPriorityQueue_new"
  by (simp add: queue_ok_def NetworkRequestPriorityQueue_new_def)

lemma Queue_Push_ok:
  assumes "queue_ok q" "PriorityMin \<le> priority (rc_request ctx)" "priority (rc_request ctx) \<le> PriorityMax"
  shows "\<exists>q'. Queue_Push ctx q = Some q' \<and> queue_ok q'"
  using assms by (auto simp: Queue_Push_def queue_ok_def kArraySize_6 priorities Let_def nth_list_update)

text \<open>The requests in the order of service: highest priority first, oldest first.\<close>

definition queue_items :: "NetworkRequestPriorityQueue \<Rightarrow> RequestContext list" where
  "queue_items q = concat (map (map the) (rev q))"

lemma Pop_loop_front:
  assumes "i < length q" "\<forall>k \<le> i. None \<notin> set (q ! k)"
  shows "(\<forall>k \<le> i. q ! k = []) \<and> Pop_loop i q = (None, q) \<or>
    (\<exists>j x d. j \<le> i \<and> q ! j = Some x # d \<and> (\<forall>k. j < k \<and> k \<le> i \<longrightarrow> q ! k = []) \<and> Pop_loop i q = (Some x, q[j := d]))"
  using assms
proof (induction i)
  case 0
  show ?case
  proof (cases "q ! 0")
    case (Cons a d)
    with 0 obtain x where "a = Some x" by (cases a) auto
    with Cons show ?thesis by (auto simp: Pop_loop.simps [of 0])
  qed (simp add: Pop_loop.simps [of 0])
next
  case (Suc i)
  show ?case
  proof (cases "q ! Suc i")
    case Nil
    then have "Pop_loop (Suc i) q = Pop_loop i q" by (simp add: Pop_loop.simps [of "Suc i"])
    with Suc.IH Suc.prems Nil show ?thesis by (fastforce simp: le_Suc_eq)
  next
    case (Cons a d)
    with Suc.prems obtain x where "a = Some x" by (cases a) auto
    with Cons show ?thesis
      by (intro disjI2 exI [of _ "Suc i"]) (auto simp: Pop_loop.simps [of "Suc i"])
  qed
qed

lemma concat_nth_Nil: "(\<forall>k < length xs. xs ! k = []) \<Longrightarrow> concat (map (map f) (rev xs)) = []"
  by (auto simp: in_set_conv_nth)

lemma queue_items_at:
  assumes "j < length q" "\<forall>k. j < k \<and> k < length q \<longrightarrow> q ! k = []"
  shows "queue_items (q[j := d]) = map the d @ queue_items (take j q)"
proof -
  have "concat (map (map the) (rev (drop (Suc j) q))) = []"
    using assms by (intro concat_nth_Nil) auto
  then show ?thesis using assms by (simp add: queue_items_def upd_conv_take_nth_drop)
qed

lemma Queue_Pop_items:
  assumes "queue_ok q"
  shows "case queue_items q of
      [] \<Rightarrow> Queue_Pop q = (None, q)
    | x # xs \<Rightarrow> \<exists>q'. Queue_Pop q = (Some x, q') \<and> queue_ok q' \<and> queue_items q' = xs"
proof -
  have l: "length q = 6" "nat PriorityMax = 5" using assms by (simp_all add: queue_ok_def kArraySize_6 priorities)
  have n: "\<forall>k \<le> 5. None \<notin> set (q ! k)"
  proof (intro allI impI notI)
    fix k :: nat assume "k \<le> 5" "None \<in> set (q ! k)"
    with assms have "\<exists>ctx. None = Some ctx \<and> priority (rc_request ctx) = int k"
      unfolding queue_ok_def kArraySize_6 by (elim conjE allE [of _ k]) (simp, blast)
    then show False by simp
  qed
  consider (empty) "\<forall>k \<le> 5. q ! k = []" "Pop_loop 5 q = (None, q)"
    | (front) j x d where "j \<le> 5" "q ! j = Some x # d" "\<forall>k. j < k \<and> k \<le> 5 \<longrightarrow> q ! k = []" "Pop_loop 5 q = (Some x, q[j := d])"
    using Pop_loop_front [OF _ n] l(1) by fastforce
  then show ?thesis
  proof cases
    case empty
    then have "queue_items q = []" using l unfolding queue_items_def by (intro concat_nth_Nil) auto
    with empty l show ?thesis by (simp add: Queue_Pop_def)
  next
    case front
    have "queue_items q = x # map the d @ queue_items (take j q)"
      using queue_items_at [of j q "q ! j"] front(1-3) l unfolding list_update_id by auto
    moreover have "queue_items (q[j := d]) = map the d @ queue_items (take j q)"
      using queue_items_at [of j q d] front l by auto
    moreover have "queue_ok (q[j := d])"
      using assms front l by (fastforce simp: queue_ok_def nth_list_update)
    ultimately show ?thesis using front l by (simp add: Queue_Pop_def)
  qed
qed

text \<open>The position of a pushed request: behind its priority, before the lower ones.\<close>

lemma queue_items_push:
  assumes "queue_ok q" "Queue_Push ctx q = Some q'"
  shows "queue_items q' = filter (\<lambda>c. priority (rc_request c) \<ge> priority (rc_request ctx)) (queue_items q) @
    ctx # filter (\<lambda>c. priority (rc_request c) < priority (rc_request ctx)) (queue_items q)"
proof -
  let ?i = "nat (priority (rc_request ctx))"
  have i: "0 \<le> priority (rc_request ctx)" "?i < length q" "q' = q[?i := q ! ?i @ [Some ctx]]"
    using assms(2) by (auto simp: Queue_Push_def Let_def split: if_splits)
  have prio: "priority (rc_request c) = int k" if "k < length q" "c \<in> set (map the (q ! k))" for k c
    using assms(1) that by (fastforce simp: queue_ok_def)
  have hi: "priority (rc_request c) > priority (rc_request ctx)" if c: "c \<in> set (concat (map (map the) (rev (drop (Suc ?i) q))))" for c
  proof -
    obtain d where d: "d \<in> set (drop (Suc ?i) q)" "c \<in> set (map the d)" using c by auto
    then obtain k where "k < length q - Suc ?i" "d = q ! (Suc ?i + k)"
      by (metis add.commute in_set_conv_nth length_drop nat_le_linear not_add_less1 nth_drop drop_all empty_iff list.set(1))
    with prio [of "Suc ?i + k" c] d(2) show ?thesis using i(1) by auto
  qed
  have lo: "priority (rc_request c) < priority (rc_request ctx)" if c: "c \<in> set (concat (map (map the) (rev (take ?i q))))" for c
  proof -
    obtain d where d: "d \<in> set (take ?i q)" "c \<in> set (map the d)" using c by auto
    then obtain k where "k < ?i" "d = q ! k" by (auto simp: in_set_conv_nth)
    with prio [of k c] d(2) show ?thesis using i by fastforce
  qed
  have eq: "priority (rc_request c) = priority (rc_request ctx)" if "c \<in> set (map the (q ! ?i))" for c
    using prio [OF i(2) that] i(1) by simp
  have q: "rev q = rev (drop (Suc ?i) q) @ [q ! ?i] @ rev (take ?i q)"
    using id_take_nth_drop [OF i(2)] by (metis append_assoc rev.simps(2) rev_append append_Cons append_Nil)
  have q': "rev q' = rev (drop (Suc ?i) q) @ [q ! ?i @ [Some ctx]] @ rev (take ?i q)"
    using i by (simp add: upd_conv_take_nth_drop)
  let ?H = "concat (map (map the) (rev (drop (Suc ?i) q)))" and ?L = "concat (map (map the) (rev (take ?i q)))"
  let ?ge = "\<lambda>c. priority (rc_request c) \<ge> priority (rc_request ctx)"
  let ?lt = "\<lambda>c. priority (rc_request c) < priority (rc_request ctx)"
  have "filter ?ge ?H = ?H" by (intro filter_True ballI) (drule hi, simp)
  moreover have "filter ?lt ?H = []" by (intro filter_False ballI) (drule hi, simp)
  moreover have "filter ?ge ?L = []" by (intro filter_False ballI) (drule lo, simp)
  moreover have "filter ?lt ?L = ?L" by (intro filter_True ballI) (drule lo, simp)
  moreover have "filter ?ge (map the (q ! ?i)) = map the (q ! ?i)" by (intro filter_True ballI) (drule eq, simp)
  moreover have "filter ?lt (map the (q ! ?i)) = []" by (intro filter_False ballI) (drule eq, simp)
  ultimately show ?thesis by (simp add: queue_items_def q q')
qed

lemma Queue_RemoveIf_ok:
  assumes "queue_ok q"
  shows "queue_ok (snd (Queue_RemoveIf f q))"
    "queue_items (snd (Queue_RemoveIf f q)) = filter (\<lambda>c. \<not> f (Some c)) (queue_items q)"
    "set (fst (Queue_RemoveIf f q)) = Some ` {c \<in> set (queue_items q). f (Some c)}"
proof -
  have n: "\<exists>ctx. c = Some ctx" if "d \<in> set q" "c \<in> set d" for c d
    using assms that by (metis in_set_conv_nth queue_ok_def)
  show "queue_ok (snd (Queue_RemoveIf f q))"
    using assms by (auto simp: queue_ok_def Queue_RemoveIf_def)
  have m: "map the (filter (\<lambda>c. \<not> f c) d) = filter (\<lambda>c. \<not> f (Some c)) (map the d)" if "d \<in> set q" for d
  proof -
    have "filter (\<lambda>c. \<not> f (Some (the c))) d = filter (\<lambda>c. \<not> f c) d"
      using n [OF that] by (intro filter_cong) force+
    then show ?thesis by (simp add: filter_map comp_def)
  qed
  have "map (map the) (map (filter (\<lambda>c. \<not> f c)) (rev q)) = map (filter (\<lambda>c. \<not> f (Some c))) (map (map the) (rev q))"
    using m by simp
  then show "queue_items (snd (Queue_RemoveIf f q)) = filter (\<lambda>c. \<not> f (Some c)) (queue_items q)"
    by (simp only: queue_items_def Queue_RemoveIf_def filter_concat rev_map snd_conv)
  show "set (fst (Queue_RemoveIf f q)) = Some ` {c \<in> set (queue_items q). f (Some c)}"
    using n by (fastforce simp: Queue_RemoveIf_def queue_items_def image_iff)
qed

section \<open>Properties\<close>

text \<open>A response can be retried exactly when its error is a timeout, an overload, an internal failure or an
  unavailable service that the server reported; no error of the network layer itself can.\<close>

theorem retryable_errors:
  "is_retryable (ApiError_status code msg) \<longleftrightarrow>
     code \<ge> 0 \<and> error_code (ApiError_status code msg) \<in> {ErrRequestTimeout, ErrSlowDown, ErrInternalFailure, ErrServiceUnavailable}"
  by (simp add: ApiError_status_def IsRetryableHttpStatusCode_def GetErrorForHttpStatusCode_def)

text \<open>A request queued with any priority comes out after the requests of its or a higher priority that were
  queued before it, and before every lower one; the index into the array is always in range.\<close>

theorem priority_queue_order:
  assumes "queue_ok q" "rc_request ctx = SetPriority p r"
  shows "\<exists>q'. Queue_Push ctx q = Some q' \<and> queue_ok q' \<and>
    queue_items q' = filter (\<lambda>c. priority (rc_request c) \<ge> priority (rc_request ctx)) (queue_items q) @
      ctx # filter (\<lambda>c. priority (rc_request c) < priority (rc_request ctx)) (queue_items q) \<and>
    (\<exists>q''. Queue_Pop q' = (Some (hd (queue_items q')), q'') \<and> queue_ok q'' \<and> queue_items q'' = tl (queue_items q'))"
proof -
  obtain q' where q': "Queue_Push ctx q = Some q'" "queue_ok q'"
    using Queue_Push_ok [OF assms(1)] SetPriority_range [of p r] assms(2) by metis
  have "queue_items q' \<noteq> []" using queue_items_push [OF assms(1) q'(1)] by simp
  then obtain x xs where "queue_items q' = x # xs" by (cases "queue_items q'") auto
  with Queue_Pop_items [OF q'(2)] have "\<exists>q''. Queue_Pop q' = (Some (hd (queue_items q')), q'') \<and>
    queue_ok q'' \<and> queue_items q'' = tl (queue_items q')" by auto
  with q' queue_items_push [OF assms(1) q'(1)] show ?thesis by blast
qed

theorem priority_queue_order_witness:
  "\<exists>q'. Queue_Push \<lparr>rc_request = SetPriority 9 (NetworkRequest_default 0), rc_id = 1, rc_callback = True\<rparr> NetworkRequestPriorityQueue_new = Some q' \<and>
     queue_ok q' \<and> length (queue_items q') = 1"
proof -
  have i: "queue_items NetworkRequestPriorityQueue_new = []"
    by (simp add: queue_items_def NetworkRequestPriorityQueue_new_def)
  from priority_queue_order [OF queue_ok_new, of "\<lparr>rc_request = SetPriority 9 (NetworkRequest_default 0), rc_id = 1, rc_callback = True\<rparr>" 9 "NetworkRequest_default 0"]
  show ?thesis by (auto simp: i)
qed

end
