(* ===== verification/Network_Queue.thy ===== *)
theory Network_Queue
  imports Network_Request "HOL-Library.Multiset"
begin

text \<open>
  Component core/network: \<open>NetworkRequestPriorityQueueDecorator\<close>, which queues requests in front of a
  network protocol, in groups with a quota each, and \<open>HandleSynchronousNetworkErrors\<close> of
  \<open>NetworkProtocol.cpp\<close>.

  The decorated protocol is outside the model: what it answers to \<open>Ready\<close>, \<open>Send\<close> and \<open>Cancel\<close> is an
  argument of the operations, and it calls the callback of a request that it took at most once. The
  steps of the sender thread, of callers and of the protocol's callbacks interleave; a step is what runs
  under one lock. The sender pops a request and locks \<open>cancel_mutex_\<close> in two steps. Recording the
  network event of a response is left out.

  Shown: the array of the priority queue is never indexed out of range, the requests in flight of a group
  never exceed its quota, no request is lost or answered twice, and a request that the protocol is not
  ready for takes a place of the quota away for good.
\<close>

section \<open>Responses and errors\<close>

datatype ProtocolError =
  ErrorNone | ErrorIO | ErrorNotReady | ErrorNoConnection | ErrorInvalidRequest | ErrorFailedBindInterface
  | ErrorNetworkInterfaceOptionNotImplemented | ErrorNetworkOverload | ErrorFailedSetCaCert | ErrorCaCertOptionNotImplemented

record NetworkResponse =
  nr_id :: int
  nr_cancelled :: bool
  nr_status :: int
  nr_error :: string
  nr_max_age :: int
  nr_expires :: time_t
  nr_etag :: string
  nr_content_type :: string
  nr_payload_size :: u64
  nr_payload_offset :: u64
  nr_payload :: "string option"
  nr_statistics :: "(string \<times> string) list"

definition NetworkResponse_new :: "int \<Rightarrow> int \<Rightarrow> string \<Rightarrow> NetworkResponse" where
  "NetworkResponse_new i st err =
     \<lparr>nr_id = i, nr_cancelled = False, nr_status = st, nr_error = err, nr_max_age = 0, nr_expires = 0, nr_etag = [],
      nr_content_type = [], nr_payload_size = 0, nr_payload_offset = 0, nr_payload = None, nr_statistics = []\<rparr>"

definition HttpErrorToString :: "int \<Rightarrow> string" where
  "HttpErrorToString error =
     (case map_of
        [(100, ''Continue''), (101, ''Switching Protocols''), (200, ''OK''), (201, ''Created''), (202, ''Accepted''),
         (203, ''Non-Authoritative Information''), (204, ''No Content''), (205, ''Reset Content''),
         (206, ''Partial Content''), (300, ''Multiple Choices''), (301, ''Moved Permanently''), (302, ''Found''),
         (303, ''See Other''), (304, ''Not Modified''), (305, ''Use Proxy''), (307, ''Temporary Redirect''),
         (400, ''Bad Request''), (401, ''Unauthorized''), (402, ''Payment Required''), (403, ''Forbidden''),
         (404, ''Not Found''), (405, ''Method Not Allowed''), (406, ''Not Acceptable''),
         (407, ''Proxy Authentication Required''), (408, ''Request Timeout''), (409, ''Conflict''), (410, ''Gone''),
         (411, ''Length Required''), (412, ''Precondition Failed''), (413, ''Request Entity Too Large''),
         (414, ''Request-URI Too Long''), (415, ''Unsupported Media Type''),
         (416, ''Requested Range Not Satisfiable''), (417, ''Expectation Failed''), (500, ''Internal Server Error''),
         (501, ''Not Implementation''), (502, ''Bad gateway''), (503, ''Service Unavailable''),
         (504, ''Gateway Timeout''), (505, ''HTTP Version Not Supported'')] error
      of Some s \<Rightarrow> s | None \<Rightarrow> ''Unknown Error'')"

text \<open>The response the callback gets.\<close>

definition HandleSynchronousNetworkErrors :: "ProtocolError \<Rightarrow> int \<Rightarrow> NetworkResponse" where
  "HandleSynchronousNetworkErrors code request_id =
     (if code = ErrorInvalidRequest then NetworkResponse_new request_id InvalidURLError ''Invalid Request''
      else if code = ErrorNoConnection then NetworkResponse_new request_id Offline ''Offline''
      else if code = ErrorIO then NetworkResponse_new request_id IOError ''I/O Error''
      else NetworkResponse_new request_id UnknownError ''Unknown error'')"

section \<open>The decorator\<close>

record QuotaQueue =
  qq_queue :: NetworkRequestPriorityQueue
  quota :: size_t
  selector :: "NetworkRequest \<Rightarrow> bool"
  counter :: size_t

text \<open>Where the sender thread is: at the head of its loop, at a queue, with a request popped from a queue, in
  one of its two waits, or ended.\<close>

datatype sender = AtHead | Visit nat | Popped nat RequestContext | WaitReady | WaitAll | Ended

text \<open>\<open>in_flight\<close> holds the requests the protocol took, with the index of their queue; \<open>calls\<close> are the calls
  of callbacks so far.\<close>

record Decorator =
  queues :: "QuotaQueue list"
  in_flight :: "(nat \<times> RequestContext) list"
  signal :: bool
  stop_thread :: bool
  sender :: sender
  calls :: "(RequestContext \<times> NetworkResponse) list"

definition AddQuotaGroup :: "size_t \<Rightarrow> (NetworkRequest \<Rightarrow> bool) \<Rightarrow> QuotaQueue list \<Rightarrow> QuotaQueue list" where
  "AddQuotaGroup n request_filter qs =
     qs @ [\<lparr>qq_queue = NetworkRequestPriorityQueue_new, quota = n, selector = request_filter, counter = 0\<rparr>]"

definition AddDefaultQuotaGroup :: "size_t \<Rightarrow> QuotaQueue list \<Rightarrow> QuotaQueue list" where
  "AddDefaultQuotaGroup n qs = AddQuotaGroup n (\<lambda>_. True) qs"

definition Decorator_new :: "size_t \<Rightarrow> (size_t \<times> (NetworkRequest \<Rightarrow> bool)) list \<Rightarrow> Decorator" where
  "Decorator_new default_quota_group_size queue_configs =
     \<lparr>queues = fold (\<lambda>config. AddQuotaGroup (fst config) (snd config)) queue_configs
        (AddDefaultQuotaGroup default_quota_group_size []),
      in_flight = [], signal = False, stop_thread = False, sender = AtHead, calls = []\<rparr>"

definition Decorator_stop :: "Decorator \<Rightarrow> Decorator" where
  "Decorator_stop d = d\<lparr>stop_thread := True, signal := True\<rparr>"

text \<open>The queues are tried from the last to the first.\<close>

fun select_queue :: "nat \<Rightarrow> QuotaQueue list \<Rightarrow> NetworkRequest \<Rightarrow> nat option" where
  "select_queue 0 qs r = None"
| "select_queue (Suc i) qs r = (if selector (qs ! i) r then Some i else select_queue i qs r)"

definition Decorator_Send :: "Decorator \<Rightarrow> RequestContext \<Rightarrow> (ProtocolError \<times> Decorator) option" where
  "Decorator_Send d ctx =
     (case select_queue (length (queues d)) (queues d) (rc_request ctx) of
        None \<Rightarrow> Some (ErrorNetworkOverload, d)
      | Some i \<Rightarrow> map_option (\<lambda>q. (ErrorNone, d\<lparr>queues := (queues d)[i := (queues d ! i)\<lparr>qq_queue := q\<rparr>], signal := True\<rparr>))
          (Queue_Push ctx (qq_queue (queues d ! i))))"

definition call_back :: "RequestContext \<Rightarrow> NetworkResponse \<Rightarrow> Decorator \<Rightarrow> Decorator" where
  "call_back ctx r d = (if rc_callback ctx then d\<lparr>calls := calls d @ [(ctx, r)]\<rparr> else d)"

definition cancelled_response :: "RequestContext \<Rightarrow> NetworkResponse" where
  "cancelled_response ctx =
     \<lparr>nr_id = rc_id ctx, nr_cancelled = True, nr_status = NetCancelled, nr_error = ''Cancelled'', nr_max_age = 0,
      nr_expires = - 1, nr_etag = [], nr_content_type = [], nr_payload_size = 0, nr_payload_offset = 0,
      nr_payload = None, nr_statistics = []\<rparr>"

text \<open>\<open>any_of\<close> ends at the first queue that had the request.\<close>

fun remove_pending :: "int \<Rightarrow> QuotaQueue list \<Rightarrow> RequestContext option list \<times> QuotaQueue list" where
  "remove_pending i [] = ([], [])"
| "remove_pending i (qq # qqs) =
     (let (removed, q) = Queue_RemoveIf (\<lambda>ptr. rc_id (the ptr) = i) (qq_queue qq)
      in if removed \<noteq> [] then (removed, qq\<lparr>qq_queue := q\<rparr> # qqs)
         else let (rs, qqs') = remove_pending i qqs in (rs, qq\<lparr>qq_queue := q\<rparr> # qqs'))"

definition CancelIfPending :: "Decorator \<Rightarrow> int \<Rightarrow> bool \<times> Decorator" where
  "CancelIfPending d i =
     (let (removed, qs) = remove_pending i (queues d)
      in (removed \<noteq> [], fold (\<lambda>ptr. call_back (the ptr) (cancelled_response (the ptr))) removed (d\<lparr>queues := qs\<rparr>)))"

definition Decorator_Cancel :: "bool \<Rightarrow> Decorator \<Rightarrow> int \<Rightarrow> bool \<times> Decorator" where
  "Decorator_Cancel protocol_cancels d i =
     (let (was_removed_from_queue, d1) = CancelIfPending d i
      in if was_removed_from_queue then (True, d1)
         else if \<not> protocol_cancels then (False, d1)
         else (True, d1\<lparr>signal := True\<rparr>))"

definition count_queue :: "(size_t \<Rightarrow> size_t) \<Rightarrow> nat \<Rightarrow> Decorator \<Rightarrow> Decorator" where
  "count_queue f i d = d\<lparr>queues := (queues d)[i := (queues d ! i)\<lparr>counter := f (counter (queues d ! i))\<rparr>]\<rparr>"

text \<open>\<open>SendRequest\<close>, with the code the protocol returns from \<open>Send\<close>.\<close>

definition SendRequest :: "ProtocolError \<Rightarrow> Decorator \<Rightarrow> nat \<Rightarrow> RequestContext \<Rightarrow> Decorator option" where
  "SendRequest code d i ctx =
     (let d1 = count_queue (\<lambda>n. n + 1) i d
      in if code = ErrorNone then Some (d1\<lparr>in_flight := in_flight d1 @ [(i, ctx)]\<rparr>)
         else if code = ErrorNotReady
         then map_option (\<lambda>q. d1\<lparr>queues := (queues d1)[i := (queues d1 ! i)\<lparr>qq_queue := q\<rparr>]\<rparr>)
                (Queue_Push ctx (qq_queue (queues d1 ! i)))
         else Some ((count_queue (\<lambda>n. n - 1) i
                (call_back ctx (HandleSynchronousNetworkErrors code (rc_id ctx)) d1))\<lparr>signal := True\<rparr>))"

text \<open>The callback that \<open>SendRequest\<close> hands to the protocol.\<close>

definition on_response :: "Decorator \<Rightarrow> nat \<Rightarrow> RequestContext \<Rightarrow> NetworkResponse \<Rightarrow> Decorator" where
  "on_response d i ctx r = (count_queue (\<lambda>n. n - 1) i (call_back ctx r d))\<lparr>signal := True\<rparr>"

text \<open>One visit of the lambda of \<open>all_of\<close>.\<close>

definition visit_queue :: "bool \<Rightarrow> Decorator \<Rightarrow> nat \<Rightarrow> Decorator" where
  "visit_queue protocol_ready d i =
     (if \<not> protocol_ready then d\<lparr>sender := WaitReady\<rparr>
      else if counter (queues d ! i) \<ge> quota (queues d ! i) then d\<lparr>sender := Visit (Suc i)\<rparr>
      else let (request_ptr, q) = Queue_Pop (qq_queue (queues d ! i));
               d1 = d\<lparr>queues := (queues d)[i := (queues d ! i)\<lparr>qq_queue := q\<rparr>]\<rparr>
           in case request_ptr of
                Some ctx \<Rightarrow> d1\<lparr>sender := Popped i ctx\<rparr>
              | None \<Rightarrow> d1\<lparr>sender := Visit (Suc i)\<rparr>)"

text \<open>A step, with the requests it accepted.\<close>

inductive dec_step :: "Decorator \<Rightarrow> RequestContext list \<Rightarrow> Decorator \<Rightarrow> bool" where
  loop: "sender d = AtHead \<Longrightarrow> dec_step d [] (d\<lparr>sender := (if stop_thread d then Ended else Visit 0)\<rparr>)"
| visit: "sender d = Visit i \<Longrightarrow> i < length (queues d) \<Longrightarrow> dec_step d [] (visit_queue protocol_ready d i)"
| visited: "sender d = Visit i \<Longrightarrow> \<not> i < length (queues d) \<Longrightarrow> dec_step d [] (d\<lparr>sender := WaitAll\<rparr>)"
| deliver: "sender d = Popped i ctx \<Longrightarrow> SendRequest code d i ctx = Some d' \<Longrightarrow> dec_step d [] (d'\<lparr>sender := AtHead\<rparr>)"
| wake: "sender d = WaitReady \<or> sender d = WaitAll \<Longrightarrow> signal d \<Longrightarrow> dec_step d [] (d\<lparr>signal := False, sender := AtHead\<rparr>)"
| request: "PriorityMin \<le> priority (rc_request ctx) \<Longrightarrow> priority (rc_request ctx) \<le> PriorityMax \<Longrightarrow>
    Decorator_Send d ctx = Some (code, d') \<Longrightarrow> dec_step d (if code = ErrorNone then [ctx] else []) d'"
| cancel: "dec_step d [] (snd (Decorator_Cancel protocol_cancels d k))"
| respond: "in_flight d = xs @ (i, ctx) # ys \<Longrightarrow> dec_step d [] (on_response (d\<lparr>in_flight := xs @ ys\<rparr>) i ctx r)"
| stop: "dec_step d [] (Decorator_stop d)"

section \<open>The invariant\<close>

definition flying :: "Decorator \<Rightarrow> nat \<Rightarrow> nat" where
  "flying d i = length (filter (\<lambda>x. fst x = i) (in_flight d))"

definition prio_ok :: "RequestContext \<Rightarrow> bool" where
  "prio_ok ctx \<longleftrightarrow> PriorityMin \<le> priority (rc_request ctx) \<and> priority (rc_request ctx) \<le> PriorityMax"

definition qq_ok :: "nat \<Rightarrow> QuotaQueue \<Rightarrow> bool" where
  "qq_ok n qq \<longleftrightarrow> queue_ok (qq_queue qq) \<and> n \<le> unat (counter qq) \<and> counter qq \<le> quota qq"

definition dec_ok :: "Decorator \<Rightarrow> bool" where
  "dec_ok d \<longleftrightarrow>
     (\<forall>i < length (queues d). qq_ok (flying d i) (queues d ! i)) \<and>
     (\<forall>x \<in> set (in_flight d). fst x < length (queues d)) \<and>
     (\<forall>i ctx. sender d = Popped i ctx \<longrightarrow> i < length (queues d) \<and> prio_ok ctx \<and>
        counter (queues d ! i) < quota (queues d ! i))"

lemma queue_ok_prio: "queue_ok q \<Longrightarrow> ctx \<in> set (queue_items q) \<Longrightarrow> prio_ok ctx"
  by (fastforce simp: queue_ok_def queue_items_def prio_ok_def kArraySize_6 priorities in_set_conv_nth [of _ q])

lemma count_queue_simps [simp]:
  "in_flight (count_queue f i d) = in_flight d" "signal (count_queue f i d) = signal d"
  "sender (count_queue f i d) = sender d" "calls (count_queue f i d) = calls d"
  "length (queues (count_queue f i d)) = length (queues d)" "stop_thread (count_queue f i d) = stop_thread d"
  by (simp_all add: count_queue_def)

lemma call_back_simps [simp]:
  "in_flight (call_back c r d) = in_flight d" "queues (call_back c r d) = queues d" "sender (call_back c r d) = sender d"
  "signal (call_back c r d) = signal d" "stop_thread (call_back c r d) = stop_thread d"
  by (simp_all add: call_back_def)

lemma Pop_ok:
  assumes "queue_ok q" "Queue_Pop q = (r, q')"
  shows "queue_ok q'" "r = Some ctx \<Longrightarrow> prio_ok ctx"
    "mset (queue_items q) = mset (queue_items q') + (case r of None \<Rightarrow> {#} | Some c \<Rightarrow> {#c#})"
  using Queue_Pop_items [OF assms(1)] assms queue_ok_prio [OF assms(1)]
  by (auto split: list.splits)

text \<open>What a step on one queue must respect.\<close>

lemma dec_ok_update:
  assumes "dec_ok d" "i < length (queues d)" "qq_ok (flying d' i) qq"
    and q: "queues d' = (queues d)[i := qq]" and f: "\<And>k. k \<noteq> i \<Longrightarrow> flying d' k = flying d k"
    and fl: "\<And>x. x \<in> set (in_flight d') \<Longrightarrow> fst x = i \<or> x \<in> set (in_flight d)"
    and s: "\<And>k ctx. sender d' = Popped k ctx \<Longrightarrow> k < length (queues d) \<and> prio_ok ctx \<and> counter (queues d' ! k) < quota (queues d' ! k)"
  shows "dec_ok d'"
proof -
  have "qq_ok (flying d' k) (queues d' ! k)" if "k < length (queues d')" for k
    using assms(1-3) that f [of k] by (cases "k = i") (simp_all add: dec_ok_def q)
  moreover have "fst x < length (queues d')" if "x \<in> set (in_flight d')" for x
    using fl [OF that] assms(1,2) by (auto simp: dec_ok_def q)
  ultimately show ?thesis using s by (auto simp: dec_ok_def q)
qed

lemma dec_okD: "dec_ok d \<Longrightarrow> i < length (queues d) \<Longrightarrow> qq_ok (flying d i) (queues d ! i)"
  by (simp add: dec_ok_def)

lemma dec_ok_fields [simp]:
  "dec_ok (d\<lparr>signal := b\<rparr>) = dec_ok d" "dec_ok (d\<lparr>calls := c\<rparr>) = dec_ok d" "dec_ok (d\<lparr>stop_thread := b\<rparr>) = dec_ok d"
  "dec_ok (d\<lparr>signal := b, sender := w\<rparr>) = dec_ok (d\<lparr>sender := w\<rparr>)"
  "dec_ok (d\<lparr>calls := c, sender := w\<rparr>) = dec_ok (d\<lparr>sender := w\<rparr>)"
  by (simp_all add: dec_ok_def flying_def)

lemma dec_ok_sender: "dec_ok d \<Longrightarrow> (\<And>k c. w \<noteq> Popped k c) \<Longrightarrow> dec_ok (d\<lparr>sender := w\<rparr>)"
  by (simp add: dec_ok_def flying_def)

lemma visit_ok:
  assumes "dec_ok d" "i < length (queues d)" shows "dec_ok (visit_queue rdy d i)"
proof (cases "\<not> rdy \<or> counter (queues d ! i) \<ge> quota (queues d ! i)")
  case True
  with assms show ?thesis by (auto simp: visit_queue_def dec_ok_def flying_def)
next
  case False
  obtain r q where p: "Queue_Pop (qq_queue (queues d ! i)) = (r, q)" by fastforce
  have qq: "qq_ok (flying d i) (queues d ! i)" using assms by (rule dec_okD)
  then have "queue_ok (qq_queue (queues d ! i))" by (simp add: qq_ok_def)
  note P = Pop_ok [OF this p]
  let ?s = "case r of Some ctx \<Rightarrow> Popped i ctx | None \<Rightarrow> Visit (Suc i)"
  have "visit_queue rdy d i = d\<lparr>queues := (queues d)[i := (queues d ! i)\<lparr>qq_queue := q\<rparr>], sender := ?s\<rparr>"
    using False p by (auto simp: visit_queue_def split: option.split)
  moreover have "dec_ok (d\<lparr>queues := (queues d)[i := (queues d ! i)\<lparr>qq_queue := q\<rparr>], sender := ?s\<rparr>)"
    using qq P False assms(2)
    by (intro dec_ok_update [OF assms]) (auto simp: flying_def qq_ok_def split: option.splits)
  ultimately show ?thesis by simp
qed

lemma counter_inc:
  fixes a b :: size_t
  assumes "a < b" shows "unat (a + 1) = unat a + 1" "a + 1 \<le> b" "a + 1 - 1 = a"
proof -
  have "unat a + 1 < 2 ^ LENGTH(64)" using assms unsigned_less [of b, where ?'a = nat] by (simp add: word_less_nat_alt)
  then show "unat (a + 1) = unat a + 1" by (simp add: unat_word_ariths)
  with assms show "a + 1 \<le> b" by (simp add: word_less_nat_alt word_le_nat_alt)
qed simp

lemma counter_dec:
  fixes a b :: size_t
  assumes "0 < unat a" "a \<le> b" shows "unat (a - 1) = unat a - 1" "a - 1 < b"
proof -
  have "1 \<le> a" using assms(1) by (simp add: word_le_nat_alt)
  then show u: "unat (a - 1) = unat a - 1" by (simp add: unat_sub)
  with assms show "a - 1 < b" by (simp add: word_less_nat_alt word_le_nat_alt)
qed

lemma SendRequest_ok:
  assumes "dec_ok d" "sender d = Popped i ctx"
  shows "\<exists>d'. SendRequest code d i ctx = Some d' \<and> dec_ok (d'\<lparr>sender := AtHead\<rparr>)"
proof -
  let ?qq = "queues d ! i"
  have i: "i < length (queues d)" "prio_ok ctx" "counter ?qq < quota ?qq"
    using assms by (simp_all add: dec_ok_def)
  have qq: "qq_ok (flying d i) ?qq" using assms(1) i(1) by (rule dec_okD)
  note c = counter_inc [OF i(3)]
  have "queue_ok (qq_queue ?qq)" using qq by (simp add: qq_ok_def)
  then obtain q where q: "Queue_Push ctx (qq_queue ?qq) = Some q" "queue_ok q"
    using Queue_Push_ok i(2) by (auto simp: prio_ok_def)
  have "dec_ok (d\<lparr>queues := (queues d)[i := ?qq\<lparr>counter := counter ?qq + 1\<rparr>], in_flight := in_flight d @ [(i, ctx)], sender := AtHead\<rparr>)"
    using qq c i by (intro dec_ok_update [OF assms(1) i(1)]) (auto simp: flying_def qq_ok_def)
  moreover have "dec_ok (d\<lparr>queues := (queues d)[i := ?qq\<lparr>counter := counter ?qq + 1, qq_queue := q\<rparr>], sender := AtHead\<rparr>)"
    using qq c i q by (intro dec_ok_update [OF assms(1) i(1)]) (auto simp: flying_def qq_ok_def)
  moreover have "dec_ok (d\<lparr>sender := AtHead\<rparr>)"
    using assms(1) by (rule dec_ok_sender) simp
  ultimately show ?thesis
    using q i by (auto simp: SendRequest_def count_queue_def call_back_def Let_def)
qed

lemma select_queue_less: "select_queue n qs r = Some k \<Longrightarrow> k < n"
  by (induction n) (auto split: if_splits)

lemma Send_ok:
  assumes "dec_ok d" "prio_ok ctx"
  shows "\<exists>code d'. Decorator_Send d ctx = Some (code, d') \<and> dec_ok d'"
proof (cases "select_queue (length (queues d)) (queues d) (rc_request ctx)")
  case None
  with assms show ?thesis by (simp add: Decorator_Send_def)
next
  case (Some i)
  then have i: "i < length (queues d)" by (rule select_queue_less)
  have qq: "qq_ok (flying d i) (queues d ! i)" using assms(1) i by (rule dec_okD)
  then obtain q where q: "Queue_Push ctx (qq_queue (queues d ! i)) = Some q" "queue_ok q"
    using Queue_Push_ok assms(2) by (auto simp: prio_ok_def qq_ok_def)
  have "dec_ok (d\<lparr>queues := (queues d)[i := (queues d ! i)\<lparr>qq_queue := q\<rparr>], signal := True\<rparr>)"
    using qq q i assms(1) by (intro dec_ok_update [OF assms(1) i]) (auto simp: flying_def qq_ok_def dec_ok_def nth_list_update)
  with Some q show ?thesis by (simp add: Decorator_Send_def)
qed

lemma fold_call_back_simps [simp]:
  "queues (fold (\<lambda>p. call_back (f p) (g p)) ps d) = queues d" "in_flight (fold (\<lambda>p. call_back (f p) (g p)) ps d) = in_flight d"
  "sender (fold (\<lambda>p. call_back (f p) (g p)) ps d) = sender d"
  by (induction ps arbitrary: d) simp_all

lemma remove_pending_ok:
  assumes "remove_pending i qs = (rs, qs')" "\<forall>k < length qs. qq_ok (n k) (qs ! k)"
  shows "length qs' = length qs \<and> (\<forall>k < length qs. qq_ok (n k) (qs' ! k) \<and> counter (qs' ! k) = counter (qs ! k) \<and> quota (qs' ! k) = quota (qs ! k))"
  using assms
proof (induction qs arbitrary: rs qs' n)
  case (Cons qq qs)
  obtain r q where r: "Queue_RemoveIf (\<lambda>ptr. rc_id (the ptr) = i) (qq_queue qq) = (r, q)" by fastforce
  obtain rs' qs'' where rs: "remove_pending i qs = (rs', qs'')" by fastforce
  have qq: "qq_ok (n 0) qq" and t: "\<forall>k < length qs. qq_ok (n (Suc k)) (qs ! k)" using Cons.prems(2) by force+
  have "queue_ok q" using Queue_RemoveIf_ok(1) [of "qq_queue qq" "\<lambda>ptr. rc_id (the ptr) = i"] qq r by (simp add: qq_ok_def)
  then have "qq_ok (n 0) (qq\<lparr>qq_queue := q\<rparr>)" using qq by (simp add: qq_ok_def)
  with Cons.IH [OF rs t] t Cons.prems(1) r rs show ?case
    by (auto simp: nth_Cons split: if_splits nat.splits)
qed simp

lemma CancelIfPending_ok: "dec_ok d \<Longrightarrow> dec_ok (snd (CancelIfPending d i))"
proof -
  assume d: "dec_ok d"
  obtain rs qs where r: "remove_pending i (queues d) = (rs, qs)" by fastforce
  have "dec_ok (d\<lparr>queues := qs\<rparr>)"
    using remove_pending_ok [OF r, of "flying d"] d by (auto simp: dec_ok_def flying_def)
  then show ?thesis using r by (simp add: CancelIfPending_def dec_ok_def flying_def)
qed

lemma Decorator_Cancel_ok: "dec_ok d \<Longrightarrow> dec_ok (snd (Decorator_Cancel c d i))"
  using CancelIfPending_ok [of d i]
  by (auto simp: Decorator_Cancel_def Let_def split: prod.splits)

lemma respond_ok:
  assumes "dec_ok d" "in_flight d = xs @ (i, ctx) # ys"
  shows "dec_ok (on_response (d\<lparr>in_flight := xs @ ys\<rparr>) i ctx r)"
proof -
  have i: "i < length (queues d)" using assms by (auto simp: dec_ok_def)
  have qq: "qq_ok (flying d i) (queues d ! i)" using assms(1) i by (rule dec_okD)
  have f: "flying d i = Suc (length (filter (\<lambda>x. fst x = i) (xs @ ys)))" using assms(2) by (simp add: flying_def)
  have c: "unat (counter (queues d ! i) - 1) = unat (counter (queues d ! i)) - 1" "counter (queues d ! i) - 1 < quota (queues d ! i)"
    using counter_dec [of "counter (queues d ! i)" "quota (queues d ! i)"] qq f by (simp_all add: qq_ok_def)
  show ?thesis
    using qq f c i assms
    by (intro dec_ok_update [OF assms(1) i, where qq = "(queues d ! i)\<lparr>counter := counter (queues d ! i) - 1\<rparr>"])
      (auto simp: on_response_def count_queue_def qq_ok_def flying_def dec_ok_def nth_list_update)
qed

lemma dec_step_ok: "dec_step d acc d' \<Longrightarrow> dec_ok d \<Longrightarrow> dec_ok d'"
proof (induction rule: dec_step.induct)
  case (deliver d i ctx code d')
  then show ?case using SendRequest_ok [of d i ctx code] by auto
next
  case (request ctx d code d')
  then show ?case using Send_ok [of d ctx] by (auto simp: prio_ok_def)
next
  case (respond d xs i ctx ys r)
  then show ?case using respond_ok by blast
qed (simp_all add: visit_ok Decorator_Cancel_ok dec_ok_sender Decorator_stop_def)

section \<open>Where the requests are\<close>

definition all_items :: "QuotaQueue list \<Rightarrow> RequestContext list" where
  "all_items qs = concat (map (\<lambda>qq. queue_items (qq_queue qq)) qs)"

definition places :: "Decorator \<Rightarrow> RequestContext multiset" where
  "places d = mset (all_items (queues d)) + (case sender d of Popped _ ctx \<Rightarrow> {#ctx#} | _ \<Rightarrow> {#}) +
     mset (map snd (in_flight d)) + mset (map fst (calls d))"

lemma all_items_update:
  assumes "i < length qs"
  shows "mset (all_items (qs[i := qq])) + mset (queue_items (qq_queue (qs ! i))) =
    mset (all_items qs) + mset (queue_items (qq_queue qq))"
proof -
  have "all_items qs = all_items (take i qs @ qs ! i # drop (Suc i) qs)" using id_take_nth_drop [OF assms] by simp
  then show ?thesis using assms by (simp add: upd_conv_take_nth_drop all_items_def)
qed

lemma all_items_same:
  "i < length qs \<Longrightarrow> qq_queue qq = qq_queue (qs ! i) \<Longrightarrow> mset (all_items (qs[i := qq])) = mset (all_items qs)"
  using all_items_update [of i qs qq] by simp

lemma Queue_Push_mset:
  assumes "queue_ok q" "Queue_Push ctx q = Some q'"
  shows "mset (queue_items q') = add_mset ctx (mset (queue_items q))"
proof -
  have "mset (filter (\<lambda>c. priority (rc_request c) \<ge> priority (rc_request ctx)) (queue_items q)) +
      mset (filter (\<lambda>c. priority (rc_request c) < priority (rc_request ctx)) (queue_items q)) = mset (queue_items q)"
    using multiset_partition [of "mset (queue_items q)" "\<lambda>c. priority (rc_request c) \<ge> priority (rc_request ctx)"]
    by (simp add: not_le)
  then show ?thesis by (simp add: queue_items_push [OF assms])
qed

lemma push_places:
  assumes "i < length qs" "queue_ok (qq_queue (qs ! i))" "Queue_Push ctx (qq_queue (qs ! i)) = Some q" "qq_queue qq = q"
  shows "mset (all_items (qs[i := qq])) = add_mset ctx (mset (all_items qs))"
  using all_items_update [OF assms(1), of qq] Queue_Push_mset [OF assms(2,3)] assms(4) by simp

lemma visit_places:
  assumes "dec_ok d" "sender d = Visit i" "i < length (queues d)"
  shows "places (visit_queue rdy d i) = places d"
proof -
  obtain r q where p: "Queue_Pop (qq_queue (queues d ! i)) = (r, q)" by fastforce
  have "queue_ok (qq_queue (queues d ! i))" using dec_okD [OF assms(1,3)] by (simp add: qq_ok_def)
  note P = Pop_ok(3) [OF this p] all_items_update [OF assms(3), of "(queues d ! i)\<lparr>qq_queue := q\<rparr>"]
  show ?thesis using assms(2) p P by (auto simp: visit_queue_def places_def split: option.splits)
qed

lemma count_calls:
  "rc_callback c \<Longrightarrow> count (places (call_back ctx r d)) c = count (places d) c + (if c = ctx then 1 else 0)"
  by (auto simp: call_back_def places_def)

lemma count_queue_places: "i < length (queues d) \<Longrightarrow> places (count_queue f i d) = places d"
  by (simp add: count_queue_def places_def all_items_same)

lemma places_fields [simp]: "places (d\<lparr>signal := b\<rparr>) = places d" "places (d\<lparr>stop_thread := b\<rparr>) = places d"
  by (simp_all add: places_def)

lemma SendRequest_places:
  assumes "dec_ok d" "sender d = Popped i ctx" "SendRequest code d i ctx = Some d'" "rc_callback c"
  shows "count (places (d'\<lparr>sender := AtHead\<rparr>)) c = count (places d) c"
proof -
  have i: "i < length (queues d)" "queue_ok (qq_queue (queues d ! i))"
    using assms(1,2) by (auto simp: dec_ok_def qq_ok_def)
  let ?qq = "(queues d ! i)\<lparr>counter := counter (queues d ! i) + 1\<rparr>"
  have "mset (all_items ((queues d)[i := ?qq])) = mset (all_items (queues d))"
    by (rule all_items_same [OF i(1)]) simp
  moreover have "mset (all_items ((queues d)[i := ?qq\<lparr>qq_queue := q\<rparr>])) = add_mset ctx (mset (all_items (queues d)))"
    if "Queue_Push ctx (qq_queue (queues d ! i)) = Some q" for q
    by (rule push_places [OF i that]) simp
  ultimately show ?thesis using assms i
    by (auto simp: SendRequest_def count_queue_def places_def call_back_def Let_def split: if_splits)
qed

lemma Queue_RemoveIf_mset:
  "mset (queue_items q) = mset (queue_items (snd (Queue_RemoveIf f q))) + mset (map the (fst (Queue_RemoveIf f q)))"
proof (induction q)
  case (Cons d q)
  have "mset (map the d) = mset (map the (filter (\<lambda>c. \<not> f c) d)) + mset (map the (filter f d))"
    using multiset_partition [of "mset d" f] by (metis add.commute image_mset_union mset_filter mset_map)
  with Cons show ?case by (simp add: queue_items_def Queue_RemoveIf_def)
qed (simp add: queue_items_def Queue_RemoveIf_def)

lemma remove_pending_places:
  assumes "remove_pending i qs = (rs, qs')"
  shows "mset (all_items qs) = mset (all_items qs') + mset (map the rs)"
  using assms
proof (induction qs arbitrary: rs qs')
  case (Cons qq qs)
  obtain r q where r: "Queue_RemoveIf (\<lambda>ptr. rc_id (the ptr) = i) (qq_queue qq) = (r, q)" by fastforce
  obtain rs' qs'' where rs: "remove_pending i qs = (rs', qs'')" by fastforce
  have "mset (queue_items (qq_queue qq)) = mset (queue_items q) + mset (map the r)"
    using Queue_RemoveIf_mset [of "qq_queue qq" "\<lambda>ptr. rc_id (the ptr) = i"] r by simp
  with Cons.IH [OF rs] Cons.prems r rs show ?case by (auto simp: all_items_def split: if_splits)
qed (simp add: all_items_def)

lemma cancel_places:
  assumes "rc_callback c"
  shows "count (places (snd (Decorator_Cancel b d i))) c = count (places d) c"
proof -
  obtain rs qs where r: "remove_pending i (queues d) = (rs, qs)" by fastforce
  have "count (places (fold (\<lambda>ptr. call_back (the ptr) (cancelled_response (the ptr))) ps e)) c =
      count (places e) c + count (mset (map the ps)) c" for ps e
    by (induction ps arbitrary: e) (simp_all add: count_calls [OF assms])
  then have "count (places (snd (CancelIfPending d i))) c = count (places d) c"
    using remove_pending_places [OF r] r by (simp add: CancelIfPending_def places_def)
  then show ?thesis by (auto simp: Decorator_Cancel_def Let_def split: prod.splits)
qed

lemma respond_places:
  assumes "dec_ok d" "in_flight d = xs @ (i, ctx) # ys" "rc_callback c"
  shows "count (places (on_response (d\<lparr>in_flight := xs @ ys\<rparr>) i ctx r)) c = count (places d) c"
proof -
  have "i < length (queues d)" using assms(1,2) by (auto simp: dec_ok_def)
  then have "count (places (on_response (d\<lparr>in_flight := xs @ ys\<rparr>) i ctx r)) c =
      count (places (d\<lparr>in_flight := xs @ ys\<rparr>)) c + (if c = ctx then 1 else 0)"
    using assms(3) by (simp add: on_response_def count_queue_places count_calls)
  with assms(2) show ?thesis by (auto simp: places_def)
qed

lemma Send_places:
  assumes "dec_ok d" "Decorator_Send d ctx = Some (code, d')"
  shows "places d' = places d + (if code = ErrorNone then {#ctx#} else {#})"
proof (cases "select_queue (length (queues d)) (queues d) (rc_request ctx)")
  case (Some i)
  then have i: "i < length (queues d)" by (rule select_queue_less)
  obtain q where q: "Queue_Push ctx (qq_queue (queues d ! i)) = Some q"
    "d' = d\<lparr>queues := (queues d)[i := (queues d ! i)\<lparr>qq_queue := q\<rparr>], signal := True\<rparr>" "code = ErrorNone"
    using assms(2) Some by (auto simp: Decorator_Send_def)
  have "queue_ok (qq_queue (queues d ! i))" using dec_okD [OF assms(1) i] by (simp add: qq_ok_def)
  from push_places [OF i this q(1), of "(queues d ! i)\<lparr>qq_queue := q\<rparr>"] q(2,3) show ?thesis
    by (simp add: places_def)
qed (use assms in \<open>auto simp: Decorator_Send_def\<close>)

lemma dec_step_places:
  "dec_step d acc d' \<Longrightarrow> dec_ok d \<Longrightarrow> rc_callback c \<Longrightarrow> count (places d') c = count (places d) c + count (mset acc) c"
proof (induction rule: dec_step.induct)
  case (deliver d i ctx code d')
  then show ?case using SendRequest_places [of d i ctx code d' c] by simp
next
  case (request ctx d code d')
  then show ?case using Send_places [of d ctx code d'] by simp
next
  case (respond d xs i ctx ys r)
  then show ?case using respond_places [of d xs i ctx ys c r] by simp
next
  case (cancel d b k)
  then show ?case using cancel_places [of c b d k] by simp
qed (simp_all add: visit_places, auto simp: places_def Decorator_stop_def)

text \<open>The states a new decorator reaches, with the requests it accepted.\<close>

inductive dec_run :: "size_t \<Rightarrow> (size_t \<times> (NetworkRequest \<Rightarrow> bool)) list \<Rightarrow> RequestContext list \<Rightarrow> Decorator \<Rightarrow> bool" for n cs where
  start: "dec_run n cs [] (Decorator_new n cs)"
| step: "dec_run n cs sent d \<Longrightarrow> dec_step d acc d' \<Longrightarrow> dec_run n cs (acc @ sent) d'"

definition fresh_group :: "QuotaQueue \<Rightarrow> bool" where
  "fresh_group qq \<longleftrightarrow> qq_queue qq = NetworkRequestPriorityQueue_new \<and> counter qq = 0"

lemma AddQuotaGroup_fresh: "list_all fresh_group qs \<Longrightarrow> list_all fresh_group (AddQuotaGroup n f qs)"
  by (simp add: AddQuotaGroup_def fresh_group_def)

lemma AddQuotaGroups_fresh:
  "list_all fresh_group qs \<Longrightarrow> list_all fresh_group (fold (\<lambda>config. AddQuotaGroup (fst config) (snd config)) cs qs)"
  by (induction cs arbitrary: qs) (simp_all add: AddQuotaGroup_fresh)

lemma Decorator_new_queues: "qq \<in> set (queues (Decorator_new n cs)) \<Longrightarrow> fresh_group qq"
proof -
  have "list_all fresh_group (queues (Decorator_new n cs))"
    by (simp add: Decorator_new_def AddDefaultQuotaGroup_def AddQuotaGroups_fresh AddQuotaGroup_fresh)
  then show "qq \<in> set (queues (Decorator_new n cs)) \<Longrightarrow> fresh_group qq" by (simp add: list_all_iff)
qed

lemma Decorator_new_simps [simp]:
  "in_flight (Decorator_new n cs) = []" "sender (Decorator_new n cs) = AtHead" "calls (Decorator_new n cs) = []"
  by (simp_all add: Decorator_new_def)

lemma Decorator_new_ok: "dec_ok (Decorator_new n cs)"
  using Decorator_new_queues [OF nth_mem, of _ n cs] by (simp add: dec_ok_def qq_ok_def flying_def fresh_group_def queue_ok_new)

lemma new_queue_empty [simp]: "queue_items NetworkRequestPriorityQueue_new = []"
  by (simp add: queue_items_def NetworkRequestPriorityQueue_new_def)

lemma Decorator_new_places: "places (Decorator_new n cs) = {#}"
  using Decorator_new_queues [of _ n cs] by (auto simp: places_def all_items_def fresh_group_def)

lemma dec_run_ok: "dec_run n cs sent d \<Longrightarrow> dec_ok d"
  by (induction rule: dec_run.induct) (auto simp: Decorator_new_ok dec_step_ok)

section \<open>A place of the quota lost\<close>

definition stuck :: "nat \<Rightarrow> Decorator \<Rightarrow> bool" where
  "stuck i d \<longleftrightarrow> dec_ok d \<and> i < length (queues d) \<and> counter (queues d ! i) = quota (queues d ! i) \<and> flying d i = 0 \<and>
     (\<forall>ctx. sender d \<noteq> Popped i ctx)"

lemma remove_pending_counter:
  "remove_pending i qs = (rs, qs') \<Longrightarrow> length qs' = length qs \<and>
    (\<forall>k < length qs. counter (qs' ! k) = counter (qs ! k) \<and> quota (qs' ! k) = quota (qs ! k))"
proof (induction qs arbitrary: rs qs')
  case (Cons qq qs)
  obtain r q where r: "Queue_RemoveIf (\<lambda>ptr. rc_id (the ptr) = i) (qq_queue qq) = (r, q)" by fastforce
  obtain rs' qs'' where rs: "remove_pending i qs = (rs', qs'')" by fastforce
  from Cons.IH [OF rs] Cons.prems r rs show ?case
    by (auto simp: nth_Cons split: if_splits nat.splits)
qed simp

lemma stuck_cancel: "stuck i d \<Longrightarrow> stuck i (snd (Decorator_Cancel b d k))"
proof -
  assume s: "stuck i d"
  obtain rs qs where r: "remove_pending k (queues d) = (rs, qs)" by fastforce
  have "dec_ok (snd (Decorator_Cancel b d k))" using s Decorator_Cancel_ok by (simp add: stuck_def)
  with s remove_pending_counter [OF r] show ?thesis
    by (auto simp: stuck_def Decorator_Cancel_def CancelIfPending_def r flying_def Let_def split: if_splits)
qed

lemma stuck_step: "dec_step d acc d' \<Longrightarrow> stuck i d \<Longrightarrow> stuck i d'"
proof -
  assume st: "dec_step d acc d'" and s: "stuck i d"
  have ok: "dec_ok d'" using dec_step_ok [OF st] s by (simp add: stuck_def)
  show ?thesis using st s ok
  proof cases
    case (visit k rdy)
    with s ok show ?thesis
      by (cases "k = i") (auto simp: stuck_def visit_queue_def flying_def nth_list_update Let_def split: prod.splits option.splits if_splits)
  next
    case (deliver k ctx code e)
    then have "k \<noteq> i" using s by (auto simp: stuck_def)
    with deliver s ok show ?thesis
      by (auto simp: stuck_def SendRequest_def count_queue_def call_back_def flying_def Let_def nth_list_update split: if_splits)
  next
    case (request ctx code)
    with s ok show ?thesis
      by (auto simp: stuck_def Decorator_Send_def flying_def nth_list_update split: option.splits dest: select_queue_less)
  next
    case (cancel b k)
    with stuck_cancel [OF s] show ?thesis by simp
  next
    case (respond xs k ctx ys r)
    then have "k \<noteq> i" using s by (auto simp: stuck_def flying_def)
    with respond s ok show ?thesis
      by (auto simp: stuck_def on_response_def count_queue_def flying_def nth_list_update)
  qed (auto simp: stuck_def flying_def Decorator_stop_def)
qed

definition dec_steps :: "Decorator \<Rightarrow> Decorator \<Rightarrow> bool" where
  "dec_steps = (\<lambda>d d'. \<exists>acc. dec_step d acc d')\<^sup>*\<^sup>*"

lemma stuck_steps: "dec_steps d d' \<Longrightarrow> stuck i d \<Longrightarrow> stuck i d'"
  unfolding dec_steps_def by (induction rule: rtranclp_induct) (auto dest: stuck_step)

lemma dec_step_length: "dec_step d acc d' \<Longrightarrow> length (queues d') = length (queues d)"
proof (induction rule: dec_step.induct)
  case (visit d i rdy)
  then show ?case by (auto simp: visit_queue_def Let_def split: prod.splits option.splits)
next
  case (deliver d i ctx code d')
  then show ?case by (auto simp: SendRequest_def count_queue_def call_back_def Let_def split: if_splits)
next
  case (request ctx d code d')
  then show ?case by (auto simp: Decorator_Send_def split: option.splits)
next
  case (cancel d b k)
  obtain rs qs where "remove_pending k (queues d) = (rs, qs)" by fastforce
  with remove_pending_counter [OF this] show ?case
    by (auto simp: Decorator_Cancel_def CancelIfPending_def Let_def)
qed (simp_all add: on_response_def Decorator_stop_def)

lemma dec_steps_length: "dec_steps d d' \<Longrightarrow> length (queues d') = length (queues d)"
  unfolding dec_steps_def by (induction rule: rtranclp_induct) (auto dest: dec_step_length)

section \<open>Properties\<close>

text \<open>C9: whatever the protocol answers and however the steps interleave, the requests of a group that are in
  flight never exceed its quota, and every index into the array of the priority queue is in range.\<close>

theorem decorator_quota:
  assumes "dec_run n cs sent d" "i < length (queues d)"
  shows "flying d i \<le> unat (quota (queues d ! i)) \<and>
    (\<forall>ctx code. prio_ok ctx \<longrightarrow> Decorator_Send d ctx \<noteq> None \<and> (sender d = Popped i ctx \<longrightarrow> SendRequest code d i ctx \<noteq> None))"
proof -
  note ok = dec_run_ok [OF assms(1)]
  have "flying d i \<le> unat (quota (queues d ! i))"
    using dec_okD [OF ok assms(2)] by (auto simp: qq_ok_def word_le_nat_alt)
  moreover have "Decorator_Send d ctx \<noteq> None" if "prio_ok ctx" for ctx using Send_ok [OF ok that] by auto
  moreover have "SendRequest code d i ctx \<noteq> None" if "sender d = Popped i ctx" for ctx code
    using SendRequest_ok [OF ok that, of code] by auto
  ultimately show ?thesis by blast
qed

theorem decorator_quota_witness:
  "flying (Decorator_new 1 []) 0 \<le> unat (quota (queues (Decorator_new 1 []) ! 0))"
  using decorator_quota [OF dec_run.start [of 1 "[]"], of 0]
  by (simp add: Decorator_new_def AddDefaultQuotaGroup_def AddQuotaGroup_def)

text \<open>C5: a request with a callback that was accepted is, in every reachable state, in exactly one place: in a
  queue, with the sender, in flight, or answered; so none is lost and none is answered twice.\<close>

theorem decorator_conservation:
  assumes "dec_run n cs sent d" "rc_callback c"
  shows "count (places d) c = count (mset sent) c"
  using assms
proof (induction rule: dec_run.induct)
  case (step sent d acc d')
  then show ?case using dec_step_places [OF step(2) dec_run_ok [OF step(1)], of c] by simp
qed (simp add: Decorator_new_places)

definition sample_context :: RequestContext where
  "sample_context = \<lparr>rc_request = NetworkRequest_default 0, rc_id = 1, rc_callback = True\<rparr>"

text \<open>The decorator with one group of quota 1, after the request was queued, popped and refused as not ready.\<close>

definition queued_decorator :: Decorator where
  "queued_decorator = snd (the (Decorator_Send (Decorator_new 1 []) sample_context))"

definition popped_decorator :: Decorator where
  "popped_decorator = visit_queue True (queued_decorator\<lparr>sender := Visit 0\<rparr>) 0"

definition refused_decorator :: Decorator where
  "refused_decorator = (the (SendRequest ErrorNotReady popped_decorator 0 sample_context))\<lparr>sender := AtHead\<rparr>"

lemma queued_decorator_eq:
  "Decorator_Send (Decorator_new 1 []) sample_context = Some (ErrorNone, queued_decorator)"
  by (simp add: queued_decorator_def Decorator_Send_def Decorator_new_def AddDefaultQuotaGroup_def AddQuotaGroup_def
    sample_context_def NetworkRequest_default_def Queue_Push_def NetworkRequestPriorityQueue_new_def kArraySize_6 priorities)

lemma queued_decorator_fields:
  "queues queued_decorator = [\<lparr>qq_queue = [[], [], [Some sample_context], [], [], []], quota = 1, selector = \<lambda>_. True, counter = 0\<rparr>]"
  "sender queued_decorator = AtHead" "stop_thread queued_decorator = False" "in_flight queued_decorator = []"
  by (simp_all add: queued_decorator_def Decorator_Send_def Decorator_new_def AddDefaultQuotaGroup_def AddQuotaGroup_def
    sample_context_def NetworkRequest_default_def Queue_Push_def NetworkRequestPriorityQueue_new_def kArraySize_6 priorities
    eval_nat_numeral)

lemma popped_decorator_fields:
  "queues popped_decorator = [\<lparr>qq_queue = [[], [], [], [], [], []], quota = 1, selector = \<lambda>_. True, counter = 0\<rparr>]"
  "sender popped_decorator = Popped 0 sample_context" "in_flight popped_decorator = []"
  by (simp_all add: popped_decorator_def visit_queue_def queued_decorator_fields Queue_Pop_def priorities
    Pop_loop.simps eval_nat_numeral)

lemma refused_decorator_fields:
  "SendRequest ErrorNotReady popped_decorator 0 sample_context \<noteq> None"
  "queues refused_decorator = [\<lparr>qq_queue = [[], [], [Some sample_context], [], [], []], quota = 1, selector = \<lambda>_. True, counter = 1\<rparr>]"
  "sender refused_decorator = AtHead" "in_flight refused_decorator = []"
  by (simp_all add: refused_decorator_def SendRequest_def popped_decorator_fields count_queue_def Queue_Push_def
    sample_context_def NetworkRequest_default_def priorities eval_nat_numeral)

lemma refused_run: "dec_run 1 [] [sample_context] refused_decorator"
proof -
  have p: "PriorityMin \<le> priority (rc_request sample_context)" "priority (rc_request sample_context) \<le> PriorityMax"
    by (simp_all add: sample_context_def NetworkRequest_default_def priorities)
  have "dec_run 1 [] [sample_context] queued_decorator"
    using dec_run.step [OF dec_run.start dec_step.request [OF p queued_decorator_eq]] by simp
  from dec_run.step [OF this dec_step.loop] queued_decorator_fields
  have "dec_run 1 [] [sample_context] (queued_decorator\<lparr>sender := Visit 0\<rparr>)" by simp
  from dec_run.step [OF this dec_step.visit [of _ 0 True]] queued_decorator_fields
  have "dec_run 1 [] [sample_context] popped_decorator" by (simp add: popped_decorator_def)
  from dec_run.step [OF this dec_step.deliver] popped_decorator_fields refused_decorator_fields(1)
  show ?thesis by (fastforce simp: refused_decorator_def)
qed

theorem decorator_conservation_witness:
  "count (places refused_decorator) sample_context = 1"
  using decorator_conservation [OF refused_run, of sample_context] by (simp add: sample_context_def)

text \<open>A request that the protocol is not ready for goes back to its queue with its place of the quota still
  counted: with a quota of one, no request is ever in flight again.\<close>

theorem decorator_quota_leak:
  "dec_run 1 [] [sample_context] refused_decorator \<and> all_items (queues refused_decorator) = [sample_context] \<and>
   {d. dec_steps refused_decorator d} \<subseteq> {d. in_flight d = []}"
proof -
  have s: "stuck 0 refused_decorator"
    using dec_run_ok [OF refused_run] by (simp add: stuck_def refused_decorator_fields flying_def)
  have "in_flight d = []" if "dec_steps refused_decorator d" for d
  proof -
    have "length (queues d) = 1" using dec_steps_length [OF that] by (simp add: refused_decorator_fields)
    with stuck_steps [OF that s] show ?thesis
      by (auto simp: stuck_def flying_def dec_ok_def filter_empty_conv) (metis fst_conv list.set_intros(1) neq_Nil_conv surj_pair)
  qed
  then show ?thesis using refused_run by (auto simp: all_items_def queue_items_def refused_decorator_fields)
qed

end
