(* ===== verification/Olp_Client.thy ===== *)
theory Olp_Client
  imports Network_Queue
begin

text \<open>
  Component core/client: cancellation tokens and contexts (\<open>CancellationToken.cpp\<close>,
  \<open>CancellationContext.inl\<close>) and the REST client (\<open>OlpClient.cpp\<close>, \<open>OlpClientSettings.h\<close>,
  \<open>NetworkAsyncHandlerImpl.cpp\<close>).

  One \<open>CallApi\<close> is a state machine: the network answers the open request, the callback sleeps and
  retries, and the caller may cancel or give up the token at any time. The handler is outside the model:
  it calls the callback of a request at most once, and not before it returned. A method that holds the
  mutex of the cancellation context is one step. The responses, and whether a retry condition holds for
  them, are arbitrary.

  Shown: the callback is called exactly once, the attempts and the sleeps follow the settings, a call
  ends, and the user agents of a request are merged into one header.
\<close>

section \<open>Cancellation\<close>

text \<open>
  A token is the function it calls, of type \<open>'s \<Rightarrow> 's\<close> on the state \<open>'s\<close> of the world, or empty. The copies of
  a context share their implementation; a context that was moved from has none.
\<close>

type_synonym 's CancellationToken = "('s \<Rightarrow> 's) option"

definition token_cancel :: "'s CancellationToken \<Rightarrow> 's \<Rightarrow> 's" where
  "token_cancel t s = (case t of None \<Rightarrow> s | Some func \<Rightarrow> func s)"

record 's CancellationContextImpl =
  sub_operation_cancel_token :: "'s CancellationToken"
  is_cancelled :: bool

type_synonym 's CancellationContext = "'s CancellationContextImpl option"

definition CancellationContext_new :: "'s CancellationContext" where
  "CancellationContext_new = Some \<lparr>sub_operation_cancel_token = None, is_cancelled = False\<rparr>"

definition ExecuteOrCancelled ::
  "'s CancellationContext \<Rightarrow> ('s \<Rightarrow> 's CancellationToken \<times> 's) option \<Rightarrow> ('s \<Rightarrow> 's) option \<Rightarrow> 's \<Rightarrow> 's CancellationContext \<times> 's" where
  "ExecuteOrCancelled ctx execute_fn cancel_fn s =
     (case ctx of
        None \<Rightarrow> (ctx, s)
      | Some impl \<Rightarrow>
          (case (if is_cancelled impl then cancel_fn else None) of
             Some f \<Rightarrow> (ctx, f s)
           | None \<Rightarrow>
               (case execute_fn of
                  None \<Rightarrow> (ctx, s)
                | Some f \<Rightarrow> let (t, s1) = f s in (Some (impl\<lparr>sub_operation_cancel_token := t\<rparr>), s1))))"

definition CancelOperation :: "'s CancellationContext \<Rightarrow> 's \<Rightarrow> 's CancellationContext \<times> 's" where
  "CancelOperation ctx s =
     (case ctx of
        None \<Rightarrow> (ctx, s)
      | Some impl \<Rightarrow>
          (if is_cancelled impl then (ctx, s)
           else (Some (impl\<lparr>sub_operation_cancel_token := None, is_cancelled := True\<rparr>),
                 token_cancel (sub_operation_cancel_token impl) s)))"

definition IsCancelled :: "'s CancellationContext \<Rightarrow> bool" where
  "IsCancelled ctx \<longleftrightarrow> (case ctx of None \<Rightarrow> False | Some impl \<Rightarrow> is_cancelled impl)"

section \<open>Settings\<close>

definition DefaultBackdownPolicy :: "32 word \<Rightarrow> 32 word" where
  "DefaultBackdownPolicy milliseconds = milliseconds"

definition DefaultRetryCondition :: "HttpResponse \<Rightarrow> bool" where
  "DefaultRetryCondition r = False"

record RetrySettings =
  max_attempts :: int
  timeout :: int
  initial_backdown_period :: int
  backdown_policy :: "int \<Rightarrow> int"
  retry_condition :: "HttpResponse \<Rightarrow> bool"

text \<open>The default policy takes and returns \<open>unsigned int\<close>, and the setting \<open>int\<close>.\<close>

definition RetrySettings_default :: RetrySettings where
  "RetrySettings_default =
     \<lparr>max_attempts = 3, timeout = 60, initial_backdown_period = 200,
      backdown_policy = (\<lambda>ms. sint (DefaultBackdownPolicy (word_of_int ms))), retry_condition = DefaultRetryCondition\<rparr>"

text \<open>The token provider is its answer; the scheduler and the network instance are not used by the client.\<close>

record OlpClientSettings =
  retry_settings :: RetrySettings
  proxy_settings :: "NetworkProxy option"
  authentication_provider :: "string option"

record OlpClient =
  base_url :: string
  default_headers :: "(string \<times> string) list"
  client_settings :: OlpClientSettings

definition OlpClient_new :: OlpClient where
  "OlpClient_new = \<lparr>base_url = [], default_headers = [],
     client_settings = \<lparr>retry_settings = RetrySettings_default, proxy_settings = None, authentication_provider = None\<rparr>\<rparr>"

definition SetBaseUrl :: "string \<Rightarrow> OlpClient \<Rightarrow> OlpClient" where
  "SetBaseUrl u c = c\<lparr>base_url := u\<rparr>"

definition SetSettings :: "OlpClientSettings \<Rightarrow> OlpClient \<Rightarrow> OlpClient" where
  "SetSettings s c = c\<lparr>client_settings := s\<rparr>"

definition OlpClientFactory_Create :: "OlpClientSettings \<Rightarrow> OlpClient" where
  "OlpClientFactory_Create s = SetSettings s OlpClient_new"

section \<open>Requests\<close>

definition tolower :: "char \<Rightarrow> char" where
  "tolower c = (let n = of_char c :: nat in if 65 \<le> n \<and> n \<le> 90 then char_of (n + 32) else c)"

definition CaseInsensitiveCompare :: "string \<Rightarrow> string \<Rightarrow> bool" where
  "CaseInsensitiveCompare s t \<longleftrightarrow>
     length s = length t \<and> list_all2 (\<lambda>c1 c2. c1 = c2 \<or> tolower c1 = tolower c2) s t"

definition http_verb :: "string \<Rightarrow> HttpVerb" where
  "http_verb m = (if m = ''GET'' then GET else if m = ''PUT'' then PUT else if m = ''POST'' then POST
     else if m = ''DELETE'' then DEL else GET)"

text \<open>The loop over the query parameters with its flag \<open>first\<close>.\<close>

fun append_query :: "bool \<Rightarrow> (string \<times> string) list \<Rightarrow> string \<Rightarrow> string" where
  "append_query first [] s = s"
| "append_query first ((k, v) # ps) s =
     append_query False ps ((if first then s else s @ ''&'') @ k @ ''='' @ v)"

text \<open>The loop over the header parameters, which collects the user agents.\<close>

fun add_header_params :: "(string \<times> string) list \<Rightarrow> string \<times> NetworkRequest \<Rightarrow> string \<times> NetworkRequest" where
  "add_header_params [] acc = acc"
| "add_header_params ((k, v) # ps) (agent, r) =
     add_header_params ps
       (if CaseInsensitiveCompare k ''User-Agent'' then (agent @ v @ '' '', r) else (agent, AddHeader k v r))"

text \<open>A multimap is the list of its entries in the order of their keys. \<open>sdk_agent\<close> is the name of the build;
  \<open>now\<close> the time stamp.\<close>

definition CreateRequest ::
  "string \<Rightarrow> int \<Rightarrow> OlpClient \<Rightarrow> string \<Rightarrow> string \<Rightarrow> (string \<times> string) list \<Rightarrow> (string \<times> string) list \<Rightarrow> string option \<Rightarrow> string \<Rightarrow> NetworkRequest" where
  "CreateRequest sdk_agent now c path meth queryParams headerParams postBody contentType =
     (let uri = base_url c @ path;
          uri = (if queryParams \<noteq> [] then uri @ append_query True queryParams ''?'' else uri);
          r = NetworkRequest_new now uri 0 PriorityDefault (http_verb meth);
          r = (case authentication_provider (client_settings c) of
                 None \<Rightarrow> r | Some token \<Rightarrow> AddHeader ''Authorization'' (''Bearer'' @ '' '' @ token) r);
          r = fold (\<lambda>h r. AddHeader (fst h) (snd h) r) (default_headers c) r;
          (custom_user_agent, r) = add_header_params headerParams ([], r);
          r = AddHeader ''User-Agent'' (custom_user_agent @ sdk_agent) r;
          r = (if contentType \<noteq> [] then AddHeader ''Content-Type'' contentType r else r)
      in SetContent postBody r)"

text \<open>The configuration \<open>CallApi\<close> makes from the settings.\<close>

definition call_config :: "OlpClient \<Rightarrow> NetworkConfig" where
  "call_config c =
     (let config = SetTimeouts (timeout (retry_settings (client_settings c))) (transfer_timeout NetworkConfig_default) NetworkConfig_default
      in case proxy_settings (client_settings c) of None \<Rightarrow> config | Some p \<Rightarrow> SetProxy p config)"

text \<open>The response that \<open>NetworkAsyncHandlerImpl\<close> makes of the answer of the network. A payload stream that is
  missing where it is read is undefined behaviour.\<close>

definition handler_response :: "NetworkResponse \<Rightarrow> HttpResponse option" where
  "handler_response r =
     (if nr_status r \<ge> 400 \<or> nr_status r < 0
      then let payload = (case nr_payload r of None \<Rightarrow> [] | Some p \<Rightarrow> p)
           in Some \<lparr>status = nr_status r,
                response = (if payload \<noteq> [] then payload else if nr_error r \<noteq> [] then nr_error r
                            else ''Error occured. Please check HTTP status code.'')\<rparr>
      else map_option (\<lambda>p. \<lparr>status = nr_status r, response = p\<rparr>) (nr_payload r))"

section \<open>Calls\<close>

text \<open>
  What one \<open>CallApi\<close> has done and what is open. \<open>sent\<close> are the requests given to the handler, one after
  the other; \<open>phase\<close> is whether the last one is unanswered, whether its callback sleeps before a retry, or
  neither; \<open>currentTry\<close> and \<open>backdown\<close> are what that callback captured. \<open>forwarded\<close> are the indices of the
  requests whose token the handler returned was cancelled, \<open>slept\<close> the periods slept, \<open>results\<close> the calls of
  the caller's callback.
\<close>

datatype phase = Idle | Awaiting | Sleeping

record call_world =
  sent :: "NetworkRequest list"
  phase :: phase
  currentTry :: int
  backdown :: int
  forwarded :: "nat list"
  slept :: "int list"
  results :: "HttpResponse list"

text \<open>The caller's token alone keeps the context alive: \<open>held\<close> is whether \<open>weak_cancel_context.lock()\<close> succeeds.\<close>

record call =
  call_context :: "call_world CancellationContext"
  held :: bool
  world :: call_world

definition cancelled_result :: HttpResponse where
  "cancelled_result = \<lparr>status = NetCancelled, response = ''Operation Cancelled.''\<rparr>"

definition unknown_result :: HttpResponse where
  "unknown_result = \<lparr>status = UnknownError, response = ''Unknown error.''\<rparr>"

definition finish :: "HttpResponse \<Rightarrow> call_world \<Rightarrow> call_world" where
  "finish r w = w\<lparr>phase := Idle, results := results w @ [r]\<rparr>"

text \<open>The handler takes the request with the callback \<open>GetRetryCallback(currentTry, backdown, ...)\<close>.\<close>

definition send_request :: "NetworkRequest \<Rightarrow> int \<Rightarrow> int \<Rightarrow> call_world \<Rightarrow> call_world CancellationToken \<times> call_world" where
  "send_request request try period w =
     (Some (\<lambda>w'. w'\<lparr>forwarded := forwarded w' @ [length (sent w)]\<rparr>),
      w\<lparr>sent := sent w @ [request], phase := Awaiting, currentTry := try + 1, backdown := period\<rparr>)"

definition CallApi :: "RetrySettings \<Rightarrow> NetworkRequest \<Rightarrow> call" where
  "CallApi settings request =
     (let (ctx, w) = ExecuteOrCancelled CancellationContext_new
            (Some (send_request request 0 (initial_backdown_period settings))) (Some (finish cancelled_result))
            \<lparr>sent = [], phase = Idle, currentTry = 0, backdown = 0, forwarded = [], slept = [], results = []\<rparr>
      in \<lparr>call_context = ctx, held = True, world = w\<rparr>)"

text \<open>The callback of \<open>GetRetryCallback\<close>, up to and after its sleep.\<close>

definition retry_callback :: "RetrySettings \<Rightarrow> HttpResponse \<Rightarrow> call_world \<Rightarrow> call_world" where
  "retry_callback settings r w =
     (if currentTry w \<ge> max_attempts settings \<or> \<not> retry_condition settings r then finish r w
      else w\<lparr>phase := Sleeping, slept := slept w @ [backdown w]\<rparr>)"

definition retry_after_sleep :: "RetrySettings \<Rightarrow> NetworkRequest \<Rightarrow> call \<Rightarrow> call" where
  "retry_after_sleep settings request c =
     (let nextBackdownPeriod = backdown_policy settings (backdown (world c))
      in if held c
         then let (ctx, w) = ExecuteOrCancelled (call_context c)
                    (Some (send_request request (currentTry (world c)) nextBackdownPeriod)) (Some (finish cancelled_result)) (world c)
              in c\<lparr>call_context := ctx, world := w\<rparr>
         else c\<lparr>world := finish unknown_result (world c)\<rparr>)"

definition cancel_call :: "call \<Rightarrow> call" where
  "cancel_call c = (let (ctx, w) = CancelOperation (call_context c) (world c) in c\<lparr>call_context := ctx, world := w\<rparr>)"

inductive call_step :: "RetrySettings \<Rightarrow> NetworkRequest \<Rightarrow> call \<Rightarrow> call \<Rightarrow> bool" for settings request where
  respond: "phase (world c) = Awaiting \<Longrightarrow> call_step settings request c (c\<lparr>world := retry_callback settings r (world c)\<rparr>)"
| wake: "phase (world c) = Sleeping \<Longrightarrow> call_step settings request c (retry_after_sleep settings request c)"
| cancel: "held c \<Longrightarrow> call_step settings request c (cancel_call c)"
| release: "call_step settings request c (c\<lparr>held := False\<rparr>)"

inductive call_reachable :: "RetrySettings \<Rightarrow> NetworkRequest \<Rightarrow> call \<Rightarrow> bool" for settings request where
  called: "call_reachable settings request (CallApi settings request)"
| stepped: "call_reachable settings request c \<Longrightarrow> call_step settings request c c' \<Longrightarrow> call_reachable settings request c'"

section \<open>The invariant of a call\<close>

lemmas call_defs = retry_callback_def retry_after_sleep_def cancel_call_def send_request_def finish_def
  ExecuteOrCancelled_def CancelOperation_def token_cancel_def

text \<open>The index of the request whose token the context holds.\<close>

definition call_ok :: "RetrySettings \<Rightarrow> NetworkRequest \<Rightarrow> call \<Rightarrow> bool" where
  "call_ok settings request c \<longleftrightarrow>
     (let w = world c in
      set (sent w) = {request} \<and>
      length (results w) = (if phase w = Idle then 1 else 0) \<and>
      currentTry w = int (length (sent w)) \<and>
      currentTry w \<le> max 1 (max_attempts settings) \<and>
      (phase w = Sleeping \<longrightarrow> currentTry w < max_attempts settings) \<and>
      length (slept w) + (if phase w = Awaiting then 1 else 0) \<le> length (sent w) \<and>
      (phase w = Awaiting \<longrightarrow> length (sent w) = length (slept w) + 1) \<and>
      (phase w = Sleeping \<longrightarrow> length (sent w) = length (slept w)) \<and>
      backdown w = (backdown_policy settings ^^ (length (sent w) - 1)) (initial_backdown_period settings) \<and>
      (\<forall>i < length (slept w). slept w ! i = (backdown_policy settings ^^ i) (initial_backdown_period settings)) \<and>
      (\<exists>impl. call_context c = Some impl \<and>
         (is_cancelled impl \<longrightarrow> sub_operation_cancel_token impl = None \<and> (\<exists>k < length (sent w). forwarded w = [k])) \<and>
         (\<not> is_cancelled impl \<longrightarrow> forwarded w = [] \<and>
            sub_operation_cancel_token impl = Some (\<lambda>w'. w'\<lparr>forwarded := forwarded w' @ [length (sent w) - 1]\<rparr>))))"

lemma CallApi_ok: "call_ok settings request (CallApi settings request)"
  by (simp add: call_ok_def CallApi_def CancellationContext_new_def call_defs Let_def)

lemma call_respond_ok:
  assumes "call_ok s q c" "phase (world c) = Awaiting"
  shows "call_ok s q (c\<lparr>world := retry_callback s r (world c)\<rparr>)"
  using assms by (auto simp: call_ok_def retry_callback_def finish_def Let_def nth_append less_Suc_eq)

lemma wake_ok:
  assumes "call_ok s q c" "phase (world c) = Sleeping"
  shows "call_ok s q (retry_after_sleep s q c)"
proof -
  have "sent (world c) \<noteq> []" using assms(1) by (auto simp: call_ok_def Let_def)
  then obtain n where n: "length (sent (world c)) = Suc n" by (cases "sent (world c)") auto
  have l: "length (slept (world c)) = Suc n" using assms n by (auto simp: call_ok_def Let_def)
  obtain impl where i: "call_context c = Some impl" using assms(1) by (auto simp: call_ok_def Let_def)
  show ?thesis using assms n l i
    by (cases "held c"; cases "is_cancelled impl") (auto simp: call_ok_def call_defs Let_def)
qed

lemma cancel_ok: "call_ok s q c \<Longrightarrow> call_ok s q (cancel_call c)"
proof -
  assume ok: "call_ok s q c"
  then obtain impl where i: "call_context c = Some impl" by (auto simp: call_ok_def Let_def)
  show ?thesis
  proof (cases "is_cancelled impl")
    case True
    with i have "cancel_call c = c" by (simp add: cancel_call_def CancelOperation_def)
    with ok show ?thesis by simp
  next
    case False
    have "sent (world c) \<noteq> []" using ok by (auto simp: call_ok_def Let_def)
    with ok i False show ?thesis by (auto simp: call_ok_def call_defs Let_def)
  qed
qed

lemma release_ok: "call_ok s q c \<Longrightarrow> call_ok s q (c\<lparr>held := False\<rparr>)"
  by (simp add: call_ok_def)

lemma call_reachable_ok: "call_reachable s q c \<Longrightarrow> call_ok s q c"
proof (induction rule: call_reachable.induct)
  case (stepped c c')
  from stepped(2,3) show ?case
    by cases (auto simp: call_respond_ok wake_ok cancel_ok release_ok)
qed (rule CallApi_ok)

text \<open>The steps left before the callback is called, when the network answers and the thread wakes.\<close>

definition call_measure :: "RetrySettings \<Rightarrow> call \<Rightarrow> nat" where
  "call_measure s c = (case phase (world c) of
     Idle \<Rightarrow> 0
   | Awaiting \<Rightarrow> 2 * nat (max 1 (max_attempts s) - currentTry (world c)) + 1
   | Sleeping \<Rightarrow> 2 * nat (max 1 (max_attempts s) - currentTry (world c)))"

lemma call_measure_pos: "call_ok s q c \<Longrightarrow> phase (world c) \<noteq> Idle \<Longrightarrow> 0 < call_measure s c"
  by (auto simp: call_measure_def call_ok_def Let_def split: phase.split)

lemma respond_decreases:
  "phase (world c) = Awaiting \<Longrightarrow> call_measure s (c\<lparr>world := retry_callback s r (world c)\<rparr>) < call_measure s c"
  by (simp add: call_measure_def retry_callback_def finish_def)

lemma wake_decreases:
  assumes "call_ok s q c" "phase (world c) = Sleeping"
  shows "call_measure s (retry_after_sleep s q c) < call_measure s c"
proof -
  obtain impl where "call_context c = Some impl" using assms by (auto simp: call_ok_def Let_def)
  with assms show ?thesis
    by (cases "held c"; cases "is_cancelled impl") (auto simp: call_measure_def call_ok_def call_defs Let_def)
qed

lemma cancel_measure:
  assumes "call_ok s q c" shows "call_measure s (cancel_call c) = call_measure s c"
proof -
  obtain impl where "call_context c = Some impl" using assms by (auto simp: call_ok_def Let_def)
  with assms show ?thesis
    by (cases "is_cancelled impl") (auto simp: call_measure_def call_ok_def call_defs Let_def split: phase.splits)
qed

lemma release_measure: "call_measure s (c\<lparr>held := False\<rparr>) = call_measure s c"
  by (simp add: call_measure_def split: phase.split)

section \<open>Headers\<close>

lemma AddHeader_headers [simp]: "extra_headers (AddHeader k v r) = extra_headers r @ [(k, v)]"
  by (simp add: AddHeader_def)

lemma add_header_params_eq:
  "add_header_params ps (agent, r) =
     (agent @ concat (map (\<lambda>h. snd h @ '' '') (filter (\<lambda>h. CaseInsensitiveCompare (fst h) ''User-Agent'') ps)),
      fold (\<lambda>h r. AddHeader (fst h) (snd h) r) (filter (\<lambda>h. \<not> CaseInsensitiveCompare (fst h) ''User-Agent'') ps) r)"
  by (induction ps arbitrary: agent r) auto

lemma fold_AddHeader_headers [simp]:
  "extra_headers (fold (\<lambda>h r. AddHeader (fst h) (snd h) r) hs r) = extra_headers r @ hs"
  by (induction hs arbitrary: r) auto

lemma NetworkRequest_new_headers [simp]: "extra_headers (NetworkRequest_new now u m p v) = []"
  by (simp add: NetworkRequest_new_def SetPriority_def NetworkRequest_default_def)

lemma CreateRequest_headers:
  "extra_headers (CreateRequest sdk now c path meth qs hs body ct) =
     (case authentication_provider (client_settings c) of None \<Rightarrow> [] | Some t \<Rightarrow> [(''Authorization'', ''Bearer '' @ t)]) @
     default_headers c @ filter (\<lambda>h. \<not> CaseInsensitiveCompare (fst h) ''User-Agent'') hs @
     [(''User-Agent'', concat (map (\<lambda>h. snd h @ '' '') (filter (\<lambda>h. CaseInsensitiveCompare (fst h) ''User-Agent'') hs)) @ sdk)] @
     (if ct \<noteq> [] then [(''Content-Type'', ct)] else [])"
  by (simp add: CreateRequest_def Let_def add_header_params_eq SetContent_def split: option.split)

lemma agent_names [simp]:
  "CaseInsensitiveCompare ''User-Agent'' ''User-Agent''" "\<not> CaseInsensitiveCompare ''Authorization'' ''User-Agent''"
  "\<not> CaseInsensitiveCompare ''Content-Type'' ''User-Agent''"
  by (simp_all add: CaseInsensitiveCompare_def)

lemma agent_lower [simp]: "CaseInsensitiveCompare ''user-agent'' ''User-Agent''"
  unfolding CaseInsensitiveCompare_def tolower_def by code_simp

section \<open>Properties\<close>

text \<open>C10: in every reachable state of a call the callback was called once if the call is over and not before; at
  most the configured number of attempts was made, all with the same request; the periods slept follow the
  backdown policy; and a cancellation is passed on exactly once.\<close>

theorem olp_client_call:
  assumes "call_reachable s q c"
  shows "length (results (world c)) = (if phase (world c) = Idle then 1 else 0) \<and>
    int (length (sent (world c))) \<le> max 1 (max_attempts s) \<and> set (sent (world c)) = {q} \<and>
    slept (world c) = map (\<lambda>i. (backdown_policy s ^^ i) (initial_backdown_period s)) [0..<length (slept (world c))] \<and>
    length (forwarded (world c)) = (if IsCancelled (call_context c) then 1 else 0)"
proof -
  note ok = call_reachable_ok [OF assms]
  have "slept (world c) = map (\<lambda>i. (backdown_policy s ^^ i) (initial_backdown_period s)) [0..<length (slept (world c))]"
    using ok by (intro nth_equalityI) (simp_all add: call_ok_def Let_def)
  moreover have "length (forwarded (world c)) = (if IsCancelled (call_context c) then 1 else 0)"
    using ok by (auto simp: call_ok_def Let_def IsCancelled_def)
  ultimately show ?thesis using ok by (simp add: call_ok_def Let_def)
qed

theorem olp_client_call_witness:
  "length (results (world (CallApi RetrySettings_default (NetworkRequest_default 0)))) = 0"
proof -
  have "phase (world (CallApi RetrySettings_default (NetworkRequest_default 0))) = Awaiting"
    by (simp add: CallApi_def CancellationContext_new_def call_defs)
  with olp_client_call [OF call_reachable.called, of RetrySettings_default "NetworkRequest_default 0"] show ?thesis by simp
qed

text \<open>C36: a call ends: while it is not over, an answer of the network or the end of the sleep is possible, each of
  them lowers a measure, and neither a cancellation nor giving up the token raises it.\<close>

theorem olp_client_call_ends:
  assumes "call_reachable s q c" "phase (world c) \<noteq> Idle"
  shows "(\<exists>c'. call_step s q c c' \<and> call_measure s c' < call_measure s c) \<and>
    {c'. call_step s q c c'} \<subseteq> {c'. call_measure s c' < call_measure s c} \<union> {cancel_call c, c\<lparr>held := False\<rparr>} \<and>
    call_measure s (cancel_call c) = call_measure s c \<and> call_measure s (c\<lparr>held := False\<rparr>) = call_measure s c"
proof -
  note ok = call_reachable_ok [OF assms(1)]
  have "\<exists>c'. call_step s q c c' \<and> call_measure s c' < call_measure s c"
  proof (cases "phase (world c)")
    case Awaiting
    then show ?thesis using call_step.respond respond_decreases by blast
  next
    case Sleeping
    then show ?thesis using call_step.wake wake_decreases [OF ok] by blast
  qed (use assms in simp)
  moreover have "{c'. call_step s q c c'} \<subseteq> {c'. call_measure s c' < call_measure s c} \<union> {cancel_call c, c\<lparr>held := False\<rparr>}"
    by (auto elim!: call_step.cases simp: respond_decreases wake_decreases [OF ok])
  ultimately show ?thesis using cancel_measure [OF ok] release_measure by blast
qed

theorem olp_client_call_ends_witness:
  "\<exists>c'. call_step RetrySettings_default (NetworkRequest_default 0) (CallApi RetrySettings_default (NetworkRequest_default 0)) c' \<and>
     call_measure RetrySettings_default c' < call_measure RetrySettings_default (CallApi RetrySettings_default (NetworkRequest_default 0))"
  using olp_client_call_ends [OF call_reachable.called, of RetrySettings_default "NetworkRequest_default 0"]
  by (simp add: CallApi_def CancellationContext_new_def call_defs)

text \<open>A request has exactly one header named as the user agent in any case, with the agents of the caller
  before that of the SDK, when the default headers have none.\<close>

theorem create_request_user_agent:
  assumes "\<forall>h \<in> set (default_headers c). \<not> CaseInsensitiveCompare (fst h) ''User-Agent''"
  shows "filter (\<lambda>h. CaseInsensitiveCompare (fst h) ''User-Agent'') (extra_headers (CreateRequest sdk now c path meth qs hs body ct)) =
    [(''User-Agent'', concat (map (\<lambda>h. snd h @ '' '') (filter (\<lambda>h. CaseInsensitiveCompare (fst h) ''User-Agent'') hs)) @ sdk)]"
  using assms by (auto simp: CreateRequest_headers filter_empty_conv split: option.split)

theorem create_request_user_agent_witness:
  "filter (\<lambda>h. CaseInsensitiveCompare (fst h) ''User-Agent'')
     (extra_headers (CreateRequest ''SDK'' 0 OlpClient_new ''/a'' ''GET'' [] [(''user-agent'', ''x''), (''B'', ''y'')] None [])) =
   [(''User-Agent'', ''x SDK'')]"
  using create_request_user_agent [of OlpClient_new "''SDK''" 0 "''/a''" "''GET''" "[]" "[(''user-agent'', ''x''), (''B'', ''y'')]" None "[]"]
  by (simp add: OlpClient_new_def) (simp add: CaseInsensitiveCompare_def)

end
