(* ===== verification/Hrn.thy ===== *)
theory Hrn
  imports Prelude
begin

text \<open>
  Component core/client: HERE resource names (\<open>src/client/HRN.cpp\<close>, \<open>include/olp/core/client/HRN.h\<close>) and
  the tokenizer they are parsed with (\<open>src/client/Tokenizer.h\<close>).

  The position of the tokenizer is an option, \<open>None\<close> for \<open>npos\<close>. The \<open>assert(false)\<close> after an unknown
  service is absent in a release build and left out. Shown: the tokens are the parts between the
  separators; a name is read back from its string; names made from URLs are all equal.
\<close>

section \<open>The tokenizer\<close>

record Tokenizer =
  tok_str :: string
  tok_pos :: "nat option"
  tok_sep :: char

definition Tokenizer_new :: "string \<Rightarrow> char \<Rightarrow> Tokenizer" where
  "Tokenizer_new input separator = \<lparr>tok_str = input, tok_pos = Some 0, tok_sep = separator\<rparr>"

definition hasNext :: "Tokenizer \<Rightarrow> bool" where
  "hasNext t \<longleftrightarrow> tok_str t \<noteq> [] \<and> tok_pos t \<noteq> None"

text \<open>\<open>find_first_of(sep, pos)\<close>\<close>

definition find_first_of :: "char \<Rightarrow> string \<Rightarrow> nat \<Rightarrow> nat option" where
  "find_first_of c s p =
     (let n = length (takeWhile (\<lambda>x. x \<noteq> c) (drop p s)) in if p + n < length s then Some (p + n) else None)"

definition tok_next :: "Tokenizer \<Rightarrow> string \<times> Tokenizer" where
  "tok_next t = (case tok_pos t of
     None \<Rightarrow> ([], t)
   | Some pos \<Rightarrow>
       (case find_first_of (tok_sep t) (tok_str t) pos of
          None \<Rightarrow> (drop pos (tok_str t), t\<lparr>tok_pos := None\<rparr>)
        | Some separator_position \<Rightarrow>
            (take (separator_position - pos) (drop pos (tok_str t)), t\<lparr>tok_pos := Some (separator_position + 1)\<rparr>)))"

definition tail :: "Tokenizer \<Rightarrow> string \<times> Tokenizer" where
  "tail t = (case tok_pos t of
     None \<Rightarrow> ([], t) | Some pos \<Rightarrow> (drop pos (tok_str t), t\<lparr>tok_pos := None\<rparr>))"

definition nextUInt64 :: "Tokenizer \<Rightarrow> u64 \<times> Tokenizer" where
  "nextUInt64 t = (let (next_str, t') = tok_next t in (strtoull next_str, t'))"

text \<open>\<open>strtol\<close> saturates at the bounds of \<open>long\<close>; the cast to \<open>int\<close> keeps the low 32 bits.\<close>

definition strtol :: "string \<Rightarrow> int" where
  "strtol s =
     (let s1 = dropWhile is_space s;
          neg = (s1 \<noteq> [] \<and> hd s1 = CHR ''-'');
          s2 = (if s1 \<noteq> [] \<and> (hd s1 = CHR ''-'' \<or> hd s1 = CHR ''+'') then tl s1 else s1);
          v = int (dec_value 0 (takeWhile is_digit s2))
      in if neg then max (- (2 ^ 63)) (- v) else min (2 ^ 63 - 1) v)"

definition nextInt :: "Tokenizer \<Rightarrow> int \<times> Tokenizer" where
  "nextInt t = (let (next_str, t') = tok_next t in (sint (word_of_int (strtol next_str) :: 32 word), t'))"

section \<open>Resource names\<close>

datatype ServiceType = Unknown | Data | Schema | Pipeline

record HRN =
  hrn_partition :: string
  service :: ServiceType
  region :: string
  account :: string
  catalogId :: string
  layerId :: string
  groupId :: string
  schemaName :: string
  version :: string
  pipelineId :: string

definition HRN_null :: HRN where
  "HRN_null = \<lparr>hrn_partition = [], service = Unknown, region = [], account = [], catalogId = [], layerId = [],
     groupId = [], schemaName = [], version = [], pipelineId = []\<rparr>"

definition HRN_ToString :: "HRN \<Rightarrow> string" where
  "HRN_ToString h =
     (let genericPart = '':'' @ region h @ '':'' @ account h @ '':''
      in ''hrn:'' @ hrn_partition h @ '':'' @
        (case service h of
           Data \<Rightarrow> ''data'' @ genericPart @ catalogId h @ (if layerId h \<noteq> [] then '':'' @ layerId h else [])
         | Schema \<Rightarrow> ''schema'' @ genericPart @ groupId h @ '':'' @ schemaName h @ '':'' @ version h
         | Pipeline \<Rightarrow> ''pipeline'' @ genericPart @ pipelineId h
         | Unknown \<Rightarrow> genericPart))"

definition ToCatalogHRNString :: "HRN \<Rightarrow> string" where
  "ToCatalogHRNString h =
     (if service h \<noteq> Data then []
      else ''hrn:'' @ hrn_partition h @ '':data:'' @ region h @ '':'' @ account h @ '':'' @ catalogId h)"

text \<open>\<open>if (tokenizer.hasNext()) this->field = tokenizer.next();\<close> and the same with \<open>tail\<close>.\<close>

definition read_field :: "(Tokenizer \<Rightarrow> string \<times> Tokenizer) \<Rightarrow> (string \<Rightarrow> HRN \<Rightarrow> HRN) \<Rightarrow> Tokenizer \<times> HRN \<Rightarrow> Tokenizer \<times> HRN" where
  "read_field get set_field th =
     (let (t, h) = th in if hasNext t then let (s, t') = get t in (t', set_field s h) else (t, h))"

definition service_of :: "string \<Rightarrow> ServiceType" where
  "service_of serviceStr =
     (if serviceStr = ''data'' then Data else if serviceStr = ''schema'' then Schema
      else if serviceStr = ''pipeline'' then Pipeline else Unknown)"

definition HRN_new :: "string \<Rightarrow> HRN" where
  "HRN_new input =
     (let t = Tokenizer_new input (CHR '':'')
      in if \<not> hasNext t then HRN_null
         else let (protocol, t1) = tok_next t
         in if protocol = ''http'' \<or> protocol = ''https''
            then HRN_null\<lparr>catalogId := input, hrn_partition := ''catalog-url''\<rparr>
            else if protocol \<noteq> ''hrn'' then HRN_null
            else let
              th = read_field tok_next (\<lambda>s h. h\<lparr>hrn_partition := s\<rparr>) (t1, HRN_null);
              th = read_field tok_next (\<lambda>s h. h\<lparr>service := service_of s\<rparr>) th;
              th = read_field tok_next (\<lambda>s h. h\<lparr>region := s\<rparr>) th;
              th = read_field tok_next (\<lambda>s h. h\<lparr>account := s\<rparr>) th
            in snd (case service (snd th) of
                 Data \<Rightarrow> read_field tail (\<lambda>s h. h\<lparr>layerId := s\<rparr>) (read_field tok_next (\<lambda>s h. h\<lparr>catalogId := s\<rparr>) th)
               | Schema \<Rightarrow> read_field tail (\<lambda>s h. h\<lparr>version := s\<rparr>)
                   (read_field tok_next (\<lambda>s h. h\<lparr>schemaName := s\<rparr>) (read_field tok_next (\<lambda>s h. h\<lparr>groupId := s\<rparr>) th))
               | Pipeline \<Rightarrow> read_field tail (\<lambda>s h. h\<lparr>pipelineId := s\<rparr>) th
               | Unknown \<Rightarrow> th))"

definition HRN_eq :: "HRN \<Rightarrow> HRN \<Rightarrow> bool" where
  "HRN_eq h other \<longleftrightarrow>
     hrn_partition h = hrn_partition other \<and> service h = service other \<and> region h = region other \<and>
     account h = account other \<and>
     (case service h of
        Data \<Rightarrow> catalogId h = catalogId other \<and> layerId h = layerId other
      | Schema \<Rightarrow> groupId h = groupId other \<and> schemaName h = schemaName other \<and> version h = version other
      | Pipeline \<Rightarrow> pipelineId h = pipelineId other
      | Unknown \<Rightarrow> True)"

definition HRN_neq :: "HRN \<Rightarrow> HRN \<Rightarrow> bool" where
  "HRN_neq h other \<longleftrightarrow> \<not> HRN_eq h other"

definition HRN_IsNull :: "HRN \<Rightarrow> bool" where
  "HRN_IsNull h \<longleftrightarrow>
     hrn_partition h = [] \<and> region h = [] \<and> account h = [] \<and>
     (case service h of
        Data \<Rightarrow> catalogId h = [] \<and> layerId h = []
      | Schema \<Rightarrow> groupId h = [] \<and> schemaName h = [] \<and> version h = []
      | Pipeline \<Rightarrow> pipelineId h = []
      | Unknown \<Rightarrow> True)"

definition HRN_FromString :: "string \<Rightarrow> HRN" where
  "HRN_FromString input = HRN_new input"

definition HRN_UniqueFromString :: "string \<Rightarrow> HRN option" where
  "HRN_UniqueFromString input = Some (HRN_new input)"

section \<open>Tokens\<close>

text \<open>What is left of the input, \<open>None\<close> at the end, and the parser on it.\<close>

definition tok_at :: "string option \<Rightarrow> Tokenizer \<Rightarrow> bool" where
  "tok_at r t \<longleftrightarrow> tok_sep t = CHR '':'' \<and> tok_str t \<noteq> [] \<and> map_option (\<lambda>p. drop p (tok_str t)) (tok_pos t) = r"

definition first_token :: "string \<Rightarrow> string" where
  "first_token s = takeWhile (\<lambda>x. x \<noteq> CHR '':'') s"

definition after_token :: "string \<Rightarrow> string option" where
  "after_token s = (if CHR '':'' \<in> set s then Some (tl (dropWhile (\<lambda>x. x \<noteq> CHR '':'') s)) else None)"

lemma token_sep [simp]:
  assumes "CHR '':'' \<notin> set s"
  shows "first_token (s @ CHR '':'' # r) = s" "after_token (s @ CHR '':'' # r) = Some r"
    "first_token s = s" "after_token s = None"
proof -
  have "\<forall>x\<in>set s. x \<noteq> CHR '':''" using assms by auto
  with assms show "first_token (s @ CHR '':'' # r) = s" "after_token (s @ CHR '':'' # r) = Some r"
    "first_token s = s" "after_token s = None"
    by (simp_all add: first_token_def after_token_def takeWhile_append2 dropWhile_append2)
qed

lemma token_sep_string:
  assumes "CHR '':'' \<notin> set s"
  shows "first_token (s @ '':'' @ r) = s" "after_token (s @ '':'' @ r) = Some r"
  using assms by simp_all

lemma find_first_of_drop:
  "find_first_of c s p = (if c \<in> set (drop p s) then Some (p + length (takeWhile (\<lambda>x. x \<noteq> c) (drop p s))) else None)"
proof (cases "c \<in> set (drop p s)")
  case True
  then have "length (takeWhile (\<lambda>x. x \<noteq> c) (drop p s)) < length (drop p s)"
    by (metis (mono_tags, lifting) linorder_neqE_nat length_takeWhile_le not_less takeWhile_eq_all_conv takeWhile_eq_take take_all_iff)
  with True show ?thesis by (simp add: find_first_of_def Let_def)
next
  case False
  then have "takeWhile (\<lambda>x. x \<noteq> c) (drop p s) = drop p s" by (auto simp: takeWhile_eq_all_conv)
  with False show ?thesis by (simp del: takeWhile_eq_all_conv add: find_first_of_def Let_def)
qed

lemma tok_next_at:
  assumes "tok_at (Some s) t"
  shows "\<exists>t'. tok_next t = (first_token s, t') \<and> tok_at (after_token s) t'"
proof -
  obtain p where p: "tok_pos t = Some p" "drop p (tok_str t) = s" "tok_sep t = CHR '':''" "tok_str t \<noteq> []"
    using assms by (auto simp: tok_at_def)
  let ?n = "length (takeWhile (\<lambda>x. x \<noteq> CHR '':'') s)"
  have "take ?n s = takeWhile (\<lambda>x. x \<noteq> CHR '':'') s" by (simp add: takeWhile_eq_take [symmetric])
  moreover have "drop (Suc (p + ?n)) (tok_str t) = tl (dropWhile (\<lambda>x. x \<noteq> CHR '':'') s)"
    by (simp add: p(2) [symmetric] dropWhile_eq_drop drop_Suc tl_drop add.commute)
  moreover have "first_token s = s" if "CHR '':'' \<notin> set s" using that by simp
  ultimately show ?thesis
    using p by (simp add: tok_next_def find_first_of_drop tok_at_def after_token_def) (simp add: first_token_def)
qed

definition read_next :: "(string \<Rightarrow> HRN \<Rightarrow> HRN) \<Rightarrow> string option \<times> HRN \<Rightarrow> string option \<times> HRN" where
  "read_next f rh = (case fst rh of None \<Rightarrow> rh | Some s \<Rightarrow> (after_token s, f (first_token s) (snd rh)))"

definition read_tail :: "(string \<Rightarrow> HRN \<Rightarrow> HRN) \<Rightarrow> string option \<times> HRN \<Rightarrow> string option \<times> HRN" where
  "read_tail f rh = (case fst rh of None \<Rightarrow> rh | Some s \<Rightarrow> (None, f s (snd rh)))"

definition tok_rel :: "Tokenizer \<times> HRN \<Rightarrow> string option \<times> HRN \<Rightarrow> bool" where
  "tok_rel th rh \<longleftrightarrow> tok_at (fst rh) (fst th) \<and> snd th = snd rh"

lemma tok_at_hasNext: "tok_at r t \<Longrightarrow> hasNext t \<longleftrightarrow> r \<noteq> None"
  by (auto simp: tok_at_def hasNext_def)

lemma read_field_next: "tok_rel th rh \<Longrightarrow> tok_rel (read_field tok_next f th) (read_next f rh)"
  using tok_next_at tok_at_hasNext
  by (cases th; cases rh) (fastforce simp: tok_rel_def read_field_def read_next_def split: option.splits)

lemma read_field_tail: "tok_rel th rh \<Longrightarrow> tok_rel (read_field tail f th) (read_tail f rh)"
  using tok_at_hasNext
  by (cases th; cases rh) (auto simp: tok_rel_def read_field_def read_tail_def tail_def tok_at_def hasNext_def split: option.splits)

lemma tok_rel_snd: "tok_rel th rh \<Longrightarrow> snd th = snd rh"
  by (simp add: tok_rel_def)

definition read_generic :: "string \<Rightarrow> string option \<times> HRN" where
  "read_generic r =
     read_next (\<lambda>s h. h\<lparr>account := s\<rparr>) (read_next (\<lambda>s h. h\<lparr>region := s\<rparr>)
       (read_next (\<lambda>s h. h\<lparr>service := service_of s\<rparr>) (read_next (\<lambda>s h. h\<lparr>hrn_partition := s\<rparr>) (Some r, HRN_null))))"

lemma HRN_new_read:
  "HRN_new (''hrn:'' @ r) = snd
     (let rh = read_generic r in
      case service (snd rh) of
        Data \<Rightarrow> read_tail (\<lambda>s h. h\<lparr>layerId := s\<rparr>) (read_next (\<lambda>s h. h\<lparr>catalogId := s\<rparr>) rh)
      | Schema \<Rightarrow> read_tail (\<lambda>s h. h\<lparr>version := s\<rparr>)
          (read_next (\<lambda>s h. h\<lparr>schemaName := s\<rparr>) (read_next (\<lambda>s h. h\<lparr>groupId := s\<rparr>) rh))
      | Pipeline \<Rightarrow> read_tail (\<lambda>s h. h\<lparr>pipelineId := s\<rparr>) rh
      | Unknown \<Rightarrow> rh)"
proof -
  let ?t = "Tokenizer_new (''hrn'' @ CHR '':'' # r) (CHR '':'')"
  have t: "tok_at (Some (''hrn'' @ CHR '':'' # r)) ?t" by (simp add: tok_at_def Tokenizer_new_def)
  obtain t1 where t1: "tok_next ?t = (''hrn'', t1)" "tok_at (Some r) t1"
    using tok_next_at [OF t] token_sep(1,2) [of "''hrn''" r] by auto
  have "tok_rel (t1, HRN_null) (Some r, HRN_null)" using t1 by (simp add: tok_rel_def)
  then have g: "tok_rel (read_field tok_next (\<lambda>s h. h\<lparr>account := s\<rparr>) (read_field tok_next (\<lambda>s h. h\<lparr>region := s\<rparr>)
      (read_field tok_next (\<lambda>s h. h\<lparr>service := service_of s\<rparr>) (read_field tok_next (\<lambda>s h. h\<lparr>hrn_partition := s\<rparr>) (t1, HRN_null)))))
      (read_generic r)"
    unfolding read_generic_def by (intro read_field_next)
  show ?thesis
    using t1(1) tok_at_hasNext [OF t] tok_rel_snd [OF g]
      tok_rel_snd [OF read_field_tail [OF read_field_next [OF g]]]
      tok_rel_snd [OF read_field_tail [OF read_field_next [OF read_field_next [OF g]]]]
      tok_rel_snd [OF read_field_tail [OF g]]
    by (simp add: HRN_new_def read_generic_def Let_def split: ServiceType.split)
qed

lemma read_generic_fields:
  assumes "CHR '':'' \<notin> set p" "CHR '':'' \<notin> set sv" "CHR '':'' \<notin> set rg" "CHR '':'' \<notin> set ac"
  shows "read_generic (p @ '':'' @ sv @ '':'' @ rg @ '':'' @ ac @ '':'' @ r) =
    (Some r, HRN_null\<lparr>hrn_partition := p, service := service_of sv, region := rg, account := ac\<rparr>)"
  using assms by (simp add: read_generic_def read_next_def)

section \<open>Properties\<close>

text \<open>A name is read back from its string, as far as \<open>operator==\<close> compares it, when no field but the
  last one holds a colon.\<close>

theorem hrn_roundtrip:
  assumes "service h \<noteq> Unknown" "CHR '':'' \<notin> set (hrn_partition h @ region h @ account h)"
    "service h = Data \<longrightarrow> CHR '':'' \<notin> set (catalogId h)"
    "service h = Schema \<longrightarrow> CHR '':'' \<notin> set (groupId h @ schemaName h)"
  shows "HRN_eq (HRN_FromString (HRN_ToString h)) h"
proof -
  have g: "read_generic (hrn_partition h @ '':'' @ sv @ '':'' @ region h @ '':'' @ account h @ '':'' @ r) =
    (Some r, HRN_null\<lparr>hrn_partition := hrn_partition h, service := service_of sv, region := region h, account := account h\<rparr>)"
    if "CHR '':'' \<notin> set sv" for sv r
    using assms(2) that by (intro read_generic_fields) auto
  show ?thesis
  proof (cases "service h")
    case Data
    with assms(3) have c: "CHR '':'' \<notin> set (catalogId h)" by simp
    have "HRN_ToString h = ''hrn:'' @ hrn_partition h @ '':'' @ ''data'' @ '':'' @ region h @ '':'' @ account h @ '':'' @
        catalogId h @ (if layerId h \<noteq> [] then '':'' @ layerId h else [])"
      using Data by (simp add: HRN_ToString_def)
    with Data c show ?thesis
      by (simp add: HRN_FromString_def HRN_new_read g service_of_def Let_def HRN_eq_def HRN_null_def read_next_def read_tail_def
        token_sep_string del: append_Cons append.simps)
  next
    case Schema
    with assms(4) have c: "CHR '':'' \<notin> set (groupId h)" "CHR '':'' \<notin> set (schemaName h)" by auto
    have "HRN_ToString h = ''hrn:'' @ hrn_partition h @ '':'' @ ''schema'' @ '':'' @ region h @ '':'' @ account h @ '':'' @
        groupId h @ '':'' @ schemaName h @ '':'' @ version h"
      using Schema by (simp add: HRN_ToString_def)
    with Schema c show ?thesis
      by (simp add: HRN_FromString_def HRN_new_read g service_of_def Let_def HRN_eq_def HRN_null_def read_next_def read_tail_def
        token_sep_string del: append_Cons append.simps)
  next
    case Pipeline
    have "HRN_ToString h = ''hrn:'' @ hrn_partition h @ '':'' @ ''pipeline'' @ '':'' @ region h @ '':'' @ account h @ '':'' @ pipelineId h"
      using Pipeline by (simp add: HRN_ToString_def)
    with Pipeline show ?thesis
      by (simp add: HRN_FromString_def HRN_new_read g service_of_def Let_def HRN_eq_def HRN_null_def read_next_def read_tail_def
        token_sep_string del: append_Cons append.simps)
  qed (use assms in simp)
qed

theorem hrn_roundtrip_witness:
  "HRN_eq (HRN_FromString (HRN_ToString
     (HRN_null\<lparr>hrn_partition := ''here'', service := Data, account := ''olp-here'', catalogId := ''cat'', layerId := ''a:b''\<rparr>)))
     (HRN_null\<lparr>hrn_partition := ''here'', service := Data, account := ''olp-here'', catalogId := ''cat'', layerId := ''a:b''\<rparr>)"
  by (rule hrn_roundtrip) (simp_all add: HRN_null_def)

text \<open>The names made from any two URLs are equal, and the URL is lost in their string.\<close>

theorem hrn_urls_equal:
  "HRN_eq (HRN_FromString (''https:'' @ a)) (HRN_FromString (''https:'' @ b)) \<and>
   HRN_ToString (HRN_FromString (''https:'' @ a)) = ''hrn:catalog-url::::''"
proof -
  have u: "HRN_FromString (''https:'' @ r) = HRN_null\<lparr>catalogId := ''https:'' @ r, hrn_partition := ''catalog-url''\<rparr>" for r
  proof -
    let ?t = "Tokenizer_new (''https'' @ CHR '':'' # r) (CHR '':'')"
    have t: "tok_at (Some (''https'' @ CHR '':'' # r)) ?t" by (simp add: tok_at_def Tokenizer_new_def)
    then obtain t1 where "tok_next ?t = (''https'', t1)"
      using tok_next_at [OF t] token_sep(1) [of "''https''" r] by auto
    with tok_at_hasNext [OF t] show ?thesis by (simp add: HRN_FromString_def HRN_new_def Let_def)
  qed
  show ?thesis unfolding u by (simp add: HRN_eq_def HRN_ToString_def HRN_null_def)
qed

end
