(* ===== verification/Read_Apis.thy ===== *)
theory Read_Apis
  imports Default_Cache Olp_Client Hrn Read_Requests
begin

text \<open>
  Component dataservice-read: the data of the service (\<open>model/*.h\<close>), the calls of its REST interfaces
  (\<open>generated/api\<close>) and the lookup of the address of an interface (\<open>ApiClientLookup.cpp\<close>).

  \<open>OlpClient::CallApi\<close> with the network behind it is the parameter \<open>server\<close>, over a state \<open>'s\<close> of the
  environment: \<open>Olp_Client\<close> shows that the callback of a call is called exactly once, so a call is a
  function to the response that is passed to the callback. The JSON parsers, which are generated code over
  RapidJSON, are the record \<open>parsers\<close>. The world keeps the calls that were made.

  Shown: the lookup calls the network only for a known partition, at the address the service asks for, and
  gives the client of the first interface or an error.
\<close>

section \<open>Data of the service\<close>

record Coverage =
  admin_areas :: "string list"

record IndexDefinition =
  index_name :: string
  index_type :: string
  duration :: int
  zoomLevel :: int

record IndexProperties =
  index_ttl :: string
  index_definitions :: "IndexDefinition list"

record Creator =
  creator_id :: string

record Owner =
  creator :: Creator
  organisation :: Creator

record Partitioning =
  scheme :: string
  tile_levels :: "int list"

record LayerSchema =
  schema_hrn :: string

record StreamProperties =
  data_in_throughput_mbps :: int
  data_out_throughput_mbps :: int

record Encryption =
  algorithm :: string

record Volume =
  volume_type :: string
  max_memory_policy :: string
  package_type :: string
  encryption :: Encryption

record Layer =
  layer_id :: string
  layer_name :: string
  layer_summary :: string
  layer_description :: string
  layer_owner :: Owner
  layer_coverage :: Coverage
  layer_schema :: LayerSchema
  content_type :: string
  content_encoding :: string
  partitioning :: Partitioning
  layer_type :: string
  digest :: string
  layer_tags :: "string list"
  layer_billing_tags :: "string list"
  layer_ttl :: "int option"
  index_properties :: IndexProperties
  stream_properties :: StreamProperties
  volume :: Volume

record Notifications =
  notifications_enabled :: bool

record Catalog =
  catalog_id :: string
  catalog_hrn :: string
  catalog_name :: string
  catalog_summary :: string
  catalog_description :: string
  catalog_coverage :: Coverage
  catalog_owner :: Owner
  catalog_tags :: "string list"
  catalog_billing_tags :: "string list"
  created :: string
  layers :: "Layer list"
  catalog_version :: int
  notifications :: Notifications

record VersionResponse =
  vr_version :: int

record Partition =
  checksum :: "string option"
  compressed_data_size :: "int option"
  data_handle :: string
  data_size :: "int option"
  partition_id :: string
  partition_version :: "int option"

record Partitions =
  partitions :: "Partition list"

record LayerVersion =
  lv_layer :: string
  lv_version :: int
  lv_timestamp :: int

record LayerVersions =
  layer_versions :: "LayerVersion list"
  lvs_version :: int

record Api =
  api_name :: string
  api_version :: string
  api_base_url :: string
  api_parameters :: "(string \<times> string) list"

record ParentQuad =
  pq_additional_metadata :: "string option"
  pq_checksum :: "string option"
  pq_compressed_data_size :: "int option"
  pq_data_handle :: string
  pq_data_size :: "int option"
  pq_partition :: string
  pq_version :: int

record SubQuad =
  sq_additional_metadata :: "string option"
  sq_checksum :: "string option"
  sq_compressed_data_size :: "int option"
  sq_data_handle :: string
  sq_data_size :: "int option"
  sub_quad_key :: string
  sq_version :: int

record Index =
  parent_quads :: "ParentQuad list"
  sub_quads :: "SubQuad list"

record parsers =
  parse_Catalog :: "string \<Rightarrow> Catalog"
  parse_VersionResponse :: "string \<Rightarrow> VersionResponse"
  parse_LayerVersions :: "string \<Rightarrow> LayerVersions"
  parse_Partitions :: "string \<Rightarrow> Partitions"
  parse_Partition :: "string \<Rightarrow> Partition"
  parse_ids :: "string \<Rightarrow> string list"
  parse_Apis :: "string \<Rightarrow> Api list"
  parse_Index :: "string \<Rightarrow> Index"

section \<open>Calls\<close>

text \<open>The arguments of \<open>CallApi\<close>; form parameters are empty, there is no body and no content type.\<close>

record ApiCall =
  call_client :: OlpClient
  call_path :: string
  call_method :: string
  call_query :: "(string \<times> string) list"
  call_headers :: "(string \<times> string) list"

type_synonym 's server = "ApiCall \<Rightarrow> 's \<Rightarrow> HttpResponse \<times> 's"

record ('c, 's) read_world =
  rw_cache :: 'c
  rw_env :: 's
  rw_calls :: "ApiCall list"

definition CallApi_get :: "'s server \<Rightarrow> OlpClient \<Rightarrow> string \<Rightarrow> (string \<times> string) list \<Rightarrow> (string \<times> string) list \<Rightarrow>
    ('c, 's) read_world \<Rightarrow> HttpResponse \<times> ('c, 's) read_world" where
  "CallApi_get srv c path query headers w =
     (let call = \<lparr>call_client = c, call_path = path, call_method = ''GET'', call_query = query, call_headers = headers\<rparr>;
          (r, s) = srv call (rw_env w)
      in (r, w\<lparr>rw_env := s, rw_calls := rw_calls w @ [call]\<rparr>))"

text \<open>\<open>std::multimap::insert\<close>: behind the entries whose key is not greater.\<close>

definition multimap_insert :: "string \<Rightarrow> string \<Rightarrow> (string \<times> string) list \<Rightarrow> (string \<times> string) list" where
  "multimap_insert k v m =
     takeWhile (\<lambda>x. \<not> bytes_less k (fst x)) m @ (k, v) # dropWhile (\<lambda>x. \<not> bytes_less k (fst x)) m"

definition insert_opt :: "string \<Rightarrow> string option \<Rightarrow> (string \<times> string) list \<Rightarrow> (string \<times> string) list" where
  "insert_opt k v m = (case v of None \<Rightarrow> m | Some x \<Rightarrow> multimap_insert k x m)"

definition accept_json :: "(string \<times> string) list" where
  "accept_json = multimap_insert ''Accept'' ''application/json'' []"

text \<open>The callbacks of the calls.\<close>

definition api_response :: "(string \<Rightarrow> 'r) \<Rightarrow> HttpResponse \<Rightarrow> 'r ApiResponse" where
  "api_response parse r =
     (if status r \<noteq> 200 then Inl (ApiError_status (status r) (response r)) else Inr (parse (response r)))"

text \<open>For an empty vector \<open>end() - 1\<close> is undefined.\<close>

definition concatStringArray :: "string list \<Rightarrow> string \<Rightarrow> string option" where
  "concatStringArray strings delimiter =
     (if strings = [] then None
      else if length strings = 1 then Some (strings ! 0)
      else Some (concat (map (\<lambda>s. s @ delimiter) (butlast strings)) @ last strings))"

definition ConfigApi_GetCatalog :: "'s server \<Rightarrow> parsers \<Rightarrow> OlpClient \<Rightarrow> string \<Rightarrow> string option \<Rightarrow>
    ('c, 's) read_world \<Rightarrow> Catalog ApiResponse \<times> ('c, 's) read_world" where
  "ConfigApi_GetCatalog srv P client catalogHrn billingTag w =
     (let (r, w1) = CallApi_get srv client (''/catalogs/'' @ catalogHrn) (insert_opt ''billingTag'' billingTag []) accept_json w
      in (api_response (parse_Catalog P) r, w1))"

definition MetadataApi_GetLayerVersions :: "'s server \<Rightarrow> parsers \<Rightarrow> OlpClient \<Rightarrow> int \<Rightarrow> string option \<Rightarrow>
    ('c, 's) read_world \<Rightarrow> LayerVersions ApiResponse \<times> ('c, 's) read_world" where
  "MetadataApi_GetLayerVersions srv P client ver billingTag w =
     (let queryParams = insert_opt ''billingTag'' billingTag (multimap_insert ''version'' (to_string_int ver) []);
          (r, w1) = CallApi_get srv client ''/layerVersions'' queryParams accept_json w
      in (api_response (parse_LayerVersions P) r, w1))"

definition MetadataApi_GetPartitions :: "'s server \<Rightarrow> parsers \<Rightarrow> OlpClient \<Rightarrow> string \<Rightarrow> int option \<Rightarrow> string list option \<Rightarrow>
    string option \<Rightarrow> string option \<Rightarrow> ('c, 's) read_world \<Rightarrow> (Partitions ApiResponse \<times> ('c, 's) read_world) option" where
  "MetadataApi_GetPartitions srv P client lid ver additionalFields byte_range billingTag w = do {
     fields \<leftarrow> (case additionalFields of None \<Rightarrow> Some None | Some fs \<Rightarrow> map_option Some (concatStringArray fs '',''));
     let headerParams = insert_opt ''Range'' byte_range accept_json;
     let queryParams = insert_opt ''version'' (map_option to_string_int ver)
           (insert_opt ''billingTag'' billingTag (insert_opt ''additionalFields'' fields []));
     let (r, w1) = CallApi_get srv client (''/layers/'' @ lid @ ''/partitions'') queryParams headerParams w;
     Some (api_response (parse_Partitions P) r, w1)
   }"

definition MetadataApi_GetLatestCatalogVersion :: "'s server \<Rightarrow> parsers \<Rightarrow> OlpClient \<Rightarrow> int \<Rightarrow> string option \<Rightarrow>
    ('c, 's) read_world \<Rightarrow> VersionResponse ApiResponse \<times> ('c, 's) read_world" where
  "MetadataApi_GetLatestCatalogVersion srv P client startVersion billingTag w =
     (let queryParams = insert_opt ''billingTag'' billingTag (multimap_insert ''startVersion'' (to_string_int startVersion) []);
          (r, w1) = CallApi_get srv client ''/versions/latest'' queryParams accept_json w
      in (api_response (parse_VersionResponse P) r, w1))"

definition QueryApi_GetPartitionsbyId :: "'s server \<Rightarrow> parsers \<Rightarrow> OlpClient \<Rightarrow> string \<Rightarrow> string list \<Rightarrow> int option \<Rightarrow> string list option \<Rightarrow>
    string option \<Rightarrow> ('c, 's) read_world \<Rightarrow> (Partitions ApiResponse \<times> ('c, 's) read_world) option" where
  "QueryApi_GetPartitionsbyId srv P client lid ids ver additionalFields billingTag w = do {
     ps \<leftarrow> concatStringArray ids ''&partition='';
     fields \<leftarrow> (case additionalFields of None \<Rightarrow> Some None | Some fs \<Rightarrow> map_option Some (concatStringArray fs '',''));
     let queryParams = insert_opt ''version'' (map_option to_string_int ver)
           (insert_opt ''billingTag'' billingTag (insert_opt ''additionalFields'' fields (multimap_insert ''partition'' ps [])));
     let (r, w1) = CallApi_get srv client (''/layers/'' @ lid @ ''/partitions'') queryParams accept_json w;
     Some (api_response (parse_Partitions P) r, w1)
   }"

definition QueryApi_QuadTreeIndex :: "'s server \<Rightarrow> parsers \<Rightarrow> OlpClient \<Rightarrow> string \<Rightarrow> int \<Rightarrow> string \<Rightarrow> int \<Rightarrow> string list option \<Rightarrow>
    string option \<Rightarrow> ('c, 's) read_world \<Rightarrow> (Index ApiResponse \<times> ('c, 's) read_world) option" where
  "QueryApi_QuadTreeIndex srv P client lid ver quadKey depth additionalFields billingTag w = do {
     fields \<leftarrow> (case additionalFields of None \<Rightarrow> Some None | Some fs \<Rightarrow> map_option Some (concatStringArray fs '',''));
     let queryParams = insert_opt ''billingTag'' billingTag (insert_opt ''additionalFields'' fields []);
     let (r, w1) = CallApi_get srv client
           (''/layers/'' @ lid @ ''/versions/'' @ to_string_int ver @ ''/quadkeys/'' @ quadKey @ ''/depths/'' @ to_string_int depth)
           queryParams accept_json w;
     Some (api_response (parse_Index P) r, w1)
   }"

definition BlobApi_GetBlob :: "'s server \<Rightarrow> OlpClient \<Rightarrow> string \<Rightarrow> string \<Rightarrow> string option \<Rightarrow> string option \<Rightarrow>
    ('c, 's) read_world \<Rightarrow> string ApiResponse \<times> ('c, 's) read_world" where
  "BlobApi_GetBlob srv client lid dataHandle billingTag byte_range w =
     (let (r, w1) = CallApi_get srv client (''/layers/'' @ lid @ ''/data/'' @ dataHandle)
            (insert_opt ''billingTag'' billingTag []) (insert_opt ''Range'' byte_range accept_json) w
      in (api_response (\<lambda>s. s) r, w1))"

definition VolatileBlobApi_GetVolatileBlob :: "'s server \<Rightarrow> OlpClient \<Rightarrow> string \<Rightarrow> string \<Rightarrow> string option \<Rightarrow>
    ('c, 's) read_world \<Rightarrow> string ApiResponse \<times> ('c, 's) read_world" where
  "VolatileBlobApi_GetVolatileBlob srv client lid dataHandle billingTag w =
     (let (r, w1) = CallApi_get srv client (''/layers/'' @ lid @ ''/data/'' @ dataHandle)
            (insert_opt ''billingTag'' billingTag []) accept_json w
      in (api_response (\<lambda>s. s) r, w1))"

definition PlatformApi_GetApis :: "'s server \<Rightarrow> parsers \<Rightarrow> OlpClient \<Rightarrow> string \<Rightarrow> string \<Rightarrow>
    ('c, 's) read_world \<Rightarrow> Api list ApiResponse \<times> ('c, 's) read_world" where
  "PlatformApi_GetApis srv P client serviceName serviceVersion w =
     (let (r, w1) = CallApi_get srv client (''/platform/apis/'' @ serviceName @ ''/'' @ serviceVersion) [] accept_json w
      in (api_response (parse_Apis P) r, w1))"

definition ResourcesApi_GetApis :: "'s server \<Rightarrow> parsers \<Rightarrow> OlpClient \<Rightarrow> string \<Rightarrow> string \<Rightarrow> string \<Rightarrow>
    ('c, 's) read_world \<Rightarrow> Api list ApiResponse \<times> ('c, 's) read_world" where
  "ResourcesApi_GetApis srv P client hrn serviceName serviceVersion w =
     (let (r, w1) = CallApi_get srv client (''/resources/'' @ hrn @ ''/apis/'' @ serviceName @ ''/'' @ serviceVersion) [] accept_json w
      in (api_response (parse_Apis P) r, w1))"

section \<open>Lookup of an interface\<close>

definition GetDatastoreServerUrl :: "string \<Rightarrow> string" where
  "GetDatastoreServerUrl partition_name =
     (case map_of [(''here'', ''data.api.platform.here.com''), (''here-dev'', ''data.api.platform.in.here.com''),
                   (''here-cn'', ''data.api.platform.hereolp.cn''), (''here-cn-dev'', ''data.api.platform.in.hereolp.cn'')] partition_name of
        Some server_url \<Rightarrow> ''https://api-lookup.'' @ server_url @ ''/lookup/v1''
      | None \<Rightarrow> [])"

text \<open>The client is shared with the callback; it is returned with its base address set.\<close>

definition LookupApi :: "'s server \<Rightarrow> parsers \<Rightarrow> OlpClient \<Rightarrow> string \<Rightarrow> string \<Rightarrow> HRN \<Rightarrow>
    ('c, 's) read_world \<Rightarrow> Api list ApiResponse \<times> OlpClient \<times> ('c, 's) read_world" where
  "LookupApi srv P client serviceName serviceVersion hrn w =
     (let url = GetDatastoreServerUrl (hrn_partition hrn)
      in if url = [] then (Inl (ApiError_code ErrNotFound ''Invalid or broken HRN'' False), client, w)
         else let client = SetBaseUrl url client;
                  (r, w1) = (if serviceName = ''config'' then PlatformApi_GetApis srv P client serviceName serviceVersion w
                             else ResourcesApi_GetApis srv P client (ToCatalogHRNString hrn) serviceName serviceVersion w)
              in (r, client, w1))"

definition LookupApiClient :: "'s server \<Rightarrow> parsers \<Rightarrow> OlpClient \<Rightarrow> string \<Rightarrow> string \<Rightarrow> HRN \<Rightarrow>
    ('c, 's) read_world \<Rightarrow> OlpClient ApiResponse \<times> ('c, 's) read_world" where
  "LookupApiClient srv P client serviceName serviceVersion hrn w =
     (let (r, client, w1) = LookupApi srv P client serviceName serviceVersion hrn w
      in case r of
           Inl e \<Rightarrow> (Inl e, w1)
         | Inr apis \<Rightarrow>
             (if length apis < 1
              then (Inl (ApiError_code ErrServiceUnavailable ''Service/Version not available for given HRN'' False), w1)
              else (Inr (SetBaseUrl (api_base_url (apis ! 0)) client), w1)))"


lemma concatStringArray_some: "concatStringArray ids d = None \<longleftrightarrow> ids = []"
  by (simp add: concatStringArray_def)

text \<open>
  The client of an interface is found only for the four known partitions: for any other an error comes
  back without a network call. Otherwise one call is made, at the lookup address of the partition, to the
  platform for the service config and to the catalog for every other service; the client has the address
  of the first interface in the answer, an empty answer and a failure are errors.
\<close>

theorem lookup_api_client:
  "LookupApiClient srv P client serviceName serviceVersion hrn w =
     (if hrn_partition hrn \<notin> {''here'', ''here-dev'', ''here-cn'', ''here-cn-dev''}
      then (Inl (ApiError_code ErrNotFound ''Invalid or broken HRN'' False), w)
      else let call = \<lparr>call_client = SetBaseUrl (GetDatastoreServerUrl (hrn_partition hrn)) client,
             call_path = (if serviceName = ''config'' then ''/platform/apis/config/'' @ serviceVersion
               else ''/resources/'' @ ToCatalogHRNString hrn @ ''/apis/'' @ serviceName @ ''/'' @ serviceVersion),
             call_method = ''GET'', call_query = [], call_headers = [(''Accept'', ''application/json'')]\<rparr>;
           (r, s) = srv call (rw_env w)
      in (if status r \<noteq> 200 then Inl (ApiError_status (status r) (response r))
          else case parse_Apis P (response r) of
                 [] \<Rightarrow> Inl (ApiError_code ErrServiceUnavailable ''Service/Version not available for given HRN'' False)
               | api # _ \<Rightarrow> Inr (SetBaseUrl (api_base_url api) client),
          w\<lparr>rw_env := s, rw_calls := rw_calls w @ [call]\<rparr>))"
proof -
  have acc: "accept_json = [(''Accept'', ''application/json'')]" by (simp add: accept_json_def multimap_insert_def)
  have url: "GetDatastoreServerUrl p = [] \<longleftrightarrow> p \<notin> {''here'', ''here-dev'', ''here-cn'', ''here-cn-dev''}" for p
    by (simp add: GetDatastoreServerUrl_def)
  have twice: "SetBaseUrl u (SetBaseUrl v c) = SetBaseUrl u c" for u v c by (simp add: SetBaseUrl_def)
  show ?thesis
    by (cases "GetDatastoreServerUrl (hrn_partition hrn) = []")
      (simp_all add: LookupApiClient_def LookupApi_def url PlatformApi_GetApis_def ResourcesApi_GetApis_def CallApi_get_def
        api_response_def acc twice Let_def split_beta split: list.splits)
qed

end
