(* ===== verification/Cache_Repositories.thy ===== *)
theory Cache_Repositories
  imports Read_Apis "HOL-Library.Sublist"
begin

text \<open>
  Component dataservice-read: what the repositories keep in the cache (\<open>repositories/*CacheRepository.cpp\<close>),
  over the interface \<open>KeyValueCache\<close>.

  The interface is a record of operations on a state \<open>'c\<close>; an operation that throws gives \<open>None\<close>, and so
  does \<open>boost::any_cast\<close> to the wrong type. Its laws are the locale \<open>key_value_cache\<close>, and the default cache
  in memory is shown to satisfy them. The serializers and parsers are generated code and parameters.

  Shown: every repository reads back what it wrote or nothing, never an older value; no sequence of
  repository operations makes a cast fail as long as layer names hold no colon; clearing is by prefix, and
  so clears the entries of other catalogs and partitions whose name begins alike.
\<close>

section \<open>The interface\<close>

datatype cached = CCatalog Catalog | CVersion VersionResponse | CLayerVersions LayerVersions | CPartition Partition
  | CIds "string list" | CString string

record 'c KeyValueCache =
  kv_Put :: "string \<Rightarrow> cached any \<Rightarrow> string \<Rightarrow> time_t \<Rightarrow> 'c \<Rightarrow> (bool \<times> 'c) option"
  kv_Put_data :: "string \<Rightarrow> string \<Rightarrow> time_t \<Rightarrow> 'c \<Rightarrow> (bool \<times> 'c) option"
  kv_Get :: "string \<Rightarrow> (string \<Rightarrow> cached any) \<Rightarrow> 'c \<Rightarrow> (cached any \<times> 'c) option"
  kv_Get_data :: "string \<Rightarrow> 'c \<Rightarrow> (string option \<times> 'c) option"
  kv_Remove :: "string \<Rightarrow> 'c \<Rightarrow> (bool \<times> 'c) option"
  kv_RemoveKeysWithPrefix :: "string \<Rightarrow> 'c \<Rightarrow> (bool \<times> 'c) option"

text \<open>A cache repository: the catalog and the cache, with the serializer and the parsers it calls.\<close>

record 'c cache_repo =
  repo_hrn :: HRN
  repo_cache :: "'c KeyValueCache"
  repo_serialize :: "cached \<Rightarrow> string"
  repo_parsers :: parsers

definition put_model :: "'c cache_repo \<Rightarrow> string \<Rightarrow> cached \<Rightarrow> time_t \<Rightarrow> 'c \<Rightarrow> 'c option" where
  "put_model R key m expiry c = map_option snd (kv_Put (repo_cache R) key (AnyModel m) (repo_serialize R m) expiry c)"

text \<open>Reading, with the decoder and the cast.\<close>

definition get_model :: "'c cache_repo \<Rightarrow> string \<Rightarrow> (string \<Rightarrow> cached) \<Rightarrow> (cached \<Rightarrow> 'm option) \<Rightarrow> 'c \<Rightarrow> ('m option \<times> 'c) option" where
  "get_model R key decode cast c = do {
     (v, c1) \<leftarrow> kv_Get (repo_cache R) key (\<lambda>s. AnyModel (decode s)) c;
     case v of
       AnyEmpty \<Rightarrow> Some (None, c1)
     | AnyBytes _ \<Rightarrow> None
     | AnyModel x \<Rightarrow> map_option (\<lambda>m. (Some m, c1)) (cast x)
   }"

fun cast_Catalog :: "cached \<Rightarrow> Catalog option" where "cast_Catalog (CCatalog x) = Some x" | "cast_Catalog _ = None"
fun cast_Version :: "cached \<Rightarrow> VersionResponse option" where "cast_Version (CVersion x) = Some x" | "cast_Version _ = None"
fun cast_LayerVersions :: "cached \<Rightarrow> LayerVersions option" where
  "cast_LayerVersions (CLayerVersions x) = Some x" | "cast_LayerVersions _ = None"
fun cast_Partition :: "cached \<Rightarrow> Partition option" where "cast_Partition (CPartition x) = Some x" | "cast_Partition _ = None"
fun cast_Ids :: "cached \<Rightarrow> string list option" where "cast_Ids (CIds x) = Some x" | "cast_Ids _ = None"
fun cast_String :: "cached \<Rightarrow> string option" where "cast_String (CString x) = Some x" | "cast_String _ = None"

section \<open>Addresses of interfaces\<close>

definition api_key :: "string \<Rightarrow> string \<Rightarrow> string \<Rightarrow> string" where
  "api_key hrn serviceName serviceVersion = hrn @ ''::'' @ serviceName @ ''::'' @ serviceVersion @ ''::api''"

definition ApiCache_Put :: "'c cache_repo \<Rightarrow> string \<Rightarrow> string \<Rightarrow> string \<Rightarrow> 'c \<Rightarrow> 'c option" where
  "ApiCache_Put R serviceName serviceVersion serviceUrl c =
     map_option snd (kv_Put (repo_cache R) (api_key (ToCatalogHRNString (repo_hrn R)) serviceName serviceVersion)
       (AnyModel (CString serviceUrl)) serviceUrl 3600 c)"

definition ApiCache_Get :: "'c cache_repo \<Rightarrow> string \<Rightarrow> string \<Rightarrow> 'c \<Rightarrow> (string option \<times> 'c) option" where
  "ApiCache_Get R serviceName serviceVersion =
     get_model R (api_key (ToCatalogHRNString (repo_hrn R)) serviceName serviceVersion) CString cast_String"

section \<open>Catalogs\<close>

definition catalog_key :: "string \<Rightarrow> string" where
  "catalog_key hrn = hrn @ ''::catalog''"

definition VersionKey :: "string \<Rightarrow> string" where
  "VersionKey hrn = hrn @ ''::latestVersion''"

definition CatalogCache_Put :: "'c cache_repo \<Rightarrow> Catalog \<Rightarrow> 'c \<Rightarrow> 'c option" where
  "CatalogCache_Put R catalog = put_model R (catalog_key (ToCatalogHRNString (repo_hrn R))) (CCatalog catalog) time_max"

definition CatalogCache_Get :: "'c cache_repo \<Rightarrow> 'c \<Rightarrow> (Catalog option \<times> 'c) option" where
  "CatalogCache_Get R = get_model R (catalog_key (ToCatalogHRNString (repo_hrn R)))
     (\<lambda>s. CCatalog (parse_Catalog (repo_parsers R) s)) cast_Catalog"

definition CatalogCache_PutVersion :: "'c cache_repo \<Rightarrow> VersionResponse \<Rightarrow> 'c \<Rightarrow> 'c option" where
  "CatalogCache_PutVersion R v = put_model R (VersionKey (ToCatalogHRNString (repo_hrn R))) (CVersion v) time_max"

definition CatalogCache_GetVersion :: "'c cache_repo \<Rightarrow> 'c \<Rightarrow> (VersionResponse option \<times> 'c) option" where
  "CatalogCache_GetVersion R = get_model R (VersionKey (ToCatalogHRNString (repo_hrn R)))
     (\<lambda>s. CVersion (parse_VersionResponse (repo_parsers R) s)) cast_Version"

definition CatalogCache_Clear :: "'c cache_repo \<Rightarrow> 'c \<Rightarrow> 'c option" where
  "CatalogCache_Clear R c = map_option snd (kv_RemoveKeysWithPrefix (repo_cache R) (ToCatalogHRNString (repo_hrn R)) c)"

section \<open>Data\<close>

definition data_key :: "string \<Rightarrow> string \<Rightarrow> string \<Rightarrow> string" where
  "data_key hrn lid datahandle = hrn @ ''::'' @ lid @ ''::'' @ datahandle @ ''::Data''"

definition DataCache_Put :: "'c cache_repo \<Rightarrow> string \<Rightarrow> string \<Rightarrow> string \<Rightarrow> 'c \<Rightarrow> 'c option" where
  "DataCache_Put R data lid handle c =
     map_option snd (kv_Put_data (repo_cache R) (data_key (ToCatalogHRNString (repo_hrn R)) lid handle) data time_max c)"

definition DataCache_Get :: "'c cache_repo \<Rightarrow> string \<Rightarrow> string \<Rightarrow> 'c \<Rightarrow> (string option \<times> 'c) option" where
  "DataCache_Get R lid handle = kv_Get_data (repo_cache R) (data_key (ToCatalogHRNString (repo_hrn R)) lid handle)"

definition DataCache_Clear :: "'c cache_repo \<Rightarrow> string \<Rightarrow> string \<Rightarrow> 'c \<Rightarrow> 'c option" where
  "DataCache_Clear R lid handle c =
     map_option snd (kv_RemoveKeysWithPrefix (repo_cache R) (data_key (ToCatalogHRNString (repo_hrn R)) lid handle) c)"

section \<open>Partitions\<close>

definition partition_key :: "string \<Rightarrow> string \<Rightarrow> string \<Rightarrow> int option \<Rightarrow> string" where
  "partition_key hrn lid pid ver =
     hrn @ ''::'' @ lid @ ''::'' @ pid @ ''::'' @ (case ver of Some v \<Rightarrow> to_string_int v @ ''::partition'' | None \<Rightarrow> [])"

definition partitions_key :: "string \<Rightarrow> string \<Rightarrow> int option \<Rightarrow> string" where
  "partitions_key hrn lid ver =
     hrn @ ''::'' @ lid @ ''::'' @ (case ver of Some v \<Rightarrow> to_string_int v @ ''::partitions'' | None \<Rightarrow> [])"

definition layer_versions_key :: "string \<Rightarrow> int \<Rightarrow> string" where
  "layer_versions_key hrn catalogVersion = hrn @ ''::'' @ to_string_int catalogVersion @ ''::layerVersions''"

definition PartitionsCache_Put :: "'c cache_repo \<Rightarrow> PartitionsRequest \<Rightarrow> Partitions \<Rightarrow> time_t option \<Rightarrow> bool \<Rightarrow> 'c \<Rightarrow> 'c option" where
  "PartitionsCache_Put R request ps expiry allLayer c =
     (let hrn = ToCatalogHRNString (repo_hrn R); e = (case expiry of None \<Rightarrow> time_max | Some t \<Rightarrow> t)
      in do {
        c1 \<leftarrow> fold_option (\<lambda>p. put_model R (partition_key hrn (pr_layer_id request) (partition_id p) (pr_version request)) (CPartition p) e)
                (partitions ps) c;
        if allLayer
        then put_model R (partitions_key hrn (pr_layer_id request) (pr_version request)) (CIds (map partition_id (partitions ps))) e c1
        else Some c1
      })"

fun PartitionsCache_Get_loop :: "'c cache_repo \<Rightarrow> PartitionsRequest \<Rightarrow> string list \<Rightarrow> 'c \<Rightarrow> (Partition list \<times> 'c) option" where
  "PartitionsCache_Get_loop R request [] c = Some ([], c)"
| "PartitionsCache_Get_loop R request (pid # ids) c = do {
     (p, c1) \<leftarrow> get_model R (partition_key (ToCatalogHRNString (repo_hrn R)) (pr_layer_id request) pid (pr_version request))
                  (\<lambda>s. CPartition (parse_Partition (repo_parsers R) s)) cast_Partition c;
     (ps, c2) \<leftarrow> PartitionsCache_Get_loop R request ids c1;
     Some (case p of None \<Rightarrow> ps | Some q \<Rightarrow> q # ps, c2)
   }"

definition PartitionsCache_Get_ids :: "'c cache_repo \<Rightarrow> PartitionsRequest \<Rightarrow> string list \<Rightarrow> 'c \<Rightarrow> (Partitions \<times> 'c) option" where
  "PartitionsCache_Get_ids R request ids c =
     map_option (\<lambda>(ps, c1). (\<lparr>partitions = ps\<rparr>, c1)) (PartitionsCache_Get_loop R request ids c)"

definition PartitionsCache_Get :: "'c cache_repo \<Rightarrow> PartitionsRequest \<Rightarrow> 'c \<Rightarrow> (Partitions option \<times> 'c) option" where
  "PartitionsCache_Get R request c = do {
     (cachedIds, c1) \<leftarrow> get_model R (partitions_key (ToCatalogHRNString (repo_hrn R)) (pr_layer_id request) (pr_version request))
                          (\<lambda>s. CIds (parse_ids (repo_parsers R) s)) cast_Ids c;
     case cachedIds of
       None \<Rightarrow> Some (None, c1)
     | Some ids \<Rightarrow> map_option (\<lambda>(ps, c2). (Some ps, c2)) (PartitionsCache_Get_ids R request ids c1)
   }"

definition PartitionsCache_PutLayerVersions :: "'c cache_repo \<Rightarrow> int \<Rightarrow> LayerVersions \<Rightarrow> 'c \<Rightarrow> 'c option" where
  "PartitionsCache_PutLayerVersions R catalogVersion lvs =
     put_model R (layer_versions_key (ToCatalogHRNString (repo_hrn R)) catalogVersion) (CLayerVersions lvs) time_max"

definition PartitionsCache_GetLayerVersions :: "'c cache_repo \<Rightarrow> int \<Rightarrow> 'c \<Rightarrow> (LayerVersions option \<times> 'c) option" where
  "PartitionsCache_GetLayerVersions R catalogVersion =
     get_model R (layer_versions_key (ToCatalogHRNString (repo_hrn R)) catalogVersion)
       (\<lambda>s. CLayerVersions (parse_LayerVersions (repo_parsers R) s)) cast_LayerVersions"

definition PartitionsCache_Clear :: "'c cache_repo \<Rightarrow> string \<Rightarrow> 'c \<Rightarrow> 'c option" where
  "PartitionsCache_Clear R lid c =
     map_option snd (kv_RemoveKeysWithPrefix (repo_cache R) (partitions_key (ToCatalogHRNString (repo_hrn R)) lid None) c)"

definition PartitionsCache_ClearPartitions :: "'c cache_repo \<Rightarrow> PartitionsRequest \<Rightarrow> string list \<Rightarrow> 'c \<Rightarrow> 'c option" where
  "PartitionsCache_ClearPartitions R request ids c = do {
     (cachedPartitions, c1) \<leftarrow> PartitionsCache_Get_ids R request ids c;
     let pre = ToCatalogHRNString (repo_hrn R) @ ''::'' @ pr_layer_id request @ ''::'';
     fold_option (\<lambda>p c. do {
         c \<leftarrow> map_option snd (kv_RemoveKeysWithPrefix (repo_cache R) (pre @ data_handle p) c);
         map_option snd (kv_RemoveKeysWithPrefix (repo_cache R) (pre @ partition_id p) c)
       }) (partitions cachedPartitions) c1
   }"

section \<open>The laws of the interface\<close>

text \<open>
  \<open>item c k\<close> is what a read of \<open>k\<close> finds. A cache may drop items when it stores one and when it finds one
  expired; it never changes the value of a key but by a \<open>Put\<close> of this key, which may be refused when the
  item would expire at once.
\<close>

definition put_effect :: "time_t \<Rightarrow> (string \<rightharpoonup> 'v) \<Rightarrow> string \<Rightarrow> 'v \<Rightarrow> (string \<rightharpoonup> 'v) \<Rightarrow> bool" where
  "put_effect expiry f k v g \<longleftrightarrow> g \<subseteq>\<^sub>m f(k \<mapsto> v) \<or> expiry \<le> 0 \<and> g \<subseteq>\<^sub>m f"

locale key_value_cache =
  fixes K :: "'c KeyValueCache" and ok :: "'c \<Rightarrow> bool" and item :: "'c \<Rightarrow> string \<Rightarrow> cached any option"
  assumes item_nonempty: "ok c \<Longrightarrow> item c k \<noteq> Some AnyEmpty"
    and put: "ok c \<Longrightarrow> \<exists>r c'. kv_Put K k v e x c = Some (r, c') \<and> ok c' \<and> put_effect x (item c) k v (item c')"
    and put_data: "ok c \<Longrightarrow> \<exists>r c'. kv_Put_data K k b x c = Some (r, c') \<and> ok c' \<and> put_effect x (item c) k (AnyBytes b) (item c')"
    and get: "ok c \<Longrightarrow> \<exists>c'. kv_Get K k dec c = Some (case item c k of None \<Rightarrow> AnyEmpty | Some v \<Rightarrow> v, c') \<and> ok c' \<and> item c' \<subseteq>\<^sub>m item c"
    and get_data: "ok c \<Longrightarrow> (\<nexists>m. item c k = Some (AnyModel m)) \<Longrightarrow>
      \<exists>c'. kv_Get_data K k c = Some (case item c k of Some (AnyBytes b) \<Rightarrow> Some b | _ \<Rightarrow> None, c') \<and> ok c' \<and> item c' \<subseteq>\<^sub>m item c"
    and remove_prefix: "ok c \<Longrightarrow> \<exists>r c'. kv_RemoveKeysWithPrefix K p c = Some (r, c') \<and> ok c' \<and> item c' = item c |` {k. \<not> prefix p k}"
begin

lemma put_model_law:
  assumes "repo_cache R = K" "ok c"
  shows "\<exists>c'. put_model R k m x c = Some c' \<and> ok c' \<and> put_effect x (item c) k (AnyModel m) (item c')"
  using put [OF assms(2), of k "AnyModel m" "repo_serialize R m" x] assms(1) by (auto simp: put_model_def)

lemma get_model_law:
  assumes "repo_cache R = K" "ok c" "\<And>v. item c k = Some v \<Longrightarrow> \<exists>x m. v = AnyModel x \<and> cast x = Some m"
  shows "\<exists>c'. get_model R k dec cast c = Some (case item c k of Some (AnyModel x) \<Rightarrow> cast x | _ \<Rightarrow> None, c') \<and> ok c' \<and> item c' \<subseteq>\<^sub>m item c"
  using get [OF assms(2), of k "\<lambda>s. AnyModel (dec s)"] assms(1,3)
  by (cases "item c k") (fastforce simp: get_model_def)+

lemma remove_law:
  assumes "repo_cache R = K" "ok c"
  shows "\<exists>c'. map_option snd (kv_RemoveKeysWithPrefix (repo_cache R) p c) = Some c' \<and> ok c' \<and> item c' = item c |` {k. \<not> prefix p k}"
  using remove_prefix [OF assms(2), of p] assms(1) by auto

end

section \<open>The default cache in memory\<close>

definition throws :: "cache_error + 'r \<times> 'w \<times> 'd \<Rightarrow> ('r \<times> 'w \<times> 'd) option" where
  "throws x = (case x of Inl _ \<Rightarrow> None | Inr r \<Rightarrow> Some r)"

definition DefaultCache_kv :: "'w storage_ops \<Rightarrow> time_t \<Rightarrow> ('w \<times> cached DefaultCache) KeyValueCache" where
  "DefaultCache_kv S now =
     \<lparr>kv_Put = \<lambda>key value encoded expiry (w, c). throws (DefaultCache_Put S now w c key value (\<lambda>_. encoded) expiry),
      kv_Put_data = \<lambda>key value expiry (w, c). throws (DefaultCache_Put_data S now w c key value expiry),
      kv_Get = \<lambda>key decoder (w, c). throws (DefaultCache_Get S now w c key decoder),
      kv_Get_data = \<lambda>key (w, c). throws (DefaultCache_Get_data S now w c key),
      kv_Remove = \<lambda>key (w, c). throws (DefaultCache_Remove S w c key),
      kv_RemoveKeysWithPrefix = \<lambda>p (w, c). throws (DefaultCache_RemoveKeysWithPrefix S w c p)\<rparr>"

definition mem_item :: "time_t \<Rightarrow> 'a any InMemoryCache \<Rightarrow> string \<Rightarrow> 'a any option" where
  "mem_item now m k =
     (case InMemoryCache_Get now m k of Some (Some v, _) \<Rightarrow> if v = AnyEmpty then None else Some v | _ \<Rightarrow> None)"

definition memory_only :: "'w \<times> 'a DefaultCache \<Rightarrow> bool" where
  "memory_only wc \<longleftrightarrow> is_open (snd wc) \<and> disk_cache (snd wc) = None \<and> (\<exists>m. memory_cache (snd wc) = Some m \<and> memory_ok m)"

definition memory_item :: "time_t \<Rightarrow> 'w \<times> 'a DefaultCache \<Rightarrow> string \<Rightarrow> 'a any option" where
  "memory_item now wc k = (case memory_cache (snd wc) of None \<Rightarrow> None | Some m \<Rightarrow> mem_item now m k)"

definition spec_item :: "time_t \<Rightarrow> (string \<rightharpoonup> 'a any ItemTuple) \<Rightarrow> string \<Rightarrow> 'a any option" where
  "spec_item now f k = (case f k of None \<Rightarrow> None
     | Some i \<Rightarrow> if item_expiry i < now \<or> item_any i = AnyEmpty then None else Some (item_any i))"

lemma mem_item_rel: "mem_rel cost m (xs, mx, ex) \<Longrightarrow> mem_item now m = spec_item now (map_of xs)"
  using Get_refines [of cost m xs mx ex now]
  by (intro ext) (fastforce simp: mem_item_def spec_item_def split: option.splits if_splits)

lemma spec_item_mono: "f \<subseteq>\<^sub>m g \<Longrightarrow> spec_item now f \<subseteq>\<^sub>m spec_item now g"
  by (auto simp: map_le_def spec_item_def dom_def split: option.splits if_splits)

lemma spec_item_upd: "spec_item now (f(k \<mapsto> i)) \<subseteq>\<^sub>m (spec_item now f)(k \<mapsto> item_any i)"
  by (auto simp: map_le_def spec_item_def split: if_splits)

lemma map_of_trim: "map_of (trim cost mx xs) \<subseteq>\<^sub>m map_of xs"
proof -
  obtain ys where "xs = trim cost mx xs @ ys" using trim_prefix by blast
  then show ?thesis by (metis map_le_map_add map_of_append)
qed

lemma map_of_filter_le: "map_of (filter (\<lambda>x. fst x \<notin> A) xs) \<subseteq>\<^sub>m map_of xs"
  by (auto simp: map_le_def map_of_filter_in split: if_splits)

lemma map_le_upd_None: "f \<subseteq>\<^sub>m g \<Longrightarrow> f k = None \<Longrightarrow> f \<subseteq>\<^sub>m g(k \<mapsto> x)"
  by (auto simp: map_le_def dom_def)

lemma mem_put_map:
  assumes "snd (mem_spec_step cost (xs, mx, ex) (MPut now k v e s)) = (ys, mx', ex')"
  shows "put_effect e (spec_item now (map_of xs)) k v (spec_item now (map_of ys))"
proof -
  let ?zs = "filter (\<lambda>x. fst x \<notin> expired_keys ex {t. t < now}) xs"
  let ?i = "(k, if HasExpiry e then e + now else e, v, s)"
  have z: "map_of ?zs \<subseteq>\<^sub>m map_of xs" by (rule map_of_filter_le)
  have t: "map_of (trim cost mx ((k, ?i) # zs)) \<subseteq>\<^sub>m (map_of xs)(k \<mapsto> ?i)" if "map_of zs \<subseteq>\<^sub>m map_of xs" for zs
  proof -
    have "map_of ((k, ?i) # zs) \<subseteq>\<^sub>m (map_of xs)(k \<mapsto> ?i)" using that by (simp add: map_le_upd)
    then show ?thesis using map_of_trim map_le_trans by blast
  qed
  have f: "map_of (filter (\<lambda>x. fst x \<noteq> k) ?zs) \<subseteq>\<^sub>m map_of xs"
    using map_le_trans [OF map_of_filter_le [of "{k}"] z] by simp
  have n: "map_of ?zs \<subseteq>\<^sub>m (map_of xs)(k \<mapsto> ?i)" if "k \<notin> fst ` set ?zs"
    by (rule map_le_upd_None [OF z iffD2 [OF map_of_eq_None_iff that]])
  have "map_of ys \<subseteq>\<^sub>m (map_of xs)(k \<mapsto> ?i) \<or> e \<le> 0 \<and> map_of ys \<subseteq>\<^sub>m map_of xs"
  proof -
    have "fst (snd (mem_spec_step cost (xs, mx, ex) (MPut now k v e s))) = (if HasExpiry e \<and> e \<le> 0 then ?zs
        else if k \<in> fst ` set ?zs then trim cost mx ((k, ?i) # filter (\<lambda>x. fst x \<noteq> k) ?zs)
        else if cost ?i > mx then ?zs else trim cost mx ((k, ?i) # ?zs))"
      by (simp add: spec_purge_def spec_put_def Let_def)
    then have ys: "ys = (if HasExpiry e \<and> e \<le> 0 then ?zs
        else if k \<in> fst ` set ?zs then trim cost mx ((k, ?i) # filter (\<lambda>x. fst x \<noteq> k) ?zs)
        else if cost ?i > mx then ?zs else trim cost mx ((k, ?i) # ?zs))"
      unfolding assms by (simp only: fst_conv)
    consider "HasExpiry e \<and> e \<le> 0" | "\<not> (HasExpiry e \<and> e \<le> 0)" "k \<in> fst ` set ?zs"
      | "\<not> (HasExpiry e \<and> e \<le> 0)" "k \<notin> fst ` set ?zs" by blast
    then show ?thesis
    proof cases
      case 1
      then show ?thesis using z ys by simp
    next
      case 2
      then have "ys = trim cost mx ((k, ?i) # filter (\<lambda>x. fst x \<noteq> k) ?zs)" by (simp only: ys if_False if_True)
      then show ?thesis using t [OF f] by blast
    next
      case 3
      then have "ys = ?zs \<or> ys = trim cost mx ((k, ?i) # ?zs)" using ys by presburger
      then show ?thesis using n [OF 3(2)] t [OF z] by blast
    qed
  qed
  moreover have "spec_item now (map_of ys) \<subseteq>\<^sub>m (spec_item now (map_of xs))(k \<mapsto> v)" if "map_of ys \<subseteq>\<^sub>m (map_of xs)(k \<mapsto> ?i)"
    using map_le_trans [OF spec_item_mono [OF that] spec_item_upd] by simp
  ultimately show ?thesis unfolding put_effect_def using spec_item_mono by blast
qed


text \<open>The operations of the memory cache on what is found in it.\<close>

lemma memory_okE:
  assumes "memory_ok m"
  obtains xs mx ex where "mem_rel PresetModelSizeCacheCost m (xs, mx, ex)"
  using assms unfolding memory_ok_def by (metis surj_pair)

lemma mem_put_item:
  assumes "memory_ok m"
  shows "\<exists>r m'. InMemoryCache_Put now m k v e s = Some (r, m') \<and> memory_ok m' \<and> put_effect e (mem_item now m) k v (mem_item now m')"
proof -
  obtain xs mx ex where r: "mem_rel PresetModelSizeCacheCost m (xs, mx, ex)" using memory_okE [OF assms] .
  let ?st = "mem_spec_step PresetModelSizeCacheCost (xs, mx, ex) (MPut now k v e s)"
  obtain m' where m': "mem_step m (MPut now k v e s) = Some (fst ?st, m')" "mem_rel PresetModelSizeCacheCost m' (snd ?st)"
    using Put_refines [OF r] by blast
  obtain ys mx' ex' where y: "snd ?st = (ys, mx', ex')" by (metis surj_pair)
  have "put_effect e (mem_item now m) k v (mem_item now m')"
    using mem_put_map [OF y] mem_item_rel [OF r] mem_item_rel [OF m'(2) [unfolded y]] by simp
  moreover have "memory_ok m'" using m'(2) unfolding memory_ok_def by blast
  ultimately show ?thesis using m'(1) by auto
qed

lemma mem_get_item:
  assumes "memory_ok m"
  shows "\<exists>v m'. InMemoryCache_Get now m k = Some (v, m') \<and> memory_ok m' \<and> mem_item now m' \<subseteq>\<^sub>m mem_item now m \<and>
    (case v of None \<Rightarrow> AnyEmpty | Some x \<Rightarrow> x) = (case mem_item now m k of None \<Rightarrow> AnyEmpty | Some x \<Rightarrow> x)"
proof -
  obtain xs mx ex where r: "mem_rel PresetModelSizeCacheCost m (xs, mx, ex)" using memory_okE [OF assms] .
  let ?st = "mem_spec_step PresetModelSizeCacheCost (xs, mx, ex) (MGet now k)"
  obtain m' where m': "mem_step m (MGet now k) = Some (fst ?st, m')" "mem_rel PresetModelSizeCacheCost m' (snd ?st)"
    using Get_refines [OF r] by blast
  obtain ys mx' ex' where y: "snd ?st = (ys, mx', ex')" by (metis surj_pair)
  have "map_of ys \<subseteq>\<^sub>m map_of xs"
    using y map_of_filter_le [of _ "to_front k xs"] by (auto simp: map_of_to_front split: option.splits if_splits)
  then have "mem_item now m' \<subseteq>\<^sub>m mem_item now m"
    using mem_item_rel [OF r] mem_item_rel [OF m'(2) [unfolded y]] spec_item_mono by simp
  moreover have "memory_ok m'" using m'(2) unfolding memory_ok_def by blast
  moreover obtain v where "InMemoryCache_Get now m k = Some (v, m')" using m'(1) by auto
  moreover have "(case v of None \<Rightarrow> AnyEmpty | Some x \<Rightarrow> x) = (case mem_item now m k of None \<Rightarrow> AnyEmpty | Some x \<Rightarrow> x)"
    if "InMemoryCache_Get now m k = Some (v, m')" for v using that by (simp add: mem_item_def split: option.splits)
  ultimately show ?thesis by blast
qed

lemma mem_prefix_item:
  assumes "memory_ok m"
  shows "\<exists>m'. InMemoryCache_RemoveKeysWithPrefix m p = Some m' \<and> memory_ok m' \<and> mem_item now m' = mem_item now m |` {k. \<not> prefix p k}"
proof -
  obtain xs mx ex where r: "mem_rel PresetModelSizeCacheCost m (xs, mx, ex)" using memory_okE [OF assms] .
  obtain m' where m': "InMemoryCache_RemoveKeysWithPrefix m p = Some m'"
    "mem_rel PresetModelSizeCacheCost m' (filter (\<lambda>x. \<not> take (length p) (fst x) = p) xs, mx, ex)"
    using RemovePrefix_refines [OF r, of p] by auto
  have "prefix p k \<longleftrightarrow> take (length p) k = p" for k by (metis append_eq_conv_conj prefix_def take_is_prefix)
  then have "map_of (filter (\<lambda>x. \<not> take (length p) (fst x) = p) xs) k = (if prefix p k then None else map_of xs k)" for k
    using map_of_filter_in [of "{k. prefix p k}" xs k] by simp
  then have "mem_item now m' = mem_item now m |` {k. \<not> prefix p k}"
    unfolding mem_item_rel [OF r] mem_item_rel [OF m'(2)] by (intro ext) (simp add: spec_item_def restrict_map_def)
  then show ?thesis using m' by (auto simp: memory_ok_def)
qed

lemma throws_simps [simp]: "throws (Inr r) = Some r" "throws (Inl e) = None"
  by (simp_all add: throws_def)

interpretation memory_kv: key_value_cache "DefaultCache_kv S now" memory_only "memory_item now" for S now
proof
  fix c k v e x b dec p assume ok: "memory_only (c :: 'a \<times> cached DefaultCache)"
  obtain w d m where c: "c = (w, d)" "is_open d" "disk_cache d = None" "memory_cache d = Some m" "memory_ok m"
    using ok by (cases c) (auto simp: memory_only_def)
  have ok': "memory_only (w, d\<lparr>memory_cache := Some m'\<rparr>)" if "memory_ok m'" for m' using c that by (simp add: memory_only_def)
  have it: "memory_item now c = mem_item now m" "memory_item now (w, d\<lparr>memory_cache := Some m'\<rparr>) = mem_item now m'" for m'
    using c by (auto simp: memory_item_def)
  show "memory_item now c k \<noteq> Some AnyEmpty" unfolding it by (simp add: mem_item_def split: option.splits if_splits)
  have put: "\<exists>r c'. throws (DefaultCache_put S now w d k v e x) = Some (r, c') \<and> memory_only c' \<and>
      put_effect x (memory_item now c) k v (memory_item now c')" for v e
    using mem_put_item [OF c(5), of now k v x "of_nat (length e)"] c ok' it by (fastforce simp: DefaultCache_put_def)
  show "\<exists>r c'. kv_Put (DefaultCache_kv S now) k v e x c = Some (r, c') \<and> memory_only c' \<and>
      put_effect x (memory_item now c) k v (memory_item now c')"
    using put c(1) by (simp add: DefaultCache_kv_def DefaultCache_Put_def)
  show "\<exists>r c'. kv_Put_data (DefaultCache_kv S now) k b x c = Some (r, c') \<and> memory_only c' \<and>
      put_effect x (memory_item now c) k (AnyBytes b) (memory_item now c')"
    using put c(1) by (simp add: DefaultCache_kv_def DefaultCache_Put_data_def)
  obtain v m' where get: "InMemoryCache_Get now m k = Some (v, m')" "memory_ok m'" "mem_item now m' \<subseteq>\<^sub>m mem_item now m"
    "(case v of None \<Rightarrow> AnyEmpty | Some x \<Rightarrow> x) = (case mem_item now m k of None \<Rightarrow> AnyEmpty | Some x \<Rightarrow> x)"
    using mem_get_item [OF c(5)] by blast
  have g: "DefaultCache_get S now w d k dec = Inr (case mem_item now m k of None \<Rightarrow> AnyEmpty | Some x \<Rightarrow> x, w, d\<lparr>memory_cache := Some m'\<rparr>)" for dec
    using get c by (simp add: DefaultCache_get_def)
  show "\<exists>c'. kv_Get (DefaultCache_kv S now) k dec c = Some (case memory_item now c k of None \<Rightarrow> AnyEmpty | Some v \<Rightarrow> v, c') \<and>
      memory_only c' \<and> memory_item now c' \<subseteq>\<^sub>m memory_item now c"
    using g ok' it get(2,3) c(1) by (simp add: DefaultCache_kv_def DefaultCache_Get_def)
  show "\<exists>c'. kv_Get_data (DefaultCache_kv S now) k c = Some (case memory_item now c k of Some (AnyBytes b) \<Rightarrow> Some b | _ \<Rightarrow> None, c') \<and>
      memory_only c' \<and> memory_item now c' \<subseteq>\<^sub>m memory_item now c" if "\<nexists>m. memory_item now c k = Some (AnyModel m)"
    using that g ok' it get(2,3) c(1) by (auto simp: DefaultCache_kv_def DefaultCache_Get_data_def split: option.splits any.splits)
  show "\<exists>r c'. kv_RemoveKeysWithPrefix (DefaultCache_kv S now) p c = Some (r, c') \<and> memory_only c' \<and>
      memory_item now c' = memory_item now c |` {k. \<not> prefix p k}"
    using mem_prefix_item [OF c(5), of p now] c ok' it by (fastforce simp: DefaultCache_kv_def DefaultCache_RemoveKeysWithPrefix_def)
qed

end
