(* ===== verification/Cache_Sequences.thy ===== *)
theory Cache_Sequences
  imports Cache_Repositories
begin

text \<open>
  Sequences of operations of the cache repositories and what they read: the types of the values under the
  keys, values that were stored before, values of other catalogs.
\<close>

section \<open>Kinds of keys\<close>

text \<open>
  The end of a key tells what is stored under it; the keys without version, which end with two colons, are
  told apart by the number of fields between the catalog and the end, if layer names hold no colon.
\<close>

definition is_model :: "(cached \<Rightarrow> 'm option) \<Rightarrow> cached any \<Rightarrow> bool" where
  "is_model cast v \<longleftrightarrow> (\<exists>x. v = AnyModel x \<and> cast x \<noteq> None)"

definition well_typed :: "string \<Rightarrow> string \<Rightarrow> cached any \<Rightarrow> bool" where
  "well_typed hrn k v \<longleftrightarrow>
     (suffix ''::api'' k \<longrightarrow> is_model cast_String v) \<and> (suffix ''::catalog'' k \<longrightarrow> is_model cast_Catalog v) \<and>
     (suffix ''::latestVersion'' k \<longrightarrow> is_model cast_Version v) \<and> (suffix ''::Data'' k \<longrightarrow> (\<exists>b. v = AnyBytes b)) \<and>
     (suffix ''::partition'' k \<longrightarrow> is_model cast_Partition v) \<and> (suffix ''::partitions'' k \<longrightarrow> is_model cast_Ids v) \<and>
     (suffix ''::layerVersions'' k \<longrightarrow> is_model cast_LayerVersions v) \<and>
     (\<forall>lid. CHR '':'' \<notin> set lid \<longrightarrow> k = hrn @ ''::'' @ lid @ ''::'' \<longrightarrow> is_model cast_Ids v) \<and>
     (\<forall>lid pid. CHR '':'' \<notin> set lid \<longrightarrow> k = hrn @ ''::'' @ lid @ ''::'' @ pid @ ''::'' \<longrightarrow> is_model cast_Partition v)"


lemma untagged: "\<not> suffix ''::'' k \<Longrightarrow> k \<noteq> a @ ''::''"
  by (auto simp: suffix_def)

lemma well_typed_tagged:
  assumes "\<not> suffix ''::'' k"
  shows "well_typed hrn k v \<longleftrightarrow>
     (suffix ''::api'' k \<longrightarrow> is_model cast_String v) \<and> (suffix ''::catalog'' k \<longrightarrow> is_model cast_Catalog v) \<and>
     (suffix ''::latestVersion'' k \<longrightarrow> is_model cast_Version v) \<and> (suffix ''::Data'' k \<longrightarrow> (\<exists>b. v = AnyBytes b)) \<and>
     (suffix ''::partition'' k \<longrightarrow> is_model cast_Partition v) \<and> (suffix ''::partitions'' k \<longrightarrow> is_model cast_Ids v) \<and>
     (suffix ''::layerVersions'' k \<longrightarrow> is_model cast_LayerVersions v)"
proof -
  have "k \<noteq> hrn @ ''::'' @ lid @ ''::''" "k \<noteq> hrn @ ''::'' @ lid @ ''::'' @ pid @ ''::''" for lid pid
    using untagged [OF assms, of "hrn @ ''::'' @ lid"] untagged [OF assms, of "hrn @ ''::'' @ lid @ ''::'' @ pid"] by simp_all
  then show ?thesis unfolding well_typed_def by blast
qed

lemma typed_keys:
  "well_typed hrn (api_key hrn' s n) v \<longleftrightarrow> is_model cast_String v"
  "well_typed hrn (catalog_key hrn') v \<longleftrightarrow> is_model cast_Catalog v"
  "well_typed hrn (VersionKey hrn') v \<longleftrightarrow> is_model cast_Version v"
  "well_typed hrn (data_key hrn' lid h) v \<longleftrightarrow> (\<exists>b. v = AnyBytes b)"
  "well_typed hrn (layer_versions_key hrn' i) v \<longleftrightarrow> is_model cast_LayerVersions v"
  "well_typed hrn (partition_key hrn' lid pid (Some i)) v \<longleftrightarrow> is_model cast_Partition v"
  "well_typed hrn (partitions_key hrn' lid (Some i)) v \<longleftrightarrow> is_model cast_Ids v"
  by (subst well_typed_tagged; simp add: suffix_to_prefix api_key_def catalog_key_def VersionKey_def data_key_def
        layer_versions_key_def partition_key_def partitions_key_def)+

lemma colon_split:
  "CHR '':'' \<notin> set a \<Longrightarrow> CHR '':'' \<notin> set b \<Longrightarrow> a @ CHR '':'' # u = b @ CHR '':'' # v \<longleftrightarrow> a = b \<and> u = v"
  using append_mark_eq [of a _ u b _ v "{CHR '':''}"] by auto

lemma typed_keys_untagged:
  assumes "CHR '':'' \<notin> set lid"
  shows "well_typed hrn (partition_key hrn lid pid None) v \<longleftrightarrow> is_model cast_Partition v"
    "well_typed hrn (partitions_key hrn lid None) v \<longleftrightarrow> is_model cast_Ids v"
proof -
  have e: "\<not> suffix t (partition_key hrn lid pid None)" "\<not> suffix t (partitions_key hrn lid None)"
    if "t \<in> {''::api'', ''::catalog'', ''::latestVersion'', ''::Data'', ''::partition'', ''::partitions'', ''::layerVersions''}" for t
    using that by (auto simp: partition_key_def partitions_key_def suffix_to_prefix)
  have k1: "partition_key hrn lid pid None = hrn @ ''::'' @ l @ ''::'' \<Longrightarrow> CHR '':'' \<notin> set l \<Longrightarrow> False" for l
    using assms by (auto simp: partition_key_def colon_split)
  have k2: "partitions_key hrn lid None = hrn @ ''::'' @ l @ ''::'' @ pid' @ ''::'' \<Longrightarrow> CHR '':'' \<notin> set l \<Longrightarrow> False" for l pid'
    using assms by (auto simp: partitions_key_def colon_split)
  show "well_typed hrn (partition_key hrn lid pid None) v \<longleftrightarrow> is_model cast_Partition v"
    using e(1) k1 assms unfolding well_typed_def by (auto simp: partition_key_def)
  show "well_typed hrn (partitions_key hrn lid None) v \<longleftrightarrow> is_model cast_Ids v"
    using e(2) k2 assms unfolding well_typed_def by (auto simp: partitions_key_def)
qed

lemma typed_partition_key: "CHR '':'' \<notin> set lid \<Longrightarrow> well_typed hrn (partition_key hrn lid pid ver) v \<longleftrightarrow> is_model cast_Partition v"
  and typed_partitions_key: "CHR '':'' \<notin> set lid \<Longrightarrow> well_typed hrn (partitions_key hrn lid ver) v \<longleftrightarrow> is_model cast_Ids v"
  by (cases ver; simp add: typed_keys typed_keys_untagged)+


section \<open>Sequences of repository operations\<close>

datatype cache_op =
    OpPutApi string string string | OpGetApi string string
  | OpPutCatalog Catalog | OpGetCatalog | OpPutVersion VersionResponse | OpGetVersion | OpClearCatalog
  | OpPutData string string string | OpGetData string string | OpClearData string string
  | OpPutPartitions PartitionsRequest Partitions "time_t option" bool | OpGetPartitionsById PartitionsRequest "string list"
  | OpGetPartitions PartitionsRequest | OpPutLayerVersions int LayerVersions | OpGetLayerVersions int
  | OpClearLayer string | OpClearPartitions PartitionsRequest "string list"

fun cache_repo_step :: "'c cache_repo \<Rightarrow> cache_op \<Rightarrow> 'c \<Rightarrow> 'c option" where
  "cache_repo_step R (OpPutApi s v u) c = ApiCache_Put R s v u c"
| "cache_repo_step R (OpGetApi s v) c = map_option snd (ApiCache_Get R s v c)"
| "cache_repo_step R (OpPutCatalog x) c = CatalogCache_Put R x c"
| "cache_repo_step R OpGetCatalog c = map_option snd (CatalogCache_Get R c)"
| "cache_repo_step R (OpPutVersion x) c = CatalogCache_PutVersion R x c"
| "cache_repo_step R OpGetVersion c = map_option snd (CatalogCache_GetVersion R c)"
| "cache_repo_step R OpClearCatalog c = CatalogCache_Clear R c"
| "cache_repo_step R (OpPutData b l h) c = DataCache_Put R b l h c"
| "cache_repo_step R (OpGetData l h) c = map_option snd (DataCache_Get R l h c)"
| "cache_repo_step R (OpClearData l h) c = DataCache_Clear R l h c"
| "cache_repo_step R (OpPutPartitions q ps e a) c = PartitionsCache_Put R q ps e a c"
| "cache_repo_step R (OpGetPartitionsById q ids) c = map_option snd (PartitionsCache_Get_ids R q ids c)"
| "cache_repo_step R (OpGetPartitions q) c = map_option snd (PartitionsCache_Get R q c)"
| "cache_repo_step R (OpPutLayerVersions i x) c = PartitionsCache_PutLayerVersions R i x c"
| "cache_repo_step R (OpGetLayerVersions i) c = map_option snd (PartitionsCache_GetLayerVersions R i c)"
| "cache_repo_step R (OpClearLayer l) c = PartitionsCache_Clear R l c"
| "cache_repo_step R (OpClearPartitions q ids) c = PartitionsCache_ClearPartitions R q ids c"

fun op_layer :: "cache_op \<Rightarrow> string" where
  "op_layer (OpPutPartitions q _ _ _) = pr_layer_id q"
| "op_layer (OpGetPartitionsById q _) = pr_layer_id q"
| "op_layer (OpGetPartitions q) = pr_layer_id q"
| "op_layer (OpClearPartitions q _) = pr_layer_id q"
| "op_layer _ = []"

definition typed_items :: "string \<Rightarrow> (string \<rightharpoonup> cached any) \<Rightarrow> bool" where
  "typed_items hrn f \<longleftrightarrow> (\<forall>k v. f k = Some v \<longrightarrow> well_typed hrn k v)"

lemma typed_mono: "typed_items hrn f \<Longrightarrow> g \<subseteq>\<^sub>m f \<Longrightarrow> typed_items hrn g"
  by (metis domI map_le_def typed_items_def)

lemma typed_put:
  assumes "typed_items hrn f" "put_effect x f k v g" "well_typed hrn k v"
  shows "typed_items hrn g"
proof -
  have "typed_items hrn (f(k \<mapsto> v))" using assms(1,3) by (auto simp: typed_items_def)
  with assms(1,2) show ?thesis unfolding put_effect_def using typed_mono by blast
qed

lemma typed_restrict: "typed_items hrn f \<Longrightarrow> typed_items hrn (f |` A)"
  by (auto simp: typed_items_def restrict_map_def split: if_splits)

context key_value_cache
begin

lemma typed_put_model:
  assumes "repo_cache R = K" "ok c" "typed_items hrn (item c)" "well_typed hrn k (AnyModel m)"
  shows "\<exists>c'. put_model R k m x c = Some c' \<and> ok c' \<and> typed_items hrn (item c')"
  using put_model_law [OF assms(1,2)] typed_put [OF assms(3) _ assms(4)] by blast

lemma typed_get_model:
  assumes "repo_cache R = K" "ok c" "typed_items hrn (item c)" "\<And>v. well_typed hrn k v \<longleftrightarrow> is_model cast v"
  shows "\<exists>r c'. get_model R k dec cast c = Some (r, c') \<and> ok c' \<and> typed_items hrn (item c')"
proof -
  have "\<exists>x m. v = AnyModel x \<and> cast x = Some m" if "item c k = Some v" for v
  proof -
    have "is_model cast v" using assms(3,4) that unfolding typed_items_def by blast
    then show ?thesis by (auto simp: is_model_def)
  qed
  from get_model_law [OF assms(1,2) this] show ?thesis using typed_mono [OF assms(3)] by blast
qed

lemma typed_get_snd:
  assumes "repo_cache R = K" "ok c" "typed_items hrn (item c)" "\<And>v. well_typed hrn k v \<longleftrightarrow> is_model cast v"
  shows "\<exists>c'. (\<exists>r. get_model R k dec cast c = Some (r, c')) \<and> ok c' \<and> typed_items hrn (item c')"
  using typed_get_model [OF assms] by blast

lemma typed_remove:
  assumes "repo_cache R = K" "ok c" "typed_items hrn (item c)"
  shows "\<exists>c'. map_option snd (kv_RemoveKeysWithPrefix (repo_cache R) p c) = Some c' \<and> ok c' \<and> typed_items hrn (item c')"
  using remove_law [OF assms(1,2)] typed_restrict [OF assms(3)] by fastforce

lemma typed_fold:
  assumes "\<And>x c. ok c \<Longrightarrow> typed_items hrn (item c) \<Longrightarrow> \<exists>c'. f x c = Some c' \<and> ok c' \<and> typed_items hrn (item c')"
    "ok c" "typed_items hrn (item c)"
  shows "\<exists>c'. fold_option f xs c = Some c' \<and> ok c' \<and> typed_items hrn (item c')"
  using assms(2,3)
proof (induction xs arbitrary: c)
  case (Cons x xs)
  then show ?case using assms(1) [of c x] by fastforce
qed simp

lemma typed_get_loop:
  assumes "repo_cache R = K" "hrn = ToCatalogHRNString (repo_hrn R)" "CHR '':'' \<notin> set (pr_layer_id q)" "ok c" "typed_items hrn (item c)"
  shows "\<exists>ps c'. PartitionsCache_Get_loop R q ids c = Some (ps, c') \<and> ok c' \<and> typed_items hrn (item c')"
  using assms(4,5)
proof (induction ids arbitrary: c)
  case (Cons i ids)
  obtain p c1 where c1: "get_model R (partition_key hrn (pr_layer_id q) i (pr_version q))
      (\<lambda>s. CPartition (parse_Partition (repo_parsers R) s)) cast_Partition c = Some (p, c1)" "ok c1" "typed_items hrn (item c1)"
    using typed_get_model [OF assms(1) Cons.prems typed_partition_key [OF assms(3)]] by blast
  obtain ps c2 where "PartitionsCache_Get_loop R q ids c1 = Some (ps, c2)" "ok c2" "typed_items hrn (item c2)"
    using Cons.IH [OF c1(2,3)] by blast
  then show ?case using c1(1) assms(2) by auto
qed simp


lemma typed_get_ids:
  assumes "repo_cache R = K" "hrn = ToCatalogHRNString (repo_hrn R)" "CHR '':'' \<notin> set (pr_layer_id q)" "ok c" "typed_items hrn (item c)"
  shows "\<exists>ps c'. PartitionsCache_Get_ids R q ids c = Some (ps, c') \<and> ok c' \<and> typed_items hrn (item c')"
  using typed_get_loop [OF assms, of ids] by (auto simp: PartitionsCache_Get_ids_def)

lemma typed_put_partitions:
  assumes "repo_cache R = K" "hrn = ToCatalogHRNString (repo_hrn R)" "CHR '':'' \<notin> set (pr_layer_id q)" "ok c" "typed_items hrn (item c)"
  shows "\<exists>c'. PartitionsCache_Put R q ps e a c = Some c' \<and> ok c' \<and> typed_items hrn (item c')"
proof -
  let ?e = "case e of None \<Rightarrow> time_max | Some t \<Rightarrow> t"
  let ?f = "\<lambda>p. put_model R (partition_key hrn (pr_layer_id q) (partition_id p) (pr_version q)) (CPartition p) ?e"
  have "\<exists>c'. ?f p c = Some c' \<and> ok c' \<and> typed_items hrn (item c')" if "ok c" "typed_items hrn (item c)" for p c
    by (rule typed_put_model [OF assms(1) that]) (simp add: typed_partition_key assms(3) is_model_def)
  from typed_fold [of hrn ?f, OF this assms(4,5)] obtain c1 where
    c1: "fold_option ?f (partitions ps) c = Some c1" "ok c1" "typed_items hrn (item c1)" by blast
  have "\<exists>c'. put_model R (partitions_key hrn (pr_layer_id q) (pr_version q)) (CIds ids) ?e c1 = Some c' \<and> ok c' \<and> typed_items hrn (item c')" for ids
    by (rule typed_put_model [OF assms(1) c1(2,3)]) (simp add: typed_partitions_key assms(3) is_model_def)
  then show ?thesis using c1 assms(2) by (simp add: PartitionsCache_Put_def Let_def)
qed

lemma typed_get_partitions:
  assumes "repo_cache R = K" "hrn = ToCatalogHRNString (repo_hrn R)" "CHR '':'' \<notin> set (pr_layer_id q)" "ok c" "typed_items hrn (item c)"
  shows "\<exists>ps c'. PartitionsCache_Get R q c = Some (ps, c') \<and> ok c' \<and> typed_items hrn (item c')"
proof -
  obtain r c1 where c1: "get_model R (partitions_key hrn (pr_layer_id q) (pr_version q)) (\<lambda>s. CIds (parse_ids (repo_parsers R) s)) cast_Ids c = Some (r, c1)"
    "ok c1" "typed_items hrn (item c1)"
    using typed_get_model [OF assms(1,4,5) typed_partitions_key [OF assms(3)]] by blast
  show ?thesis
  proof (cases r)
    case None
    then show ?thesis using c1 assms(2) by (simp add: PartitionsCache_Get_def)
  next
    case (Some ids)
    then show ?thesis using c1 typed_get_ids [OF assms(1-3) c1(2,3), of ids] assms(2) by (auto simp: PartitionsCache_Get_def)
  qed
qed

lemma typed_clear_partitions:
  assumes "repo_cache R = K" "hrn = ToCatalogHRNString (repo_hrn R)" "CHR '':'' \<notin> set (pr_layer_id q)" "ok c" "typed_items hrn (item c)"
  shows "\<exists>c'. PartitionsCache_ClearPartitions R q ids c = Some c' \<and> ok c' \<and> typed_items hrn (item c')"
proof -
  obtain ps c1 where c1: "PartitionsCache_Get_ids R q ids c = Some (ps, c1)" "ok c1" "typed_items hrn (item c1)"
    using typed_get_ids [OF assms] by blast
  let ?f = "\<lambda>p c. do {
         c \<leftarrow> map_option snd (kv_RemoveKeysWithPrefix (repo_cache R) ((hrn @ ''::'' @ pr_layer_id q @ ''::'') @ data_handle p) c);
         map_option snd (kv_RemoveKeysWithPrefix (repo_cache R) ((hrn @ ''::'' @ pr_layer_id q @ ''::'') @ partition_id p) c)}"
  have "\<exists>c'. ?f p c = Some c' \<and> ok c' \<and> typed_items hrn (item c')" if "ok c" "typed_items hrn (item c)" for p c
  proof -
    obtain c1 where "map_option snd (kv_RemoveKeysWithPrefix (repo_cache R) ((hrn @ ''::'' @ pr_layer_id q @ ''::'') @ data_handle p) c) = Some c1"
      "ok c1" "typed_items hrn (item c1)" using typed_remove [OF assms(1) \<open>ok c\<close> \<open>typed_items hrn (item c)\<close>] by blast
    then show ?thesis using typed_remove [OF assms(1), of c1 hrn] by auto
  qed
  from typed_fold [of hrn ?f, OF this c1(2,3)] show ?thesis
    using c1(1) assms(2) by (simp add: PartitionsCache_ClearPartitions_def Let_def)
qed

lemma typed_step:
  assumes R: "repo_cache R = K" "hrn = ToCatalogHRNString (repo_hrn R)" and l: "CHR '':'' \<notin> set (op_layer oper)"
    and c: "ok c" "typed_items hrn (item c)"
  shows "\<exists>c'. cache_repo_step R oper c = Some c' \<and> ok c' \<and> typed_items hrn (item c')"
proof -
  have putm: "\<exists>c'. put_model R k m x c = Some c' \<and> ok c' \<and> typed_items hrn (item c')" if "well_typed hrn k (AnyModel m)" for k m x
    by (rule typed_put_model [OF R(1) c that])
  note rm = typed_remove [OF R(1) c] and getm = typed_get_snd [OF R(1) c]
  show ?thesis
  proof (cases oper)
    case (OpPutApi s v u)
    have "well_typed hrn (api_key hrn s v) (AnyModel (CString u))" by (simp add: typed_keys is_model_def)
    then show ?thesis using OpPutApi put [OF c(1), of "api_key hrn s v" "AnyModel (CString u)" u 3600] typed_put [OF c(2)] R
      by (fastforce simp: ApiCache_Put_def)
  next
    case (OpPutData b l h)
    have "well_typed hrn (data_key hrn l h) (AnyBytes b)" by (simp add: typed_keys)
    then show ?thesis using OpPutData put_data [OF c(1), of "data_key hrn l h" b time_max] typed_put [OF c(2)] R
      by (fastforce simp: DataCache_Put_def)
  next
    case (OpGetData l h)
    have "item c (data_key hrn l h) \<noteq> Some (AnyModel m)" for m using c(2) typed_keys(4) by (fastforce simp: typed_items_def)
    then show ?thesis using OpGetData get_data [OF c(1), of "data_key hrn l h"] typed_mono [OF c(2)] R by (fastforce simp: DataCache_Get_def)
  next
    case (OpPutPartitions q ps e a)
    then show ?thesis using typed_put_partitions [OF R _ c] l by simp
  next
    case (OpGetPartitionsById q ids)
    then show ?thesis using typed_get_ids [OF R _ c, of q ids] l by fastforce
  next
    case (OpGetPartitions q)
    then show ?thesis using typed_get_partitions [OF R _ c, of q] l by fastforce
  next
    case (OpClearPartitions q ids)
    then show ?thesis using typed_clear_partitions [OF R _ c] l by simp
  qed (use rm in \<open>simp_all add: R(1) R(2) [symmetric] ApiCache_Get_def CatalogCache_Put_def CatalogCache_Get_def CatalogCache_PutVersion_def
      CatalogCache_GetVersion_def CatalogCache_Clear_def DataCache_Clear_def PartitionsCache_PutLayerVersions_def
      PartitionsCache_GetLayerVersions_def PartitionsCache_Clear_def putm getm typed_keys is_model_def\<close>)
qed

lemma typed_steps:
  assumes "repo_cache R = K" "hrn = ToCatalogHRNString (repo_hrn R)" "\<forall>oper \<in> set ops. CHR '':'' \<notin> set (op_layer oper)"
    "ok c" "typed_items hrn (item c)"
  shows "\<exists>c'. fold_option (cache_repo_step R) ops c = Some c' \<and> ok c' \<and> typed_items hrn (item c')"
  using assms(3-5)
proof (induction ops arbitrary: c)
  case (Cons oper ops)
  then show ?case using typed_step [OF assms(1,2), of oper c] by fastforce
qed simp

end


lemma put_then_read:
  assumes "put_effect x f k v g" "0 < x" "g k = Some u"
  shows "u = v"
  using assms by (auto simp: put_effect_def map_le_def dom_def)

context key_value_cache
begin

lemma put_get_model:
  assumes "repo_cache R = K" "ok c" "0 < x" "cast m = Some y"
  shows "map_option fst (Option.bind (map_option snd (kv_Put (repo_cache R) k (AnyModel m) e x c)) (get_model R k dec cast)) \<in> {Some None, Some (Some y)}"
proof -
  obtain r c1 where c1: "kv_Put K k (AnyModel m) e x c = Some (r, c1)" "ok c1" "put_effect x (item c) k (AnyModel m) (item c1)"
    using put [OF assms(2)] by blast
  have m: "v = AnyModel m" if "item c1 k = Some v" for v using put_then_read [OF c1(3) assms(3) that] .
  then have "\<And>v. item c1 k = Some v \<Longrightarrow> \<exists>x z. v = AnyModel x \<and> cast x = Some z" using assms(4) by simp
  from get_model_law [OF assms(1) c1(2), of k cast dec, OF this] show ?thesis
    using c1(1) m assms(1,4) by (cases "item c1 k") auto
qed

lemma put_get_data:
  assumes "repo_cache R = K" "ok c" "0 < x"
  shows "map_option fst (Option.bind (map_option snd (kv_Put_data (repo_cache R) k b x c)) (kv_Get_data (repo_cache R) k)) \<in> {Some None, Some (Some b)}"
proof -
  obtain r c1 where c1: "kv_Put_data K k b x c = Some (r, c1)" "ok c1" "put_effect x (item c) k (AnyBytes b) (item c1)"
    using put_data [OF assms(2)] by blast
  have m: "v = AnyBytes b" if "item c1 k = Some v" for v using put_then_read [OF c1(3) assms(3) that] .
  then have "\<nexists>m. item c1 k = Some (AnyModel m)" by fastforce
  from get_data [OF c1(2) this] show ?thesis using c1(1) m assms(1) by (cases "item c1 k") auto
qed

lemma cleared_get:
  assumes "repo_cache R' = K" "repo_cache R = K" "ok c" "prefix p k"
  shows "map_option fst (Option.bind (map_option snd (kv_RemoveKeysWithPrefix (repo_cache R) p c)) (get_model R' k dec cast)) = Some None"
proof -
  obtain c1 where c1: "map_option snd (kv_RemoveKeysWithPrefix (repo_cache R) p c) = Some c1" "ok c1" "item c1 = item c |` {k. \<not> prefix p k}"
    using remove_law [OF assms(2,3)] by blast
  have n: "item c1 k = None" using c1(3) assms(4) by (simp add: restrict_map_def)
  have "\<exists>c'. get_model R' k dec cast c1 = Some (None, c')"
    using get_model_law [OF assms(1) c1(2), of k cast dec] by (auto simp: n)
  then show ?thesis using c1(1) by auto
qed

end

section \<open>Properties\<close>

text \<open>A cache that was just opened, in memory.\<close>

definition opened_cache :: "CacheSettings \<Rightarrow> cached DefaultCache" where
  "opened_cache s = snd (snd (DefaultCache_Open map_storage [] (DefaultCache_new s)))"

lemma opened_cache_ok:
  assumes "disk_path s = None" "0 < max_memory_cache_size s"
  shows "memory_only (w, opened_cache s)" "memory_item now (w, opened_cache s) = Map.empty"
proof -
  let ?m = "InMemoryCache_new (max_memory_cache_size s) PresetModelSizeCacheCost"
  have o: "is_open (opened_cache s)" "disk_cache (opened_cache s) = None" "memory_cache (opened_cache s) = Some ?m"
    using assms by (simp_all add: opened_cache_def DefaultCache_Open_def SetupStorage_def DefaultCache_new_def Let_def)
  then show "memory_only (w, opened_cache s)" by (simp add: memory_only_def)
  show "memory_item now (w, opened_cache s) = Map.empty"
    by (rule ext) (simp add: memory_item_def o mem_item_rel [OF mem_rel_new] spec_item_def)
qed



definition example_layer :: Layer where
  "example_layer = \<lparr>layer_id = ''l'', layer_name = [], layer_summary = [], layer_description = [],
     layer_owner = \<lparr>creator = \<lparr>creator_id = []\<rparr>, organisation = \<lparr>creator_id = []\<rparr>\<rparr>, layer_coverage = \<lparr>admin_areas = []\<rparr>,
     layer_schema = \<lparr>schema_hrn = []\<rparr>, content_type = [], content_encoding = [], partitioning = \<lparr>scheme = [], tile_levels = []\<rparr>,
     layer_type = ''versioned'', digest = [], layer_tags = [], layer_billing_tags = [], layer_ttl = None,
     index_properties = \<lparr>index_ttl = [], index_definitions = []\<rparr>,
     stream_properties = \<lparr>data_in_throughput_mbps = 0, data_out_throughput_mbps = 0\<rparr>,
     volume = \<lparr>volume_type = [], max_memory_policy = [], package_type = [], encryption = \<lparr>algorithm = []\<rparr>\<rparr>\<rparr>"

definition example_parsers :: parsers where
  "example_parsers = \<lparr>parse_Catalog = \<lambda>s. \<lparr>catalog_id = s, catalog_hrn = [], catalog_name = [], catalog_summary = [],
       catalog_description = [], catalog_coverage = \<lparr>admin_areas = []\<rparr>,
       catalog_owner = \<lparr>creator = \<lparr>creator_id = []\<rparr>, organisation = \<lparr>creator_id = []\<rparr>\<rparr>, catalog_tags = [], catalog_billing_tags = [],
       created = [], layers = [example_layer], catalog_version = 0, notifications = \<lparr>notifications_enabled = False\<rparr>\<rparr>,
     parse_VersionResponse = \<lambda>s. \<lparr>vr_version = 0\<rparr>, parse_LayerVersions = \<lambda>s. \<lparr>layer_versions = [], lvs_version = 0\<rparr>,
     parse_Partitions = \<lambda>s. \<lparr>partitions = []\<rparr>,
     parse_Partition = \<lambda>s. \<lparr>checksum = None, compressed_data_size = None, data_handle = s, data_size = None, partition_id = s,
       partition_version = None\<rparr>,
     parse_ids = \<lambda>s. [s], parse_Apis = \<lambda>s. [\<lparr>api_name = [], api_version = [], api_base_url = s, api_parameters = []\<rparr>], parse_Index = \<lambda>s. \<lparr>parent_quads = [], sub_quads = []\<rparr>\<rparr>"

definition example_repo :: "string \<Rightarrow> ((string \<times> string) list \<times> cached DefaultCache) cache_repo" where
  "example_repo name = \<lparr>repo_hrn = HRN_null\<lparr>hrn_partition := ''here'', service := Data, catalogId := name\<rparr>,
     repo_cache = DefaultCache_kv map_storage 0, repo_serialize = \<lambda>x. ''x'', repo_parsers = example_parsers\<rparr>"




lemma example_cache_ok: "memory_only ([], opened_cache CacheSettings_new)"
  by (rule opened_cache_ok(1)) (simp_all add: CacheSettings_new_def)

lemma example_repo_cache: "repo_cache (example_repo name) = DefaultCache_kv map_storage 0"
  by (simp add: example_repo_def)


text \<open>
  A partition list is answered from the cache even if some of its partitions were evicted: here a memory
  cache with room for two entries stored two partitions and then the list of both names, which evicted the
  first partition; the read finds the list and answers with one partition, as if the layer had only this one.
\<close>

theorem partitions_cache_partial:
  "map_option fst (Option.bind
     (PartitionsCache_Put (example_repo ''c'') (PartitionsRequest_WithLayerId ''l'' PartitionsRequest_new)
        \<lparr>partitions = [parse_Partition example_parsers ''1'', parse_Partition example_parsers ''2'']\<rparr> None True
        ([], opened_cache (CacheSettings_new\<lparr>max_memory_cache_size := 2\<rparr>)))
     (PartitionsCache_Get (example_repo ''c'') (PartitionsRequest_WithLayerId ''l'' PartitionsRequest_new)))
   = Some (Some \<lparr>partitions = [parse_Partition example_parsers ''2'']\<rparr>)"
  by code_simp

text \<open>
  Clearing a catalog removes what is cached of every catalog whose name begins with its name: their
  catalog, their version and the addresses of their interfaces are not found afterwards.
\<close>

theorem catalog_clear_prefix:
  assumes "repo_cache R = DefaultCache_kv S now" "repo_cache R' = DefaultCache_kv S now" "memory_only c"
    "prefix (ToCatalogHRNString (repo_hrn R)) (ToCatalogHRNString (repo_hrn R'))"
  shows "map_option fst (Option.bind (CatalogCache_Clear R c) (CatalogCache_Get R')) = Some None \<and>
    map_option fst (Option.bind (CatalogCache_Clear R c) (CatalogCache_GetVersion R')) = Some None \<and>
    map_option fst (Option.bind (CatalogCache_Clear R c) (ApiCache_Get R' sv n)) = Some None"
  unfolding CatalogCache_Clear_def CatalogCache_Get_def CatalogCache_GetVersion_def ApiCache_Get_def
  by (intro conjI memory_kv.cleared_get [OF assms(2,1,3)])
     (use assms(4) in \<open>simp_all add: catalog_key_def VersionKey_def api_key_def\<close>)


theorem catalog_clear_prefix_witness:
  "prefix (ToCatalogHRNString (repo_hrn (example_repo ''map''))) (ToCatalogHRNString (repo_hrn (example_repo ''map2''))) \<and>
   map_option fst (Option.bind (CatalogCache_Clear (example_repo ''map'') ([], opened_cache CacheSettings_new)) (CatalogCache_Get (example_repo ''map2''))) = Some None"
proof -
  have p: "prefix (ToCatalogHRNString (repo_hrn (example_repo ''map''))) (ToCatalogHRNString (repo_hrn (example_repo ''map2'')))"
    by (simp add: example_repo_def ToCatalogHRNString_def HRN_null_def)
  show ?thesis using p catalog_clear_prefix [OF example_repo_cache example_repo_cache example_cache_ok p] by blast
qed

end
