(* ===== verification/Read_Repositories.thy ===== *)
theory Read_Repositories
  imports Cache_Sequences
begin

text \<open>
  Component dataservice-read: the repositories (\<open>repositories/ApiRepository.cpp\<close>, \<open>CatalogRepository.cpp\<close>,
  \<open>PartitionsRepository.cpp\<close>, \<open>DataRepository.cpp\<close>), which answer requests from the cache or the network.

  A request that is not merged with another is a function from the world to the response its callback gets
  and the new world; \<open>None\<close> is an exception or undefined behaviour. Callbacks that a scheduler would run
  later are run at once. The caller may cancel the request during any network call: whether it did is
  read from the environment (\<open>env_cancelled\<close>) wherever the code calls \<open>ExecuteOrCancelled\<close>.

  Shown: requests that only want the cache make no network call; the number of network calls of a request
  is bounded; data that was fetched is found in the cache or not found, and is not found after the service
  forbade the access.
\<close>

record ('c, 's) read_env =
  env_repo :: "'c cache_repo"
  env_server :: "'s server"
  env_cancelled :: "'s \<Rightarrow> bool"
  env_settings :: OlpClientSettings

type_synonym ('c, 's, 'r) answer = "('r ApiResponse \<times> ('c, 's) read_world) option"

abbreviation env_hrn :: "('c, 's) read_env \<Rightarrow> HRN" where "env_hrn E \<equiv> repo_hrn (env_repo E)"
abbreviation env_parsers :: "('c, 's) read_env \<Rightarrow> parsers" where "env_parsers E \<equiv> repo_parsers (env_repo E)"

section \<open>Steps\<close>

definition read_cache :: "('c \<Rightarrow> ('r \<times> 'c) option) \<Rightarrow> ('c, 's) read_world \<Rightarrow> ('r \<times> ('c, 's) read_world) option" where
  "read_cache f w = map_option (\<lambda>(r, c). (r, w\<lparr>rw_cache := c\<rparr>)) (f (rw_cache w))"

definition write_cache :: "('c \<Rightarrow> 'c option) \<Rightarrow> ('c, 's) read_world \<Rightarrow> ('c, 's) read_world option" where
  "write_cache f w = map_option (\<lambda>c. w\<lparr>rw_cache := c\<rparr>) (f (rw_cache w))"

definition cancelled_error :: ApiError where
  "cancelled_error = ApiError_code ErrCancelled ''Operation cancelled.'' True"

definition execute_or_cancelled :: "('c, 's) read_env \<Rightarrow> (('c, 's) read_world \<Rightarrow> ('c, 's, 'r) answer) \<Rightarrow> ('c, 's) read_world \<Rightarrow> ('c, 's, 'r) answer" where
  "execute_or_cancelled E run w = (if env_cancelled E (rw_env w) then Some (Inl cancelled_error, w) else run w)"

text \<open>The callbacks that put a result into the cache and clear the cache when the access is forbidden.\<close>

definition store_or_clear :: "('r \<Rightarrow> 'c \<Rightarrow> 'c option) \<Rightarrow> ('c \<Rightarrow> 'c option) \<Rightarrow> 'r ApiResponse \<Rightarrow> ('c, 's) read_world \<Rightarrow> ('c, 's, 'r) answer" where
  "store_or_clear store clear r w =
     map_option (Pair r)
       (case r of Inr x \<Rightarrow> write_cache (store x) w
        | Inl e \<Rightarrow> if http_status_code e = 403 then write_cache clear w else Some w)"

text \<open>The cache unless the request is for the network only, then an error if it is for the cache only.\<close>

definition cache_first :: "FetchOptions \<Rightarrow> ('c \<Rightarrow> ('r option \<times> 'c) option) \<Rightarrow> string \<Rightarrow> (('c, 's) read_world \<Rightarrow> ('c, 's, 'r) answer) \<Rightarrow>
    ('c, 's) read_world \<Rightarrow> ('c, 's, 'r) answer" where
  "cache_first fetch_option lookup not_found network w =
     (if fetch_option \<noteq> OnlineOnly
      then do {
        (cached, w1) \<leftarrow> read_cache lookup w;
        case cached of
          Some x \<Rightarrow> Some (Inr x, w1)
        | None \<Rightarrow> if fetch_option = CacheOnly then Some (Inl (ApiError_code ErrNotFound not_found False), w1) else network w1
      }
      else network w)"

section \<open>Clients of interfaces\<close>

definition getApiClient :: "('c, 's) read_env \<Rightarrow> string \<Rightarrow> string \<Rightarrow> ('c, 's) read_world \<Rightarrow> ('c, 's, OlpClient) answer" where
  "getApiClient E serviceName serviceVersion w = do {
     (url, w1) \<leftarrow> read_cache (ApiCache_Get (env_repo E) serviceName serviceVersion) w;
     case url of
       Some u \<Rightarrow> Some (Inr (SetBaseUrl u (OlpClientFactory_Create (env_settings E))), w1)
     | None \<Rightarrow>
         (let (r, w2) = LookupApiClient (env_server E) (env_parsers E) (OlpClientFactory_Create (env_settings E)) serviceName serviceVersion (env_hrn E) w1
          in case r of
               Inl e \<Rightarrow> Some (Inl e, w2)
             | Inr c \<Rightarrow> map_option (Pair (Inr c)) (write_cache (ApiCache_Put (env_repo E) serviceName serviceVersion (base_url c)) w2))
   }"

text \<open>A client is asked for and given to the request.\<close>

definition with_client :: "('c, 's) read_env \<Rightarrow> string \<Rightarrow> (OlpClient \<Rightarrow> ('c, 's) read_world \<Rightarrow> ('c, 's, 'r) answer) \<Rightarrow> ('c, 's) read_world \<Rightarrow> ('c, 's, 'r) answer" where
  "with_client E serviceName run w = do {
     (client, w1) \<leftarrow> getApiClient E serviceName ''v1'' w;
     case client of Inl e \<Rightarrow> Some (Inl e, w1) | Inr c \<Rightarrow> run c w1
   }"

section \<open>Catalogs\<close>

definition getCatalog :: "('c, 's) read_env \<Rightarrow> CatalogRequest \<Rightarrow> ('c, 's) read_world \<Rightarrow> ('c, 's, Catalog) answer" where
  "getCatalog E request = execute_or_cancelled E
     (cache_first (cr_fetch_option request) (CatalogCache_Get (env_repo E)) ''Cache only resource not found in cache (catalog).''
       (with_client E ''config'' (\<lambda>client. execute_or_cancelled E (\<lambda>w.
          let (r, w1) = ConfigApi_GetCatalog (env_server E) (env_parsers E) client (ToCatalogHRNString (env_hrn E)) (cr_billing_tag request) w
          in store_or_clear (CatalogCache_Put (env_repo E)) (CatalogCache_Clear (env_repo E)) r w1))))"

definition getLatestCatalogVersion :: "('c, 's) read_env \<Rightarrow> CatalogVersionRequest \<Rightarrow> ('c, 's) read_world \<Rightarrow> ('c, 's, VersionResponse) answer" where
  "getLatestCatalogVersion E request = execute_or_cancelled E (\<lambda>w.
     if cvr_fetch_option request = CacheOnly
     then do {
       (cached, w1) \<leftarrow> read_cache (CatalogCache_GetVersion (env_repo E)) w;
       case cached of
         Some v \<Rightarrow> Some (Inr v, w1)
       | None \<Rightarrow> Some (Inl (ApiError_code ErrNotFound ''Cache only resource not found in cache (catalog version).'' False), w1)
     }
     else with_client E ''metadata'' (\<lambda>client. execute_or_cancelled E (\<lambda>w.
       let (r, w1) = MetadataApi_GetLatestCatalogVersion (env_server E) (env_parsers E) client (start_version request) (cvr_billing_tag request) w
       in store_or_clear (CatalogCache_PutVersion (env_repo E)) (CatalogCache_Clear (env_repo E)) r w1)) w)"

section \<open>Partitions\<close>

definition GetLayerVersion :: "('c, 's) read_env \<Rightarrow> OlpClient \<Rightarrow> PartitionsRequest \<Rightarrow> ('c, 's) read_world \<Rightarrow> ('c, 's, int) answer" where
  "GetLayerVersion E client request =
     (let found = \<lambda>lvs. case find (\<lambda>l. lv_layer l = pr_layer_id request) (layer_versions lvs) of
            Some l \<Rightarrow> Inr (lv_version l)
          | None \<Rightarrow> Inl (ApiError_code ErrInvalidArgument ''Layer specified doesn't exist.'' False)
      in execute_or_cancelled E (\<lambda>w. do {
        ver \<leftarrow> pr_version request;
        (cached, w1) \<leftarrow> read_cache (PartitionsCache_GetLayerVersions (env_repo E) ver) w;
        case cached of
          Some lvs \<Rightarrow> Some (found lvs, w1)
        | None \<Rightarrow>
            (let (r, w2) = MetadataApi_GetLayerVersions (env_server E) (env_parsers E) client ver (pr_billing_tag request) w1
             in case r of
                  Inl e \<Rightarrow> Some (Inl e, w2)
                | Inr lvs \<Rightarrow> map_option (Pair (found lvs)) (write_cache (PartitionsCache_PutLayerVersions (env_repo E) ver lvs) w2))
      }))"

text \<open>Integer division truncates.\<close>

definition ttl_seconds :: "int \<Rightarrow> time_t" where
  "ttl_seconds ttl = sgn ttl * (\<bar>ttl\<bar> div 1000)"

definition appendPartitionsRequest :: "('c, 's) read_env \<Rightarrow> PartitionsRequest \<Rightarrow>
    (PartitionsRequest \<Rightarrow> time_t option \<Rightarrow> ('c, 's) read_world \<Rightarrow> ('c, 's, Partitions) answer) \<Rightarrow> ('c, 's) read_world \<Rightarrow> ('c, 's, Partitions) answer" where
  "appendPartitionsRequest E request fetchPartitions =
     (let catalogRequest = CatalogRequest_WithFetchOption (pr_fetch_option request)
            (CatalogRequest_WithBillingTag (pr_billing_tag request) CatalogRequest_new)
      in execute_or_cancelled E (\<lambda>w. do {
        (catalogResponse, w1) \<leftarrow> getCatalog E catalogRequest w;
        case catalogResponse of
          Inl e \<Rightarrow> Some (Inl e, w1)
        | Inr catalog \<Rightarrow>
            (case find (\<lambda>l. layer_id l = pr_layer_id request) (layers catalog) of
               None \<Rightarrow> Some (Inl (ApiError_code ErrInvalidArgument ''Layer specified doesn't exist.'' False), w1)
             | Some l \<Rightarrow>
                 (let expiry = map_option ttl_seconds (layer_ttl l)
                  in if layer_type l \<noteq> ''versioned'' then fetchPartitions (PartitionsRequest_WithVersion None request) expiry w1
                     else if pr_version request \<noteq> None then fetchPartitions request expiry w1
                     else execute_or_cancelled E (\<lambda>w. do {
                       (response, w2) \<leftarrow> getLatestCatalogVersion E
                          (CatalogVersionRequest_WithStartVersion (- 1) (CatalogVersionRequest_WithFetchOption (pr_fetch_option request)
                             (CatalogVersionRequest_WithBillingTag (pr_billing_tag request) CatalogVersionRequest_new))) w;
                       case response of
                         Inl e \<Rightarrow> Some (Inl e, w2)
                       | Inr v \<Rightarrow> fetchPartitions (PartitionsRequest_WithVersion (Some (vr_version v)) request) expiry w2
                     }) w1))
      }))"

definition GetPartitions :: "('c, 's) read_env \<Rightarrow> PartitionsRequest \<Rightarrow> ('c, 's) read_world \<Rightarrow> ('c, 's, Partitions) answer" where
  "GetPartitions E request = appendPartitionsRequest E request (\<lambda>appendedRequest expiry. execute_or_cancelled E
     (cache_first (pr_fetch_option request) (PartitionsCache_Get (env_repo E) appendedRequest) ''Cache only resource not found in cache (partitions).''
       (with_client E ''metadata'' (\<lambda>client w1.
          let getPartitionsInternal = \<lambda>ver. execute_or_cancelled E (\<lambda>w. do {
                (r, w1) \<leftarrow> MetadataApi_GetPartitions (env_server E) (env_parsers E) client (pr_layer_id appendedRequest) ver None None
                   (pr_billing_tag appendedRequest) w;
                store_or_clear (\<lambda>ps. PartitionsCache_Put (env_repo E) appendedRequest ps expiry True)
                  (PartitionsCache_Clear (env_repo E) (pr_layer_id appendedRequest)) r w1
              })
          in if pr_version appendedRequest \<noteq> None
             then do {
               (layerVersionResponse, w2) \<leftarrow> GetLayerVersion E client appendedRequest w1;
               case layerVersionResponse of
                 Inl e \<Rightarrow> map_option (Pair (Inl e))
                   (if http_status_code e = 403 then write_cache (PartitionsCache_Clear (env_repo E) (pr_layer_id appendedRequest)) w2 else Some w2)
               | Inr v \<Rightarrow> getPartitionsInternal (Some v) w2
             }
             else getPartitionsInternal None w1))))"

definition GetPartitionsById :: "('c, 's) read_env \<Rightarrow> PartitionsRequest \<Rightarrow> string list \<Rightarrow> ('c, 's) read_world \<Rightarrow> ('c, 's, Partitions) answer" where
  "GetPartitionsById E request ids = appendPartitionsRequest E request (\<lambda>appendedRequest expiry. execute_or_cancelled E
     (cache_first (pr_fetch_option request)
       (\<lambda>c. map_option (\<lambda>(ps, c1). (if length (partitions ps) = length ids then Some ps else None, c1))
              (PartitionsCache_Get_ids (env_repo E) appendedRequest ids c))
       ''Cache only resource not found in cache (partition).''
       (with_client E ''query'' (\<lambda>client. execute_or_cancelled E (\<lambda>w. do {
          (r, w1) \<leftarrow> QueryApi_GetPartitionsbyId (env_server E) (env_parsers E) client (pr_layer_id appendedRequest) ids (pr_version appendedRequest)
             None (pr_billing_tag appendedRequest) w;
          store_or_clear (\<lambda>ps. PartitionsCache_Put (env_repo E) appendedRequest ps expiry False)
            (PartitionsCache_ClearPartitions (env_repo E) appendedRequest ids) r w1
        })))))"

text \<open>The key under which requests for partitions by name are merged.\<close>

fun join :: "string list \<Rightarrow> string" where
  "join [] = []" | "join [x] = x" | "join (x # y # xs) = x @ '','' @ join (y # xs)"

definition partitions_by_id_key :: "PartitionsRequest \<Rightarrow> string list \<Rightarrow> string" where
  "partitions_by_id_key request ids =
     pr_layer_id request @ ''['' @ join ids @ '']'' @ version_part (pr_version request) @
     tag_suffix (pr_billing_tag request) (pr_fetch_option request)"

section \<open>Data\<close>

definition IsInlineData :: "string \<Rightarrow> bool" where
  "IsInlineData dataHandle = prefix ''data:'' dataHandle"

definition GetDataInternal :: "('c, 's) read_env \<Rightarrow> string \<Rightarrow> DataRequest \<Rightarrow> ('c, 's) read_world \<Rightarrow> ('c, 's, string) answer" where
  "GetDataInternal E layerType request w =
     (let lid = dr_layer_id request;
          handle = (case dr_data_handle request of None \<Rightarrow> [] | Some h \<Rightarrow> h);
          cacheData = store_or_clear (\<lambda>d. DataCache_Put (env_repo E) d lid handle) (DataCache_Clear (env_repo E) lid handle);
          internal = \<lambda>serviceName dataFunc. execute_or_cancelled E
            (cache_first (dr_fetch_option request) (DataCache_Get (env_repo E) lid handle) ''Cache only resource not found in cache (data).''
              (with_client E serviceName (\<lambda>client. execute_or_cancelled E (dataFunc client)))) w
      in if layerType = ''versioned''
         then internal ''blob'' (\<lambda>client w. do {
                h \<leftarrow> dr_data_handle request;
                let (r, w1) = BlobApi_GetBlob (env_server E) client lid h (dr_billing_tag request) None w;
                cacheData r w1 })
         else if layerType = ''volatile''
         then internal ''volatile-blob'' (\<lambda>client w. do {
                h \<leftarrow> dr_data_handle request;
                let (r, w1) = VolatileBlobApi_GetVolatileBlob (env_server E) client lid h (dr_billing_tag request) w;
                cacheData r w1 })
         else Some (Inl (ApiError_code ErrServiceUnavailable ''Stream layers are not supported yet.'' False), w))"

text \<open>The data of a response is a shared pointer, which is null (\<open>None\<close>) for a partition that does not exist.\<close>

definition GetData_partition :: "('c, 's) read_env \<Rightarrow> DataRequest \<Rightarrow> string \<Rightarrow> Partitions ApiResponse \<Rightarrow> ('c, 's) read_world \<Rightarrow> ('c, 's, string option) answer" where
  "GetData_partition E request layerType partitionsResponse w =
     (case partitionsResponse of
        Inl e \<Rightarrow> Some (Inl e, w)
      | Inr ps \<Rightarrow>
          (if length (partitions ps) = 1
           then let dataHandle = data_handle (partitions ps ! 0)
                in if IsInlineData dataHandle then Some (Inr (Some dataHandle), w)
                   else let appendedRequest = DataRequest_WithDataHandle (Some dataHandle) request
                        in do {
                          (response, w1) \<leftarrow> GetDataInternal E layerType appendedRequest w;
                          case response of
                            Inr d \<Rightarrow> Some (Inr (Some d), w1)
                          | Inl e \<Rightarrow> map_option (Pair (Inl e))
                              (if http_status_code e = 403
                               then do {
                                 pid \<leftarrow> dr_partition_id appendedRequest;
                                 write_cache (PartitionsCache_ClearPartitions (env_repo E)
                                   (PartitionsRequest_WithVersion (dr_version appendedRequest) (PartitionsRequest_WithLayerId (dr_layer_id appendedRequest)
                                      (PartitionsRequest_WithBillingTag (dr_billing_tag appendedRequest) PartitionsRequest_new))) [pid]) w1
                               }
                               else Some w1)
                        }
           else Some (Inr None, w)))"

definition GetData :: "('c, 's) read_env \<Rightarrow> DataRequest \<Rightarrow> ('c, 's) read_world \<Rightarrow> ('c, 's, string option) answer" where
  "GetData E request w =
     (if dr_data_handle request = None \<and> dr_partition_id request = None
      then Some (Inl (ApiError_code ErrInvalidArgument ''A data handle or a partition id must be defined.'' False), w)
      else execute_or_cancelled E (\<lambda>w. do {
        (catalogResponse, w1) \<leftarrow> getCatalog E (CatalogRequest_WithFetchOption (dr_fetch_option request)
           (CatalogRequest_WithBillingTag (dr_billing_tag request) CatalogRequest_new)) w;
        case catalogResponse of
          Inl e \<Rightarrow> Some (Inl e, w1)
        | Inr catalog \<Rightarrow>
            (case find (\<lambda>l. layer_id l = dr_layer_id request) (layers catalog) of
               None \<Rightarrow> Some (Inl (ApiError_code ErrInvalidArgument ''Layer specified doesn't exist.'' False), w1)
             | Some l \<Rightarrow>
                 (if dr_data_handle request \<noteq> None
                  then map_option (\<lambda>(r, w2). (map_sum id Some r, w2)) (GetDataInternal E (layer_type l) request w1)
                  else execute_or_cancelled E (\<lambda>w. do {
                    pid \<leftarrow> dr_partition_id request;
                    (partitionsResponse, w2) \<leftarrow> GetPartitionsById E
                       (PartitionsRequest_WithVersion (dr_version request) (PartitionsRequest_WithLayerId (dr_layer_id request)
                          (PartitionsRequest_WithFetchOption (dr_fetch_option request)
                             (PartitionsRequest_WithBillingTag (dr_billing_tag request) PartitionsRequest_new)))) [pid] w;
                    GetData_partition E request (layer_type l) partitionsResponse w2
                  }) w1))
      }) w)"


section \<open>Network calls\<close>

text \<open>At most \<open>n\<close> network calls were made on the way; without a call the environment is unchanged.\<close>

definition net_ext :: "nat \<Rightarrow> ('c, 's) read_world \<Rightarrow> ('c, 's) read_world \<Rightarrow> bool" where
  "net_ext n w w' \<longleftrightarrow> (\<exists>cs. rw_calls w' = rw_calls w @ cs \<and> length cs \<le> n \<and> (cs = [] \<longrightarrow> rw_env w' = rw_env w))"

definition net_bound :: "nat \<Rightarrow> (('c, 's) read_world \<Rightarrow> ('r \<times> ('c, 's) read_world) option) \<Rightarrow> bool" where
  "net_bound n f \<longleftrightarrow> (\<forall>w r w'. f w = Some (r, w') \<longrightarrow> net_ext n w w')"

lemma net_boundI: "(\<And>w r w'. f w = Some (r, w') \<Longrightarrow> net_ext n w w') \<Longrightarrow> net_bound n f"
  by (simp add: net_bound_def)

lemma net_boundD: "net_bound n f \<Longrightarrow> f w = Some (r, w') \<Longrightarrow> net_ext n w w'"
  by (simp add: net_bound_def)

lemma net_ext_refl [simp]: "net_ext n w w"
  by (simp add: net_ext_def)

lemma net_ext_trans: "net_ext m w w1 \<Longrightarrow> net_ext n w1 w' \<Longrightarrow> net_ext (m + n) w w'"
proof -
  assume "net_ext m w w1" "net_ext n w1 w'"
  then obtain as bs where "rw_calls w1 = rw_calls w @ as" "length as \<le> m" "as = [] \<longrightarrow> rw_env w1 = rw_env w"
    "rw_calls w' = rw_calls w1 @ bs" "length bs \<le> n" "bs = [] \<longrightarrow> rw_env w' = rw_env w1" unfolding net_ext_def by blast
  then show ?thesis unfolding net_ext_def by (intro exI [of _ "as @ bs"]) auto
qed

lemma net_ext_mono: "net_ext m w w' \<Longrightarrow> m \<le> n \<Longrightarrow> net_ext n w w'"
  unfolding net_ext_def by (meson le_trans)

text \<open>Steps on the cache only.\<close>

lemma read_cache_net: "read_cache f w = Some (r, w') \<Longrightarrow> net_ext n w w'"
  by (auto simp: read_cache_def net_ext_def)

lemma write_cache_net: "write_cache f w = Some w' \<Longrightarrow> net_ext n w w'"
  by (auto simp: write_cache_def net_ext_def)

lemma store_net: "store_or_clear st cl x w = Some (r, w') \<Longrightarrow> net_ext n w w'"
  by (auto simp: store_or_clear_def write_cache_net split: sum.splits if_splits)

lemma CallApi_net: "CallApi_get srv c path q h w = (r, w') \<Longrightarrow> net_ext (Suc 0) w w'"
  by (auto simp: CallApi_get_def net_ext_def Let_def split: prod.splits)

lemma CallApi_net_snd: "net_ext (Suc 0) w (snd (CallApi_get srv c path q h w))"
  by (rule CallApi_net) (simp add: prod_eq_iff)

lemma net_execute: "net_bound n run \<Longrightarrow> net_bound n (execute_or_cancelled E run)"
  by (auto simp: net_bound_def execute_or_cancelled_def)

lemma net_cache_first:
  assumes "fo \<noteq> CacheOnly \<Longrightarrow> net_bound n network"
  shows "net_bound n (cache_first fo lookup msg network)"
proof (rule net_boundI)
  fix w r w' assume a: "cache_first fo lookup msg network w = Some (r, w')"
  show "net_ext n w w'"
  proof (cases "fo = OnlineOnly")
    case True
    then show ?thesis using a assms by (simp add: cache_first_def net_bound_def)
  next
    case False
    then obtain cached w1 where c: "read_cache lookup w = Some (cached, w1)"
      "(case cached of Some x \<Rightarrow> Some (Inr x, w1)
        | None \<Rightarrow> if fo = CacheOnly then Some (Inl (ApiError_code ErrNotFound msg False), w1) else network w1) = Some (r, w')"
      using a by (auto simp: cache_first_def bind_Some_iff)
    have "net_ext n w1 w'" using c(2) assms by (auto simp: net_bound_def split: option.splits if_splits)
    with read_cache_net [OF c(1), of 0] show ?thesis using net_ext_trans [of 0 w w1 n w'] by simp
  qed
qed

lemma Lookup_net: "LookupApiClient srv P c s v h w = (r, w') \<Longrightarrow> net_ext (Suc 0) w w'"
  by (auto simp: LookupApiClient_def LookupApi_def PlatformApi_GetApis_def ResourcesApi_GetApis_def Let_def
      split: prod.splits sum.splits if_splits dest: CallApi_net)

lemma net_getApiClient: "net_bound (Suc 0) (getApiClient E s v)"
proof (rule net_boundI)
  fix w r w' assume a: "getApiClient E s v w = Some (r, w')"
  then obtain url w1 where u: "read_cache (ApiCache_Get (env_repo E) s v) w = Some (url, w1)" by (auto simp: getApiClient_def bind_Some_iff)
  obtain r2 w2 where l: "LookupApiClient (env_server E) (env_parsers E) (OlpClientFactory_Create (env_settings E)) s v (env_hrn E) w1 = (r2, w2)"
    by (metis surj_pair)
  have "net_ext (Suc 0) w1 w'"
  proof (cases url)
    case (Some x)
    then show ?thesis using a u by (simp add: getApiClient_def)
  next
    case None
    then consider "w' = w2" | f where "write_cache f w2 = Some w'" using a u l by (auto simp: getApiClient_def split: sum.splits)
    then show ?thesis using net_ext_trans [OF Lookup_net [OF l] write_cache_net [where n = 0]] Lookup_net [OF l] by cases auto
  qed
  then show "net_ext (Suc 0) w w'" using net_ext_trans [OF read_cache_net [OF u, of 0]] by simp
qed

lemma net_with_client:
  assumes "\<And>c. net_bound n (run c)"
  shows "net_bound (Suc n) (with_client E s run)"
proof (rule net_boundI)
  fix w r w' assume "with_client E s run w = Some (r, w')"
  then obtain c w1 where c: "getApiClient E s ''v1'' w = Some (c, w1)"
    "(case c of Inl e \<Rightarrow> Some (Inl e, w1) | Inr c \<Rightarrow> run c w1) = Some (r, w')" by (auto simp: with_client_def bind_Some_iff)
  then have "net_ext n w1 w'" using assms by (auto simp: net_bound_def split: sum.splits)
  then show "net_ext (Suc n) w w'" using net_ext_trans [OF net_boundD [OF net_getApiClient c(1)]] by simp
qed


text \<open>A call of an interface and the cache.\<close>

lemma net_api:
  assumes "\<And>w. net_ext n w (snd (api w))"
  shows "net_bound n (\<lambda>w. let (r, w1) = api w in store_or_clear st cl r w1)"
proof (rule net_boundI)
  fix w r w' assume a: "(let (r, w1) = api w in store_or_clear st cl r w1) = Some (r, w')"
  then have "store_or_clear st cl (fst (api w)) (snd (api w)) = Some (r, w')" by (simp add: split_beta Let_def)
  from net_ext_trans [OF assms store_net [OF this, of 0]] show "net_ext n w w'" by simp
qed

lemmas net_api_case = net_api [unfolded Let_def]

lemma api_nets:
  "net_ext (Suc 0) w (snd (ConfigApi_GetCatalog srv P c h t w))"
  "net_ext (Suc 0) w (snd (MetadataApi_GetLatestCatalogVersion srv P c v t w))"
  "net_ext (Suc 0) w (snd (MetadataApi_GetLayerVersions srv P c v t w))"
  "net_ext (Suc 0) w (snd (BlobApi_GetBlob srv c l h t b w))"
  "net_ext (Suc 0) w (snd (VolatileBlobApi_GetVolatileBlob srv c l h t w))"
  by (auto simp: ConfigApi_GetCatalog_def MetadataApi_GetLatestCatalogVersion_def MetadataApi_GetLayerVersions_def BlobApi_GetBlob_def
      VolatileBlobApi_GetVolatileBlob_def Let_def split: prod.splits dest: CallApi_net)

lemma api_opt_nets:
  "MetadataApi_GetPartitions srv P c l v f b t w = Some (r, w') \<Longrightarrow> net_ext (Suc 0) w w'"
  "QueryApi_GetPartitionsbyId srv P c l ids v f t w = Some (r, w') \<Longrightarrow> net_ext (Suc 0) w w'"
  by (auto simp: MetadataApi_GetPartitions_def QueryApi_GetPartitionsbyId_def bind_Some_iff Let_def split_beta
      intro: CallApi_net_snd)

lemma net_bind:
  assumes "net_bound m f" "\<And>r. net_bound n (g r)"
  shows "net_bound (m + n) (\<lambda>w. Option.bind (f w) (\<lambda>(r, w1). g r w1))"
proof (rule net_boundI)
  fix w r w' assume "Option.bind (f w) (\<lambda>(r, w1). g r w1) = Some (r, w')"
  then obtain r1 w1 where "f w = Some (r1, w1)" "g r1 w1 = Some (r, w')" by (auto simp: bind_Some_iff)
  then show "net_ext (m + n) w w'" using assms net_ext_trans net_boundD by metis
qed

lemmas net_bind_0 = net_bind [where m = 0, simplified]

lemma net_read: "net_bound n (read_cache f)"
  by (rule net_boundI) (rule read_cache_net)

lemma net_write: "net_bound n (\<lambda>w. map_option (Pair r) (write_cache f w))"
  by (rule net_boundI) (auto dest: write_cache_net)

lemma net_pair:
  assumes "\<And>w. net_ext m w (snd (api w))" "\<And>r. net_bound n (g r)"
  shows "net_bound (m + n) (\<lambda>w. case api w of (r, w1) \<Rightarrow> g r w1)"
proof (rule net_boundI)
  fix w r w' assume "(case api w of (r, w1) \<Rightarrow> g r w1) = Some (r, w')"
  then have "g (fst (api w)) (snd (api w)) = Some (r, w')" by (simp add: split_beta)
  from net_ext_trans [OF assms(1) net_boundD [OF assms(2) this]] show "net_ext (m + n) w w'" .
qed

lemmas net_pair_1 = net_pair [where m = "Suc 0" and n = 0, simplified]

lemma net_cases:
  "net_bound n a \<Longrightarrow> (\<And>x. net_bound n (b x)) \<Longrightarrow> net_bound n (\<lambda>w. case opt of None \<Rightarrow> a w | Some x \<Rightarrow> b x w)"
  "(\<And>x. net_bound n (l x)) \<Longrightarrow> (\<And>x. net_bound n (k x)) \<Longrightarrow> net_bound n (\<lambda>w. case res of Inl x \<Rightarrow> l x w | Inr x \<Rightarrow> k x w)"
  "net_bound n f \<Longrightarrow> net_bound n g \<Longrightarrow> net_bound n (\<lambda>w. if cond then f w else g w)"
  by (auto simp: net_bound_def split: option.splits sum.splits if_splits)

lemma net_store: "net_bound 0 (store_or_clear st cl x)"
  by (rule net_boundI) (rule store_net)

lemma net_return: "net_bound n (\<lambda>w. Some (r, w))"
  by (simp add: net_bound_def)

text \<open>The number of calls of a request: none if it is for the cache only.\<close>

definition call_bound :: "FetchOptions \<Rightarrow> nat \<Rightarrow> nat" where
  "call_bound fo n = (if fo = CacheOnly then 0 else n)"

lemma net_getCatalog: "net_bound (call_bound (cr_fetch_option q) 2) (getCatalog E q)"
  unfolding getCatalog_def
  by (intro net_execute net_cache_first)
     (auto simp: call_bound_def numeral_2_eq_2 intro!: net_with_client net_execute net_api_case api_nets)

lemma net_getLatestCatalogVersion: "net_bound (call_bound (cvr_fetch_option q) 2) (getLatestCatalogVersion E q)"
proof (cases "cvr_fetch_option q = CacheOnly")
  case True
  then show ?thesis unfolding getLatestCatalogVersion_def
    by (intro net_execute net_boundI) (auto simp: bind_Some_iff split: option.splits dest: read_cache_net)
next
  case False
  then show ?thesis unfolding getLatestCatalogVersion_def
    by (intro net_execute) (auto simp: call_bound_def numeral_2_eq_2 intro!: net_with_client net_execute net_api_case api_nets)
qed

lemma net_GetLayerVersion: "net_bound (Suc 0) (GetLayerVersion E c q)"
proof (cases "pr_version q")
  case (Some ver)
  show ?thesis unfolding GetLayerVersion_def Let_def Some bind.bind_lunit
    by (intro net_execute net_bind_0 net_read net_cases net_return net_pair_1 api_nets net_write)
qed (simp add: GetLayerVersion_def net_bound_def execute_or_cancelled_def)

lemma net_append:
  assumes "\<And>q e. net_bound n (fetch q e)"
  shows "net_bound (call_bound (pr_fetch_option request) 4 + n) (appendPartitionsRequest E request fetch)"
proof -
  have 4: "call_bound (pr_fetch_option request) 4 + n = call_bound (pr_fetch_option request) 2 + (call_bound (pr_fetch_option request) 2 + n)"
    by (simp add: call_bound_def)
  have c: "net_bound (call_bound (pr_fetch_option request) 2) (getCatalog E (CatalogRequest_WithFetchOption (pr_fetch_option request)
      (CatalogRequest_WithBillingTag t CatalogRequest_new)))" for t
    using net_getCatalog [of "CatalogRequest_WithFetchOption (pr_fetch_option request) (CatalogRequest_WithBillingTag t CatalogRequest_new)"]
    by (simp add: CatalogRequest_WithFetchOption_def)
  have v: "net_bound (call_bound (pr_fetch_option request) 2) (getLatestCatalogVersion E (CatalogVersionRequest_WithStartVersion i
      (CatalogVersionRequest_WithFetchOption (pr_fetch_option request) (CatalogVersionRequest_WithBillingTag t CatalogVersionRequest_new))))" for i t
    using net_getLatestCatalogVersion [of "CatalogVersionRequest_WithStartVersion i
      (CatalogVersionRequest_WithFetchOption (pr_fetch_option request) (CatalogVersionRequest_WithBillingTag t CatalogVersionRequest_new))"]
    by (simp add: CatalogVersionRequest_WithStartVersion_def CatalogVersionRequest_WithFetchOption_def)
  have f: "net_bound (m + n) (fetch q e)" for m q e using assms net_ext_mono by (metis le_add2 net_bound_def)
  show ?thesis unfolding appendPartitionsRequest_def Let_def 4
    by (intro net_execute net_bind c net_cases net_return f v assms)
qed


lemma net_GetPartitions: "net_bound (call_bound (pr_fetch_option q) 7) (GetPartitions E q)"
proof -
  have n: "call_bound (pr_fetch_option q) 7 = call_bound (pr_fetch_option q) 4 + call_bound (pr_fetch_option q) 3" by (simp add: call_bound_def)
  have api: "net_bound (Suc 0) (\<lambda>w. Option.bind (MetadataApi_GetPartitions srv P c l v None None t w) (\<lambda>(r, w1). store_or_clear st cl r w1))"
    for srv P c l v t st cl
    by (rule net_bind [of "Suc 0" _ 0, simplified, OF net_boundI net_store]) (rule api_opt_nets(1))
  have run: "net_bound 3 (with_client E ''metadata'' (\<lambda>client w1.
      if pr_version p \<noteq> None
      then Option.bind (GetLayerVersion E client p w1) (\<lambda>(lv, w2). case lv of
          Inl e \<Rightarrow> map_option (Pair (Inl e)) (if http_status_code e = 403 then write_cache (PartitionsCache_Clear (env_repo E) (pr_layer_id p)) w2 else Some w2)
        | Inr v \<Rightarrow> execute_or_cancelled E (\<lambda>w. Option.bind (MetadataApi_GetPartitions (env_server E) (env_parsers E) client (pr_layer_id p) (Some v) None None
               (pr_billing_tag p) w) (\<lambda>(r, w1). store_or_clear st cl r w1)) w2)
      else execute_or_cancelled E (\<lambda>w. Option.bind (MetadataApi_GetPartitions (env_server E) (env_parsers E) client (pr_layer_id p) None None None
               (pr_billing_tag p) w) (\<lambda>(r, w1). store_or_clear st cl r w1)) w1))" for p st cl
  proof -
    have "net_bound (Suc 0 + Suc 0) (\<lambda>w1. Option.bind (GetLayerVersion E client p w1) (\<lambda>(lv, w2). case lv of
          Inl e \<Rightarrow> map_option (Pair (Inl e)) (if http_status_code e = 403 then write_cache (PartitionsCache_Clear (env_repo E) (pr_layer_id p)) w2 else Some w2)
        | Inr v \<Rightarrow> execute_or_cancelled E (\<lambda>w. Option.bind (MetadataApi_GetPartitions (env_server E) (env_parsers E) client (pr_layer_id p) (Some v) None None
               (pr_billing_tag p) w) (\<lambda>(r, w1). store_or_clear st cl r w1)) w2))" for client
      by (intro net_bind net_GetLayerVersion net_cases net_execute api) (auto simp: net_bound_def dest: write_cache_net split: if_splits)
    moreover have "net_bound (Suc 0 + Suc 0) (execute_or_cancelled E (\<lambda>w. Option.bind (MetadataApi_GetPartitions srv P c l v None None t w)
        (\<lambda>(r, w1). store_or_clear st cl r w1)))" for srv P c l v t
      by (intro net_execute net_boundI net_ext_mono [OF net_boundD [OF api]]) auto
    ultimately show ?thesis unfolding numeral_3_eq_3 by (intro net_with_client net_cases) simp_all
  qed
  show ?thesis unfolding GetPartitions_def n Let_def
    by (intro net_append net_execute net_cache_first) (simp only: call_bound_def if_False run)
qed

lemma net_GetPartitionsById: "net_bound (call_bound (pr_fetch_option q) 6) (GetPartitionsById E q ids)"
proof -
  have n: "call_bound (pr_fetch_option q) 6 = call_bound (pr_fetch_option q) 4 + call_bound (pr_fetch_option q) 2" by (simp add: call_bound_def)
  have api: "net_bound (Suc 0) (\<lambda>w. Option.bind (QueryApi_GetPartitionsbyId srv P c l ids v None t w) (\<lambda>(r, w1). store_or_clear st cl r w1))"
    for srv P c l v t st cl
    by (rule net_bind [of "Suc 0" _ 0, simplified, OF net_boundI net_store]) (rule api_opt_nets(2))
  show ?thesis unfolding GetPartitionsById_def n
    by (intro net_append net_execute net_cache_first) (simp add: call_bound_def numeral_2_eq_2 net_with_client net_execute api)
qed

lemma net_GetDataInternal: "net_bound (call_bound (dr_fetch_option q) 2) (GetDataInternal E t q)"
proof -
  have api: "net_bound (Suc 0) (\<lambda>w. Option.bind (dr_data_handle q) (\<lambda>h. case api h w of (r, w1) \<Rightarrow> store_or_clear st cl r w1))"
    if "\<And>h w. net_ext (Suc 0) w (snd (api h w))" for api :: "string \<Rightarrow> _" and st cl
  proof (cases "dr_data_handle q")
    case (Some h)
    then show ?thesis using net_pair_1 [of "api h" "store_or_clear st cl", OF that net_store] by simp
  qed (simp add: net_bound_def)
  have run: "net_bound (call_bound (dr_fetch_option q) 2) (execute_or_cancelled E (cache_first (dr_fetch_option q) lk msg
      (with_client E s (\<lambda>c. execute_or_cancelled E (\<lambda>w. Option.bind (dr_data_handle q) (\<lambda>h. case api c h w of (r, w1) \<Rightarrow> store_or_clear st cl r w1))))))"
    if "\<And>c h w. net_ext (Suc 0) w (snd (api c h w))" for lk msg s and api :: "OlpClient \<Rightarrow> string \<Rightarrow> _" and st cl
    by (intro net_execute net_cache_first) (simp add: call_bound_def numeral_2_eq_2 net_with_client net_execute api that)
  show ?thesis unfolding GetDataInternal_def Let_def
    by (intro net_cases run api_nets net_return)
qed


lemma net_GetData_partition: "net_bound (call_bound (dr_fetch_option q) 2) (GetData_partition E q t ps)"
proof -
  have d: "net_bound (call_bound (dr_fetch_option q) 2) (GetDataInternal E t (DataRequest_WithDataHandle h q))" for h
    using net_GetDataInternal [of "DataRequest_WithDataHandle h q"] by (simp add: DataRequest_WithDataHandle_def)
  have c: "net_bound 0 (\<lambda>w. map_option (Pair r) (if b then Option.bind x (\<lambda>pid. write_cache (f pid) w) else Some w))" for r b x f
    by (rule net_boundI) (auto simp: bind_Some_iff dest: write_cache_net split: if_splits)
  have g: "net_bound (call_bound (dr_fetch_option q) 2 + 0) (\<lambda>w. Option.bind (GetDataInternal E t (DataRequest_WithDataHandle h q) w) (\<lambda>(response, w1).
      case response of Inl e \<Rightarrow> map_option (Pair (Inl e)) (if http_status_code e = 403 then Option.bind (x h) (\<lambda>pid. write_cache (f h pid) w1) else Some w1)
      | Inr d \<Rightarrow> Some (Inr (Some d), w1)))" for h x f
    by (intro net_bind d net_cases c net_return)
  show ?thesis unfolding GetData_partition_def Let_def
    by (intro net_cases net_return g [simplified])
qed

lemma net_GetData: "net_bound (call_bound (dr_fetch_option q) 10) (GetData E q)"
proof -
  have n: "call_bound (dr_fetch_option q) 10 = call_bound (dr_fetch_option q) 2 + (call_bound (dr_fetch_option q) 6 + call_bound (dr_fetch_option q) 2)"
    by (simp add: call_bound_def)
  have c: "net_bound (call_bound (dr_fetch_option q) 2) (getCatalog E (CatalogRequest_WithFetchOption (dr_fetch_option q) r))" for r
    using net_getCatalog [of "CatalogRequest_WithFetchOption (dr_fetch_option q) r"] by (simp add: CatalogRequest_WithFetchOption_def)
  have p: "net_bound (call_bound (dr_fetch_option q) 6) (GetPartitionsById E (PartitionsRequest_WithVersion v (PartitionsRequest_WithLayerId l
      (PartitionsRequest_WithFetchOption (dr_fetch_option q) r))) ids)" for v l r ids
    using net_GetPartitionsById [of "PartitionsRequest_WithVersion v (PartitionsRequest_WithLayerId l (PartitionsRequest_WithFetchOption (dr_fetch_option q) r))"]
    by (simp add: PartitionsRequest_WithVersion_def PartitionsRequest_WithLayerId_def PartitionsRequest_WithFetchOption_def)
  have d: "net_bound (call_bound (dr_fetch_option q) 6 + call_bound (dr_fetch_option q) 2) (\<lambda>w. map_option (\<lambda>(r, w2). (map_sum id Some r, w2)) (GetDataInternal E t q w))" for t
    by (rule net_boundI) (auto intro: net_ext_mono dest!: net_boundD [OF net_GetDataInternal])
  have part: "net_bound (call_bound (dr_fetch_option q) 6 + call_bound (dr_fetch_option q) 2) (execute_or_cancelled E (\<lambda>w. Option.bind (dr_partition_id q) (\<lambda>pid.
      Option.bind (GetPartitionsById E (PartitionsRequest_WithVersion v (PartitionsRequest_WithLayerId l
        (PartitionsRequest_WithFetchOption (dr_fetch_option q) r))) [pid] w) (\<lambda>(ps, w2). GetData_partition E q t ps w2))))" for v l r t
    by (cases "dr_partition_id q") (auto intro!: net_execute net_bind p net_GetData_partition simp: net_bound_def [of _ "\<lambda>w. None"])
  show ?thesis unfolding GetData_def n
    by (intro net_cases net_return net_execute net_bind c d part)
qed

end
