(* ===== verification/Read_Answers.thy ===== *)
theory Read_Answers
  imports Read_Repositories
begin

text \<open>
  Properties of the repositories of dataservice-read with the default cache in memory: the network calls of
  requests, that every request is answered, and what is found of data that was fetched. \<open>world_ok\<close> is the
  invariant of the cache (every value has the type of its key); \<open>answers\<close> and \<open>leaves\<close> are judgements on
  steps with one rule for each way the code composes them.
\<close>

section \<open>Every request is answered\<close>

definition world_ok :: "time_t \<Rightarrow> string \<Rightarrow> ('w \<times> cached DefaultCache, 's) read_world \<Rightarrow> bool" where
  "world_ok now hrn w \<longleftrightarrow> memory_only (rw_cache w) \<and> typed_items hrn (memory_item now (rw_cache w))"

definition answers :: "time_t \<Rightarrow> string \<Rightarrow> (('w \<times> cached DefaultCache, 's) read_world \<Rightarrow> ('r \<times> ('w \<times> cached DefaultCache, 's) read_world) option) \<Rightarrow> bool" where
  "answers now hrn f \<longleftrightarrow> (\<forall>w. world_ok now hrn w \<longrightarrow> (\<exists>r w'. f w = Some (r, w') \<and> world_ok now hrn w'))"

definition cache_answers :: "time_t \<Rightarrow> string \<Rightarrow> ('w \<times> cached DefaultCache \<Rightarrow> ('r \<times> 'w \<times> cached DefaultCache) option) \<Rightarrow> bool" where
  "cache_answers now hrn f \<longleftrightarrow> (\<forall>c. memory_only c \<longrightarrow> typed_items hrn (memory_item now c) \<longrightarrow>
     (\<exists>r c'. f c = Some (r, c') \<and> memory_only c' \<and> typed_items hrn (memory_item now c')))"

definition cache_updates :: "time_t \<Rightarrow> string \<Rightarrow> ('w \<times> cached DefaultCache \<Rightarrow> ('w \<times> cached DefaultCache) option) \<Rightarrow> bool" where
  "cache_updates now hrn f \<longleftrightarrow> (\<forall>c. memory_only c \<longrightarrow> typed_items hrn (memory_item now c) \<longrightarrow>
     (\<exists>c'. f c = Some c' \<and> memory_only c' \<and> typed_items hrn (memory_item now c')))"

lemma answers_rules:
  "answers now hrn (\<lambda>w. Some (r, w))"
  "answers now hrn f \<Longrightarrow> (\<And>r. answers now hrn (g r)) \<Longrightarrow> answers now hrn (\<lambda>w. Option.bind (f w) (\<lambda>(r, w1). g r w1))"
  "answers now hrn a \<Longrightarrow> (\<And>x. answers now hrn (b x)) \<Longrightarrow> answers now hrn (\<lambda>w. case opt of None \<Rightarrow> a w | Some x \<Rightarrow> b x w)"
  "(\<And>x. answers now hrn (l x)) \<Longrightarrow> (\<And>x. answers now hrn (k x)) \<Longrightarrow> answers now hrn (\<lambda>w. case res of Inl x \<Rightarrow> l x w | Inr x \<Rightarrow> k x w)"
  "(cond \<Longrightarrow> answers now hrn u) \<Longrightarrow> (\<not> cond \<Longrightarrow> answers now hrn v) \<Longrightarrow> answers now hrn (\<lambda>w. if cond then u w else v w)"
  "answers now hrn run \<Longrightarrow> answers now hrn (execute_or_cancelled E run)"
  by (fastforce simp: answers_def execute_or_cancelled_def world_ok_def split: option.splits sum.splits if_splits)+

lemma answers_read:
  assumes "cache_answers now hrn lk"
  shows "answers now hrn (read_cache lk)"
  unfolding answers_def
proof (intro allI impI)
  fix w :: "('a \<times> cached DefaultCache, 'c) read_world" assume "world_ok now hrn w"
  then obtain r c' where "lk (rw_cache w) = Some (r, c')" "memory_only c'" "typed_items hrn (memory_item now c')"
    using assms unfolding cache_answers_def world_ok_def by blast
  then show "\<exists>r w'. read_cache lk w = Some (r, w') \<and> world_ok now hrn w'" by (auto simp: read_cache_def world_ok_def)
qed

lemma write_ok:
  assumes "cache_updates now hrn upd" "world_ok now hrn w"
  shows "\<exists>w'. write_cache upd w = Some w' \<and> world_ok now hrn w'"
proof -
  obtain c' where "upd (rw_cache w) = Some c'" "memory_only c'" "typed_items hrn (memory_item now c')"
    using assms unfolding cache_updates_def world_ok_def by blast
  then show ?thesis by (auto simp: write_cache_def world_ok_def)
qed

lemma answers_write: "cache_updates now hrn upd \<Longrightarrow> answers now hrn (\<lambda>w. map_option (Pair x) (write_cache upd w))"
  using write_ok unfolding answers_def by fastforce


lemma answers_store:
  assumes "\<And>x. cache_updates now hrn (st x)" "cache_updates now hrn cl"
  shows "answers now hrn (store_or_clear st cl r)"
proof (cases r)
  case (Inl e)
  then show ?thesis using answers_write [OF assms(2), of "Inl e"] answers_rules(1) [of now hrn "Inl e"]
    by (cases "http_status_code e = 403") (simp_all add: store_or_clear_def [abs_def])
next
  case (Inr x)
  then show ?thesis using answers_write [OF assms(1)] by (simp add: store_or_clear_def [abs_def])
qed

lemma answers_cache_first:
  assumes "cache_answers now hrn lk" "answers now hrn network"
  shows "answers now hrn (cache_first fo lk msg network)"
proof (cases "fo = OnlineOnly")
  case True
  then have "cache_first fo lk msg network = network" by (intro ext) (simp add: cache_first_def)
  then show ?thesis using assms(2) by simp
next
  case False
  have "answers now hrn (\<lambda>w. Option.bind (read_cache lk w) (\<lambda>(cached, w1). case cached of
      None \<Rightarrow> if fo = CacheOnly then Some (Inl (ApiError_code ErrNotFound msg False), w1) else network w1 | Some x \<Rightarrow> Some (Inr x, w1)))"
    by (intro answers_rules answers_read assms)
  then show ?thesis using False unfolding cache_first_def [abs_def] by simp
qed

lemma answers_pair:
  fixes api :: "('a \<times> cached DefaultCache, 'b) read_world \<Rightarrow> 'x \<times> ('a \<times> cached DefaultCache, 'b) read_world"
  assumes "\<And>w. rw_cache (snd (api w)) = rw_cache w" "\<And>r. answers now hrn (g r)"
  shows "answers now hrn (\<lambda>w. case api w of (r, w1) \<Rightarrow> g r w1)"
  unfolding answers_def
proof (intro allI impI)
  fix w :: "('a \<times> cached DefaultCache, 'b) read_world" assume "world_ok now hrn w"
  then have "world_ok now hrn (snd (api w))" using assms(1) by (simp add: world_ok_def)
  then show "\<exists>r w'. (case api w of (r, w1) \<Rightarrow> g r w1) = Some (r, w') \<and> world_ok now hrn w'"
    using assms(2) by (simp add: answers_def split_beta)
qed

lemma api_cache:
  "rw_cache (snd (CallApi_get srv c p q h w)) = rw_cache w"
  "rw_cache (snd (ConfigApi_GetCatalog srv P c s t w)) = rw_cache w"
  "rw_cache (snd (MetadataApi_GetLatestCatalogVersion srv P c v t w)) = rw_cache w"
  "rw_cache (snd (MetadataApi_GetLayerVersions srv P c v t w)) = rw_cache w"
  "rw_cache (snd (BlobApi_GetBlob srv c l s t b w)) = rw_cache w"
  "rw_cache (snd (VolatileBlobApi_GetVolatileBlob srv c l s t w)) = rw_cache w"
  "rw_cache (snd (LookupApiClient srv P c s n hr w)) = rw_cache w"
  by (auto simp: CallApi_get_def ConfigApi_GetCatalog_def MetadataApi_GetLatestCatalogVersion_def MetadataApi_GetLayerVersions_def BlobApi_GetBlob_def
      VolatileBlobApi_GetVolatileBlob_def LookupApiClient_def LookupApi_def PlatformApi_GetApis_def ResourcesApi_GetApis_def Let_def
      split: prod.splits sum.splits if_splits)

lemma answers_query:
  "ids \<noteq> [] \<Longrightarrow> answers now hrn (QueryApi_GetPartitionsbyId srv P c l ids v None t)"
  "answers now hrn (MetadataApi_GetPartitions srv P c l v None None t)"
  by (auto simp: answers_def QueryApi_GetPartitionsbyId_def MetadataApi_GetPartitions_def concatStringArray_def CallApi_get_def world_ok_def Let_def
      split: prod.splits)

text \<open>The environment of a client with a memory cache.\<close>

definition env_ok :: "time_t \<Rightarrow> ('w \<times> cached DefaultCache, 's) read_env \<Rightarrow> bool" where
  "env_ok now E \<longleftrightarrow> (\<exists>S. repo_cache (env_repo E) = DefaultCache_kv S now)"

abbreviation catalog_name_of :: "('c, 's) read_env \<Rightarrow> string" where
  "catalog_name_of E \<equiv> ToCatalogHRNString (env_hrn E)"

lemma env_answers:
  assumes "env_ok now E" "CHR '':'' \<notin> set (op_layer oper)" "\<And>c. cache_repo_step (env_repo E) oper c = map_option snd (f c)"
  shows "cache_answers now (catalog_name_of E) f"
proof -
  obtain S where "repo_cache (env_repo E) = DefaultCache_kv S now" using assms(1) by (auto simp: env_ok_def)
  from memory_kv.typed_step [OF this refl assms(2)] assms(3) show ?thesis unfolding cache_answers_def by fastforce
qed

lemma env_updates:
  assumes "env_ok now E" "CHR '':'' \<notin> set (op_layer oper)" "\<And>c. cache_repo_step (env_repo E) oper c = f c"
  shows "cache_updates now (catalog_name_of E) f"
proof -
  obtain S where "repo_cache (env_repo E) = DefaultCache_kv S now" using assms(1) by (auto simp: env_ok_def)
  from memory_kv.typed_step [OF this refl assms(2)] assms(3) show ?thesis unfolding cache_updates_def by fastforce
qed

lemma cache_ops:
  assumes "env_ok now E"
  shows "cache_answers now (catalog_name_of E) (ApiCache_Get (env_repo E) s n)"
    "cache_updates now (catalog_name_of E) (ApiCache_Put (env_repo E) s n u)"
    "cache_answers now (catalog_name_of E) (CatalogCache_Get (env_repo E))"
    "cache_updates now (catalog_name_of E) (CatalogCache_Put (env_repo E) cat)"
    "cache_answers now (catalog_name_of E) (CatalogCache_GetVersion (env_repo E))"
    "cache_updates now (catalog_name_of E) (CatalogCache_PutVersion (env_repo E) v)"
    "cache_updates now (catalog_name_of E) (CatalogCache_Clear (env_repo E))"
    "cache_answers now (catalog_name_of E) (PartitionsCache_GetLayerVersions (env_repo E) i)"
    "cache_updates now (catalog_name_of E) (PartitionsCache_PutLayerVersions (env_repo E) i lvs)"
    "cache_answers now (catalog_name_of E) (DataCache_Get (env_repo E) l h)"
    "cache_updates now (catalog_name_of E) (DataCache_Put (env_repo E) b l h)"
    "cache_updates now (catalog_name_of E) (DataCache_Clear (env_repo E) l h)"
    "cache_updates now (catalog_name_of E) (PartitionsCache_Clear (env_repo E) l)"
  by ((rule env_answers [OF assms, of "OpGetApi s n"]; simp), (rule env_updates [OF assms, of "OpPutApi s n u"]; simp),
      (rule env_answers [OF assms, of OpGetCatalog]; simp), (rule env_updates [OF assms, of "OpPutCatalog cat"]; simp),
      (rule env_answers [OF assms, of OpGetVersion]; simp), (rule env_updates [OF assms, of "OpPutVersion v"]; simp),
      (rule env_updates [OF assms, of OpClearCatalog]; simp), (rule env_answers [OF assms, of "OpGetLayerVersions i"]; simp),
      (rule env_updates [OF assms, of "OpPutLayerVersions i lvs"]; simp), (rule env_answers [OF assms, of "OpGetData l h"]; simp),
      (rule env_updates [OF assms, of "OpPutData b l h"]; simp), (rule env_updates [OF assms, of "OpClearData l h"]; simp),
      (rule env_updates [OF assms, of "OpClearLayer l"]; simp))

lemma cache_partition_ops:
  assumes "env_ok now E" "CHR '':'' \<notin> set (pr_layer_id q)"
  shows "cache_answers now (catalog_name_of E) (PartitionsCache_Get (env_repo E) q)"
    "cache_answers now (catalog_name_of E) (PartitionsCache_Get_ids (env_repo E) q ids)"
    "cache_updates now (catalog_name_of E) (PartitionsCache_Put (env_repo E) q ps e a)"
    "cache_updates now (catalog_name_of E) (PartitionsCache_ClearPartitions (env_repo E) q ids)"
  by ((rule env_answers [OF assms(1), of "OpGetPartitions q"]; simp add: assms(2)),
      (rule env_answers [OF assms(1), of "OpGetPartitionsById q ids"]; simp add: assms(2)),
      (rule env_updates [OF assms(1), of "OpPutPartitions q ps e a"]; simp add: assms(2)),
      (rule env_updates [OF assms(1), of "OpClearPartitions q ids"]; simp add: assms(2)))

lemmas answers_all = answers_rules answers_read answers_write answers_store answers_cache_first answers_pair api_cache

lemma answers_getApiClient: "env_ok now E \<Longrightarrow> answers now (catalog_name_of E) (getApiClient E s n)"
  unfolding getApiClient_def [abs_def] Let_def by (intro answers_all cache_ops)

lemma answers_with_client:
  assumes "env_ok now E" "\<And>c. answers now (catalog_name_of E) (run c)"
  shows "answers now (catalog_name_of E) (with_client E s run)"
  unfolding with_client_def [abs_def] by (intro answers_all answers_getApiClient assms)

lemma answers_getCatalog: "env_ok now E \<Longrightarrow> answers now (catalog_name_of E) (getCatalog E q)"
  unfolding getCatalog_def Let_def by (intro answers_all answers_with_client cache_ops)

lemma answers_getLatestCatalogVersion: "env_ok now E \<Longrightarrow> answers now (catalog_name_of E) (getLatestCatalogVersion E q)"
  unfolding getLatestCatalogVersion_def Let_def by (intro answers_all answers_with_client cache_ops)


lemma answers_GetLayerVersion:
  assumes "env_ok now E" "pr_version q \<noteq> None"
  shows "answers now (catalog_name_of E) (GetLayerVersion E c q)"
proof -
  obtain v where v: "pr_version q = Some v" using assms(2) by blast
  show ?thesis unfolding GetLayerVersion_def Let_def v bind.bind_lunit by (intro answers_all cache_ops assms)
qed

lemma answers_append:
  assumes "env_ok now E" "\<And>q e. pr_layer_id q = pr_layer_id request \<Longrightarrow> answers now (catalog_name_of E) (fetch q e)"
  shows "answers now (catalog_name_of E) (appendPartitionsRequest E request fetch)"
  unfolding appendPartitionsRequest_def Let_def
  by (intro answers_all answers_getCatalog answers_getLatestCatalogVersion assms) (simp_all add: PartitionsRequest_WithVersion_def)

lemma answers_GetPartitions:
  assumes "env_ok now E" "CHR '':'' \<notin> set (pr_layer_id q)"
  shows "answers now (catalog_name_of E) (GetPartitions E q)"
proof -
  have e: "answers now (catalog_name_of E) (\<lambda>w. map_option (Pair (Inl e)) (if http_status_code e = 403 then write_cache (PartitionsCache_Clear (env_repo E) l) w else Some w))"
    for e :: ApiError and l
    using answers_write [OF cache_ops(13) [OF assms(1)], of "Inl e"] answers_rules(1) [of _ _ "Inl e"]
    by (cases "http_status_code e = 403") simp_all
  have p: "CHR '':'' \<notin> set (pr_layer_id r)" if "pr_layer_id r = pr_layer_id q" for r using assms(2) that by simp
  show ?thesis unfolding GetPartitions_def Let_def
    by (intro answers_append answers_all answers_with_client cache_ops cache_partition_ops answers_query answers_GetLayerVersion assms p e)
qed

lemma answers_GetPartitionsById:
  assumes "env_ok now E" "CHR '':'' \<notin> set (pr_layer_id q)" "ids \<noteq> []"
  shows "answers now (catalog_name_of E) (GetPartitionsById E q ids)"
proof -
  have p: "CHR '':'' \<notin> set (pr_layer_id r)" if "pr_layer_id r = pr_layer_id q" for r using assms(2) that by simp
  have f: "cache_answers now (catalog_name_of E) (\<lambda>c. map_option (\<lambda>(ps, c1). (if length (partitions ps) = length ids then Some ps else None, c1))
      (PartitionsCache_Get_ids (env_repo E) r ids c))" if "pr_layer_id r = pr_layer_id q" for r
    using cache_partition_ops(2) [OF assms(1) p [OF that], of ids] unfolding cache_answers_def by fastforce
  show ?thesis unfolding GetPartitionsById_def
    by (intro answers_append answers_all answers_with_client cache_ops cache_partition_ops answers_query assms p f)
qed

lemma answers_GetDataInternal:
  assumes "env_ok now E" "dr_data_handle q \<noteq> None"
  shows "answers now (catalog_name_of E) (GetDataInternal E t q)"
proof -
  obtain h where h: "dr_data_handle q = Some h" using assms(2) by blast
  show ?thesis unfolding GetDataInternal_def Let_def h bind.bind_lunit
    by (intro answers_all answers_with_client cache_ops assms)
qed

lemma answers_GetData_partition:
  assumes "env_ok now E" "CHR '':'' \<notin> set (dr_layer_id q)" "dr_partition_id q = Some pid"
  shows "answers now (catalog_name_of E) (GetData_partition E q t ps)"
proof -
  let ?r = "\<lambda>a. PartitionsRequest_WithVersion (dr_version a) (PartitionsRequest_WithLayerId (dr_layer_id a)
    (PartitionsRequest_WithBillingTag (dr_billing_tag a) PartitionsRequest_new))"
  have c: "answers now (catalog_name_of E) (\<lambda>w. map_option (Pair (Inl e)) (if http_status_code e = 403
      then Option.bind (dr_partition_id (DataRequest_WithDataHandle h q)) (\<lambda>pid.
        write_cache (PartitionsCache_ClearPartitions (env_repo E) (?r (DataRequest_WithDataHandle h q)) [pid]) w) else Some w))" for e :: ApiError and h
    using answers_write [OF cache_partition_ops(4) [OF assms(1), of "?r (DataRequest_WithDataHandle h q)" "[pid]"], of "Inl e"] answers_rules(1) [of _ _ "Inl e"] assms(2,3)
    by (cases "http_status_code e = 403")
       (simp_all add: DataRequest_WithDataHandle_def PartitionsRequest_WithVersion_def PartitionsRequest_WithLayerId_def)
  have d: "dr_data_handle (DataRequest_WithDataHandle (Some h) q) \<noteq> None" for h by (simp add: DataRequest_WithDataHandle_def)
  show ?thesis unfolding GetData_partition_def Let_def
    by (intro answers_all answers_GetDataInternal assms d c)
qed

lemma answers_GetData:
  assumes "env_ok now E" "CHR '':'' \<notin> set (dr_layer_id q)"
  shows "answers now (catalog_name_of E) (GetData E q)"
proof -
  have m: "answers now (catalog_name_of E) (\<lambda>w. map_option (\<lambda>(r, w2). (map_sum id Some r, w2)) (GetDataInternal E t q w))" if "dr_data_handle q \<noteq> None" for t
    using answers_GetDataInternal [OF assms(1) that, of t] unfolding answers_def by fastforce
  have p: "answers now (catalog_name_of E) (execute_or_cancelled E (\<lambda>w. Option.bind (dr_partition_id q) (\<lambda>pid.
      Option.bind (GetPartitionsById E (PartitionsRequest_WithVersion v (PartitionsRequest_WithLayerId (dr_layer_id q) r)) [pid] w)
        (\<lambda>(ps, w2). GetData_partition E q t ps w2))))" if "dr_partition_id q \<noteq> None" for v r t
  proof -
    obtain pid where pid: "dr_partition_id q = Some pid" using \<open>dr_partition_id q \<noteq> None\<close> by blast
    have l: "CHR '':'' \<notin> set (pr_layer_id (PartitionsRequest_WithVersion v (PartitionsRequest_WithLayerId (dr_layer_id q) r)))"
      using assms(2) by (simp add: PartitionsRequest_WithVersion_def PartitionsRequest_WithLayerId_def)
    show ?thesis unfolding pid bind.bind_lunit
      by (intro answers_all answers_GetPartitionsById answers_GetData_partition [OF assms pid] assms l) simp
  qed
  show ?thesis
  proof (cases "dr_data_handle q = None \<and> dr_partition_id q = None")
    case True
    then show ?thesis by (simp add: GetData_def [abs_def] answers_rules)
  next
    case False
    then have h: "\<not> dr_data_handle q \<noteq> None \<Longrightarrow> dr_partition_id q \<noteq> None" by auto
    show ?thesis unfolding GetData_def [abs_def]
      by (intro answers_all answers_getCatalog assms m p h)
  qed
qed

section \<open>Data that was fetched\<close>

text \<open>A request that succeeds leaves its data under the key, or nothing.\<close>

definition leaves :: "time_t \<Rightarrow> string \<Rightarrow> string \<Rightarrow> (('w \<times> cached DefaultCache, 's) read_world \<Rightarrow> ('w \<times> cached DefaultCache, 's, string) answer) \<Rightarrow> bool" where
  "leaves now hrn k f \<longleftrightarrow> (\<forall>w d w'. world_ok now hrn w \<longrightarrow> f w = Some (Inr d, w') \<longrightarrow>
     world_ok now hrn w' \<and> memory_item now (rw_cache w') k \<in> {None, Some (AnyBytes d)})"

lemma leavesD:
  "leaves now hrn k f \<Longrightarrow> world_ok now hrn w \<Longrightarrow> f w = Some (Inr d, w') \<Longrightarrow>
     world_ok now hrn w' \<and> memory_item now (rw_cache w') k \<in> {None, Some (AnyBytes d)}"
  by (simp add: leaves_def)

lemma leaves_execute: "leaves now hrn k f \<Longrightarrow> leaves now hrn k (execute_or_cancelled E f)"
  by (auto simp: leaves_def execute_or_cancelled_def split: if_splits)

lemma leaves_with_client:
  assumes "env_ok now E" "\<And>c. leaves now (catalog_name_of E) k (run c)"
  shows "leaves now (catalog_name_of E) k (with_client E s run)"
  unfolding leaves_def
proof (intro allI impI)
  fix w d w' assume w: "world_ok now (catalog_name_of E) w" "with_client E s run w = Some (Inr d, w')"
  obtain x w1 where x: "getApiClient E s ''v1'' w = Some (x, w1)" using w(2) by (auto simp: with_client_def bind_Some_iff)
  then obtain c where "getApiClient E s ''v1'' w = Some (Inr c, w1)" "run c w1 = Some (Inr d, w')"
    using w(2) by (cases x) (auto simp: with_client_def)
  moreover then have "world_ok now (catalog_name_of E) w1"
    using answers_getApiClient [OF assms(1), of s "''v1''"] w(1) by (fastforce simp: answers_def)
  ultimately show "world_ok now (catalog_name_of E) w' \<and> memory_item now (rw_cache w') k \<in> {None, Some (AnyBytes d)}"
    using assms(2) by (auto simp: leaves_def)
qed

lemma leaves_get:
  assumes "env_ok now E" "world_ok now hrn w" "read_cache (DataCache_Get (env_repo E) l h) w = Some (x, w1)" "hrn = catalog_name_of E"
  shows "world_ok now hrn w1" "x = Some d \<Longrightarrow> memory_item now (rw_cache w1) (data_key hrn l h) \<in> {None, Some (AnyBytes d)}"
    "memory_item now (rw_cache w) (data_key hrn l h) \<in> {None, Some (AnyBytes b)} \<Longrightarrow> x \<in> {None, Some b}"
proof -
  obtain S where S: "repo_cache (env_repo E) = DefaultCache_kv S now" using assms(1) by (auto simp: env_ok_def)
  let ?k = "data_key hrn l h"
  have ok: "memory_only (rw_cache w)" "typed_items hrn (memory_item now (rw_cache w))" using assms(2) by (auto simp: world_ok_def)
  have "\<nexists>m. memory_item now (rw_cache w) ?k = Some (AnyModel m)" using ok(2) typed_keys(4) by (fastforce simp: typed_items_def)
  from memory_kv.get_data [OF ok(1) this, of S] obtain c' where
    c': "kv_Get_data (DefaultCache_kv S now) ?k (rw_cache w) = Some (case memory_item now (rw_cache w) ?k of Some (AnyBytes b) \<Rightarrow> Some b | _ \<Rightarrow> None, c')"
    "memory_only c'" "memory_item now c' \<subseteq>\<^sub>m memory_item now (rw_cache w)" by blast
  then have x: "x = (case memory_item now (rw_cache w) ?k of Some (AnyBytes b) \<Rightarrow> Some b | _ \<Rightarrow> None)" "w1 = w\<lparr>rw_cache := c'\<rparr>"
    using assms(3,4) S by (auto simp: read_cache_def DataCache_Get_def)
  show "world_ok now hrn w1" using c'(2) typed_mono [OF ok(2) c'(3)] x(2) by (simp add: world_ok_def)
  show "x = Some d \<Longrightarrow> memory_item now (rw_cache w1) ?k \<in> {None, Some (AnyBytes d)}"
    using c'(3) x by (auto simp: map_le_def dom_def split: option.splits any.splits)
  show "memory_item now (rw_cache w) ?k \<in> {None, Some (AnyBytes b)} \<Longrightarrow> x \<in> {None, Some b}" using x(1) by auto
qed

lemma leaves_store:
  assumes "env_ok now E" "hrn = catalog_name_of E"
  shows "leaves now hrn (data_key hrn l h) (store_or_clear (\<lambda>d. DataCache_Put (env_repo E) d l h) cl r)"
  unfolding leaves_def
proof (intro allI impI)
  fix w d w' assume w: "world_ok now hrn w" and st: "store_or_clear (\<lambda>d. DataCache_Put (env_repo E) d l h) cl r w = Some (Inr d, w')"
  obtain S where S: "repo_cache (env_repo E) = DefaultCache_kv S now" using assms(1) by (auto simp: env_ok_def)
  let ?k = "data_key hrn l h"
  have ok: "memory_only (rw_cache w)" "typed_items hrn (memory_item now (rw_cache w))" using w by (auto simp: world_ok_def)
  obtain b c' where c': "kv_Put_data (DefaultCache_kv S now) ?k d time_max (rw_cache w) = Some (b, c')" "memory_only c'"
    "put_effect time_max (memory_item now (rw_cache w)) ?k (AnyBytes d) (memory_item now c')"
    using memory_kv.put_data [OF ok(1), of S now ?k d time_max] by blast
  have "w' = w\<lparr>rw_cache := c'\<rparr>" using st c'(1) S assms(2)
    by (auto simp: store_or_clear_def write_cache_def DataCache_Put_def split: sum.splits)
  moreover have "typed_items hrn (memory_item now c')" by (rule typed_put [OF ok(2) c'(3)]) (simp add: typed_keys)
  moreover have "memory_item now c' ?k \<in> {None, Some (AnyBytes d)}"
    using put_then_read [OF c'(3), of ] by (cases "memory_item now c' ?k") (auto simp: time_max_def)
  ultimately show "world_ok now hrn w' \<and> memory_item now (rw_cache w') ?k \<in> {None, Some (AnyBytes d)}"
    using c'(2) by (simp add: world_ok_def)
qed


lemma leaves_GetDataInternal:
  assumes "env_ok now E" "dr_data_handle q = Some h"
  shows "leaves now (catalog_name_of E) (data_key (catalog_name_of E) (dr_layer_id q) h) (GetDataInternal E t q)"
proof -
  let ?h = "catalog_name_of E"
  let ?k = "data_key ?h (dr_layer_id q) h"
  have pair: "leaves now ?h ?k (\<lambda>w. case api w of (r, w1) \<Rightarrow> store_or_clear (\<lambda>d. DataCache_Put (env_repo E) d (dr_layer_id q) h) cl r w1)"
    if "\<And>w. rw_cache (snd (api w)) = rw_cache w" for api :: "('a \<times> cached DefaultCache, 'b) read_world \<Rightarrow> _" and cl
    unfolding leaves_def
  proof (intro allI impI)
    fix w d w' assume a: "world_ok now ?h w" "(case api w of (r, w1) \<Rightarrow> store_or_clear (\<lambda>d. DataCache_Put (env_repo E) d (dr_layer_id q) h) cl r w1) = Some (Inr d, w')"
    have "world_ok now ?h (snd (api w))" using a(1) that by (simp add: world_ok_def)
    then show "world_ok now ?h w' \<and> memory_item now (rw_cache w') ?k \<in> {None, Some (AnyBytes d)}"
      using a(2) unfolding split_beta by (rule leavesD [OF leaves_store [OF assms(1) refl]])
  qed
  have first: "leaves now ?h ?k (cache_first fo (DataCache_Get (env_repo E) (dr_layer_id q) h) msg network)" if net: "leaves now ?h ?k network" for fo msg network
    unfolding leaves_def
  proof (intro allI impI)
    fix w d w' assume a: "world_ok now ?h w" "cache_first fo (DataCache_Get (env_repo E) (dr_layer_id q) h) msg network w = Some (Inr d, w')"
    show "world_ok now ?h w' \<and> memory_item now (rw_cache w') ?k \<in> {None, Some (AnyBytes d)}"
    proof (cases "fo = OnlineOnly")
      case True
      then show ?thesis using a net by (simp add: cache_first_def leaves_def)
    next
      case False
      then obtain x w1 where x: "read_cache (DataCache_Get (env_repo E) (dr_layer_id q) h) w = Some (x, w1)"
        using a(2) by (auto simp: cache_first_def bind_Some_iff)
      note l = leaves_get [OF assms(1) a(1) x refl]
      show ?thesis
      proof (cases x)
        case None
        then have "network w1 = Some (Inr d, w')" using a(2) False x by (simp add: cache_first_def split: if_splits)
        then show ?thesis using net l(1) by (simp add: leaves_def)
      next
        case (Some y)
        then have "y = d" "w' = w1" using a(2) False x by (simp_all add: cache_first_def)
        then show ?thesis using l(1) l(2) [of d] Some by simp
      qed
    qed
  qed
  have none: "leaves now ?h ?k (\<lambda>w. Some (Inl e, w))" for e by (simp add: leaves_def)
  show ?thesis unfolding GetDataInternal_def [abs_def] Let_def assms(2) bind.bind_lunit option.case
    by (cases "t = ''versioned''"; cases "t = ''volatile''")
      (auto intro!: leaves_execute first leaves_with_client assms(1) pair api_cache none)
qed


section \<open>An example\<close>

text \<open>A service that answers every call with success, and a client that has cached nothing.\<close>

definition example_env :: "((string \<times> string) list \<times> cached DefaultCache, unit) read_env" where
  "example_env = \<lparr>env_repo = example_repo ''c'', env_server = \<lambda>call s. (\<lparr>status = 200, response = ''abc''\<rparr>, s),
     env_cancelled = \<lambda>s. False,
     env_settings = \<lparr>retry_settings = RetrySettings_default, proxy_settings = None, authentication_provider = None\<rparr>\<rparr>"

definition example_world :: "((string \<times> string) list \<times> cached DefaultCache, unit) read_world" where
  "example_world = \<lparr>rw_cache = ([], opened_cache CacheSettings_new), rw_env = (), rw_calls = []\<rparr>"

lemma example_env_ok: "env_ok 0 example_env"
  by (auto simp: env_ok_def example_env_def example_repo_def)

lemma example_world_ok: "world_ok 0 hrn example_world"
proof -
  have "disk_path CacheSettings_new = None" "0 < max_memory_cache_size CacheSettings_new" by (simp_all add: CacheSettings_new_def)
  note ok = opened_cache_ok [OF this]
  show ?thesis by (simp add: world_ok_def example_world_def typed_items_def ok)
qed

definition example_data_request :: DataRequest where
  "example_data_request = DataRequest_WithDataHandle (Some ''h'') (DataRequest_WithLayerId ''l'' DataRequest_new)"

definition example_partitions_request :: PartitionsRequest where
  "example_partitions_request = PartitionsRequest_WithLayerId ''l'' PartitionsRequest_new"

lemma example_layers:
  "dr_layer_id example_data_request = ''l''" "pr_layer_id example_partitions_request = ''l''"
  "dr_layer_id (DataRequest_WithFetchOption fo example_data_request) = ''l''"
  "pr_layer_id (PartitionsRequest_WithFetchOption fo example_partitions_request) = ''l''"
  by (simp_all add: example_data_request_def example_partitions_request_def DataRequest_WithDataHandle_def DataRequest_WithLayerId_def
      PartitionsRequest_WithLayerId_def DataRequest_WithFetchOption_def PartitionsRequest_WithFetchOption_def)

lemma example_answered:
  assumes "dr_layer_id q = ''l''" "pr_layer_id p = ''l''"
  shows "\<exists>r w' s v'. GetData example_env q example_world = Some (r, w') \<and> GetPartitions example_env p example_world = Some (s, v')"
  using answers_GetData [OF example_env_ok, of q] answers_GetPartitions [OF example_env_ok, of p] example_world_ok assms
  by (fastforce simp: answers_def)

section \<open>Properties\<close>

text \<open>
  C28: A request for the cache only makes no network call and leaves the network untouched, for data as for
  partitions, through all the requests it makes in turn: for the catalog, its version, the partition.
\<close>

theorem cache_only_offline:
  assumes "dr_fetch_option q = CacheOnly" "GetData E q w = Some (r, w')"
    "pr_fetch_option p = CacheOnly" "GetPartitions E p v = Some (s, v')"
  shows "rw_calls w' = rw_calls w \<and> rw_env w' = rw_env w \<and> rw_calls v' = rw_calls v \<and> rw_env v' = rw_env v"
proof -
  have "net_ext 0 w w'" "net_ext 0 v v'"
    using net_boundD [OF net_GetData assms(2)] net_boundD [OF net_GetPartitions assms(4)] assms(1,3) by (simp_all add: call_bound_def)
  then show ?thesis by (simp add: net_ext_def)
qed

theorem cache_only_offline_witness:
  "\<exists>r w' s v'. GetData example_env (DataRequest_WithFetchOption CacheOnly example_data_request) example_world = Some (r, w') \<and>
     GetPartitions example_env (PartitionsRequest_WithFetchOption CacheOnly example_partitions_request) example_world = Some (s, v') \<and>
     rw_calls w' = [] \<and> rw_calls v' = []"
proof -
  obtain r w' s v' where a: "GetData example_env (DataRequest_WithFetchOption CacheOnly example_data_request) example_world = Some (r, w')"
    "GetPartitions example_env (PartitionsRequest_WithFetchOption CacheOnly example_partitions_request) example_world = Some (s, v')"
    using example_answered example_layers by metis
  show ?thesis using a cache_only_offline [OF _ a(1) _ a(2)]
    by (auto simp: DataRequest_WithFetchOption_def PartitionsRequest_WithFetchOption_def example_world_def)
qed

text \<open>
  A request for data makes at most ten network calls and a request for the partitions of a layer at
  most seven, whatever the network answers.
\<close>

theorem read_network_calls:
  assumes "GetData E q w = Some (r, w')" "GetPartitions E p v = Some (s, v')"
  shows "length (rw_calls w') \<le> length (rw_calls w) + 10 \<and> length (rw_calls v') \<le> length (rw_calls v) + 7"
proof -
  have "net_ext 10 w w'" "net_ext 7 v v'"
    using net_boundD [OF net_GetData assms(1)] net_boundD [OF net_GetPartitions assms(2)]
    by (auto simp: call_bound_def intro: net_ext_mono split: if_splits)
  then show ?thesis by (auto simp: net_ext_def)
qed

theorem read_network_calls_witness:
  "\<exists>r w' s v'. GetData example_env example_data_request example_world = Some (r, w') \<and>
     GetPartitions example_env example_partitions_request example_world = Some (s, v') \<and>
     length (rw_calls w') \<le> 10 \<and> length (rw_calls v') \<le> 7"
proof -
  obtain r w' s v' where a: "GetData example_env example_data_request example_world = Some (r, w')"
    "GetPartitions example_env example_partitions_request example_world = Some (s, v')" using example_answered example_layers by metis
  show ?thesis using a read_network_calls [OF a] by (auto simp: example_world_def)
qed



text \<open>
  Data that was got, from the cache or from the network, is what a later request for the cache only
  finds, unless it was evicted: no other data is ever found for the handle.
\<close>

theorem fetched_data_cached:
  assumes "env_ok now E" "world_ok now (ToCatalogHRNString (repo_hrn (env_repo E))) w" "dr_data_handle q = Some h"
    "GetDataInternal E t q w = Some (Inr d, w1)" "\<not> env_cancelled E (rw_env w1)"
  shows "\<exists>w2. GetDataInternal E t (DataRequest_WithFetchOption CacheOnly q) w1 = Some (Inr d, w2) \<or>
    GetDataInternal E t (DataRequest_WithFetchOption CacheOnly q) w1 =
      Some (Inl (ApiError_code ErrNotFound ''Cache only resource not found in cache (data).'' False), w2)"
proof -
  let ?h = "ToCatalogHRNString (repo_hrn (env_repo E))"
  note l = leavesD [OF leaves_GetDataInternal [OF assms(1,3)] assms(2,4)]
  have t: "t = ''versioned'' \<or> t = ''volatile''" using assms(4) by (auto simp: GetDataInternal_def Let_def split: if_splits)
  obtain x w2 where x: "read_cache (DataCache_Get (env_repo E) (dr_layer_id q) h) w1 = Some (x, w2)"
    using answers_read [OF cache_ops(10) [OF assms(1)]] l by (fastforce simp: answers_def)
  have "x \<in> {None, Some d}" using leaves_get(3) [OF assms(1) conjunct1 [OF l] x refl] l by blast
  then show ?thesis using t x assms(3,5)
    by (auto simp: GetDataInternal_def Let_def DataRequest_WithFetchOption_def execute_or_cancelled_def cache_first_def)
qed


theorem fetched_data_cached_witness:
  "\<exists>w1 w2. GetDataInternal example_env ''versioned'' example_data_request example_world = Some (Inr ''abc'', w1) \<and>
    (GetDataInternal example_env ''versioned'' (DataRequest_WithFetchOption CacheOnly example_data_request) w1 = Some (Inr ''abc'', w2) \<or>
     GetDataInternal example_env ''versioned'' (DataRequest_WithFetchOption CacheOnly example_data_request) w1 =
      Some (Inl (ApiError_code ErrNotFound ''Cache only resource not found in cache (data).'' False), w2))"
proof -
  have "map_option fst (GetDataInternal example_env ''versioned'' example_data_request example_world) = Some (Inr ''abc'')" by code_simp
  then obtain w1 where w1: "GetDataInternal example_env ''versioned'' example_data_request example_world = Some (Inr ''abc'', w1)" by auto
  have "dr_data_handle example_data_request = Some ''h''" by (simp add: example_data_request_def DataRequest_WithDataHandle_def)
  from fetched_data_cached [OF example_env_ok example_world_ok this w1] w1 show ?thesis by (auto simp: example_env_def)
qed

end
