(* ===== verification/Prefetch_Provider.thy ===== *)
theory Prefetch_Provider
  imports Read_Answers Prefetch_Tiles "HOL-Library.List_Lexorder" "HOL-Library.Char_ord"
begin

text \<open>
  Component dataservice-read: the prefetch of tiles (\<open>PrefetchTilesProvider.cpp\<close>) with the quad tree requests
  of \<open>PrefetchTilesRepository.cpp\<close> (\<open>GetSubTiles\<close>, \<open>GetSubQuads\<close>), on top of the repositories and of
  \<open>EffectiveTileKeys\<close>, whose fuel is passed on.

  The tasks handed to \<open>std::async\<close> are run when their future is waited for, in the order of the futures,
  which the default launch policy allows. Whether the caller cancelled is read from the environment, as in
  \<open>Read_Repositories\<close>. The flag \<open>prefetchProviderBusy_\<close> is the state of a provider of its own, whose steps are
  calls and completions of prefetches.

  Shown: a prefetch is answered, with a bound on its network calls; it hangs for the minimum level 0; a
  cancellation during the lookup of the version is reported as success without tiles; at most one prefetch runs at a
  time and each call is answered at most once.
\<close>

section \<open>The quad tree requests\<close>

text \<open>The elements of the map in the order of its keys.\<close>

definition request_tiles :: "SubQuadsRequest \<Rightarrow> TileKeyAndDepth list" where
  "request_tiles request = map (\<lambda>k. the (fmlookup request k)) (sorted_list_of_fset (fmdom request))"

definition PartitionFromSubQuad :: "SubQuad \<Rightarrow> string \<Rightarrow> Partition" where
  "PartitionFromSubQuad subQuad name =
     \<lparr>checksum = sq_checksum subQuad, compressed_data_size = sq_compressed_data_size subQuad, data_handle = sq_data_handle subQuad,
      data_size = sq_data_size subQuad, partition_id = name, partition_version = Some (sq_version subQuad)\<rparr>"

definition GetSubQuads :: "('c, 's) read_env \<Rightarrow> PrefetchTilesRequest \<Rightarrow> TileKey \<Rightarrow> int \<Rightarrow> time_t option \<Rightarrow> int \<Rightarrow>
    ('c, 's) read_world \<Rightarrow> ('c, 's, (TileKey \<times> string) list) answer" where
  "GetSubQuads E prefetchRequest tile ver expiry depth = execute_or_cancelled E
     (with_client E ''query'' (\<lambda>client. execute_or_cancelled E (\<lambda>w. do {
        (indexResponse, w1) \<leftarrow> QueryApi_QuadTreeIndex (env_server E) (env_parsers E) client (ptr_layer_id prefetchRequest) ver
           (ToHereTile tile) depth None (ptr_billing_tag prefetchRequest) w;
        case indexResponse of
          Inl e \<Rightarrow> Some (Inl e, w1)
        | Inr index \<Rightarrow>
            (let subtiles = map (\<lambda>subquad. (AddedSubHereTile tile (sub_quad_key subquad), subquad)) (sub_quads index);
                 ps = \<lparr>partitions = map (\<lambda>(subtile, subquad). PartitionFromSubQuad subquad (ToHereTile subtile)) subtiles\<rparr>;
                 mockPartitionsRequest = PartitionsRequest_WithVersion (Some ver)
                   (PartitionsRequest_WithLayerId (ptr_layer_id prefetchRequest) PartitionsRequest_new)
             in map_option (Pair (Inr (map (\<lambda>(subtile, subquad). (subtile, sq_data_handle subquad)) subtiles)))
                  (write_cache (PartitionsCache_Put (env_repo E) mockPartitionsRequest ps expiry False) w1))
      })))"

fun GetSubTiles :: "('c, 's) read_env \<Rightarrow> PrefetchTilesRequest \<Rightarrow> int \<Rightarrow> time_t option \<Rightarrow> TileKeyAndDepth list \<Rightarrow>
    ('c, 's) read_world \<Rightarrow> ((TileKey \<times> string) list \<times> ('c, 's) read_world) option" where
  "GetSubTiles E prefetchRequest ver expiry [] w = Some ([], w)"
| "GetSubTiles E prefetchRequest ver expiry ((tile, depth) # request) w = do {
     (response, w1) \<leftarrow> GetSubQuads E prefetchRequest tile ver expiry depth w;
     (results, w2) \<leftarrow> GetSubTiles E prefetchRequest ver expiry request w1;
     Some ((case response of Inl e \<Rightarrow> [] | Inr subresults \<Rightarrow> subresults) @ results, w2)
   }"

section \<open>The data of the tiles\<close>

text \<open>\<open>PrefetchTileResult\<close>: a tile with no error (\<open>PrefetchTileNoError\<close>) or an error.\<close>

type_synonym PrefetchTileResult = "TileKey \<times> unit ApiResponse"

definition tile_data_request :: "PrefetchTilesRequest \<Rightarrow> string \<Rightarrow> DataRequest" where
  "tile_data_request request handle = DataRequest_WithBillingTag (ptr_billing_tag request)
     (DataRequest_WithLayerId (ptr_layer_id request) (DataRequest_WithDataHandle (Some handle) DataRequest_new))"

fun QueryDataForEachSubTile :: "('c, 's) read_env \<Rightarrow> PrefetchTilesRequest \<Rightarrow> string \<Rightarrow> (TileKey \<times> string) list \<Rightarrow>
    ('c, 's) read_world \<Rightarrow> (PrefetchTileResult list \<times> ('c, 's) read_world) option" where
  "QueryDataForEachSubTile E request layerType [] w = Some ([], w)"
| "QueryDataForEachSubTile E request layerType ((tile, handle) # subtiles) w = do {
     (r, w1) \<leftarrow> (if IsInlineData handle then Some ((tile, Inr ()), w)
       else do {
         (response, w1) \<leftarrow> GetDataInternal E layerType (tile_data_request request handle) w;
         Some ((tile, case response of Inl e \<Rightarrow> Inl e | Inr d \<Rightarrow> Inr ()), w1)
       });
     (result, w2) \<leftarrow> QueryDataForEachSubTile E request layerType subtiles w1;
     Some (r # result, w2)
   }"

definition PrefetchTiles_execute :: "nat \<Rightarrow> ('c, 's) read_env \<Rightarrow> PrefetchTilesRequest \<Rightarrow> ('c, 's) read_world \<Rightarrow>
    ('c, 's, PrefetchTileResult list) answer" where
  "PrefetchTiles_execute fuel E request = execute_or_cancelled E (\<lambda>w. do {
     (catalogResponse, w1) \<leftarrow> getCatalog E (CatalogRequest_WithBillingTag (ptr_billing_tag request) CatalogRequest_new) w;
     case catalogResponse of
       Inl e \<Rightarrow> Some (Inl e, w1)
     | Inr catalog \<Rightarrow>
         (case find (\<lambda>l. layer_id l = ptr_layer_id request) (layers catalog) of
            None \<Rightarrow> Some (Inl (ApiError_code ErrInvalidArgument ''Layer specified doesn't exist.'' False), w1)
          | Some l \<Rightarrow> execute_or_cancelled E (\<lambda>w. do {
              (response, w2) \<leftarrow> getLatestCatalogVersion E (CatalogVersionRequest_WithStartVersion (- 1)
                 (CatalogVersionRequest_WithBillingTag (ptr_billing_tag request) CatalogVersionRequest_new)) w;
              case response of
                Inl e \<Rightarrow> Some (Inl e, w2)
              | Inr v \<Rightarrow> do {
                  calculatedTileKeys \<leftarrow> EffectiveTileKeys fuel (ptr_tile_keys request) (ptr_min_level request) (ptr_max_level request);
                  if fmdom calculatedTileKeys = {||}
                  then Some (Inl (ApiError_code ErrInvalidArgument ''TileKey and Levels mismatch.'' False), w2)
                  else do {
                    (subtiles, w3) \<leftarrow> GetSubTiles E request (vr_version v) (map_option ttl_seconds (layer_ttl l))
                       (request_tiles calculatedTileKeys) w2;
                    (result, w4) \<leftarrow> QueryDataForEachSubTile E request (layer_type l) subtiles w3;
                    Some (Inr result, w4)
                  }
                }
            }) w1)
   })"

section \<open>One prefetch at a time\<close>

record 'r PrefetchTilesProvider =
  prefetchProviderBusy :: bool
  prefetches :: "nat list"
  prefetch_count :: nat
  prefetch_answers :: "(nat \<times> 'r ApiResponse) list"

definition PrefetchTilesProvider_new :: "'r PrefetchTilesProvider" where
  "PrefetchTilesProvider_new = \<lparr>prefetchProviderBusy = False, prefetches = [], prefetch_count = 0, prefetch_answers = []\<rparr>"

definition PrefetchTiles :: "'r PrefetchTilesProvider \<Rightarrow> 'r PrefetchTilesProvider" where
  "PrefetchTiles p =
     (let isBusy = prefetchProviderBusy p; i = prefetch_count p; p1 = p\<lparr>prefetchProviderBusy := True, prefetch_count := Suc i\<rparr>
      in if isBusy
         then p1\<lparr>prefetch_answers := prefetch_answers p1 @ [(i, Inl (ApiError_code ErrSlowDown ''Busy prefetching at the moment.'' True))]\<rparr>
         else p1\<lparr>prefetches := prefetches p1 @ [i]\<rparr>)"

definition completionCallback :: "nat \<Rightarrow> 'r ApiResponse \<Rightarrow> 'r PrefetchTilesProvider \<Rightarrow> 'r PrefetchTilesProvider" where
  "completionCallback i r p =
     p\<lparr>prefetchProviderBusy := False, prefetches := remove1 i (prefetches p), prefetch_answers := prefetch_answers p @ [(i, r)]\<rparr>"

inductive provider_steps :: "'r PrefetchTilesProvider \<Rightarrow> bool" where
  new: "provider_steps PrefetchTilesProvider_new"
| call: "provider_steps p \<Longrightarrow> provider_steps (PrefetchTiles p)"
| complete: "provider_steps p \<Longrightarrow> i \<in> set (prefetches p) \<Longrightarrow> provider_steps (completionCallback i r p)"

section \<open>Network calls\<close>

lemma net_GetSubQuads: "net_bound 2 (GetSubQuads E q t v e d)"
proof -
  have "net_bound (Suc 0) (\<lambda>w. QueryApi_QuadTreeIndex srv P c l i k dd None tag w)" for srv P c l i k dd tag
    by (rule net_boundI) (auto simp: QueryApi_QuadTreeIndex_def Let_def split_beta intro: CallApi_net_snd)
  note index = net_bind [OF this, where n = 0, simplified]
  show ?thesis unfolding GetSubQuads_def numeral_2_eq_2 Let_def
    by (intro net_execute net_with_client index net_cases net_return net_write)
qed

lemma net_GetSubTiles: "net_bound (2 * length ts) (GetSubTiles E q v e ts)"
proof (induction ts)
  case (Cons t ts)
  obtain tile depth where t: "t = (tile, depth)" by fastforce
  have "net_bound (2 + (2 * length ts + 0)) (GetSubTiles E q v e (t # ts))"
    unfolding t GetSubTiles.simps [abs_def] by (intro net_bind net_GetSubQuads Cons.IH net_return)
  then show ?case by simp
qed (simp add: net_bound_def)

lemma net_QueryData: "net_bound (2 * length ts) (QueryDataForEachSubTile E q lt ts)"
proof (induction ts)
  case (Cons t ts)
  obtain tile h where t: "t = (tile, h)" by fastforce
  have d: "net_bound 2 (GetDataInternal E lt (tile_data_request q h))"
    using net_GetDataInternal [of "tile_data_request q h" E lt]
    by (simp add: call_bound_def net_bound_def split: if_splits) (meson net_ext_mono zero_le)
  have "net_bound (2 + 0) (\<lambda>w. Option.bind (GetDataInternal E lt (tile_data_request q h) w)
      (\<lambda>(response, w1). Some ((tile, case response of Inl e \<Rightarrow> Inl e | Inr d \<Rightarrow> Inr ()), w1)))"
    by (intro net_bind d net_return)
  then have "net_bound (2 + (2 * length ts + 0)) (QueryDataForEachSubTile E q lt (t # ts))"
    unfolding t QueryDataForEachSubTile.simps [abs_def] by (intro net_bind net_cases Cons.IH net_return) simp
  then show ?case by simp
qed (simp add: net_bound_def)

lemma QueryData_tiles: "QueryDataForEachSubTile E q lt ts w = Some (r, w') \<Longrightarrow> map fst r = map fst ts"
  by (induction ts arbitrary: w r) (auto simp: bind_Some_iff split: if_splits)


text \<open>The requests for the catalog and for its version come before the tiles.\<close>

lemma net_bound_mono: "net_bound m f \<Longrightarrow> m \<le> n \<Longrightarrow> net_bound n f"
  unfolding net_bound_def using net_ext_mono by blast

abbreviation catalog_of :: "('c, 's) read_env \<Rightarrow> PrefetchTilesRequest \<Rightarrow> ('c, 's) read_world \<Rightarrow> ('c, 's, Catalog) answer" where
  "catalog_of E q \<equiv> getCatalog E (CatalogRequest_WithBillingTag (ptr_billing_tag q) CatalogRequest_new)"

abbreviation version_of :: "('c, 's) read_env \<Rightarrow> PrefetchTilesRequest \<Rightarrow> ('c, 's) read_world \<Rightarrow> ('c, 's, VersionResponse) answer" where
  "version_of E q \<equiv> getLatestCatalogVersion E (CatalogVersionRequest_WithStartVersion (- 1)
     (CatalogVersionRequest_WithBillingTag (ptr_billing_tag q) CatalogVersionRequest_new))"

lemma net_before: "net_bound 2 (catalog_of E q)" "net_bound 2 (version_of E q)"
  by (rule net_bound_mono [OF net_getCatalog], simp add: call_bound_def)
    (rule net_bound_mono [OF net_getLatestCatalogVersion], simp add: call_bound_def)

lemma prefetch_cases:
  assumes "PrefetchTiles_execute fuel E q w = Some (r, w')"
  obtains (early) e where "r = Inl e" "net_ext 4 w w'"
  | (tiles) request ts w2 w3 x i result and l :: Layer where "r = Inr result" "net_ext 4 w w2"
      "EffectiveTileKeys fuel (ptr_tile_keys q) (ptr_min_level q) (ptr_max_level q) = Some request"
      "GetSubTiles E q i x (request_tiles request) w2 = Some (ts, w3)" "QueryDataForEachSubTile E q (layer_type l) ts w3 = Some (result, w')"
proof (cases "env_cancelled E (rw_env w)")
  case True
  then show ?thesis using assms early by (auto simp: PrefetchTiles_execute_def execute_or_cancelled_def)
next
  case False
  then obtain c w1 where c: "catalog_of E q w = Some (c, w1)"
    using assms by (auto simp: PrefetchTiles_execute_def execute_or_cancelled_def bind_Some_iff)
  note n1 = net_boundD [OF net_before(1) c]
  then have n1': "net_ext 4 w w1" by (rule net_ext_mono) simp
  show ?thesis
  proof (cases "(\<exists>e. r = Inl e) \<and> w' = w1")
    case True
    then show ?thesis using early n1' by blast
  next
    case f: False
    then obtain cat l where l: "c = Inr cat" "find (\<lambda>l. layer_id l = ptr_layer_id q) (layers cat) = Some l" "\<not> env_cancelled E (rw_env w1)"
      using assms False c by (auto simp: PrefetchTiles_execute_def execute_or_cancelled_def split: sum.splits option.splits if_splits)
    then obtain v w2 where v: "version_of E q w1 = Some (v, w2)"
      using assms False c by (auto simp: PrefetchTiles_execute_def execute_or_cancelled_def bind_Some_iff)
    have n2: "net_ext 4 w w2" using net_ext_trans [OF n1 net_boundD [OF net_before(2) v]] by simp
    show ?thesis
    proof (cases "(\<exists>e. r = Inl e) \<and> w' = w2")
      case True
      then show ?thesis using early n2 by blast
    next
      case f2: False
      show ?thesis using assms False c l v f2
        by (auto simp: PrefetchTiles_execute_def execute_or_cancelled_def bind_Some_iff split: sum.splits if_splits intro: tiles [OF _ n2])
    qed
  qed
qed

lemma net_prefetch:
  assumes "PrefetchTiles_execute fuel E q w = Some (r, w')"
  shows "case r of Inl e \<Rightarrow> net_ext 4 w w' | Inr result \<Rightarrow> (\<exists>request.
    EffectiveTileKeys fuel (ptr_tile_keys q) (ptr_min_level q) (ptr_max_level q) = Some request \<and>
    net_ext (4 + 2 * length (request_tiles request) + 2 * length result) w w')"
  using assms
proof (cases rule: prefetch_cases)
  case (tiles request ts w2 w3 x i result l)
  from net_ext_trans [OF net_ext_trans [OF tiles(2) net_boundD [OF net_GetSubTiles tiles(4)]] net_boundD [OF net_QueryData tiles(5)]]
    arg_cong [OF QueryData_tiles [OF tiles(5)], of length] tiles(1,3) show ?thesis by simp
qed simp

section \<open>Answers\<close>

lemma answers_GetSubQuads:
  assumes "env_ok now E" "CHR '':'' \<notin> set (ptr_layer_id q)"
  shows "answers now (catalog_name_of E) (GetSubQuads E q t v e d)"
proof -
  have index: "answers now hrn (QueryApi_QuadTreeIndex srv P c l i k dd None tag)" for hrn srv P c l i k dd tag
    by (auto simp: answers_def QueryApi_QuadTreeIndex_def CallApi_get_def world_ok_def Let_def split: prod.splits)
  have "CHR '':'' \<notin> set (pr_layer_id (PartitionsRequest_WithVersion (Some v) (PartitionsRequest_WithLayerId (ptr_layer_id q) PartitionsRequest_new)))"
    using assms(2) by (simp add: PartitionsRequest_WithVersion_def PartitionsRequest_WithLayerId_def)
  note put = cache_partition_ops(3) [OF assms(1) this]
  show ?thesis unfolding GetSubQuads_def Let_def by (intro answers_all answers_with_client assms(1) index put)
qed

lemma answers_GetSubTiles:
  assumes "env_ok now E" "CHR '':'' \<notin> set (ptr_layer_id q)"
  shows "answers now (catalog_name_of E) (GetSubTiles E q v e ts)"
proof (induction ts)
  case Nil
  show ?case unfolding GetSubTiles.simps [abs_def] by (rule answers_rules)
next
  case (Cons t ts)
  obtain tile depth where t: "t = (tile, depth)" by fastforce
  show ?case unfolding t GetSubTiles.simps [abs_def] by (intro answers_rules answers_GetSubQuads assms Cons.IH)
qed

lemma answers_QueryData:
  assumes "env_ok now E"
  shows "answers now (catalog_name_of E) (QueryDataForEachSubTile E q lt ts)"
proof (induction ts)
  case Nil
  show ?case unfolding QueryDataForEachSubTile.simps [abs_def] by (rule answers_rules)
next
  case (Cons t ts)
  obtain tile h where t: "t = (tile, h)" by fastforce
  have "dr_data_handle (tile_data_request q h) \<noteq> None"
    by (simp add: tile_data_request_def DataRequest_WithBillingTag_def DataRequest_WithLayerId_def DataRequest_WithDataHandle_def)
  note d = answers_GetDataInternal [OF assms this]
  show ?case unfolding t QueryDataForEachSubTile.simps [abs_def] by (intro answers_rules d Cons.IH)
qed

lemma answers_prefetch:
  assumes "env_ok now E" "CHR '':'' \<notin> set (ptr_layer_id q)"
    "EffectiveTileKeys fuel (ptr_tile_keys q) (ptr_min_level q) (ptr_max_level q) = Some request"
  shows "answers now (catalog_name_of E) (PrefetchTiles_execute fuel E q)"
  unfolding PrefetchTiles_execute_def assms(3) bind.bind_lunit
  by (intro answers_rules answers_getCatalog answers_getLatestCatalogVersion answers_GetSubTiles answers_QueryData assms(1,2))

lemma GetSubTiles_cancelled: "env_cancelled E (rw_env w) \<Longrightarrow> GetSubTiles E q v e ts w = Some ([], w)"
  by (induction ts) (auto simp: GetSubQuads_def execute_or_cancelled_def)

section \<open>The invariant of the provider\<close>

definition provider_ok :: "'r PrefetchTilesProvider \<Rightarrow> bool" where
  "provider_ok p \<longleftrightarrow> prefetchProviderBusy p = (prefetches p \<noteq> []) \<and> length (prefetches p) \<le> 1 \<and>
     distinct (map fst (prefetch_answers p)) \<and> set (prefetches p) \<inter> fst ` set (prefetch_answers p) = {} \<and>
     set (prefetches p) \<union> fst ` set (prefetch_answers p) = {..<prefetch_count p}"

lemma provider_call_ok: "provider_ok p \<Longrightarrow> provider_ok (PrefetchTiles p)"
  by (auto simp: provider_ok_def PrefetchTiles_def Let_def lessThan_Suc)

lemma provider_complete_ok:
  assumes "provider_ok p" "i \<in> set (prefetches p)"
  shows "provider_ok (completionCallback i r p)"
proof -
  have "prefetches p = [i]" using assms by (cases "prefetches p") (auto simp: provider_ok_def)
  then show ?thesis using assms(1) by (auto simp: provider_ok_def completionCallback_def)
qed

lemma provider_reachable_ok: "provider_steps p \<Longrightarrow> provider_ok p"
  by (induction rule: provider_steps.induct)
    (auto simp: provider_call_ok provider_complete_ok, simp add: provider_ok_def PrefetchTilesProvider_new_def)


section \<open>Properties\<close>

text \<open>The catalog, the layer and the version were found, without a cancellation on the way.\<close>

definition version_found :: "('c, 's) read_env \<Rightarrow> PrefetchTilesRequest \<Rightarrow> ('c, 's) read_world \<Rightarrow> Layer \<Rightarrow> VersionResponse \<Rightarrow> ('c, 's) read_world \<Rightarrow> bool" where
  "version_found E q w l v w2 \<longleftrightarrow> \<not> env_cancelled E (rw_env w) \<and> (\<exists>catalog w1. catalog_of E q w = Some (Inr catalog, w1) \<and>
     find (\<lambda>l. layer_id l = ptr_layer_id q) (layers catalog) = Some l \<and> \<not> env_cancelled E (rw_env w1) \<and>
     version_of E q w1 = Some (Inr v, w2))"

lemma prefetch_after_version:
  assumes "version_found E q w l v w2"
  shows "PrefetchTiles_execute fuel E q w = do {
      calculatedTileKeys \<leftarrow> EffectiveTileKeys fuel (ptr_tile_keys q) (ptr_min_level q) (ptr_max_level q);
      if fmdom calculatedTileKeys = {||}
      then Some (Inl (ApiError_code ErrInvalidArgument ''TileKey and Levels mismatch.'' False), w2)
      else do {
        (subtiles, w3) \<leftarrow> GetSubTiles E q (vr_version v) (map_option ttl_seconds (layer_ttl l)) (request_tiles calculatedTileKeys) w2;
        (result, w4) \<leftarrow> QueryDataForEachSubTile E q (layer_type l) subtiles w3;
        Some (Inr result, w4)
      }
    }"
  using assms by (auto simp: version_found_def PrefetchTiles_execute_def execute_or_cancelled_def)

text \<open>An example: a service that counts its calls, and a caller that cancels after the fourth.\<close>

definition example_prefetch_env :: "((string \<times> string) list \<times> cached DefaultCache, nat) read_env" where
  "example_prefetch_env = \<lparr>env_repo = example_repo ''c'', env_server = \<lambda>call n. (\<lparr>status = 200, response = ''abc''\<rparr>, Suc n),
     env_cancelled = \<lambda>n. 4 \<le> n,
     env_settings = \<lparr>retry_settings = RetrySettings_default, proxy_settings = None, authentication_provider = None\<rparr>\<rparr>"

definition example_prefetch_world :: "((string \<times> string) list \<times> cached DefaultCache, nat) read_world" where
  "example_prefetch_world = \<lparr>rw_cache = ([], opened_cache CacheSettings_new), rw_env = 0, rw_calls = []\<rparr>"

definition example_prefetch :: "u32 \<Rightarrow> PrefetchTilesRequest" where
  "example_prefetch minLevel = \<lparr>ptr_layer_id = ''l'', ptr_tile_keys = [\<lparr>Row = 1, Column = 0, Level = 1\<rparr>], ptr_min_level = minLevel,
     ptr_max_level = 1, ptr_billing_tag = None\<rparr>"

lemma example_version_found:
  "\<exists>l v w2. version_found example_prefetch_env (example_prefetch m) example_prefetch_world l v w2 \<and> rw_env w2 = 4"
proof -
  let ?E = example_prefetch_env
  let ?w = example_prefetch_world
  have q: "catalog_of ?E (example_prefetch m) = catalog_of ?E (example_prefetch 0)"
    "version_of ?E (example_prefetch m) = version_of ?E (example_prefetch 0)" "ptr_layer_id (example_prefetch m) = ''l''"
    by (simp_all add: example_prefetch_def)
  have "map_option (\<lambda>(r, w). (case r of Inl e \<Rightarrow> None | Inr c \<Rightarrow> map_option layer_id (find (\<lambda>l. layer_id l = ''l'') (layers c)), rw_env w))
      (catalog_of ?E (example_prefetch 0) ?w) = Some (Some ''l'', 2)" by code_simp
  then obtain r w1 where r: "catalog_of ?E (example_prefetch 0) ?w = Some (r, w1)" "rw_env w1 = 2"
    "(case r of Inl e \<Rightarrow> None | Inr c \<Rightarrow> map_option layer_id (find (\<lambda>l. layer_id l = ''l'') (layers c))) = Some ''l''" by auto
  then obtain catalog l where c: "catalog_of ?E (example_prefetch 0) ?w = Some (Inr catalog, w1)"
    "find (\<lambda>l. layer_id l = ''l'') (layers catalog) = Some l" "rw_env w1 = 2" by (cases r) auto
  have "map_option (\<lambda>(r, w). (isl r, rw_env w)) (Option.bind (catalog_of ?E (example_prefetch 0) ?w) (\<lambda>(r, w). version_of ?E (example_prefetch 0) w))
      = Some (False, 4)" by code_simp
  then obtain v w2 where "version_of ?E (example_prefetch 0) w1 = Some (Inr v, w2)" "rw_env w2 = 4"
    using c(1) by (auto simp: isl_def) (metis sum.exhaust)
  moreover have "\<not> env_cancelled ?E (rw_env ?w)" "\<not> env_cancelled ?E (rw_env w1)"
    using c(3) by (simp_all add: example_prefetch_env_def example_prefetch_world_def)
  ultimately show ?thesis unfolding version_found_def q using c by blast
qed

lemma example_tiles:
  "\<exists>request. EffectiveTileKeys 72 (ptr_tile_keys (example_prefetch 1)) (ptr_min_level (example_prefetch 1)) (ptr_max_level (example_prefetch 1)) = Some request \<and>
     fmdom request \<noteq> {||}"
proof -
  let ?t = "\<lparr>Row = 1, Column = 0, Level = 1\<rparr> :: TileKey"
  have v: "IsValid ?t" by (simp add: IsValid_def LevelCount_def shl32_def)
  then obtain request where r: "EffectiveTileKeys 72 [?t] 1 1 = Some request" "covered request = related_tiles ?t 1 1 True"
    using EffectiveTileKeys_spec [of "[?t]" 1 1 72] by auto
  have "?t \<in> covered request" using v below_refl [OF v] by (simp add: r(2) related_tiles_def)
  then have "fmdom request \<noteq> {||}" by (auto simp: covered_def dest: fmdomI)
  with r(1) show ?thesis by (simp add: example_prefetch_def)
qed



text \<open>
  A prefetch that fails makes at most four network calls; one that succeeds makes at most two more for
  every quad tree request and two for every tile in its result.
\<close>

theorem prefetch_network_calls:
  assumes "PrefetchTiles_execute fuel E q w = Some (r, w')"
  shows "case r of Inl e \<Rightarrow> length (rw_calls w') \<le> length (rw_calls w) + 4
    | Inr result \<Rightarrow> (\<exists>request. EffectiveTileKeys fuel (ptr_tile_keys q) (ptr_min_level q) (ptr_max_level q) = Some request \<and>
        length (rw_calls w') \<le> length (rw_calls w) + 4 + 2 * length (request_tiles request) + 2 * length result)"
  using net_prefetch [OF assms] by (fastforce simp: net_ext_def split: sum.splits)

theorem prefetch_network_calls_witness:
  "\<exists>r w'. PrefetchTiles_execute 72 example_env (example_prefetch 1) example_world = Some (r, w') \<and>
    (\<forall>e. r = Inl e \<longrightarrow> length (rw_calls w') \<le> 4)"
proof -
  obtain request where "EffectiveTileKeys 72 (ptr_tile_keys (example_prefetch 1)) (ptr_min_level (example_prefetch 1)) (ptr_max_level (example_prefetch 1)) = Some request"
    using example_tiles by blast
  then obtain r w' where a: "PrefetchTiles_execute 72 example_env (example_prefetch 1) example_world = Some (r, w')"
    using answers_prefetch [OF example_env_ok, of "example_prefetch 1" 72] example_world_ok
    by (fastforce simp: answers_def example_prefetch_def)
  from prefetch_network_calls [OF a] a show ?thesis by (auto simp: example_world_def split: sum.splits)
qed

text \<open>
  A prefetch with the minimum level 0, the default, of a tile not below the maximum level is never answered once
  the catalog and the version were found, however long it runs.
\<close>

theorem prefetch_from_root_hangs:
  assumes "version_found E q w l v w2" "ptr_min_level q = 0" "ptr_tile_keys q = t # ts" "Level t \<le> ptr_max_level q"
  shows "PrefetchTiles_execute fuel E q w = None"
  using prefetch_after_version [OF assms(1)] EffectiveTileKeys_tile_diverges [OF assms(4)] assms(2,3)
  by (simp add: EffectiveTileKeys_def)

theorem prefetch_from_root_hangs_witness:
  "PrefetchTiles_execute 1000 example_prefetch_env (example_prefetch 0) example_prefetch_world = None"
proof -
  obtain l v w2 where "version_found example_prefetch_env (example_prefetch 0) example_prefetch_world l v w2"
    using example_version_found by blast
  from prefetch_from_root_hangs [OF this, of _ _ 1000] show ?thesis by (simp add: example_prefetch_def)
qed

text \<open>
  A prefetch that is cancelled while the version is looked up is answered with success and no tiles: the
  errors of the quad tree requests are dropped.
\<close>

theorem prefetch_cancelled_succeeds:
  assumes "version_found E q w l v w2" "env_cancelled E (rw_env w2)"
    "EffectiveTileKeys fuel (ptr_tile_keys q) (ptr_min_level q) (ptr_max_level q) = Some request" "fmdom request \<noteq> {||}"
  shows "PrefetchTiles_execute fuel E q w = Some (Inr [], w2)"
  using prefetch_after_version [OF assms(1)] assms(3,4) GetSubTiles_cancelled [OF assms(2)] by simp

theorem prefetch_cancelled_succeeds_witness:
  "\<exists>w2. PrefetchTiles_execute 72 example_prefetch_env (example_prefetch 1) example_prefetch_world = Some (Inr [], w2)"
proof -
  obtain l v w2 where f: "version_found example_prefetch_env (example_prefetch 1) example_prefetch_world l v w2" "rw_env w2 = 4"
    using example_version_found by blast
  obtain request where "EffectiveTileKeys 72 (ptr_tile_keys (example_prefetch 1)) (ptr_min_level (example_prefetch 1))
      (ptr_max_level (example_prefetch 1)) = Some request" "fmdom request \<noteq> {||}" using example_tiles by blast
  from prefetch_cancelled_succeeds [OF f(1) _ this] f(2) show ?thesis by (simp add: example_prefetch_env_def)
qed

text \<open>
  C31: At most one prefetch of a provider runs at a time; every call that does not run was answered, exactly once;
  and when none runs the next call starts one.
\<close>

theorem prefetch_one_at_a_time:
  assumes "provider_steps p"
  shows "length (prefetches p) \<le> 1 \<and> distinct (map fst (prefetch_answers p)) \<and>
    fst ` set (prefetch_answers p) = {..<prefetch_count p} - set (prefetches p) \<and>
    (prefetches p = [] \<longrightarrow> prefetches (PrefetchTiles p) = [prefetch_count p])"
  using provider_reachable_ok [OF assms] by (auto simp: provider_ok_def PrefetchTiles_def Let_def)

theorem prefetch_one_at_a_time_witness:
  "length (prefetches (completionCallback 0 (Inr ()) (PrefetchTiles (PrefetchTiles PrefetchTilesProvider_new)))) \<le> 1 \<and>
   prefetches (PrefetchTiles (completionCallback 0 (Inr ()) (PrefetchTiles (PrefetchTiles PrefetchTilesProvider_new)))) = [2]"
proof -
  have "provider_steps (completionCallback 0 (Inr ()) (PrefetchTiles (PrefetchTiles PrefetchTilesProvider_new)))"
    by (intro provider_steps.intros) (simp add: PrefetchTiles_def PrefetchTilesProvider_new_def)
  from prefetch_one_at_a_time [OF this] show ?thesis
    by (simp add: PrefetchTiles_def PrefetchTilesProvider_new_def completionCallback_def)
qed

end
