(* ===== verification/Url_Codec.thy ===== *)
theory Url_Codec
  imports Prelude
begin

text \<open>
  Component core/utils: percent encoding of \<open>Url\<close> (\<open>src/utils/Url.cpp\<close>).

  The loop of \<open>Decode\<close> counts with an \<open>unsigned int\<close>, a word of 32 bits, so it need not end for a string of
  \<open>2 ^ 32\<close> characters or more: \<open>None\<close> is a loop that does not end or a read beyond the string. \<open>in.size() - 2\<close> is
  taken on \<open>size_t\<close> and wraps for a string of one character. \<open>Parse\<close> is declared in \<open>Url.h\<close> only.

  Shown: decoding inverts encoding and never reads beyond the string; the code has only the unreserved
  characters of URLs and escapes.
\<close>

section \<open>The model\<close>

text \<open>\<open>operator[]\<close> of a constant string: the terminating null at its size, undefined beyond.\<close>

definition char_at :: "string \<Rightarrow> nat \<Rightarrow> char option" where
  "char_at s i = (if i < length s then Some (s ! i) else if i = length s then Some (char_of (0 :: nat)) else None)"

definition char_between :: "char \<Rightarrow> char \<Rightarrow> char \<Rightarrow> bool" where
  "char_between lo hi c \<longleftrightarrow> (of_char lo :: nat) \<le> of_char c \<and> (of_char c :: nat) \<le> of_char hi"

definition is_hex_digit :: "char \<Rightarrow> bool" where
  "is_hex_digit c \<longleftrightarrow> char_between CHR ''0'' CHR ''9'' c \<or> char_between CHR ''a'' CHR ''f'' c \<or> char_between CHR ''A'' CHR ''F'' c"

definition hex_value :: "char \<Rightarrow> nat" where
  "hex_value c = (if char_between CHR ''0'' CHR ''9'' c then of_char c - 48 else if char_between CHR ''a'' CHR ''f'' c then of_char c - 87 else of_char c - 55)"

definition hex_to_uint :: "char \<Rightarrow> char \<Rightarrow> nat" where
  "hex_to_uint a b = 16 * hex_value a + hex_value b"

definition is_escape :: "string \<Rightarrow> u32 \<Rightarrow> bool option" where
  "is_escape s read_idx =
     (if unat read_idx < unat (of_nat (length s) - 2 :: size_t) \<and> s ! unat read_idx = CHR ''%''
      then do {
        a \<leftarrow> char_at s (unat (read_idx + 1));
        if is_hex_digit a then map_option is_hex_digit (char_at s (unat (read_idx + 2))) else Some False
      }
      else Some False)"

partial_function (option) Decode_loop :: "string \<Rightarrow> u32 \<Rightarrow> string \<Rightarrow> string option" where
  "Decode_loop s read_idx out =
     (if unat read_idx < length s
      then do {
        escape \<leftarrow> is_escape s read_idx;
        if escape
        then do {
          a \<leftarrow> char_at s (unat (read_idx + 1));
          b \<leftarrow> char_at s (unat (read_idx + 2));
          Decode_loop s (read_idx + 3) (out @ [char_of (hex_to_uint a b)])
        }
        else Decode_loop s (read_idx + 1) (out @ [if s ! unat read_idx = CHR ''+'' then CHR '' '' else s ! unat read_idx])
      }
      else Some out)"

definition Url_Decode :: "string \<Rightarrow> string option" where
  "Url_Decode s = Decode_loop s 0 []"

text \<open>The characters that are not escaped, and the conversion \<open>%.2X\<close> of a byte.\<close>

definition unreserved :: "char \<Rightarrow> bool" where
  "unreserved c \<longleftrightarrow> char_between CHR ''a'' CHR ''z'' c \<or> char_between CHR ''A'' CHR ''Z'' c \<or> char_between CHR ''0'' CHR ''9'' c \<or>
     c = CHR ''.'' \<or> c = CHR ''-'' \<or> c = CHR ''~'' \<or> c = CHR ''_''"

definition hex_digit :: "nat \<Rightarrow> char" where
  "hex_digit n = char_of (if n < 10 then 48 + n else 55 + n)"

definition Url_Encode :: "string \<Rightarrow> string" where
  "Url_Encode s = concat (map (\<lambda>c. if unreserved c then [c] else [CHR ''%'', hex_digit (of_char c div 16), hex_digit (of_char c mod 16)]) s)"

section \<open>Decoding\<close>

definition plus_char :: "char \<Rightarrow> char" where
  "plus_char c = (if c = CHR ''+'' then CHR '' '' else c)"

fun percent_decode :: "string \<Rightarrow> string" where
  "percent_decode (c # a # b # s) =
     (if c = CHR ''%'' \<and> is_hex_digit a \<and> is_hex_digit b then char_of (hex_to_uint a b) # percent_decode s
      else plus_char c # percent_decode (a # b # s))"
| "percent_decode (c # s) = plus_char c # percent_decode s"
| "percent_decode [] = []"

lemma percent_decode_Cons:
  "percent_decode (c # s) =
     (if c = CHR ''%'' \<and> 2 \<le> length s \<and> is_hex_digit (s ! 0) \<and> is_hex_digit (s ! 1) then char_of (hex_to_uint (s ! 0) (s ! 1)) # percent_decode (drop 2 s)
      else plus_char c # percent_decode s)"
  by (cases s; cases "tl s") auto

lemma null_not_hex: "\<not> is_hex_digit (char_of (0 :: nat))"
  by (simp add: is_hex_digit_def char_between_def)

lemma unat_add_small: "unat (i :: u32) + n < 2 ^ 32 \<Longrightarrow> unat (i + of_nat n) = unat i + n"
  by (simp add: unat_word_ariths(1) unsigned_of_nat take_bit_eq_mod)

lemma unat_size_minus_2: "2 \<le> n \<Longrightarrow> n < 2 ^ 32 \<Longrightarrow> unat (of_nat n - 2 :: size_t) = n - 2"
  by (simp add: unat_sub word_le_nat_alt unsigned_of_nat take_bit_eq_mod)

lemma is_escape_eq:
  assumes "length s < 2 ^ 32" "unat i < length s"
  shows "is_escape s i = Some (s ! unat i = CHR ''%'' \<and> unat i + 2 < length s \<and> is_hex_digit (s ! (unat i + 1)) \<and> is_hex_digit (s ! (unat i + 2)))"
proof (cases "2 \<le> length s")
  case True
  have "unat i + 2 < 2 ^ 32" if "unat i + 2 < length s" using that assms(1) by simp
  then show ?thesis using unat_size_minus_2 [OF True assms(1)] unat_add_small [of i 1] unat_add_small [of i 2] assms
    by (auto simp: is_escape_def char_at_def)
next
  case False
  then obtain c where "s = [c]" using assms(2) by (cases s; cases "tl s") auto
  moreover have "unat i = 0" using assms(2) calculation by simp
  moreover have "unat (i + 1) = 1" using unat_add_small [of i 1] calculation(2) by simp
  ultimately show ?thesis by (simp add: is_escape_def char_at_def null_not_hex)
qed

lemma Decode_loop_eq:
  assumes "length s < 2 ^ 32" "unat i \<le> length s"
  shows "Decode_loop s i out = Some (out @ percent_decode (drop (unat i) s))"
  using assms(2)
proof (induction "length s - unat i" arbitrary: i out rule: less_induct)
  case less
  show ?case
  proof (cases "unat i < length s")
    case True
    then have d: "drop (unat i) s = s ! unat i # drop (unat i + 1) s" by (simp add: Cons_nth_drop_Suc)
    have 1: "unat (i + 1) = unat i + 1" using unat_add_small [of i 1] True assms(1) by simp
    show ?thesis
    proof (cases "s ! unat i = CHR ''%'' \<and> unat i + 2 < length s \<and> is_hex_digit (s ! (unat i + 1)) \<and> is_hex_digit (s ! (unat i + 2))")
      case esc: True
      then have 2: "unat (i + 2) = unat i + 2" "unat (i + 3) = unat i + 3"
        using unat_add_small [of i 2] unat_add_small [of i 3] assms(1) by simp_all
      have "percent_decode (drop (unat i) s) = char_of (hex_to_uint (s ! (unat i + 1)) (s ! (unat i + 2))) # percent_decode (drop (unat i + 3) s)"
        using esc by (auto simp: d percent_decode_Cons eval_nat_numeral)
      moreover have "is_escape s i = Some True" using is_escape_eq [OF assms(1) True] esc by simp
      moreover have "Decode_loop s (i + 3) out' = Some (out' @ percent_decode (drop (unat i + 3) s))" for out'
        using less.hyps [of "i + 3"] 2 esc True by (simp add: diff_less_mono2)
      ultimately show ?thesis using esc 1 2 True
        by (subst Decode_loop.simps) (simp add: char_at_def)
    next
      case False
      have "percent_decode (drop (unat i) s) = plus_char (s ! unat i) # percent_decode (drop (unat i + 1) s)"
        using False True by (auto simp: d percent_decode_Cons)
      moreover have "is_escape s i = Some False" using is_escape_eq [OF assms(1) True] False by auto
      moreover have "Decode_loop s (i + 1) out' = Some (out' @ percent_decode (drop (unat i + 1) s))" for out'
        using less.hyps [of "i + 1"] 1 True by simp
      ultimately show ?thesis using True by (subst Decode_loop.simps) (simp add: plus_char_def)
    qed
  qed (simp add: Decode_loop.simps)
qed

section \<open>Encoding\<close>

lemma hex_digit_value:
  assumes "n < 16"
  shows "is_hex_digit (hex_digit n)" "hex_value (hex_digit n) = n" "unreserved (hex_digit n)"
proof -
  have "of_char (hex_digit n) = (if n < 10 then 48 + n else 55 + n)" using assms by (simp add: hex_digit_def)
  then show "is_hex_digit (hex_digit n)" "hex_value (hex_digit n) = n" "unreserved (hex_digit n)"
    using assms by (simp_all add: is_hex_digit_def hex_value_def unreserved_def char_between_def)
qed

lemma unreserved_plain: "unreserved c \<Longrightarrow> c \<noteq> CHR ''%'' \<and> c \<noteq> CHR ''+''"
  by (auto simp: unreserved_def char_between_def)

lemma of_char_less: "of_char (c :: char) < (256 :: nat)"
  by simp

lemma percent_decode_Encode: "percent_decode (Url_Encode s) = s"
proof (induction s)
  case (Cons c s)
  show ?case
  proof (cases "unreserved c")
    case True
    then have "Url_Encode (c # s) = c # Url_Encode s" by (simp add: Url_Encode_def)
    then show ?thesis using unreserved_plain [OF True] Cons by (simp add: percent_decode_Cons plus_char_def)
  next
    case False
    let ?n = "of_char c :: nat"
    have "?n div 16 < 16" using of_char_less [of c] less_mult_imp_div_less [of ?n 16 16] by simp
    moreover have "?n mod 16 < 16" by simp
    moreover have "16 * (?n div 16) + ?n mod 16 = ?n" by simp
    ultimately show ?thesis using False Cons by (simp add: Url_Encode_def hex_digit_value hex_to_uint_def)
  qed
qed (simp add: Url_Encode_def)

lemma Encode_length: "length (Url_Encode s) \<le> 3 * length s"
  by (induction s) (auto simp: Url_Encode_def)

lemma Encode_chars: "c \<in> set (Url_Encode s) \<Longrightarrow> unreserved c \<or> c = CHR ''%''"
proof (induction s)
  case (Cons d s)
  have "(of_char d :: nat) div 16 < 16" using of_char_less [of d] less_mult_imp_div_less [of "of_char d" 16 16] by simp
  with Cons show ?case by (auto simp: Url_Encode_def hex_digit_value split: if_splits)
qed (simp add: Url_Encode_def)

section \<open>Properties\<close>

text \<open>
  C37: A string reads back from its percent encoding, whatever bytes it has, and the encoding consists of unreserved
  characters and percent signs, when it is short enough to be counted with 32 bits.
\<close>

theorem url_roundtrip:
  assumes "3 * length s < 2 ^ 32"
  shows "Url_Decode (Url_Encode s) = Some s \<and> (\<forall>c \<in> set (Url_Encode s). unreserved c \<or> c = CHR ''%'')"
proof -
  have "length (Url_Encode s) < 2 ^ 32" using Encode_length [of s] assms by linarith
  then show ?thesis using Encode_chars by (simp add: Url_Decode_def Decode_loop_eq percent_decode_Encode)
qed

theorem url_roundtrip_witness: "Url_Decode (Url_Encode ''a+b c%'') = Some ''a+b c%'' \<and> Url_Encode ''a b'' = ''a%20b''"
proof -
  have "Url_Encode ''a b'' = ''a%20b''" by code_simp
  with url_roundtrip [of "''a+b c%''"] show ?thesis by simp
qed

end
