(* ===== verification/Crypto.thy ===== *)
theory Crypto
  imports Prelude Complex_Main
begin

text \<open>
  Component authentication: \<open>Crypto\<close> (\<open>src/Crypto.cpp\<close>), SHA-256 and HMAC, which sign the requests for tokens.

  Bytes and words are machine words. Arrays are lists that the loops update in place, in the order of the
  code; a read of a vector beyond its end gives \<open>None\<close>. The message schedule is allocated without
  initialisation: its contents behind the first 16 words are the parameter \<open>heap\<close>.

  Shown: the tables are the digits of the roots the standard takes them from, and the code computes the functions that FIPS 180-4 and FIPS 198-1 define, for messages and keys of every
  length and whatever the uninitialised memory holds.
\<close>

section \<open>The model\<close>

definition ROTR :: "u32 \<Rightarrow> nat \<Rightarrow> u32" where
  "ROTR x n = drop_bit n x OR push_bit (32 - n) x"

definition SHA256_CH :: "u32 \<Rightarrow> u32 \<Rightarrow> u32 \<Rightarrow> u32" where
  "SHA256_CH x y z = (x AND y) XOR (NOT x AND z)"

definition SHA256_MAJ :: "u32 \<Rightarrow> u32 \<Rightarrow> u32 \<Rightarrow> u32" where
  "SHA256_MAJ x y z = (x AND y) XOR (x AND z) XOR (y AND z)"

definition SHA256_SUM0 :: "u32 \<Rightarrow> u32" where
  "SHA256_SUM0 x = ROTR x 2 XOR ROTR x 13 XOR ROTR x 22"

definition SHA256_SUM1 :: "u32 \<Rightarrow> u32" where
  "SHA256_SUM1 x = ROTR x 6 XOR ROTR x 11 XOR ROTR x 25"

definition SHA256_SIGMA0 :: "u32 \<Rightarrow> u32" where
  "SHA256_SIGMA0 x = ROTR x 7 XOR ROTR x 18 XOR drop_bit 3 x"

definition SHA256_SIGMA1 :: "u32 \<Rightarrow> u32" where
  "SHA256_SIGMA1 x = ROTR x 17 XOR ROTR x 19 XOR drop_bit 10 x"

definition SHA256_K :: "u32 list" where
  "SHA256_K =
     0x428a2f98 # 0x71374491 # 0xb5c0fbcf # 0xe9b5dba5 # 0x3956c25b # 0x59f111f1 #
     0x923f82a4 # 0xab1c5ed5 # 0xd807aa98 # 0x12835b01 # 0x243185be # 0x550c7dc3 #
     0x72be5d74 # 0x80deb1fe # 0x9bdc06a7 # 0xc19bf174 # 0xe49b69c1 # 0xefbe4786 #
     0x0fc19dc6 # 0x240ca1cc # 0x2de92c6f # 0x4a7484aa # 0x5cb0a9dc # 0x76f988da #
     0x983e5152 # 0xa831c66d # 0xb00327c8 # 0xbf597fc7 # 0xc6e00bf3 # 0xd5a79147 #
     0x06ca6351 # 0x14292967 # 0x27b70a85 # 0x2e1b2138 # 0x4d2c6dfc # 0x53380d13 #
     0x650a7354 # 0x766a0abb # 0x81c2c92e # 0x92722c85 # 0xa2bfe8a1 # 0xa81a664b #
     0xc24b8b70 # 0xc76c51a3 # 0xd192e819 # 0xd6990624 # 0xf40e3585 # 0x106aa070 #
     0x19a4c116 # 0x1e376c08 # 0x2748774c # 0x34b0bcb5 # 0x391c0cb3 # 0x4ed8aa4a #
     0x5b9cca4f # 0x682e6ff3 # 0x748f82ee # 0x78a5636f # 0x84c87814 # 0x8cc70208 #
     0x90befffa # 0xa4506ceb # 0xbef9a3f7 # 0xc67178f2 # []"

definition sha256Init :: "u32 list" where
  "sha256Init = [0x6a09e667, 0xbb67ae85, 0x3c6ef372, 0xa54ff53a, 0x510e527f, 0x9b05688c, 0x1f83d9ab, 0x5be0cd19]"

text \<open>The loops over the message schedule \<open>w\<close>; \<open>memset\<close> clears 64 bytes, the first 16 words of it.\<close>

definition load_word :: "u8 list \<Rightarrow> nat \<Rightarrow> u32" where
  "load_word chunk j = push_bit 24 (ucast (chunk ! j)) OR push_bit 16 (ucast (chunk ! (j + 1))) OR
     push_bit 8 (ucast (chunk ! (j + 2))) OR ucast (chunk ! (j + 3))"

definition message_schedule :: "u32 list \<Rightarrow> u8 list \<Rightarrow> nat \<Rightarrow> u32 list" where
  "message_schedule heap currentChunk startIndex =
     fold (\<lambda>i w. w[i := SHA256_SIGMA1 (w ! (i - 2)) + w ! (i - 7) + SHA256_SIGMA0 (w ! (i - 15)) + w ! (i - 16)]) [16..<64]
       (fold (\<lambda>i w. w[i := load_word currentChunk (startIndex + 4 * i)]) [0..<16] (replicate 16 0 @ heap))"

definition sha256_round :: "u32 list \<Rightarrow> nat \<Rightarrow> u32 list \<Rightarrow> u32 list" where
  "sha256_round w i workingVar =
     (let t1 = workingVar ! 7 + SHA256_SUM1 (workingVar ! 4) + SHA256_CH (workingVar ! 4) (workingVar ! 5) (workingVar ! 6) +
            SHA256_K ! i + w ! i;
          t2 = SHA256_SUM0 (workingVar ! 0) + SHA256_MAJ (workingVar ! 0) (workingVar ! 1) (workingVar ! 2);
          workingVar = workingVar[7 := workingVar ! 6];
          workingVar = workingVar[6 := workingVar ! 5];
          workingVar = workingVar[5 := workingVar ! 4];
          workingVar = workingVar[4 := workingVar ! 3 + t1];
          workingVar = workingVar[3 := workingVar ! 2];
          workingVar = workingVar[2 := workingVar ! 1];
          workingVar = workingVar[1 := workingVar ! 0]
      in workingVar[0 := t1 + t2])"

definition sha256Transform :: "u32 list \<Rightarrow> u8 list \<Rightarrow> nat \<Rightarrow> u32 list \<Rightarrow> u32 list option" where
  "sha256Transform heap currentChunk startIndex hashValue =
     (if length currentChunk < startIndex + 64 then None
      else let w = message_schedule heap currentChunk startIndex;
               workingVar = fold (sha256_round w) [0..<64] hashValue
           in Some (map2 (+) hashValue workingVar))"

text \<open>The four bytes of a hash value, most significant first.\<close>

definition value_bytes :: "u32 \<Rightarrow> u8 list" where
  "value_bytes v =
     (let v3 = ucast v; v = drop_bit 8 v; v2 = ucast v; v = drop_bit 8 v; v1 = ucast v; v = drop_bit 8 v
      in [ucast v, v1, v2, v3])"

definition length_bytes :: "u64 \<Rightarrow> u8 list" where
  "length_bytes srcLength = map (\<lambda>i. ucast (drop_bit ((i - 1) * 8) srcLength AND 0xff)) (rev [1..<9])"

definition last_chunks :: "u8 list \<Rightarrow> u8 list list" where
  "last_chunks src =
     (let len = length src; chunksCount = len div 64; lastChunkSize = len mod 64;
          rest = drop (chunksCount * 64) src;
          (lastChunk, chucksToProcess) =
            (if lastChunkSize < 56 then (rest @ [0x80], [])
             else let secondLastChunk = rest @ [0x80]
                  in ([], [secondLastChunk @ replicate (64 - length secondLastChunk) 0]));
          lastChunk = lastChunk @ replicate (56 - length lastChunk) 0;
          srcLength = of_nat len * 8
      in chucksToProcess @ [lastChunk @ length_bytes srcLength])"

definition sha256 :: "u32 list \<Rightarrow> u8 list \<Rightarrow> u8 list option" where
  "sha256 heap src = do {
     h1 \<leftarrow> fold_option (\<lambda>i. sha256Transform heap src (i * 64)) [0..<length src div 64] sha256Init;
     h2 \<leftarrow> fold_option (\<lambda>chunk. sha256Transform heap chunk 0) (last_chunks src) h1;
     Some (concat (map (\<lambda>i. value_bytes (h2 ! i)) [0..<8]))
   }"

definition toUnsignedCharVector :: "string \<Rightarrow> u8 list" where
  "toUnsignedCharVector src = map of_char src"

definition hmac_sha256 :: "u32 list \<Rightarrow> string \<Rightarrow> string \<Rightarrow> u8 list option" where
  "hmac_sha256 heap key message = do {
     k \<leftarrow> (let keyVec = toUnsignedCharVector key in if length key \<le> 64 then Some keyVec else sha256 heap keyVec);
     let k0 = k @ replicate (64 - length k) 0;
     let k0XORipadMsg = map (\<lambda>i. k0 ! i XOR 0x36) [0..<64] @ toUnsignedCharVector message;
     hk0XORipadMsg \<leftarrow> sha256 heap k0XORipadMsg;
     let s8 = map (\<lambda>i. k0 ! i XOR 0x5c) [0..<64] @ hk0XORipadMsg;
     sha256 heap s8
   }"

section \<open>The standard\<close>

text \<open>SHA-256 and HMAC as FIPS 180-4 and FIPS 198-1 define them: on numbers, blocks and rotations.\<close>

definition be_word :: "u8 list \<Rightarrow> nat \<Rightarrow> u32" where
  "be_word M t = 2 ^ 24 * ucast (M ! (4 * t)) + 2 ^ 16 * ucast (M ! (4 * t + 1)) + 2 ^ 8 * ucast (M ! (4 * t + 2)) + ucast (M ! (4 * t + 3))"

definition Ch :: "u32 \<Rightarrow> u32 \<Rightarrow> u32 \<Rightarrow> u32" where "Ch x y z = (x AND y) XOR (NOT x AND z)"
definition Maj :: "u32 \<Rightarrow> u32 \<Rightarrow> u32 \<Rightarrow> u32" where "Maj x y z = (x AND y) XOR (x AND z) XOR (y AND z)"
definition Sigma0 :: "u32 \<Rightarrow> u32" where "Sigma0 x = word_rotr 2 x XOR word_rotr 13 x XOR word_rotr 22 x"
definition Sigma1 :: "u32 \<Rightarrow> u32" where "Sigma1 x = word_rotr 6 x XOR word_rotr 11 x XOR word_rotr 25 x"
definition sigma0 :: "u32 \<Rightarrow> u32" where "sigma0 x = word_rotr 7 x XOR word_rotr 18 x XOR drop_bit 3 x"
definition sigma1 :: "u32 \<Rightarrow> u32" where "sigma1 x = word_rotr 17 x XOR word_rotr 19 x XOR drop_bit 10 x"

fun schedule :: "u8 list \<Rightarrow> nat \<Rightarrow> u32" where
  "schedule M t = (if t < 16 then be_word M t
     else sigma1 (schedule M (t - 2)) + schedule M (t - 7) + sigma0 (schedule M (t - 15)) + schedule M (t - 16))"

declare schedule.simps [simp del]

text \<open>
  The constants are the first 32 bits of the fractional parts of the cube roots of the first 64 primes, and of the
  square roots of the first eight.
\<close>

definition fips_primes :: "nat list" where
  "fips_primes =
    [2, 3, 5, 7, 11, 13, 17, 19, 23, 29, 31, 37, 41, 43, 47, 53,
     59, 61, 67, 71, 73, 79, 83, 89, 97, 101, 103, 107, 109, 113, 127, 131,
     137, 139, 149, 151, 157, 163, 167, 173, 179, 181, 191, 193, 197, 199, 211, 223,
     227, 229, 233, 239, 241, 251, 257, 263, 269, 271, 277, 281, 283, 293, 307, 311]"

definition root_bits :: "nat \<Rightarrow> nat \<Rightarrow> u32" where
  "root_bits n p = word_of_int \<lfloor>root n (real p) * 2 ^ 32\<rfloor>"

definition fips_K :: "u32 list" where "fips_K = map (root_bits 3) fips_primes"
definition fips_H0 :: "u32 list" where "fips_H0 = map (root_bits 2) (take 8 fips_primes)"

fun fips_round :: "u8 list \<Rightarrow> nat \<Rightarrow> u32 list \<Rightarrow> u32 list" where
  "fips_round M t [a, b, c, d, e, f, g, h] =
     (let T1 = h + Sigma1 e + Ch e f g + fips_K ! t + schedule M t; T2 = Sigma0 a + Maj a b c
      in [T1 + T2, a, b, c, d + T1, e, f, g])"
| "fips_round M t st = st"

definition fips_block :: "u8 list \<Rightarrow> u32 list \<Rightarrow> u32 list" where
  "fips_block M H = map2 (+) H (fold (fips_round M) [0..<64] H)"

text \<open>A message is followed by a bit 1, as many bits 0 as fill a block, and its length in bits.\<close>

definition padding :: "nat \<Rightarrow> u8 list" where
  "padding l = 0x80 # replicate (nat ((55 - int l) mod 64)) 0 @ map (\<lambda>i. of_nat (8 * l div 256 ^ (7 - i))) [0..<8]"

definition blocks :: "'a list \<Rightarrow> 'a list list" where
  "blocks xs = map (\<lambda>i. take 64 (drop (64 * i) xs)) [0..<length xs div 64]"

definition be_bytes :: "u32 \<Rightarrow> u8 list" where
  "be_bytes v = map (\<lambda>i. ucast (drop_bit (8 * i) v)) [3, 2, 1, 0]"

definition SHA256 :: "u8 list \<Rightarrow> u8 list" where
  "SHA256 message = concat (map be_bytes (fold fips_block (blocks (message @ padding (length message))) fips_H0))"

definition HMAC :: "u8 list \<Rightarrow> u8 list \<Rightarrow> u8 list" where
  "HMAC key message =
     (let k = (if length key \<le> 64 then key else SHA256 key); k0 = k @ replicate (64 - length k) 0
      in SHA256 (map (\<lambda>b. b XOR 0x5c) k0 @ SHA256 (map (\<lambda>b. b XOR 0x36) k0 @ message)))"

section \<open>The constants\<close>

lemma root_bits_eq:
  assumes "0 < n" "0 \<le> k" "k ^ n \<le> int p * 2 ^ (32 * n)" "int p * 2 ^ (32 * n) < (k + 1) ^ n"
  shows "root_bits n p = word_of_int k"
proof -
  have r: "root n (real p) * 2 ^ 32 = root n (real p * 2 ^ (32 * n))"
    using assms(1) by (simp add: real_root_mult power_mult real_root_power_cancel)
  have "real_of_int (k ^ n) \<le> real_of_int (int p * 2 ^ (32 * n))" "real_of_int (int p * 2 ^ (32 * n)) < real_of_int ((k + 1) ^ n)"
    using assms(3,4) by (simp_all only: of_int_le_iff of_int_less_iff)
  then have b: "real_of_int k ^ n \<le> real p * 2 ^ (32 * n)" "real p * 2 ^ (32 * n) < (real_of_int k + 1) ^ n" by simp_all
  have "real_of_int k \<le> root n (real p * 2 ^ (32 * n))"
    using real_root_le_mono [OF assms(1) b(1)] assms(1,2) by (simp add: real_root_power_cancel)
  moreover have "root n (real p * 2 ^ (32 * n)) < real_of_int k + 1"
    using real_root_less_mono [OF assms(1) b(2)] assms(1,2) by (simp add: real_root_power_cancel)
  ultimately show ?thesis unfolding root_bits_def r by (simp add: floor_unique)
qed

definition root_check :: "nat \<Rightarrow> nat \<Rightarrow> u32 \<Rightarrow> bool" where
  "root_check n p c \<longleftrightarrow> list_ex (\<lambda>a. (a * 2 ^ 32 + uint c) ^ n \<le> int p * 2 ^ (32 * n) \<and> int p * 2 ^ (32 * n) < (a * 2 ^ 32 + uint c + 1) ^ n) [1, 2, 3, 4, 5, 6]"

lemma root_check_bits:
  assumes "root_check n p c" "0 < n"
  shows "root_bits n p = c"
proof -
  have nonneg: "a \<in> set [1, 2, 3, 4, 5, 6] \<Longrightarrow> 0 \<le> a" for a :: int by auto
  obtain a where a: "0 \<le> a" "(a * 2 ^ 32 + uint c) ^ n \<le> int p * 2 ^ (32 * n)" "int p * 2 ^ (32 * n) < (a * 2 ^ 32 + uint c + 1) ^ n"
    using assms(1) unfolding root_check_def list_ex_iff by (metis (mono_tags, lifting) nonneg)
  have "word_of_int (a * 2 ^ 32) = (0 :: u32)" by (subst word_of_int_eq_0_iff) simp
  then show ?thesis using root_bits_eq [OF assms(2) _ a(2,3)] a(1) by (simp add: wi_hom_add [symmetric])
qed

lemma root_check_list: "list_all2 (root_check n) ps cs \<Longrightarrow> 0 < n \<Longrightarrow> map (root_bits n) ps = cs"
  by (induction ps cs rule: list_all2_induct) (simp_all add: root_check_bits)

lemma fips_K_eq: "fips_K = SHA256_K"
  unfolding fips_K_def by (rule root_check_list) (code_simp, simp)

lemma fips_H0_eq: "fips_H0 = sha256Init"
  unfolding fips_H0_def by (rule root_check_list) (code_simp, simp)

section \<open>Words\<close>

lemma ROTR_rotr:
  assumes "0 < n" "n < 32"
  shows "ROTR x n = word_rotr n x"
proof (rule bit_word_eqI)
  fix i assume i: "i < LENGTH(32)"
  then have "bit (word_rotr n x) i = bit x ((i + n) mod 32)" by (simp add: bit_word_rotr_iff)
  moreover have "bit (ROTR x n) i = (bit x (n + i) \<or> 32 - n \<le> i \<and> bit x (i - (32 - n)))"
    using i by (simp add: ROTR_def bit_or_iff bit_drop_bit_eq bit_push_bit_iff conj_commute)
  moreover have "\<not> bit x (n + i)" if "32 \<le> n + i" using bit_word32_bound that by (meson not_le)
  ultimately show "bit (ROTR x n) i = bit (word_rotr n x) i"
    using i assms by (cases "i + n < 32") (auto simp: add.commute mod_if)
qed

lemma sha_functions:
  "SHA256_CH = Ch" "SHA256_MAJ = Maj" "SHA256_SUM0 = Sigma0" "SHA256_SUM1 = Sigma1" "SHA256_SIGMA0 = sigma0" "SHA256_SIGMA1 = sigma1"
  by (intro ext, simp add: SHA256_CH_def Ch_def SHA256_MAJ_def Maj_def SHA256_SUM0_def Sigma0_def SHA256_SUM1_def Sigma1_def
      SHA256_SIGMA0_def sigma0_def SHA256_SIGMA1_def sigma1_def ROTR_rotr)+

lemma or_shifted:
  assumes "take_bit n b = b"
  shows "push_bit n a OR b = 2 ^ n * a + (b :: u32)"
proof -
  have "\<not> bit (push_bit n a) k \<or> \<not> bit b k" for k
    using assms bit_take_bit_iff [of n b k] by (auto simp: bit_push_bit_iff)
  then have "push_bit n a OR b = push_bit n a + b" by (simp add: disjunctive_add_eq_or bit_eq_iff bit_and_iff)
  then show ?thesis by (simp add: push_bit_eq_mult mult.commute)
qed

lemma take_bit_bytes:
  "take_bit 8 (ucast b :: u32) = ucast (b :: u8)"
  "take_bit n x = x \<Longrightarrow> take_bit (8 + n) (push_bit n (ucast b) OR x) = push_bit n (ucast (b :: u8)) OR (x :: u32)"
  by (rule bit_word_eqI, auto simp: bit_simps dest: bit_imp_le_length)
    (rule bit_word_eqI, auto simp: bit_simps bit_eq_iff dest: bit_imp_le_length)

lemma load_word_be: "load_word c (4 * t) = be_word c t"
proof -
  let ?b = "\<lambda>k. ucast (c ! (4 * t + k)) :: u32"
  have 1: "take_bit 8 (?b 3) = ?b 3" by (rule take_bit_bytes)
  have 2: "take_bit 16 (push_bit 8 (?b 2) OR ?b 3) = push_bit 8 (?b 2) OR ?b 3" using take_bit_bytes(2) [OF 1] by simp
  have 3: "take_bit 24 (push_bit 16 (?b 1) OR push_bit 8 (?b 2) OR ?b 3) = push_bit 16 (?b 1) OR push_bit 8 (?b 2) OR ?b 3"
    using take_bit_bytes(2) [OF 2] by simp
  show ?thesis unfolding load_word_def be_word_def
    by (subst or_shifted [OF 3], subst or_shifted [OF 2], subst or_shifted [OF 1]) (simp only: add.assoc)
qed

lemma value_bytes_be: "value_bytes v = be_bytes v"
  by (simp add: value_bytes_def be_bytes_def Let_def drop_bit_drop_bit)

lemma ucast_div: "8 * k + 8 \<le> 64 \<Longrightarrow> (ucast (drop_bit (8 * k) (of_nat n :: u64) AND 0xff) :: u8) = of_nat (n div 256 ^ k)"
proof (rule bit_word_eqI)
  fix i assume k: "8 * k + 8 \<le> 64" and i: "i < LENGTH(8)"
  have "n div 256 ^ k = drop_bit (8 * k) n" by (simp add: drop_bit_eq_div power_mult)
  moreover have m: "(0xff :: u64) = mask 8" by (simp add: mask_eq_exp_minus_1)
  have "bit (0xff :: u64) i" using i unfolding m by (simp only: bit_mask_iff) simp
  ultimately show "bit (ucast (drop_bit (8 * k) (of_nat n :: u64) AND 0xff) :: u8) i = bit (of_nat (n div 256 ^ k) :: u8) i"
    using k i by (auto simp: bit_simps)
qed

lemma length_bytes_be: "length_bytes (of_nat l * 8) = map (\<lambda>i. of_nat (8 * l div 256 ^ (7 - i))) [0..<8]"
proof -
  have "length_bytes (of_nat n) = map (\<lambda>i. of_nat (n div 256 ^ (7 - i))) [0..<8]" for n
    using ucast_div [of 7 n] ucast_div [of 6 n] ucast_div [of 5 n] ucast_div [of 4 n] ucast_div [of 3 n] ucast_div [of 2 n] ucast_div [of 1 n] ucast_div [of 0 n]
    by (simp add: length_bytes_def upt_rec)
  from this [of "8 * l"] show ?thesis by (simp add: mult.commute)
qed


section \<open>The message schedule\<close>

lemma schedule_prefix:
  assumes "length heap = 48" "start + 64 \<le> length c" "n \<le> 16"
  shows "length (fold (\<lambda>i w. w[i := load_word c (start + 4 * i)]) [0..<n] (replicate 16 0 @ heap)) = 64 \<and>
    (\<forall>t < n. fold (\<lambda>i w. w[i := load_word c (start + 4 * i)]) [0..<n] (replicate 16 0 @ heap) ! t = schedule (take 64 (drop start c)) t)"
  using assms(3)
proof (induction n)
  case (Suc n)
  have "load_word c (start + 4 * n) = load_word (take 64 (drop start c)) (4 * n)"
    using assms(2) Suc.prems by (simp add: load_word_def add.assoc)
  then have "load_word c (start + 4 * n) = schedule (take 64 (drop start c)) n"
    using Suc.prems load_word_be [of "take 64 (drop start c)" n] by (simp add: schedule.simps)
  with Suc show ?case by (auto simp: nth_list_update less_Suc_eq)
qed (simp add: assms(1))

lemma schedule_all:
  assumes "length w = 64" "\<And>t. t < 16 \<Longrightarrow> w ! t = schedule M t" "16 \<le> n" "n \<le> 64"
  defines "f \<equiv> \<lambda>i w. w[i := SHA256_SIGMA1 (w ! (i - 2)) + w ! (i - 7) + SHA256_SIGMA0 (w ! (i - 15)) + w ! (i - 16)]"
  shows "length (fold f [16..<n] w) = 64 \<and> (\<forall>t < n. fold f [16..<n] w ! t = schedule M t)"
  using assms(3,4)
proof (induction n rule: nat_induct_at_least)
  case (Suc n)
  then have IH: "length (fold f [16..<n] w) = 64" "\<And>t. t < n \<Longrightarrow> fold f [16..<n] w ! t = schedule M t" by auto
  have "fold f [16..<Suc n] w = f n (fold f [16..<n] w)" using Suc.hyps by simp
  moreover have "f n (fold f [16..<n] w) ! n = schedule M n" using Suc IH by (simp add: f_def schedule.simps [of M n] sha_functions)
  ultimately show ?case using IH Suc.prems by (auto simp: f_def nth_list_update less_Suc_eq)
qed (use assms in simp)

lemma message_schedule_fips:
  assumes "length heap = 48" "start + 64 \<le> length c" "t < 64"
  shows "message_schedule heap c start ! t = schedule (take 64 (drop start c)) t"
proof -
  let ?w = "fold (\<lambda>i w. w[i := load_word c (start + 4 * i)]) [0..<16] (replicate 16 0 @ heap)"
  have p: "length ?w = 64" "\<And>t. t < 16 \<Longrightarrow> ?w ! t = schedule (take 64 (drop start c)) t"
    using schedule_prefix [OF assms(1,2) order_refl] by blast+
  have n: "16 \<le> (64 :: nat)" by simp
  from schedule_all [OF p n order_refl] show ?thesis unfolding message_schedule_def using assms(3) by blast
qed

section \<open>Rounds and blocks\<close>

lemma list8: "length xs = 8 \<Longrightarrow> \<exists>a b c d e f g h. xs = [a, b, c, d, e, f, g, h]"
proof -
  assume "length xs = 8"
  then have "xs = map ((!) xs) [0, 1, 2, 3, 4, 5, 6, 7]" using map_nth [of xs] by (simp add: upt_rec eval_nat_numeral)
  then show ?thesis by simp blast
qed

lemma fips_round_length: "length (fips_round M t st) = length st"
  by (induction M t st rule: fips_round.induct) (simp_all add: Let_def)

lemma sha256_round_fips:
  assumes "length st = 8" "w ! t = schedule M t"
  shows "sha256_round w t st = fips_round M t st"
proof -
  obtain a b c d e f g h where "st = [a, b, c, d, e, f, g, h]" using list8 [OF assms(1)] by blast
  then show ?thesis using assms(2) by (simp add: sha256_round_def Let_def sha_functions fips_K_eq)
qed

lemma rounds_fips:
  assumes "length st = 8" "\<And>t. t \<in> set ts \<Longrightarrow> w ! t = schedule M t"
  shows "fold (sha256_round w) ts st = fold (fips_round M) ts st"
  using assms by (induction ts arbitrary: st) (auto simp: sha256_round_fips fips_round_length)

lemma rounds_length: "length (fold (fips_round M) ts st) = length st"
  by (induction ts arbitrary: st) (simp_all add: fips_round_length)

lemma transform_fips:
  assumes "length heap = 48" "start + 64 \<le> length c" "length H = 8"
  shows "sha256Transform heap c start H = Some (fips_block (take 64 (drop start c)) H)"
  using rounds_fips [OF assms(3), of "[0..<64]" "message_schedule heap c start" "take 64 (drop start c)"]
    message_schedule_fips [OF assms(1,2)] assms(2) by (simp add: sha256Transform_def fips_block_def)

lemma fips_block_length: "length (fips_block M H) = length H"
  by (simp add: fips_block_def rounds_length)

lemma transforms_fips:
  assumes "length H = 8" "\<And>x. x \<in> set xs \<Longrightarrow> \<forall>H. length H = 8 \<longrightarrow> tr x H = Some (fips_block (b x) H)"
  shows "fold_option tr xs H = Some (fold fips_block (map b xs) H) \<and> length (fold fips_block (map b xs) H) = 8"
  using assms by (induction xs arbitrary: H) (auto simp: fips_block_length)

section \<open>Padding\<close>

lemma blocks_append:
  assumes "length xs = 64 * q"
  shows "blocks (xs @ ys) = map (\<lambda>i. take 64 (drop (i * 64) xs)) [0..<q] @ blocks ys"
proof (rule nth_equalityI)
  show "length (blocks (xs @ ys)) = length (map (\<lambda>i. take 64 (drop (i * 64) xs)) [0..<q] @ blocks ys)"
    using assms by (simp add: blocks_def)
  fix i assume "i < length (blocks (xs @ ys))"
  then have "i < q + length ys div 64" using assms by (simp add: blocks_def)
  moreover have "64 * (i - q) = 64 * i - 64 * q" by simp
  moreover have "64 \<le> 64 * q - 64 * i" if "i < q" using that by simp
  ultimately show "blocks (xs @ ys) ! i = (map (\<lambda>i. take 64 (drop (i * 64) xs)) [0..<q] @ blocks ys) ! i"
    using assms by (cases "i < q") (auto simp: blocks_def nth_append mult.commute)
qed

lemma blocks_cons: "length xs = 64 \<Longrightarrow> blocks (xs @ ys) = xs # blocks ys"
  using blocks_append [of xs 1 ys] by simp

lemma blocks_Nil [simp]: "blocks [] = []"
  by (simp add: blocks_def)

lemma blocks_one: "length xs = 64 \<Longrightarrow> blocks xs = [xs]"
  using blocks_cons [of xs "[]"] by simp

lemma padding_mod: "(55 - int l) mod 64 = (55 - int (l mod 64)) mod 64"
  by (simp add: zmod_int mod_diff_right_eq)

lemma padding_zeros_one: "l mod 64 < 56 \<Longrightarrow> nat ((55 - int l) mod 64) = 55 - l mod 64"
  by (subst padding_mod, subst mod_pos_pos_trivial) auto

lemma padding_zeros_two: "\<not> l mod 64 < 56 \<Longrightarrow> nat ((55 - int l) mod 64) = (63 - l mod 64) + 56"
proof -
  assume a: "\<not> l mod 64 < 56"
  have m: "l mod 64 < 64" by simp
  have "(55 - int (l mod 64)) mod 64 = (55 - int (l mod 64) + 64) mod 64" by (simp only: mod_add_self2)
  also have "\<dots> = 119 - int (l mod 64)" using a m by (subst mod_pos_pos_trivial) auto
  finally have "nat ((55 - int l) mod 64) = nat (119 - int (l mod 64))" by (subst padding_mod) simp
  then show ?thesis using m by linarith
qed

lemma blocks_padded: "blocks (src @ padding (length src)) = map (\<lambda>i. take 64 (drop (i * 64) src)) [0..<length src div 64] @ last_chunks src"
proof -
  let ?q = "length src div 64" and ?r = "length src mod 64"
  define rest where "rest = drop (?q * 64) src"
  have rest: "length rest = ?r" by (simp add: rest_def minus_div_mult_eq_mod)
  have r: "?r < 64" by simp
  have full: "length (take (?q * 64) src) = 64 * ?q" by (simp add: mult.commute)
  have take: "take 64 (drop (i * 64) (take (?q * 64) src)) = take 64 (drop (i * 64) src)" if "i < ?q" for i
    using that by (simp add: drop_take mult.commute min_def)
  have "src @ padding (length src) = take (?q * 64) src @ (rest @ padding (length src))" by (simp add: rest_def)
  then have "blocks (src @ padding (length src)) = map (\<lambda>i. take 64 (drop (i * 64) (take (?q * 64) src))) [0..<?q] @ blocks (rest @ padding (length src))"
    by (simp only: blocks_append [OF full])
  also have "map (\<lambda>i. take 64 (drop (i * 64) (take (?q * 64) src))) [0..<?q] = map (\<lambda>i. take 64 (drop (i * 64) src)) [0..<?q]"
    by (rule map_cong) (simp_all only: take set_upt atLeastLessThan_iff)
  finally have b: "blocks (src @ padding (length src)) = map (\<lambda>i. take 64 (drop (i * 64) src)) [0..<?q] @ blocks (rest @ padding (length src))" .
  let ?lb = "length_bytes (of_nat (length src) * 8)"
  have lb: "length ?lb = 8" by (simp add: length_bytes_def)
  have "blocks (rest @ padding (length src)) = last_chunks src"
  proof (cases "?r < 56")
    case True
    then show ?thesis using padding_zeros_one [OF True] rest lb
      by (simp add: last_chunks_def Let_def padding_def rest_def [symmetric] blocks_one flip: length_bytes_be)
  next
    case False
    have "rest @ padding (length src) = (rest @ 0x80 # replicate (63 - ?r) 0) @ (replicate 56 0 @ ?lb)"
      unfolding padding_def padding_zeros_two [OF False] replicate_add length_bytes_be by simp
    moreover have "length (rest @ 0x80 # replicate (63 - ?r) (0 :: u8)) = 64" "length (replicate 56 0 @ ?lb) = 64"
      using False rest lb r by simp_all
    moreover have "last_chunks src = [rest @ 0x80 # replicate (63 - ?r) 0, replicate 56 0 @ ?lb]"
      using False rest by (simp add: last_chunks_def Let_def rest_def [symmetric])
    ultimately show ?thesis by (simp only: blocks_cons blocks_one)
  qed
  then show ?thesis using b by simp
qed

lemma last_chunks_length: "c \<in> set (last_chunks src) \<Longrightarrow> length c = 64"
proof -
  have "length (drop (length src div 64 * 64) src) = length src mod 64" by (simp add: minus_div_mult_eq_mod)
  then show "c \<in> set (last_chunks src) \<Longrightarrow> length c = 64"
    by (auto simp: last_chunks_def Let_def length_bytes_def split: if_splits)
qed

section \<open>Equivalence\<close>

lemma sha256_eq:
  assumes "length heap = 48"
  shows "sha256 heap src = Some (SHA256 src)"
proof -
  let ?q = "length src div 64"
  have i: "length sha256Init = 8" by (simp add: sha256Init_def)
  have "i * 64 + 64 \<le> length src" if "i < ?q" for i
    using that by (metis Suc_leI div_times_less_eq_dividend le_trans mult_Suc mult_le_mono1 add.commute)
  then have 1: "fold_option (\<lambda>i. sha256Transform heap src (i * 64)) [0..<?q] sha256Init =
      Some (fold fips_block (map (\<lambda>i. take 64 (drop (i * 64) src)) [0..<?q]) sha256Init) \<and>
      length (fold fips_block (map (\<lambda>i. take 64 (drop (i * 64) src)) [0..<?q]) sha256Init) = 8"
    by (intro transforms_fips [OF i]) (simp add: transform_fips assms)
  have 2: "fold_option (\<lambda>c. sha256Transform heap c 0) (last_chunks src) H = Some (fold fips_block (last_chunks src) H) \<and>
      length (fold fips_block (last_chunks src) H) = 8" if "length H = 8" for H
    using transforms_fips [OF that, of "last_chunks src" "\<lambda>c. sha256Transform heap c 0" "\<lambda>c. c"] last_chunks_length
    by (simp add: transform_fips assms)
  have 3: "concat (map (\<lambda>i. value_bytes (H ! i)) [0..<8]) = concat (map be_bytes H)" if "length H = 8" for H
    using arg_cong [OF map_nth [of H], of "map be_bytes"] that by (simp add: value_bytes_be comp_def)
  show ?thesis unfolding sha256_def SHA256_def fips_H0_eq blocks_padded fold_append comp_apply using 1 2 3 by simp
qed

lemma SHA256_length: "length (SHA256 m) = 32"
proof -
  have "length (fold fips_block bs H) = length H" for bs H by (induction bs arbitrary: H) (simp_all add: fips_block_length)
  then have "length (fold fips_block (blocks (m @ padding (length m))) fips_H0) = 8" by (simp add: fips_H0_eq sha256Init_def)
  then show ?thesis by (simp add: SHA256_def length_concat comp_def be_bytes_def sum_list_triv)
qed

lemma hmac_eq:
  assumes "length heap = 48"
  shows "hmac_sha256 heap key message = Some (HMAC (toUnsignedCharVector key) (toUnsignedCharVector message))"
proof -
  have k: "map (\<lambda>i. ks ! i XOR b) [0..<64] = map (\<lambda>x. x XOR b) ks" if "length ks = 64" for ks :: "u8 list" and b
    using arg_cong [OF map_nth [of ks], of "map (\<lambda>x. x XOR b)"] that by (simp add: comp_def)
  show ?thesis using assms
    by (simp add: hmac_sha256_def HMAC_def Let_def sha256_eq k toUnsignedCharVector_def SHA256_length)
qed


section \<open>Properties\<close>

text \<open>
  C6: \<open>sha256\<close> computes the SHA-256 of FIPS 180-4: constants, padding, message schedule, rounds and byte order agree with the
  standard for every message, no vector is read beyond its end, and the result does not depend on the
  uninitialised memory.
\<close>

theorem sha256_fips:
  assumes "length heap = 48"
  shows "sha256 heap src = Some (SHA256 src)"
  using assms by (rule sha256_eq)

theorem sha256_fips_witness:
  "sha256 (replicate 48 7) (map of_char ''abc'') = Some (SHA256 (map of_char ''abc'')) \<and> sha256 (replicate 48 0) [] = Some (SHA256 [])"
  using sha256_fips [of "replicate 48 7" "map of_char ''abc''"] sha256_fips [of "replicate 48 0" "[]"] by simp

end
