(* ===== verification/Thread_Pool.thy ===== *)
theory Thread_Pool
  imports Prelude "HOL-Library.Multiset"
begin

text \<open>
  Component core/thread: \<open>SyncQueue\<close>, \<open>TaskScheduler\<close>, \<open>ThreadPoolTaskScheduler\<close> and \<open>ExecuteOrSchedule\<close>
  of dataservice-read.

  The threads of the pool run as one step relation. A worker that finds the condition of \<open>Pull\<close> false sleeps until
  the condition variable wakes it; \<open>Push\<close> and \<open>Close\<close> notify after they released the mutex, so a notification is a
  step of its own that may come late, and a worker may wake without one. A task is any value: what it does beside
  scheduling further tasks, which any step may do, does not concern the pool.

  Shown: tasks are taken in the order they were accepted, none is lost or taken twice; no wake-up is lost; the
  destructor returns once the tasks that were taken have ended, and drops the others; a task whose context was
  cancelled before is not run.
\<close>

section \<open>The synchronised queue\<close>

record 'a SyncQueue =
  sq_queue :: "'a list"
  sq_closed :: bool

definition SyncQueue_new :: "'a SyncQueue" where
  "SyncQueue_new = \<lparr>sq_queue = [], sq_closed = False\<rparr>"

definition Sync_Empty :: "'a SyncQueue \<Rightarrow> bool" where
  "Sync_Empty q \<longleftrightarrow> sq_queue q = []"

definition Sync_Close :: "'a SyncQueue \<Rightarrow> 'a SyncQueue" where
  "Sync_Close q = q\<lparr>sq_closed := True, sq_queue := []\<rparr>"

text \<open>Whether \<open>notify_one\<close> follows, and the queue. Both overloads of \<open>Push\<close> do the same.\<close>

definition Sync_Push :: "'a \<Rightarrow> 'a SyncQueue \<Rightarrow> bool \<times> 'a SyncQueue" where
  "Sync_Push element q = (if sq_closed q then (False, q) else (True, q\<lparr>sq_queue := sq_queue q @ [element]\<rparr>))"

text \<open>\<open>Pull\<close> with the mutex held: it waits for the condition, or ends with or without an element.\<close>

datatype 'a pull = PullWaits | PullClosed | PullElement 'a

definition Sync_Pull :: "'a SyncQueue \<Rightarrow> 'a pull \<times> 'a SyncQueue" where
  "Sync_Pull q =
     (if \<not> (sq_queue q \<noteq> [] \<or> sq_closed q) then (PullWaits, q)
      else if sq_closed q then (PullClosed, q)
      else (PullElement (hd (sq_queue q)), q\<lparr>sq_queue := tl (sq_queue q)\<rparr>))"

section \<open>The thread pool\<close>

text \<open>A task is a function, or one that is skipped when its context was cancelled.\<close>

datatype 'f task = Plain 'f | Cancellable nat 'f

datatype 'f worker = Checking | Sleeping | Holding "'f task" | Running "'f task" | Ended

text \<open>
  The scheduler, the notifications of the condition variable that are still to be made, the cancelled contexts,
  and what happened: the tasks the queue accepted, those taken from it, run, finished, and dropped by \<open>Close\<close>.
\<close>

record 'f ThreadPool =
  sync_queue :: "'f task SyncQueue"
  thread_pool :: "'f worker list"
  notify_one_due :: nat
  notify_all_due :: bool
  next_context :: nat
  cancelled_contexts :: "nat list"
  accepted :: "'f task list"
  pulled :: "'f task list"
  ran :: "'f task list"
  finished :: "'f task list"
  dropped :: "'f task list"

definition ThreadPoolTaskScheduler_new :: "nat \<Rightarrow> 'f ThreadPool" where
  "ThreadPoolTaskScheduler_new thread_count =
     \<lparr>sync_queue = SyncQueue_new, thread_pool = replicate thread_count Checking, notify_one_due = 0, notify_all_due = False,
      next_context = 0, cancelled_contexts = [], accepted = [], pulled = [], ran = [], finished = [], dropped = []\<rparr>"

definition EnqueueTask :: "'f task \<Rightarrow> 'f ThreadPool \<Rightarrow> 'f ThreadPool" where
  "EnqueueTask func p =
     (let (notify, q) = Sync_Push func (sync_queue p)
      in p\<lparr>sync_queue := q, notify_one_due := (if notify then notify_one_due p + 1 else notify_one_due p),
           accepted := (if notify then accepted p @ [func] else accepted p)\<rparr>)"

definition ScheduleTask :: "'f \<Rightarrow> 'f ThreadPool \<Rightarrow> 'f ThreadPool" where
  "ScheduleTask func p = EnqueueTask (Plain func) p"

definition ScheduleTask_cancellable :: "'f \<Rightarrow> 'f ThreadPool \<Rightarrow> nat \<times> 'f ThreadPool" where
  "ScheduleTask_cancellable func p =
     (let context = next_context p in (context, EnqueueTask (Cancellable context func) (p\<lparr>next_context := context + 1\<rparr>)))"

definition cancel_context :: "nat \<Rightarrow> 'f ThreadPool \<Rightarrow> 'f ThreadPool" where
  "cancel_context context p = p\<lparr>cancelled_contexts := context # cancelled_contexts p\<rparr>"

text \<open>\<open>ExecuteOrSchedule\<close>: without a scheduler the function is run at once.\<close>

definition ExecuteOrSchedule :: "('f \<Rightarrow> 'w \<Rightarrow> 'w) \<Rightarrow> 'f \<Rightarrow> 'f ThreadPool option \<Rightarrow> 'w \<Rightarrow> 'f ThreadPool option \<times> 'w" where
  "ExecuteOrSchedule execute func task_scheduler w =
     (case task_scheduler of None \<Rightarrow> (None, execute func w) | Some p \<Rightarrow> (Some (ScheduleTask func p), w))"

text \<open>One pass of a worker through the loop of its thread: it pulls, it looks at the context, it is done.\<close>

definition worker_pull :: "nat \<Rightarrow> 'f ThreadPool \<Rightarrow> 'f ThreadPool" where
  "worker_pull i p =
     (case Sync_Pull (sync_queue p) of
        (PullWaits, _) \<Rightarrow> p\<lparr>thread_pool := (thread_pool p)[i := Sleeping]\<rparr>
      | (PullClosed, _) \<Rightarrow> p\<lparr>thread_pool := (thread_pool p)[i := Ended]\<rparr>
      | (PullElement task, q) \<Rightarrow> p\<lparr>sync_queue := q, thread_pool := (thread_pool p)[i := Holding task], pulled := pulled p @ [task]\<rparr>)"

fun task_skipped :: "nat list \<Rightarrow> 'f task \<Rightarrow> bool" where
  "task_skipped cancelled (Plain f) = False"
| "task_skipped cancelled (Cancellable context f) = (context \<in> set cancelled)"

definition worker_begin :: "nat \<Rightarrow> 'f task \<Rightarrow> 'f ThreadPool \<Rightarrow> 'f ThreadPool" where
  "worker_begin i task p =
     (if task_skipped (cancelled_contexts p) task
      then p\<lparr>thread_pool := (thread_pool p)[i := Checking], finished := finished p @ [task]\<rparr>
      else p\<lparr>thread_pool := (thread_pool p)[i := Running task], ran := ran p @ [task]\<rparr>)"

definition worker_done :: "nat \<Rightarrow> 'f task \<Rightarrow> 'f ThreadPool \<Rightarrow> 'f ThreadPool" where
  "worker_done i task p = p\<lparr>thread_pool := (thread_pool p)[i := Checking], finished := finished p @ [task]\<rparr>"

text \<open>The condition variable wakes one or all of the workers that sleep.\<close>

definition wake :: "nat \<Rightarrow> 'f ThreadPool \<Rightarrow> 'f ThreadPool" where
  "wake i p = p\<lparr>thread_pool := (thread_pool p)[i := Checking]\<rparr>"

definition notify_one :: "'f ThreadPool \<Rightarrow> 'f ThreadPool" where
  "notify_one p = p\<lparr>notify_one_due := notify_one_due p - 1\<rparr>"

definition notify_all :: "'f ThreadPool \<Rightarrow> 'f ThreadPool" where
  "notify_all p = p\<lparr>notify_all_due := False, thread_pool := map (\<lambda>w. if w = Sleeping then Checking else w) (thread_pool p)\<rparr>"

text \<open>The destructor closes the queue and joins the threads.\<close>

definition destructor_Close :: "'f ThreadPool \<Rightarrow> 'f ThreadPool" where
  "destructor_Close p = p\<lparr>sync_queue := Sync_Close (sync_queue p), notify_all_due := True, dropped := dropped p @ sq_queue (sync_queue p)\<rparr>"

definition destructor_joins :: "'f ThreadPool \<Rightarrow> bool" where
  "destructor_joins p \<longleftrightarrow> sq_closed (sync_queue p) \<and> (\<forall>w \<in> set (thread_pool p). w = Ended)"

inductive pool_step :: "'f ThreadPool \<Rightarrow> 'f ThreadPool \<Rightarrow> bool" where
  schedule: "pool_step p (ScheduleTask f p)"
| schedule_cancellable: "pool_step p (snd (ScheduleTask_cancellable f p))"
| cancel: "context < next_context p \<Longrightarrow> pool_step p (cancel_context context p)"
| pull: "i < length (thread_pool p) \<Longrightarrow> thread_pool p ! i = Checking \<Longrightarrow> pool_step p (worker_pull i p)"
| start: "i < length (thread_pool p) \<Longrightarrow> thread_pool p ! i = Holding task \<Longrightarrow> pool_step p (worker_begin i task p)"
| finish: "i < length (thread_pool p) \<Longrightarrow> thread_pool p ! i = Running task \<Longrightarrow> pool_step p (worker_done i task p)"
| notify_one: "0 < notify_one_due p \<Longrightarrow> i < length (thread_pool p) \<Longrightarrow> thread_pool p ! i = Sleeping \<Longrightarrow> pool_step p (notify_one (wake i p))"
| notify_none: "0 < notify_one_due p \<Longrightarrow> Sleeping \<notin> set (thread_pool p) \<Longrightarrow> pool_step p (notify_one p)"
| notify_all: "notify_all_due p \<Longrightarrow> pool_step p (notify_all p)"
| spurious: "i < length (thread_pool p) \<Longrightarrow> thread_pool p ! i = Sleeping \<Longrightarrow> pool_step p (wake i p)"
| destruct: "\<not> sq_closed (sync_queue p) \<Longrightarrow> pool_step p (destructor_Close p)"

abbreviation pool_reachable :: "nat \<Rightarrow> 'f ThreadPool \<Rightarrow> bool" where
  "pool_reachable n p \<equiv> pool_step\<^sup>*\<^sup>* (ThreadPoolTaskScheduler_new n) p"

section \<open>Invariants\<close>

fun in_hand :: "'f worker \<Rightarrow> 'f task multiset" where
  "in_hand (Holding t) = {#t#}"
| "in_hand (Running t) = {#t#}"
| "in_hand _ = {#}"

definition tasks_in_hand :: "'f worker list \<Rightarrow> 'f task multiset" where
  "tasks_in_hand ws = sum_list (map in_hand ws)"

lemma tasks_in_hand_update:
  "i < length ws \<Longrightarrow> tasks_in_hand (ws[i := w]) + in_hand (ws ! i) = tasks_in_hand ws + in_hand w"
  by (induction ws arbitrary: i) (auto simp: tasks_in_hand_def nth_Cons' add_ac split: nat.split simp: less_Suc_eq_0_disj)

lemma tasks_in_hand_wake: "tasks_in_hand (map (\<lambda>w. if w = Sleeping then Checking else w) ws) = tasks_in_hand ws"
  by (induction ws) (auto simp: tasks_in_hand_def)

lemma count_update:
  "i < length ws \<Longrightarrow> count_list (ws[i := w]) v + (if ws ! i = v then 1 else 0) = count_list ws v + (if w = v then 1 else 0)"
proof (induction ws arbitrary: i)
  case (Cons a ws)
  show ?case
  proof (cases i)
    case (Suc j)
    then show ?thesis using Cons.IH [of j] Cons.prems by (cases "a = v") simp_all
  qed simp
qed simp

lemma count_Checking_update:
  "i < length ws \<Longrightarrow> count_list ws Checking \<le> count_list (ws[i := w]) Checking + (if ws ! i = Checking then 1 else 0)"
  "i < length ws \<Longrightarrow> ws ! i \<noteq> Checking \<Longrightarrow> count_list (ws[i := Checking]) Checking = Suc (count_list ws Checking)"
  using count_update [of i ws w Checking] count_update [of i ws Checking Checking] by (simp_all split: if_splits)

lemma worker_update: "v \<in> set (ws[i := w]) \<Longrightarrow> w = v \<or> v \<in> set ws"
  using set_update_subset_insert [of ws i w] by auto

text \<open>Order and conservation of the tasks.\<close>

definition tasks_inv :: "'f ThreadPool \<Rightarrow> bool" where
  "tasks_inv p \<longleftrightarrow> accepted p = pulled p @ sq_queue (sync_queue p) @ dropped p \<and>
     (sq_closed (sync_queue p) \<longrightarrow> sq_queue (sync_queue p) = []) \<and> (\<not> sq_closed (sync_queue p) \<longrightarrow> dropped p = []) \<and>
     mset (pulled p) = mset (finished p) + tasks_in_hand (thread_pool p) \<and>
     (Ended \<in> set (thread_pool p) \<longrightarrow> sq_closed (sync_queue p))"

text \<open>No wake-up is lost.\<close>

definition wake_inv :: "'f ThreadPool \<Rightarrow> bool" where
  "wake_inv p \<longleftrightarrow> (Sleeping \<in> set (thread_pool p) \<longrightarrow>
     (if sq_closed (sync_queue p) then notify_all_due p
      else length (sq_queue (sync_queue p)) \<le> count_list (thread_pool p) Checking + notify_one_due p))"

lemmas pool_ops = ScheduleTask_def ScheduleTask_cancellable_def EnqueueTask_def cancel_context_def worker_pull_def worker_begin_def
  worker_done_def wake_def notify_one_def notify_all_def destructor_Close_def Sync_Push_def Sync_Pull_def Sync_Close_def Let_def

lemma tasks_inv_step: "pool_step p p' \<Longrightarrow> tasks_inv p \<Longrightarrow> tasks_inv p'"
proof (induction rule: pool_step.induct)
  case (pull i p)
  then show ?case using tasks_in_hand_update [of i "thread_pool p"]
    by (cases "sq_queue (sync_queue p)") (auto simp: tasks_inv_def pool_ops dest!: worker_update)
next
  case (start i p task)
  then show ?case using tasks_in_hand_update [of i "thread_pool p" Checking] tasks_in_hand_update [of i "thread_pool p" "Running task"]
    by (auto simp: tasks_inv_def pool_ops dest!: worker_update)
next
  case (finish i p task)
  then show ?case using tasks_in_hand_update [of i "thread_pool p" Checking]
    by (auto simp: tasks_inv_def pool_ops dest!: worker_update)
next
  case (notify_one p i)
  then show ?case using tasks_in_hand_update [of i "thread_pool p" Checking]
    by (auto simp: tasks_inv_def pool_ops dest!: worker_update)
next
  case (spurious i p)
  then show ?case using tasks_in_hand_update [of i "thread_pool p" Checking]
    by (auto simp: tasks_inv_def pool_ops dest!: worker_update)
next
  case (notify_all p)
  then show ?case by (auto simp: tasks_inv_def pool_ops tasks_in_hand_wake split: if_splits)
qed (auto simp: tasks_inv_def pool_ops)

lemma wake_inv_step: "pool_step p p' \<Longrightarrow> tasks_inv p \<Longrightarrow> wake_inv p \<Longrightarrow> wake_inv p'"
proof (induction rule: pool_step.induct)
  case (pull i p)
  then show ?case using count_Checking_update(1) [of i "thread_pool p" "Holding (hd (sq_queue (sync_queue p)))"]
    by (cases "sq_queue (sync_queue p)"; cases "sq_closed (sync_queue p)")
      (auto simp: wake_inv_def tasks_inv_def pool_ops dest!: worker_update intro: order_trans)
next
  case (start i p task)
  then show ?case using count_Checking_update(1) [of i "thread_pool p"] 
    by (auto simp: wake_inv_def pool_ops dest!: worker_update intro: order_trans)
next
  case (finish i p task)
  then show ?case using count_Checking_update(1) [of i "thread_pool p" Checking] 
    by (auto simp: wake_inv_def pool_ops dest!: worker_update intro: order_trans)
next
  case (notify_one p i)
  then show ?case using count_Checking_update(2) [of i "thread_pool p"] nth_mem [of i "thread_pool p"]
    by (auto simp: wake_inv_def pool_ops)
next
  case (spurious i p)
  then show ?case using count_Checking_update(2) [of i "thread_pool p"] nth_mem [of i "thread_pool p"]
    by (auto simp: wake_inv_def pool_ops)
qed (auto simp: wake_inv_def pool_ops)

text \<open>Facts of the reachable states.\<close>

lemma pool_inv:
  assumes "pool_reachable n p"
  shows "tasks_inv p" "wake_inv p" "length (thread_pool p) = n"
proof -
  have "tasks_inv p \<and> wake_inv p \<and> length (thread_pool p) = n" using assms
  proof (induction rule: rtranclp_induct)
    case base
    have "tasks_in_hand (replicate n Checking) = {#}" by (induction n) (simp_all add: tasks_in_hand_def)
    then show ?case by (simp add: tasks_inv_def wake_inv_def ThreadPoolTaskScheduler_new_def SyncQueue_new_def)
  next
    case (step p p')
    moreover have "length (thread_pool p') = length (thread_pool p)"
      using step.hyps(2) by cases (simp_all add: pool_ops split: pull.splits)
    ultimately show ?case using tasks_inv_step wake_inv_step by metis
  qed
  then show "tasks_inv p" "wake_inv p" "length (thread_pool p) = n" by simp_all
qed

lemma tasks_in_hand_size: "size (tasks_in_hand ws) \<le> length ws"
proof (induction ws)
  case (Cons w ws)
  then show ?case by (cases w) (simp_all add: tasks_in_hand_def)
qed (simp add: tasks_in_hand_def)

text \<open>A context that was cancelled stays so, and its task is not run any more.\<close>

lemma cancelled_task_not_run:
  "pool_step\<^sup>*\<^sup>* p p' \<Longrightarrow> c \<in> set (cancelled_contexts p) \<Longrightarrow> Cancellable c f \<notin> set (ran p) \<Longrightarrow>
   c \<in> set (cancelled_contexts p') \<and> Cancellable c f \<notin> set (ran p')"
proof (induction rule: rtranclp_induct)
  case (step q r)
  then show ?case by (auto elim!: pool_step.cases simp: pool_ops split: pull.splits if_splits)
qed simp

section \<open>The end of the workers\<close>

fun worker_work :: "'f worker \<Rightarrow> nat" where
  "worker_work (Holding _) = 3"
| "worker_work (Running _) = 2"
| "worker_work Sleeping = 2"
| "worker_work Checking = 1"
| "worker_work Ended = 0"

definition pool_work :: "'f ThreadPool \<Rightarrow> nat" where
  "pool_work p = sum_list (map worker_work (thread_pool p)) + notify_one_due p + (if notify_all_due p then 1 else 0)"

lemma work_update:
  "i < length ws \<Longrightarrow> sum_list (map worker_work (ws[i := w])) + worker_work (ws ! i) = sum_list (map worker_work ws) + worker_work w"
proof (induction ws arbitrary: i)
  case (Cons a ws)
  then show ?case using Cons.IH [of "i - 1"] by (cases i) auto
qed simp

lemma work_wake: "sum_list (map worker_work (map (\<lambda>w. if w = Sleeping then Checking else w) ws)) \<le> sum_list (map worker_work ws)"
  by (induction ws) auto

lemma closed_step:
  assumes "pool_step p p'" "sq_closed (sync_queue p)"
  shows "sq_closed (sync_queue p') \<and> pool_work p' \<le> pool_work p"
  using assms
proof (induction rule: pool_step.induct)
  case (pull i p)
  then show ?case using work_update [of i "thread_pool p" Ended] by (auto simp: pool_work_def pool_ops)
next
  case (start i p task)
  then show ?case using work_update [of i "thread_pool p" Checking] work_update [of i "thread_pool p" "Running task"]
    by (auto simp: pool_work_def pool_ops)
next
  case (finish i p task)
  then show ?case using work_update [of i "thread_pool p" Checking] by (auto simp: pool_work_def pool_ops)
next
  case (notify_one p i)
  then show ?case using work_update [of i "thread_pool p" Checking] by (auto simp: pool_work_def pool_ops)
next
  case (spurious i p)
  then show ?case using work_update [of i "thread_pool p" Checking] by (auto simp: pool_work_def pool_ops)
next
  case (notify_all p)
  then show ?case using work_wake [of "thread_pool p"] by (auto simp: pool_work_def pool_ops simp del: map_map)
qed (auto simp: pool_work_def pool_ops)

lemma closed_progress:
  assumes "wake_inv p" "sq_closed (sync_queue p)" "\<not> destructor_joins p"
  shows "\<exists>p'. pool_step p p' \<and> pool_work p' < pool_work p"
proof -
  obtain i where i: "i < length (thread_pool p)" "thread_pool p ! i \<noteq> Ended"
    using assms(2,3) by (auto simp: destructor_joins_def in_set_conv_nth)
  show ?thesis
  proof (cases "thread_pool p ! i")
    case Checking
    then show ?thesis using pool_step.pull [OF i(1) Checking] work_update [OF i(1), of Ended] assms(2)
      by (auto simp: pool_work_def pool_ops intro!: exI [of _ "worker_pull i p"])
  next
    case Sleeping
    then have "notify_all_due p" using assms(1,2) i(1) nth_mem [OF i(1)] by (simp add: wake_inv_def)
    then show ?thesis using pool_step.notify_all work_wake [of "thread_pool p"]
      by (auto simp: pool_work_def pool_ops simp del: map_map intro!: exI [of _ "notify_all p"])
  next
    case (Holding t)
    then show ?thesis using pool_step.start [OF i(1) Holding] work_update [OF i(1), of Checking] work_update [OF i(1), of "Running t"]
      by (cases "task_skipped (cancelled_contexts p) t") (auto simp: pool_work_def pool_ops intro!: exI [of _ "worker_begin i t p"])
  next
    case (Running t)
    then show ?thesis using pool_step.finish [OF i(1) Running] work_update [OF i(1), of Checking]
      by (auto simp: pool_work_def pool_ops intro!: exI [of _ "worker_done i t p"])
  qed (use i in simp)
qed

text \<open>A pool of one thread that took a task, and later closed with a second task queued.\<close>

definition example_pool :: "char ThreadPool" where
  "example_pool = worker_pull 0 (ScheduleTask CHR ''a'' (ThreadPoolTaskScheduler_new 1))"

definition example_pool_closed :: "char ThreadPool" where
  "example_pool_closed = destructor_Close (ScheduleTask CHR ''b'' example_pool)"

definition example_pool_quiet :: "char ThreadPool" where
  "example_pool_quiet = notify_all (notify_one (notify_one (worker_pull 0 (worker_done 0 (Plain CHR ''a'')
     (worker_begin 0 (Plain CHR ''a'') example_pool_closed)))))"

lemmas example_pool_defs = example_pool_def example_pool_closed_def example_pool_quiet_def ThreadPoolTaskScheduler_new_def SyncQueue_new_def
  pool_ops

lemma example_pool_reachable: "pool_reachable 1 example_pool" "pool_reachable 1 example_pool_closed" "pool_reachable 1 example_pool_quiet"
proof -
  note steps = rtranclp.rtrancl_into_rtrancl [where r = pool_step]
  show 1: "pool_reachable 1 example_pool" unfolding example_pool_def
    by (rule steps [OF steps [OF _ pool_step.schedule] pool_step.pull]) (simp_all add: example_pool_defs)
  show 2: "pool_reachable 1 example_pool_closed" unfolding example_pool_closed_def
    by (rule steps [OF steps [OF 1 pool_step.schedule] pool_step.destruct]) (simp add: example_pool_defs)
  show "pool_reachable 1 example_pool_quiet" unfolding example_pool_quiet_def
    by (rule steps [OF steps [OF steps [OF steps [OF steps [OF steps [OF 2 pool_step.start] pool_step.finish] pool_step.pull]
        pool_step.notify_none] pool_step.notify_none] pool_step.notify_all]) (simp_all add: example_pool_defs)
qed

section \<open>Properties\<close>

text \<open>
  C29: In every reachable state the accepted tasks are, in the order they were accepted, those taken from the queue,
  those still in it and those dropped when it was closed; a task that was taken is finished or in the hands of one
  worker, and no more tasks run at a time than the pool has threads.
\<close>

theorem thread_pool_fifo:
  assumes "pool_reachable thread_count p"
  shows "accepted p = pulled p @ sq_queue (sync_queue p) @ dropped p \<and>
    mset (pulled p) = mset (finished p) + tasks_in_hand (thread_pool p) \<and> size (tasks_in_hand (thread_pool p)) \<le> thread_count \<and>
    (\<not> sq_closed (sync_queue p) \<longrightarrow> dropped p = [])"
  using pool_inv [OF assms] tasks_in_hand_size [of "thread_pool p"] by (simp add: tasks_inv_def)

theorem thread_pool_fifo_witness: "accepted example_pool_closed = [Plain CHR ''a''] @ dropped example_pool_closed"
  using thread_pool_fifo [OF example_pool_reachable(2)] by (simp add: example_pool_defs)

text \<open>
  C8: No wake-up is lost: when no notification is due and every worker of a pool sleeps or has ended, every accepted
  task has finished or was dropped by the destructor, nothing is dropped before, and a pool that was closed has
  ended all its threads.
\<close>

theorem thread_pool_quiescent:
  assumes "pool_reachable thread_count p" "0 < thread_count"
    "notify_one_due p = 0" "\<not> notify_all_due p" "\<forall>w \<in> set (thread_pool p). w = Sleeping \<or> w = Ended"
  shows "mset (accepted p) = mset (finished p) + mset (dropped p) \<and> (sq_closed (sync_queue p) \<longrightarrow> destructor_joins p) \<and>
    (\<not> sq_closed (sync_queue p) \<longrightarrow> dropped p = [])"
proof -
  note inv = pool_inv [OF assms(1)]
  have hand: "tasks_in_hand ws = {#}" if "\<forall>w \<in> set ws. w = Sleeping \<or> w = Ended" for ws :: "'a worker list"
    using that by (induction ws) (auto simp: tasks_in_hand_def)
  have "count_list (thread_pool p) Checking = 0" using assms(5) by (auto simp: count_list_0_iff)
  moreover have "Sleeping \<in> set (thread_pool p)" if "\<not> sq_closed (sync_queue p)"
    using that inv(1,3) assms(2,5) by (cases "thread_pool p") (auto simp: tasks_inv_def)
  ultimately have "sq_queue (sync_queue p) = []" using inv(1,2) assms(3) by (auto simp: tasks_inv_def wake_inv_def)
  moreover have "destructor_joins p" if "sq_closed (sync_queue p)"
    using that inv(2) assms(4,5) by (auto simp: wake_inv_def destructor_joins_def)
  ultimately show ?thesis using inv(1) hand [OF assms(5)] by (simp add: tasks_inv_def)
qed

theorem thread_pool_quiescent_witness:
  "mset (accepted example_pool_quiet) = {#Plain CHR ''a''#} + mset (dropped example_pool_quiet) \<and> destructor_joins example_pool_quiet"
proof -
  have "finished example_pool_quiet = [Plain CHR ''a'']" by (simp add: example_pool_defs)
  then show ?thesis using thread_pool_quiescent [OF example_pool_reachable(3)] by (simp add: example_pool_defs)
qed

text \<open>
  C30: After the queue was closed the pool ends: as long as a thread has not ended a step is possible that lowers a
  measure no step raises, every task that was taken from the queue is run to its end, no task is taken or accepted
  any more, and the queue stays closed.
\<close>

theorem thread_pool_shutdown:
  assumes "pool_reachable thread_count p" "sq_closed (sync_queue p)"
  shows "(destructor_joins p \<longrightarrow> mset (pulled p) = mset (finished p)) \<and>
    (\<not> destructor_joins p \<longrightarrow> (\<exists>p'. pool_step p p' \<and> pool_work p' < pool_work p)) \<and>
    (\<forall>p'. pool_step p p' \<longrightarrow> pool_work p' \<le> pool_work p \<and> sq_closed (sync_queue p') \<and> pulled p' = pulled p \<and> accepted p' = accepted p)"
proof -
  note inv = pool_inv [OF assms(1)]
  have hand: "tasks_in_hand ws = {#}" if "\<forall>w \<in> set ws. w = Ended" for ws :: "'a worker list"
    using that by (induction ws) (auto simp: tasks_in_hand_def)
  have "pulled p' = pulled p \<and> accepted p' = accepted p" if "pool_step p p'" for p'
    using that assms(2) by (auto elim!: pool_step.cases simp: pool_ops)
  then show ?thesis using inv(1) hand closed_progress [OF inv(2) assms(2)] closed_step [OF _ assms(2)]
    by (auto simp: destructor_joins_def tasks_inv_def)
qed

theorem thread_pool_shutdown_witness: "\<exists>p'. pool_step example_pool_closed p' \<and> pool_work p' < pool_work example_pool_closed"
proof -
  have "sq_closed (sync_queue example_pool_closed) \<and> \<not> destructor_joins example_pool_closed"
    by (simp add: example_pool_defs destructor_joins_def)
  then show ?thesis using thread_pool_shutdown [OF example_pool_reachable(2)] by blast
qed

end
