(* ===== verification/Write_Apis.thy ===== *)
theory Write_Apis
  imports Read_Apis
begin

text \<open>
  Component dataservice-write: the data of the service and the requests (\<open>generated/model\<close>, \<open>model/*.h\<close>), the calls
  of its REST interfaces (\<open>generated/*Api.cpp\<close>) and the lookup of an interface (\<open>ApiClientLookup.cpp\<close>).

  As in \<open>Read_Apis\<close>, \<open>OlpClient::CallApi\<close> with the network behind it is a parameter, here with the body and the
  content type of the request; the JSON parsers and serializers are the record \<open>write_codecs\<close>. A record with its
  selectors and updates stands for a class with its getters and setters. The classes of the catalog that are the same
  as those of dataservice-read are taken from there.
\<close>

section \<open>Data of the service\<close>

record WriteLayer =
  wl_id :: string
  wl_name :: string
  wl_summary :: string
  wl_description :: string
  wl_owner :: Owner
  wl_coverage :: Coverage
  wl_schema :: LayerSchema
  wl_content_type :: string
  wl_content_encoding :: string
  wl_partitioning :: Partitioning
  wl_layer_type :: string
  wl_digest :: string
  wl_tags :: "string list"
  wl_billing_tags :: "string list"
  wl_ttl :: int
  wl_index_properties :: IndexProperties
  wl_stream_properties :: StreamProperties
  wl_volume :: Volume

record WriteCatalog =
  wc_id :: string
  wc_hrn :: string
  wc_name :: string
  wc_summary :: string
  wc_description :: string
  wc_coverage :: Coverage
  wc_owner :: Owner
  wc_tags :: "string list"
  wc_billing_tags :: "string list"
  wc_created :: string
  wc_layers :: "WriteLayer list"
  wc_version :: int
  wc_notifications :: Notifications

definition WriteLayer_new :: WriteLayer where
  "WriteLayer_new = \<lparr>wl_id = [], wl_name = [], wl_summary = [], wl_description = [],
     wl_owner = \<lparr>creator = \<lparr>creator_id = []\<rparr>, organisation = \<lparr>creator_id = []\<rparr>\<rparr>, wl_coverage = \<lparr>admin_areas = []\<rparr>, wl_schema = \<lparr>schema_hrn = []\<rparr>,
     wl_content_type = [], wl_content_encoding = [], wl_partitioning = \<lparr>scheme = [], tile_levels = []\<rparr>, wl_layer_type = [], wl_digest = [], wl_tags = [],
     wl_billing_tags = [], wl_ttl = 0, wl_index_properties = \<lparr>index_ttl = [], index_definitions = []\<rparr>,
     wl_stream_properties = \<lparr>data_in_throughput_mbps = 0, data_out_throughput_mbps = 0\<rparr>,
     wl_volume = \<lparr>volume_type = [], max_memory_policy = [], package_type = [], encryption = \<lparr>algorithm = []\<rparr>\<rparr>\<rparr>"

definition WriteCatalog_new :: WriteCatalog where
  "WriteCatalog_new = \<lparr>wc_id = [], wc_hrn = [], wc_name = [], wc_summary = [], wc_description = [], wc_coverage = \<lparr>admin_areas = []\<rparr>,
     wc_owner = \<lparr>creator = \<lparr>creator_id = []\<rparr>, organisation = \<lparr>creator_id = []\<rparr>\<rparr>, wc_tags = [], wc_billing_tags = [], wc_created = [],
     wc_layers = [], wc_version = 0, wc_notifications = \<lparr>notifications_enabled = False\<rparr>\<rparr>"

record Details =
  details_state :: string
  details_message :: string
  details_started :: int
  details_modified :: int
  details_expires :: int

record VersionDependency =
  dep_direct :: bool
  dep_hrn :: string
  dep_version :: int

record Publication =
  pub_id :: "string option"
  pub_details :: "Details option"
  pub_layer_ids :: "string list option"
  pub_catalog_version :: "int option"
  pub_version_dependencies :: "VersionDependency list option"

definition Publication_new :: Publication where
  "Publication_new = \<lparr>pub_id = None, pub_details = None, pub_layer_ids = None, pub_catalog_version = None, pub_version_dependencies = None\<rparr>"

record PublishPartition =
  pp_partition :: "string option"
  pp_checksum :: "string option"
  pp_compressed_data_size :: "int option"
  pp_data_size :: "int option"
  pp_data :: "string option"
  pp_data_handle :: "string option"
  pp_timestamp :: "int option"

definition PublishPartition_new :: PublishPartition where
  "PublishPartition_new = \<lparr>pp_partition = None, pp_checksum = None, pp_compressed_data_size = None, pp_data_size = None,
     pp_data = None, pp_data_handle = None, pp_timestamp = None\<rparr>"

record PublishPartitions =
  pps_partitions :: "PublishPartition list option"

record TraceID =
  parent_id :: string
  generated_ids :: "string list"

record ResponseOk =
  rok_trace_id :: TraceID

record ResponseOkSingle =
  ros_trace_id :: string

datatype IndexType = IxString | IxInt | IxBool | IxHeretile | IxTimeWindow | IxUnsupported

datatype IndexValue =
    BooleanIndexValue bool IndexType
  | IntIndexValue int IndexType
  | StringIndexValue string IndexType
  | TimeWindowIndexValue int IndexType
  | HereTileIndexValue int IndexType
  | EmptyIndexValue IndexType
  | UnsupportedIndexValue IndexType

record WriteIndex =
  ix_checksum :: "string option"
  ix_metadata :: "(string \<times> string) list option"
  ix_size :: "int option"
  ix_id :: string
  ix_fields :: "(string \<times> IndexValue) list"

section \<open>Requests\<close>

record PublishDataRequest =
  pdr_data :: "string option"
  pdr_layer_id :: string
  pdr_trace_id :: "string option"
  pdr_billing_tag :: "string option"
  pdr_checksum :: "string option"

record PublishSdiiRequest =
  psr_sdii_message_list :: "string option"
  psr_layer_id :: string
  psr_trace_id :: "string option"
  psr_billing_tag :: "string option"
  psr_checksum :: "string option"

record PublishPartitionDataRequest =
  ppr_data :: "string option"
  ppr_layer_id :: string
  ppr_partition_id :: "string option"
  ppr_billing_tag :: "string option"
  ppr_checksum :: "string option"

record PublishIndexRequest =
  pir_data :: "string option"
  pir_layer_id :: string
  pir_billing_tag :: "string option"
  pir_checksum :: "string option"
  pir_index :: WriteIndex

record UpdateIndexRequest =
  uir_layer_id :: string
  uir_billing_tag :: "string option"
  uir_checksum :: "string option"
  uir_additions :: "WriteIndex list"
  uir_removals :: "string list"

record DeleteIndexDataRequest =
  dir_layer_id :: string
  dir_index_id :: string

record CheckDataExistsRequest =
  cde_layer_id :: string
  cde_data_handle :: string

record StartBatchRequest =
  sbr_layers :: "string list option"
  sbr_version_dependencies :: "VersionDependency list option"
  sbr_billing_tag :: "string option"

section \<open>Calls\<close>

text \<open>The generated parsers and serializers.\<close>

record write_codecs =
  wparse_Apis :: "string \<Rightarrow> Api list"
  wparse_Catalog :: "string \<Rightarrow> WriteCatalog"
  wparse_Publication :: "string \<Rightarrow> Publication"
  wparse_ResponseOk :: "string \<Rightarrow> ResponseOk"
  wparse_ResponseOkSingle :: "string \<Rightarrow> ResponseOkSingle"
  wparse_LayerVersions :: "string \<Rightarrow> LayerVersions"
  wparse_Partitions :: "string \<Rightarrow> Partitions"
  wparse_VersionResponse :: "string \<Rightarrow> VersionResponse"
  serialize_Publication :: "Publication \<Rightarrow> string"
  serialize_PublishPartitions :: "PublishPartitions \<Rightarrow> string"
  serialize_Index :: "WriteIndex \<Rightarrow> string"
  serialize_UpdateIndexRequest :: "UpdateIndexRequest \<Rightarrow> string"

text \<open>The arguments of \<open>CallApi\<close>; the form parameters are empty.\<close>

record WriteCall =
  wcall_client :: OlpClient
  wcall_path :: string
  wcall_method :: string
  wcall_query :: "(string \<times> string) list"
  wcall_headers :: "(string \<times> string) list"
  wcall_body :: "string option"
  wcall_content_type :: string

type_synonym 's write_server = "WriteCall \<Rightarrow> 's \<Rightarrow> HttpResponse \<times> 's"

text \<open>The world of a client: the environment, the calls that were made and the number of identifiers drawn.\<close>

record 's write_world =
  ww_env :: 's
  ww_calls :: "WriteCall list"
  ww_uuids :: nat

text \<open>
  What a client depends on: the network, the codecs, the identifiers (\<open>GenerateUuid\<close>), the catalog, the settings,
  and whether the caller has cancelled the request.
\<close>

record 's write_env =
  we_server :: "'s write_server"
  we_codecs :: write_codecs
  we_uuid :: "nat \<Rightarrow> string"
  we_catalog :: HRN
  we_settings :: OlpClientSettings
  we_cancelled :: "'s \<Rightarrow> bool"

definition CallApi_write :: "'s write_env \<Rightarrow> WriteCall \<Rightarrow> ('s, 'm) write_world_scheme \<Rightarrow> HttpResponse \<times> ('s, 'm) write_world_scheme" where
  "CallApi_write E call w =
     (let (r, s) = we_server E call (ww_env w) in (r, w\<lparr>ww_env := s, ww_calls := ww_calls w @ [call]\<rparr>))"

definition GenerateUuid :: "'s write_env \<Rightarrow> ('s, 'm) write_world_scheme \<Rightarrow> string \<times> ('s, 'm) write_world_scheme" where
  "GenerateUuid E w = (we_uuid E (ww_uuids w), w\<lparr>ww_uuids := ww_uuids w + 1\<rparr>)"

definition billing_params :: "string option \<Rightarrow> (string \<times> string) list" where
  "billing_params billing_tag = insert_opt ''billingTag'' billing_tag []"

definition no_result :: "(int \<Rightarrow> bool) \<Rightarrow> HttpResponse \<Rightarrow> unit ApiResponse" where
  "no_result success r = (if success (status r) then Inr () else Inl (ApiError_status (status r) (response r)))"

section \<open>The interface ingest\<close>

definition ingest_headers :: "string option \<Rightarrow> string option \<Rightarrow> (string \<times> string) list" where
  "ingest_headers trace_id csum = insert_opt ''X-HERE-Checksum'' csum (insert_opt ''X-HERE-TraceId'' trace_id accept_json)"

definition IngestData :: "'s write_env \<Rightarrow> OlpClient \<Rightarrow> string \<Rightarrow> string \<Rightarrow> string option \<Rightarrow> string option \<Rightarrow> string option \<Rightarrow> string option \<Rightarrow>
    ('s, 'm) write_world_scheme \<Rightarrow> ResponseOkSingle ApiResponse \<times> ('s, 'm) write_world_scheme" where
  "IngestData E client layer ctype data trace_id billing_tag csum w =
     (let (r, w1) = CallApi_write E \<lparr>wcall_client = client, wcall_path = ''/layers/'' @ layer, wcall_method = ''POST'',
            wcall_query = billing_params billing_tag, wcall_headers = ingest_headers trace_id csum, wcall_body = data,
            wcall_content_type = ctype\<rparr> w
      in (api_response (wparse_ResponseOkSingle (we_codecs E)) r, w1))"

definition IngestSDII :: "'s write_env \<Rightarrow> OlpClient \<Rightarrow> string \<Rightarrow> string option \<Rightarrow> string option \<Rightarrow> string option \<Rightarrow> string option \<Rightarrow>
    ('s, 'm) write_world_scheme \<Rightarrow> ResponseOk ApiResponse \<times> ('s, 'm) write_world_scheme" where
  "IngestSDII E client layer sdii_message_list trace_id billing_tag csum w =
     (let (r, w1) = CallApi_write E \<lparr>wcall_client = client, wcall_path = ''/layers/'' @ layer @ ''/sdiiMessageList'', wcall_method = ''POST'',
            wcall_query = billing_params billing_tag, wcall_headers = ingest_headers trace_id csum, wcall_body = sdii_message_list,
            wcall_content_type = ''application/x-protobuf''\<rparr> w
      in (api_response (wparse_ResponseOk (we_codecs E)) r, w1))"

section \<open>The interface publish\<close>

definition InitPublication :: "'s write_env \<Rightarrow> OlpClient \<Rightarrow> Publication \<Rightarrow> string option \<Rightarrow>
    ('s, 'm) write_world_scheme \<Rightarrow> Publication ApiResponse \<times> ('s, 'm) write_world_scheme" where
  "InitPublication E client publication billing_tag w =
     (let (r, w1) = CallApi_write E \<lparr>wcall_client = client, wcall_path = ''/publications'', wcall_method = ''POST'',
            wcall_query = billing_params billing_tag, wcall_headers = accept_json,
            wcall_body = Some (serialize_Publication (we_codecs E) publication), wcall_content_type = ''application/json''\<rparr> w
      in (api_response (wparse_Publication (we_codecs E)) r, w1))"

definition UploadPartitions :: "'s write_env \<Rightarrow> OlpClient \<Rightarrow> PublishPartitions \<Rightarrow> string \<Rightarrow> string \<Rightarrow> string option \<Rightarrow>
    ('s, 'm) write_world_scheme \<Rightarrow> unit ApiResponse \<times> ('s, 'm) write_world_scheme" where
  "UploadPartitions E client publish_partitions publication_id layer billing_tag w =
     (let (r, w1) = CallApi_write E \<lparr>wcall_client = client,
            wcall_path = ''/layers/'' @ layer @ ''/publications/'' @ publication_id @ ''/partitions'', wcall_method = ''POST'',
            wcall_query = billing_params billing_tag, wcall_headers = accept_json,
            wcall_body = Some (serialize_PublishPartitions (we_codecs E) publish_partitions), wcall_content_type = ''application/json''\<rparr> w
      in (no_result (\<lambda>s. s = 204) r, w1))"

definition publication_call :: "OlpClient \<Rightarrow> string \<Rightarrow> string \<Rightarrow> string option \<Rightarrow> WriteCall" where
  "publication_call client method publication_id billing_tag =
     \<lparr>wcall_client = client, wcall_path = ''/publications/'' @ publication_id, wcall_method = method,
      wcall_query = billing_params billing_tag, wcall_headers = accept_json, wcall_body = None, wcall_content_type = ''application/json''\<rparr>"

definition SubmitPublication :: "'s write_env \<Rightarrow> OlpClient \<Rightarrow> string \<Rightarrow> string option \<Rightarrow>
    ('s, 'm) write_world_scheme \<Rightarrow> unit ApiResponse \<times> ('s, 'm) write_world_scheme" where
  "SubmitPublication E client publication_id billing_tag w =
     (let (r, w1) = CallApi_write E (publication_call client ''PUT'' publication_id billing_tag) w in (no_result (\<lambda>s. s = 204) r, w1))"

definition GetPublication :: "'s write_env \<Rightarrow> OlpClient \<Rightarrow> string \<Rightarrow> string option \<Rightarrow>
    ('s, 'm) write_world_scheme \<Rightarrow> Publication ApiResponse \<times> ('s, 'm) write_world_scheme" where
  "GetPublication E client publication_id billing_tag w =
     (let (r, w1) = CallApi_write E (publication_call client ''GET'' publication_id billing_tag) w
      in (api_response (wparse_Publication (we_codecs E)) r, w1))"

definition CancelPublication :: "'s write_env \<Rightarrow> OlpClient \<Rightarrow> string \<Rightarrow> string option \<Rightarrow>
    ('s, 'm) write_world_scheme \<Rightarrow> unit ApiResponse \<times> ('s, 'm) write_world_scheme" where
  "CancelPublication E client publication_id billing_tag w =
     (let (r, w1) = CallApi_write E (publication_call client ''DELETE'' publication_id billing_tag) w in (no_result (\<lambda>s. s = 204) r, w1))"

section \<open>The interface blob\<close>

definition PutBlob :: "'s write_env \<Rightarrow> OlpClient \<Rightarrow> string \<Rightarrow> string \<Rightarrow> string \<Rightarrow> string option \<Rightarrow> string option \<Rightarrow>
    ('s, 'm) write_world_scheme \<Rightarrow> unit ApiResponse \<times> ('s, 'm) write_world_scheme" where
  "PutBlob E client layer ctype handle data billing_tag w =
     (let (r, w1) = CallApi_write E \<lparr>wcall_client = client, wcall_path = ''/layers/'' @ layer @ ''/data/'' @ handle, wcall_method = ''PUT'',
            wcall_query = billing_params billing_tag, wcall_headers = accept_json, wcall_body = data, wcall_content_type = ctype\<rparr> w
      in (no_result (\<lambda>s. s = 200) r, w1))"

definition deleteBlob :: "'s write_env \<Rightarrow> OlpClient \<Rightarrow> string \<Rightarrow> string \<Rightarrow> string option \<Rightarrow>
    ('s, 'm) write_world_scheme \<Rightarrow> unit ApiResponse \<times> ('s, 'm) write_world_scheme" where
  "deleteBlob E client layer handle billing_tag w =
     (let (r, w1) = CallApi_write E \<lparr>wcall_client = client, wcall_path = ''/layers/'' @ layer @ ''/data/'' @ handle, wcall_method = ''DELETE'',
            wcall_query = billing_params billing_tag, wcall_headers = accept_json, wcall_body = None, wcall_content_type = []\<rparr> w
      in (no_result (\<lambda>s. s = 200 \<or> s = 202) r, w1))"

definition checkBlobExists :: "'s write_env \<Rightarrow> OlpClient \<Rightarrow> string \<Rightarrow> string \<Rightarrow> string option \<Rightarrow>
    ('s, 'm) write_world_scheme \<Rightarrow> int ApiResponse \<times> ('s, 'm) write_world_scheme" where
  "checkBlobExists E client layer handle billing_tag w =
     (let (r, w1) = CallApi_write E \<lparr>wcall_client = client, wcall_path = ''/layers/'' @ layer @ ''/data/'' @ handle, wcall_method = ''HEAD'',
            wcall_query = billing_params billing_tag, wcall_headers = accept_json, wcall_body = None, wcall_content_type = []\<rparr> w
      in (if status r = 200 \<or> status r = 404 then Inr (status r) else Inl (ApiError_status (status r) (response r)), w1))"

section \<open>The interface index\<close>

definition insertIndexes :: "'s write_env \<Rightarrow> OlpClient \<Rightarrow> WriteIndex \<Rightarrow> string \<Rightarrow> string option \<Rightarrow>
    ('s, 'm) write_world_scheme \<Rightarrow> unit ApiResponse \<times> ('s, 'm) write_world_scheme" where
  "insertIndexes E client indexes layer billing_tag w =
     (let (r, w1) = CallApi_write E \<lparr>wcall_client = client, wcall_path = ''/layers/'' @ layer, wcall_method = ''POST'',
            wcall_query = billing_params billing_tag, wcall_headers = accept_json,
            wcall_body = Some (serialize_Index (we_codecs E) indexes), wcall_content_type = ''application/json''\<rparr> w
      in (no_result (\<lambda>s. \<not> s > 201) r, w1))"

definition performUpdate :: "'s write_env \<Rightarrow> OlpClient \<Rightarrow> UpdateIndexRequest \<Rightarrow> string option \<Rightarrow>
    ('s, 'm) write_world_scheme \<Rightarrow> unit ApiResponse \<times> ('s, 'm) write_world_scheme" where
  "performUpdate E client request billing_tag w =
     (let (r, w1) = CallApi_write E \<lparr>wcall_client = client, wcall_path = ''/layers/'' @ uir_layer_id request, wcall_method = ''PUT'',
            wcall_query = billing_params billing_tag, wcall_headers = accept_json,
            wcall_body = Some (serialize_UpdateIndexRequest (we_codecs E) request), wcall_content_type = ''application/json''\<rparr> w
      in (no_result (\<lambda>s. \<not> s > 201) r, w1))"

section \<open>The interfaces config, metadata and query\<close>

definition get_call :: "OlpClient \<Rightarrow> string \<Rightarrow> (string \<times> string) list \<Rightarrow> (string \<times> string) list \<Rightarrow> WriteCall" where
  "get_call client path query headers =
     \<lparr>wcall_client = client, wcall_path = path, wcall_method = ''GET'', wcall_query = query, wcall_headers = headers, wcall_body = None,
      wcall_content_type = []\<rparr>"

definition Config_GetCatalog :: "'s write_env \<Rightarrow> OlpClient \<Rightarrow> string \<Rightarrow> string option \<Rightarrow>
    ('s, 'm) write_world_scheme \<Rightarrow> WriteCatalog ApiResponse \<times> ('s, 'm) write_world_scheme" where
  "Config_GetCatalog E client hrn billing_tag w =
     (let (r, w1) = CallApi_write E (get_call client (''/catalogs/'' @ hrn) (billing_params billing_tag) accept_json) w
      in (api_response (wparse_Catalog (we_codecs E)) r, w1))"

definition Metadata_GetLayerVersions :: "'s write_env \<Rightarrow> OlpClient \<Rightarrow> int \<Rightarrow> string option \<Rightarrow>
    ('s, 'm) write_world_scheme \<Rightarrow> LayerVersions ApiResponse \<times> ('s, 'm) write_world_scheme" where
  "Metadata_GetLayerVersions E client ver billing_tag w =
     (let query = insert_opt ''billingTag'' billing_tag (multimap_insert ''version'' (to_string_int ver) []);
          (r, w1) = CallApi_write E (get_call client ''/layerVersions'' query accept_json) w
      in (api_response (wparse_LayerVersions (we_codecs E)) r, w1))"

definition Metadata_GetPartitions :: "'s write_env \<Rightarrow> OlpClient \<Rightarrow> string \<Rightarrow> int option \<Rightarrow> string list option \<Rightarrow> string option \<Rightarrow> string option \<Rightarrow>
    ('s, 'm) write_world_scheme \<Rightarrow> (Partitions ApiResponse \<times> ('s, 'm) write_world_scheme) option" where
  "Metadata_GetPartitions E client layer ver additionalFields byte_range billing_tag w = do {
     fields \<leftarrow> (case additionalFields of None \<Rightarrow> Some None | Some fs \<Rightarrow> map_option Some (concatStringArray fs '',''));
     let query = insert_opt ''version'' (map_option to_string_int ver) (insert_opt ''billingTag'' billing_tag (insert_opt ''additionalFields'' fields []));
     let (r, w1) = CallApi_write E (get_call client (''/layers/'' @ layer @ ''/partitions'') query (insert_opt ''Range'' byte_range accept_json)) w;
     Some (api_response (wparse_Partitions (we_codecs E)) r, w1)
   }"

definition Metadata_GetLatestCatalogVersion :: "'s write_env \<Rightarrow> OlpClient \<Rightarrow> int \<Rightarrow> string option \<Rightarrow>
    ('s, 'm) write_world_scheme \<Rightarrow> VersionResponse ApiResponse \<times> ('s, 'm) write_world_scheme" where
  "Metadata_GetLatestCatalogVersion E client startVersion billing_tag w =
     (let query = insert_opt ''billingTag'' billing_tag (multimap_insert ''startVersion'' (to_string_int startVersion) []);
          (r, w1) = CallApi_write E (get_call client ''/versions/latest'' query accept_json) w
      in (api_response (wparse_VersionResponse (we_codecs E)) r, w1))"

definition Query_GetPartitionsById :: "'s write_env \<Rightarrow> OlpClient \<Rightarrow> string \<Rightarrow> string list \<Rightarrow> int option \<Rightarrow> string list option \<Rightarrow> string option \<Rightarrow>
    ('s, 'm) write_world_scheme \<Rightarrow> (Partitions ApiResponse \<times> ('s, 'm) write_world_scheme) option" where
  "Query_GetPartitionsById E client layer partitionIds ver additionalFields billing_tag w = do {
     ids \<leftarrow> concatStringArray partitionIds ''&partition='';
     fields \<leftarrow> (case additionalFields of None \<Rightarrow> Some None | Some fs \<Rightarrow> map_option Some (concatStringArray fs '',''));
     let query = insert_opt ''version'' (map_option to_string_int ver)
           (insert_opt ''billingTag'' billing_tag (insert_opt ''additionalFields'' fields (multimap_insert ''partition'' ids [])));
     let (r, w1) = CallApi_write E (get_call client (''/layers/'' @ layer @ ''/partitions'') query accept_json) w;
     Some (api_response (wparse_Partitions (we_codecs E)) r, w1)
   }"

section \<open>Lookup of an interface\<close>

definition Platform_GetApis :: "'s write_env \<Rightarrow> OlpClient \<Rightarrow> string \<Rightarrow> string \<Rightarrow>
    ('s, 'm) write_world_scheme \<Rightarrow> Api list ApiResponse \<times> ('s, 'm) write_world_scheme" where
  "Platform_GetApis E client srv_name srv_version w =
     (let (r, w1) = CallApi_write E (get_call client (''/platform/apis/'' @ srv_name @ ''/'' @ srv_version) [] accept_json) w
      in (api_response (wparse_Apis (we_codecs E)) r, w1))"

definition Resources_GetApis :: "'s write_env \<Rightarrow> OlpClient \<Rightarrow> string \<Rightarrow> string \<Rightarrow> string \<Rightarrow>
    ('s, 'm) write_world_scheme \<Rightarrow> Api list ApiResponse \<times> ('s, 'm) write_world_scheme" where
  "Resources_GetApis E client hrn srv_name srv_version w =
     (let (r, w1) = CallApi_write E (get_call client (''/resources/'' @ hrn @ ''/apis/'' @ srv_name @ ''/'' @ srv_version) [] accept_json) w
      in (api_response (wparse_Apis (we_codecs E)) r, w1))"

definition write_DatastoreServerUrl :: "string \<Rightarrow> string" where
  "write_DatastoreServerUrl part =
     (case map_of [(''here'', ''data.api.platform.here.com''), (''here-dev'', ''data.api.platform.in.here.com''),
                   (''here-cn'', ''data.api.platform.hereolp.cn''), (''here-cn-dev'', ''data.api.platform.in.hereolp.cn'')] part of
        Some server_url \<Rightarrow> ''https://api-lookup.'' @ server_url @ ''/lookup/v1''
      | None \<Rightarrow> [])"

text \<open>The client is shared with the callback; it is returned with its base address set.\<close>

definition Write_LookupApi :: "'s write_env \<Rightarrow> OlpClient \<Rightarrow> string \<Rightarrow> string \<Rightarrow>
    ('s, 'm) write_world_scheme \<Rightarrow> Api list ApiResponse \<times> OlpClient \<times> ('s, 'm) write_world_scheme" where
  "Write_LookupApi E client srv_name srv_version w =
     (let lookup_url = write_DatastoreServerUrl (hrn_partition (we_catalog E))
      in if lookup_url = [] then (Inl (ApiError_code ErrNotFound ''Invalid or broken HRN'' False), client, w)
         else let client = SetBaseUrl lookup_url client;
                  (r, w1) = (if srv_name = ''config'' then Platform_GetApis E client srv_name srv_version w
                             else Resources_GetApis E client (ToCatalogHRNString (we_catalog E)) srv_name srv_version w)
              in (r, client, w1))"

definition Write_LookupApiClient :: "'s write_env \<Rightarrow> OlpClient \<Rightarrow> string \<Rightarrow> string \<Rightarrow>
    ('s, 'm) write_world_scheme \<Rightarrow> OlpClient ApiResponse \<times> OlpClient \<times> ('s, 'm) write_world_scheme" where
  "Write_LookupApiClient E client srv_name srv_version w =
     (let (r, client, w1) = Write_LookupApi E client srv_name srv_version w
      in case r of
           Inl e \<Rightarrow> (Inl e, client, w1)
         | Inr apis \<Rightarrow>
             (if length apis < 1
              then (Inl (ApiError_code ErrServiceUnavailable ''Service/Version not available for given HRN'' False), client, w1)
              else let c = SetBaseUrl (api_base_url (apis ! 0)) client in (Inr c, c, w1)))"

section \<open>Lemmas\<close>

text \<open>A client passes its own environment to the calls without the parts only it has.\<close>

lemma truncate_simps [simp]:
  "we_server (write_env.truncate E) = we_server E" "we_codecs (write_env.truncate E) = we_codecs E" "we_uuid (write_env.truncate E) = we_uuid E"
  "we_catalog (write_env.truncate E) = we_catalog E" "we_settings (write_env.truncate E) = we_settings E"
  by (simp_all add: write_env.defs)

section \<open>Examples\<close>

text \<open>A service that finds one interface and one catalog with the layer \<open>l\<close>.\<close>

definition example_codecs :: write_codecs where
  "example_codecs = \<lparr>wparse_Apis = \<lambda>_. [\<lparr>api_name = ''n'', api_version = ''v'', api_base_url = ''u'', api_parameters = []\<rparr>],
     wparse_Catalog = \<lambda>_. WriteCatalog_new\<lparr>wc_id := ''c'', wc_layers := [WriteLayer_new\<lparr>wl_id := ''l'', wl_content_type := ''t''\<rparr>]\<rparr>,
     wparse_Publication = \<lambda>_. Publication_new\<lparr>pub_id := Some ''p''\<rparr>,
     wparse_ResponseOk = \<lambda>s. \<lparr>rok_trace_id = \<lparr>parent_id = s, generated_ids = []\<rparr>\<rparr>, wparse_ResponseOkSingle = \<lambda>s. \<lparr>ros_trace_id = s\<rparr>,
     wparse_LayerVersions = \<lambda>_. \<lparr>layer_versions = [], lvs_version = 0\<rparr>, wparse_Partitions = \<lambda>_. \<lparr>partitions = []\<rparr>,
     wparse_VersionResponse = \<lambda>_. \<lparr>vr_version = 0\<rparr>, serialize_Publication = \<lambda>_. ''pub'', serialize_PublishPartitions = \<lambda>_. ''parts'',
     serialize_Index = \<lambda>_. ''index'', serialize_UpdateIndexRequest = \<lambda>_. ''update''\<rparr>"

definition example_client :: OlpClient where
  "example_client = OlpClient_new\<lparr>base_url := ''u''\<rparr>"

end
