(* ===== verification/Write_Queue.thy ===== *)
theory Write_Queue
  imports Prelude
begin

text \<open>
  Component dataservice-write: the classes the layer clients queue, flush and cancel with: \<open>ThreadSafeQueue\<close>,
  \<open>PartitionTimestampQueue\<close>, \<open>TimeUtils\<close>, \<open>CancellationTokenList\<close>, \<open>BackgroundTaskCollection\<close> and
  \<open>DefaultFlushEventListener\<close> (under \<open>olp-cpp-sdk-dataservice-write\<close>).

  Every operation holds the mutex of its object, so it is one function of the object's contents; the vectors are
  lists. A token of the list is called without the mutex and may change the list, so it is a function on it, and
  \<open>CancelAll\<close>, which goes on until the list is empty, is a partial function: \<open>None\<close> is a loop that does not end.

  Shown: a bounded queue holds the last or the first elements pushed; the sorted list of tokens is a finite map;
  \<open>CancelAll\<close> ends and calls each token once, whether or not its callback removes the task; the delay of a flush
  ends at the end of the hour, the day or the week.
\<close>

section \<open>The bounded queue\<close>

text \<open>\<open>std::rotate\<close> from the beginning of a vector: the rotated vector and the position of its old first element.\<close>

definition std_rotate :: "nat \<Rightarrow> 'a list \<Rightarrow> 'a list \<times> nat" where
  "std_rotate middle v = (drop middle v @ take middle v, length v - middle)"

text \<open>\<open>erase(std::rotate(begin, begin + middle, end), end)\<close>.\<close>

definition erase_rotated :: "nat \<Rightarrow> 'a list \<Rightarrow> 'a list" where
  "erase_rotated middle v = (let (v', pos) = std_rotate middle v in take pos v')"

definition queue_push :: "'a \<Rightarrow> 'a list \<Rightarrow> 'a list" where
  "queue_push val m_vec = m_vec @ [val]"

definition queue_push_copy :: "'a \<Rightarrow> nat \<Rightarrow> bool \<Rightarrow> 'a list \<Rightarrow> 'a list" where
  "queue_push_copy val maxSize bOverwrite m_vec =
     (if maxSize = 0 then []
      else if length m_vec \<ge> maxSize
      then if bOverwrite then erase_rotated (length m_vec - maxSize + 1) m_vec @ [val] else m_vec
      else m_vec @ [val])"

definition queue_push_move :: "'a \<Rightarrow> nat \<Rightarrow> bool \<Rightarrow> 'a list \<Rightarrow> 'a list" where
  "queue_push_move val maxSize bOverwrite m_vec =
     (if maxSize = 0 then (if bOverwrite then [] else m_vec)
      else if length m_vec \<ge> maxSize
      then if bOverwrite then erase_rotated (length m_vec - maxSize + 1) m_vec @ [val] else m_vec
      else m_vec @ [val])"

definition queue_emplace_count :: "nat \<Rightarrow> 'a \<Rightarrow> 'a list \<Rightarrow> 'a list" where
  "queue_emplace_count num val m_vec = m_vec @ replicate num val"

definition queue_pop :: "'a list \<Rightarrow> 'a list" where
  "queue_pop m_vec = (if m_vec \<noteq> [] then erase_rotated 1 m_vec else m_vec)"

definition queue_pop_num :: "nat \<Rightarrow> 'a list \<Rightarrow> bool \<times> 'a list" where
  "queue_pop_num num m_vec = (if num \<noteq> 0 \<and> length m_vec \<ge> num then (True, drop num m_vec) else (False, m_vec))"

definition queue_swap :: "'a list \<Rightarrow> 'a list \<Rightarrow> 'a list \<times> 'a list" where
  "queue_swap m_vec x = (x, m_vec)"

text \<open>\<open>top\<close> gives the default value beyond the end; \<open>front\<close> and \<open>back\<close> of an empty queue are undefined.\<close>

definition queue_top :: "'a \<Rightarrow> nat \<Rightarrow> 'a list \<Rightarrow> 'a" where
  "queue_top dflt offset m_vec = (if length m_vec \<le> offset then dflt else m_vec ! offset)"

definition queue_front :: "'a list \<Rightarrow> 'a option" where
  "queue_front m_vec = (if m_vec = [] then None else Some (hd m_vec))"

definition queue_back :: "'a list \<Rightarrow> 'a option" where
  "queue_back m_vec = (if m_vec = [] then None else Some (last m_vec))"

definition queue_try_pop :: "'a list \<Rightarrow> 'a option \<times> 'a list" where
  "queue_try_pop m_vec = (if m_vec \<noteq> [] then (Some (hd m_vec), erase_rotated 1 m_vec) else (None, m_vec))"

section \<open>Timestamps of queued partitions\<close>

text \<open>Times in milliseconds; the default time point is 0.\<close>

definition CalculateTimeSinceOldestPartition :: "int \<Rightarrow> int list \<Rightarrow> int" where
  "CalculateTimeSinceOldestPartition now queue =
     (let top_timestamp = queue_top 0 0 queue in if top_timestamp = 0 then 0 else now - top_timestamp)"

definition PushPartitionTimestamps :: "int \<Rightarrow> int list \<Rightarrow> nat \<Rightarrow> int list" where
  "PushPartitionTimestamps now queue n = queue_emplace_count n now queue"

section \<open>Delays\<close>

definition getSecondsToNextHour :: "int \<Rightarrow> int \<Rightarrow> int" where
  "getSecondsToNextHour tm_min tm_sec = 60 - tm_sec + 60 * (59 - tm_min)"

definition getSecondsToNextDay :: "int \<Rightarrow> int \<Rightarrow> int \<Rightarrow> int" where
  "getSecondsToNextDay tm_hour tm_min tm_sec = getSecondsToNextHour tm_min tm_sec + 3600 * (23 - tm_hour)"

definition getSecondsToNextWeek :: "int \<Rightarrow> int \<Rightarrow> int \<Rightarrow> int \<Rightarrow> int" where
  "getSecondsToNextWeek tm_wday tm_hour tm_min tm_sec = getSecondsToNextDay tm_hour tm_min tm_sec + 86400 * (6 - tm_wday)"

datatype TimePeriod = Hourly | Daily | Weekly

text \<open>The broken-down time that \<open>localtime\<close> gives; \<open>tm_wday\<close> counts from Sunday.\<close>

record broken_time =
  tm_wday :: int
  tm_hour :: int
  tm_min :: int
  tm_sec :: int

definition getDelayTillPeriod :: "TimePeriod \<Rightarrow> broken_time \<Rightarrow> int" where
  "getDelayTillPeriod period t = 1000 *
     (case period of
        Weekly \<Rightarrow> getSecondsToNextWeek (tm_wday t) (tm_hour t) (tm_min t) (tm_sec t)
      | Daily \<Rightarrow> getSecondsToNextDay (tm_hour t) (tm_min t) (tm_sec t)
      | Hourly \<Rightarrow> getSecondsToNextHour (tm_min t) (tm_sec t))"

section \<open>Tokens of tasks\<close>

text \<open>\<open>std::upper_bound\<close> and \<open>std::lower_bound\<close> on a list sorted by id.\<close>

definition AddTask :: "int \<Rightarrow> 't \<Rightarrow> (int \<times> 't) list \<Rightarrow> (int \<times> 't) list" where
  "AddTask i token tokenList =
     takeWhile (\<lambda>t. \<not> i < fst t) tokenList @ (i, token) # dropWhile (\<lambda>t. \<not> i < fst t) tokenList"

definition RemoveTask :: "int \<Rightarrow> (int \<times> 't) list \<Rightarrow> (int \<times> 't) list" where
  "RemoveTask i tokenList =
     (case dropWhile (\<lambda>t. fst t < i) tokenList of
        [] \<Rightarrow> tokenList
      | t # ts \<Rightarrow> if fst t \<noteq> i then tokenList
                  else let (rotated, pos) = std_rotate 1 (t # ts)
                       in takeWhile (\<lambda>t. fst t < i) tokenList @ take pos rotated @ drop (Suc pos) rotated)"

definition GetTaskIdList :: "(int \<times> 't) list \<Rightarrow> int list" where
  "GetTaskIdList tokenList = map fst tokenList"

text \<open>Calling a token may change the list and the rest of the world.\<close>

type_synonym ('t, 'w) cancel = "'t \<Rightarrow> (int \<times> 't) list \<times> 'w \<Rightarrow> (int \<times> 't) list \<times> 'w"

definition cancel_task :: "('t, 'w) cancel \<Rightarrow> int \<Rightarrow> (int \<times> 't) list \<times> 'w \<Rightarrow> (int \<times> 't) list \<times> 'w" where
  "cancel_task cancel i s =
     (case dropWhile (\<lambda>t. fst t < i) (fst s) of
        [] \<Rightarrow> s
      | t # _ \<Rightarrow> if fst t \<noteq> i then s else cancel (snd t) s)"

definition CancelAll_round :: "('t, 'w) cancel \<Rightarrow> (int \<times> 't) list \<times> 'w \<Rightarrow> (int \<times> 't) list \<times> 'w" where
  "CancelAll_round cancel s =
     (let idList = GetTaskIdList (fst s); (tokenList, w) = fold (cancel_task cancel) idList s
      in (filter (\<lambda>t. case dropWhile (\<lambda>i. i < fst t) idList of [] \<Rightarrow> True | i # _ \<Rightarrow> fst t \<noteq> i) tokenList, w))"

partial_function (option) CancelAll :: "('t, 'w) cancel \<Rightarrow> (int \<times> 't) list \<times> 'w \<Rightarrow> ((int \<times> 't) list \<times> 'w) option" where
  "CancelAll cancel s = (if GetTaskIdList (fst s) = [] then Some s else CancelAll cancel (CancelAll_round cancel s))"

section \<open>Background tasks\<close>

record BackgroundTaskCollection =
  task_id :: size_t
  background_tasks_ids :: "size_t list"

definition BackgroundTask_AddTask :: "BackgroundTaskCollection \<Rightarrow> size_t \<times> BackgroundTaskCollection" where
  "BackgroundTask_AddTask c =
     (let myId = task_id c in (myId, c\<lparr>task_id := myId + 1, background_tasks_ids := background_tasks_ids c @ [myId]\<rparr>))"

definition BackgroundTask_ReleaseTask :: "size_t \<Rightarrow> BackgroundTaskCollection \<Rightarrow> BackgroundTaskCollection" where
  "BackgroundTask_ReleaseTask i c = c\<lparr>background_tasks_ids := filter (\<lambda>taskId. taskId \<noteq> i) (background_tasks_ids c)\<rparr>"

definition BackgroundTask_Size :: "BackgroundTaskCollection \<Rightarrow> nat" where
  "BackgroundTask_Size c = length (background_tasks_ids c)"

text \<open>Whether a thread that waits for the completion of the tasks goes on.\<close>

definition BackgroundTask_Completed :: "BackgroundTaskCollection \<Rightarrow> bool" where
  "BackgroundTask_Completed c \<longleftrightarrow> background_tasks_ids c = []"

section \<open>The listener of flush events\<close>

record DefaultFlushEventListener =
  num_flush_events_attempted :: size_t
  num_flush_events_failed :: size_t
  num_flush_events :: size_t
  total_flush_requests :: size_t
  num_flush_requests_failed :: size_t

definition NotifyFlushEventStarted :: "DefaultFlushEventListener \<Rightarrow> DefaultFlushEventListener" where
  "NotifyFlushEventStarted l = l\<lparr>num_flush_events_attempted := num_flush_events_attempted l + 1\<rparr>"

text \<open>A result is whether its request was successful.\<close>

definition CollateFlushEventResults :: "bool list \<Rightarrow> DefaultFlushEventListener \<Rightarrow> bool \<times> DefaultFlushEventListener" where
  "CollateFlushEventResults results l =
     (let failed = length (filter (\<lambda>successful. \<not> successful) results)
      in (failed > 0, l\<lparr>total_flush_requests := total_flush_requests l + of_nat (length results),
            num_flush_requests_failed := num_flush_requests_failed l + of_nat failed\<rparr>))"

definition NotifyFlushEventResults :: "bool list \<Rightarrow> DefaultFlushEventListener \<Rightarrow> DefaultFlushEventListener" where
  "NotifyFlushEventResults results l =
     (let l1 = l\<lparr>num_flush_events := num_flush_events l + 1\<rparr>
      in if results = [] then l1\<lparr>num_flush_events_failed := num_flush_events_failed l1 + 1\<rparr>
         else let (failed, l2) = CollateFlushEventResults results l1
              in if failed then l2\<lparr>num_flush_events_failed := num_flush_events_failed l2 + 1\<rparr> else l2)"

section \<open>Lemmas\<close>

lemma erase_rotated_eq [simp]: "middle \<le> length v \<Longrightarrow> erase_rotated middle v = drop middle v"
  by (simp add: erase_rotated_def std_rotate_def)

lemma push_copy_eq:
  "0 < n \<Longrightarrow> queue_push_copy x n True v = drop (Suc (length v) - n) (v @ [x])"
  "0 < n \<Longrightarrow> queue_push_copy x n False v = (if length v < n then v @ [x] else v)"
  by (auto simp: queue_push_copy_def Suc_diff_le)

lemma push_overloads: "0 < n \<Longrightarrow> queue_push_move x n b v = queue_push_copy x n b v"
  by (simp add: queue_push_copy_def queue_push_move_def)

lemma push_overwrite_window:
  assumes "0 < n"
  shows "fold (\<lambda>x. queue_push_copy x n True) xs v = (if xs = [] then v else drop (length v + length xs - n) (v @ xs))"
proof (induction xs rule: rev_induct)
  case (snoc x xs)
  have w: "drop (Suc (length (drop (length ys - n) ys)) - n) (drop (length ys - n) ys @ [x]) = drop (Suc (length ys) - n) (ys @ [x])" for ys
    using assms by (cases "length ys < n") (simp_all add: Suc_diff_le)
  show ?case using snoc assms w [of "v @ xs"] by (cases "xs = []") (simp_all add: push_copy_eq(1))
qed simp

lemma push_keep_window: "0 < n \<Longrightarrow> length v \<le> n \<Longrightarrow> fold (\<lambda>x. queue_push_copy x n False) xs v = take n (v @ xs)"
  by (induction xs arbitrary: v) (auto simp: push_copy_eq(2) take_Cons')

section \<open>The list of tokens\<close>

definition tokens_ok :: "(int \<times> 't) list \<Rightarrow> bool" where
  "tokens_ok l \<longleftrightarrow> sorted (map fst l) \<and> distinct (map fst l)"

lemma tokens_ok_Cons: "tokens_ok (t # l) \<longleftrightarrow> tokens_ok l \<and> (\<forall>u \<in> set l. fst t < fst u)"
  by (auto simp: tokens_ok_def le_less image_iff)

lemma tokens_ok_filter: "tokens_ok l \<Longrightarrow> tokens_ok (filter P l)"
  by (induction l) (auto simp: tokens_ok_Cons)

lemma lookup_eq: "tokens_ok l \<Longrightarrow> (case dropWhile (\<lambda>t. fst t < i) l of [] \<Rightarrow> None | t # _ \<Rightarrow> if fst t \<noteq> i then None else Some (snd t)) = map_of l i"
proof (induction l)
  case (Cons t l)
  have "map_of l i = None" if "i < fst t" using Cons.prems that by (fastforce simp: tokens_ok_Cons map_of_eq_None_iff)
  with Cons show ?case by (cases "fst t < i"; cases "i = fst t") (auto simp: tokens_ok_Cons)
qed simp

lemma RemoveTask_eq: "tokens_ok l \<Longrightarrow> RemoveTask i l = filter (\<lambda>t. fst t \<noteq> i) l"
proof (induction l)
  case (Cons t l)
  then have ok: "tokens_ok l" "\<And>u. u \<in> set l \<Longrightarrow> fst t < fst u" by (auto simp: tokens_ok_Cons)
  show ?case
  proof (cases "fst t < i")
    case True
    then have "RemoveTask i (t # l) = t # RemoveTask i l"
      by (cases "dropWhile (\<lambda>t. fst t < i) l") (simp_all add: RemoveTask_def std_rotate_def del: dropWhile_eq_Nil_conv)
    then show ?thesis using Cons.IH [OF ok(1)] True by simp
  next
    case False
    then have "filter (\<lambda>t. fst t \<noteq> i) l = l" using ok(2) by (fastforce simp: filter_id_conv)
    then show ?thesis using False by (simp add: RemoveTask_def std_rotate_def)
  qed
qed (simp add: RemoveTask_def)

lemma AddTask_set: "set (AddTask i t l) = insert (i, t) (set l)"
proof -
  have "set (takeWhile P l) \<union> set (dropWhile P l) = set l" for P by (metis set_append takeWhile_dropWhile_id)
  then show ?thesis by (auto simp: AddTask_def)
qed

lemma AddTask_ok: "tokens_ok l \<Longrightarrow> i \<notin> fst ` set l \<Longrightarrow> tokens_ok (AddTask i t l) \<and> map_of (AddTask i t l) = (map_of l)(i \<mapsto> t)"
proof (induction l)
  case (Cons u l)
  then have ok: "tokens_ok l" "\<And>v. v \<in> set l \<Longrightarrow> fst u < fst v" "i \<noteq> fst u" by (auto simp: tokens_ok_Cons)
  show ?case
  proof (cases "i < fst u")
    case True
    then show ?thesis using Cons.prems(1) ok by (force simp: AddTask_def tokens_ok_Cons)
  next
    case False
    then have "AddTask i t (u # l) = u # AddTask i t l" by (simp add: AddTask_def)
    then show ?thesis using Cons ok False by (auto simp: tokens_ok_Cons fun_upd_twist AddTask_set)
  qed
qed (simp add: AddTask_def tokens_ok_def)

lemma map_of_filter_neq: "map_of (filter (\<lambda>t. fst t \<noteq> i) l) = (map_of l)(i := None)"
  by (induction l) (auto simp: fun_eq_iff)

text \<open>Tokens whose callbacks remove their task at once, or later.\<close>

definition cancel_id :: "(int \<Rightarrow> bool) \<Rightarrow> (int, int list) cancel" where
  "cancel_id now i s = (if now i then RemoveTask i (fst s) else fst s, snd s @ [i])"

lemma cancel_task_id:
  assumes "tokens_ok l" "map_of l i = Some i"
  shows "cancel_task (cancel_id now) i (l, w) = (if now i then filter (\<lambda>t. fst t \<noteq> i) l else l, w @ [i])"
proof -
  obtain t ts where "dropWhile (\<lambda>t. fst t < i) l = t # ts" "fst t = i" "snd t = i"
    using lookup_eq [OF assms(1), of i] assms(2) by (cases "dropWhile (\<lambda>t. fst t < i) l") (auto split: if_splits)
  then show ?thesis using assms(1) by (simp add: cancel_task_def cancel_id_def RemoveTask_eq)
qed

lemma fold_cancel_id:
  assumes "tokens_ok l" "distinct is" "\<And>i. i \<in> set is \<Longrightarrow> map_of l i = Some i"
  shows "fold (cancel_task (cancel_id now)) is (l, w) = (filter (\<lambda>t. \<not> (fst t \<in> set is \<and> now (fst t))) l, w @ is)"
  using assms
proof (induction "is" arbitrary: l w)
  case (Cons i "is")
  let ?l = "if now i then filter (\<lambda>t. fst t \<noteq> i) l else l"
  have "map_of ?l j = Some j" if "j \<in> set is" for j
    using Cons.prems that by (auto simp: map_of_filter_neq)
  moreover have "tokens_ok ?l" using Cons.prems(1) by (simp add: tokens_ok_filter)
  ultimately have "fold (cancel_task (cancel_id now)) is (?l, w @ [i]) = (filter (\<lambda>t. \<not> (fst t \<in> set is \<and> now (fst t))) ?l, w @ [i] @ is)"
    using Cons.IH [of ?l "w @ [i]"] Cons.prems(2) by simp
  then show ?case using cancel_task_id [OF Cons.prems(1), of i now w] Cons.prems
    by (auto intro: filter_cong)
qed simp

lemma tokens_listed: "tokens_ok l \<Longrightarrow> (\<forall>t \<in> set l. snd t = fst t) \<Longrightarrow> i \<in> set (GetTaskIdList l) \<Longrightarrow> map_of l i = Some i"
  by (auto simp: GetTaskIdList_def tokens_ok_def)

lemma CancelAll_round_id:
  assumes "tokens_ok l" "\<forall>t \<in> set l. snd t = fst t"
  shows "CancelAll_round (cancel_id now) (l, w) = ([], w @ map fst l)"
proof -
  have ids: "distinct (GetTaskIdList l)" "sorted (GetTaskIdList l)" using assms(1) by (simp_all add: GetTaskIdList_def tokens_ok_def)
  have "dropWhile (\<lambda>j. j < i) js \<noteq> [] \<and> hd (dropWhile (\<lambda>j. j < i) js) = i" if "i \<in> set js" "sorted js" for i :: int and js
    using that by (induction js) auto
  from this [OF _ ids(2)]
  have "(case dropWhile (\<lambda>j. j < fst t) (GetTaskIdList l) of [] \<Rightarrow> True | j # _ \<Rightarrow> fst t \<noteq> j) = False" if "t \<in> set l" for t
    using that by (cases "dropWhile (\<lambda>j. j < fst t) (GetTaskIdList l)") (force simp: GetTaskIdList_def)+
  then show ?thesis
    using fold_cancel_id [OF assms(1) ids(1) tokens_listed [OF assms], of now w]
    by (auto simp: CancelAll_round_def Let_def filter_empty_conv GetTaskIdList_def)
qed

section \<open>Properties\<close>

text \<open>
  A queue filled with overwriting holds the last elements pushed, at most its maximal size, and one filled without
  overwriting the first; both overloads of push agree.
\<close>

theorem bounded_queue_window:
  assumes "0 < maxSize"
  shows "fold (\<lambda>x. queue_push_copy x maxSize True) xs [] = drop (length xs - maxSize) xs \<and>
    fold (\<lambda>x. queue_push_copy x maxSize False) xs [] = take maxSize xs \<and>
    queue_push_move x maxSize b q = queue_push_copy x maxSize b q"
  using push_overwrite_window [OF assms, of xs "[]"] push_keep_window [OF assms, of "[]" xs] push_overloads [OF assms] by simp

theorem bounded_queue_window_witness:
  "fold (\<lambda>x. queue_push_copy x 2 True) [1, 2, 3 :: int] [] = [2, 3] \<and> fold (\<lambda>x. queue_push_copy x 2 False) [1, 2, 3 :: int] [] = [1, 2]"
  using bounded_queue_window [of 2 "[1, 2, 3 :: int]" 0 True "[] :: int list"] by (simp add: queue_push_copy_def queue_push_move_def)

text \<open>
  CancelAll ends: it calls every token of the list once, in the order of the ids, and empties the list, whether the
  callback of a token removes its task during the call or not.
\<close>

theorem token_list_cancels_all:
  assumes "tokens_ok tokenList" "\<forall>t \<in> set tokenList. snd t = fst t"
  shows "CancelAll (cancel_id now) (tokenList, []) = Some ([], map fst tokenList)"
  using CancelAll_round_id [OF assms, of now "[]"]
  by (cases "tokenList = []") (simp_all add: CancelAll.simps [of _ "(tokenList, [])"] CancelAll.simps [of _ "([], _)"] GetTaskIdList_def)

theorem token_list_cancels_all_witness:
  "CancelAll (cancel_id (\<lambda>i. i = 2)) ([(1, 1), (2, 2), (5, 5)], []) = Some ([], [1, 2, 5])"
  using token_list_cancels_all [of "[(1, 1), (2, 2), (5, 5)]" "\<lambda>i. i = 2"] by (simp add: tokens_ok_def)

text \<open>
  The list of tokens stays sorted by distinct ids and implements the map from ids to tokens: adding a task updates
  it, removing a task deletes its id only.
\<close>

theorem token_list_refines_map:
  assumes "tokens_ok tokenList" "i \<notin> fst ` set tokenList"
  shows "tokens_ok (AddTask i token tokenList) \<and> map_of (AddTask i token tokenList) = (map_of tokenList)(i \<mapsto> token) \<and>
    tokens_ok (RemoveTask j tokenList) \<and> map_of (RemoveTask j tokenList) = (map_of tokenList)(j := None)"
  using AddTask_ok [OF assms] assms(1) by (simp add: RemoveTask_eq tokens_ok_filter map_of_filter_neq)

theorem token_list_refines_map_witness:
  "map_of (AddTask 4 ''d'' [(1, ''a''), (5, ''b'')]) 4 = Some ''d'' \<and> map_of (RemoveTask 1 [(1, ''a''), (5, ''b'')]) 1 = None"
  using token_list_refines_map [of "[(1, ''a''), (5, ''b'')]" 4 "''d''" 1] by (simp add: tokens_ok_def)

text \<open>
  The delay of a flush runs to the end of the hour, of the day or of the week that begins on Sunday, and is never zero.
\<close>

theorem flush_period_delay:
  assumes "0 \<le> tm_sec t" "tm_sec t < 60" "0 \<le> tm_min t" "tm_min t < 60" "0 \<le> tm_hour t" "tm_hour t < 24" "0 \<le> tm_wday t" "tm_wday t < 7"
  shows "let hour = 60 * tm_min t + tm_sec t; day = 3600 * tm_hour t + hour; week = 86400 * tm_wday t + day in
    (case p of Hourly \<Rightarrow> 1000 * hour + getDelayTillPeriod p t = 1000 * 3600
     | Daily \<Rightarrow> 1000 * day + getDelayTillPeriod p t = 1000 * 86400
     | Weekly \<Rightarrow> 1000 * week + getDelayTillPeriod p t = 1000 * 604800) \<and> 0 < getDelayTillPeriod p t"
  using assms
  by (cases p) (simp_all add: getDelayTillPeriod_def getSecondsToNextHour_def getSecondsToNextDay_def getSecondsToNextWeek_def)

theorem flush_period_delay_witness:
  "getDelayTillPeriod Weekly \<lparr>tm_wday = 6, tm_hour = 23, tm_min = 59, tm_sec = 1\<rparr> = 59000"
  using flush_period_delay [of "\<lparr>tm_wday = 6, tm_hour = 23, tm_min = 59, tm_sec = 1\<rparr>" Weekly] by (simp add: Let_def)

end
