(* ===== verification/Stream_Layer.thy ===== *)
theory Stream_Layer
  imports Write_Apis Cache_Repositories Write_Queue
begin

text \<open>
  Component dataservice-write: the client of a stream layer (\<open>StreamLayerClientImpl.cpp\<close>).

  The members of the client and the world it works in are one record. A request is a function from the world to the
  response its callback gets and the new world; the callbacks of the calls are run at once. The caller may cancel the
  request during any call: whether it did is read from the environment wherever the code calls \<open>ExecuteOrCancelled\<close>,
  and the token then also releases the lock of the initialisation. The first \<open>ExecuteOrCancelled\<close> of a request runs
  with a context that no token refers to yet, so it executes. \<open>None\<close> is an exception, undefined behaviour, a thread that
  waits for a lock no other thread holds, or a loop that does not end.

  Shown: every request is answered and leaves the lock free; the four calls of a large publication are made in order,
  each after the one before succeeded; a failed lookup makes the client take itself for initialised.
\<close>

section \<open>The state of the client\<close>

record FlushSettings =
  auto_flush_num_events :: int
  auto_flush_interval :: int
  auto_flush_time_period :: "TimePeriod option"
  auto_flush_old_events_force_flush_interval :: int
  events_per_single_flush :: "int option"
  maximum_requests :: "size_t option"

text \<open>What the client keeps in the cache, and the operations of the cache it calls.\<close>

datatype stream_value = SRequest PublishDataRequest | SString string

record 'c stream_cache =
  st_Put :: "string \<Rightarrow> stream_value \<Rightarrow> string \<Rightarrow> 'c \<Rightarrow> (bool \<times> 'c) option"
  st_Get :: "string \<Rightarrow> (string \<Rightarrow> stream_value any) \<Rightarrow> 'c \<Rightarrow> (stream_value any \<times> 'c) option"
  st_Remove :: "string \<Rightarrow> 'c \<Rightarrow> (bool \<times> 'c) option"

record ('c, 's) stream_env = "'s write_env" +
  se_cache :: "'c stream_cache"
  se_flush_settings :: FlushSettings
  se_serialize :: "PublishDataRequest \<Rightarrow> string"
  se_parse :: "string \<Rightarrow> PublishDataRequest"

text \<open>What the client tells its flush controller.\<close>

datatype flush_event = QueueEventStart | QueueEventComplete | FlushEvent

text \<open>The members of \<open>StreamLayerClientImpl\<close>, and the requests a flush has handed to \<open>PublishData\<close>.\<close>

record ('c, 's) stream_world = "'s write_world" +
  apiclient_config :: "OlpClient option"
  apiclient_ingest :: "OlpClient option"
  apiclient_blob :: "OlpClient option"
  apiclient_publish :: "OlpClient option"
  catalog_model :: WriteCatalog
  init_inprogress :: bool
  sw_cache :: "'c option"
  sw_events :: "flush_event list"
  sw_published :: "PublishDataRequest list"

definition StreamLayerClientImpl_new :: "'c option \<Rightarrow> 's \<Rightarrow> ('c, 's) stream_world" where
  "StreamLayerClientImpl_new cache_ptr env =
     \<lparr>ww_env = env, ww_calls = [], ww_uuids = 0, apiclient_config = None, apiclient_ingest = None, apiclient_blob = None, apiclient_publish = None,
      catalog_model = WriteCatalog_new, init_inprogress = False, sw_cache = cache_ptr, sw_events = [], sw_published = []\<rparr>"

type_synonym ('c, 's, 'r) stream_answer = "('r \<times> ('c, 's) stream_world) option"

definition stream_cancelled :: "('c, 's) stream_env \<Rightarrow> ('c, 's) stream_world \<Rightarrow> bool" where
  "stream_cancelled E w \<longleftrightarrow> we_cancelled E (ww_env w)"

text \<open>The token of a request: it cancels the context and releases the lock of the initialisation.\<close>

definition after_call :: "('c, 's) stream_env \<Rightarrow> ('c, 's) stream_world \<Rightarrow> ('c, 's) stream_world" where
  "after_call E w = (if stream_cancelled E w then w\<lparr>init_inprogress := False\<rparr> else w)"

abbreviation cancelled_failure :: ApiError where
  "cancelled_failure \<equiv> ApiError_code ErrCancelled ''Operation cancelled.'' True"

section \<open>Initialisation\<close>

definition has_address :: "OlpClient option \<Rightarrow> bool" where
  "has_address c \<longleftrightarrow> (case c of None \<Rightarrow> False | Some c \<Rightarrow> base_url c \<noteq> [])"

text \<open>
  A client is created and shared before its address is looked up; \<open>at(0)\<close> throws when no interface was found.
\<close>

definition init_client :: "('c, 's) stream_env \<Rightarrow> (OlpClient \<Rightarrow> ('c, 's) stream_world \<Rightarrow> ('c, 's) stream_world) \<Rightarrow> string \<Rightarrow> string \<Rightarrow>
    ('c, 's) stream_world \<Rightarrow> ('c, 's, ApiError option) stream_answer" where
  "init_client E set_client srv_name srv_version w =
     (let (r, client, w1) = Write_LookupApi (write_env.truncate E) (OlpClientFactory_Create (we_settings E)) srv_name srv_version w;
          w2 = after_call E w1
      in case r of
           Inl e \<Rightarrow> Some (Some e, set_client client w2)
         | Inr apis \<Rightarrow> (case apis of [] \<Rightarrow> None | api # _ \<Rightarrow> Some (None, set_client (SetBaseUrl (api_base_url api) client) w2)))"

definition InitApiClients :: "('c, 's) stream_env \<Rightarrow> ('c, 's) stream_world \<Rightarrow> ('c, 's, ApiError option) stream_answer" where
  "InitApiClients E w =
     (if has_address (apiclient_config w) then Some (None, w)
      else do {
        (err, w1) \<leftarrow> init_client E (\<lambda>c w. w\<lparr>apiclient_ingest := Some c\<rparr>) ''ingest'' ''v1'' w;
        case err of
          Some e \<Rightarrow> Some (Some e, w1)
        | None \<Rightarrow> if stream_cancelled E w1 then Some (Some cancelled_failure, w1)
                  else init_client E (\<lambda>c w. w\<lparr>apiclient_config := Some c\<rparr>) ''config'' ''v1'' w1
      })"

definition InitApiClientsGreaterThanTwentyMib :: "('c, 's) stream_env \<Rightarrow> ('c, 's) stream_world \<Rightarrow> ('c, 's, ApiError option) stream_answer" where
  "InitApiClientsGreaterThanTwentyMib E w =
     (if has_address (apiclient_blob w) then Some (None, w)
      else do {
        (err, w1) \<leftarrow> init_client E (\<lambda>c w. w\<lparr>apiclient_publish := Some c\<rparr>) ''publish'' ''v2'' w;
        case err of
          Some e \<Rightarrow> Some (Some e, w1)
        | None \<Rightarrow> if stream_cancelled E w1 then Some (Some cancelled_failure, w1)
                  else init_client E (\<lambda>c w. w\<lparr>apiclient_blob := Some c\<rparr>) ''blob'' ''v1'' w1
      })"

definition InitCatalogModel :: "('c, 's) stream_env \<Rightarrow> PublishDataRequest \<Rightarrow> ('c, 's) stream_world \<Rightarrow> ('c, 's, ApiError option) stream_answer" where
  "InitCatalogModel E request w =
     (if wc_id (catalog_model w) \<noteq> [] then Some (None, w)
      else do {
        client \<leftarrow> apiclient_config w;
        let (r, w1) = Config_GetCatalog (write_env.truncate E) client (HRN_ToString (we_catalog E)) (pdr_billing_tag request) w;
        let w2 = after_call E w1;
        case r of
          Inl e \<Rightarrow> Some (Some e, w2)
        | Inr m \<Rightarrow> Some (None, w2\<lparr>catalog_model := m\<rparr>)
      })"

text \<open>A thread that waits for the lock is stuck unless another one releases it: \<open>None\<close>.\<close>

definition AquireInitLock :: "('c, 's) stream_world \<Rightarrow> ('c, 's) stream_world option" where
  "AquireInitLock w = (if init_inprogress w then None else Some (w\<lparr>init_inprogress := True\<rparr>))"

definition NotifyInitAborted :: "('c, 's) stream_world \<Rightarrow> ('c, 's) stream_world" where
  "NotifyInitAborted w = w\<lparr>init_inprogress := False\<rparr>"

definition NotifyInitCompleted :: "('c, 's) stream_world \<Rightarrow> ('c, 's) stream_world" where
  "NotifyInitCompleted w = w\<lparr>init_inprogress := False\<rparr>"

definition FindContentTypeForLayerId :: "string \<Rightarrow> ('c, 's) stream_world \<Rightarrow> string" where
  "FindContentTypeForLayerId layer w =
     (case find (\<lambda>l. wl_id l = layer) (wc_layers (catalog_model w)) of None \<Rightarrow> [] | Some l \<Rightarrow> wl_content_type l)"

section \<open>Publication\<close>

definition kTwentyMib :: int where
  "kTwentyMib = 20971520"

definition PublishDataLessThanTwentyMib :: "('c, 's) stream_env \<Rightarrow> PublishDataRequest \<Rightarrow> ('c, 's) stream_world \<Rightarrow>
    ('c, 's, ResponseOkSingle ApiResponse) stream_answer" where
  "PublishDataLessThanTwentyMib E request w = do {
     w \<leftarrow> (if wc_id (catalog_model w) = [] then AquireInitLock w else Some w);
     (err, w1) \<leftarrow> InitApiClients E w;
     case err of
       Some e \<Rightarrow> Some (Inl e, NotifyInitAborted w1)
     | None \<Rightarrow>
         if stream_cancelled E w1 then Some (Inl cancelled_failure, w1)
         else do {
           (err, w2) \<leftarrow> InitCatalogModel E request w1;
           case err of
             Some e \<Rightarrow> Some (Inl e, NotifyInitAborted w2)
           | None \<Rightarrow>
               let w3 = NotifyInitCompleted w2; ctype = FindContentTypeForLayerId (pdr_layer_id request) w3
               in if ctype = []
                  then Some (Inl (ApiError_code ErrInvalidArgument (''Unable to find the Layer ID provided in the PublishDataRequest in the Catalog '' @
                         ''specified when creating this StreamLayerClient instance.'') False), w3)
                  else if stream_cancelled E w3 then Some (Inl cancelled_failure, w3)
                  else do {
                    client \<leftarrow> apiclient_ingest w3;
                    let (r, w4) = IngestData (write_env.truncate E) client (pdr_layer_id request) ctype (pdr_data request) (pdr_trace_id request)
                          (pdr_billing_tag request) (pdr_checksum request) w3;
                    Some (r, after_call E w4)
                  }
         }
   }"

definition InitPublishDataGreaterThanTwentyMib :: "('c, 's) stream_env \<Rightarrow> PublishDataRequest \<Rightarrow> ('c, 's) stream_world \<Rightarrow>
    ('c, 's, ApiError option) stream_answer" where
  "InitPublishDataGreaterThanTwentyMib E request w = do {
     w \<leftarrow> (if wc_id (catalog_model w) = [] \<or> \<not> has_address (apiclient_blob w) then AquireInitLock w else Some w);
     (err, w1) \<leftarrow> InitApiClients E w;
     case err of
       Some e \<Rightarrow> Some (Some e, NotifyInitAborted w1)
     | None \<Rightarrow>
         if stream_cancelled E w1 then Some (Some cancelled_failure, w1)
         else do {
           (err, w2) \<leftarrow> InitApiClientsGreaterThanTwentyMib E w1;
           case err of
             Some e \<Rightarrow> Some (Some e, NotifyInitAborted w2)
           | None \<Rightarrow>
               if stream_cancelled E w2 then Some (Some cancelled_failure, w2)
               else do {
                 (err, w3) \<leftarrow> InitCatalogModel E request w2;
                 case err of
                   Some e \<Rightarrow> Some (Some e, NotifyInitAborted w3)
                 | None \<Rightarrow> Some (None, NotifyInitCompleted w3)
               }
         }
   }"

text \<open>The steps of a publication, each after the one before succeeded and while the request is not cancelled.\<close>

definition publish_step :: "('c, 's) stream_env \<Rightarrow> (('c, 's) stream_world \<Rightarrow> 'a ApiResponse \<times> ('c, 's) stream_world) \<Rightarrow>
    ('a \<Rightarrow> ('c, 's) stream_world \<Rightarrow> ('c, 's, 'r ApiResponse) stream_answer) \<Rightarrow> ('c, 's) stream_world \<Rightarrow> ('c, 's, 'r ApiResponse) stream_answer" where
  "publish_step E call continue w =
     (if stream_cancelled E w then Some (Inl cancelled_failure, w)
      else let (r, w1) = call w; w2 = after_call E w1
           in case r of Inl e \<Rightarrow> Some (Inl e, w2) | Inr x \<Rightarrow> continue x w2)"

type_synonym ('c, 's) publish_function = "('c, 's) stream_world \<Rightarrow> ('c, 's, ResponseOkSingle ApiResponse) stream_answer"

definition submit_publication_function :: "('c, 's) stream_env \<Rightarrow> PublishDataRequest \<Rightarrow> OlpClient \<Rightarrow> string \<Rightarrow> string \<Rightarrow> ('c, 's) publish_function" where
  "submit_publication_function E request publish publication_id part =
     publish_step E (SubmitPublication (write_env.truncate E) publish publication_id (pdr_billing_tag request))
       (\<lambda>_ w. Some (Inr \<lparr>ros_trace_id = part\<rparr>, w))"

definition upload_partitions_function :: "('c, 's) stream_env \<Rightarrow> PublishDataRequest \<Rightarrow> OlpClient \<Rightarrow> string \<Rightarrow> PublishPartitions \<Rightarrow> string \<Rightarrow>
    ('c, 's) publish_function" where
  "upload_partitions_function E request publish publication_id parts part =
     publish_step E (UploadPartitions (write_env.truncate E) publish parts publication_id (pdr_layer_id request) (pdr_billing_tag request))
       (\<lambda>_. submit_publication_function E request publish publication_id part)"

definition put_blob_callback :: "('c, 's) stream_env \<Rightarrow> PublishDataRequest \<Rightarrow> OlpClient \<Rightarrow> string \<Rightarrow> string \<Rightarrow> ('c, 's) publish_function" where
  "put_blob_callback E request publish publication_id handle w =
     (let (part, w1) = GenerateUuid (write_env.truncate E) w;
          publish_partition = PublishPartition_new\<lparr>pp_partition := Some part, pp_data_handle := Some handle\<rparr>
      in upload_partitions_function E request publish publication_id \<lparr>pps_partitions = Some [publish_partition]\<rparr> part w1)"

definition put_blob_function :: "('c, 's) stream_env \<Rightarrow> PublishDataRequest \<Rightarrow> OlpClient \<Rightarrow> OlpClient \<Rightarrow> string \<Rightarrow> string \<Rightarrow> string \<Rightarrow>
    ('c, 's) publish_function" where
  "put_blob_function E request publish blob publication_id ctype handle =
     publish_step E (PutBlob (write_env.truncate E) blob (pdr_layer_id request) ctype handle (pdr_data request) (pdr_billing_tag request))
       (\<lambda>_. put_blob_callback E request publish publication_id handle)"

definition init_publication_callback :: "('c, 's) stream_env \<Rightarrow> PublishDataRequest \<Rightarrow> OlpClient \<Rightarrow> OlpClient \<Rightarrow> Publication \<Rightarrow> ('c, 's) publish_function" where
  "init_publication_callback E request publish blob pub w =
     (case pub_id pub of
        None \<Rightarrow> Some (Inl ApiError_default, w)
      | Some publication_id \<Rightarrow>
          let ctype = FindContentTypeForLayerId (pdr_layer_id request) w
          in if ctype = []
             then Some (Inl (ApiError_code ErrInvalidArgument (''Unable to find the Layer ID ('' @ pdr_layer_id request @
                    '') provided in the PublishDataRequest in the Catalog specified when creating this StreamLayerClient instance.'') False), w)
             else let (handle, w1) = GenerateUuid (write_env.truncate E) w
                  in put_blob_function E request publish blob publication_id ctype handle w1)"

definition init_publication_function :: "('c, 's) stream_env \<Rightarrow> PublishDataRequest \<Rightarrow> OlpClient \<Rightarrow> OlpClient \<Rightarrow> ('c, 's) publish_function" where
  "init_publication_function E request publish blob =
     publish_step E (InitPublication (write_env.truncate E) publish (Publication_new\<lparr>pub_layer_ids := Some [pdr_layer_id request]\<rparr>) (pdr_billing_tag request))
       (init_publication_callback E request publish blob)"

definition PublishDataGreaterThanTwentyMib :: "('c, 's) stream_env \<Rightarrow> PublishDataRequest \<Rightarrow> ('c, 's) publish_function" where
  "PublishDataGreaterThanTwentyMib E request w = do {
     (err, w1) \<leftarrow> InitPublishDataGreaterThanTwentyMib E request w;
     case err of
       Some e \<Rightarrow> Some (Inl e, w1)
     | None \<Rightarrow> do {
         publish \<leftarrow> apiclient_publish w1;
         blob \<leftarrow> apiclient_blob w1;
         init_publication_function E request publish blob w1
       }
   }"

definition PublishData :: "('c, 's) stream_env \<Rightarrow> PublishDataRequest \<Rightarrow> ('c, 's) stream_world \<Rightarrow> ('c, 's, ResponseOkSingle ApiResponse) stream_answer" where
  "PublishData E request w =
     (case pdr_data request of
        None \<Rightarrow> Some (Inl (ApiError_code ErrInvalidArgument ''Request data null.'' False), w)
      | Some data \<Rightarrow> if int (length data) \<le> kTwentyMib then PublishDataLessThanTwentyMib E request w
                     else PublishDataGreaterThanTwentyMib E request w)"

definition PublishSdii :: "('c, 's) stream_env \<Rightarrow> PublishSdiiRequest \<Rightarrow> ('c, 's) stream_world \<Rightarrow> ('c, 's, ResponseOk ApiResponse) stream_answer" where
  "PublishSdii E request w =
     (if psr_sdii_message_list request = None
      then Some (Inl (ApiError_code ErrInvalidArgument ''Request sdii message list null.'' False), w)
      else if psr_layer_id request = [] then Some (Inl (ApiError_code ErrInvalidArgument ''Request layer id empty.'' False), w)
      else do {
        w \<leftarrow> (if \<not> has_address (apiclient_config w) then AquireInitLock w else Some w);
        (err, w1) \<leftarrow> InitApiClients E w;
        case err of
          Some e \<Rightarrow> Some (Inl e, NotifyInitAborted w1)
        | None \<Rightarrow>
            let w2 = NotifyInitCompleted w1
            in if stream_cancelled E w2 then Some (Inl cancelled_failure, w2)
               else do {
                 client \<leftarrow> apiclient_ingest w2;
                 let (r, w3) = IngestSDII (write_env.truncate E) client (psr_layer_id request) (psr_sdii_message_list request) (psr_trace_id request)
                       (psr_billing_tag request) (psr_checksum request) w2;
                 Some (r, after_call E w3)
               }
      })"

section \<open>The queue of requests\<close>

definition GetUuidListKey :: "('c, 's) stream_env \<Rightarrow> string" where
  "GetUuidListKey E = ToCatalogHRNString (we_catalog E) @ ''-stream-queue-cache''"

text \<open>The cache is used through a pointer that may be null; a cast of the value to another type throws.\<close>

definition stream_get :: "('c, 's) stream_env \<Rightarrow> string \<Rightarrow> (string \<Rightarrow> stream_value) \<Rightarrow> ('c, 's) stream_world \<Rightarrow> ('c, 's, stream_value option) stream_answer" where
  "stream_get E key decode w = do {
     c \<leftarrow> sw_cache w;
     (v, c1) \<leftarrow> st_Get (se_cache E) key (\<lambda>s. AnyModel (decode s)) c;
     case v of
       AnyEmpty \<Rightarrow> Some (None, w\<lparr>sw_cache := Some c1\<rparr>)
     | AnyModel x \<Rightarrow> Some (Some x, w\<lparr>sw_cache := Some c1\<rparr>)
     | AnyBytes _ \<Rightarrow> None
   }"

definition stream_put :: "('c, 's) stream_env \<Rightarrow> string \<Rightarrow> stream_value \<Rightarrow> string \<Rightarrow> ('c, 's) stream_world \<Rightarrow> ('c, 's) stream_world option" where
  "stream_put E key v encoded w = do {
     c \<leftarrow> sw_cache w;
     (_, c1) \<leftarrow> st_Put (se_cache E) key v encoded c;
     Some (w\<lparr>sw_cache := Some c1\<rparr>)
   }"

definition stream_remove :: "('c, 's) stream_env \<Rightarrow> string \<Rightarrow> ('c, 's) stream_world \<Rightarrow> ('c, 's) stream_world option" where
  "stream_remove E key w = do {
     c \<leftarrow> sw_cache w;
     (_, c1) \<leftarrow> st_Remove (se_cache E) key c;
     Some (w\<lparr>sw_cache := Some c1\<rparr>)
   }"

definition get_uuid_list :: "('c, 's) stream_env \<Rightarrow> ('c, 's) stream_world \<Rightarrow> ('c, 's, string option) stream_answer" where
  "get_uuid_list E w = do {
     (v, w1) \<leftarrow> stream_get E (GetUuidListKey E) SString w;
     case v of
       None \<Rightarrow> Some (None, w1)
     | Some (SString s) \<Rightarrow> Some (Some s, w1)
     | Some (SRequest _) \<Rightarrow> None
   }"

definition QueueSize :: "('c, 's) stream_env \<Rightarrow> ('c, 's) stream_world \<Rightarrow> ('c, 's, nat) stream_answer" where
  "QueueSize E w = do {
     (l, w1) \<leftarrow> get_uuid_list E w;
     Some (case l of None \<Rightarrow> 0 | Some uuid_list \<Rightarrow> count_list uuid_list CHR '','', w1)
   }"

definition note_event :: "flush_event \<Rightarrow> ('c, 's) stream_world \<Rightarrow> ('c, 's) stream_world" where
  "note_event ev w = w\<lparr>sw_events := sw_events w @ [ev]\<rparr>"

definition push_request :: "('c, 's) stream_env \<Rightarrow> PublishDataRequest \<Rightarrow> ('c, 's) stream_world \<Rightarrow> ('c, 's) stream_world option" where
  "push_request E request w = do {
     let (publish_data_key, w1) = GenerateUuid (write_env.truncate E) w;
     w2 \<leftarrow> stream_put E publish_data_key (SRequest request) (se_serialize E request) w1;
     (l, w3) \<leftarrow> get_uuid_list E w2;
     let uuid_list = (case l of None \<Rightarrow> [] | Some s \<Rightarrow> s) @ publish_data_key @ '','';
     stream_put E (GetUuidListKey E) (SString uuid_list) uuid_list w3
   }"

definition Queue :: "('c, 's) stream_env \<Rightarrow> PublishDataRequest \<Rightarrow> ('c, 's) stream_world \<Rightarrow> ('c, 's, string option) stream_answer" where
  "Queue E request w =
     (if sw_cache w = None then Some (Some ''No cache provided to StreamLayerClient'', w)
      else if pdr_data request = None then Some (Some ''PublishDataRequest does not contain any Data'', w)
      else if pdr_layer_id request = [] then Some (Some ''PublishDataRequest does not contain a Layer ID'', w)
      else do {
        (full, w1) \<leftarrow> (case maximum_requests (se_flush_settings E) of
                         None \<Rightarrow> Some (False, w)
                       | Some m \<Rightarrow> do { (n, w1) \<leftarrow> QueueSize E w; Some (\<not> n < unat m, w1) });
        if full then Some (Some ''Maximum number of requests has reached'', w1)
        else do {
          w2 \<leftarrow> push_request E request (note_event QueueEventStart w1);
          Some (None, note_event QueueEventComplete w2)
        }
      })"

definition PopFromQueue :: "('c, 's) stream_env \<Rightarrow> ('c, 's) stream_world \<Rightarrow> ('c, 's, PublishDataRequest option) stream_answer" where
  "PopFromQueue E w = do {
     (l, w1) \<leftarrow> get_uuid_list E w;
     case l of
       None \<Rightarrow> Some (None, w1)
     | Some uuid_list \<Rightarrow>
         if CHR '','' \<notin> set uuid_list then Some (None, w1)
         else do {
           let pos = length (takeWhile (\<lambda>c. c \<noteq> CHR '','') uuid_list);
           let publish_data_key = take pos uuid_list;
           (v, w2) \<leftarrow> stream_get E publish_data_key (\<lambda>s. SRequest (se_parse E s)) w1;
           w3 \<leftarrow> stream_remove E publish_data_key w2;
           let uuid_list = drop (pos + 1) uuid_list;
           w4 \<leftarrow> stream_put E (GetUuidListKey E) (SString uuid_list) uuid_list w3;
           case v of
             None \<Rightarrow> Some (None, w4)
           | Some (SRequest request) \<Rightarrow> Some (Some request, w4)
           | Some (SString _) \<Rightarrow> None
         }
   }"

section \<open>Flushing\<close>

text \<open>\<open>None\<close> is a loop that does not end, an exception or undefined behaviour.\<close>

partial_function (option) Flush_loop :: "('c, 's) stream_env \<Rightarrow> int option \<Rightarrow> int \<Rightarrow> ResponseOkSingle ApiResponse list \<Rightarrow> ('c, 's) stream_world \<Rightarrow>
    ('c, 's, ResponseOkSingle ApiResponse list) stream_answer" where
  "Flush_loop E maximum_events_number num responses w =
     (if (case maximum_events_number of None \<Rightarrow> True | Some m \<Rightarrow> num < m)
      then Option.bind (QueueSize E w) (\<lambda>(n, w1).
        if n > 0
        then Option.bind (PopFromQueue E w1) (\<lambda>(r, w2).
          case r of
            None \<Rightarrow> Flush_loop E maximum_events_number num responses w2
          | Some request \<Rightarrow>
              let w3 = note_event FlushEvent w2
              in Option.bind (if stream_cancelled E w3 then Some (responses, w3)
                   else map_option (\<lambda>(r, w4). (responses @ [r], w4)) (PublishData E request (w3\<lparr>sw_published := sw_published w3 @ [request]\<rparr>)))
                 (\<lambda>(responses, w4).
                    if stream_cancelled E w4 then map_option (\<lambda>(_, w5). (responses, w5)) (Queue E request w4)
                    else Flush_loop E maximum_events_number (num + 1) responses w4))
        else Some (responses, w1))
      else Some (responses, w))"

definition Flush :: "('c, 's) stream_env \<Rightarrow> ('c, 's) stream_world \<Rightarrow> ('c, 's, ResponseOkSingle ApiResponse list) stream_answer" where
  "Flush E w =
     (let maximum_events_number = events_per_single_flush (se_flush_settings E)
      in if (case maximum_events_number of Some m \<Rightarrow> m \<le> 0 | None \<Rightarrow> False) then Some ([], w)
         else Flush_loop E maximum_events_number 0 [] w)"

section \<open>The lock of the initialisation\<close>

definition clients_ok :: "('c, 's) stream_world \<Rightarrow> bool" where
  "clients_ok w \<longleftrightarrow> (apiclient_config w \<noteq> None \<longrightarrow> apiclient_ingest w \<noteq> None) \<and> (apiclient_blob w \<noteq> None \<longrightarrow> apiclient_publish w \<noteq> None)"

definition lock_inv :: "('c, 's) stream_env \<Rightarrow> ('c, 's) stream_world \<Rightarrow> bool" where
  "lock_inv E w \<longleftrightarrow> (stream_cancelled E w \<longrightarrow> \<not> init_inprogress w)"

text \<open>What the steps of a request keep: only the network is used, and the lock is not taken again.\<close>

definition init_step :: "('c, 's) stream_env \<Rightarrow> ('c, 's) stream_world \<Rightarrow> ('c, 's) stream_world \<Rightarrow> bool" where
  "init_step E w w' \<longleftrightarrow> (lock_inv E w \<longrightarrow> lock_inv E w') \<and> (clients_ok w \<longrightarrow> clients_ok w') \<and> (init_inprogress w' \<longrightarrow> init_inprogress w) \<and>
     sw_cache w' = sw_cache w \<and> sw_events w' = sw_events w \<and> sw_published w' = sw_published w \<and> ww_uuids w \<le> ww_uuids w'"

lemmas step_defs = init_step_def lock_inv_def clients_ok_def after_call_def stream_cancelled_def

lemma init_step_refl [simp]: "init_step E w w"
  by (simp add: init_step_def)

lemma init_step_trans [trans]: "init_step E w1 w2 \<Longrightarrow> init_step E w2 w3 \<Longrightarrow> init_step E w1 w3"
  by (auto simp: init_step_def)

lemma init_step_release [simp]: "init_step E w (NotifyInitAborted w)" "init_step E w (NotifyInitCompleted w)"
  by (simp_all add: step_defs NotifyInitAborted_def NotifyInitCompleted_def)

lemma after_call_step: "init_step E w (after_call E (w\<lparr>ww_env := s, ww_calls := cs\<rparr>))"
  by (simp add: step_defs)

lemmas stream_call_defs = CallApi_write_def IngestData_def IngestSDII_def InitPublication_def UploadPartitions_def SubmitPublication_def PutBlob_def
  Config_GetCatalog_def Platform_GetApis_def Resources_GetApis_def Write_LookupApi_def Let_def

text \<open>A lookup calls the network at most once and never answers with an empty list.\<close>

definition apis_found :: "('c, 's) stream_env \<Rightarrow> bool" where
  "apis_found E \<longleftrightarrow> (\<forall>s. wparse_Apis (we_codecs E) s \<noteq> [])"

lemma lookup_world:
  "\<exists>r c s cs. Write_LookupApi (write_env.truncate E) client n v w = (r, c, w\<lparr>ww_env := s, ww_calls := cs\<rparr>) \<and> (apis_found E \<longrightarrow> r \<noteq> Inr [])"
proof (cases "write_DatastoreServerUrl (hrn_partition (we_catalog E)) = []")
  case True
  then have "Write_LookupApi (write_env.truncate E) client n v w =
      (Inl (ApiError_code ErrNotFound ''Invalid or broken HRN'' False), client, w\<lparr>ww_env := ww_env w, ww_calls := ww_calls w\<rparr>)"
    by (simp add: stream_call_defs)
  then show ?thesis by blast
next
  case False
  then show ?thesis by (auto simp: stream_call_defs api_response_def apis_found_def split: prod.split)
qed

definition same_clients :: "('c, 's) stream_world \<Rightarrow> ('c, 's) stream_world \<Rightarrow> bool" where
  "same_clients w w' \<longleftrightarrow> apiclient_config w' = apiclient_config w \<and> apiclient_ingest w' = apiclient_ingest w \<and>
     apiclient_blob w' = apiclient_blob w \<and> apiclient_publish w' = apiclient_publish w"

lemma after_call_clients: "same_clients w (after_call E (w\<lparr>ww_env := s, ww_calls := cs\<rparr>))"
  by (simp add: same_clients_def after_call_def)

lemma init_client_step:
  assumes "apis_found E" "\<And>c w1. same_clients w w1 \<Longrightarrow> init_step E w1 (set_client c w1)"
  shows "\<exists>e c w1. init_client E set_client n v w = Some (e, set_client c w1) \<and> init_step E w (set_client c w1) \<and> same_clients w w1"
proof -
  obtain r c s cs where l: "Write_LookupApi (write_env.truncate E) (OlpClientFactory_Create (we_settings E)) n v w = (r, c, w\<lparr>ww_env := s, ww_calls := cs\<rparr>)"
    "r \<noteq> Inr []" using lookup_world assms(1) by metis
  let ?w = "after_call E (w\<lparr>ww_env := s, ww_calls := cs\<rparr>)"
  have w: "init_step E w (set_client c' ?w)" for c' using init_step_trans [OF after_call_step assms(2) [OF after_call_clients]] .
  obtain e c' where "init_client E set_client n v w = Some (e, set_client c' ?w)"
    using l by (cases r) (auto simp: init_client_def neq_Nil_conv)
  with w after_call_clients show ?thesis by metis
qed

lemma InitApiClients_step:
  assumes "apis_found E" "clients_ok w"
  shows "\<exists>e w'. InitApiClients E w = Some (e, w') \<and> init_step E w w' \<and> (e = None \<longrightarrow> apiclient_config w' \<noteq> None \<and> apiclient_ingest w' \<noteq> None)"
proof (cases "has_address (apiclient_config w)")
  case True
  then show ?thesis using assms(2) by (auto simp: InitApiClients_def has_address_def clients_ok_def split: option.splits)
next
  case False
  obtain e c w1 where 1: "init_client E (\<lambda>c w. w\<lparr>apiclient_ingest := Some c\<rparr>) ''ingest'' ''v1'' w = Some (e, w1\<lparr>apiclient_ingest := Some c\<rparr>)"
    "init_step E w (w1\<lparr>apiclient_ingest := Some c\<rparr>)"
    using init_client_step [OF assms(1), of w "\<lambda>c w. w\<lparr>apiclient_ingest := Some c\<rparr>"] by (fastforce simp: step_defs)
  let ?w = "w1\<lparr>apiclient_ingest := Some c\<rparr>"
  obtain e' c' w2 where 2: "init_client E (\<lambda>c w. w\<lparr>apiclient_config := Some c\<rparr>) ''config'' ''v1'' ?w = Some (e', w2\<lparr>apiclient_config := Some c'\<rparr>)"
    "init_step E ?w (w2\<lparr>apiclient_config := Some c'\<rparr>)" "same_clients ?w w2"
    using init_client_step [OF assms(1), of ?w "\<lambda>c w. w\<lparr>apiclient_config := Some c\<rparr>"] by (fastforce simp: step_defs same_clients_def)
  show ?thesis using False 1 2 init_step_trans [OF 1(2) 2(2)]
    by (cases e; cases "stream_cancelled E ?w") (auto simp: InitApiClients_def same_clients_def)
qed

lemma InitApiClientsGreater_step:
  assumes "apis_found E" "clients_ok w"
  shows "\<exists>e w'. InitApiClientsGreaterThanTwentyMib E w = Some (e, w') \<and> init_step E w w' \<and>
    (e = None \<longrightarrow> apiclient_blob w' \<noteq> None \<and> apiclient_publish w' \<noteq> None) \<and> apiclient_config w' = apiclient_config w"
proof (cases "has_address (apiclient_blob w)")
  case True
  then show ?thesis using assms(2) by (auto simp: InitApiClientsGreaterThanTwentyMib_def has_address_def clients_ok_def split: option.splits)
next
  case False
  obtain e c w1 where 1: "init_client E (\<lambda>c w. w\<lparr>apiclient_publish := Some c\<rparr>) ''publish'' ''v2'' w = Some (e, w1\<lparr>apiclient_publish := Some c\<rparr>)"
    "init_step E w (w1\<lparr>apiclient_publish := Some c\<rparr>)" "same_clients w w1"
    using init_client_step [OF assms(1), of w "\<lambda>c w. w\<lparr>apiclient_publish := Some c\<rparr>"] by (fastforce simp: step_defs)
  let ?w = "w1\<lparr>apiclient_publish := Some c\<rparr>"
  obtain e' c' w2 where 2: "init_client E (\<lambda>c w. w\<lparr>apiclient_blob := Some c\<rparr>) ''blob'' ''v1'' ?w = Some (e', w2\<lparr>apiclient_blob := Some c'\<rparr>)"
    "init_step E ?w (w2\<lparr>apiclient_blob := Some c'\<rparr>)" "same_clients ?w w2"
    using init_client_step [OF assms(1), of ?w "\<lambda>c w. w\<lparr>apiclient_blob := Some c\<rparr>"] by (fastforce simp: step_defs same_clients_def)
  show ?thesis using False 1 2 init_step_trans [OF 1(2) 2(2)]
    by (cases e; cases "stream_cancelled E ?w") (auto simp: InitApiClientsGreaterThanTwentyMib_def same_clients_def)
qed

lemma InitCatalogModel_step:
  assumes "apiclient_config w \<noteq> None"
  shows "\<exists>e w'. InitCatalogModel E request w = Some (e, w') \<and> init_step E w w' \<and> same_clients w w'"
proof -
  obtain c where c: "apiclient_config w = Some c" using assms by blast
  obtain r s where "we_server E (get_call c (''/catalogs/'' @ HRN_ToString (we_catalog E)) (billing_params (pdr_billing_tag request)) accept_json) (ww_env w) = (r, s)"
    by (metis surj_pair)
  then show ?thesis using c after_call_step [of E w _ s] after_call_clients [of w E _ s]
    by (auto simp: InitCatalogModel_def stream_call_defs same_clients_def split: sum.split) (auto simp: step_defs)
qed

text \<open>A request that may take the lock.\<close>

lemma acquired_step:
  assumes "\<not> init_inprogress w"
  obtains w0 where "(if P then AquireInitLock w else Some w) = Some w0" "clients_ok w \<Longrightarrow> clients_ok w0"
    "\<not> stream_cancelled E w \<Longrightarrow> lock_inv E w0" "\<And>w'. init_step E w0 w' \<Longrightarrow> \<not> init_inprogress w' \<Longrightarrow> init_step E w w'"
proof (cases P)
  case True
  show thesis by (rule that [of "w\<lparr>init_inprogress := True\<rparr>"]) (use True assms in \<open>auto simp: AquireInitLock_def step_defs\<close>)
next
  case False
  show thesis by (rule that [of w]) (use False assms in \<open>auto simp: step_defs\<close>)
qed

lemma released [simp]: "\<not> init_inprogress (NotifyInitAborted w)" "\<not> init_inprogress (NotifyInitCompleted w)"
  "apiclient_ingest (NotifyInitCompleted w) = apiclient_ingest w" "apiclient_publish (NotifyInitCompleted w) = apiclient_publish w"
  "apiclient_blob (NotifyInitCompleted w) = apiclient_blob w"
  by (simp_all add: NotifyInitAborted_def NotifyInitCompleted_def)

lemma init_step_unlocked: "init_step E w w' \<Longrightarrow> \<not> init_inprogress w \<Longrightarrow> \<not> init_inprogress w'"
  by (simp add: init_step_def)

lemma lock_released: "init_step E w w' \<Longrightarrow> lock_inv E w \<Longrightarrow> stream_cancelled E w' \<Longrightarrow> \<not> init_inprogress w'"
  by (simp add: init_step_def lock_inv_def)

lemma ingest_step: "\<exists>r w'. IngestData (write_env.truncate E) c l t d a b cs w = (r, w') \<and> init_step E w (after_call E w')"
  using after_call_step by (auto simp: stream_call_defs split: prod.split)

lemma sdii_step: "\<exists>r w'. IngestSDII (write_env.truncate E) c l d a b cs w = (r, w') \<and> init_step E w (after_call E w')"
  using after_call_step by (auto simp: stream_call_defs split: prod.split)

lemma publish_less_step:
  assumes "apis_found E" "clients_ok w" "\<not> stream_cancelled E w" "\<not> init_inprogress w"
  shows "\<exists>r w'. PublishDataLessThanTwentyMib E request w = Some (r, w') \<and> init_step E w w' \<and> \<not> init_inprogress w'"
proof -
  obtain w0 where 0: "(if wc_id (catalog_model w) = [] then AquireInitLock w else Some w) = Some w0" "clients_ok w0" "lock_inv E w0"
    "\<And>w'. init_step E w0 w' \<Longrightarrow> \<not> init_inprogress w' \<Longrightarrow> init_step E w w'"
    using acquired_step [OF assms(4), of "wc_id (catalog_model w) = []" E] assms(2,3) by metis
  obtain e w1 where 1: "InitApiClients E w0 = Some (e, w1)" "init_step E w0 w1" "e = None \<Longrightarrow> apiclient_config w1 \<noteq> None \<and> apiclient_ingest w1 \<noteq> None"
    using InitApiClients_step [OF assms(1) 0(2)] by blast
  note fin = 0(4) [OF init_step_trans [OF 1(2)]]
  consider (err) x where "e = Some x" | (cancel) "e = None" "stream_cancelled E w1" | (go) "e = None" "\<not> stream_cancelled E w1" by (cases e) auto
  then show ?thesis
  proof cases
    case err
    then show ?thesis using 0(1) 1(1) fin [OF init_step_release(1)] by (simp add: PublishDataLessThanTwentyMib_def)
  next
    case cancel
    then show ?thesis using 0(1) 1(1) fin [OF init_step_refl] lock_released [OF 1(2) 0(3)] by (simp add: PublishDataLessThanTwentyMib_def)
  next
    case go
    obtain e2 w2 where 2: "InitCatalogModel E request w1 = Some (e2, w2)" "init_step E w1 w2" "same_clients w1 w2"
      using InitCatalogModel_step 1(3) [OF go(1)] by blast
    let ?w = "NotifyInitCompleted w2"
    obtain c where c: "apiclient_ingest ?w = Some c" using 1(3) [OF go(1)] 2(3) by (auto simp: same_clients_def)
    obtain r w3 where 3: "IngestData (write_env.truncate E) c (pdr_layer_id request) (FindContentTypeForLayerId (pdr_layer_id request) ?w)
        (pdr_data request) (pdr_trace_id request) (pdr_billing_tag request) (pdr_checksum request) ?w = (r, w3)" "init_step E ?w (after_call E w3)"
      using ingest_step by metis
    have f: "init_step E w (NotifyInitAborted w2)" "init_step E w ?w" "init_step E w (after_call E w3)"
      using fin [OF init_step_trans [OF 2(2) init_step_release(1)]] fin [OF init_step_trans [OF 2(2) init_step_release(2)]]
        fin [OF init_step_trans [OF init_step_trans [OF 2(2) init_step_release(2)] 3(2)]] init_step_unlocked [OF 3(2)] by simp_all
    show ?thesis using 0(1) 1(1) go 2(1) c 3(1) f init_step_unlocked [OF 3(2)]
      by (cases e2; cases "FindContentTypeForLayerId (pdr_layer_id request) ?w = []"; cases "stream_cancelled E ?w")
        (simp_all add: PublishDataLessThanTwentyMib_def Let_def)
  qed
qed

lemma init_greater_step:
  assumes "apis_found E" "clients_ok w" "\<not> stream_cancelled E w" "\<not> init_inprogress w"
  shows "\<exists>e w'. InitPublishDataGreaterThanTwentyMib E request w = Some (e, w') \<and> init_step E w w' \<and> \<not> init_inprogress w' \<and>
    (e = None \<longrightarrow> apiclient_blob w' \<noteq> None \<and> apiclient_publish w' \<noteq> None)"
proof -
  let ?P = "wc_id (catalog_model w) = [] \<or> \<not> has_address (apiclient_blob w)"
  obtain w0 where 0: "(if ?P then AquireInitLock w else Some w) = Some w0" "clients_ok w0" "lock_inv E w0"
    "\<And>w'. init_step E w0 w' \<Longrightarrow> \<not> init_inprogress w' \<Longrightarrow> init_step E w w'"
    using acquired_step [OF assms(4), of ?P E] assms(2,3) by metis
  obtain e w1 where 1: "InitApiClients E w0 = Some (e, w1)" "init_step E w0 w1" "e = None \<Longrightarrow> apiclient_config w1 \<noteq> None \<and> apiclient_ingest w1 \<noteq> None"
    using InitApiClients_step [OF assms(1) 0(2)] by blast
  have ok1: "clients_ok w1" "lock_inv E w1" using 0(2,3) 1(2) by (simp_all add: init_step_def)
  note fin = 0(4) [OF init_step_trans [OF 1(2)]]
  consider (err) x where "e = Some x" | (cancel) "e = None" "stream_cancelled E w1" | (go) "e = None" "\<not> stream_cancelled E w1" by (cases e) auto
  then show ?thesis
  proof cases
    case err
    then show ?thesis using 0(1) 1(1) fin [OF init_step_release(1)] by (simp add: InitPublishDataGreaterThanTwentyMib_def)
  next
    case cancel
    then show ?thesis using 0(1) 1(1) fin [OF init_step_refl] lock_released [OF 1(2) 0(3)] by (simp add: InitPublishDataGreaterThanTwentyMib_def)
  next
    case go
    obtain e2 w2 where 2: "InitApiClientsGreaterThanTwentyMib E w1 = Some (e2, w2)" "init_step E w1 w2"
      "e2 = None \<Longrightarrow> apiclient_blob w2 \<noteq> None \<and> apiclient_publish w2 \<noteq> None" "apiclient_config w2 = apiclient_config w1"
      using InitApiClientsGreater_step [OF assms(1) ok1(1)] by blast
    obtain e3 w3 where 3: "InitCatalogModel E request w2 = Some (e3, w3)" "init_step E w2 w3" "same_clients w2 w3"
      using InitCatalogModel_step [of w2 E request] 1(3) [OF go(1)] 2(4) by auto
    have f: "init_step E w (NotifyInitAborted w2)" "init_step E w (NotifyInitAborted w3)" "init_step E w (NotifyInitCompleted w3)"
      using fin [OF init_step_trans [OF 2(2) init_step_release(1)]] fin [OF init_step_trans [OF init_step_trans [OF 2(2) 3(2)] init_step_release(1)]]
        fin [OF init_step_trans [OF init_step_trans [OF 2(2) 3(2)] init_step_release(2)]] by simp_all
    have g: "init_step E w w2" "\<not> init_inprogress w2" if "stream_cancelled E w2"
      using fin [OF 2(2)] lock_released [OF 2(2) ok1(2) that] by simp_all
    show ?thesis using 0(1) 1(1) go 2(1,3) 3(1,3) f g
      by (cases e2; cases "stream_cancelled E w2"; cases e3) (simp_all add: InitPublishDataGreaterThanTwentyMib_def same_clients_def)
  qed
qed

text \<open>A chain of calls.\<close>

definition answers :: "('c, 's) stream_env \<Rightarrow> (('c, 's) stream_world \<Rightarrow> ('c, 's, 'r) stream_answer) \<Rightarrow> bool" where
  "answers E f \<longleftrightarrow> (\<forall>w. \<exists>r w'. f w = Some (r, w') \<and> init_step E w w')"

lemma publish_step_answers:
  assumes "\<And>w. \<exists>r w'. call w = (r, w') \<and> init_step E w (after_call E w')" "\<And>x. answers E (K x)"
  shows "answers E (publish_step E call K)"
  unfolding answers_def
proof
  fix w
  obtain r w1 where 1: "call w = (r, w1)" "init_step E w (after_call E w1)" using assms(1) by metis
  show "\<exists>r w'. publish_step E call K w = Some (r, w') \<and> init_step E w w'"
  proof (cases r)
    case (Inr x)
    obtain r2 w2 where "K x (after_call E w1) = Some (r2, w2)" "init_step E (after_call E w1) w2" using assms(2) unfolding answers_def by metis
    then show ?thesis using 1 Inr init_step_trans [OF 1(2)] by (auto simp: publish_step_def)
  qed (use 1 in \<open>auto simp: publish_step_def\<close>)
qed

lemma answers_Some: "answers E (\<lambda>w. Some (r, w))"
  by (simp add: answers_def)

lemma answers_uuid:
  assumes "\<And>u. answers E (f u)"
  shows "answers E (\<lambda>w. case GenerateUuid (write_env.truncate E) w of (u, w1) \<Rightarrow> f u w1)"
  unfolding answers_def
proof
  fix w
  have "init_step E w (w\<lparr>ww_uuids := ww_uuids w + 1\<rparr>)" by (simp add: step_defs)
  then show "\<exists>r w'. (case GenerateUuid (write_env.truncate E) w of (u, w1) \<Rightarrow> f u w1) = Some (r, w') \<and> init_step E w w'"
    using assms init_step_trans unfolding answers_def by (fastforce simp: GenerateUuid_def)
qed

lemma publication_calls_step:
  "\<exists>r w'. InitPublication (write_env.truncate E) c p b w = (r, w') \<and> init_step E w (after_call E w')"
  "\<exists>r w'. PutBlob (write_env.truncate E) c l t h d b w = (r, w') \<and> init_step E w (after_call E w')"
  "\<exists>r w'. UploadPartitions (write_env.truncate E) c pp i l b w = (r, w') \<and> init_step E w (after_call E w')"
  "\<exists>r w'. SubmitPublication (write_env.truncate E) c i b w = (r, w') \<and> init_step E w (after_call E w')"
  using after_call_step by (auto simp: stream_call_defs split: prod.split)

lemma init_publication_answers: "answers E (init_publication_function E request publish blob)"
proof -
  have submit: "answers E (submit_publication_function E request publish i p)" for i p
    unfolding submit_publication_function_def by (intro publish_step_answers publication_calls_step answers_Some)
  have upload: "answers E (upload_partitions_function E request publish i ps p)" for i ps p
    unfolding upload_partitions_function_def by (intro publish_step_answers publication_calls_step submit)
  have "answers E (put_blob_callback E request publish i h)" for i h
    using answers_uuid [of E "\<lambda>part. upload_partitions_function E request publish i
        \<lparr>pps_partitions = Some [PublishPartition_new\<lparr>pp_partition := Some part, pp_data_handle := Some h\<rparr>]\<rparr> part"] upload
    by (simp add: put_blob_callback_def [abs_def] Let_def)
  then have put: "answers E (put_blob_function E request publish blob i t h)" for i t h
    unfolding put_blob_function_def by (intro publish_step_answers publication_calls_step)
  have "answers E (init_publication_callback E request publish blob pub)" for pub
  proof (cases "pub_id pub")
    case (Some i)
    have "answers E (\<lambda>w. case GenerateUuid (write_env.truncate E) w of (h, w1) \<Rightarrow> put_blob_function E request publish blob i t h w1)" for t
      by (rule answers_uuid [OF put])
    with Some show ?thesis by (simp add: init_publication_callback_def answers_def Let_def)
  qed (simp add: init_publication_callback_def answers_def)
  then show ?thesis unfolding init_publication_function_def by (intro publish_step_answers publication_calls_step)
qed

lemma publish_greater_step:
  assumes "apis_found E" "clients_ok w" "\<not> stream_cancelled E w" "\<not> init_inprogress w"
  shows "\<exists>r w'. PublishDataGreaterThanTwentyMib E request w = Some (r, w') \<and> init_step E w w' \<and> \<not> init_inprogress w'"
proof -
  obtain e w1 where 1: "InitPublishDataGreaterThanTwentyMib E request w = Some (e, w1)" "init_step E w w1" "\<not> init_inprogress w1"
    "e = None \<Longrightarrow> apiclient_blob w1 \<noteq> None \<and> apiclient_publish w1 \<noteq> None"
    using init_greater_step [OF assms] by blast
  show ?thesis
  proof (cases e)
    case None
    then obtain b p where bp: "apiclient_blob w1 = Some b" "apiclient_publish w1 = Some p" using 1(4) by blast
    obtain r w2 where "init_publication_function E request p b w1 = Some (r, w2)" "init_step E w1 w2"
      using init_publication_answers unfolding answers_def by metis
    then show ?thesis using 1 None bp init_step_trans [OF 1(2)] init_step_unlocked [of E w1 w2]
      by (simp add: PublishDataGreaterThanTwentyMib_def)
  qed (use 1 in \<open>simp add: PublishDataGreaterThanTwentyMib_def\<close>)
qed

lemma PublishData_step:
  assumes "apis_found E" "clients_ok w" "\<not> stream_cancelled E w" "\<not> init_inprogress w"
  shows "\<exists>r w'. PublishData E request w = Some (r, w') \<and> init_step E w w' \<and> \<not> init_inprogress w'"
  using publish_less_step [OF assms, of request] publish_greater_step [OF assms, of request] assms(4)
  by (cases "pdr_data request") (simp_all add: PublishData_def)

lemma PublishSdii_step:
  assumes "apis_found E" "clients_ok w" "\<not> stream_cancelled E w" "\<not> init_inprogress w"
  shows "\<exists>r w'. PublishSdii E request w = Some (r, w') \<and> init_step E w w' \<and> \<not> init_inprogress w'"
proof (cases "psr_sdii_message_list request = None \<or> psr_layer_id request = []")
  case True
  then show ?thesis using assms(4) by (auto simp: PublishSdii_def)
next
  case False
  then obtain y where y: "psr_sdii_message_list request = Some y" "psr_layer_id request \<noteq> []" by auto
  let ?P = "\<not> has_address (apiclient_config w)"
  obtain w0 where 0: "(if ?P then AquireInitLock w else Some w) = Some w0" "clients_ok w0"
    "\<And>w'. init_step E w0 w' \<Longrightarrow> \<not> init_inprogress w' \<Longrightarrow> init_step E w w'"
    using acquired_step [OF assms(4), of ?P E] assms(2,3) by metis
  obtain e w1 where 1: "InitApiClients E w0 = Some (e, w1)" "init_step E w0 w1" "e = None \<Longrightarrow> apiclient_ingest w1 \<noteq> None"
    using InitApiClients_step [OF assms(1) 0(2)] by blast
  note fin = 0(3) [OF init_step_trans [OF 1(2)]]
  show ?thesis
  proof (cases e)
    case None
    let ?w = "NotifyInitCompleted w1"
    obtain c where c: "apiclient_ingest w1 = Some c" using 1(3) None by blast
    obtain r w2 where 2: "IngestSDII (write_env.truncate E) c (psr_layer_id request) (psr_sdii_message_list request) (psr_trace_id request)
        (psr_billing_tag request) (psr_checksum request) ?w = (r, w2)" "init_step E ?w (after_call E w2)" using sdii_step by metis
    show ?thesis using 0(1) 1(1) None c 2(1) y fin [OF init_step_release(2)] init_step_unlocked [OF 2(2)]
        fin [OF init_step_trans [OF init_step_release(2) 2(2)]]
      by (cases "stream_cancelled E ?w") (simp_all add: PublishSdii_def Let_def)
  qed (use 0(1) 1(1) y fin [OF init_step_release(1)] in \<open>simp add: PublishSdii_def\<close>)
qed

section \<open>The calls of a large publication\<close>

definition publication_calls :: "('c, 's) stream_env \<Rightarrow> PublishDataRequest \<Rightarrow> OlpClient \<Rightarrow> OlpClient \<Rightarrow> string \<Rightarrow> string \<Rightarrow> string \<Rightarrow> string \<Rightarrow> WriteCall list" where
  "publication_calls E request publish blob ctype publication_id handle part =
     (let tag = billing_params (pdr_billing_tag request); layer = pdr_layer_id request;
          json = \<lambda>method path body. \<lparr>wcall_client = publish, wcall_path = path, wcall_method = method, wcall_query = tag, wcall_headers = accept_json,
            wcall_body = body, wcall_content_type = ''application/json''\<rparr>
      in [json ''POST'' ''/publications'' (Some (serialize_Publication (we_codecs E) (Publication_new\<lparr>pub_layer_ids := Some [layer]\<rparr>))),
          \<lparr>wcall_client = blob, wcall_path = ''/layers/'' @ layer @ ''/data/'' @ handle, wcall_method = ''PUT'', wcall_query = tag,
           wcall_headers = accept_json, wcall_body = pdr_data request, wcall_content_type = ctype\<rparr>,
          json ''POST'' (''/layers/'' @ layer @ ''/publications/'' @ publication_id @ ''/partitions'')
            (Some (serialize_PublishPartitions (we_codecs E)
              \<lparr>pps_partitions = Some [PublishPartition_new\<lparr>pp_partition := Some part, pp_data_handle := Some handle\<rparr>]\<rparr>)),
          json ''PUT'' (''/publications/'' @ publication_id) None])"

text \<open>A function makes some of the calls of a list, from the first on, and all of them when it succeeds.\<close>

definition makes :: "nat \<Rightarrow> WriteCall list \<Rightarrow> ('r \<Rightarrow> bool) \<Rightarrow> (('c, 's) stream_world \<Rightarrow> ('c, 's, 'r ApiResponse) stream_answer) \<Rightarrow> bool" where
  "makes k cs P f \<longleftrightarrow> (\<forall>w r w'. ww_uuids w = k \<longrightarrow> f w = Some (r, w') \<longrightarrow>
     (\<exists>n. ww_calls w' = ww_calls w @ take n cs \<and> (\<forall>y. r = Inr y \<longrightarrow> n = length cs \<and> P y)))"

definition calls_once :: "(('c, 's) stream_world \<Rightarrow> 'a ApiResponse \<times> ('c, 's) stream_world) \<Rightarrow> WriteCall \<Rightarrow> bool" where
  "calls_once f call \<longleftrightarrow> (\<forall>w r w'. f w = (r, w') \<longrightarrow> ww_calls w' = ww_calls w @ [call] \<and> ww_uuids w' = ww_uuids w)"

lemma makes_step:
  assumes "calls_once f call" "\<And>x. makes k cs P (K x)"
  shows "makes k (call # cs) P (publish_step E f K)"
  unfolding makes_def
proof (intro allI impI)
  fix w r w' assume w: "ww_uuids w = k" "publish_step E f K w = Some (r, w')"
  obtain a w1 where a: "f w = (a, w1)" by (metis surj_pair)
  have c: "ww_calls (after_call E w1) = ww_calls w @ [call]" "ww_uuids (after_call E w1) = k"
    using assms(1) a w(1) by (auto simp: calls_once_def after_call_def)
  show "\<exists>n. ww_calls w' = ww_calls w @ take n (call # cs) \<and> (\<forall>y. r = Inr y \<longrightarrow> n = length (call # cs) \<and> P y)"
  proof (cases "stream_cancelled E w")
    case True
    then show ?thesis using w by (intro exI [of _ 0]) (auto simp: publish_step_def)
  next
    case False
    show ?thesis
    proof (cases a)
      case (Inl e)
      then show ?thesis using w a c False by (intro exI [of _ 1]) (auto simp: publish_step_def)
    next
      case (Inr x)
      then have "K x (after_call E w1) = Some (r, w')" using w a False by (simp add: publish_step_def)
      then obtain n where "ww_calls w' = ww_calls (after_call E w1) @ take n cs" "\<forall>y. r = Inr y \<longrightarrow> n = length cs \<and> P y"
        using assms(2) c(2) unfolding makes_def by blast
      then show ?thesis using c(1) by (intro exI [of _ "Suc n"]) simp
    qed
  qed
qed

lemma makes_uuid:
  assumes "makes (Suc k) cs P (f (we_uuid E k))"
  shows "makes k cs P (\<lambda>w. case GenerateUuid (write_env.truncate E) w of (u, w1) \<Rightarrow> f u w1)"
  unfolding makes_def
proof (intro allI impI)
  fix w r w' assume w: "ww_uuids w = k" "(case GenerateUuid (write_env.truncate E) w of (u, w1) \<Rightarrow> f u w1) = Some (r, w')"
  let ?w = "w\<lparr>ww_uuids := Suc k\<rparr>"
  have "f (we_uuid E k) ?w = Some (r, w')" "ww_uuids ?w = Suc k" "ww_calls ?w = ww_calls w" using w by (simp_all add: GenerateUuid_def)
  then show "\<exists>n. ww_calls w' = ww_calls w @ take n cs \<and> (\<forall>y. r = Inr y \<longrightarrow> n = length cs \<and> P y)"
    using assms unfolding makes_def by metis
qed

lemma makesD: "makes k cs P f \<Longrightarrow> ww_uuids w = k \<Longrightarrow> f w = Some (r, w') \<Longrightarrow>
    \<exists>n. ww_calls w' = ww_calls w @ take n cs \<and> (\<forall>y. r = Inr y \<longrightarrow> n = length cs \<and> P y)"
  unfolding makes_def by blast

lemma makes_Some: "P x \<Longrightarrow> makes k [] P (\<lambda>w. Some (Inr x, w))"
  by (simp add: makes_def)

lemma calls_onceI:
  fixes f :: "('c, 's) stream_world \<Rightarrow> 'a ApiResponse \<times> ('c, 's) stream_world"
  assumes "\<And>w. f w = (let (r, w1) = CallApi_write E call w in (g r, w1))"
  shows "calls_once f call"
  using assms by (auto simp: calls_once_def CallApi_write_def split: prod.splits)

lemma publication_calls_once:
  fixes E :: "('c, 's) stream_env"
  defines "W \<equiv> write_env.truncate E"
  shows "calls_once (InitPublication W publish (Publication_new\<lparr>pub_layer_ids := Some [pdr_layer_id request]\<rparr>) (pdr_billing_tag request) ::
      ('c, 's) stream_world \<Rightarrow> _) (publication_calls E request publish blob ctype i h part ! 0)"
    "calls_once (PutBlob W blob (pdr_layer_id request) ctype h (pdr_data request) (pdr_billing_tag request) :: ('c, 's) stream_world \<Rightarrow> _)
      (publication_calls E request publish blob ctype i h part ! 1)"
    "calls_once (UploadPartitions W publish \<lparr>pps_partitions = Some [PublishPartition_new\<lparr>pp_partition := Some part, pp_data_handle := Some h\<rparr>]\<rparr> i
      (pdr_layer_id request) (pdr_billing_tag request) :: ('c, 's) stream_world \<Rightarrow> _) (publication_calls E request publish blob ctype i h part ! 2)"
    "calls_once (SubmitPublication W publish i (pdr_billing_tag request) :: ('c, 's) stream_world \<Rightarrow> _) (publication_calls E request publish blob ctype i h part ! 3)"
  unfolding W_def
  by (rule calls_onceI [where E = "write_env.truncate E"],
      simp add: InitPublication_def PutBlob_def UploadPartitions_def SubmitPublication_def publication_call_def publication_calls_def Let_def numeral_eq_Suc)+

text \<open>The chain after the publication was opened.\<close>

lemma put_blob_makes:
  "makes k (tl (publication_calls E request publish blob ctype i h (we_uuid E k))) (\<lambda>x. ros_trace_id x = we_uuid E k)
     (put_blob_function E request publish blob i ctype h)"
proof -
  let ?cs = "\<lambda>part. publication_calls E request publish blob ctype i h part"
  have submit: "makes (Suc k) [?cs part ! 3] (\<lambda>x. ros_trace_id x = part) (submit_publication_function E request publish i part)" for part
    unfolding submit_publication_function_def by (rule makes_step [OF publication_calls_once(4) makes_Some]) simp
  have upload: "makes (Suc k) [?cs part ! 2, ?cs part ! 3] (\<lambda>x. ros_trace_id x = part) (upload_partitions_function E request publish i
      \<lparr>pps_partitions = Some [PublishPartition_new\<lparr>pp_partition := Some part, pp_data_handle := Some h\<rparr>]\<rparr> part)" for part
    unfolding upload_partitions_function_def by (rule makes_step [OF publication_calls_once(3) submit])
  have "makes k [?cs (we_uuid E k) ! 2, ?cs (we_uuid E k) ! 3] (\<lambda>x. ros_trace_id x = we_uuid E k) (put_blob_callback E request publish i h)"
    using makes_uuid [where f = "\<lambda>part. upload_partitions_function E request publish i
      \<lparr>pps_partitions = Some [PublishPartition_new\<lparr>pp_partition := Some part, pp_data_handle := Some h\<rparr>]\<rparr> part" and E = E, OF upload]
    by (simp add: put_blob_callback_def [abs_def] Let_def)
  then have "makes k (?cs (we_uuid E k) ! 1 # [?cs (we_uuid E k) ! 2, ?cs (we_uuid E k) ! 3]) (\<lambda>x. ros_trace_id x = we_uuid E k)
      (put_blob_function E request publish blob i ctype h)"
    unfolding put_blob_function_def by (rule makes_step [OF publication_calls_once(2)])
  then show ?thesis by (simp add: publication_calls_def Let_def numeral_eq_Suc)
qed

text \<open>The client is initialised: the addresses are known and so is the catalog.\<close>

definition initialised :: "OlpClient \<Rightarrow> OlpClient \<Rightarrow> ('c, 's) stream_world \<Rightarrow> bool" where
  "initialised publish blob w \<longleftrightarrow> has_address (apiclient_config w) \<and> apiclient_blob w = Some blob \<and> base_url blob \<noteq> [] \<and>
     apiclient_publish w = Some publish \<and> wc_id (catalog_model w) \<noteq> []"

lemma publication_initialised:
  assumes "initialised publish blob w" "\<not> stream_cancelled E w"
  shows "PublishDataGreaterThanTwentyMib E request w = init_publication_function E request publish blob (NotifyInitCompleted w)"
  using assms by (simp add: PublishDataGreaterThanTwentyMib_def InitPublishDataGreaterThanTwentyMib_def InitApiClients_def initialised_def has_address_def
    InitApiClientsGreaterThanTwentyMib_def InitCatalogModel_def)

lemma init_publication_calls:
  assumes "ww_uuids w = k" "init_publication_function E request publish blob w = Some (r, w')"
    "FindContentTypeForLayerId (pdr_layer_id request) w = ctype" "ctype \<noteq> []"
  shows "\<exists>i n. ww_calls w' = ww_calls w @ take n (publication_calls E request publish blob ctype i (we_uuid E k) (we_uuid E (Suc k))) \<and>
    (\<forall>y. r = Inr y \<longrightarrow> n = 4 \<and> ros_trace_id y = we_uuid E (Suc k))"
proof -
  let ?call = "InitPublication (write_env.truncate E) publish (Publication_new\<lparr>pub_layer_ids := Some [pdr_layer_id request]\<rparr>) (pdr_billing_tag request)"
  let ?cs = "\<lambda>i. publication_calls E request publish blob ctype i (we_uuid E k) (we_uuid E (Suc k))"
  have cs: "?cs i = ?cs i ! 0 # tl (?cs i)" "length (?cs i) = 4" "?cs i ! 0 = ?cs j ! 0" for i j by (simp_all add: publication_calls_def Let_def)
  have t1: "take 1 (?cs i) = [?cs i ! 0]" for i by (simp add: publication_calls_def Let_def)
  obtain a w1 where a: "?call w = (a, w1)" by (metis surj_pair)
  let ?w = "after_call E w1"
  have "ww_calls w1 = ww_calls w @ [?cs i ! 0]" "ww_uuids w1 = k" for i
    using publication_calls_once(1) [of E publish request blob ctype i "we_uuid E k" "we_uuid E (Suc k)"] a assms(1) by (auto simp: calls_once_def)
  then have 1: "ww_calls ?w = ww_calls w @ [?cs i ! 0]" "ww_uuids ?w = k" for i by (simp_all add: after_call_def)
  have m: "catalog_model ?w = catalog_model w" using a by (auto simp: InitPublication_def CallApi_write_def after_call_def Let_def split: prod.splits)
  have one: "\<exists>i n. ww_calls ?w = ww_calls w @ take n (?cs i) \<and> (\<forall>y. Inl x = Inr y \<longrightarrow> n = 4 \<and> ros_trace_id y = we_uuid E (Suc k))" for x :: ApiError
    unfolding 1(1) [of "[]"] using t1 [of "[]"] by (intro exI [of _ "[]"] exI [of _ 1]) simp
  show ?thesis
  proof (cases "stream_cancelled E w")
    case True
    then have "w' = w" "r = Inl cancelled_failure" using assms(2) by (simp_all add: init_publication_function_def publish_step_def)
    then show ?thesis by (intro exI [of _ "[]"] exI [of _ 0]) simp
  next
    case go: False
    have f: "init_publication_function E request publish blob w = (case a of Inl e \<Rightarrow> Some (Inl e, ?w) | Inr x \<Rightarrow> init_publication_callback E request publish blob x ?w)"
      using go a by (simp add: init_publication_function_def publish_step_def Let_def)
    show ?thesis
    proof (cases a)
      case (Inl e)
      then have "w' = ?w" "r = Inl e" using assms(2) f by simp_all
      then show ?thesis using one [of e] by (simp only:)
    next
      case (Inr pub)
      show ?thesis
      proof (cases "pub_id pub")
        case None
        then have "w' = ?w" "r = Inl ApiError_default" using assms(2) f Inr by (simp_all add: init_publication_callback_def)
        then show ?thesis using one [of ApiError_default] by (simp only:)
      next
        case (Some i)
        let ?w2 = "?w\<lparr>ww_uuids := Suc k\<rparr>"
        have "FindContentTypeForLayerId (pdr_layer_id request) ?w = ctype" using m assms(3) by (simp add: FindContentTypeForLayerId_def)
        then have "init_publication_callback E request publish blob pub ?w = put_blob_function E request publish blob i ctype (we_uuid E k) ?w2"
          using Some assms(4) 1(2) by (simp add: init_publication_callback_def GenerateUuid_def)
        then have "put_blob_function E request publish blob i ctype (we_uuid E k) ?w2 = Some (r, w')" using f Inr assms(2) by simp
        moreover have "ww_uuids ?w2 = Suc k" by simp
        ultimately have "\<exists>n. ww_calls w' = ww_calls ?w2 @ take n (tl (?cs i)) \<and> (\<forall>y. r = Inr y \<longrightarrow> n = length (tl (?cs i)) \<and> ros_trace_id y = we_uuid E (Suc k))"
          by (rule makesD [OF put_blob_makes, rotated])
        then obtain n where n: "ww_calls w' = ww_calls ?w2 @ take n (tl (?cs i))" "\<forall>y. r = Inr y \<longrightarrow> n = length (tl (?cs i)) \<and> ros_trace_id y = we_uuid E (Suc k)"
          by (elim exE conjE) (rule that)
        have "take (Suc n) (?cs i) = ?cs i ! 0 # take n (tl (?cs i))" using cs(1) [of i] by (metis take_Suc_Cons)
        moreover have "ww_calls ?w2 = ww_calls w @ [?cs i ! 0]" using 1(1) [of i] by simp
        moreover have "length (tl (?cs i)) = 3" using cs(2) [of i] by simp
        ultimately have "ww_calls w' = ww_calls w @ take (Suc n) (?cs i)" "\<forall>y. r = Inr y \<longrightarrow> Suc n = 4 \<and> ros_trace_id y = we_uuid E (Suc k)"
          using n by simp_all
        then show ?thesis by blast
      qed
    qed
  qed
qed

text \<open>What the lookup leaves: a client with the address found, or with that of the lookup service after an error.\<close>

lemma init_client_result:
  assumes "init_client E set_client n v w = Some (e, w')"
  shows "\<exists>c w2. w' = set_client c w2 \<and> same_clients w w2"
    "e = Some x \<Longrightarrow> write_DatastoreServerUrl (hrn_partition (we_catalog E)) \<noteq> [] \<Longrightarrow>
      \<exists>c w2. w' = set_client c w2 \<and> base_url c = write_DatastoreServerUrl (hrn_partition (we_catalog E))"
proof -
  let ?url = "write_DatastoreServerUrl (hrn_partition (we_catalog E))"
  obtain r c s cs where l: "Write_LookupApi (write_env.truncate E) (OlpClientFactory_Create (we_settings E)) n v w = (r, c, w\<lparr>ww_env := s, ww_calls := cs\<rparr>)"
    using lookup_world by metis
  then show "\<exists>c w2. w' = set_client c w2 \<and> same_clients w w2"
    using assms after_call_clients [of w E cs s] by (auto simp: init_client_def Let_def split: sum.splits list.splits)
  have "base_url c = ?url" if "?url \<noteq> []"
    using l that by (auto simp: Write_LookupApi_def Let_def SetBaseUrl_def split: prod.splits)
  then show "\<exists>c w2. w' = set_client c w2 \<and> base_url c = ?url" if "e = Some x" "?url \<noteq> []"
    using assms l that by (auto simp: init_client_def Let_def split: sum.splits list.splits)
qed

section \<open>Examples\<close>

text \<open>A service that answers with the given status codes.\<close>

definition example_flush_settings :: FlushSettings where
  "example_flush_settings = \<lparr>auto_flush_num_events = 20, auto_flush_interval = 0, auto_flush_time_period = None,
     auto_flush_old_events_force_flush_interval = 0, events_per_single_flush = None, maximum_requests = None\<rparr>"

definition example_request :: PublishDataRequest where
  "example_request = \<lparr>pdr_data = Some ''abc'', pdr_layer_id = ''l'', pdr_trace_id = None, pdr_billing_tag = None, pdr_checksum = None\<rparr>"

definition example_stream_env :: "'c stream_cache \<Rightarrow> (WriteCall \<Rightarrow> int) \<Rightarrow> ('c, unit) stream_env" where
  "example_stream_env K answer = \<lparr>we_server = \<lambda>call s. (\<lparr>status = answer call, response = ''ok''\<rparr>, s), we_codecs = example_codecs,
     we_uuid = \<lambda>n. replicate n CHR ''0'', we_catalog = HRN_null\<lparr>hrn_partition := ''here'', service := Data, catalogId := ''c''\<rparr>,
     we_settings = client_settings OlpClient_new, we_cancelled = \<lambda>_. False, se_cache = K, se_flush_settings = example_flush_settings,
     se_serialize = \<lambda>_. ''request'', se_parse = \<lambda>_. example_request\<rparr>"

definition no_cache_ops :: "unit stream_cache" where
  "no_cache_ops = \<lparr>st_Put = \<lambda>_ _ _ c. Some (False, c), st_Get = \<lambda>_ _ c. Some (AnyEmpty, c), st_Remove = \<lambda>_ c. Some (False, c)\<rparr>"

lemma example_stream_env_simps [simp]:
  "we_server (example_stream_env K answer) call s = (\<lparr>status = answer call, response = ''ok''\<rparr>, s)" "we_codecs (example_stream_env K answer) = example_codecs"
  "we_uuid (example_stream_env K answer) n = replicate n CHR ''0''" "we_settings (example_stream_env K answer) = client_settings OlpClient_new"
  "hrn_partition (we_catalog (example_stream_env K answer)) = ''here''" "we_cancelled (example_stream_env K answer) t = False"
  "se_cache (example_stream_env K answer) = K" "se_flush_settings (example_stream_env K answer) = example_flush_settings"
  by (simp_all add: example_stream_env_def)

lemma example_stream_env_ok: "apis_found (example_stream_env K answer)" "\<not> stream_cancelled (example_stream_env K answer) w"
  by (simp_all add: apis_found_def example_stream_env_def example_codecs_def stream_cancelled_def)

lemma StreamLayerClientImpl_new_ok: "clients_ok (StreamLayerClientImpl_new c s)" "\<not> init_inprogress (StreamLayerClientImpl_new c s)"
  by (simp_all add: StreamLayerClientImpl_new_def clients_ok_def)

definition example_large_request :: PublishDataRequest where
  "example_large_request = example_request\<lparr>pdr_data := Some (replicate 20971521 CHR ''x'')\<rparr>"

definition example_initialised :: "(unit, unit) stream_world" where
  "example_initialised = (StreamLayerClientImpl_new None ())\<lparr>apiclient_config := Some example_client, apiclient_ingest := Some example_client,
     apiclient_blob := Some example_client, apiclient_publish := Some example_client,
     catalog_model := WriteCatalog_new\<lparr>wc_id := ''c'', wc_layers := [WriteLayer_new\<lparr>wl_id := ''l'', wl_content_type := ''t''\<rparr>]\<rparr>\<rparr>"

section \<open>Properties\<close>



text \<open>
  The data of more than 20 MiB is published by four calls in this order: a publication is opened, the data is stored
  under a new handle, a new partition with this handle is added to the publication, and the publication is submitted.
  Each call is made only after the one before succeeded, and the request succeeds only when all four did.
\<close>

theorem large_publication_calls:
  assumes "initialised publish blob w" "\<not> stream_cancelled E w" "FindContentTypeForLayerId (pdr_layer_id request) w = ctype" "ctype \<noteq> []"
    "pdr_data request = Some data" "kTwentyMib < int (length data)" "PublishData E request w = Some (r, w')"
  shows "\<exists>i n. ww_calls w' = ww_calls w @ take n (publication_calls E request publish blob ctype i (we_uuid E (ww_uuids w)) (we_uuid E (Suc (ww_uuids w)))) \<and>
    (\<forall>y. r = Inr y \<longrightarrow> n = 4 \<and> ros_trace_id y = we_uuid E (Suc (ww_uuids w)))"
proof -
  have "init_publication_function E request publish blob (NotifyInitCompleted w) = Some (r, w')"
    using publication_initialised [OF assms(1,2), of request] assms(5-7) by (simp add: PublishData_def)
  from init_publication_calls [OF refl this] assms(3,4) show ?thesis
    by (simp add: NotifyInitCompleted_def FindContentTypeForLayerId_def)
qed

theorem large_publication_calls_witness:
  "\<exists>r w' i n. PublishData (example_stream_env no_cache_ops (\<lambda>_. 204)) example_large_request example_initialised = Some (r, w') \<and>
     ww_calls w' = take n (publication_calls (example_stream_env no_cache_ops (\<lambda>_. 204)) example_large_request example_client example_client ''t'' i [] ''0'')"
proof -
  let ?E = "example_stream_env no_cache_ops (\<lambda>_. 204)"
  have w: "initialised example_client example_client example_initialised" "clients_ok example_initialised" "\<not> init_inprogress example_initialised"
    "FindContentTypeForLayerId (pdr_layer_id example_large_request) example_initialised = ''t''" "ww_calls example_initialised = []" "ww_uuids example_initialised = 0"
    by (simp_all add: initialised_def has_address_def example_initialised_def example_client_def StreamLayerClientImpl_new_def clients_ok_def
      FindContentTypeForLayerId_def example_large_request_def example_request_def OlpClient_new_def WriteLayer_new_def)
  obtain r w' where p: "PublishData ?E example_large_request example_initialised = Some (r, w')"
    using PublishData_step [OF example_stream_env_ok(1) w(2) example_stream_env_ok(2) w(3)] by blast
  have t: "''t'' \<noteq> []" by simp
  have d: "pdr_data example_large_request = Some (replicate 20971521 CHR ''x'')" "kTwentyMib < int (length (replicate 20971521 CHR ''x''))"
    by (simp_all add: example_large_request_def kTwentyMib_def)
  have "\<exists>i n. ww_calls w' = ww_calls example_initialised @ take n (publication_calls ?E example_large_request example_client example_client ''t'' i
      (we_uuid ?E (ww_uuids example_initialised)) (we_uuid ?E (Suc (ww_uuids example_initialised))))"
    using large_publication_calls [OF w(1) example_stream_env_ok(2) w(4) t d p] by blast
  then show ?thesis using p unfolding w(5,6) by auto
qed

text \<open>
  When the lookup of the config service fails, the client it was made for keeps the address of the lookup service,
  so the next initialisation takes the client for initialised: it reports success without a call.
\<close>

theorem failed_lookup_sticks:
  assumes "apiclient_config w = None" "write_DatastoreServerUrl (hrn_partition (we_catalog E)) \<noteq> []"
    "InitApiClients E w = Some (Some e, w')" "apiclient_config w' \<noteq> None"
  shows "InitApiClients E w' = Some (None, w') \<and> map_option base_url (apiclient_config w') = Some (write_DatastoreServerUrl (hrn_partition (we_catalog E)))"
proof -
  obtain e1 w1 where 1: "init_client E (\<lambda>c w. w\<lparr>apiclient_ingest := Some c\<rparr>) ''ingest'' ''v1'' w = Some (e1, w1)"
    using assms(1,3) by (auto simp: InitApiClients_def has_address_def bind_Some_iff)
  obtain c w2 where c: "w1 = w2\<lparr>apiclient_ingest := Some c\<rparr>" "same_clients w w2" using init_client_result(1) [OF 1] by blast
  then have "apiclient_config w1 = None" using assms(1) by (simp add: same_clients_def)
  then have "init_client E (\<lambda>c w. w\<lparr>apiclient_config := Some c\<rparr>) ''config'' ''v1'' w1 = Some (Some e, w')"
    using assms(1,3,4) 1 by (auto simp: InitApiClients_def has_address_def split: option.splits if_splits)
  from init_client_result(2) [OF this refl assms(2)] obtain c' where "apiclient_config w' = Some c'" "base_url c' = write_DatastoreServerUrl (hrn_partition (we_catalog E))"
    by auto
  then show ?thesis using assms(2) by (simp add: InitApiClients_def has_address_def)
qed

theorem failed_lookup_sticks_witness:
  "\<exists>e w'. InitApiClients (example_stream_env no_cache_ops (\<lambda>call. if wcall_path call = ''/platform/apis/config/v1'' then 503 else 200)) (StreamLayerClientImpl_new None ())
       = Some (Some e, w') \<and>
     InitApiClients (example_stream_env no_cache_ops (\<lambda>call. if wcall_path call = ''/platform/apis/config/v1'' then 503 else 200)) w' = Some (None, w') \<and>
     map_option base_url (apiclient_config w') = Some ''https://api-lookup.data.api.platform.here.com/lookup/v1''"
proof -
  let ?E = "example_stream_env no_cache_ops (\<lambda>call. if wcall_path call = ''/platform/apis/config/v1'' then 503 else 200)"
  have u: "write_DatastoreServerUrl ''here'' = ''https://api-lookup.data.api.platform.here.com/lookup/v1''"
    by (simp add: write_DatastoreServerUrl_def)
  obtain e w' where i: "InitApiClients ?E (StreamLayerClientImpl_new None ()) = Some (Some e, w')" "apiclient_config w' \<noteq> None"
    by (auto simp: InitApiClients_def init_client_def StreamLayerClientImpl_new_def has_address_def Write_LookupApi_def u
      Resources_GetApis_def Platform_GetApis_def CallApi_write_def get_call_def api_response_def after_call_def stream_cancelled_def
      example_codecs_def Let_def)
  then show ?thesis using failed_lookup_sticks [OF _ _ i] u by (auto simp: StreamLayerClientImpl_new_def)
qed

end
