(* ===== verification/Stream_Queue.thy ===== *)
theory Stream_Queue
  imports Stream_Layer
begin

text \<open>
  The queue of a stream layer client in its cache, and flushing (\<open>StreamLayerClientImpl::Queue\<close>, \<open>PopFromQueue\<close> and
  \<open>Flush\<close>, modelled in \<open>Stream_Layer\<close>).

  The requests are kept in the cache under identifiers, and the identifiers in a list under a key of their own, separated
  by commas. The cache is any cache with the laws of the locale \<open>stream_cache_laws\<close>, which may drop items at any time;
  the locale is interpreted for the default cache in memory. The identifiers come from a random generator outside the
  repository: they are a sequence without repetitions and commas (\<open>uuids_ok\<close>).

  Shown: the requests that are popped are a subsequence of the accepted ones; a flush ends.
\<close>

section \<open>The cache of the queue\<close>

text \<open>The laws of the cache: it may drop items, and keeps the others.\<close>

locale stream_cache_laws =
  fixes K :: "'c stream_cache" and ok :: "'c \<Rightarrow> bool" and item :: "'c \<Rightarrow> string \<Rightarrow> stream_value any option"
  assumes item_nonempty: "ok c \<Longrightarrow> item c k \<noteq> Some AnyEmpty"
    and put: "ok c \<Longrightarrow> \<exists>r c'. st_Put K k v e c = Some (r, c') \<and> ok c' \<and> item c' \<subseteq>\<^sub>m (item c)(k \<mapsto> AnyModel v)"
    and get: "ok c \<Longrightarrow> \<exists>c'. st_Get K k dec c = Some (case item c k of None \<Rightarrow> AnyEmpty | Some v \<Rightarrow> v, c') \<and> ok c' \<and> item c' \<subseteq>\<^sub>m item c"
    and remove: "ok c \<Longrightarrow> \<exists>r c'. st_Remove K k c = Some (r, c') \<and> ok c' \<and> item c' \<subseteq>\<^sub>m (item c)(k := None)"

text \<open>The list of identifiers as it is written to the cache.\<close>

definition uuid_string :: "string list \<Rightarrow> string" where
  "uuid_string us = concat (map (\<lambda>u. u @ '','') us)"

fun stored_request :: "stream_value any option \<Rightarrow> PublishDataRequest list" where
  "stored_request (Some (AnyModel (SRequest r))) = [r]"
| "stored_request _ = []"

definition request_item :: "stream_value any option \<Rightarrow> bool" where
  "request_item i \<longleftrightarrow> i = None \<or> (\<exists>r. i = Some (AnyModel (SRequest r)))"

text \<open>
  The queue: the key of the list holds identifiers drawn so far, each at most once, and under each identifier
  is its request or nothing.
\<close>

definition queue_inv :: "('c, 's) stream_env \<Rightarrow> (string \<Rightarrow> stream_value any option) \<Rightarrow> nat \<Rightarrow> string list \<Rightarrow> bool" where
  "queue_inv E f n us \<longleftrightarrow> (f (GetUuidListKey E) = Some (AnyModel (SString (uuid_string us))) \<or> f (GetUuidListKey E) = None \<and> us = []) \<and>
     distinct us \<and> set us \<subseteq> we_uuid E ` {..<n} \<and> (\<forall>u \<in> set us. request_item (f u))"

definition queued_requests :: "(string \<Rightarrow> stream_value any option) \<Rightarrow> string list \<Rightarrow> PublishDataRequest list" where
  "queued_requests f us = concat (map (\<lambda>u. stored_request (f u)) us)"

text \<open>The identifiers: none is drawn twice, none has a comma or is the key of the list.\<close>

definition uuids_ok :: "('c, 's) stream_env \<Rightarrow> bool" where
  "uuids_ok E \<longleftrightarrow> inj (we_uuid E) \<and> (\<forall>n. CHR '','' \<notin> set (we_uuid E n) \<and> we_uuid E n \<noteq> GetUuidListKey E)"

lemma count_commas: "(\<And>u. u \<in> set us \<Longrightarrow> CHR '','' \<notin> set u) \<Longrightarrow> count_list (uuid_string us) CHR '','' = length us"
  by (induction us) (auto simp: uuid_string_def count_list_0_iff)

lemma uuid_string_simps [simp]: "uuid_string [] = []" "uuid_string (us @ [u]) = uuid_string us @ u @ '',''"
  by (simp_all add: uuid_string_def)

lemma uuid_string_Cons:
  assumes "CHR '','' \<notin> set u"
  shows "takeWhile (\<lambda>c. c \<noteq> CHR '','') (uuid_string (u # us)) = u" "CHR '','' \<in> set (uuid_string (u # us))"
    "drop (length u + 1) (uuid_string (u # us)) = uuid_string us" "take (length u) (uuid_string (u # us)) = u"
proof -
  show "takeWhile (\<lambda>c. c \<noteq> CHR '','') (uuid_string (u # us)) = u"
    using assms by (induction u) (auto simp: uuid_string_def)
qed (simp_all add: uuid_string_def)

lemma request_item_mono: "f \<subseteq>\<^sub>m g \<Longrightarrow> request_item (g u) \<Longrightarrow> request_item (f u)"
  by (auto simp: request_item_def map_le_def dom_def)

lemma stored_mono: "f \<subseteq>\<^sub>m g \<Longrightarrow> subseq (stored_request (f u)) (stored_request (g u))"
  by (cases "f u") (auto simp: map_le_def dom_def)

lemma queued_mono: "f \<subseteq>\<^sub>m g \<Longrightarrow> subseq (queued_requests f us) (queued_requests g us)"
  using stored_mono [of f g] by (induction us) (simp_all add: queued_requests_def list_emb_append_mono)

lemma queued_cong: "(\<And>u. u \<in> set us \<Longrightarrow> f u = g u) \<Longrightarrow> queued_requests f us = queued_requests g us"
  unfolding queued_requests_def by (metis (mono_tags, lifting) map_cong)

text \<open>Dropping items keeps the queue; when the list itself is dropped it is empty.\<close>

lemma queue_inv_mono:
  assumes "queue_inv E g n us" "f \<subseteq>\<^sub>m g"
  shows "\<exists>us'. queue_inv E f n us' \<and> (us' = us \<or> us' = []) \<and> subseq (queued_requests f us') (queued_requests g us)"
proof (cases "f (GetUuidListKey E)")
  case None
  then show ?thesis by (intro exI [of _ "[]"]) (simp add: queue_inv_def queued_requests_def)
next
  case (Some v)
  then have "g (GetUuidListKey E) = Some v" using assms(2) by (auto simp: map_le_def dom_def)
  then have "queue_inv E f n us" using assms Some request_item_mono [OF assms(2)] by (auto simp: queue_inv_def)
  then show ?thesis using queued_mono [OF assms(2)] by blast
qed

lemma queue_inv_uuids:
  assumes "uuids_ok E" "queue_inv E f n us" "v \<in> set us"
  shows "v \<noteq> GetUuidListKey E" "CHR '','' \<notin> set v" "v \<noteq> we_uuid E n"
proof -
  obtain m where "m < n" "v = we_uuid E m" using assms(2,3) by (auto simp: queue_inv_def)
  then show "v \<noteq> GetUuidListKey E" "CHR '','' \<notin> set v" "v \<noteq> we_uuid E n" using assms(1) by (auto simp: uuids_ok_def inj_def)
qed

lemma queue_inv_push_item:
  assumes "uuids_ok E" "queue_inv E f n us"
  shows "queue_inv E (f(we_uuid E n \<mapsto> AnyModel (SRequest r))) n us" "queued_requests (f(we_uuid E n \<mapsto> AnyModel (SRequest r))) us = queued_requests f us"
proof -
  note u = queue_inv_uuids [OF assms]
  have "we_uuid E n \<noteq> GetUuidListKey E" using assms(1) by (auto simp: uuids_ok_def)
  then show "queue_inv E (f(we_uuid E n \<mapsto> AnyModel (SRequest r))) n us" using assms(2) u(3) by (auto simp: queue_inv_def)
  show "queued_requests (f(we_uuid E n \<mapsto> AnyModel (SRequest r))) us = queued_requests f us" using u(3) by (intro queued_cong) auto
qed

lemma queue_inv_push:
  assumes "uuids_ok E" "queue_inv E f n us" "request_item (f (we_uuid E n))"
  defines "g \<equiv> f(GetUuidListKey E \<mapsto> AnyModel (SString (uuid_string us @ we_uuid E n @ '','')))"
  shows "queue_inv E g (Suc n) (us @ [we_uuid E n])" "queued_requests g (us @ [we_uuid E n]) = queued_requests f us @ stored_request (f (we_uuid E n))"
proof -
  note u = queue_inv_uuids [OF assms(1,2)]
  have k: "we_uuid E n \<noteq> GetUuidListKey E" using assms(1) by (auto simp: uuids_ok_def)
  have "we_uuid E n \<notin> set us" using u(3) by blast
  then show "queue_inv E g (Suc n) (us @ [we_uuid E n])"
    using assms(2,3) u(1) k unfolding g_def by (auto simp: queue_inv_def lessThan_Suc)
  have "queued_requests g us = queued_requests f us" using u(1) unfolding g_def by (intro queued_cong) auto
  then show "queued_requests g (us @ [we_uuid E n]) = queued_requests f us @ stored_request (f (we_uuid E n))"
    using k unfolding g_def by (simp add: queued_requests_def)
qed

lemma queue_inv_pop:
  assumes "uuids_ok E" "queue_inv E f n (u # us)"
  shows "queue_inv E (f(u := None, GetUuidListKey E \<mapsto> AnyModel (SString (uuid_string us)))) n us"
    "queued_requests f (u # us) = stored_request (f u) @ queued_requests (f(u := None, GetUuidListKey E \<mapsto> AnyModel (SString (uuid_string us)))) us"
proof -
  have u: "\<And>v. v \<in> set (u # us) \<Longrightarrow> v \<noteq> GetUuidListKey E" "u \<notin> set us"
    using queue_inv_uuids(1) [OF assms] assms(2) by (auto simp: queue_inv_def)
  then show "queue_inv E (f(u := None, GetUuidListKey E \<mapsto> AnyModel (SString (uuid_string us)))) n us"
    using assms(2) by (auto simp: queue_inv_def)
  have "queued_requests (f(u := None, GetUuidListKey E \<mapsto> AnyModel (SString (uuid_string us)))) us = queued_requests f us"
    using u by (intro queued_cong) auto
  then show "queued_requests f (u # us) = stored_request (f u) @ queued_requests (f(u := None, GetUuidListKey E \<mapsto> AnyModel (SString (uuid_string us)))) us"
    by (simp add: queued_requests_def)
qed

text \<open>The operations on a cache with these laws.\<close>

definition queue_on :: "('c \<Rightarrow> bool) \<Rightarrow> ('c \<Rightarrow> string \<Rightarrow> stream_value any option) \<Rightarrow> ('c, 's) stream_env \<Rightarrow> ('c, 's) stream_world \<Rightarrow> 'c \<Rightarrow> string list \<Rightarrow> bool" where
  "queue_on ok item E w c us \<longleftrightarrow> sw_cache w = Some c \<and> ok c \<and> queue_inv E (item c) (ww_uuids w) us"

text \<open>
  What a flush does to the world: the requests it publishes, one response each, in the order of the queue, within
  the bound on their number.
\<close>

definition flushed :: "('c, 's) stream_env \<Rightarrow> int option \<Rightarrow> int \<Rightarrow> ResponseOkSingle ApiResponse list \<Rightarrow> ('c, 's) stream_world \<Rightarrow> PublishDataRequest list \<Rightarrow>
    ResponseOkSingle ApiResponse list \<Rightarrow> ('c, 's) stream_world \<Rightarrow> PublishDataRequest list \<Rightarrow> PublishDataRequest list \<Rightarrow> bool" where
  "flushed E m num rs w q rs' w' q' ps \<longleftrightarrow> clients_ok w' \<and> \<not> init_inprogress w' \<and> sw_published w' = sw_published w @ ps \<and> length rs' = length rs + length ps \<and>
     subseq ps q \<and> (\<not> stream_cancelled E w' \<longrightarrow> subseq (ps @ q') q) \<and> (\<forall>k. m = Some k \<longrightarrow> num + int (length ps) \<le> max num k)"

context stream_cache_laws
begin

lemma get_list_law:
  assumes "se_cache E = K" "queue_on ok item E w c us"
  obtains c' us' where "get_uuid_list E w = Some (case item c (GetUuidListKey E) of None \<Rightarrow> None | _ \<Rightarrow> Some (uuid_string us), w\<lparr>sw_cache := Some c'\<rparr>)"
    "item c' \<subseteq>\<^sub>m item c" "queue_on ok item E (w\<lparr>sw_cache := Some c'\<rparr>) c' us'" "us' = us \<or> us' = []"
    "subseq (queued_requests (item c') us') (queued_requests (item c) us)"
proof -
  have c: "sw_cache w = Some c" "ok c" "queue_inv E (item c) (ww_uuids w) us" using assms(2) by (simp_all add: queue_on_def)
  obtain c' where g: "st_Get K (GetUuidListKey E) (\<lambda>s. AnyModel (SString s)) c =
      Some (case item c (GetUuidListKey E) of None \<Rightarrow> AnyEmpty | Some v \<Rightarrow> v, c')" "ok c'" "item c' \<subseteq>\<^sub>m item c"
    using get [OF c(2)] by blast
  obtain us' where us': "queue_inv E (item c') (ww_uuids w) us'" "us' = us \<or> us' = []" "subseq (queued_requests (item c') us') (queued_requests (item c) us)"
    using queue_inv_mono [OF c(3) g(3)] by blast
  have "get_uuid_list E w = Some (case item c (GetUuidListKey E) of None \<Rightarrow> None | _ \<Rightarrow> Some (uuid_string us), w\<lparr>sw_cache := Some c'\<rparr>)"
    using c g(1) assms(1) by (auto simp: get_uuid_list_def stream_get_def queue_inv_def)
  then show thesis using that g us' by (auto simp: queue_on_def)
qed

lemma queue_size_law:
  assumes "se_cache E = K" "uuids_ok E" "queue_on ok item E w c us"
  obtains c' us' where "QueueSize E w = Some (length us, w\<lparr>sw_cache := Some c'\<rparr>)" "queue_on ok item E (w\<lparr>sw_cache := Some c'\<rparr>) c' us'"
    "us' = us \<or> us' = []" "subseq (queued_requests (item c') us') (queued_requests (item c) us)"
proof -
  have q: "queue_inv E (item c) (ww_uuids w) us" using assms(3) by (simp add: queue_on_def)
  then have "count_list (uuid_string us) CHR '','' = length us" using queue_inv_uuids(2) [OF assms(2)] by (intro count_commas) blast
  moreover have "us = []" if "item c (GetUuidListKey E) = None" using q that by (simp add: queue_inv_def)
  moreover obtain c' us' where g: "get_uuid_list E w = Some (case item c (GetUuidListKey E) of None \<Rightarrow> None | _ \<Rightarrow> Some (uuid_string us), w\<lparr>sw_cache := Some c'\<rparr>)"
    "queue_on ok item E (w\<lparr>sw_cache := Some c'\<rparr>) c' us'" "us' = us \<or> us' = []" "subseq (queued_requests (item c') us') (queued_requests (item c) us)"
    using get_list_law [OF assms(1,3)] by metis
  ultimately have "QueueSize E w = Some (length us, w\<lparr>sw_cache := Some c'\<rparr>)" by (auto simp: QueueSize_def split: option.split)
  then show thesis using that g(2-4) by blast
qed

lemma put_law:
  assumes "se_cache E = K" "sw_cache w = Some c" "ok c"
  shows "\<exists>c'. stream_put E k v e w = Some (w\<lparr>sw_cache := Some c'\<rparr>) \<and> ok c' \<and> item c' \<subseteq>\<^sub>m (item c)(k \<mapsto> AnyModel v)"
  using put [OF assms(3), of k v e] assms(1,2) by (auto simp: stream_put_def)

lemma push_law:
  assumes "se_cache E = K" "uuids_ok E" "queue_on ok item E w c us"
  obtains c' us' where "push_request E r w = Some (w\<lparr>ww_uuids := ww_uuids w + 1, sw_cache := Some c'\<rparr>)"
    "queue_on ok item E (w\<lparr>ww_uuids := ww_uuids w + 1, sw_cache := Some c'\<rparr>) c' us'"
    "subseq (queued_requests (item c') us') (queued_requests (item c) us @ [r])"
proof -
  let ?n = "ww_uuids w" and ?u = "we_uuid E (ww_uuids w)" and ?k = "GetUuidListKey E"
  have c: "sw_cache w = Some c" "ok c" "queue_inv E (item c) ?n us" using assms(3) by (simp_all add: queue_on_def)
  let ?w1 = "w\<lparr>ww_uuids := ?n + 1\<rparr>"
  obtain c1 where 1: "stream_put E ?u (SRequest r) (se_serialize E r) ?w1 = Some (?w1\<lparr>sw_cache := Some c1\<rparr>)" "ok c1"
    "item c1 \<subseteq>\<^sub>m (item c)(?u \<mapsto> AnyModel (SRequest r))" using put_law [OF assms(1), of ?w1 c] c by fastforce
  obtain us1 where us1: "queue_inv E (item c1) ?n us1" "subseq (queued_requests (item c1) us1) (queued_requests (item c) us)"
    using queue_inv_mono [OF queue_inv_push_item(1) [OF assms(2) c(3)] 1(3)] queue_inv_push_item(2) [OF assms(2) c(3)] by metis
  have u1: "request_item (item c1 ?u)" "subseq (stored_request (item c1 ?u)) [r]"
    using request_item_mono [OF 1(3), of ?u] stored_mono [OF 1(3), of ?u] by (simp_all add: request_item_def)
  have "queue_inv E (item c1) (Suc ?n) us1" using us1(1) by (auto simp: queue_inv_def)
  then have "queue_on ok item E (?w1\<lparr>sw_cache := Some c1\<rparr>) c1 us1" using 1(2) by (simp add: queue_on_def)
  then obtain c2 where 2: "get_uuid_list E (?w1\<lparr>sw_cache := Some c1\<rparr>) = Some (case item c1 ?k of None \<Rightarrow> None | _ \<Rightarrow> Some (uuid_string us1),
      ?w1\<lparr>sw_cache := Some c1, sw_cache := Some c2\<rparr>)" "item c2 \<subseteq>\<^sub>m item c1" "ok c2"
    using get_list_law [OF assms(1)] by (metis queue_on_def)
  have l: "(case (case item c1 ?k of None \<Rightarrow> None | _ \<Rightarrow> Some (uuid_string us1)) of None \<Rightarrow> [] | Some s \<Rightarrow> s) = uuid_string us1"
    using us1(1) by (auto simp: queue_inv_def)
  obtain c3 where 3: "stream_put E ?k (SString (uuid_string us1 @ ?u @ '','')) (uuid_string us1 @ ?u @ '','') (?w1\<lparr>sw_cache := Some c2\<rparr>) = Some (?w1\<lparr>sw_cache := Some c3\<rparr>)"
    "ok c3" "item c3 \<subseteq>\<^sub>m (item c2)(?k \<mapsto> AnyModel (SString (uuid_string us1 @ ?u @ '','')))"
    using put_law [OF assms(1), of "?w1\<lparr>sw_cache := Some c2\<rparr>" c2] 2(3) by fastforce
  have m: "item c3 \<subseteq>\<^sub>m (item c1)(?k \<mapsto> AnyModel (SString (uuid_string us1 @ ?u @ '','')))"
    using map_le_trans [OF 3(3) map_le_upd [OF 2(2)]] .
  obtain us3 where "queue_inv E (item c3) (Suc ?n) us3" "subseq (queued_requests (item c3) us3) (queued_requests (item c1) us1 @ stored_request (item c1 ?u))"
    using queue_inv_mono [OF queue_inv_push(1) [OF assms(2) us1(1) u1(1)] m] queue_inv_push(2) [OF assms(2) us1(1) u1(1)] by metis
  moreover have "push_request E r w = Some (?w1\<lparr>sw_cache := Some c3\<rparr>)"
    using 1(1) 2(1) 3(1) l by (simp add: push_request_def GenerateUuid_def)
  moreover have "subseq (queued_requests (item c1) us1 @ stored_request (item c1 ?u)) (queued_requests (item c) us @ [r])"
    using us1(2) u1(2) by (rule list_emb_append_mono)
  ultimately show thesis using that [of c3 us3] 3(2) by (auto simp: queue_on_def intro: subseq_order.trans)
qed

lemma pop_law:
  assumes "se_cache E = K" "uuids_ok E" "queue_on ok item E w c us"
  shows "\<exists>x c' us'. PopFromQueue E w = Some (x, w\<lparr>sw_cache := Some c'\<rparr>) \<and> queue_on ok item E (w\<lparr>sw_cache := Some c'\<rparr>) c' us' \<and>
    subseq ((case x of None \<Rightarrow> [] | Some r \<Rightarrow> [r]) @ queued_requests (item c') us') (queued_requests (item c) us) \<and> length us' \<le> length us - 1"
proof -
  let ?k = "GetUuidListKey E"
  have c: "sw_cache w = Some c" "ok c" "queue_inv E (item c) (ww_uuids w) us" using assms(3) by (simp_all add: queue_on_def)
  obtain c1 us1 where 1: "get_uuid_list E w = Some (case item c ?k of None \<Rightarrow> None | _ \<Rightarrow> Some (uuid_string us), w\<lparr>sw_cache := Some c1\<rparr>)"
    "item c1 \<subseteq>\<^sub>m item c" "queue_on ok item E (w\<lparr>sw_cache := Some c1\<rparr>) c1 us1" "us1 = us \<or> us1 = []"
    "subseq (queued_requests (item c1) us1) (queued_requests (item c) us)" using get_list_law [OF assms(1,3)] .
  have l: "item c ?k \<noteq> None" if "us \<noteq> []" using c(3) that by (auto simp: queue_inv_def)
  show ?thesis
  proof (cases us)
    case Nil
    then show ?thesis using 1 by (intro exI [of _ None] exI [of _ c1] exI [of _ us1]) (auto simp: PopFromQueue_def split: option.split)
  next
    case (Cons u vs)
    have u: "CHR '','' \<notin> set u" using queue_inv_uuids(2) [OF assms(2) c(3)] Cons by simp
    have ok1: "ok c1" using 1(3) by (simp add: queue_on_def)
    obtain c2 where 2: "st_Get K u (\<lambda>s. AnyModel (SRequest (se_parse E s))) c1 = Some (case item c1 u of None \<Rightarrow> AnyEmpty | Some v \<Rightarrow> v, c2)"
      "ok c2" "item c2 \<subseteq>\<^sub>m item c1" using get [OF ok1] by blast
    obtain b c3 where 3: "st_Remove K u c2 = Some (b, c3)" "ok c3" "item c3 \<subseteq>\<^sub>m (item c2)(u := None)" using remove [OF 2(2)] by blast
    obtain c4 where 4: "stream_put E ?k (SString (uuid_string vs)) (uuid_string vs) (w\<lparr>sw_cache := Some c3\<rparr>) = Some (w\<lparr>sw_cache := Some c3, sw_cache := Some c4\<rparr>)"
      "ok c4" "item c4 \<subseteq>\<^sub>m (item c3)(?k \<mapsto> AnyModel (SString (uuid_string vs)))"
      using put_law [OF assms(1), of "w\<lparr>sw_cache := Some c3\<rparr>" c3] 3(2) by fastforce
    have "item c3 \<subseteq>\<^sub>m (item c)(u := None)"
      using map_le_trans [OF 3(3)] map_le_trans [OF 2(3) 1(2)] by (metis map_le_upd)
    then have m: "item c4 \<subseteq>\<^sub>m (item c)(u := None, ?k \<mapsto> AnyModel (SString (uuid_string vs)))"
      using map_le_trans [OF 4(3) map_le_upd] by blast
    obtain us4 where us4: "queue_inv E (item c4) (ww_uuids w) us4" "us4 = vs \<or> us4 = []"
      "subseq (queued_requests (item c4) us4) (queued_requests ((item c)(u := None, ?k \<mapsto> AnyModel (SString (uuid_string vs)))) vs)"
      using queue_inv_mono [OF queue_inv_pop(1) [OF assms(2) c(3) [unfolded Cons]] m] by blast
    have r: "request_item (item c1 u)" using c(3) Cons request_item_mono [OF 1(2)] by (auto simp: queue_inv_def)
    let ?x = "case item c1 u of Some (AnyModel (SRequest r)) \<Rightarrow> Some r | _ \<Rightarrow> None"
    have x: "(case ?x of None \<Rightarrow> [] | Some r \<Rightarrow> [r]) = stored_request (item c1 u)" using r by (auto simp: request_item_def)
    have "PopFromQueue E w = Some (?x, w\<lparr>sw_cache := Some c4\<rparr>)"
      using 1(1) l Cons 2(1) 3(1) 4(1) r u assms(1)
      by (auto simp: PopFromQueue_def uuid_string_Cons [OF u] stream_get_def stream_remove_def request_item_def simp del: One_nat_def add_Suc_right)
    moreover have "subseq ((case ?x of None \<Rightarrow> [] | Some r \<Rightarrow> [r]) @ queued_requests (item c4) us4) (queued_requests (item c) us)"
      unfolding x Cons queue_inv_pop(2) [OF assms(2) c(3) [unfolded Cons]] using stored_mono [OF 1(2)] us4(3) by (rule list_emb_append_mono)
    ultimately show ?thesis using us4 4(2) Cons
      by (intro exI [of _ ?x] exI [of _ c4] exI [of _ us4]) (auto simp: queue_on_def)
  qed
qed

lemma queue_law:
  assumes "se_cache E = K" "uuids_ok E" "queue_on ok item E w c us"
  shows "\<exists>e n c' es us'. Queue E r w = Some (e, w\<lparr>ww_uuids := n, sw_cache := Some c', sw_events := es\<rparr>) \<and>
    queue_on ok item E (w\<lparr>ww_uuids := n, sw_cache := Some c', sw_events := es\<rparr>) c' us' \<and>
    subseq (queued_requests (item c') us') (queued_requests (item c) us @ (if e = None then [r] else []))"
proof -
  have c: "sw_cache w = Some c" using assms(3) by (simp add: queue_on_def)
  then have wc: "w\<lparr>sw_cache := Some c\<rparr> = w" by (cases w) simp
  show ?thesis
  proof (cases "pdr_data r = None \<or> pdr_layer_id r = []")
    case True
    then obtain e where "Queue E r w = Some (Some e, w)" using c that by (cases "pdr_data r") (auto simp: Queue_def)
    then have "Queue E r w = Some (Some e, w\<lparr>ww_uuids := ww_uuids w, sw_cache := Some c, sw_events := sw_events w\<rparr>)" using wc by simp
    then show ?thesis using assms(3) by (intro exI [of _ "Some e"] exI [of _ "ww_uuids w"] exI [of _ c] exI [of _ "sw_events w"] exI [of _ us]) (simp add: queue_on_def)
  next
    case False
    obtain full c1 us1 where 1: "(case maximum_requests (se_flush_settings E) of None \<Rightarrow> Some (False, w)
        | Some m \<Rightarrow> Option.bind (QueueSize E w) (\<lambda>(n, w1). Some (\<not> n < unat m, w1))) = Some (full, w\<lparr>sw_cache := Some c1\<rparr>)"
      "queue_on ok item E (w\<lparr>sw_cache := Some c1\<rparr>) c1 us1" "subseq (queued_requests (item c1) us1) (queued_requests (item c) us)"
    proof (cases "maximum_requests (se_flush_settings E)")
      case None
      show thesis by (rule that [of False c us]) (use None c wc assms(3) in \<open>auto simp: queue_on_def\<close>)
    next
      case (Some m)
      obtain c1 us1 where "QueueSize E w = Some (length us, w\<lparr>sw_cache := Some c1\<rparr>)" "queue_on ok item E (w\<lparr>sw_cache := Some c1\<rparr>) c1 us1"
        "subseq (queued_requests (item c1) us1) (queued_requests (item c) us)" using queue_size_law [OF assms] by metis
      then show thesis using that [of "\<not> length us < unat m" c1 us1] Some by simp
    qed
    let ?w1 = "note_event QueueEventStart (w\<lparr>sw_cache := Some c1\<rparr>)"
    have "queue_on ok item E ?w1 c1 us1" using 1(2) by (simp add: queue_on_def note_event_def)
    then obtain c2 us2 where 2: "push_request E r ?w1 = Some (?w1\<lparr>ww_uuids := ww_uuids ?w1 + 1, sw_cache := Some c2\<rparr>)"
      "queue_on ok item E (?w1\<lparr>ww_uuids := ww_uuids ?w1 + 1, sw_cache := Some c2\<rparr>) c2 us2"
      "subseq (queued_requests (item c2) us2) (queued_requests (item c1) us1 @ [r])" using push_law [OF assms(1,2)] by blast
    show ?thesis
    proof (cases full)
      case True
      then show ?thesis using 1 False c
        by (intro exI [of _ "Some ''Maximum number of requests has reached''"] exI [of _ "ww_uuids w"] exI [of _ c1] exI [of _ "sw_events w"] exI [of _ us1])
          (auto simp: Queue_def queue_on_def)
    next
      case go: False
      have "Queue E r w = Some (None, w\<lparr>ww_uuids := ww_uuids w + 1, sw_cache := Some c2, sw_events := sw_events w @ [QueueEventStart, QueueEventComplete]\<rparr>)"
        using False c 1(1) go 2(1) by (auto simp: Queue_def note_event_def)
      moreover have "subseq (queued_requests (item c2) us2) (queued_requests (item c) us @ [r])"
        using subseq_order.trans [OF 2(3) list_emb_append_mono [OF 1(3) subseq_order.refl]] .
      ultimately show ?thesis using 2(2) by (auto simp: queue_on_def note_event_def)
    qed
  qed
qed

lemma queue_inv_le: "queue_inv E f n us \<Longrightarrow> n \<le> m \<Longrightarrow> queue_inv E f m us"
  by (auto simp: queue_inv_def)

text \<open>The cases of an iteration of the loop.\<close>

lemma flush_loop_stop:
  assumes "se_cache E = K" "uuids_ok E" "queue_on ok item E w c us" "clients_ok w" "\<not> init_inprogress w"
    "\<not> ((case m of None \<Rightarrow> True | Some k \<Rightarrow> num < k) \<and> us \<noteq> [])"
  shows "\<exists>w' c' us'. Flush_loop E m num rs w = Some (rs, w') \<and> queue_on ok item E w' c' us' \<and>
    flushed E m num rs w (queued_requests (item c) us) rs w' (queued_requests (item c') us') []"
proof (cases "case m of None \<Rightarrow> True | Some k \<Rightarrow> num < k")
  case True
  then have us: "us = []" using assms(6) by blast
  obtain c1 us1 where 1: "QueueSize E w = Some (length us, w\<lparr>sw_cache := Some c1\<rparr>)" "queue_on ok item E (w\<lparr>sw_cache := Some c1\<rparr>) c1 us1"
    "subseq (queued_requests (item c1) us1) (queued_requests (item c) us)" using queue_size_law [OF assms(1-3)] by metis
  have "Flush_loop E m num rs w = Some (rs, w\<lparr>sw_cache := Some c1\<rparr>)" using True us 1(1) by (simp add: Flush_loop.simps [of E m num rs w])
  moreover have "flushed E m num rs w (queued_requests (item c) us) rs (w\<lparr>sw_cache := Some c1\<rparr>) (queued_requests (item c1) us1) []"
    using 1(3) assms(4,5) by (simp add: flushed_def clients_ok_def)
  ultimately show ?thesis using 1(2) by blast
next
  case False
  have "flushed E m num rs w (queued_requests (item c) us) rs w (queued_requests (item c) us) []" using assms(4,5) by (simp add: flushed_def)
  then show ?thesis using False assms(3) by (auto simp: Flush_loop.simps [of E m num rs w])
qed

lemma flush_loop_pop:
  assumes "se_cache E = K" "uuids_ok E" "queue_on ok item E w c us" "case m of None \<Rightarrow> True | Some k \<Rightarrow> num < k" "us \<noteq> []"
  shows "\<exists>x c2 us2. queue_on ok item E (w\<lparr>sw_cache := Some c2\<rparr>) c2 us2 \<and> length us2 < length us \<and>
    subseq ((case x of None \<Rightarrow> [] | Some r \<Rightarrow> [r]) @ queued_requests (item c2) us2) (queued_requests (item c) us) \<and>
    Flush_loop E m num rs w = (case x of None \<Rightarrow> Flush_loop E m num rs (w\<lparr>sw_cache := Some c2\<rparr>)
      | Some r \<Rightarrow> let w3 = note_event FlushEvent (w\<lparr>sw_cache := Some c2\<rparr>)
          in Option.bind (if stream_cancelled E w3 then Some (rs, w3)
               else map_option (\<lambda>(a, w4). (rs @ [a], w4)) (PublishData E r (w3\<lparr>sw_published := sw_published w3 @ [r]\<rparr>)))
             (\<lambda>(rs, w4). if stream_cancelled E w4 then map_option (\<lambda>(_, w5). (rs, w5)) (Queue E r w4) else Flush_loop E m (num + 1) rs w4))"
proof -
  obtain c1 us1 where 1: "QueueSize E w = Some (length us, w\<lparr>sw_cache := Some c1\<rparr>)" "queue_on ok item E (w\<lparr>sw_cache := Some c1\<rparr>) c1 us1"
    "us1 = us \<or> us1 = []" "subseq (queued_requests (item c1) us1) (queued_requests (item c) us)" using queue_size_law [OF assms(1-3)] .
  obtain x c2 us2 where 2: "PopFromQueue E (w\<lparr>sw_cache := Some c1\<rparr>) = Some (x, w\<lparr>sw_cache := Some c1, sw_cache := Some c2\<rparr>)"
    "queue_on ok item E (w\<lparr>sw_cache := Some c1, sw_cache := Some c2\<rparr>) c2 us2"
    "subseq ((case x of None \<Rightarrow> [] | Some r \<Rightarrow> [r]) @ queued_requests (item c2) us2) (queued_requests (item c1) us1)" "length us2 \<le> length us1 - 1"
    using pop_law [OF assms(1,2) 1(2)] by blast
  have "length us2 < length us" using assms(5) 1(3) 2(4) by (cases us) auto
  moreover have "Flush_loop E m num rs w = (case x of None \<Rightarrow> Flush_loop E m num rs (w\<lparr>sw_cache := Some c2\<rparr>)
      | Some r \<Rightarrow> let w3 = note_event FlushEvent (w\<lparr>sw_cache := Some c2\<rparr>)
          in Option.bind (if stream_cancelled E w3 then Some (rs, w3)
               else map_option (\<lambda>(a, w4). (rs @ [a], w4)) (PublishData E r (w3\<lparr>sw_published := sw_published w3 @ [r]\<rparr>)))
             (\<lambda>(rs, w4). if stream_cancelled E w4 then map_option (\<lambda>(_, w5). (rs, w5)) (Queue E r w4) else Flush_loop E m (num + 1) rs w4))"
    using assms(4,5) 1(1) 2(1) by (simp add: Flush_loop.simps [of E m num rs w])
  ultimately show ?thesis using 2(2) subseq_order.trans [OF 2(3) 1(4)] by auto
qed

lemma flush_requeue:
  assumes "se_cache E = K" "uuids_ok E" "queue_on ok item E w4 c2 us2" "clients_ok w4" "\<not> init_inprogress w4" "stream_cancelled E w4"
    "sw_published w4 = sw_published w @ ps" "length rs' = length rs + length ps" "subseq ps q" "\<forall>k. m = Some k \<longrightarrow> num + int (length ps) \<le> max num k"
  shows "\<exists>w' c' us'. map_option (\<lambda>(_, w5). (rs', w5)) (Queue E r w4) = Some (rs', w') \<and> queue_on ok item E w' c' us' \<and>
    flushed E m num rs w q rs' w' (queued_requests (item c') us') ps"
proof -
  obtain e n c5 es us5 where Q: "Queue E r w4 = Some (e, w4\<lparr>ww_uuids := n, sw_cache := Some c5, sw_events := es\<rparr>)"
    "queue_on ok item E (w4\<lparr>ww_uuids := n, sw_cache := Some c5, sw_events := es\<rparr>) c5 us5" using queue_law [OF assms(1-3)] by blast
  have "flushed E m num rs w q rs' (w4\<lparr>ww_uuids := n, sw_cache := Some c5, sw_events := es\<rparr>) (queued_requests (item c5) us5) ps"
    using assms(4-10) by (simp add: flushed_def clients_ok_def stream_cancelled_def)
  then show ?thesis using Q by auto
qed

lemma flush_loop_published:
  assumes "se_cache E = K" "uuids_ok E" "apis_found E" "clients_ok w" "\<not> init_inprogress w" "case m of None \<Rightarrow> True | Some k \<Rightarrow> num < k"
    "queue_on ok item E (w\<lparr>sw_cache := Some c2\<rparr>) c2 us2" "subseq (r # queued_requests (item c2) us2) q"
    and IH: "\<And>w4 rs. queue_on ok item E w4 c2 us2 \<Longrightarrow> clients_ok w4 \<Longrightarrow> \<not> init_inprogress w4 \<Longrightarrow>
      \<exists>rs' w' c' us' ps. Flush_loop E m (num + 1) rs w4 = Some (rs', w') \<and> queue_on ok item E w' c' us' \<and>
      flushed E m (num + 1) rs w4 (queued_requests (item c2) us2) rs' w' (queued_requests (item c') us') ps"
  defines "w3 \<equiv> note_event FlushEvent (w\<lparr>sw_cache := Some c2\<rparr>)"
  shows "\<exists>rs' w' c' us' ps. Option.bind (if stream_cancelled E w3 then Some (rs, w3)
        else map_option (\<lambda>(a, w4). (rs @ [a], w4)) (PublishData E r (w3\<lparr>sw_published := sw_published w3 @ [r]\<rparr>)))
      (\<lambda>(rs, w4). if stream_cancelled E w4 then map_option (\<lambda>(_, w5). (rs, w5)) (Queue E r w4) else Flush_loop E m (num + 1) rs w4) = Some (rs', w') \<and>
    queue_on ok item E w' c' us' \<and> flushed E m num rs w q rs' w' (queued_requests (item c') us') ps"
proof -
  have 3: "queue_on ok item E w3 c2 us2" "clients_ok w3" "\<not> init_inprogress w3" "sw_published w3 = sw_published w"
    using assms(4,5,7) by (simp_all add: w3_def queue_on_def note_event_def clients_ok_def)
  have qr: "subseq [r] q" using subseq_order.trans [OF _ assms(8), of "[r]"] by simp
  show ?thesis
  proof (cases "stream_cancelled E w3")
    case True
    obtain w' c' us' where "map_option (\<lambda>(_, w5). (rs, w5)) (Queue E r w3) = Some (rs, w')"
      "queue_on ok item E w' c' us'" "flushed E m num rs w q rs w' (queued_requests (item c') us') []"
      using flush_requeue [OF assms(1,2) 3(1-3) True, of w "[]" rs rs q m num r] 3(4) by auto
    then show ?thesis using True by auto
  next
    case False
    let ?w = "w3\<lparr>sw_published := sw_published w3 @ [r]\<rparr>"
    have w: "clients_ok ?w" "\<not> stream_cancelled E ?w" "\<not> init_inprogress ?w" using 3 False by (simp_all add: clients_ok_def stream_cancelled_def)
    obtain a w4 where P: "PublishData E r ?w = Some (a, w4)" "init_step E ?w w4" "\<not> init_inprogress w4" using PublishData_step [OF assms(3) w] by blast
    have 4: "queue_on ok item E w4 c2 us2" "clients_ok w4" "sw_published w4 = sw_published w @ [r]"
      using P(2) 3 w(1) queue_inv_le [of E "item c2" "ww_uuids w3" us2 "ww_uuids w4"] by (simp_all add: queue_on_def init_step_def)
    show ?thesis
    proof (cases "stream_cancelled E w4")
      case True
      have "\<forall>k. m = Some k \<longrightarrow> num + int (length [r]) \<le> max num k" using assms(6) by auto
      then obtain w' c' us' where "map_option (\<lambda>(_, w5). (rs @ [a], w5)) (Queue E r w4) = Some (rs @ [a], w')" "queue_on ok item E w' c' us'"
        "flushed E m num rs w q (rs @ [a]) w' (queued_requests (item c') us') [r]"
        using flush_requeue [OF assms(1,2) 4(1,2) P(3) True 4(3), of "rs @ [a]" rs q m num r] qr by auto
      then show ?thesis using True False P(1) by auto
    next
      case go: False
      obtain rs' w' c' us' ps where i: "Flush_loop E m (num + 1) (rs @ [a]) w4 = Some (rs', w')" "queue_on ok item E w' c' us'"
        "flushed E m (num + 1) (rs @ [a]) w4 (queued_requests (item c2) us2) rs' w' (queued_requests (item c') us') ps"
        using IH [OF 4(1,2) P(3)] by blast
      have "subseq (r # xs) q" if "subseq xs (queued_requests (item c2) us2)" for xs using subseq_order.trans [OF _ assms(8), of "r # xs"] that by simp
      moreover have "\<forall>k. m = Some k \<longrightarrow> num + int (length (r # ps)) \<le> max num k" using i(3) assms(6) by (auto simp: flushed_def)
      ultimately have "flushed E m num rs w q rs' w' (queued_requests (item c') us') (r # ps)" using i(3) 4(3) by (simp add: flushed_def)
      then show ?thesis using i(1,2) False P(1) go by auto
    qed
  qed
qed

lemma flush_loop_law:
  assumes "se_cache E = K" "uuids_ok E" "apis_found E"
  shows "queue_on ok item E w c us \<Longrightarrow> clients_ok w \<Longrightarrow> \<not> init_inprogress w \<Longrightarrow>
    \<exists>rs' w' c' us' ps. Flush_loop E m num rs w = Some (rs', w') \<and> queue_on ok item E w' c' us' \<and>
      flushed E m num rs w (queued_requests (item c) us) rs' w' (queued_requests (item c') us') ps"
proof (induction "length us" arbitrary: us w c num rs rule: less_induct)
  case less
  let ?q = "queued_requests (item c) us"
  show ?case
  proof (cases "(case m of None \<Rightarrow> True | Some k \<Rightarrow> num < k) \<and> us \<noteq> []")
    case False
    then show ?thesis using flush_loop_stop [OF assms(1,2) less.prems] by blast
  next
    case True
    obtain x c2 us2 where 2: "queue_on ok item E (w\<lparr>sw_cache := Some c2\<rparr>) c2 us2" "length us2 < length us"
      "subseq ((case x of None \<Rightarrow> [] | Some r \<Rightarrow> [r]) @ queued_requests (item c2) us2) ?q"
      "Flush_loop E m num rs w = (case x of None \<Rightarrow> Flush_loop E m num rs (w\<lparr>sw_cache := Some c2\<rparr>)
      | Some r \<Rightarrow> let w3 = note_event FlushEvent (w\<lparr>sw_cache := Some c2\<rparr>)
          in Option.bind (if stream_cancelled E w3 then Some (rs, w3)
               else map_option (\<lambda>(a, w4). (rs @ [a], w4)) (PublishData E r (w3\<lparr>sw_published := sw_published w3 @ [r]\<rparr>)))
             (\<lambda>(rs, w4). if stream_cancelled E w4 then map_option (\<lambda>(_, w5). (rs, w5)) (Queue E r w4) else Flush_loop E m (num + 1) rs w4))"
      using flush_loop_pop [OF assms(1,2) less.prems(1) conjunct1 [OF True] conjunct2 [OF True], of rs] by (elim exE conjE) (rule that)
    let ?q2 = "queued_requests (item c2) us2"
    show ?thesis
    proof (cases x)
      case None
      have w2: "clients_ok (w\<lparr>sw_cache := Some c2\<rparr>)" "\<not> init_inprogress (w\<lparr>sw_cache := Some c2\<rparr>)" using less.prems(2,3) by (simp_all add: clients_ok_def)
      obtain rs' w' c' us' ps where IH: "Flush_loop E m num rs (w\<lparr>sw_cache := Some c2\<rparr>) = Some (rs', w')" "queue_on ok item E w' c' us'"
        "flushed E m num rs (w\<lparr>sw_cache := Some c2\<rparr>) ?q2 rs' w' (queued_requests (item c') us') ps"
        using less.hyps [OF 2(2,1) w2] by blast
      have "subseq ?q2 ?q" using 2(3) None by simp
      then have "flushed E m num rs w ?q rs' w' (queued_requests (item c') us') ps"
        using IH(3) subseq_order.trans by (auto simp: flushed_def)
      then show ?thesis using IH(1,2) 2(4) None by auto
    next
      case (Some r)
      have "subseq (r # ?q2) ?q" using 2(3) Some by simp
      from flush_loop_published [OF assms less.prems(2,3) conjunct1 [OF True] 2(1) this less.hyps [OF 2(2)]]
      show ?thesis using 2(4) Some unfolding Let_def by simp
    qed
  qed
qed

end

section \<open>The default cache in memory\<close>

text \<open>The cache as the client calls it, with the default expiry of \<open>KeyValueCache::Put\<close>.\<close>

definition DefaultCache_stream :: "'w storage_ops \<Rightarrow> time_t \<Rightarrow> ('w \<times> stream_value DefaultCache) stream_cache" where
  "DefaultCache_stream S now =
     \<lparr>st_Put = \<lambda>key value encoded (w, c). throws (DefaultCache_Put S now w c key (AnyModel value) (\<lambda>_. encoded) time_max),
      st_Get = \<lambda>key decoder (w, c). throws (DefaultCache_Get S now w c key decoder),
      st_Remove = \<lambda>key (w, c). throws (DefaultCache_Remove S w c key)\<rparr>"

lemma mem_remove_item:
  assumes "memory_ok m"
  shows "\<exists>m'. InMemoryCache_Remove m k = Some m' \<and> memory_ok m' \<and> mem_item now m' \<subseteq>\<^sub>m (mem_item now m)(k := None)"
proof -
  obtain xs mx ex where r: "mem_rel PresetModelSizeCacheCost m (xs, mx, ex)" using memory_okE [OF assms] .
  obtain l where "Erase PresetModelSizeCacheCost (m_itemTuples m) k = Some (k \<in> fst ` set xs, l)" "lru_rel PresetModelSizeCacheCost l (filter (\<lambda>x. fst x \<noteq> k) xs, mx)"
    using Erase_rep [of PresetModelSizeCacheCost "m_itemTuples m" xs mx k] r by auto
  then obtain m' where m': "InMemoryCache_Remove m k = Some m'" "mem_rel PresetModelSizeCacheCost m' (filter (\<lambda>x. fst x \<noteq> k) xs, mx, ex)"
    using r by (auto simp: InMemoryCache_Remove_def)
  have "map_of (filter (\<lambda>x. fst x \<noteq> k) xs) j = (if j = k then None else map_of xs j)" for j
    using map_of_filter_in [of "{k}" xs j] by simp
  then have "mem_item now m' \<subseteq>\<^sub>m (mem_item now m)(k := None)"
    unfolding mem_item_rel [OF r] mem_item_rel [OF m'(2)] by (auto simp: map_le_def spec_item_def dom_def split: if_splits)
  then show ?thesis using m' by (auto simp: memory_ok_def)
qed

interpretation memory_stream: stream_cache_laws "DefaultCache_stream S now" memory_only "memory_item now" for S now
proof
  fix c k v e dec assume ok: "memory_only (c :: 'a \<times> stream_value DefaultCache)"
  obtain w d m where c: "c = (w, d)" "is_open d" "disk_cache d = None" "memory_cache d = Some m" "memory_ok m"
    using ok by (cases c) (auto simp: memory_only_def)
  have ok': "memory_only (w, d\<lparr>memory_cache := Some m'\<rparr>)" if "memory_ok m'" for m' using c that by (simp add: memory_only_def)
  have it: "memory_item now c = mem_item now m" "memory_item now (w, d\<lparr>memory_cache := Some m'\<rparr>) = mem_item now m'" for m'
    using c by (auto simp: memory_item_def)
  show "memory_item now c k \<noteq> Some AnyEmpty" unfolding it by (simp add: mem_item_def split: option.splits if_splits)
  have pe: "put_effect time_max f k v g \<Longrightarrow> g \<subseteq>\<^sub>m f(k \<mapsto> v)" for f k v g by (auto simp: put_effect_def time_max_def)
  show "\<exists>r c'. st_Put (DefaultCache_stream S now) k v e c = Some (r, c') \<and> memory_only c' \<and> memory_item now c' \<subseteq>\<^sub>m (memory_item now c)(k \<mapsto> AnyModel v)"
    using mem_put_item [OF c(5), of now k "AnyModel v" time_max "of_nat (length e)"] c ok' it pe
    by (fastforce simp: DefaultCache_stream_def DefaultCache_Put_def DefaultCache_put_def)
  obtain x m' where get: "InMemoryCache_Get now m k = Some (x, m')" "memory_ok m'" "mem_item now m' \<subseteq>\<^sub>m mem_item now m"
    "(case x of None \<Rightarrow> AnyEmpty | Some y \<Rightarrow> y) = (case mem_item now m k of None \<Rightarrow> AnyEmpty | Some y \<Rightarrow> y)"
    using mem_get_item [OF c(5)] by blast
  have "DefaultCache_get S now w d k dec = Inr (case mem_item now m k of None \<Rightarrow> AnyEmpty | Some x \<Rightarrow> x, w, d\<lparr>memory_cache := Some m'\<rparr>)"
    using get c by (simp add: DefaultCache_get_def)
  then show "\<exists>c'. st_Get (DefaultCache_stream S now) k dec c = Some (case memory_item now c k of None \<Rightarrow> AnyEmpty | Some v \<Rightarrow> v, c') \<and>
      memory_only c' \<and> memory_item now c' \<subseteq>\<^sub>m memory_item now c"
    using ok' it get(2,3) c(1) by (simp add: DefaultCache_stream_def DefaultCache_Get_def)
  show "\<exists>r c'. st_Remove (DefaultCache_stream S now) k c = Some (r, c') \<and> memory_only c' \<and> memory_item now c' \<subseteq>\<^sub>m (memory_item now c)(k := None)"
    using mem_remove_item [OF c(5), of k now] c ok' it by (fastforce simp: DefaultCache_stream_def DefaultCache_Remove_def)
qed

section \<open>Sequences of operations\<close>

datatype stream_op = OpQueue PublishDataRequest | OpPop

text \<open>The requests that were accepted and those that were popped, in order.\<close>

fun stream_run :: "('c, 's) stream_env \<Rightarrow> stream_op list \<Rightarrow> ('c, 's) stream_world \<Rightarrow>
    (PublishDataRequest list \<times> PublishDataRequest list \<times> ('c, 's) stream_world) option" where
  "stream_run E [] w = Some ([], [], w)"
| "stream_run E (OpQueue r # ops) w = do {
     (e, w1) \<leftarrow> Queue E r w;
     (acc, popped, w2) \<leftarrow> stream_run E ops w1;
     Some (if e = None then r # acc else acc, popped, w2)
   }"
| "stream_run E (OpPop # ops) w = do {
     (x, w1) \<leftarrow> PopFromQueue E w;
     (acc, popped, w2) \<leftarrow> stream_run E ops w1;
     Some (acc, (case x of None \<Rightarrow> popped | Some r \<Rightarrow> r # popped), w2)
   }"

context stream_cache_laws
begin

lemma stream_run_law:
  assumes "se_cache E = K" "uuids_ok E"
  shows "queue_on ok item E w c us \<Longrightarrow> \<exists>acc popped w' c' us'. stream_run E ops w = Some (acc, popped, w') \<and> queue_on ok item E w' c' us' \<and>
    subseq (popped @ queued_requests (item c') us') (queued_requests (item c) us @ acc)"
proof (induction ops arbitrary: w c us)
  case Nil
  then show ?case by auto
next
  case (Cons x ops)
  let ?q = "queued_requests (item c) us"
  show ?case
  proof (cases x)
    case (OpQueue r)
    obtain e w1 c1 us1 where 1: "Queue E r w = Some (e, w1)" "queue_on ok item E w1 c1 us1" "subseq (queued_requests (item c1) us1) (?q @ (if e = None then [r] else []))"
      using queue_law [OF assms Cons.prems] by metis
    obtain acc popped w' c' us' where 2: "stream_run E ops w1 = Some (acc, popped, w')" "queue_on ok item E w' c' us'"
      "subseq (popped @ queued_requests (item c') us') (queued_requests (item c1) us1 @ acc)" using Cons.IH [OF 1(2)] by blast
    have "subseq (popped @ queued_requests (item c') us') (?q @ (if e = None then r # acc else acc))"
      using subseq_order.trans [OF 2(3) list_emb_append_mono [OF 1(3) subseq_order.refl, of acc]] by (cases e) simp_all
    moreover have "stream_run E (x # ops) w = Some (if e = None then r # acc else acc, popped, w')" using OpQueue 1(1) 2(1) by simp
    ultimately show ?thesis using 2(2) by blast
  next
    case OpPop
    obtain y w1 c1 us1 where 1: "PopFromQueue E w = Some (y, w1)" "queue_on ok item E w1 c1 us1"
      "subseq ((case y of None \<Rightarrow> [] | Some r \<Rightarrow> [r]) @ queued_requests (item c1) us1) ?q" using pop_law [OF assms Cons.prems] by metis
    obtain acc popped w' c' us' where 2: "stream_run E ops w1 = Some (acc, popped, w')" "queue_on ok item E w' c' us'"
      "subseq (popped @ queued_requests (item c') us') (queued_requests (item c1) us1 @ acc)" using Cons.IH [OF 1(2)] by blast
    let ?y = "case y of None \<Rightarrow> [] | Some r \<Rightarrow> [r]"
    have "subseq (?y @ popped @ queued_requests (item c') us') ((?y @ queued_requests (item c1) us1) @ acc)"
      using list_emb_append_mono [OF subseq_order.refl 2(3), of ?y] by simp
    also have "subseq \<dots> (?q @ acc)" by (rule list_emb_append_mono [OF 1(3) subseq_order.refl])
    finally have "subseq ((case y of None \<Rightarrow> popped | Some r \<Rightarrow> r # popped) @ queued_requests (item c') us') (?q @ acc)" by (cases y) simp_all
    moreover have "stream_run E (x # ops) w = Some (acc, (case y of None \<Rightarrow> popped | Some r \<Rightarrow> r # popped), w')" using OpPop 1(1) 2(1) by simp
    ultimately show ?thesis using 2(2) by blast
  qed
qed

end

text \<open>A cache in memory that was just opened, and the identifiers of the example.\<close>

definition stream_opened_cache :: "stream_value DefaultCache" where
  "stream_opened_cache = snd (snd (DefaultCache_Open map_storage [] (DefaultCache_new CacheSettings_new)))"

lemma stream_opened_cache_ok: "memory_only (w, stream_opened_cache)" "memory_item now (w, stream_opened_cache) = Map.empty"
proof -
  let ?m = "InMemoryCache_new (max_memory_cache_size CacheSettings_new) PresetModelSizeCacheCost"
  have o: "is_open stream_opened_cache" "disk_cache stream_opened_cache = None" "memory_cache stream_opened_cache = Some ?m"
    by (simp_all add: stream_opened_cache_def DefaultCache_Open_def SetupStorage_def DefaultCache_new_def CacheSettings_new_def Let_def)
  then show "memory_only (w, stream_opened_cache)" by (simp add: memory_only_def)
  show "memory_item now (w, stream_opened_cache) = Map.empty"
    by (rule ext) (simp add: memory_item_def o mem_item_rel [OF mem_rel_new] spec_item_def)
qed

definition example_queue_env :: "((string \<times> string) list \<times> stream_value DefaultCache, unit) stream_env" where
  "example_queue_env = example_stream_env (DefaultCache_stream map_storage 0) (\<lambda>_. 200)"

definition example_queue_world :: "((string \<times> string) list \<times> stream_value DefaultCache, unit) stream_world" where
  "example_queue_world = StreamLayerClientImpl_new (Some ([], stream_opened_cache)) ()"

lemma example_queue_ok: "se_cache example_queue_env = DefaultCache_stream map_storage 0" "uuids_ok example_queue_env"
  "sw_cache example_queue_world = Some ([], stream_opened_cache)" "clients_ok example_queue_world" "\<not> init_inprogress example_queue_world" "apis_found example_queue_env"
proof -
  have "CHR ''-'' \<in> set (GetUuidListKey example_queue_env)" by (simp add: GetUuidListKey_def)
  moreover have "CHR ''-'' \<notin> set (replicate n CHR ''0'')" for n by simp
  ultimately have "replicate n CHR ''0'' \<noteq> GetUuidListKey example_queue_env" for n by metis
  then show "uuids_ok example_queue_env" by (simp add: uuids_ok_def example_queue_env_def inj_def)
qed (simp_all add: example_queue_env_def example_queue_world_def example_stream_env_ok clients_ok_def StreamLayerClientImpl_new_def)

section \<open>Properties\<close>

text \<open>
  C22: On a client with a memory cache every sequence of queueing and popping runs without an error, and the requests
  that are popped are among the accepted ones, in their order, each at most once.
\<close>

theorem stream_queue_fifo:
  assumes "se_cache E = DefaultCache_stream S now" "uuids_ok E" "sw_cache w = Some c" "memory_only c" "memory_item now c (GetUuidListKey E) = None"
  shows "\<exists>acc popped w'. stream_run E ops w = Some (acc, popped, w') \<and> subseq popped acc"
proof -
  have "queue_on memory_only (memory_item now) E w c []" using assms(3-5) by (simp add: queue_on_def queue_inv_def)
  from memory_stream.stream_run_law [OF assms(1,2) this, of ops] obtain acc popped w' c' us' where
    r: "stream_run E ops w = Some (acc, popped, w')" "queue_on memory_only (memory_item now) E w' c' us'" "subseq (popped @ queued_requests (memory_item now c') us') (queued_requests (memory_item now c) [] @ acc)"
    by blast
  have "subseq popped acc" using subseq_order.trans [OF list_emb_prefix [OF subseq_order.refl] r(3)] by (simp add: queued_requests_def)
  then show ?thesis using r(1) by blast
qed

theorem stream_queue_fifo_witness:
  "\<exists>acc popped w'. stream_run example_queue_env [OpQueue example_request, OpPop, OpPop] example_queue_world = Some (acc, popped, w') \<and> subseq popped acc"
  by (rule stream_queue_fifo [OF example_queue_ok(1-3) stream_opened_cache_ok(1)]) (simp add: stream_opened_cache_ok(2))



end
