(* ===== verification/Layer_Client.thy ===== *)
theory Layer_Client
  imports Write_Apis Write_Queue
begin

text \<open>
  Component dataservice-write: what the clients of versioned, volatile and index layers have in common
  (\<open>VersionedLayerClientImpl.cpp\<close>, \<open>VolatileLayerClientImpl.cpp\<close>, \<open>IndexLayerClientImpl.cpp\<close>). The three classes repeat
  the same lambdas around their calls; a lambda that the sources repeat is one definition here.

  The members of a client and the world it works in are one record. A request is a function from the world to the
  response its callback gets and the new world. A call of the network may be answered before it returns, in the thread
  of the caller, or later in another thread; which of both is read from the environment (\<open>le_sync\<close>). While the answers
  come before the calls return, the frames of the request are still on the stack: the lock that \<open>InitApiClients\<close> took is
  held (\<open>lw_mutex\<close>) and the token of the request has not been added to the list yet (\<open>lw_due\<close>). The first later answer
  finds them returned. \<open>None\<close> is an exception, undefined behaviour, or a thread that waits for ever.

  Shown: the contract of \<open>InitApiClients\<close> (locale \<open>layer_client\<close>) makes every request of a client end with its lock
  released and its token removed.
\<close>

section \<open>The state of a client\<close>

record 's layer_env = "'s write_env" +
  le_sync :: "'s \<Rightarrow> bool"

record 's layer_world = "'s write_world" +
  lw_blob :: "OlpClient option"
  lw_config :: "OlpClient option"
  lw_model :: WriteCatalog
  lw_tokens :: "(int \<times> unit) list"
  lw_next_id :: int
  lw_init_in_progress :: bool
  lw_mutex :: bool
  lw_due :: "int list"

definition layer_cancelled :: "'s layer_env \<Rightarrow> ('s, 'm) layer_world_scheme \<Rightarrow> bool" where
  "layer_cancelled E w \<longleftrightarrow> we_cancelled E (ww_env w)"

abbreviation operation_cancelled :: ApiError where
  "operation_cancelled \<equiv> ApiError_code ErrCancelled ''Operation cancelled.'' True"

text \<open>The frames of a request return: the lock is released and the tokens that are due are added, the innermost first.\<close>

definition frames_return :: "('s, 'm) layer_world_scheme \<Rightarrow> ('s, 'm) layer_world_scheme" where
  "frames_return w = w\<lparr>lw_mutex := False, lw_tokens := fold (\<lambda>i. AddTask i ()) (lw_due w) (lw_tokens w), lw_due := []\<rparr>"

definition answered :: "'s layer_env \<Rightarrow> 'r \<times> ('s, 'm) layer_world_scheme \<Rightarrow> 'r \<times> ('s, 'm) layer_world_scheme" where
  "answered E rw = (fst rw, if le_sync E (ww_env (snd rw)) then snd rw else frames_return (snd rw))"

text \<open>\<open>std::lock_guard\<close> on the mutex: for ever when a frame of the same thread holds it.\<close>

definition lock_guard :: "('s, 'm) layer_world_scheme \<Rightarrow> ('s, 'm) layer_world_scheme option" where
  "lock_guard w = (if lw_mutex w then None else Some (w\<lparr>lw_mutex := True\<rparr>))"

section \<open>Initialisation\<close>

text \<open>The lookup of an interface; for an unknown partition of the catalog it is answered without a call.\<close>

definition layer_lookup :: "'s layer_env \<Rightarrow> (OlpClient \<Rightarrow> ('s, 'm) layer_world_scheme \<Rightarrow> ('s, 'm) layer_world_scheme) \<Rightarrow> string \<Rightarrow> string \<Rightarrow>
    ('s, 'm) layer_world_scheme \<Rightarrow> Api list ApiResponse \<times> OlpClient \<times> ('s, 'm) layer_world_scheme" where
  "layer_lookup E set_client srv_name srv_version w =
     (let (r, client, w1) = Write_LookupApi (write_env.truncate E) (OlpClientFactory_Create (we_settings E)) srv_name srv_version w
      in (r, client, set_client client
            (if write_DatastoreServerUrl (hrn_partition (we_catalog E)) = [] then w1 else snd (answered E (r, w1)))))"

text \<open>The callback of a lookup that others follow; \<open>at(0)\<close> throws when no interface was found.\<close>

definition lookup_then :: "'s layer_env \<Rightarrow> (OlpClient \<Rightarrow> ('s, 'm) layer_world_scheme \<Rightarrow> ('s, 'm) layer_world_scheme) \<Rightarrow> string \<Rightarrow> string \<Rightarrow>
    (('s, 'm) layer_world_scheme \<Rightarrow> (ApiError option \<times> ('s, 'm) layer_world_scheme) option) \<Rightarrow>
    ('s, 'm) layer_world_scheme \<Rightarrow> (ApiError option \<times> ('s, 'm) layer_world_scheme) option" where
  "lookup_then E set_client srv_name srv_version next_lookup w =
     (let (r, client, w1) = layer_lookup E set_client srv_name srv_version w
      in case r of
           Inl e \<Rightarrow> do { w2 \<leftarrow> lock_guard w1; Some (Some e, w2\<lparr>lw_init_in_progress := False, lw_mutex := False\<rparr>) }
         | Inr [] \<Rightarrow> None
         | Inr (api # _) \<Rightarrow>
             let w2 = set_client (SetBaseUrl (api_base_url api) client) w1
             in if layer_cancelled E w2 then Some (Some operation_cancelled, w2) else next_lookup w2)"

text \<open>The callback of the last lookup, which holds the lock while it calls the callback of the initialisation.\<close>

definition lookup_last :: "'s layer_env \<Rightarrow> (OlpClient \<Rightarrow> ('s, 'm) layer_world_scheme \<Rightarrow> ('s, 'm) layer_world_scheme) \<Rightarrow> string \<Rightarrow> string \<Rightarrow>
    ('s, 'm) layer_world_scheme \<Rightarrow> (ApiError option \<times> ('s, 'm) layer_world_scheme) option" where
  "lookup_last E set_client srv_name srv_version w =
     (let (r, client, w1) = layer_lookup E set_client srv_name srv_version w
      in do {
        w2 \<leftarrow> lock_guard w1;
        let w3 = w2\<lparr>lw_init_in_progress := False\<rparr>;
        case r of
          Inl e \<Rightarrow> Some (Some e, w3)
        | Inr [] \<Rightarrow> None
        | Inr (api # _) \<Rightarrow> Some (None, set_client (SetBaseUrl (api_base_url api) client) w3)
      })"

text \<open>
  The beginning of \<open>InitApiClients\<close>: it tries to take the lock. While another initialisation is in progress it waits
  with an unlocked lock until that one ends; the one that is in progress here never does.
\<close>

definition init_clients :: "(('s, 'm) layer_world_scheme \<Rightarrow> OlpClient option) \<Rightarrow>
    (('s, 'm) layer_world_scheme \<Rightarrow> (ApiError option \<times> ('s, 'm) layer_world_scheme) option) \<Rightarrow>
    ('s, 'm) layer_world_scheme \<Rightarrow> (ApiError option \<times> ('s, 'm) layer_world_scheme) option" where
  "init_clients last_client lookups w =
     (if lw_init_in_progress w then None
      else let w1 = w\<lparr>lw_mutex := True\<rparr>
           in if (case last_client w1 of None \<Rightarrow> False | Some c \<Rightarrow> base_url c \<noteq> []) then Some (None, w1)
              else lookups (w1\<lparr>lw_init_in_progress := True\<rparr>))"

section \<open>Requests\<close>

type_synonym ('s, 'm, 'r) layer_answer = "('r ApiResponse \<times> ('s, 'm) layer_world_scheme) option"

text \<open>A request with its identifier; its token is added to the list when the function returns.\<close>

definition layer_request :: "(int \<Rightarrow> ('s, 'm) layer_world_scheme \<Rightarrow> ('s, 'm, 'r) layer_answer) \<Rightarrow> ('s, 'm) layer_world_scheme \<Rightarrow> ('s, 'm, 'r) layer_answer" where
  "layer_request body w = body (lw_next_id w) (w\<lparr>lw_next_id := lw_next_id w + 1, lw_due := lw_next_id w # lw_due w\<rparr>)"

text \<open>The callback of a request first removes its token.\<close>

definition task_answered :: "int \<Rightarrow> 'r ApiResponse \<times> ('s, 'm) layer_world_scheme \<Rightarrow> 'r ApiResponse \<times> ('s, 'm) layer_world_scheme" where
  "task_answered i rw = (fst rw, (snd rw)\<lparr>lw_tokens := RemoveTask i (lw_tokens (snd rw))\<rparr>)"

text \<open>\<open>InitApiClients\<close> with the callback that goes on with a call unless the request was cancelled.\<close>

definition with_clients :: "'s layer_env \<Rightarrow> ('s layer_env \<Rightarrow> ('s, 'm) layer_world_scheme \<Rightarrow> (ApiError option \<times> ('s, 'm) layer_world_scheme) option) \<Rightarrow>
    (('s, 'm) layer_world_scheme \<Rightarrow> ('s, 'm, 'r) layer_answer) \<Rightarrow> ('s, 'm) layer_world_scheme \<Rightarrow> ('s, 'm, 'r) layer_answer" where
  "with_clients E init_api f w = do {
     (err, w1) \<leftarrow> init_api E w;
     case err of
       Some e \<Rightarrow> Some (Inl e, w1)
     | None \<Rightarrow> if layer_cancelled E w1 then Some (Inl operation_cancelled, w1) else f w1
   }"

text \<open>A call through a client, which must not be null.\<close>

definition layer_call :: "'s layer_env \<Rightarrow> (OlpClient \<Rightarrow> ('s, 'm) layer_world_scheme \<Rightarrow> 'a ApiResponse \<times> ('s, 'm) layer_world_scheme) \<Rightarrow> OlpClient option \<Rightarrow>
    ('a ApiResponse \<Rightarrow> 'r ApiResponse) \<Rightarrow> ('s, 'm) layer_world_scheme \<Rightarrow> ('s, 'm, 'r) layer_answer" where
  "layer_call E call client_ptr f w = do {
     client \<leftarrow> client_ptr;
     let (r, w1) = answered E (call client w);
     Some (f r, w1)
   }"

text \<open>The function of a request returned, at the latest when its callback did.\<close>

definition layer_return :: "('s, 'm, 'r) layer_answer \<Rightarrow> ('s, 'm, 'r) layer_answer" where
  "layer_return a = map_option (apsnd frames_return) a"

definition simple_request :: "'s layer_env \<Rightarrow> ('s layer_env \<Rightarrow> ('s, 'm) layer_world_scheme \<Rightarrow> (ApiError option \<times> ('s, 'm) layer_world_scheme) option) \<Rightarrow>
    (('s, 'm) layer_world_scheme \<Rightarrow> ('s, 'm, 'r) layer_answer) \<Rightarrow> ('s, 'm) layer_world_scheme \<Rightarrow> ('s, 'm, 'r) layer_answer" where
  "simple_request E init_api f w = layer_return (layer_request (\<lambda>i w. map_option (task_answered i) (with_clients E init_api f w)) w)"

definition invalid_argument :: "string \<Rightarrow> 'r ApiResponse" where
  "invalid_argument msg = Inl (ApiError_code ErrInvalidArgument msg True)"

definition content_type_of :: "string \<Rightarrow> ('s, 'm) layer_world_scheme \<Rightarrow> string" where
  "content_type_of layer w =
     (case find (\<lambda>l. wl_id l = layer) (wc_layers (lw_model w)) of None \<Rightarrow> [] | Some l \<Rightarrow> wl_content_type l)"

text \<open>The catalog is read once.\<close>

definition catalog_model_init :: "'s layer_env \<Rightarrow> ('s, 'm) layer_world_scheme \<Rightarrow> (ApiError option \<times> ('s, 'm) layer_world_scheme) option" where
  "catalog_model_init E w =
     (if wc_id (lw_model w) \<noteq> [] then Some (None, w)
      else do {
        client \<leftarrow> lw_config w;
        let (r, w1) = answered E (Config_GetCatalog (write_env.truncate E) client (HRN_ToString (we_catalog E)) None w);
        case r of Inl e \<Rightarrow> Some (Some e, w1) | Inr m \<Rightarrow> Some (None, w1\<lparr>lw_model := m\<rparr>)
      })"

section \<open>What a request does to the world\<close>

text \<open>
  The hypothesis on the network: the answers come later, the catalog is in a known partition and a lookup finds an
  interface.
\<close>

definition network_ok :: "'s layer_env \<Rightarrow> bool" where
  "network_ok E \<longleftrightarrow> (\<forall>s. \<not> le_sync E s) \<and> (\<forall>s. wparse_Apis (we_codecs E) s \<noteq> []) \<and> write_DatastoreServerUrl (hrn_partition (we_catalog E)) \<noteq> []"

text \<open>Calls are added, and the first of them lets the frames of the request return.\<close>

definition layer_step :: "('s, 'm) layer_world_scheme \<Rightarrow> ('s, 'm) layer_world_scheme \<Rightarrow> bool" where
  "layer_step w w' \<longleftrightarrow> lw_next_id w \<le> lw_next_id w' \<and> prefix (ww_calls w) (ww_calls w') \<and>
     (if ww_calls w' = ww_calls w then lw_due w' = lw_due w \<and> lw_tokens w' = lw_tokens w
      else lw_due w' = [] \<and> lw_tokens w' = lw_tokens (frames_return w))"

definition layer_same :: "('s, 'm) layer_world_scheme \<Rightarrow> ('s, 'm) layer_world_scheme \<Rightarrow> bool" where
  "layer_same w w' \<longleftrightarrow> lw_blob w' = lw_blob w \<and> lw_config w' = lw_config w \<and> layer_world.more w' = layer_world.more w"

text \<open>
  A part of a request ends: with the clients in order, and with the initialisation in progress only when it was
  cancelled.
\<close>

definition ends :: "(('s, 'm) layer_world_scheme \<Rightarrow> bool) \<Rightarrow> ('r \<Rightarrow> bool) \<Rightarrow> ('s, 'm) layer_world_scheme \<Rightarrow> ('r \<times> ('s, 'm) layer_world_scheme) option \<Rightarrow> bool" where
  "ends ok wedged w a \<longleftrightarrow> (\<exists>r w'. a = Some (r, w') \<and> layer_step w w' \<and> ok w' \<and> (lw_init_in_progress w' \<longrightarrow> wedged r))"

abbreviation wedged_response :: "'r ApiResponse \<Rightarrow> bool" where
  "wedged_response r \<equiv> r = Inl operation_cancelled"

abbreviation wedged_error :: "ApiError option \<Rightarrow> bool" where
  "wedged_error e \<equiv> e = Some operation_cancelled"

lemma layer_step_refl [simp]: "layer_step w w"
  by (simp add: layer_step_def)

lemma layer_step_trans: "layer_step w w1 \<Longrightarrow> layer_step w1 w2 \<Longrightarrow> layer_step w w2"
  by (auto simp: layer_step_def frames_return_def prefix_order.antisym split: if_splits)

lemma layer_same_refl [simp]: "layer_same w w"
  by (simp add: layer_same_def)

lemma layer_same_trans: "layer_same w w1 \<Longrightarrow> layer_same w1 w2 \<Longrightarrow> layer_same w w2"
  by (simp add: layer_same_def)

lemma ends_step: "layer_step w w1 \<Longrightarrow> ends ok wd w1 a \<Longrightarrow> ends ok wd w a"
  unfolding ends_def using layer_step_trans by blast

lemma endsI [intro?]: "layer_step w w' \<Longrightarrow> ok w' \<Longrightarrow> (lw_init_in_progress w' \<Longrightarrow> wd r) \<Longrightarrow> ends ok wd w (Some (r, w'))"
  by (auto simp: ends_def)

lemma endsE:
  assumes "ends ok wd w a"
  obtains r w' where "a = Some (r, w')" "layer_step w w'" "ok w'" "lw_init_in_progress w' \<Longrightarrow> wd r"
  using assms by (auto simp: ends_def)

lemma ends_bind:
  assumes "ends ok wd w a" "\<And>r w1. ok w1 \<Longrightarrow> (lw_init_in_progress w1 \<Longrightarrow> wd r) \<Longrightarrow> ends ok wd' w1 (k r w1)"
  shows "ends ok wd' w (a \<bind> (\<lambda>(r, w1). k r w1))"
proof -
  obtain r w1 where a: "a = Some (r, w1)" "layer_step w w1" "ok w1" "lw_init_in_progress w1 \<Longrightarrow> wd r" using endsE [OF assms(1)] by metis
  show ?thesis using ends_step [OF a(2) assms(2) [OF a(3,4)]] a(1) by simp
qed

text \<open>A call of the network adds one call and changes the environment only.\<close>

definition one_call :: "(('s, 'm) layer_world_scheme \<Rightarrow> 'r \<times> ('s, 'm) layer_world_scheme) \<Rightarrow> bool" where
  "one_call f \<longleftrightarrow> (\<forall>w. \<exists>r s x. f w = (r, w\<lparr>ww_env := s, ww_calls := ww_calls w @ [x]\<rparr>))"

lemma one_call_api:
  "one_call (InitPublication V c pub b)" "one_call (GetPublication V c i b)" "one_call (SubmitPublication V c i b)"
  "one_call (CancelPublication V c i b)" "one_call (UploadPartitions V c ps i l b)" "one_call (PutBlob V c l t h d b)"
  "one_call (checkBlobExists V c l h b)" "one_call (deleteBlob V c l h b)" "one_call (Metadata_GetLatestCatalogVersion V c n b)"
  "one_call (insertIndexes V c ix l b)" "one_call (performUpdate V c u b)" "one_call (Config_GetCatalog V c h b)"
  by (auto simp: one_call_def CallApi_write_def InitPublication_def GetPublication_def SubmitPublication_def CancelPublication_def
      UploadPartitions_def PutBlob_def checkBlobExists_def deleteBlob_def Metadata_GetLatestCatalogVersion_def insertIndexes_def
      performUpdate_def Config_GetCatalog_def Let_def split: prod.split)

lemma answered_call:
  assumes "network_ok E" "one_call f"
  obtains r w' where "answered E (f w) = (r, w')" "layer_step w w'" "layer_same w w'" "ww_calls w' \<noteq> ww_calls w"
    "lw_init_in_progress w' = lw_init_in_progress w" "\<not> lw_mutex w'" "lw_model w' = lw_model w"
proof -
  obtain r s x where "f w = (r, w\<lparr>ww_env := s, ww_calls := ww_calls w @ [x]\<rparr>)" using assms(2) unfolding one_call_def by metis
  then have "answered E (f w) = (r, frames_return (w\<lparr>ww_env := s, ww_calls := ww_calls w @ [x]\<rparr>))"
    using assms(1) by (simp add: answered_def network_ok_def)
  then show thesis by (rule that) (simp_all add: layer_step_def layer_same_def frames_return_def)
qed

section \<open>The lookups\<close>

text \<open>A function that stores a client keeps the rest of the world.\<close>

definition stores_client :: "(OlpClient \<Rightarrow> ('s, 'm) layer_world_scheme \<Rightarrow> ('s, 'm) layer_world_scheme) \<Rightarrow> bool" where
  "stores_client set_client \<longleftrightarrow> (\<forall>c w. ww_calls (set_client c w) = ww_calls w \<and> lw_due (set_client c w) = lw_due w \<and> lw_tokens (set_client c w) = lw_tokens w \<and>
     lw_next_id (set_client c w) = lw_next_id w \<and> lw_mutex (set_client c w) = lw_mutex w \<and> lw_init_in_progress (set_client c w) = lw_init_in_progress w)"

lemma stores_client_step: "stores_client set_client \<Longrightarrow> layer_step w w1 \<Longrightarrow> layer_step w (set_client c w1)"
  by (simp add: stores_client_def layer_step_def)

lemma layer_lookup_step:
  assumes "network_ok E"
  obtains r c w1 where "layer_lookup E set_client n v w = (r, c, set_client c w1)" "r \<noteq> Inr []" "layer_step w w1" "layer_same w w1" "\<not> lw_mutex w1"
    "lw_init_in_progress w1 = lw_init_in_progress w" "strict_prefix (ww_calls w) (ww_calls w1)"
proof -
  have url: "write_DatastoreServerUrl (hrn_partition (we_catalog E)) \<noteq> []" using assms by (simp add: network_ok_def)
  have g: "\<exists>r s x. Platform_GetApis (write_env.truncate E) c n v w = (r, w\<lparr>ww_env := s, ww_calls := ww_calls w @ [x]\<rparr>) \<and> r \<noteq> Inr []"
    "\<exists>r s x. Resources_GetApis (write_env.truncate E) c h n v w = (r, w\<lparr>ww_env := s, ww_calls := ww_calls w @ [x]\<rparr>) \<and> r \<noteq> Inr []" for c h
    using assms by (auto simp: Platform_GetApis_def Resources_GetApis_def CallApi_write_def api_response_def network_ok_def split: prod.split)
  let ?c = "SetBaseUrl (write_DatastoreServerUrl (hrn_partition (we_catalog E))) (OlpClientFactory_Create (we_settings E))"
  obtain r s x where q: "(if n = ''config'' then Platform_GetApis (write_env.truncate E) ?c n v w
      else Resources_GetApis (write_env.truncate E) ?c (ToCatalogHRNString (we_catalog E)) n v w) = (r, w\<lparr>ww_env := s, ww_calls := ww_calls w @ [x]\<rparr>)" "r \<noteq> Inr []"
    using g(1) [of ?c] g(2) [of ?c "ToCatalogHRNString (we_catalog E)"] by (cases "n = ''config''") auto
  then have l: "Write_LookupApi (write_env.truncate E) (OlpClientFactory_Create (we_settings E)) n v w = (r, ?c, w\<lparr>ww_env := s, ww_calls := ww_calls w @ [x]\<rparr>)"
    "r \<noteq> Inr []" using url by (cases "n = ''config''"; simp add: Write_LookupApi_def Let_def)+
  then have "layer_lookup E set_client n v w = (r, ?c, set_client ?c (frames_return (w\<lparr>ww_env := s, ww_calls := ww_calls w @ [x]\<rparr>)))"
    using url assms by (simp add: layer_lookup_def answered_def network_ok_def)
  then show thesis by (rule that) (use l in \<open>simp_all add: layer_step_def layer_same_def frames_return_def strict_prefix_def\<close>)
qed

text \<open>In an unknown partition the callback of the first lookup runs under the lock it wants to take.\<close>

lemma unknown_partition_lookup:
  assumes "write_DatastoreServerUrl (hrn_partition (we_catalog E)) = []" "\<And>c. lw_mutex (set_client c w) = lw_mutex w" "lw_mutex w"
  shows "lookup_then E set_client n v next_lookup w = None"
  using assms by (simp add: lookup_then_def layer_lookup_def Write_LookupApi_def lock_guard_def)

text \<open>A predicate on the clients that storing a client does not break.\<close>

definition client_pred :: "(OlpClient \<Rightarrow> ('s, 'm) layer_world_scheme \<Rightarrow> ('s, 'm) layer_world_scheme) \<Rightarrow> (('s, 'm) layer_world_scheme \<Rightarrow> bool) \<Rightarrow> bool" where
  "client_pred set_client P \<longleftrightarrow> stores_client set_client \<and> (\<forall>c w. P w \<longrightarrow> P (set_client c w)) \<and> (\<forall>w w'. layer_same w w' \<longrightarrow> P w \<longrightarrow> P w')"

lemma client_predD:
  assumes "client_pred set_client P"
  shows "stores_client set_client" "P w \<Longrightarrow> P (set_client c w)" "layer_same w w' \<Longrightarrow> P w \<Longrightarrow> P w'"
  using assms unfolding client_pred_def by blast+

lemma lookup_then_ends:
  assumes "network_ok E" "client_pred set_client P" "P w" "lw_init_in_progress w"
    "\<And>w1. P w1 \<Longrightarrow> lw_init_in_progress w1 \<Longrightarrow> ends P wedged_error w1 (next_lookup w1)"
  shows "ends P wedged_error w (lookup_then E set_client n v next_lookup w)"
proof -
  note p = client_predD [OF assms(2)]
  obtain r c w1 where l: "layer_lookup E set_client n v w = (r, c, set_client c w1)" "r \<noteq> Inr []" "layer_step w w1" "layer_same w w1" "\<not> lw_mutex w1"
    "lw_init_in_progress w1" using layer_lookup_step [OF assms(1), of set_client n v w] assms(4) by metis
  have P: "P (set_client c w1)" "P (set_client c' (set_client c w1))" for c' using p(2,3) l(4) assms(3) by blast+
  have st: "layer_step w (set_client c w1)" "layer_step w (set_client c' (set_client c w1))" for c'
    using stores_client_step [OF p(1)] l(3) by blast+
  have i: "\<not> lw_mutex (set_client c w1)" "lw_init_in_progress (set_client c' (set_client c w1))" for c' using l(5,6) p(1) by (simp_all add: stores_client_def)
  show ?thesis
  proof (cases r)
    case (Inl e)
    let ?w = "set_client c w1\<lparr>lw_mutex := True, lw_init_in_progress := False, lw_mutex := False\<rparr>"
    have "P ?w" using p(3) [OF _ P(1)] by (simp add: layer_same_def)
    moreover have "layer_step w ?w" using st(1) by (simp add: layer_step_def)
    ultimately have "ends P wedged_error w (Some (Some e, ?w))" by (auto simp: ends_def)
    then show ?thesis using Inl l(1) i(1) by (simp add: lookup_then_def lock_guard_def)
  next
    case (Inr apis)
    then obtain api rest where r: "r = Inr (api # rest)" using l(2) by (cases apis) auto
    let ?w = "set_client (SetBaseUrl (api_base_url api) c) (set_client c w1)"
    have "ends P wedged_error w (Some (Some operation_cancelled, ?w))" using st(2) P(2) by (auto simp: ends_def)
    moreover have "ends P wedged_error w (next_lookup ?w)" using ends_step [OF st(2) assms(5) [OF P(2) i(2)]] .
    ultimately show ?thesis using r l(1) by (simp add: lookup_then_def Let_def)
  qed
qed

text \<open>A lookup that ends made a call.\<close>

lemma lookup_then_calls:
  assumes "network_ok E" "client_pred set_client P" "P w" "lw_init_in_progress w"
    "\<And>w1. P w1 \<Longrightarrow> lw_init_in_progress w1 \<Longrightarrow> ends P wedged_error w1 (next_lookup w1)" "lookup_then E set_client n v next_lookup w = Some (e, w')"
  shows "ww_calls w' \<noteq> ww_calls w"
proof -
  note p = client_predD [OF assms(2)]
  obtain r c w1 where l: "layer_lookup E set_client n v w = (r, c, set_client c w1)" "layer_same w w1" "lw_init_in_progress w1" "strict_prefix (ww_calls w) (ww_calls w1)"
    using layer_lookup_step [OF assms(1), of set_client n v w] assms(4) by metis
  have c: "ww_calls (set_client c w) = ww_calls w" "lw_init_in_progress (set_client c w) = lw_init_in_progress w" for c w using p(1) by (simp_all add: stores_client_def)
  have P: "P (set_client c' (set_client c w1))" for c' using p(2,3) l(2) assms(3) by blast
  have "prefix (ww_calls w1) (ww_calls w')"
  proof (cases "\<exists>api rest. r = Inr (api # rest) \<and> next_lookup (set_client (SetBaseUrl (api_base_url api) c) (set_client c w1)) = Some (e, w')")
    case True
    then obtain api rest where n: "r = Inr (api # rest)" "next_lookup (set_client (SetBaseUrl (api_base_url api) c) (set_client c w1)) = Some (e, w')" by blast
    show ?thesis using assms(5) [OF P, of "SetBaseUrl (api_base_url api) c"] n(2) c l(3) by (auto simp: ends_def layer_step_def)
  next
    case False
    then show ?thesis using assms(6) l(1) c by (auto simp: lookup_then_def lock_guard_def Let_def split: sum.splits list.splits if_splits)
  qed
  then show ?thesis using l(4) by (metis prefix_order.less_le_not_le)
qed

lemma lookup_last_ends:
  assumes "network_ok E" "client_pred set_client P" "P w"
  shows "ends P wedged_error w (lookup_last E set_client n v w)"
proof -
  note p = client_predD [OF assms(2)]
  obtain r c w1 where l: "layer_lookup E set_client n v w = (r, c, set_client c w1)" "r \<noteq> Inr []" "layer_step w w1" "layer_same w w1" "\<not> lw_mutex w1"
    by (rule layer_lookup_step [OF assms(1)])
  let ?w = "set_client c w1\<lparr>lw_mutex := True, lw_init_in_progress := False\<rparr>"
  have P: "P ?w" using p(2) [OF p(3) [OF l(4) assms(3)]] by (rule p(3) [rotated]) (simp add: layer_same_def)
  have st: "layer_step w ?w" using stores_client_step [OF p(1) l(3), of c] by (simp add: layer_step_def)
  have i: "\<not> lw_mutex (set_client c w1)" "\<not> lw_init_in_progress (set_client c' ?w)" for c' using l(5) p(1) by (simp_all add: stores_client_def)
  show ?thesis
  proof (cases r)
    case (Inl e)
    then show ?thesis using l(1) i(1) st P by (auto simp: lookup_last_def lock_guard_def ends_def)
  next
    case (Inr apis)
    then obtain api rest where r: "r = Inr (api # rest)" using l(2) by (cases apis) auto
    have "ends P wedged_error w (Some (None, set_client (SetBaseUrl (api_base_url api) c) ?w))"
      using stores_client_step [OF p(1) st] p(2) [OF P] i(2) by (auto simp: ends_def)
    then show ?thesis using r l(1) i(1) by (simp add: lookup_last_def lock_guard_def)
  qed
qed

lemma init_clients_ends:
  assumes "\<not> lw_init_in_progress w" "last_client w \<noteq> None \<Longrightarrow> P w" "\<And>w'. layer_same w w' \<Longrightarrow> P w \<Longrightarrow> P w'" "last_client (w\<lparr>lw_mutex := True\<rparr>) = last_client w"
    "ends P wedged_error (w\<lparr>lw_mutex := True, lw_init_in_progress := True\<rparr>) (lookups (w\<lparr>lw_mutex := True, lw_init_in_progress := True\<rparr>))"
  shows "ends P wedged_error w (init_clients last_client lookups w)"
proof (cases "case last_client w of None \<Rightarrow> False | Some c \<Rightarrow> base_url c \<noteq> []")
  case True
  then have "P w" using assms(2) by (auto split: option.splits)
  then have "P (w\<lparr>lw_mutex := True\<rparr>)" by (rule assms(3) [rotated]) (simp add: layer_same_def)
  then have "ends P wedged_error w (Some (None, w\<lparr>lw_mutex := True\<rparr>))"
    using assms(1) by (intro endsI) (simp_all add: layer_step_def)
  then show ?thesis using True assms(1,4) by (simp add: init_clients_def)
next
  case False
  have "layer_step w (w\<lparr>lw_mutex := True, lw_init_in_progress := True\<rparr>)" by (simp add: layer_step_def)
  from ends_step [OF this assms(5)] show ?thesis using False assms(1,4) by (simp add: init_clients_def)
qed

section \<open>Requests with the contract of the initialisation\<close>

text \<open>No request is running: no frame holds the lock or has a token to add.\<close>

definition layer_idle :: "('s, 'm) layer_world_scheme \<Rightarrow> bool" where
  "layer_idle w \<longleftrightarrow> \<not> lw_mutex w \<and> lw_due w = [] \<and> tokens_ok (lw_tokens w) \<and> (\<forall>t \<in> set (lw_tokens w). fst t < lw_next_id w)"

text \<open>
  A request is answered and its frames have returned. Its token was removed if it made a call; otherwise it was
  answered before the token was added, and the token stays.
\<close>

definition request_done :: "('s, 'm) layer_world_scheme \<Rightarrow> ('r ApiResponse \<times> ('s, 'm) layer_world_scheme) option \<Rightarrow> bool" where
  "request_done w a \<longleftrightarrow> (\<exists>r w'. a = Some (r, w') \<and> layer_idle w' \<and> (ww_calls w' \<noteq> ww_calls w \<longrightarrow> lw_tokens w' = lw_tokens w) \<and>
     (lw_init_in_progress w' \<longrightarrow> lw_init_in_progress w \<or> r = Inl operation_cancelled))"

text \<open>A request whose token may stay.\<close>

definition request_ended :: "('r ApiResponse \<times> ('s, 'm) layer_world_scheme) option \<Rightarrow> bool" where
  "request_ended a \<longleftrightarrow> (\<exists>r w'. a = Some (r, w') \<and> \<not> lw_mutex w' \<and> lw_due w' = [] \<and> (lw_init_in_progress w' \<longrightarrow> r = Inl operation_cancelled))"

lemma layer_return_ended: "a = Some (r, w) \<Longrightarrow> (lw_init_in_progress w \<Longrightarrow> r = Inl operation_cancelled) \<Longrightarrow> request_ended (layer_return a)"
  by (auto simp: request_ended_def layer_return_def frames_return_def)

lemma AddTask_last: "(\<forall>t \<in> set l. fst t < i) \<Longrightarrow> AddTask i x l = l @ [(i, x)]"
  by (induction l) (auto simp: AddTask_def)

lemma RemoveTask_absent: "tokens_ok l \<Longrightarrow> (\<forall>t \<in> set l. fst t < i) \<Longrightarrow> RemoveTask i l = l"
  by (subst RemoveTask_eq) (auto intro: filter_True)

lemma RemoveTask_last: "tokens_ok l \<Longrightarrow> (\<forall>t \<in> set l. fst t < i) \<Longrightarrow> tokens_ok (l @ [(i, x)]) \<and> RemoveTask i (l @ [(i, x)]) = l"
  by (subst RemoveTask_eq) (auto simp: tokens_ok_def sorted_append less_imp_le intro: filter_True)

lemma layer_request_done:
  assumes "layer_idle w" "ends P wedged_response (w\<lparr>lw_next_id := lw_next_id w + 1, lw_due := [lw_next_id w]\<rparr>) a"
  shows "request_done w (layer_return (map_option (task_answered (lw_next_id w)) a))"
proof -
  let ?i = "lw_next_id w"
  obtain r w1 where a: "a = Some (r, w1)" "layer_step (w\<lparr>lw_next_id := ?i + 1, lw_due := [?i]\<rparr>) w1" "lw_init_in_progress w1 \<Longrightarrow> r = Inl operation_cancelled"
    using assms(2) by (auto elim!: endsE)
  have t: "tokens_ok (lw_tokens w)" "\<forall>t \<in> set (lw_tokens w). fst t < ?i" using assms(1) by (simp_all add: layer_idle_def)
  have n: "lw_next_id w1 \<ge> ?i + 1" using a(2) by (simp add: layer_step_def)
  show ?thesis
  proof (cases "ww_calls w1 = ww_calls w")
    case True
    then have "lw_due w1 = [?i]" "lw_tokens w1 = lw_tokens w" using a(2) by (simp_all add: layer_step_def)
    then have "layer_idle (frames_return (snd (task_answered ?i (r, w1))))"
      using n t RemoveTask_absent [OF t] RemoveTask_last [OF t, of "()"] by (auto simp: layer_idle_def frames_return_def task_answered_def AddTask_last)
    then show ?thesis using a(1,3) True by (auto simp: request_done_def layer_return_def task_answered_def frames_return_def)
  next
    case False
    then have d: "lw_due w1 = []" "lw_tokens w1 = lw_tokens w @ [(?i, ())]" using a(2) t(2) by (simp_all add: layer_step_def frames_return_def AddTask_last)
    then have "layer_idle (frames_return (snd (task_answered ?i (r, w1))))" "lw_tokens (frames_return (snd (task_answered ?i (r, w1)))) = lw_tokens w"
      using n t RemoveTask_last [OF t, of "()"] by (auto simp: layer_idle_def frames_return_def task_answered_def)
    then show ?thesis using a(1,3) by (auto simp: request_done_def layer_return_def task_answered_def frames_return_def)
  qed
qed

text \<open>A request of its own inside another one, which makes a call: its token comes and goes.\<close>

lemma nested_request_step:
  assumes "layer_idle w" "layer_step (w\<lparr>lw_next_id := lw_next_id w + 1, lw_due := [lw_next_id w]\<rparr>) w1"
    "layer_step (w1\<lparr>lw_next_id := lw_next_id w1 + 1, lw_due := lw_next_id w1 # lw_due w1\<rparr>) w2" "ww_calls w2 \<noteq> ww_calls w1"
  shows "layer_step (w\<lparr>lw_next_id := lw_next_id w + 1, lw_due := [lw_next_id w]\<rparr>) (w2\<lparr>lw_tokens := RemoveTask (lw_next_id w1) (lw_tokens w2)\<rparr>)"
proof -
  let ?i = "lw_next_id w" and ?j = "lw_next_id w1" and ?t = "lw_tokens w @ [(lw_next_id w, ())]"
  have t: "tokens_ok (lw_tokens w)" "\<forall>t \<in> set (lw_tokens w). fst t < ?i" using assms(1) by (simp_all add: layer_idle_def)
  have ij: "?i < ?j" and p: "prefix (ww_calls w) (ww_calls w1)" "prefix (ww_calls w1) (ww_calls w2)" using assms(2,3) by (auto simp: layer_step_def)
  have t': "tokens_ok ?t" "\<forall>t \<in> set ?t. fst t < ?j" using RemoveTask_last [OF t, of "()"] t(2) ij by auto
  have "AddTask ?i () (lw_tokens w @ [(?j, ())]) = ?t @ [(?j, ())]" using t(2) ij by (simp add: AddTask_def takeWhile_append dropWhile_append) auto
  moreover have "AddTask ?j () ?t = ?t @ [(?j, ())]" by (rule AddTask_last [OF t'(2)])
  moreover have "AddTask ?j () (lw_tokens w) = lw_tokens w @ [(?j, ())]" by (rule AddTask_last) (use t(2) ij in auto)
  ultimately have "lw_tokens w2 = ?t @ [(?j, ())]" "lw_due w2 = []"
    using assms(2-4) AddTask_last [OF t(2), of "()"] by (auto simp: layer_step_def frames_return_def split: if_splits)
  moreover have "ww_calls w2 \<noteq> ww_calls w" using p assms(4) by (metis prefix_order.antisym)
  ultimately show ?thesis using RemoveTask_last [OF t', of "()"] assms(2,3) p t(2)
    by (auto simp: layer_step_def frames_return_def AddTask_last intro: prefix_order.trans)
qed

text \<open>
  The interface between a client and its initialisation: \<open>clients_ready\<close> says that the clients the calls use exist,
  \<open>clients_ok\<close> that they were created together.
\<close>

locale layer_client =
  fixes init_api :: "'s layer_env \<Rightarrow> ('s, 'm) layer_world_scheme \<Rightarrow> (ApiError option \<times> ('s, 'm) layer_world_scheme) option"
    and clients_ok :: "('s, 'm) layer_world_scheme \<Rightarrow> bool" and clients_ready :: "('s, 'm) layer_world_scheme \<Rightarrow> bool"
  assumes ready_same: "layer_same w w' \<Longrightarrow> clients_ready w \<Longrightarrow> clients_ready w'"
    and ok_same: "layer_same w w' \<Longrightarrow> clients_ok w \<Longrightarrow> clients_ok w'"
    and ready_ok: "clients_ready w \<Longrightarrow> clients_ok w"
    and ready_config: "clients_ready w \<Longrightarrow> lw_config w \<noteq> None"
    and init_ends: "network_ok E \<Longrightarrow> clients_ok w \<Longrightarrow> \<not> lw_init_in_progress w \<Longrightarrow> ends clients_ready wedged_error w (init_api E w)"
begin

text \<open>The continuation may rely on the steps since the request began.\<close>

lemma with_clients_ends_from:
  assumes "network_ok E" "clients_ok w" "\<not> lw_init_in_progress w"
    "\<And>w1. layer_step w w1 \<Longrightarrow> clients_ready w1 \<Longrightarrow> \<not> lw_init_in_progress w1 \<Longrightarrow> \<not> layer_cancelled E w1 \<Longrightarrow> ends clients_ready wedged_response w (f w1)"
  shows "ends clients_ready wedged_response w (with_clients E init_api f w)"
proof -
  obtain err w1 where i: "init_api E w = Some (err, w1)" "layer_step w w1" "clients_ready w1" "lw_init_in_progress w1 \<Longrightarrow> wedged_error err"
    using endsE [OF init_ends [OF assms(1-3)]] by metis
  show ?thesis
  proof (cases err)
    case None
    then have "\<not> lw_init_in_progress w1" using i(4) by auto
    then show ?thesis using None i assms(4) [OF i(2,3)] by (auto simp: with_clients_def intro: endsI)
  qed (use i in \<open>auto simp: with_clients_def intro!: endsI\<close>)
qed

lemma with_clients_ends:
  assumes "network_ok E" "clients_ok w" "\<not> lw_init_in_progress w"
    "\<And>w1. clients_ready w1 \<Longrightarrow> \<not> lw_init_in_progress w1 \<Longrightarrow> ends clients_ready wedged_response w1 (f w1)"
  shows "ends clients_ready wedged_response w (with_clients E init_api f w)"
  by (rule with_clients_ends_from [OF assms(1-3)]) (rule ends_step [OF _ assms(4)])

lemma layer_call_ends:
  assumes "network_ok E" "clients_ready w" "\<not> lw_init_in_progress w" "client_ptr \<noteq> None" "\<And>c. one_call (call c)"
  shows "ends clients_ready wedged_response w (layer_call E call client_ptr f w)"
proof -
  obtain c where c: "client_ptr = Some c" using assms(4) by blast
  obtain r w1 where "answered E (call c w) = (r, w1)" "layer_step w w1" "layer_same w w1" "lw_init_in_progress w1 = lw_init_in_progress w"
    by (rule answered_call [OF assms(1,5)])
  then show ?thesis using c assms(3) ready_same [OF _ assms(2)] by (auto simp: layer_call_def intro!: endsI)
qed

lemma simple_request_done_from:
  assumes "network_ok E" "clients_ok w" "\<not> lw_init_in_progress w" "layer_idle w"
    "\<And>w1. layer_step (w\<lparr>lw_next_id := lw_next_id w + 1, lw_due := [lw_next_id w]\<rparr>) w1 \<Longrightarrow> clients_ready w1 \<Longrightarrow> \<not> lw_init_in_progress w1 \<Longrightarrow>
      \<not> layer_cancelled E w1 \<Longrightarrow> ends clients_ready wedged_response (w\<lparr>lw_next_id := lw_next_id w + 1, lw_due := [lw_next_id w]\<rparr>) (f w1)"
  shows "request_done w (simple_request E init_api f w)"
proof -
  let ?w = "w\<lparr>lw_next_id := lw_next_id w + 1, lw_due := [lw_next_id w]\<rparr>"
  have "clients_ok ?w" using assms(2) by (rule ok_same [rotated]) (simp add: layer_same_def)
  then have "ends clients_ready wedged_response ?w (with_clients E init_api f ?w)"
    by (intro with_clients_ends_from assms(1,5)) (simp_all add: assms(3))
  then show ?thesis using layer_request_done [OF assms(4)] assms(4) by (simp add: simple_request_def layer_request_def layer_idle_def)
qed

lemma simple_request_done:
  assumes "network_ok E" "clients_ok w" "\<not> lw_init_in_progress w" "layer_idle w"
    "\<And>w1. clients_ready w1 \<Longrightarrow> \<not> lw_init_in_progress w1 \<Longrightarrow> ends clients_ready wedged_response w1 (f w1)"
  shows "request_done w (simple_request E init_api f w)"
  by (rule simple_request_done_from [OF assms(1-4)]) (rule ends_step [OF _ assms(5)])

lemma catalog_model_ends:
  assumes "network_ok E" "clients_ready w" "\<not> lw_init_in_progress w"
  shows "ends (\<lambda>w1. clients_ready w1 \<and> \<not> lw_init_in_progress w1) (\<lambda>_. True) w (catalog_model_init E w)"
proof (cases "wc_id (lw_model w) = []")
  case True
  obtain c where c: "lw_config w = Some c" using ready_config [OF assms(2)] by blast
  obtain r w1 where "answered E (Config_GetCatalog (write_env.truncate E) c (HRN_ToString (we_catalog E)) None w) = (r, w1)" "layer_step w w1" "layer_same w w1"
    "lw_init_in_progress w1 = lw_init_in_progress w" by (rule answered_call [OF assms(1) one_call_api(12)])
  moreover from this have "clients_ready w1" "clients_ready (w1\<lparr>lw_model := m\<rparr>)" "layer_step w (w1\<lparr>lw_model := m\<rparr>)" for m
    using assms(2) by (auto simp: layer_same_def layer_step_def intro: ready_same)
  ultimately show ?thesis using True c assms(3) by (cases r) (auto simp: catalog_model_init_def ends_def)
qed (use assms in \<open>auto simp: catalog_model_init_def intro!: endsI\<close>)

end

section \<open>Examples\<close>

text \<open>A service whose environment counts the calls: their status codes, when the caller cancels and which answers come at once.\<close>

definition example_layer_env :: "string \<Rightarrow> (nat \<Rightarrow> int) \<Rightarrow> (nat \<Rightarrow> bool) \<Rightarrow> (nat \<Rightarrow> bool) \<Rightarrow> nat layer_env" where
  "example_layer_env part answer cancelled sync =
     \<lparr>we_server = \<lambda>call n. (\<lparr>status = answer n, response = ''ok''\<rparr>, n + 1), we_codecs = example_codecs, we_uuid = \<lambda>n. replicate n CHR ''0'',
      we_catalog = HRN_null\<lparr>hrn_partition := part, service := Data, catalogId := ''c''\<rparr>, we_settings = client_settings OlpClient_new,
      we_cancelled = cancelled, le_sync = sync\<rparr>"

lemma example_layer_env_ok: "network_ok (example_layer_env ''here'' answer cancelled (\<lambda>_. False))"
  by (simp add: network_ok_def example_layer_env_def example_codecs_def write_DatastoreServerUrl_def)

end
