(* ===== verification/Versioned_Layer.thy ===== *)
theory Versioned_Layer
  imports Layer_Client
begin

text \<open>
  Component dataservice-write: the client of a versioned layer (\<open>VersionedLayerClientImpl.cpp\<close>). Data is published in
  batches: a publication is started, partitions are published to it and it is completed or cancelled.

  The requests for the base version, a batch and its completion are the same lambdas in the client of a volatile
  layer; they are defined once, with \<open>InitApiClients\<close> as an argument. The overloads that return futures call those
  with callbacks.

  Shown: every request is answered when the network answers later; the data of a partition is stored before the
  partition is added to the publication, under the same handle; an unknown catalog partition, and a cancelled
  initialisation, block the client.
\<close>

section \<open>The state\<close>

record 's batch_world = "'s layer_world" +
  bw_metadata :: "OlpClient option"
  bw_publish :: "OlpClient option"
  bw_query :: "OlpClient option"

definition batch_world_new :: "'s \<Rightarrow> int \<Rightarrow> 's batch_world" where
  "batch_world_new env next_id =
     \<lparr>ww_env = env, ww_calls = [], ww_uuids = 0, lw_blob = None, lw_config = None, lw_model = WriteCatalog_new, lw_tokens = [], lw_next_id = next_id,
      lw_init_in_progress = False, lw_mutex = False, lw_due = [], bw_metadata = None, bw_publish = None, bw_query = None\<rparr>"

type_synonym ('s, 'r) batch_answer = "('r ApiResponse \<times> 's batch_world) option"
type_synonym 's batch_init = "'s layer_env \<Rightarrow> 's batch_world \<Rightarrow> (ApiError option \<times> 's batch_world) option"

section \<open>Initialisation\<close>

definition create_batch_clients :: "'s layer_env \<Rightarrow> 's batch_world \<Rightarrow> 's batch_world" where
  "create_batch_clients E w =
     (let c = Some (OlpClientFactory_Create (we_settings E))
      in w\<lparr>lw_blob := c, lw_config := c, bw_metadata := c, bw_publish := c, bw_query := c\<rparr>)"

definition set_blob :: "OlpClient \<Rightarrow> ('s, 'm) layer_world_scheme \<Rightarrow> ('s, 'm) layer_world_scheme" where "set_blob c w = w\<lparr>lw_blob := Some c\<rparr>"
definition set_config :: "OlpClient \<Rightarrow> ('s, 'm) layer_world_scheme \<Rightarrow> ('s, 'm) layer_world_scheme" where "set_config c w = w\<lparr>lw_config := Some c\<rparr>"
definition set_metadata :: "OlpClient \<Rightarrow> 's batch_world \<Rightarrow> 's batch_world" where "set_metadata c w = w\<lparr>bw_metadata := Some c\<rparr>"
definition set_publish :: "OlpClient \<Rightarrow> 's batch_world \<Rightarrow> 's batch_world" where "set_publish c w = w\<lparr>bw_publish := Some c\<rparr>"
definition set_query :: "OlpClient \<Rightarrow> 's batch_world \<Rightarrow> 's batch_world" where "set_query c w = w\<lparr>bw_query := Some c\<rparr>"

definition Versioned_InitApiClients :: "'s batch_init" where
  "Versioned_InitApiClients E =
     init_clients bw_publish (\<lambda>w.
       lookup_then E set_metadata ''metadata'' ''v1''
         (lookup_then E set_config ''config'' ''v1''
           (lookup_then E set_blob ''blob'' ''v1''
             (lookup_last E set_publish ''publish'' ''v2''))) (create_batch_clients E w))"

section \<open>Batches\<close>

text \<open>\<open>init_publication_callback\<close>: the error of a response without an error is the default one.\<close>

definition init_publication_answer :: "Publication ApiResponse \<Rightarrow> Publication ApiResponse" where
  "init_publication_answer r = (case r of Inl e \<Rightarrow> Inl e | Inr p \<Rightarrow> if pub_id p = None then Inl ApiError_default else Inr p)"

definition start_batch :: "'s layer_env \<Rightarrow> 's batch_init \<Rightarrow> StartBatchRequest \<Rightarrow> 's batch_world \<Rightarrow> ('s, Publication) batch_answer" where
  "start_batch E init_api request =
     simple_request E init_api (\<lambda>w.
       let pub = Publication_new\<lparr>pub_layer_ids := Some (case sbr_layers request of None \<Rightarrow> [] | Some l \<Rightarrow> l),
             pub_version_dependencies := Some (case sbr_version_dependencies request of None \<Rightarrow> [] | Some d \<Rightarrow> d)\<rparr>
       in layer_call E (\<lambda>c. InitPublication (write_env.truncate E) c pub (sbr_billing_tag request)) (bw_publish w) init_publication_answer w)"

definition Versioned_StartBatch :: "'s layer_env \<Rightarrow> StartBatchRequest \<Rightarrow> 's batch_world \<Rightarrow> ('s, Publication) batch_answer" where
  "Versioned_StartBatch E request w =
     (if sbr_layers request = None \<or> sbr_layers request = Some [] then Some (invalid_argument ''Invalid layer'', w)
      else start_batch E Versioned_InitApiClients request w)"

text \<open>A catalog without versions has version 0.\<close>

definition base_version_answer :: "VersionResponse ApiResponse \<Rightarrow> VersionResponse ApiResponse" where
  "base_version_answer r =
     (case r of
        Inl e \<Rightarrow> if http_status_code e = 404 \<and> sublist ''Catalog has no versions'' (message e) then Inr \<lparr>vr_version = 0\<rparr> else Inl e
      | Inr v \<Rightarrow> Inr v)"

definition get_base_version :: "'s layer_env \<Rightarrow> 's batch_init \<Rightarrow> 's batch_world \<Rightarrow> ('s, VersionResponse) batch_answer" where
  "get_base_version E init_api =
     simple_request E init_api (\<lambda>w.
       layer_call E (\<lambda>c. Metadata_GetLatestCatalogVersion (write_env.truncate E) c (- 1) None) (bw_metadata w) base_version_answer w)"

definition Versioned_GetBaseVersion :: "'s layer_env \<Rightarrow> 's batch_world \<Rightarrow> ('s, VersionResponse) batch_answer" where
  "Versioned_GetBaseVersion E = get_base_version E Versioned_InitApiClients"

text \<open>The requests for a publication: without its id they fail.\<close>

definition publication_request :: "'s layer_env \<Rightarrow> 's batch_init \<Rightarrow> (string \<Rightarrow> OlpClient \<Rightarrow> 's batch_world \<Rightarrow> 'r ApiResponse \<times> 's batch_world) \<Rightarrow>
    Publication \<Rightarrow> 's batch_world \<Rightarrow> ('s, 'r) batch_answer" where
  "publication_request E init_api call pub w =
     (let publicationId = (case pub_id pub of None \<Rightarrow> [] | Some i \<Rightarrow> i)
      in if publicationId = [] then Some (invalid_argument ''Invalid publication'', w)
         else simple_request E init_api (\<lambda>w. layer_call E (call publicationId) (bw_publish w) id w) w)"

definition get_batch :: "'s layer_env \<Rightarrow> 's batch_init \<Rightarrow> Publication \<Rightarrow> 's batch_world \<Rightarrow> ('s, Publication) batch_answer" where
  "get_batch E init_api = publication_request E init_api (\<lambda>i c. GetPublication (write_env.truncate E) c i None)"

definition complete_batch :: "'s layer_env \<Rightarrow> 's batch_init \<Rightarrow> Publication \<Rightarrow> 's batch_world \<Rightarrow> ('s, unit) batch_answer" where
  "complete_batch E init_api = publication_request E init_api (\<lambda>i c. SubmitPublication (write_env.truncate E) c i None)"

definition Versioned_GetBatch :: "'s layer_env \<Rightarrow> Publication \<Rightarrow> 's batch_world \<Rightarrow> ('s, Publication) batch_answer" where
  "Versioned_GetBatch E = get_batch E Versioned_InitApiClients"

definition Versioned_CompleteBatch :: "'s layer_env \<Rightarrow> Publication \<Rightarrow> 's batch_world \<Rightarrow> ('s, unit) batch_answer" where
  "Versioned_CompleteBatch E = complete_batch E Versioned_InitApiClients"

definition Versioned_CancelBatch :: "'s layer_env \<Rightarrow> Publication \<Rightarrow> 's batch_world \<Rightarrow> ('s, unit) batch_answer" where
  "Versioned_CancelBatch E =
     publication_request E Versioned_InitApiClients (\<lambda>i c. CancelPublication (write_env.truncate E) c i None)"

section \<open>Publication to a batch\<close>

definition Versioned_InitCatalogModel :: "'s layer_env \<Rightarrow> 's batch_world \<Rightarrow> ('s, unit) batch_answer" where
  "Versioned_InitCatalogModel E w = do {
     (err, w1) \<leftarrow> Versioned_InitApiClients E w;
     case err of
       Some e \<Rightarrow> Some (Inl e, w1)
     | None \<Rightarrow>
         if wc_id (lw_model w1) \<noteq> [] then Some (Inr (), w1)
         else if layer_cancelled E w1 then Some (Inl operation_cancelled, w1)
         else do {
           (err, w2) \<leftarrow> catalog_model_init E w1;
           Some (case err of Some e \<Rightarrow> Inl e | None \<Rightarrow> Inr (), w2)
         }
   }"

definition Versioned_UploadPartition :: "'s layer_env \<Rightarrow> string \<Rightarrow> PublishPartition \<Rightarrow> string \<Rightarrow> 's batch_world \<Rightarrow> ('s, unit) batch_answer" where
  "Versioned_UploadPartition E publication_id part layer =
     with_clients E Versioned_InitApiClients (\<lambda>w.
       let publishPartition = PublishPartition_new\<lparr>pp_partition := Some (case pp_partition part of None \<Rightarrow> [] | Some p \<Rightarrow> p),
             pp_data_handle := Some (case pp_data_handle part of None \<Rightarrow> [] | Some h \<Rightarrow> h)\<rparr>
       in layer_call E (\<lambda>c. UploadPartitions (write_env.truncate E) c \<lparr>pps_partitions = Some [publishPartition]\<rparr> publication_id layer None)
            (bw_publish w) id w)"

definition Versioned_UploadBlob :: "'s layer_env \<Rightarrow> PublishPartition \<Rightarrow> string \<Rightarrow> string \<Rightarrow> 's batch_world \<Rightarrow> ('s, unit) batch_answer" where
  "Versioned_UploadBlob E part handle layer w =
     (let ctype = content_type_of layer w
      in if ctype = []
         then Some (Inl (ApiError_code ErrInvalidArgument (''Unable to find the Layer ID ('' @ layer @
                '') provided in the request in the Catalog specified when creating this VersionedLayerClient instance.'') False), w)
         else with_clients E Versioned_InitApiClients
                (\<lambda>w. layer_call E (\<lambda>c. PutBlob (write_env.truncate E) c layer ctype handle (pp_data part) None) (lw_blob w) id w) w)"

definition Versioned_publish :: "'s layer_env \<Rightarrow> string \<Rightarrow> string \<Rightarrow> PublishPartition \<Rightarrow> string \<Rightarrow> 's batch_world \<Rightarrow> ('s, ResponseOkSingle) batch_answer" where
  "Versioned_publish E publication_id handle part layer w = do {
     (r, w1) \<leftarrow> Versioned_InitCatalogModel E w;
     case r of
       Inl e \<Rightarrow> Some (Inl e, w1)
     | Inr _ \<Rightarrow> do {
         (r, w2) \<leftarrow> Versioned_UploadBlob E part handle layer w1;
         case r of
           Inl e \<Rightarrow> Some (Inl e, w2)
         | Inr _ \<Rightarrow> do {
             (r, w3) \<leftarrow> Versioned_UploadPartition E publication_id part layer w2;
             Some (case r of Inl e \<Rightarrow> Inl e | Inr _ \<Rightarrow> Inr \<lparr>ros_trace_id = (case pp_partition part of None \<Rightarrow> [] | Some p \<Rightarrow> p)\<rparr>, w3)
           }
       }
   }"

definition Versioned_PublishToBatch :: "'s layer_env \<Rightarrow> Publication \<Rightarrow> PublishPartitionDataRequest \<Rightarrow> 's batch_world \<Rightarrow>
    ('s, ResponseOkSingle) batch_answer" where
  "Versioned_PublishToBatch E pub request w =
     (let publication_id = (case pub_id pub of None \<Rightarrow> [] | Some i \<Rightarrow> i); layer = ppr_layer_id request
      in if publication_id = [] then Some (invalid_argument ''Invalid publication'', w)
         else if layer = [] then Some (invalid_argument ''Invalid request'', w)
         else let (handle, w1) = GenerateUuid (write_env.truncate E) w;
                  part = PublishPartition_new\<lparr>pp_partition := Some (case ppr_partition_id request of None \<Rightarrow> [] | Some p \<Rightarrow> p),
                    pp_data := ppr_data request, pp_data_handle := Some handle\<rparr>
              in layer_return (layer_request (\<lambda>i w. map_option (task_answered i) (Versioned_publish E publication_id handle part layer w)) w1))"

section \<open>Stored data\<close>

text \<open>Only the callback of the call removes the token of the request.\<close>

definition Versioned_CheckDataExists :: "'s layer_env \<Rightarrow> CheckDataExistsRequest \<Rightarrow> 's batch_world \<Rightarrow> ('s, int) batch_answer" where
  "Versioned_CheckDataExists E request w =
     (if cde_layer_id request = [] then Some (invalid_argument ''Invalid layer'', w)
      else layer_return (layer_request (\<lambda>i.
        with_clients E Versioned_InitApiClients (\<lambda>w.
          map_option (task_answered i)
            (layer_call E (\<lambda>c. checkBlobExists (write_env.truncate E) c (cde_layer_id request) (cde_data_handle request) None) (lw_blob w) id w))) w))"

section \<open>The contract of the initialisation\<close>

definition batch_ready :: "'s batch_world \<Rightarrow> bool" where
  "batch_ready w \<longleftrightarrow> lw_blob w \<noteq> None \<and> lw_config w \<noteq> None \<and> bw_metadata w \<noteq> None \<and> bw_publish w \<noteq> None \<and> bw_query w \<noteq> None"

definition batch_ok :: "'s batch_world \<Rightarrow> bool" where
  "batch_ok w \<longleftrightarrow> (bw_publish w \<noteq> None \<longrightarrow> batch_ready w)"

lemma batch_world_same:
  assumes "layer_same w w'"
  shows "bw_metadata w' = bw_metadata w" "bw_publish w' = bw_publish w" "bw_query w' = bw_query w" "lw_blob w' = lw_blob w" "lw_config w' = lw_config w"
  using assms by (cases w; cases w'; simp add: layer_same_def)+

lemma batch_pred:
  "client_pred set_blob batch_ready" "client_pred set_config batch_ready" "client_pred set_metadata batch_ready"
  "client_pred set_publish batch_ready" "client_pred set_query batch_ready"
  by (auto simp: client_pred_def stores_client_def set_blob_def set_config_def set_metadata_def set_publish_def set_query_def batch_ready_def batch_world_same)

text \<open>Lookups that end make an initialisation that ends.\<close>

lemma batch_init_ends:
  assumes "\<And>w. batch_ready w \<Longrightarrow> lw_init_in_progress w \<Longrightarrow> ends batch_ready wedged_error w (lookups w)" "batch_ok w" "\<not> lw_init_in_progress w"
  shows "ends batch_ready wedged_error w (init_clients bw_publish (\<lambda>w. lookups (create_batch_clients E w)) w)"
proof (rule init_clients_ends)
  let ?w = "w\<lparr>lw_mutex := True, lw_init_in_progress := True\<rparr>"
  have "layer_step ?w (create_batch_clients E ?w)" by (simp add: layer_step_def create_batch_clients_def Let_def)
  moreover have "ends batch_ready wedged_error (create_batch_clients E ?w) (lookups (create_batch_clients E ?w))"
    by (rule assms(1)) (simp_all add: create_batch_clients_def batch_ready_def Let_def)
  ultimately show "ends batch_ready wedged_error ?w (lookups (create_batch_clients E ?w))" by (rule ends_step)
qed (use assms in \<open>auto simp: batch_ok_def batch_ready_def batch_world_same\<close>)

lemma Versioned_init_ends:
  assumes "network_ok E" "batch_ok w" "\<not> lw_init_in_progress w"
  shows "ends batch_ready wedged_error w (Versioned_InitApiClients E w)"
  unfolding Versioned_InitApiClients_def using assms(2,3)
  by (intro batch_init_ends lookup_then_ends [OF assms(1)] lookup_last_ends [OF assms(1)] batch_pred) simp_all

text \<open>A client with batches: the requests that versioned and volatile layers share.\<close>

locale batch_client = layer_client init_api batch_ok batch_ready for init_api :: "'s batch_init"
begin

lemma start_batch_done:
  assumes "network_ok E" "batch_ok w" "\<not> lw_init_in_progress w" "layer_idle w"
  shows "request_done w (start_batch E init_api request w)"
  unfolding start_batch_def Let_def using assms
  by (intro simple_request_done layer_call_ends one_call_api) (auto simp: batch_ready_def)

lemma get_base_version_done:
  assumes "network_ok E" "batch_ok w" "\<not> lw_init_in_progress w" "layer_idle w"
  shows "request_done w (get_base_version E init_api w)"
  unfolding get_base_version_def using assms
  by (intro simple_request_done layer_call_ends one_call_api) (auto simp: batch_ready_def)

lemma publication_request_done:
  assumes "network_ok E" "batch_ok w" "\<not> lw_init_in_progress w" "layer_idle w" "\<And>i c. one_call (call i c)"
  shows "request_done w (publication_request E init_api call pub w)"
proof (cases "(case pub_id pub of None \<Rightarrow> [] | Some i \<Rightarrow> i) = []")
  case True
  then show ?thesis using assms(4) by (simp add: publication_request_def request_done_def)
next
  case False
  have "request_done w (simple_request E init_api (\<lambda>w. layer_call E (call i) (bw_publish w) id w) w)" for i
    using assms by (intro simple_request_done layer_call_ends) (auto simp: batch_ready_def)
  then show ?thesis using False by (simp add: publication_request_def)
qed

end

interpretation versioned: batch_client Versioned_InitApiClients
  by unfold_locales (use Versioned_init_ends in \<open>auto simp: batch_ok_def batch_ready_def batch_world_same\<close>)

lemma Versioned_InitCatalogModel_ends:
  assumes "network_ok E" "batch_ok w" "\<not> lw_init_in_progress w"
  shows "ends batch_ready wedged_response w (Versioned_InitCatalogModel E w)"
  unfolding Versioned_InitCatalogModel_def
proof (rule ends_bind [OF Versioned_init_ends [OF assms]], goal_cases)
  case (1 err w1)
  have c: "ends batch_ready wedged_response w1 (catalog_model_init E w1 \<bind> (\<lambda>(err, w2). Some (case err of Some e \<Rightarrow> Inl e | None \<Rightarrow> Inr (), w2)))" if "err = None"
  proof -
    have n: "\<not> lw_init_in_progress w1" using 1(2) that by auto
    show ?thesis using versioned.catalog_model_ends [OF assms(1) 1(1) n] by (auto simp: ends_def)
  qed
  show ?case
  proof (cases err)
    case None
    then have n: "\<not> lw_init_in_progress w1" using 1(2) by auto
    show ?thesis using None c [OF None] 1(1) n by (auto intro: endsI)
  qed (use 1 in \<open>auto intro!: endsI\<close>)
qed

lemma Versioned_publish_ends:
  assumes "network_ok E" "batch_ok w" "\<not> lw_init_in_progress w"
  shows "ends batch_ready wedged_response w (Versioned_publish E publication_id handle part layer w)"
proof -
  have part: "ends batch_ready wedged_response w (Versioned_UploadPartition E publication_id part layer w)" if "batch_ready w" "\<not> lw_init_in_progress w" for w
    unfolding Versioned_UploadPartition_def Let_def using assms(1) that
    by (intro versioned.with_clients_ends versioned.layer_call_ends one_call_api) (auto simp: batch_ready_def batch_ok_def)
  have blob: "ends batch_ready wedged_response w (Versioned_UploadBlob E part handle layer w)" if "batch_ready w" "\<not> lw_init_in_progress w" for w
  proof (cases "content_type_of layer w = []")
    case False
    have "ends batch_ready wedged_response w (with_clients E Versioned_InitApiClients
        (\<lambda>w. layer_call E (\<lambda>c. PutBlob (write_env.truncate E) c layer t handle (pp_data part) None) (lw_blob w) id w) w)" for t
      using assms(1) that by (intro versioned.with_clients_ends versioned.layer_call_ends one_call_api) (auto simp: batch_ready_def batch_ok_def)
    then show ?thesis using False by (simp add: Versioned_UploadBlob_def)
  qed (use that in \<open>auto simp: Versioned_UploadBlob_def intro!: endsI\<close>)
  have up: "ends batch_ready wedged_response w (Versioned_UploadPartition E publication_id part layer w \<bind> (\<lambda>(r, w3).
      Some (case r of Inl e \<Rightarrow> Inl e | Inr _ \<Rightarrow> Inr \<lparr>ros_trace_id = (case pp_partition part of None \<Rightarrow> [] | Some p \<Rightarrow> p)\<rparr>, w3)))"
    if "batch_ready w" "\<not> lw_init_in_progress w" for w
    using part [OF that] by (auto simp: ends_def)
  show ?thesis unfolding Versioned_publish_def
  proof (rule ends_bind [OF Versioned_InitCatalogModel_ends [OF assms]], goal_cases)
    case (1 r w1)
    show ?case
    proof (cases r)
      case (Inr x)
      then have n: "\<not> lw_init_in_progress w1" using 1(2) by auto
      have "ends batch_ready wedged_response w1 (Versioned_UploadBlob E part handle layer w1 \<bind> (\<lambda>(r, w2). case r of Inl e \<Rightarrow> Some (Inl e, w2)
        | Inr _ \<Rightarrow> Versioned_UploadPartition E publication_id part layer w2 \<bind> (\<lambda>(r, w3).
            Some (case r of Inl e \<Rightarrow> Inl e | Inr _ \<Rightarrow> Inr \<lparr>ros_trace_id = (case pp_partition part of None \<Rightarrow> [] | Some p \<Rightarrow> p)\<rparr>, w3))))"
        by (rule ends_bind [OF blob [OF 1(1) n]]) (auto split: sum.split intro!: up endsI)
      then show ?thesis using Inr by simp
    qed (use 1 in \<open>auto intro!: endsI\<close>)
  qed
qed

lemma Versioned_PublishToBatch_done:
  assumes "network_ok E" "batch_ok w" "\<not> lw_init_in_progress w" "layer_idle w"
  shows "request_done w (Versioned_PublishToBatch E pub request w)"
proof (cases "(case pub_id pub of None \<Rightarrow> [] | Some i \<Rightarrow> i) = [] \<or> ppr_layer_id request = []")
  case True
  then show ?thesis using assms(4) by (auto simp: Versioned_PublishToBatch_def request_done_def Let_def)
next
  case False
  let ?u = "w\<lparr>ww_uuids := ww_uuids w + 1\<rparr>"
  let ?w = "?u\<lparr>lw_next_id := lw_next_id ?u + 1, lw_due := [lw_next_id ?u]\<rparr>"
  have "batch_ok ?w" using assms(2) by (simp add: batch_ok_def batch_ready_def)
  then have "ends batch_ready wedged_response ?w (Versioned_publish E i h p l ?w)" for i h p l by (intro Versioned_publish_ends assms(1)) (simp_all add: assms(3))
  then have "request_done ?u (layer_return (map_option (task_answered (lw_next_id ?u)) (Versioned_publish E i h p l ?w)))" for i h p l
    using assms(4) by (intro layer_request_done) (simp_all add: layer_idle_def)
  then show ?thesis using False assms(4)
    by (simp add: Versioned_PublishToBatch_def GenerateUuid_def Let_def request_done_def layer_request_def layer_idle_def)
qed

text \<open>The request for stored data ends too; its token is removed when the data service answered.\<close>

lemma Versioned_CheckDataExists_ended:
  assumes "network_ok E" "batch_ok w" "\<not> lw_init_in_progress w" "layer_idle w"
  shows "request_ended (Versioned_CheckDataExists E request w)"
proof (cases "cde_layer_id request = []")
  case True
  then show ?thesis using assms(3,4) by (simp add: Versioned_CheckDataExists_def request_ended_def layer_idle_def)
next
  case False
  let ?i = "lw_next_id w" and ?w = "w\<lparr>lw_next_id := lw_next_id w + 1, lw_due := [lw_next_id w]\<rparr>"
  let ?call = "\<lambda>w. layer_call E (\<lambda>c. checkBlobExists (write_env.truncate E) c (cde_layer_id request) (cde_data_handle request) None) (lw_blob w) id w"
  have ok: "batch_ok ?w" "\<not> lw_init_in_progress ?w" using assms(2,3) by (simp_all add: batch_ok_def batch_ready_def)
  obtain err w1 where i: "Versioned_InitApiClients E ?w = Some (err, w1)" "batch_ready w1" "lw_init_in_progress w1 \<Longrightarrow> wedged_error err"
    using endsE [OF Versioned_init_ends [OF assms(1) ok]] by metis
  have "\<exists>r w2. with_clients E Versioned_InitApiClients (\<lambda>w. map_option (task_answered ?i) (?call w)) ?w = Some (r, w2) \<and> (lw_init_in_progress w2 \<longrightarrow> r = Inl operation_cancelled)"
  proof (cases "err = None \<and> \<not> layer_cancelled E w1")
    case True
    then have "ends batch_ready wedged_response w1 (?call w1)" using assms(1) i(2,3)
      by (intro versioned.layer_call_ends one_call_api) (auto simp: batch_ready_def)
    then obtain r w2 where "?call w1 = Some (r, w2)" "lw_init_in_progress w2 \<Longrightarrow> r = Inl operation_cancelled" by (auto elim!: endsE)
    then show ?thesis using True i(1) by (auto simp: with_clients_def task_answered_def)
  qed (use i in \<open>auto simp: with_clients_def split: option.split\<close>)
  then show ?thesis using False assms(4) layer_return_ended by (fastforce simp: Versioned_CheckDataExists_def layer_request_def layer_idle_def)
qed

section \<open>The calls of a publication\<close>

text \<open>The calls that publish a partition: the data, then the partition with the handle of the data.\<close>

definition batch_publish_calls :: "'s layer_env \<Rightarrow> string \<Rightarrow> PublishPartitionDataRequest \<Rightarrow> OlpClient \<Rightarrow> OlpClient \<Rightarrow> string \<Rightarrow> string \<Rightarrow> WriteCall list" where
  "batch_publish_calls E publication_id request publish blob ctype handle =
     (let part = (case ppr_partition_id request of None \<Rightarrow> [] | Some p \<Rightarrow> p); layer = ppr_layer_id request;
          body = serialize_PublishPartitions (we_codecs E) \<lparr>pps_partitions = Some [PublishPartition_new\<lparr>pp_partition := Some part, pp_data_handle := Some handle\<rparr>]\<rparr>
      in [\<lparr>wcall_client = blob, wcall_path = ''/layers/'' @ layer @ ''/data/'' @ handle, wcall_method = ''PUT'', wcall_query = [],
           wcall_headers = accept_json, wcall_body = ppr_data request, wcall_content_type = ctype\<rparr>,
          \<lparr>wcall_client = publish, wcall_path = ''/layers/'' @ layer @ ''/publications/'' @ publication_id @ ''/partitions'', wcall_method = ''POST'',
           wcall_query = [], wcall_headers = accept_json, wcall_body = Some body, wcall_content_type = ''application/json''\<rparr>])"

definition initialised_batch :: "OlpClient \<Rightarrow> OlpClient \<Rightarrow> string \<Rightarrow> string \<Rightarrow> 's batch_world \<Rightarrow> bool" where
  "initialised_batch publish blob layer ctype w \<longleftrightarrow> bw_publish w = Some publish \<and> base_url publish \<noteq> [] \<and> lw_blob w = Some blob \<and>
     \<not> lw_init_in_progress w \<and> wc_id (lw_model w) \<noteq> [] \<and> content_type_of layer w = ctype"

lemma Versioned_init_ready: "initialised_batch publish blob layer ctype w \<Longrightarrow> Versioned_InitApiClients E w = Some (None, w\<lparr>lw_mutex := True\<rparr>)"
  by (simp add: initialised_batch_def Versioned_InitApiClients_def init_clients_def)

lemma initialised_batch_keeps:
  "initialised_batch publish blob layer ctype w \<Longrightarrow> initialised_batch publish blob layer ctype (w\<lparr>lw_mutex := b\<rparr>)"
  "initialised_batch publish blob layer ctype w \<Longrightarrow> initialised_batch publish blob layer ctype (w\<lparr>ww_env := s, ww_calls := cs\<rparr>)"
  "initialised_batch publish blob layer ctype w \<Longrightarrow> initialised_batch publish blob layer ctype (frames_return w)"
  by (simp_all add: initialised_batch_def frames_return_def content_type_of_def)

text \<open>A step of the publication makes its one call, or none when the request was cancelled.\<close>

lemma initialised_call:
  assumes "initialised_batch publish blob layer ctype w" "\<And>w. call c w = (let (r, w1) = CallApi_write V x w in (g r, w1))"
    "with_clients E Versioned_InitApiClients (\<lambda>w. layer_call E call (ptr w) id w) w = Some (r, w')" "ptr (w\<lparr>lw_mutex := True\<rparr>) = Some c"
  shows "(ww_calls w' = ww_calls w \<and> r = Inl operation_cancelled \<or> ww_calls w' = ww_calls w @ [x]) \<and> initialised_batch publish blob layer ctype w'"
proof -
  obtain q s where q: "we_server V x (ww_env w) = (q, s)" by (metis surj_pair)
  let ?w = "w\<lparr>lw_mutex := True, ww_env := s, ww_calls := ww_calls w @ [x]\<rparr>"
  have "initialised_batch publish blob layer ctype ?w" "initialised_batch publish blob layer ctype (frames_return ?w)"
    using initialised_batch_keeps assms(1) by (metis layer_world.fold_congs(7))+
  moreover have "ww_calls (frames_return ?w) = ww_calls w @ [x]" by (simp add: frames_return_def)
  ultimately show ?thesis using assms q initialised_batch_keeps(1) [OF assms(1)]
    by (auto simp: with_clients_def Versioned_init_ready layer_call_def answered_def CallApi_write_def split: if_splits)
qed

lemma UploadBlob_calls:
  assumes "initialised_batch publish blob layer ctype w" "ctype \<noteq> []" "Versioned_UploadBlob E part handle layer w = Some (r, w')"
  shows "(ww_calls w' = ww_calls w \<and> r = Inl operation_cancelled \<or> ww_calls w' = ww_calls w @ [\<lparr>wcall_client = blob,
      wcall_path = ''/layers/'' @ layer @ ''/data/'' @ handle, wcall_method = ''PUT'', wcall_query = [], wcall_headers = accept_json,
      wcall_body = pp_data part, wcall_content_type = ctype\<rparr>]) \<and> initialised_batch publish blob layer ctype w'"
proof (rule initialised_call [OF assms(1)])
  show "with_clients E Versioned_InitApiClients (\<lambda>w. layer_call E (\<lambda>c. PutBlob (write_env.truncate E) c layer ctype handle (pp_data part) None) (lw_blob w) id w) w = Some (r, w')"
    using assms by (simp add: Versioned_UploadBlob_def initialised_batch_def)
qed (use assms(1) in \<open>simp_all add: PutBlob_def billing_params_def insert_opt_def initialised_batch_def Let_def\<close>)

lemma UploadPartition_calls:
  assumes "initialised_batch publish blob layer ctype w" "Versioned_UploadPartition E publication_id part layer w = Some (r, w')"
    "pp_partition part = Some p" "pp_data_handle part = Some handle"
  shows "(ww_calls w' = ww_calls w \<and> r = Inl operation_cancelled \<or> ww_calls w' = ww_calls w @ [\<lparr>wcall_client = publish,
      wcall_path = ''/layers/'' @ layer @ ''/publications/'' @ publication_id @ ''/partitions'', wcall_method = ''POST'', wcall_query = [],
      wcall_headers = accept_json, wcall_body = Some (serialize_PublishPartitions (we_codecs E)
        \<lparr>pps_partitions = Some [PublishPartition_new\<lparr>pp_partition := Some p, pp_data_handle := Some handle\<rparr>]\<rparr>),
      wcall_content_type = ''application/json''\<rparr>]) \<and> initialised_batch publish blob layer ctype w'"
proof (rule initialised_call [OF assms(1)])
  show "with_clients E Versioned_InitApiClients (\<lambda>w. layer_call E (\<lambda>c. UploadPartitions (write_env.truncate E) c
      \<lparr>pps_partitions = Some [PublishPartition_new\<lparr>pp_partition := Some p, pp_data_handle := Some handle\<rparr>]\<rparr> publication_id layer None) (bw_publish w) id w) w = Some (r, w')"
    using assms by (simp add: Versioned_UploadPartition_def Let_def)
qed (use assms(1) in \<open>simp_all add: UploadPartitions_def billing_params_def insert_opt_def initialised_batch_def Let_def\<close>)

lemma Versioned_publish_calls:
  assumes "initialised_batch publish blob (ppr_layer_id request) ctype w" "ctype \<noteq> []"
    "part = PublishPartition_new\<lparr>pp_partition := Some (case ppr_partition_id request of None \<Rightarrow> [] | Some p \<Rightarrow> p), pp_data := ppr_data request, pp_data_handle := Some handle\<rparr>"
    "Versioned_publish E publication_id handle part (ppr_layer_id request) w = Some (r, w')"
  shows "\<exists>n. ww_calls w' = ww_calls w @ take n (batch_publish_calls E publication_id request publish blob ctype handle) \<and>
    (\<forall>y. r = Inr y \<longrightarrow> n = 2 \<and> y = \<lparr>ros_trace_id = (case ppr_partition_id request of None \<Rightarrow> [] | Some p \<Rightarrow> p)\<rparr>)"
proof -
  let ?calls = "batch_publish_calls E publication_id request publish blob ctype handle" and ?w = "w\<lparr>lw_mutex := True\<rparr>"
  have cat: "Versioned_InitCatalogModel E w = Some (Inr (), ?w)"
    using assms(1) Versioned_init_ready [OF assms(1)] by (simp add: Versioned_InitCatalogModel_def initialised_batch_def)
  obtain q w2 where b: "Versioned_UploadBlob E part handle (ppr_layer_id request) ?w = Some (q, w2)"
    using assms(4) cat by (auto simp: Versioned_publish_def split: bind_splits)
  note bc = UploadBlob_calls [OF initialised_batch_keeps(1) [OF assms(1)] assms(2) b]
  show ?thesis
  proof (cases q)
    case (Inl e)
    then show ?thesis using assms(3,4) cat b bc
      by (auto simp: Versioned_publish_def batch_publish_calls_def Let_def PublishPartition_new_def intro: exI [of _ 0] exI [of _ 1])
  next
    case (Inr x)
    then have c1: "ww_calls w2 = ww_calls w @ take 1 ?calls" using bc assms(3) by (simp add: batch_publish_calls_def Let_def PublishPartition_new_def)
    obtain q' where u: "Versioned_UploadPartition E publication_id part (ppr_layer_id request) w2 = Some (q', w')"
      "r = (case q' of Inl e \<Rightarrow> Inl e | Inr _ \<Rightarrow> Inr \<lparr>ros_trace_id = (case pp_partition part of None \<Rightarrow> [] | Some p \<Rightarrow> p)\<rparr>)"
      using assms(4) cat b Inr by (auto simp: Versioned_publish_def split: bind_splits)
    have "ww_calls w' = ww_calls w @ take 1 ?calls \<and> q' = Inl operation_cancelled \<or> ww_calls w' = ww_calls w @ take 2 ?calls"
      using UploadPartition_calls [OF conjunct2 [OF bc] u(1)] assms(3) c1 by (simp add: batch_publish_calls_def Let_def PublishPartition_new_def)
    then show ?thesis using u(2) assms(3) by (cases q') auto
  qed
qed

lemma initialisation_blocks: "lw_init_in_progress w \<Longrightarrow> simple_request E Versioned_InitApiClients f w = None"
  by (simp add: simple_request_def layer_request_def with_clients_def layer_return_def Versioned_InitApiClients_def init_clients_def)

section \<open>Properties\<close>


definition example_initialised_batch :: "nat batch_world" where
  "example_initialised_batch = (batch_world_new 0 0)\<lparr>lw_blob := Some example_client, lw_config := Some example_client, bw_metadata := Some example_client,
     bw_publish := Some example_client, bw_query := Some example_client, lw_model := wparse_Catalog example_codecs []\<rparr>"

definition example_partition_request :: PublishPartitionDataRequest where
  "example_partition_request = \<lparr>ppr_data = Some ''abc'', ppr_layer_id = ''l'', ppr_partition_id = Some ''23'', ppr_billing_tag = None, ppr_checksum = None\<rparr>"


text \<open>
  When a request leaves the initialisation in progress, the caller had cancelled it; the flag is never reset, so every
  later request of the client waits for ever, whatever the network does.
\<close>

theorem cancelled_init_blocks:
  assumes "network_ok E" "batch_ok w" "\<not> lw_init_in_progress w" "layer_idle w" "Versioned_GetBaseVersion E w = Some (r, w')" "lw_init_in_progress w'"
  shows "r = Inl operation_cancelled \<and> (\<forall>E'. Versioned_GetBaseVersion E' w' = None \<and>
    (\<forall>request l ls. sbr_layers request = Some (l # ls) \<longrightarrow> Versioned_StartBatch E' request w' = None) \<and>
    (\<forall>pub i. pub_id pub = Some i \<and> i \<noteq> [] \<longrightarrow> Versioned_CompleteBatch E' pub w' = None))"
proof -
  have "r = Inl operation_cancelled"
    using versioned.get_base_version_done [OF assms(1-4)] assms(3,5,6) by (auto simp: request_done_def Versioned_GetBaseVersion_def)
  then show ?thesis using assms(6)
    by (auto simp: initialisation_blocks Versioned_GetBaseVersion_def get_base_version_def Versioned_StartBatch_def start_batch_def Versioned_CompleteBatch_def complete_batch_def
        publication_request_def)
qed

text \<open>The caller cancels during the first lookup.\<close>

theorem cancelled_init_blocks_witness:
  "\<exists>w'. Versioned_GetBaseVersion (example_layer_env ''here'' (\<lambda>_. 200) (\<lambda>n. n = 1) (\<lambda>_. False)) (batch_world_new 0 0) = Some (Inl operation_cancelled, w') \<and>
     Versioned_GetBaseVersion (example_layer_env ''here'' (\<lambda>_. 200) (\<lambda>_. False) (\<lambda>_. False)) w' = None"
proof -
  let ?E = "example_layer_env ''here'' (\<lambda>_. 200) (\<lambda>n. n = 1) (\<lambda>_. False)" and ?w = "batch_world_new 0 0 :: nat batch_world"
  have ok: "batch_ok ?w" "\<not> lw_init_in_progress ?w" "layer_idle ?w" by (simp_all add: batch_ok_def batch_world_new_def layer_idle_def tokens_ok_def)
  have "case Versioned_GetBaseVersion ?E ?w of None \<Rightarrow> False | Some (r, w') \<Rightarrow> lw_init_in_progress w'" by code_simp
  then obtain r w' where c: "Versioned_GetBaseVersion ?E ?w = Some (r, w')" "lw_init_in_progress w'" by (auto split: option.splits)
  from cancelled_init_blocks [OF example_layer_env_ok ok c] c show ?thesis by blast
qed

end
