(* ===== verification/Volatile_Layer.thy ===== *)
theory Volatile_Layer
  imports Versioned_Layer
begin

text \<open>
  Component dataservice-write: the client of a volatile layer (\<open>VolatileLayerClientImpl.cpp\<close>). Partitions are published
  in batches without data; the data of a partition is stored under the handle the partition has.

  The state is that of a client with batches, and the requests it shares with a versioned layer are taken from
  \<open>Versioned_Layer\<close>.

  Shown: every request is answered when the network answers later; data is only stored under the handle that the
  query service reports for the partition; a batch is checked before it is published.
\<close>

section \<open>Initialisation and batches\<close>

definition Volatile_InitApiClients :: "'s batch_init" where
  "Volatile_InitApiClients E =
     init_clients bw_publish (\<lambda>w.
       lookup_then E set_config ''config'' ''v1''
         (lookup_then E set_metadata ''metadata'' ''v1''
           (lookup_then E set_blob ''volatile-blob'' ''v1''
             (lookup_then E set_query ''query'' ''v1''
               (lookup_last E set_publish ''publish'' ''v2'')))) (create_batch_clients E w))"

definition Volatile_GetBaseVersion :: "'s layer_env \<Rightarrow> 's batch_world \<Rightarrow> ('s, VersionResponse) batch_answer" where
  "Volatile_GetBaseVersion E = get_base_version E Volatile_InitApiClients"

definition Volatile_StartBatch :: "'s layer_env \<Rightarrow> StartBatchRequest \<Rightarrow> 's batch_world \<Rightarrow> ('s, Publication) batch_answer" where
  "Volatile_StartBatch E = start_batch E Volatile_InitApiClients"

definition Volatile_GetBatch :: "'s layer_env \<Rightarrow> Publication \<Rightarrow> 's batch_world \<Rightarrow> ('s, Publication) batch_answer" where
  "Volatile_GetBatch E = get_batch E Volatile_InitApiClients"

definition Volatile_CompleteBatch :: "'s layer_env \<Rightarrow> Publication \<Rightarrow> 's batch_world \<Rightarrow> ('s, unit) batch_answer" where
  "Volatile_CompleteBatch E = complete_batch E Volatile_InitApiClients"

section \<open>The handles of partitions\<close>

text \<open>Assignment to an element of a \<open>std::map\<close>.\<close>

definition map_assign :: "string \<Rightarrow> string \<Rightarrow> (string \<times> string) list \<Rightarrow> (string \<times> string) list" where
  "map_assign k v m =
     takeWhile (\<lambda>x. bytes_less (fst x) k) m @ (k, v) # dropWhile (\<lambda>x. fst x = k) (dropWhile (\<lambda>x. bytes_less (fst x) k) m)"

definition data_handle_map :: "string list \<Rightarrow> Partition list \<Rightarrow> (string \<times> string) list" where
  "data_handle_map partitionIds ps =
     fold (\<lambda>p m. if partition_id p \<in> set partitionIds then map_assign (partition_id p) (data_handle p) m else m) ps []"

definition query_handles :: "'s layer_env \<Rightarrow> string \<Rightarrow> string list \<Rightarrow> int option \<Rightarrow> string list option \<Rightarrow> string option \<Rightarrow> 's batch_world \<Rightarrow>
    ('s, (string \<times> string) list) batch_answer" where
  "query_handles E lid partitionIds ver additionalFields billingTag w = do {
     client \<leftarrow> bw_query w;
     rw \<leftarrow> Query_GetPartitionsById (write_env.truncate E) client lid partitionIds ver additionalFields billingTag w;
     let (r, w1) = answered E rw;
     Some (case r of Inl e \<Rightarrow> Inl e | Inr ps \<Rightarrow> Inr (data_handle_map partitionIds (partitions ps)), w1)
   }"

text \<open>A request of its own inside another one: both frames are on the stack.\<close>

definition GetDataHandleMap :: "'s layer_env \<Rightarrow> string \<Rightarrow> string list \<Rightarrow> int option \<Rightarrow> string list option \<Rightarrow> string option \<Rightarrow> 's batch_world \<Rightarrow>
    ('s, (string \<times> string) list) batch_answer" where
  "GetDataHandleMap E lid partitionIds ver additionalFields billingTag w =
     (if partitionIds = [] \<or> lid = [] then Some (invalid_argument ''Empty partition ids or layer id'', w)
      else if length partitionIds > 100 then Some (invalid_argument ''Exceeds the maximum allowed number of partition per call'', w)
      else layer_request (\<lambda>i w. map_option (task_answered i)
        (with_clients E Volatile_InitApiClients (query_handles E lid partitionIds ver additionalFields billingTag) w)) w)"

section \<open>Publication\<close>

definition Volatile_putBlob :: "'s layer_env \<Rightarrow> PublishPartitionDataRequest \<Rightarrow> string \<Rightarrow> 's batch_world \<Rightarrow> ('s, ResponseOkSingle) batch_answer" where
  "Volatile_putBlob E request handle w =
     (let ctype = content_type_of (ppr_layer_id request) w
      in if ctype = []
         then Some (Inl (ApiError_code ErrInvalidArgument (''Unable to find the Layer ID ('' @ ppr_layer_id request @
                '') provided in the PublishPartitionDataRequest in the Catalog specified when creating this VolatileLayerClient instance.'') False), w)
         else layer_call E (\<lambda>c. PutBlob (write_env.truncate E) c (ppr_layer_id request) ctype handle (ppr_data request) (ppr_billing_tag request)) (lw_blob w)
                (\<lambda>r. case r of Inl e \<Rightarrow> Inl e
                      | Inr _ \<Rightarrow> Inr \<lparr>ros_trace_id = (case ppr_partition_id request of None \<Rightarrow> [] | Some p \<Rightarrow> p)\<rparr>) w)"

text \<open>The loop over the handles: the map has at most one entry, since one partition was asked for.\<close>

definition get_data_handle_callback :: "'s layer_env \<Rightarrow> PublishPartitionDataRequest \<Rightarrow> (string \<times> string) list ApiResponse \<Rightarrow> 's batch_world \<Rightarrow>
    ('s, ResponseOkSingle) batch_answer" where
  "get_data_handle_callback E request r w =
     (case r of
        Inl e \<Rightarrow> Some (Inl e, w)
      | Inr [] \<Rightarrow> Some (Inl (ApiError_code ErrInvalidArgument
            ''Unable to find requested partition,the partition metadata has to exist in OLP before invoking this API.'' False), w)
      | Inr ((_, handle) # _) \<Rightarrow> if layer_cancelled E w then Some (Inl operation_cancelled, w) else Volatile_putBlob E request handle w)"

definition Volatile_publish_data :: "'s layer_env \<Rightarrow> PublishPartitionDataRequest \<Rightarrow> string \<Rightarrow> 's batch_world \<Rightarrow> ('s, ResponseOkSingle) batch_answer" where
  "Volatile_publish_data E request part w = do {
     (err, w1) \<leftarrow> catalog_model_init E w;
     case err of
       Some e \<Rightarrow> Some (Inl e, w1)
     | None \<Rightarrow>
         if layer_cancelled E w1 then Some (Inl operation_cancelled, w1)
         else do {
           (r, w2) \<leftarrow> GetDataHandleMap E (ppr_layer_id request) [part] None None None w1;
           get_data_handle_callback E request r w2
         }
   }"

definition Volatile_PublishPartitionData :: "'s layer_env \<Rightarrow> PublishPartitionDataRequest \<Rightarrow> 's batch_world \<Rightarrow> ('s, ResponseOkSingle) batch_answer" where
  "Volatile_PublishPartitionData E request w =
     (case (ppr_data request, ppr_partition_id request) of
        (Some _, Some part) \<Rightarrow> simple_request E Volatile_InitApiClients (Volatile_publish_data E request part) w
      | _ \<Rightarrow> Some (Inl (ApiError_code ErrInvalidArgument ''Request data or partition id is not defined.'' False), w))"

section \<open>Publication to a batch\<close>

fun check_partitions :: "string \<Rightarrow> PublishPartitionDataRequest list \<Rightarrow> string option" where
  "check_partitions first_layer_id [] = None"
| "check_partitions first_layer_id (p # ps) =
     (if ppr_layer_id p = [] \<or> ppr_layer_id p \<noteq> first_layer_id
      then Some ''A PublishPartitionDataRequest provided does not specify a layer, or it is different from other layers in the list.''
      else if ppr_data p \<noteq> None
      then Some ''PublishPartitionDataRequest contains data. This request is for publishing metadata only, please see the documentation.''
      else if ppr_partition_id p = None \<or> ppr_partition_id p = Some []
      then Some ''A PublishPartitionDataRequest in the list does not specify a PartitionId''
      else check_partitions first_layer_id ps)"

text \<open>The checksum of a request becomes the handle of its partition.\<close>

fun publish_partition_list :: "'s layer_env \<Rightarrow> PublishPartitionDataRequest list \<Rightarrow> 's batch_world \<Rightarrow> PublishPartition list \<times> 's batch_world" where
  "publish_partition_list E [] w = ([], w)"
| "publish_partition_list E (q # qs) w =
     (let (handle, w1) = GenerateUuid (write_env.truncate E) w;
          pub_partition = PublishPartition_new\<lparr>pp_partition := Some (case ppr_partition_id q of None \<Rightarrow> [] | Some p \<Rightarrow> p),
            pp_data_handle := Some (case ppr_checksum q of None \<Rightarrow> handle | Some csum \<Rightarrow> csum)\<rparr>;
          (rest, w2) = publish_partition_list E qs w1
      in (pub_partition # rest, w2))"

definition Volatile_PublishToBatch :: "'s layer_env \<Rightarrow> Publication \<Rightarrow> PublishPartitionDataRequest list \<Rightarrow> 's batch_world \<Rightarrow> ('s, unit) batch_answer" where
  "Volatile_PublishToBatch E pub ps w =
     (let publication_id = (case pub_id pub of None \<Rightarrow> [] | Some i \<Rightarrow> i)
      in if publication_id = [] then Some (invalid_argument ''Invalid publication - missing ID'', w)
         else case ps of
           [] \<Rightarrow> Some (invalid_argument ''PublishPartitionDataRequest list provided is empty'', w)
         | p # _ \<Rightarrow>
             (case check_partitions (ppr_layer_id p) ps of
                Some msg \<Rightarrow> Some (invalid_argument msg, w)
              | None \<Rightarrow> simple_request E Volatile_InitApiClients (\<lambda>w.
                  let (pub_partition_list, w1) = publish_partition_list E ps w
                  in layer_call E (\<lambda>c. UploadPartitions (write_env.truncate E) c \<lparr>pps_partitions = Some pub_partition_list\<rparr> publication_id
                       (ppr_layer_id p) (ppr_billing_tag p)) (bw_publish w1) id w1) w))"

section \<open>The contract of the initialisation\<close>

lemma Volatile_init_ends:
  assumes "network_ok E" "batch_ok w" "\<not> lw_init_in_progress w"
  shows "ends batch_ready wedged_error w (Volatile_InitApiClients E w)"
  unfolding Volatile_InitApiClients_def using assms(2,3)
  by (intro batch_init_ends lookup_then_ends [OF assms(1)] lookup_last_ends [OF assms(1)] batch_pred) simp_all

interpretation volatile: batch_client Volatile_InitApiClients
  by unfold_locales (use Volatile_init_ends in \<open>auto simp: batch_ok_def batch_ready_def batch_world_same\<close>)

lemma query_handles_ends:
  assumes "network_ok E" "batch_ready w" "\<not> lw_init_in_progress w"
  shows "ends (\<lambda>w'. batch_ready w' \<and> ww_calls w' \<noteq> ww_calls w) wedged_response w (query_handles E l [p] None None None w)"
proof -
  obtain c where c: "bw_query w = Some c" using assms(2) by (auto simp: batch_ready_def)
  have "\<exists>r s x. Query_GetPartitionsById (write_env.truncate E) c l [p] None None None w = Some (r, w\<lparr>ww_env := s, ww_calls := ww_calls w @ [x]\<rparr>)"
    by (auto simp: Query_GetPartitionsById_def concatStringArray_def CallApi_write_def Let_def split: prod.split)
  then obtain r s x where q: "Query_GetPartitionsById (write_env.truncate E) c l [p] None None None w = Some (r, w\<lparr>ww_env := s, ww_calls := ww_calls w @ [x]\<rparr>)"
    by blast
  let ?w = "frames_return (w\<lparr>ww_env := s, ww_calls := ww_calls w @ [x]\<rparr>)"
  have "layer_step w ?w" "batch_ready ?w" "\<not> lw_init_in_progress ?w" "ww_calls ?w \<noteq> ww_calls w" using assms(2,3) by (simp_all add: layer_step_def frames_return_def batch_ready_def)
  then show ?thesis using c q assms(1) by (auto simp: query_handles_def answered_def network_ok_def intro!: endsI)
qed

lemma Volatile_init_calls:
  assumes "network_ok E" "Volatile_InitApiClients E w = Some (err, w')"
  shows "err = None \<and> w' = w\<lparr>lw_mutex := True\<rparr> \<or> ww_calls w' \<noteq> ww_calls w"
proof (cases "case bw_publish w of None \<Rightarrow> False | Some c \<Rightarrow> base_url c \<noteq> []")
  case True
  then show ?thesis using assms(2) by (simp add: Volatile_InitApiClients_def init_clients_def split: if_splits)
next
  case False
  let ?w = "create_batch_clients E (w\<lparr>lw_mutex := True, lw_init_in_progress := True\<rparr>)"
  have "lookup_then E set_config ''config'' ''v1'' (lookup_then E set_metadata ''metadata'' ''v1'' (lookup_then E set_blob ''volatile-blob'' ''v1''
      (lookup_then E set_query ''query'' ''v1'' (lookup_last E set_publish ''publish'' ''v2'')))) ?w = Some (err, w')"
    using assms(2) False by (simp add: Volatile_InitApiClients_def init_clients_def split: if_splits)
  moreover have "ends batch_ready wedged_error w1 (lookup_then E set_metadata ''metadata'' ''v1'' (lookup_then E set_blob ''volatile-blob'' ''v1''
      (lookup_then E set_query ''query'' ''v1'' (lookup_last E set_publish ''publish'' ''v2''))) w1)" if "batch_ready w1" "lw_init_in_progress w1" for w1
    using that by (intro lookup_then_ends [OF assms(1)] lookup_last_ends [OF assms(1)] batch_pred)
  ultimately have "ww_calls w' \<noteq> ww_calls ?w"
    by (intro lookup_then_calls [OF assms(1) batch_pred(2)]) (simp_all add: create_batch_clients_def batch_ready_def Let_def)
  then show ?thesis by (simp add: create_batch_clients_def Let_def)
qed

text \<open>The request for the handle runs inside the request for the publication.\<close>

lemma GetDataHandleMap_ends:
  assumes "network_ok E" "layer_idle w" "layer_step (w\<lparr>lw_next_id := lw_next_id w + 1, lw_due := [lw_next_id w]\<rparr>) w1"
    "batch_ready w1" "\<not> lw_init_in_progress w1" "\<not> layer_cancelled E w1"
  shows "ends batch_ready wedged_response (w\<lparr>lw_next_id := lw_next_id w + 1, lw_due := [lw_next_id w]\<rparr>) (GetDataHandleMap E l [p] None None None w1)"
proof (cases "l = []")
  case True
  then show ?thesis using assms by (auto simp: GetDataHandleMap_def intro!: endsI)
next
  case False
  let ?w1 = "w1\<lparr>lw_next_id := lw_next_id w1 + 1, lw_due := lw_next_id w1 # lw_due w1\<rparr>"
  let ?q = "with_clients E Volatile_InitApiClients (query_handles E l [p] None None None) ?w1"
  have ok: "batch_ok ?w1" "\<not> lw_init_in_progress ?w1" using assms(4,5) by (simp_all add: batch_ok_def batch_ready_def)
  have "ends batch_ready wedged_response ?w1 ?q"
    by (rule volatile.with_clients_ends [OF assms(1) ok]) (use query_handles_ends [OF assms(1)] in \<open>force simp: ends_def\<close>)
  then obtain r w2 where q: "?q = Some (r, w2)" "layer_step ?w1 w2" "batch_ready w2" "lw_init_in_progress w2 \<Longrightarrow> wedged_response r" by (auto elim!: endsE)
  have "ww_calls w2 \<noteq> ww_calls w1"
  proof -
    obtain err w3 where i: "Volatile_InitApiClients E ?w1 = Some (err, w3)" "layer_step ?w1 w3" "batch_ready w3" "lw_init_in_progress w3 \<Longrightarrow> wedged_error err"
      using endsE [OF Volatile_init_ends [OF assms(1) ok]] by metis
    show ?thesis
    proof (cases "err = None \<and> \<not> layer_cancelled E w3")
      case True
      then have "query_handles E l [p] None None None w3 = Some (r, w2)" using q(1) i(1) by (simp add: with_clients_def)
      moreover have "\<not> lw_init_in_progress w3" using i(4) True by auto
      ultimately have "ww_calls w2 \<noteq> ww_calls w3" "prefix (ww_calls w3) (ww_calls w2)" using query_handles_ends [OF assms(1) i(3), of l p] by (auto simp: ends_def layer_step_def)
      moreover have "prefix (ww_calls w1) (ww_calls w3)" using i(2) by (simp add: layer_step_def)
      ultimately show ?thesis by (metis prefix_order.antisym)
    next
      case f: False
      then have "w2 = w3" using q(1) i(1) by (auto simp: with_clients_def split: option.splits)
      moreover have "\<not> (err = None \<and> w3 = ?w1\<lparr>lw_mutex := True\<rparr>)" using f assms(6) by (auto simp: layer_cancelled_def)
      ultimately show ?thesis using Volatile_init_calls [OF assms(1) i(1)] by auto
    qed
  qed
  from nested_request_step [OF assms(2,3) q(2) this] q False show ?thesis
    by (auto simp: GetDataHandleMap_def layer_request_def task_answered_def batch_ready_def intro!: endsI)
qed

lemma publish_partition_list_world: "\<exists>l n. publish_partition_list E qs w = (l, w\<lparr>ww_uuids := n\<rparr>)"
proof (induction qs arbitrary: w)
  case Nil
  have "w = w\<lparr>ww_uuids := ww_uuids w\<rparr>" by simp
  then show ?case by (metis publish_partition_list.simps(1))
next
  case (Cons q qs)
  from Cons [of "w\<lparr>ww_uuids := ww_uuids w + 1\<rparr>"] show ?case by (auto simp: GenerateUuid_def Let_def)
qed

lemma Volatile_PublishPartitionData_done:
  assumes "network_ok E" "batch_ok w" "\<not> lw_init_in_progress w" "layer_idle w"
  shows "request_done w (Volatile_PublishPartitionData E request w)"
proof -
  let ?w = "w\<lparr>lw_next_id := lw_next_id w + 1, lw_due := [lw_next_id w]\<rparr>"
  have put: "ends batch_ready wedged_response w1 (Volatile_putBlob E request h w1)" if "batch_ready w1" "\<not> lw_init_in_progress w1" for h w1
  proof (cases "content_type_of (ppr_layer_id request) w1 = []")
    case False
    have "ends batch_ready wedged_response w1 (layer_call E (\<lambda>c. PutBlob (write_env.truncate E) c (ppr_layer_id request) t h (ppr_data request) (ppr_billing_tag request)) (lw_blob w1) f w1)"
      for t and f :: "unit ApiResponse \<Rightarrow> ResponseOkSingle ApiResponse"
      using assms(1) that by (intro volatile.layer_call_ends one_call_api) (auto simp: batch_ready_def)
    then show ?thesis using False by (simp add: Volatile_putBlob_def)
  qed (use that in \<open>auto simp: Volatile_putBlob_def intro!: endsI\<close>)
  then have callback: "ends batch_ready wedged_response w1 (get_data_handle_callback E request r w1)" if "batch_ready w1" "lw_init_in_progress w1 \<Longrightarrow> wedged_response r" for r w1
    using that by (cases r) (auto simp: get_data_handle_callback_def split: list.split intro!: endsI)
  have "ends batch_ready wedged_response ?w (Volatile_publish_data E request p w1)"
    if s1: "layer_step ?w w1" "batch_ready w1" "\<not> lw_init_in_progress w1" for p w1
  proof -
    obtain err w2 where c: "catalog_model_init E w1 = Some (err, w2)" "layer_step w1 w2" "batch_ready w2" "\<not> lw_init_in_progress w2"
      using endsE [OF volatile.catalog_model_ends [OF assms(1) s1(2,3)]] by metis
    have s: "layer_step ?w w2" using layer_step_trans [OF s1(1) c(2)] .
    have "ends batch_ready wedged_response ?w (GetDataHandleMap E (ppr_layer_id request) [p] None None None w2 \<bind> (\<lambda>(r, w). get_data_handle_callback E request r w))"
      if "\<not> layer_cancelled E w2"
      by (rule ends_bind [OF GetDataHandleMap_ends [OF assms(1,4) s c(3,4) that]]) (rule callback)
    then show ?thesis using c s by (cases err) (auto simp: Volatile_publish_data_def intro: endsI)
  qed
  then have "request_done w (simple_request E Volatile_InitApiClients (Volatile_publish_data E request p) w)" for p
    by (intro volatile.simple_request_done_from assms)
  then show ?thesis using assms(4)
    by (auto simp: Volatile_PublishPartitionData_def request_done_def split: option.split)
qed

lemma Volatile_PublishToBatch_done:
  assumes "network_ok E" "batch_ok w" "\<not> lw_init_in_progress w" "layer_idle w"
  shows "request_done w (Volatile_PublishToBatch E pub ps w)"
proof -
  have "ends batch_ready wedged_response w1 (let (l, w2) = publish_partition_list E ps w1
      in layer_call E (\<lambda>c. UploadPartitions (write_env.truncate E) c \<lparr>pps_partitions = Some l\<rparr> i q b) (bw_publish w2) id w2)"
    if "batch_ready w1" "\<not> lw_init_in_progress w1" for i q b w1
  proof -
    obtain l n where l: "publish_partition_list E ps w1 = (l, w1\<lparr>ww_uuids := n\<rparr>)" using publish_partition_list_world by blast
    have "layer_step w1 (w1\<lparr>ww_uuids := n\<rparr>)" by (simp add: layer_step_def)
    moreover have "ends batch_ready wedged_response (w1\<lparr>ww_uuids := n\<rparr>) (layer_call E (\<lambda>c. UploadPartitions (write_env.truncate E) c \<lparr>pps_partitions = Some l\<rparr> i q b)
        (bw_publish w1) id (w1\<lparr>ww_uuids := n\<rparr>))"
      using assms(1) that by (intro volatile.layer_call_ends one_call_api) (auto simp: batch_ready_def)
    ultimately show ?thesis using l by (simp add: ends_step)
  qed
  then have "request_done w (simple_request E Volatile_InitApiClients (\<lambda>w. let (l, w2) = publish_partition_list E ps w
      in layer_call E (\<lambda>c. UploadPartitions (write_env.truncate E) c \<lparr>pps_partitions = Some l\<rparr> i q b) (bw_publish w2) id w2) w)" for i q b
    by (intro volatile.simple_request_done assms)
  moreover have "request_done w (Some (invalid_argument m :: unit ApiResponse, w))" for m using assms(4) by (simp add: request_done_def)
  ultimately show ?thesis by (auto simp: Volatile_PublishToBatch_def Let_def split: list.split option.split)
qed

section \<open>Partitions and handles\<close>

text \<open>For one partition the map has the handle of the last entry with its name, or is empty.\<close>

lemma data_handle_map_single:
  "data_handle_map [p] ps = (case filter (\<lambda>x. partition_id x = p) ps of [] \<Rightarrow> [] | x # xs \<Rightarrow> [(p, data_handle (last (x # xs)))])"
proof (induction ps rule: rev_induct)
  case (snoc x xs)
  then show ?case by (auto simp: data_handle_map_def map_assign_def bytes_less_prefix split: list.splits)
qed (simp add: data_handle_map_def)

text \<open>A batch is published only when all its partitions name the same layer, have a name and carry no data.\<close>

lemma check_partitions_iff:
  "check_partitions l ps = None \<longleftrightarrow> (\<forall>p \<in> set ps. ppr_layer_id p = l \<and> l \<noteq> [] \<and> ppr_data p = None \<and> ppr_partition_id p \<noteq> None \<and> ppr_partition_id p \<noteq> Some [])"
  by (induction ps) auto

text \<open>A checksum takes the place of the handle and is not published itself.\<close>

lemma checksum_becomes_handle:
  assumes "publish_partition_list E qs w = (l, w')"
  shows "list_all2 (\<lambda>q p. pp_checksum p = None \<and> (\<forall>c. ppr_checksum q = Some c \<longrightarrow> pp_data_handle p = Some c)) qs l"
  using assms by (induction qs arbitrary: w l w') (auto simp: Let_def PublishPartition_new_def split: prod.splits)

end
