(* ===== verification/Index_Layer.thy ===== *)
theory Index_Layer
  imports Versioned_Layer
begin

text \<open>
  Component dataservice-write: the client of an index layer (\<open>IndexLayerClientImpl.cpp\<close>). Data is stored under a new
  handle and found again by the index that is inserted for it.

  Shown: every request is answered when the network answers later; the data is stored before its index is inserted,
  which carries the handle of the data.
\<close>

section \<open>The state\<close>

record 's index_world = "'s layer_world" +
  iw_index :: "OlpClient option"

definition index_world_new :: "'s \<Rightarrow> int \<Rightarrow> 's index_world" where
  "index_world_new env next_id =
     \<lparr>ww_env = env, ww_calls = [], ww_uuids = 0, lw_blob = None, lw_config = None, lw_model = WriteCatalog_new, lw_tokens = [], lw_next_id = next_id,
      lw_init_in_progress = False, lw_mutex = False, lw_due = [], iw_index = None\<rparr>"

type_synonym ('s, 'r) index_answer = "('r ApiResponse \<times> 's index_world) option"

section \<open>Initialisation\<close>

definition create_index_clients :: "'s layer_env \<Rightarrow> 's index_world \<Rightarrow> 's index_world" where
  "create_index_clients E w =
     (let c = Some (OlpClientFactory_Create (we_settings E)) in w\<lparr>lw_blob := c, lw_config := c, iw_index := c\<rparr>)"

definition set_index :: "OlpClient \<Rightarrow> 's index_world \<Rightarrow> 's index_world" where "set_index c w = w\<lparr>iw_index := Some c\<rparr>"

definition Index_InitApiClients :: "'s layer_env \<Rightarrow> 's index_world \<Rightarrow> (ApiError option \<times> 's index_world) option" where
  "Index_InitApiClients E =
     init_clients iw_index (\<lambda>w.
       lookup_then E set_config ''config'' ''v1''
         (lookup_then E set_blob ''blob'' ''v1''
           (lookup_last E set_index ''index'' ''v1'')) (create_index_clients E w))"

section \<open>Publication\<close>

definition insert_indexes_function :: "'s layer_env \<Rightarrow> PublishIndexRequest \<Rightarrow> string \<Rightarrow> 's index_world \<Rightarrow> ('s, ResponseOkSingle) index_answer" where
  "insert_indexes_function E request handle w =
     layer_call E (\<lambda>c. insertIndexes (write_env.truncate E) c ((pir_index request)\<lparr>ix_id := handle\<rparr>) (pir_layer_id request) (pir_billing_tag request))
       (iw_index w) (\<lambda>r. case r of Inl e \<Rightarrow> Inl e | Inr _ \<Rightarrow> Inr \<lparr>ros_trace_id = handle\<rparr>) w"

definition index_put_blob :: "'s layer_env \<Rightarrow> PublishIndexRequest \<Rightarrow> string \<Rightarrow> string \<Rightarrow> 's index_world \<Rightarrow> ('s, ResponseOkSingle) index_answer" where
  "index_put_blob E request handle ctype w = do {
     (r, w1) \<leftarrow> layer_call E (\<lambda>c. PutBlob (write_env.truncate E) c (pir_layer_id request) ctype handle (pir_data request) (pir_billing_tag request)) (lw_blob w) id w;
     case r of
       Inl e \<Rightarrow> Some (Inl e, w1)
     | Inr _ \<Rightarrow> if layer_cancelled E w1 then Some (Inl operation_cancelled, w1) else insert_indexes_function E request handle w1
   }"

text \<open>The callback removes the token, except when the layer is not in the catalog.\<close>

definition Index_publish :: "'s layer_env \<Rightarrow> PublishIndexRequest \<Rightarrow> string \<Rightarrow> int \<Rightarrow> 's index_world \<Rightarrow> ('s, ResponseOkSingle) index_answer" where
  "Index_publish E request handle op_id w = do {
     (err, w1) \<leftarrow> catalog_model_init E w;
     case err of
       Some e \<Rightarrow> Some (task_answered op_id (Inl e, w1))
     | None \<Rightarrow>
         let ctype = content_type_of (pir_layer_id request) w1
         in if ctype = []
            then Some (Inl (ApiError_code ErrInvalidArgument (''Unable to find the Layer ID ('' @ pir_layer_id request @
                   '') provided in the PublishIndexRequest in the Catalog specified when creating this IndexLayerClient instance.'') False), w1)
            else map_option (task_answered op_id)
                   (if layer_cancelled E w1 then Some (Inl operation_cancelled, w1) else index_put_blob E request handle ctype w1)
   }"

definition Index_PublishIndex :: "'s layer_env \<Rightarrow> PublishIndexRequest \<Rightarrow> 's index_world \<Rightarrow> ('s, ResponseOkSingle) index_answer" where
  "Index_PublishIndex E request w =
     (if pir_data request = None then Some (Inl (ApiError_code ErrInvalidArgument ''Request data empty.'' False), w)
      else if pir_layer_id request = [] then Some (Inl (ApiError_code ErrInvalidArgument ''Request layer Id empty.'' False), w)
      else layer_return (layer_request (\<lambda>op_id w. do {
        let (handle, w) = GenerateUuid (write_env.truncate E) w;
        (err, w1) \<leftarrow> Index_InitApiClients E w;
        case err of
          Some e \<Rightarrow> Some (task_answered op_id (Inl e, w1))
        | None \<Rightarrow> if layer_cancelled E w1 then Some (task_answered op_id (Inl operation_cancelled, w1)) else Index_publish E request handle op_id w1
      }) w))"

section \<open>Deletion and update\<close>

definition Index_DeleteIndexData :: "'s layer_env \<Rightarrow> DeleteIndexDataRequest \<Rightarrow> 's index_world \<Rightarrow> ('s, unit) index_answer" where
  "Index_DeleteIndexData E request w =
     (if dir_layer_id request = [] \<or> dir_index_id request = []
      then Some (Inl (ApiError_code ErrInvalidArgument ''Request layer ID or Index Id is not defined.'' False), w)
      else simple_request E Index_InitApiClients (\<lambda>w.
        layer_call E (\<lambda>c. deleteBlob (write_env.truncate E) c (dir_layer_id request) (dir_index_id request) None) (lw_blob w) id w) w)"

definition Index_UpdateIndex :: "'s layer_env \<Rightarrow> UpdateIndexRequest \<Rightarrow> 's index_world \<Rightarrow> ('s, unit) index_answer" where
  "Index_UpdateIndex E request =
     simple_request E Index_InitApiClients (\<lambda>w. layer_call E (\<lambda>c. performUpdate (write_env.truncate E) c request None) (iw_index w) id w)"

section \<open>The contract of the initialisation\<close>

definition index_ready :: "'s index_world \<Rightarrow> bool" where
  "index_ready w \<longleftrightarrow> lw_blob w \<noteq> None \<and> lw_config w \<noteq> None \<and> iw_index w \<noteq> None"

definition index_ok :: "'s index_world \<Rightarrow> bool" where
  "index_ok w \<longleftrightarrow> (iw_index w \<noteq> None \<longrightarrow> index_ready w)"

lemma index_world_same:
  assumes "layer_same w w'"
  shows "iw_index w' = iw_index w" "lw_blob w' = lw_blob w" "lw_config w' = lw_config w"
  using assms by (cases w; cases w'; simp add: layer_same_def)+

lemma index_pred: "client_pred set_blob index_ready" "client_pred set_config index_ready" "client_pred set_index index_ready"
  by (auto simp: client_pred_def stores_client_def set_blob_def set_config_def set_index_def index_ready_def index_world_same)

lemma Index_init_ends:
  assumes "network_ok E" "index_ok w" "\<not> lw_init_in_progress w"
  shows "ends index_ready wedged_error w (Index_InitApiClients E w)"
  unfolding Index_InitApiClients_def
proof (rule init_clients_ends)
  let ?w = "w\<lparr>lw_mutex := True, lw_init_in_progress := True\<rparr>"
  have "layer_step ?w (create_index_clients E ?w)" by (simp add: layer_step_def create_index_clients_def Let_def)
  moreover have "index_ready (create_index_clients E ?w)" "lw_init_in_progress (create_index_clients E ?w)" by (simp_all add: create_index_clients_def index_ready_def Let_def)
  then have "ends index_ready wedged_error (create_index_clients E ?w) (lookup_then E set_config ''config'' ''v1''
      (lookup_then E set_blob ''blob'' ''v1'' (lookup_last E set_index ''index'' ''v1'')) (create_index_clients E ?w))"
    by (intro lookup_then_ends [OF assms(1)] lookup_last_ends [OF assms(1)] index_pred)
  ultimately show "ends index_ready wedged_error ?w (lookup_then E set_config ''config'' ''v1''
      (lookup_then E set_blob ''blob'' ''v1'' (lookup_last E set_index ''index'' ''v1'')) (create_index_clients E ?w))" by (rule ends_step)
qed (use assms in \<open>auto simp: index_ok_def index_ready_def index_world_same\<close>)

interpretation index: layer_client Index_InitApiClients index_ok index_ready
  by unfold_locales (use Index_init_ends in \<open>auto simp: index_ok_def index_ready_def index_world_same\<close>)

lemma Index_DeleteIndexData_done:
  assumes "network_ok E" "index_ok w" "\<not> lw_init_in_progress w" "layer_idle w"
  shows "request_done w (Index_DeleteIndexData E request w)"
proof -
  have "request_done w (simple_request E Index_InitApiClients (\<lambda>w. layer_call E (\<lambda>c. deleteBlob (write_env.truncate E) c l i None) (lw_blob w) id w) w)" for l i
    by (intro index.simple_request_done index.layer_call_ends one_call_api assms) (auto simp: index_ready_def)
  then show ?thesis using assms(4) by (auto simp: Index_DeleteIndexData_def request_done_def)
qed

lemma Index_UpdateIndex_done:
  assumes "network_ok E" "index_ok w" "\<not> lw_init_in_progress w" "layer_idle w"
  shows "request_done w (Index_UpdateIndex E request w)"
  unfolding Index_UpdateIndex_def by (intro index.simple_request_done index.layer_call_ends one_call_api assms) (auto simp: index_ready_def)

lemma index_put_blob_ends:
  assumes "network_ok E" "index_ready w" "\<not> lw_init_in_progress w"
  shows "ends index_ready wedged_response w (index_put_blob E request handle ctype w)"
proof -
  have put: "ends index_ready wedged_response w (layer_call E (\<lambda>c. PutBlob (write_env.truncate E) c (pir_layer_id request) ctype handle (pir_data request) (pir_billing_tag request)) (lw_blob w) id w)"
    using assms by (intro index.layer_call_ends one_call_api) (auto simp: index_ready_def)
  have "ends index_ready wedged_response w (insert_indexes_function E request handle w)" if "index_ready w" "\<not> lw_init_in_progress w" for w
    unfolding insert_indexes_function_def using assms(1) that by (intro index.layer_call_ends one_call_api) (auto simp: index_ready_def)
  then show ?thesis unfolding index_put_blob_def by (intro ends_bind [OF put]) (auto split: sum.split intro!: endsI)
qed

lemma Index_publish_halts:
  assumes "network_ok E" "index_ready w" "\<not> lw_init_in_progress w"
  shows "\<exists>r w'. Index_publish E request handle i w = Some (r, w') \<and> (lw_init_in_progress w' \<longrightarrow> r = Inl operation_cancelled)"
proof -
  obtain e w1 where c: "catalog_model_init E w = Some (e, w1)" "index_ready w1" "\<not> lw_init_in_progress w1"
    using index.catalog_model_ends [OF assms] by (auto simp: ends_def)
  obtain r w2 where "index_put_blob E request handle (content_type_of (pir_layer_id request) w1) w1 = Some (r, w2)" "lw_init_in_progress w2 \<Longrightarrow> r = Inl operation_cancelled"
    using endsE [OF index_put_blob_ends [OF assms(1) c(2,3), of request handle "content_type_of (pir_layer_id request) w1"]] by metis
  then show ?thesis using c
    by (cases e; cases "content_type_of (pir_layer_id request) w1 = []"; cases "layer_cancelled E w1") (auto simp: Index_publish_def task_answered_def)
qed

lemma Index_PublishIndex_ended:
  assumes "network_ok E" "index_ok w" "\<not> lw_init_in_progress w" "layer_idle w"
  shows "request_ended (Index_PublishIndex E request w)"
proof (cases "pir_data request = None \<or> pir_layer_id request = []")
  case True
  then show ?thesis using assms(3,4) by (auto simp: Index_PublishIndex_def request_ended_def layer_idle_def)
next
  case False
  let ?w = "w\<lparr>lw_next_id := lw_next_id w + 1, lw_due := [lw_next_id w], ww_uuids := ww_uuids w + 1\<rparr>" and ?h = "we_uuid E (ww_uuids w)" and ?i = "lw_next_id w"
  have ok: "index_ok ?w" "\<not> lw_init_in_progress ?w" using assms(2,3) by (simp_all add: index_ok_def index_ready_def)
  obtain err w1 where i: "Index_InitApiClients E ?w = Some (err, w1)" "index_ready w1" "lw_init_in_progress w1 \<Longrightarrow> wedged_error err"
    using endsE [OF Index_init_ends [OF assms(1) ok]] by metis
  let ?k = "case err of Some e \<Rightarrow> Some (task_answered ?i (Inl e, w1)) | None \<Rightarrow>
      if layer_cancelled E w1 then Some (task_answered ?i (Inl operation_cancelled, w1)) else Index_publish E request ?h ?i w1"
  have "\<exists>r w2. ?k = Some (r, w2) \<and> (lw_init_in_progress w2 \<longrightarrow> r = Inl operation_cancelled)"
  proof (cases err)
    case None
    then have "\<not> lw_init_in_progress w1" using i(3) by auto
    then show ?thesis using None Index_publish_halts [OF assms(1) i(2), of request ?h ?i] by (simp add: task_answered_def)
  qed (use i(3) in \<open>simp add: task_answered_def\<close>)
  then obtain r w2 where "?k = Some (r, w2)" "lw_init_in_progress w2 \<Longrightarrow> r = Inl operation_cancelled" by blast
  from layer_return_ended [OF this] have "request_ended (layer_return ?k)" .
  moreover have "Index_PublishIndex E request w = layer_return ?k"
    using False i(1) assms(4) by (cases err) (auto simp: Index_PublishIndex_def layer_request_def GenerateUuid_def layer_idle_def)
  ultimately show ?thesis by simp
qed

section \<open>The calls of a publication\<close>

definition index_publish_calls :: "'s layer_env \<Rightarrow> PublishIndexRequest \<Rightarrow> OlpClient \<Rightarrow> OlpClient \<Rightarrow> string \<Rightarrow> string \<Rightarrow> WriteCall list" where
  "index_publish_calls E request index_client blob ctype handle =
     (let tag = billing_params (pir_billing_tag request); layer = pir_layer_id request
      in [\<lparr>wcall_client = blob, wcall_path = ''/layers/'' @ layer @ ''/data/'' @ handle, wcall_method = ''PUT'', wcall_query = tag,
           wcall_headers = accept_json, wcall_body = pir_data request, wcall_content_type = ctype\<rparr>,
          \<lparr>wcall_client = index_client, wcall_path = ''/layers/'' @ layer, wcall_method = ''POST'', wcall_query = tag, wcall_headers = accept_json,
           wcall_body = Some (serialize_Index (we_codecs E) ((pir_index request)\<lparr>ix_id := handle\<rparr>)), wcall_content_type = ''application/json''\<rparr>])"

definition initialised_index :: "OlpClient \<Rightarrow> OlpClient \<Rightarrow> string \<Rightarrow> string \<Rightarrow> 's index_world \<Rightarrow> bool" where
  "initialised_index index_client blob layer ctype w \<longleftrightarrow> iw_index w = Some index_client \<and> base_url index_client \<noteq> [] \<and> lw_blob w = Some blob \<and>
     \<not> lw_init_in_progress w \<and> wc_id (lw_model w) \<noteq> [] \<and> content_type_of layer w = ctype"

lemma index_put_blob_calls:
  assumes "iw_index w = Some index_client" "lw_blob w = Some blob" "index_put_blob E request handle ctype w = Some (r, w')"
  shows "\<exists>n. ww_calls w' = ww_calls w @ take n (index_publish_calls E request index_client blob ctype handle) \<and>
    (\<forall>y. r = Inr y \<longrightarrow> n = 2 \<and> y = \<lparr>ros_trace_id = handle\<rparr>)"
proof -
  let ?calls = "index_publish_calls E request index_client blob ctype handle"
  obtain q s where q: "we_server E (?calls ! 0) (ww_env w) = (q, s)" by (metis surj_pair)
  let ?u = "w\<lparr>ww_env := s, ww_calls := ww_calls w @ [?calls ! 0]\<rparr>"
  let ?w = "if le_sync E s then ?u else frames_return ?u"
  have put: "layer_call E (\<lambda>c. PutBlob (write_env.truncate E) c (pir_layer_id request) ctype handle (pir_data request) (pir_billing_tag request)) (lw_blob w) id w =
      Some (no_result (\<lambda>s. s = 200) q, ?w)"
    using assms(2) q by (simp add: layer_call_def PutBlob_def CallApi_write_def answered_def index_publish_calls_def Let_def)
  have w1: "ww_calls ?w = ww_calls w @ take 1 ?calls" "iw_index ?w = Some index_client"
    using assms(1) by (simp_all add: frames_return_def index_publish_calls_def Let_def)
  obtain q' s' where q': "we_server E (?calls ! 1) (ww_env ?w) = (q', s')" by (metis surj_pair)
  have "\<exists>w3. insert_indexes_function E request handle ?w =
      Some (case no_result (\<lambda>s. \<not> s > 201) q' of Inl e \<Rightarrow> Inl e | Inr _ \<Rightarrow> Inr \<lparr>ros_trace_id = handle\<rparr>, w3) \<and> ww_calls w3 = ww_calls w @ take 2 ?calls"
    using w1 q' by (simp add: insert_indexes_function_def layer_call_def insertIndexes_def CallApi_write_def answered_def index_publish_calls_def Let_def frames_return_def)
  then show ?thesis using assms(3) put w1(1)
    by (cases "no_result (\<lambda>s. s = 200) q") (auto simp: index_put_blob_def split: if_splits sum.splits)
qed

section \<open>Properties\<close>

text \<open>
  Publishing to an index layer stores the data under a new handle and, only when that succeeded, inserts the index
  with this handle; it succeeds with the handle only after both calls, whichever answers come at once.
\<close>

theorem index_publish_order:
  assumes "initialised_index index_client blob (pir_layer_id request) ctype w" "ctype \<noteq> []" "pir_data request \<noteq> None" "pir_layer_id request \<noteq> []"
    "Index_PublishIndex E request w = Some (r, w')"
  shows "\<exists>n. ww_calls w' = ww_calls w @ take n (index_publish_calls E request index_client blob ctype (we_uuid E (ww_uuids w))) \<and>
    (\<forall>y. r = Inr y \<longrightarrow> n = 2 \<and> y = \<lparr>ros_trace_id = we_uuid E (ww_uuids w)\<rparr>)"
proof -
  let ?w = "w\<lparr>lw_next_id := lw_next_id w + 1, lw_due := lw_next_id w # lw_due w, ww_uuids := ww_uuids w + 1, lw_mutex := True\<rparr>"
    and ?h = "we_uuid E (ww_uuids w)" and ?i = "lw_next_id w"
  have i: "\<not> lw_init_in_progress w" "iw_index w = Some index_client" "base_url index_client \<noteq> []" "lw_blob w = Some blob" "wc_id (lw_model w) \<noteq> []"
    and t: "content_type_of (pir_layer_id request) ?w = ctype"
    using assms(1) by (simp_all add: initialised_index_def content_type_of_def)
  have init: "Index_InitApiClients E (w\<lparr>lw_next_id := lw_next_id w + 1, lw_due := lw_next_id w # lw_due w, ww_uuids := ww_uuids w + 1\<rparr>) = Some (None, ?w)"
    using i by (simp add: Index_InitApiClients_def init_clients_def)
  have "Index_publish E request ?h ?i ?w = map_option (task_answered ?i)
      (if layer_cancelled E ?w then Some (Inl operation_cancelled, ?w) else index_put_blob E request ?h ctype ?w)"
    using i(5) t assms(2) by (simp add: Index_publish_def catalog_model_init_def)
  then obtain w1 where w1: "(if layer_cancelled E ?w then Some (Inl operation_cancelled, ?w) else index_put_blob E request ?h ctype ?w) = Some (r, w1)" "ww_calls w' = ww_calls w1"
    using assms(3-5) init
    by (auto simp: Index_PublishIndex_def GenerateUuid_def layer_return_def layer_request_def task_answered_def frames_return_def split: if_splits)
  show ?thesis
  proof (cases "layer_cancelled E ?w")
    case False
    then show ?thesis using index_put_blob_calls [of ?w index_client blob E request ?h ctype r w1] w1 i by simp
  qed (use w1 in \<open>auto intro: exI [of _ 0]\<close>)
qed

definition example_index_request :: PublishIndexRequest where
  "example_index_request = \<lparr>pir_data = Some ''abc'', pir_layer_id = ''l'', pir_billing_tag = None, pir_checksum = None,
     pir_index = \<lparr>ix_checksum = None, ix_metadata = None, ix_size = None, ix_id = [], ix_fields = []\<rparr>\<rparr>"

definition example_initialised_index :: "nat index_world" where
  "example_initialised_index = (index_world_new 0 0)\<lparr>lw_blob := Some example_client, lw_config := Some example_client, iw_index := Some example_client,
     lw_model := wparse_Catalog example_codecs []\<rparr>"

theorem index_publish_order_witness:
  "\<exists>r w' n. Index_PublishIndex (example_layer_env ''here'' (\<lambda>n. if n = 0 then 200 else 503) (\<lambda>_. False) (\<lambda>_. True)) example_index_request example_initialised_index = Some (r, w') \<and>
     ww_calls w' = take n (index_publish_calls (example_layer_env ''here'' (\<lambda>n. if n = 0 then 200 else 503) (\<lambda>_. False) (\<lambda>_. True)) example_index_request
       example_client example_client ''t'' [])"
proof -
  let ?E = "example_layer_env ''here'' (\<lambda>n. if n = 0 then 200 else 503) (\<lambda>_. False) (\<lambda>_. True)"
  have i: "initialised_index example_client example_client (pir_layer_id example_index_request) ''t'' example_initialised_index"
    by (simp add: initialised_index_def example_initialised_index_def example_index_request_def example_client_def example_codecs_def content_type_of_def index_world_new_def)
  have "Index_PublishIndex ?E example_index_request example_initialised_index \<noteq> None" by code_simp
  then obtain r w' where c: "Index_PublishIndex ?E example_index_request example_initialised_index = Some (r, w')" by auto
  have "we_uuid ?E (ww_uuids example_initialised_index) = []" "ww_calls example_initialised_index = []"
    by (simp_all add: example_layer_env_def example_initialised_index_def index_world_new_def)
  then show ?thesis using c index_publish_order [OF i _ _ _ c] by (auto simp: example_index_request_def)
qed

end
