(* ===== verification/Json_Codec.thy ===== *)
theory Json_Codec
  imports Cache_Repositories Write_Apis "HOL-Library.Monad_Syntax" "HOL-Library.Countable"
begin

text \<open>
  Component JSON: the helpers of core (\<open>generated/parser/ParserWrapper.h\<close>, \<open>JsonParser.h\<close>,
  \<open>generated/serializer/SerializerWrapper.h\<close>, \<open>JsonSerializer.h\<close>) and the generated parsers and serializers of
  dataservice-read.

  RapidJSON is the parameter \<open>rapidjson\<close>: its values have the type \<open>'v\<close> and its accessors are functions; \<open>None\<close> is
  a failed \<open>RAPIDJSON_ASSERT\<close>, the result of an accessor that is called on a value of another kind. What the code relies
  on is \<open>rapidjson_laws\<close>: a member that was added is found by its name, elements are kept in order, accessors give
  what was set, and a text that was written from such a value is parsed to that value. A double is a rational
  number.

  Shown: a parser gives back what the serializer was given, for each class that the cache repositories store.
\<close>

section \<open>RapidJSON\<close>

record 'v rapidjson =
  rj_Parse :: "string \<Rightarrow> 'v"
  rj_Accept :: "'v \<Rightarrow> string"
  rj_IsNull :: "'v \<Rightarrow> bool"
  rj_IsObject :: "'v \<Rightarrow> bool"
  rj_IsArray :: "'v \<Rightarrow> bool"
  rj_GetString :: "'v \<Rightarrow> string option"
  rj_GetInt64 :: "'v \<Rightarrow> int option"
  rj_GetUint :: "'v \<Rightarrow> int option"
  rj_GetDouble :: "'v \<Rightarrow> rat option"
  rj_GetBool :: "'v \<Rightarrow> bool option"
  rj_Members :: "'v \<Rightarrow> (string \<times> 'v) list option"
  rj_FindMember :: "'v \<Rightarrow> string \<Rightarrow> 'v option option"
  rj_Elements :: "'v \<Rightarrow> 'v list option"
  rj_Null :: 'v
  rj_String :: "string \<Rightarrow> 'v"
  rj_Int64 :: "int \<Rightarrow> 'v"
  rj_Bool :: "bool \<Rightarrow> 'v"
  rj_Object :: 'v
  rj_AddMember :: "'v \<Rightarrow> string \<Rightarrow> 'v \<Rightarrow> 'v"
  rj_Array :: 'v
  rj_PushBack :: "'v \<Rightarrow> 'v \<Rightarrow> 'v"
  rj_HasParseError :: "string \<Rightarrow> bool"

definition int64_range :: "int \<Rightarrow> bool" where
  "int64_range n \<longleftrightarrow> - (2 ^ 63) \<le> n \<and> n < 2 ^ 63"

text \<open>The values the serializers build.\<close>

inductive built :: "'v rapidjson \<Rightarrow> 'v \<Rightarrow> bool" for J where
  built_String: "built J (rj_String J s)"
| built_Int64: "int64_range n \<Longrightarrow> built J (rj_Int64 J n)"
| built_Bool: "built J (rj_Bool J b)"
| built_Object: "built J (rj_Object J)"
| built_AddMember: "built J v \<Longrightarrow> rj_IsObject J v \<Longrightarrow> built J x \<Longrightarrow> built J (rj_AddMember J v k x)"
| built_Array: "built J (rj_Array J)"
| built_PushBack: "built J v \<Longrightarrow> rj_IsArray J v \<Longrightarrow> built J x \<Longrightarrow> built J (rj_PushBack J v x)"

definition rapidjson_laws :: "'v rapidjson \<Rightarrow> bool" where
  "rapidjson_laws J \<longleftrightarrow>
     (\<forall>v. built J v \<longrightarrow> rj_Parse J (rj_Accept J v) = v \<and> CHR 0x00 \<notin> set (rj_Accept J v)) \<and>
     rj_IsNull J (rj_Null J) \<and> \<not> rj_IsObject J (rj_Null J) \<and>
     (\<forall>v. built J v \<longrightarrow> \<not> rj_IsNull J v) \<and>
     (\<forall>s. rj_GetString J (rj_String J s) = Some s) \<and>
     (\<forall>n. int64_range n \<longrightarrow> rj_GetInt64 J (rj_Int64 J n) = Some n) \<and>
     (\<forall>n. \<bar>n\<bar> \<le> 2 ^ 53 \<longrightarrow> rj_GetDouble J (rj_Int64 J n) = Some (of_int n)) \<and>
     (\<forall>b. rj_GetBool J (rj_Bool J b) = Some b) \<and>
     rj_IsObject J (rj_Object J) \<and>
     (\<forall>v k x. rj_IsObject J v \<longrightarrow> rj_IsObject J (rj_AddMember J v k x)) \<and>
     (\<forall>k. rj_FindMember J (rj_Object J) k = Some None) \<and>
     (\<forall>v k x n. rj_IsObject J v \<longrightarrow> rj_FindMember J (rj_AddMember J v k x) n =
        (case rj_FindMember J v n of None \<Rightarrow> None | Some None \<Rightarrow> Some (if k = n then Some x else None) | Some (Some y) \<Rightarrow> Some (Some y))) \<and>
     rj_Members J (rj_Object J) = Some [] \<and>
     (\<forall>v k x ms. rj_Members J v = Some ms \<longrightarrow> rj_Members J (rj_AddMember J v k x) = Some (ms @ [(k, x)])) \<and>
     rj_IsArray J (rj_Array J) \<and>
     (\<forall>v x. rj_IsArray J v \<longrightarrow> rj_IsArray J (rj_PushBack J v x)) \<and>
     rj_Elements J (rj_Array J) = Some [] \<and>
     (\<forall>v x vs. rj_Elements J v = Some vs \<longrightarrow> rj_Elements J (rj_PushBack J v x) = Some (vs @ [x]))"

section \<open>Parsing (ParserWrapper.h, JsonParser.h)\<close>

text \<open>A \<open>const char*\<close> ends at the first zero byte.\<close>

definition cstr :: "string \<Rightarrow> string" where
  "cstr s = takeWhile (\<lambda>c. c \<noteq> CHR 0x00) s"

definition string_from_json :: "'v rapidjson \<Rightarrow> 'v \<Rightarrow> string option" where
  "string_from_json J value = map_option cstr (rj_GetString J value)"

definition int64_from_json :: "'v rapidjson \<Rightarrow> 'v \<Rightarrow> int option" where
  "int64_from_json J value = rj_GetInt64 J value"

definition double_from_json :: "'v rapidjson \<Rightarrow> 'v \<Rightarrow> rat option" where
  "double_from_json J value = rj_GetDouble J value"

definition bool_from_json :: "'v rapidjson \<Rightarrow> 'v \<Rightarrow> bool option" where
  "bool_from_json J value = rj_GetBool J value"

definition data_from_json :: "'v rapidjson \<Rightarrow> 'v \<Rightarrow> string option option" where
  "data_from_json J value = do { s \<leftarrow> rj_GetString J value; Some (Some (cstr s)) }"

definition optional_from_json :: "('v \<Rightarrow> 'x option) \<Rightarrow> 'v \<Rightarrow> 'x option option" where
  "optional_from_json from value = do { result \<leftarrow> from value; Some (Some result) }"

text \<open>The subscript operator of \<open>std::map\<close>, which is ordered by key, and the assignment to the element.\<close>

fun subscript_assign :: "string \<Rightarrow> 'x \<Rightarrow> (string \<times> 'x) list \<Rightarrow> (string \<times> 'x) list" where
  "subscript_assign key x [] = [(key, x)]"
| "subscript_assign key x ((k, y) # items) =
     (if key = k then (key, x) # items
      else if bytes_less key k then (key, x) # (k, y) # items
      else (k, y) # subscript_assign key x items)"

fun members_from_json :: "('v \<Rightarrow> 'x option) \<Rightarrow> (string \<times> 'v) list \<Rightarrow> (string \<times> 'x) list \<Rightarrow> (string \<times> 'x) list option" where
  "members_from_json from [] items = Some items"
| "members_from_json from ((k, v) # members) items = do {
     x \<leftarrow> from v;
     members_from_json from members (subscript_assign (cstr k) x items)
   }"

definition map_from_json :: "'v rapidjson \<Rightarrow> ('v \<Rightarrow> 'x option) \<Rightarrow> 'v \<Rightarrow> (string \<times> 'x) list option" where
  "map_from_json J from value = do { members \<leftarrow> rj_Members J value; members_from_json from members [] }"

fun elements_from_json :: "('v \<Rightarrow> 'x option) \<Rightarrow> 'v list \<Rightarrow> 'x list \<Rightarrow> 'x list option" where
  "elements_from_json from [] items = Some items"
| "elements_from_json from (v # elements) items = do {
     result \<leftarrow> from v;
     elements_from_json from elements (items @ [result])
   }"

definition vector_from_json :: "'v rapidjson \<Rightarrow> ('v \<Rightarrow> 'x option) \<Rightarrow> 'v \<Rightarrow> 'x list option" where
  "vector_from_json J from value = do { elements \<leftarrow> rj_Elements J value; elements_from_json from elements [] }"

text \<open>\<open>parse<T>(value, name)\<close>, with the value \<open>T()\<close>.\<close>

definition parse_member :: "'v rapidjson \<Rightarrow> ('v \<Rightarrow> 'x option) \<Rightarrow> 'x \<Rightarrow> 'v \<Rightarrow> string \<Rightarrow> 'x option" where
  "parse_member J from new value name = do {
     itr \<leftarrow> rj_FindMember J value (cstr name);
     case itr of None \<Rightarrow> Some new | Some v \<Rightarrow> from v
   }"

text \<open>\<open>parse<T>(json)\<close>.\<close>

definition parse_json :: "'v rapidjson \<Rightarrow> ('v \<Rightarrow> 'x option) \<Rightarrow> 'x \<Rightarrow> string \<Rightarrow> 'x option" where
  "parse_json J from new json =
     (let doc = rj_Parse J (cstr json)
      in if rj_IsObject J doc \<or> rj_IsArray J doc then from doc else Some new)"

section \<open>Serializing (SerializerWrapper.h, JsonSerializer.h)\<close>

definition string_to_json :: "'v rapidjson \<Rightarrow> string \<Rightarrow> 'v" where
  "string_to_json J x = rj_String J (cstr x)"

definition int64_to_json :: "'v rapidjson \<Rightarrow> int \<Rightarrow> 'v" where
  "int64_to_json J x = rj_Int64 J x"

definition bool_to_json :: "'v rapidjson \<Rightarrow> bool \<Rightarrow> 'v" where
  "bool_to_json J x = rj_Bool J x"

definition optional_to_json :: "'v rapidjson \<Rightarrow> ('x \<Rightarrow> 'v) \<Rightarrow> 'x option \<Rightarrow> 'v" where
  "optional_to_json J to x = (case x of Some y \<Rightarrow> to y | None \<Rightarrow> rj_Null J)"

definition map_to_json :: "'v rapidjson \<Rightarrow> ('x \<Rightarrow> 'v) \<Rightarrow> (string \<times> 'x) list \<Rightarrow> 'v" where
  "map_to_json J to x = foldl (\<lambda>value (k, y). rj_AddMember J value (cstr k) (to y)) (rj_Object J) x"

definition vector_to_json :: "'v rapidjson \<Rightarrow> ('x \<Rightarrow> 'v) \<Rightarrow> 'x list \<Rightarrow> 'v" where
  "vector_to_json J to x = foldl (\<lambda>value y. rj_PushBack J value (to y)) (rj_Array J) x"

text \<open>\<open>serialize(key, x, value, allocator)\<close>: an absent optional is left out.\<close>

definition serialize_member :: "'v rapidjson \<Rightarrow> string \<Rightarrow> 'v \<Rightarrow> 'v \<Rightarrow> 'v" where
  "serialize_member J key item_value value =
     (if rj_IsNull J item_value then value else rj_AddMember J value (cstr key) item_value)"

text \<open>\<open>serialize(object)\<close>, with the document that \<open>to_json\<close> fills.\<close>

definition serialize_json :: "'v rapidjson \<Rightarrow> 'v \<Rightarrow> string" where
  "serialize_json J doc = cstr (rj_Accept J doc)"


section \<open>The generated parsers of dataservice-read\<close>

text \<open>\<open>T()\<close> of a class is \<open>T_new\<close>.\<close>

definition Coverage_new :: Coverage where
  "Coverage_new = \<lparr>admin_areas = []\<rparr>"

definition Coverage_from_json :: "'v rapidjson \<Rightarrow> 'v \<Rightarrow> Coverage option" where
  "Coverage_from_json J value = do {
     x0 \<leftarrow> parse_member J (vector_from_json J (string_from_json J)) [] value ''adminAreas'';
     Some \<lparr>admin_areas = x0\<rparr>
   }"

definition IndexDefinition_new :: IndexDefinition where
  "IndexDefinition_new = \<lparr>index_name = [], index_type = [], duration = 0, zoomLevel = 0\<rparr>"

definition IndexDefinition_from_json :: "'v rapidjson \<Rightarrow> 'v \<Rightarrow> IndexDefinition option" where
  "IndexDefinition_from_json J value = do {
     x0 \<leftarrow> parse_member J (string_from_json J) [] value ''name'';
     x1 \<leftarrow> parse_member J (string_from_json J) [] value ''type'';
     x2 \<leftarrow> parse_member J (int64_from_json J) 0 value ''duration'';
     x3 \<leftarrow> parse_member J (int64_from_json J) 0 value ''zoomLevel'';
     Some \<lparr>index_name = x0, index_type = x1, duration = x2, zoomLevel = x3\<rparr>
   }"

definition IndexProperties_new :: IndexProperties where
  "IndexProperties_new = \<lparr>index_ttl = [], index_definitions = []\<rparr>"

definition IndexProperties_from_json :: "'v rapidjson \<Rightarrow> 'v \<Rightarrow> IndexProperties option" where
  "IndexProperties_from_json J value = do {
     x0 \<leftarrow> parse_member J (string_from_json J) [] value ''ttl'';
     x1 \<leftarrow> parse_member J (vector_from_json J (IndexDefinition_from_json J)) [] value ''indexDefinitions'';
     Some \<lparr>index_ttl = x0, index_definitions = x1\<rparr>
   }"

definition Creator_new :: Creator where
  "Creator_new = \<lparr>creator_id = []\<rparr>"

definition Creator_from_json :: "'v rapidjson \<Rightarrow> 'v \<Rightarrow> Creator option" where
  "Creator_from_json J value = do {
     x0 \<leftarrow> parse_member J (string_from_json J) [] value ''id'';
     Some \<lparr>creator_id = x0\<rparr>
   }"

definition Owner_new :: Owner where
  "Owner_new = \<lparr>creator = Creator_new, organisation = Creator_new\<rparr>"

definition Owner_from_json :: "'v rapidjson \<Rightarrow> 'v \<Rightarrow> Owner option" where
  "Owner_from_json J value = do {
     x0 \<leftarrow> parse_member J (Creator_from_json J) Creator_new value ''creator'';
     x1 \<leftarrow> parse_member J (Creator_from_json J) Creator_new value ''organisation'';
     Some \<lparr>creator = x0, organisation = x1\<rparr>
   }"

definition Partitioning_new :: Partitioning where
  "Partitioning_new = \<lparr>scheme = [], tile_levels = []\<rparr>"

definition Partitioning_from_json :: "'v rapidjson \<Rightarrow> 'v \<Rightarrow> Partitioning option" where
  "Partitioning_from_json J value = do {
     x0 \<leftarrow> parse_member J (string_from_json J) [] value ''scheme'';
     x1 \<leftarrow> parse_member J (vector_from_json J (int64_from_json J)) [] value ''tileLevels'';
     Some \<lparr>scheme = x0, tile_levels = x1\<rparr>
   }"

definition LayerSchema_new :: LayerSchema where
  "LayerSchema_new = \<lparr>schema_hrn = []\<rparr>"

definition LayerSchema_from_json :: "'v rapidjson \<Rightarrow> 'v \<Rightarrow> LayerSchema option" where
  "LayerSchema_from_json J value = do {
     x0 \<leftarrow> parse_member J (string_from_json J) [] value ''hrn'';
     Some \<lparr>schema_hrn = x0\<rparr>
   }"

definition truncate_double :: "rat \<Rightarrow> int" where
  "truncate_double x = (if x < 0 then \<lceil>x\<rceil> else \<lfloor>x\<rfloor>)"

definition StreamProperties_new :: StreamProperties where
  "StreamProperties_new = \<lparr>data_in_throughput_mbps = 0, data_out_throughput_mbps = 0\<rparr>"

definition StreamProperties_from_json :: "'v rapidjson \<Rightarrow> 'v \<Rightarrow> StreamProperties option" where
  "StreamProperties_from_json J value = do {
     x0 \<leftarrow> parse_member J (double_from_json J) 0 value ''dataInThroughputMbps'';
     x1 \<leftarrow> parse_member J (double_from_json J) 0 value ''dataOutThroughputMbps'';
     Some \<lparr>data_in_throughput_mbps = truncate_double x0, data_out_throughput_mbps = truncate_double x1\<rparr>
   }"

definition Encryption_new :: Encryption where
  "Encryption_new = \<lparr>algorithm = []\<rparr>"

definition Encryption_from_json :: "'v rapidjson \<Rightarrow> 'v \<Rightarrow> Encryption option" where
  "Encryption_from_json J value = do {
     x0 \<leftarrow> parse_member J (string_from_json J) [] value ''algorithm'';
     Some \<lparr>algorithm = x0\<rparr>
   }"

definition Volume_new :: Volume where
  "Volume_new = \<lparr>volume_type = [], max_memory_policy = [], package_type = [], encryption = Encryption_new\<rparr>"

definition Volume_from_json :: "'v rapidjson \<Rightarrow> 'v \<Rightarrow> Volume option" where
  "Volume_from_json J value = do {
     x0 \<leftarrow> parse_member J (string_from_json J) [] value ''volumeType'';
     x1 \<leftarrow> parse_member J (string_from_json J) [] value ''maxMemoryPolicy'';
     x2 \<leftarrow> parse_member J (string_from_json J) [] value ''packageType'';
     x3 \<leftarrow> parse_member J (Encryption_from_json J) Encryption_new value ''encryption'';
     Some \<lparr>volume_type = x0, max_memory_policy = x1, package_type = x2, encryption = x3\<rparr>
   }"

definition Layer_new :: Layer where
  "Layer_new = \<lparr>layer_id = [], layer_name = [], layer_summary = [], layer_description = [], layer_owner = Owner_new,
       layer_coverage = Coverage_new, layer_schema = LayerSchema_new, content_type = [], content_encoding = [],
       partitioning = Partitioning_new, layer_type = [], digest = [], layer_tags = [], layer_billing_tags = [], layer_ttl = None,
       index_properties = IndexProperties_new, stream_properties = StreamProperties_new, volume = Volume_new\<rparr>"

definition Layer_from_json :: "'v rapidjson \<Rightarrow> 'v \<Rightarrow> Layer option" where
  "Layer_from_json J value = do {
     x0 \<leftarrow> parse_member J (string_from_json J) [] value ''id'';
     x1 \<leftarrow> parse_member J (string_from_json J) [] value ''name'';
     x2 \<leftarrow> parse_member J (string_from_json J) [] value ''summary'';
     x3 \<leftarrow> parse_member J (string_from_json J) [] value ''description'';
     x4 \<leftarrow> parse_member J (Owner_from_json J) Owner_new value ''owner'';
     x5 \<leftarrow> parse_member J (Coverage_from_json J) Coverage_new value ''coverage'';
     x6 \<leftarrow> parse_member J (LayerSchema_from_json J) LayerSchema_new value ''schema'';
     x7 \<leftarrow> parse_member J (string_from_json J) [] value ''contentType'';
     x8 \<leftarrow> parse_member J (string_from_json J) [] value ''contentEncoding'';
     x9 \<leftarrow> parse_member J (Partitioning_from_json J) Partitioning_new value ''partitioning'';
     x10 \<leftarrow> parse_member J (string_from_json J) [] value ''layerType'';
     x11 \<leftarrow> parse_member J (string_from_json J) [] value ''digest'';
     x12 \<leftarrow> parse_member J (vector_from_json J (string_from_json J)) [] value ''tags'';
     x13 \<leftarrow> parse_member J (vector_from_json J (string_from_json J)) [] value ''billingTags'';
     x14 \<leftarrow> parse_member J (optional_from_json (int64_from_json J)) None value ''ttl'';
     x15 \<leftarrow> parse_member J (IndexProperties_from_json J) IndexProperties_new value ''indexProperties'';
     x16 \<leftarrow> parse_member J (StreamProperties_from_json J) StreamProperties_new value ''streamProperties'';
     x17 \<leftarrow> parse_member J (Volume_from_json J) Volume_new value ''volume'';
     Some \<lparr>layer_id = x0, layer_name = x1, layer_summary = x2, layer_description = x3, layer_owner = x4, layer_coverage = x5,
       layer_schema = x6, content_type = x7, content_encoding = x8, partitioning = x9, layer_type = x10, digest = x11, layer_tags = x12,
       layer_billing_tags = x13, layer_ttl = x14, index_properties = x15, stream_properties = x16, volume = x17\<rparr>
   }"

definition Notifications_new :: Notifications where
  "Notifications_new = \<lparr>notifications_enabled = False\<rparr>"

definition Notifications_from_json :: "'v rapidjson \<Rightarrow> 'v \<Rightarrow> Notifications option" where
  "Notifications_from_json J value = do {
     x0 \<leftarrow> parse_member J (bool_from_json J) False value ''enabled'';
     Some \<lparr>notifications_enabled = x0\<rparr>
   }"

definition Catalog_new :: Catalog where
  "Catalog_new = \<lparr>catalog_id = [], catalog_hrn = [], catalog_name = [], catalog_summary = [], catalog_description = [],
       catalog_coverage = Coverage_new, catalog_owner = Owner_new, catalog_tags = [], catalog_billing_tags = [], created = [],
       layers = [], catalog_version = 0, notifications = Notifications_new\<rparr>"

definition Catalog_from_json :: "'v rapidjson \<Rightarrow> 'v \<Rightarrow> Catalog option" where
  "Catalog_from_json J value = do {
     x0 \<leftarrow> parse_member J (string_from_json J) [] value ''id'';
     x1 \<leftarrow> parse_member J (string_from_json J) [] value ''hrn'';
     x2 \<leftarrow> parse_member J (string_from_json J) [] value ''name'';
     x3 \<leftarrow> parse_member J (string_from_json J) [] value ''summary'';
     x4 \<leftarrow> parse_member J (string_from_json J) [] value ''description'';
     x5 \<leftarrow> parse_member J (Coverage_from_json J) Coverage_new value ''coverage'';
     x6 \<leftarrow> parse_member J (Owner_from_json J) Owner_new value ''owner'';
     x7 \<leftarrow> parse_member J (vector_from_json J (string_from_json J)) [] value ''tags'';
     x8 \<leftarrow> parse_member J (vector_from_json J (string_from_json J)) [] value ''billingTags'';
     x9 \<leftarrow> parse_member J (string_from_json J) [] value ''created'';
     x10 \<leftarrow> parse_member J (vector_from_json J (Layer_from_json J)) [] value ''layers'';
     x11 \<leftarrow> parse_member J (int64_from_json J) 0 value ''version'';
     x12 \<leftarrow> parse_member J (Notifications_from_json J) Notifications_new value ''notifications'';
     Some \<lparr>catalog_id = x0, catalog_hrn = x1, catalog_name = x2, catalog_summary = x3, catalog_description = x4,
       catalog_coverage = x5, catalog_owner = x6, catalog_tags = x7, catalog_billing_tags = x8, created = x9, layers = x10,
       catalog_version = x11, notifications = x12\<rparr>
   }"

definition VersionResponse_new :: VersionResponse where
  "VersionResponse_new = \<lparr>vr_version = 0\<rparr>"

definition VersionResponse_from_json :: "'v rapidjson \<Rightarrow> 'v \<Rightarrow> VersionResponse option" where
  "VersionResponse_from_json J value = do {
     x0 \<leftarrow> parse_member J (int64_from_json J) 0 value ''version'';
     Some \<lparr>vr_version = x0\<rparr>
   }"

definition Partition_new :: Partition where
  "Partition_new = \<lparr>checksum = None, compressed_data_size = None, data_handle = [], data_size = None, partition_id = [],
       partition_version = None\<rparr>"

definition Partition_from_json :: "'v rapidjson \<Rightarrow> 'v \<Rightarrow> Partition option" where
  "Partition_from_json J value = do {
     x0 \<leftarrow> parse_member J (optional_from_json (string_from_json J)) None value ''checksum'';
     x1 \<leftarrow> parse_member J (optional_from_json (int64_from_json J)) None value ''compressedDataSize'';
     x2 \<leftarrow> parse_member J (string_from_json J) [] value ''dataHandle'';
     x3 \<leftarrow> parse_member J (optional_from_json (int64_from_json J)) None value ''dataSize'';
     x4 \<leftarrow> parse_member J (string_from_json J) [] value ''partition'';
     x5 \<leftarrow> parse_member J (optional_from_json (int64_from_json J)) None value ''version'';
     Some \<lparr>checksum = x0, compressed_data_size = x1, data_handle = x2, data_size = x3, partition_id = x4, partition_version = x5\<rparr>
   }"

definition Partitions_new :: Partitions where
  "Partitions_new = \<lparr>partitions = []\<rparr>"

definition Partitions_from_json :: "'v rapidjson \<Rightarrow> 'v \<Rightarrow> Partitions option" where
  "Partitions_from_json J value = do {
     x0 \<leftarrow> parse_member J (vector_from_json J (Partition_from_json J)) [] value ''partitions'';
     Some \<lparr>partitions = x0\<rparr>
   }"

definition LayerVersion_new :: LayerVersion where
  "LayerVersion_new = \<lparr>lv_layer = [], lv_version = 0, lv_timestamp = 0\<rparr>"

definition LayerVersion_from_json :: "'v rapidjson \<Rightarrow> 'v \<Rightarrow> LayerVersion option" where
  "LayerVersion_from_json J value = do {
     x0 \<leftarrow> parse_member J (string_from_json J) [] value ''layer'';
     x1 \<leftarrow> parse_member J (int64_from_json J) 0 value ''version'';
     x2 \<leftarrow> parse_member J (int64_from_json J) 0 value ''timestamp'';
     Some \<lparr>lv_layer = x0, lv_version = x1, lv_timestamp = x2\<rparr>
   }"

definition LayerVersions_new :: LayerVersions where
  "LayerVersions_new = \<lparr>layer_versions = [], lvs_version = 0\<rparr>"

definition LayerVersions_from_json :: "'v rapidjson \<Rightarrow> 'v \<Rightarrow> LayerVersions option" where
  "LayerVersions_from_json J value = do {
     x0 \<leftarrow> parse_member J (vector_from_json J (LayerVersion_from_json J)) [] value ''layerVersions'';
     x1 \<leftarrow> parse_member J (int64_from_json J) 0 value ''version'';
     Some \<lparr>layer_versions = x0, lvs_version = x1\<rparr>
   }"

definition Api_new :: Api where
  "Api_new = \<lparr>api_name = [], api_version = [], api_base_url = [], api_parameters = []\<rparr>"

definition Api_from_json :: "'v rapidjson \<Rightarrow> 'v \<Rightarrow> Api option" where
  "Api_from_json J value = do {
     x0 \<leftarrow> parse_member J (string_from_json J) [] value ''api'';
     x1 \<leftarrow> parse_member J (string_from_json J) [] value ''version'';
     x2 \<leftarrow> parse_member J (string_from_json J) [] value ''baseURL'';
     x3 \<leftarrow> parse_member J (map_from_json J (string_from_json J)) [] value ''parameters'';
     Some \<lparr>api_name = x0, api_version = x1, api_base_url = x2, api_parameters = x3\<rparr>
   }"

definition ParentQuad_new :: ParentQuad where
  "ParentQuad_new = \<lparr>pq_additional_metadata = None, pq_checksum = None, pq_compressed_data_size = None, pq_data_handle = [],
       pq_data_size = None, pq_partition = [], pq_version = 0\<rparr>"

definition ParentQuad_from_json :: "'v rapidjson \<Rightarrow> 'v \<Rightarrow> ParentQuad option" where
  "ParentQuad_from_json J value = do {
     x0 \<leftarrow> parse_member J (optional_from_json (string_from_json J)) None value ''additionalMetadata'';
     x1 \<leftarrow> parse_member J (optional_from_json (string_from_json J)) None value ''checksum'';
     x2 \<leftarrow> parse_member J (optional_from_json (int64_from_json J)) None value ''compressedDataSize'';
     x3 \<leftarrow> parse_member J (string_from_json J) [] value ''dataHandle'';
     x4 \<leftarrow> parse_member J (optional_from_json (int64_from_json J)) None value ''dataSize'';
     x5 \<leftarrow> parse_member J (string_from_json J) [] value ''partition'';
     x6 \<leftarrow> parse_member J (int64_from_json J) 0 value ''version'';
     Some \<lparr>pq_additional_metadata = x0, pq_checksum = x1, pq_compressed_data_size = x2, pq_data_handle = x3, pq_data_size = x4,
       pq_partition = x5, pq_version = x6\<rparr>
   }"

definition SubQuad_new :: SubQuad where
  "SubQuad_new = \<lparr>sq_additional_metadata = None, sq_checksum = None, sq_compressed_data_size = None, sq_data_handle = [],
       sq_data_size = None, sub_quad_key = [], sq_version = 0\<rparr>"

definition SubQuad_from_json :: "'v rapidjson \<Rightarrow> 'v \<Rightarrow> SubQuad option" where
  "SubQuad_from_json J value = do {
     x0 \<leftarrow> parse_member J (optional_from_json (string_from_json J)) None value ''additionalMetadata'';
     x1 \<leftarrow> parse_member J (optional_from_json (string_from_json J)) None value ''checksum'';
     x2 \<leftarrow> parse_member J (optional_from_json (int64_from_json J)) None value ''compressedDataSize'';
     x3 \<leftarrow> parse_member J (string_from_json J) [] value ''dataHandle'';
     x4 \<leftarrow> parse_member J (optional_from_json (int64_from_json J)) None value ''dataSize'';
     x5 \<leftarrow> parse_member J (string_from_json J) [] value ''subQuadKey'';
     x6 \<leftarrow> parse_member J (int64_from_json J) 0 value ''version'';
     Some \<lparr>sq_additional_metadata = x0, sq_checksum = x1, sq_compressed_data_size = x2, sq_data_handle = x3, sq_data_size = x4,
       sub_quad_key = x5, sq_version = x6\<rparr>
   }"

definition Index_new :: Index where
  "Index_new = \<lparr>parent_quads = [], sub_quads = []\<rparr>"

definition Index_from_json :: "'v rapidjson \<Rightarrow> 'v \<Rightarrow> Index option" where
  "Index_from_json J value = do {
     x0 \<leftarrow> parse_member J (vector_from_json J (ParentQuad_from_json J)) [] value ''parentQuads'';
     x1 \<leftarrow> parse_member J (vector_from_json J (SubQuad_from_json J)) [] value ''subQuads'';
     Some \<lparr>parent_quads = x0, sub_quads = x1\<rparr>
   }"

section \<open>The generated serializers of dataservice-read\<close>

definition Coverage_to_json :: "'v rapidjson \<Rightarrow> Coverage \<Rightarrow> 'v" where
  "Coverage_to_json J x =
     (let
      v1 = serialize_member J ''adminAreas'' (vector_to_json J (string_to_json J) (admin_areas x)) (rj_Object J)
      in v1)"

definition IndexDefinition_to_json :: "'v rapidjson \<Rightarrow> IndexDefinition \<Rightarrow> 'v" where
  "IndexDefinition_to_json J x =
     (let
      v1 = serialize_member J ''name'' (string_to_json J (index_name x)) (rj_Object J);
      v2 = serialize_member J ''type'' (string_to_json J (index_type x)) v1;
      v3 = serialize_member J ''duration'' (int64_to_json J (duration x)) v2;
      v4 = serialize_member J ''zoomLevel'' (int64_to_json J (zoomLevel x)) v3
      in v4)"

definition IndexProperties_to_json :: "'v rapidjson \<Rightarrow> IndexProperties \<Rightarrow> 'v" where
  "IndexProperties_to_json J x =
     (let
      v1 = serialize_member J ''ttl'' (string_to_json J (index_ttl x)) (rj_Object J);
      v2 = serialize_member J ''indexDefinitions'' (vector_to_json J (IndexDefinition_to_json J) (index_definitions x)) v1
      in v2)"

definition Creator_to_json :: "'v rapidjson \<Rightarrow> Creator \<Rightarrow> 'v" where
  "Creator_to_json J x =
     (let
      v1 = serialize_member J ''id'' (string_to_json J (creator_id x)) (rj_Object J)
      in v1)"

definition Owner_to_json :: "'v rapidjson \<Rightarrow> Owner \<Rightarrow> 'v" where
  "Owner_to_json J x =
     (let
      v1 = serialize_member J ''creator'' (Creator_to_json J (creator x)) (rj_Object J);
      v2 = serialize_member J ''organisation'' (Creator_to_json J (organisation x)) v1
      in v2)"

definition Partitioning_to_json :: "'v rapidjson \<Rightarrow> Partitioning \<Rightarrow> 'v" where
  "Partitioning_to_json J x =
     (let
      v1 = serialize_member J ''scheme'' (string_to_json J (scheme x)) (rj_Object J);
      v2 = serialize_member J ''tileLevels'' (vector_to_json J (int64_to_json J) (tile_levels x)) v1
      in v2)"

definition LayerSchema_to_json :: "'v rapidjson \<Rightarrow> LayerSchema \<Rightarrow> 'v" where
  "LayerSchema_to_json J x =
     (let
      v1 = serialize_member J ''hrn'' (string_to_json J (schema_hrn x)) (rj_Object J)
      in v1)"

definition StreamProperties_to_json :: "'v rapidjson \<Rightarrow> StreamProperties \<Rightarrow> 'v" where
  "StreamProperties_to_json J x =
     (let
      v1 = serialize_member J ''dataInThroughputMbps'' (int64_to_json J (data_in_throughput_mbps x)) (rj_Object J);
      v2 = serialize_member J ''dataOutThroughputMbps'' (int64_to_json J (data_out_throughput_mbps x)) v1
      in v2)"

definition Encryption_to_json :: "'v rapidjson \<Rightarrow> Encryption \<Rightarrow> 'v" where
  "Encryption_to_json J x =
     (let
      v1 = serialize_member J ''algorithm'' (string_to_json J (algorithm x)) (rj_Object J)
      in v1)"

definition Volume_to_json :: "'v rapidjson \<Rightarrow> Volume \<Rightarrow> 'v" where
  "Volume_to_json J x =
     (let
      v1 = serialize_member J ''volumeType'' (string_to_json J (volume_type x)) (rj_Object J);
      v2 = serialize_member J ''maxMemoryPolicy'' (string_to_json J (max_memory_policy x)) v1;
      v3 = serialize_member J ''packageType'' (string_to_json J (package_type x)) v2;
      v4 = serialize_member J ''encryption'' (Encryption_to_json J (encryption x)) v3
      in v4)"

definition Layer_to_json :: "'v rapidjson \<Rightarrow> Layer \<Rightarrow> 'v" where
  "Layer_to_json J x =
     (let
      v1 = serialize_member J ''id'' (string_to_json J (layer_id x)) (rj_Object J);
      v2 = serialize_member J ''name'' (string_to_json J (layer_name x)) v1;
      v3 = serialize_member J ''summary'' (string_to_json J (layer_summary x)) v2;
      v4 = serialize_member J ''description'' (string_to_json J (layer_description x)) v3;
      v5 = serialize_member J ''owner'' (Owner_to_json J (layer_owner x)) v4;
      v6 = serialize_member J ''coverage'' (Coverage_to_json J (layer_coverage x)) v5;
      v7 = serialize_member J ''schema'' (LayerSchema_to_json J (layer_schema x)) v6;
      v8 = serialize_member J ''contentType'' (string_to_json J (content_type x)) v7;
      v9 = serialize_member J ''contentEncoding'' (string_to_json J (content_encoding x)) v8;
      v10 = serialize_member J ''partitioning'' (Partitioning_to_json J (partitioning x)) v9;
      v11 = serialize_member J ''layerType'' (string_to_json J (layer_type x)) v10;
      v12 = serialize_member J ''digest'' (string_to_json J (digest x)) v11;
      v13 = serialize_member J ''tags'' (vector_to_json J (string_to_json J) (layer_tags x)) v12;
      v14 = serialize_member J ''billingTags'' (vector_to_json J (string_to_json J) (layer_billing_tags x)) v13;
      v15 = serialize_member J ''ttl'' (optional_to_json J (int64_to_json J) (layer_ttl x)) v14;
      v16 = serialize_member J ''indexProperties'' (IndexProperties_to_json J (index_properties x)) v15;
      v17 = serialize_member J ''streamProperties'' (StreamProperties_to_json J (stream_properties x)) v16;
      v18 = serialize_member J ''volume'' (Volume_to_json J (volume x)) v17
      in v18)"

definition Notifications_to_json :: "'v rapidjson \<Rightarrow> Notifications \<Rightarrow> 'v" where
  "Notifications_to_json J x =
     (let
      v1 = serialize_member J ''enabled'' (bool_to_json J (notifications_enabled x)) (rj_Object J)
      in v1)"

definition Catalog_to_json :: "'v rapidjson \<Rightarrow> Catalog \<Rightarrow> 'v" where
  "Catalog_to_json J x =
     (let
      v1 = serialize_member J ''id'' (string_to_json J (catalog_id x)) (rj_Object J);
      v2 = serialize_member J ''hrn'' (string_to_json J (catalog_hrn x)) v1;
      v3 = serialize_member J ''name'' (string_to_json J (catalog_name x)) v2;
      v4 = serialize_member J ''summary'' (string_to_json J (catalog_summary x)) v3;
      v5 = serialize_member J ''description'' (string_to_json J (catalog_description x)) v4;
      v6 = serialize_member J ''coverage'' (Coverage_to_json J (catalog_coverage x)) v5;
      v7 = serialize_member J ''owner'' (Owner_to_json J (catalog_owner x)) v6;
      v8 = serialize_member J ''tags'' (vector_to_json J (string_to_json J) (catalog_tags x)) v7;
      v9 = serialize_member J ''billingTags'' (vector_to_json J (string_to_json J) (catalog_billing_tags x)) v8;
      v10 = serialize_member J ''created'' (string_to_json J (created x)) v9;
      v11 = serialize_member J ''layers'' (vector_to_json J (Layer_to_json J) (layers x)) v10;
      v12 = serialize_member J ''version'' (int64_to_json J (catalog_version x)) v11;
      v13 = serialize_member J ''notifications'' (Notifications_to_json J (notifications x)) v12
      in v13)"

definition VersionResponse_to_json :: "'v rapidjson \<Rightarrow> VersionResponse \<Rightarrow> 'v" where
  "VersionResponse_to_json J x =
     (let
      v1 = serialize_member J ''version'' (int64_to_json J (vr_version x)) (rj_Object J)
      in v1)"

definition Partition_to_json :: "'v rapidjson \<Rightarrow> Partition \<Rightarrow> 'v" where
  "Partition_to_json J x =
     (let
      v1 = serialize_member J ''checksum'' (optional_to_json J (string_to_json J) (checksum x)) (rj_Object J);
      v2 = serialize_member J ''compressedDataSize'' (optional_to_json J (int64_to_json J) (compressed_data_size x)) v1;
      v3 = serialize_member J ''dataHandle'' (string_to_json J (data_handle x)) v2;
      v4 = serialize_member J ''dataSize'' (optional_to_json J (int64_to_json J) (data_size x)) v3;
      v5 = serialize_member J ''partition'' (string_to_json J (partition_id x)) v4;
      v6 = serialize_member J ''version'' (optional_to_json J (int64_to_json J) (partition_version x)) v5
      in v6)"

definition Partitions_to_json :: "'v rapidjson \<Rightarrow> Partitions \<Rightarrow> 'v" where
  "Partitions_to_json J x =
     (let
      v1 = serialize_member J ''partitions'' (vector_to_json J (Partition_to_json J) (partitions x)) (rj_Object J)
      in v1)"

definition LayerVersion_to_json :: "'v rapidjson \<Rightarrow> LayerVersion \<Rightarrow> 'v" where
  "LayerVersion_to_json J x =
     (let
      v1 = serialize_member J ''layer'' (string_to_json J (lv_layer x)) (rj_Object J);
      v2 = serialize_member J ''version'' (int64_to_json J (lv_version x)) v1;
      v3 = serialize_member J ''timestamp'' (int64_to_json J (lv_timestamp x)) v2
      in v3)"

definition LayerVersions_to_json :: "'v rapidjson \<Rightarrow> LayerVersions \<Rightarrow> 'v" where
  "LayerVersions_to_json J x =
     (let
      v1 = serialize_member J ''layerVersions'' (vector_to_json J (LayerVersion_to_json J) (layer_versions x)) (rj_Object J);
      v2 = serialize_member J ''version'' (int64_to_json J (lvs_version x)) v1
      in v2)"

definition Api_to_json :: "'v rapidjson \<Rightarrow> Api \<Rightarrow> 'v" where
  "Api_to_json J x =
     (let
      v1 = serialize_member J ''api'' (string_to_json J (api_name x)) (rj_Object J);
      v2 = serialize_member J ''version'' (string_to_json J (api_version x)) v1;
      v3 = serialize_member J ''baseURL'' (string_to_json J (api_base_url x)) v2;
      v4 = serialize_member J ''parameters'' (map_to_json J (string_to_json J) (api_parameters x)) v3
      in v4)"

section \<open>What is stored\<close>

text \<open>No zero byte in a string, numbers of 64 bits, a map in the order of its keys, and throughputs that a double can hold.\<close>

definition cstring_ok :: "string \<Rightarrow> bool" where
  "cstring_ok s \<longleftrightarrow> CHR 0x00 \<notin> set s"

definition optional_ok :: "('x \<Rightarrow> bool) \<Rightarrow> 'x option \<Rightarrow> bool" where
  "optional_ok ok x \<longleftrightarrow> (case x of None \<Rightarrow> True | Some y \<Rightarrow> ok y)"

definition cmap_ok :: "(string \<times> string) list \<Rightarrow> bool" where
  "cmap_ok m \<longleftrightarrow> sorted_wrt bytes_less (map fst m) \<and> list_all (\<lambda>(k, x). cstring_ok k \<and> cstring_ok x) m"

definition double_exact :: "int \<Rightarrow> bool" where
  "double_exact n \<longleftrightarrow> \<bar>n\<bar> \<le> 2 ^ 53"

definition Coverage_ok :: "Coverage \<Rightarrow> bool" where
  "Coverage_ok x \<longleftrightarrow> list_all (cstring_ok) (admin_areas x)"

definition IndexDefinition_ok :: "IndexDefinition \<Rightarrow> bool" where
  "IndexDefinition_ok x \<longleftrightarrow> cstring_ok (index_name x) \<and> cstring_ok (index_type x) \<and> int64_range (duration x) \<and>
       int64_range (zoomLevel x)"

definition IndexProperties_ok :: "IndexProperties \<Rightarrow> bool" where
  "IndexProperties_ok x \<longleftrightarrow> cstring_ok (index_ttl x) \<and> list_all (IndexDefinition_ok) (index_definitions x)"

definition Creator_ok :: "Creator \<Rightarrow> bool" where
  "Creator_ok x \<longleftrightarrow> cstring_ok (creator_id x)"

definition Owner_ok :: "Owner \<Rightarrow> bool" where
  "Owner_ok x \<longleftrightarrow> Creator_ok (creator x) \<and> Creator_ok (organisation x)"

definition Partitioning_ok :: "Partitioning \<Rightarrow> bool" where
  "Partitioning_ok x \<longleftrightarrow> cstring_ok (scheme x) \<and> list_all (int64_range) (tile_levels x)"

definition LayerSchema_ok :: "LayerSchema \<Rightarrow> bool" where
  "LayerSchema_ok x \<longleftrightarrow> cstring_ok (schema_hrn x)"

definition StreamProperties_ok :: "StreamProperties \<Rightarrow> bool" where
  "StreamProperties_ok x \<longleftrightarrow> double_exact (data_in_throughput_mbps x) \<and> double_exact (data_out_throughput_mbps x)"

definition Encryption_ok :: "Encryption \<Rightarrow> bool" where
  "Encryption_ok x \<longleftrightarrow> cstring_ok (algorithm x)"

definition Volume_ok :: "Volume \<Rightarrow> bool" where
  "Volume_ok x \<longleftrightarrow> cstring_ok (volume_type x) \<and> cstring_ok (max_memory_policy x) \<and> cstring_ok (package_type x) \<and>
       Encryption_ok (encryption x)"

definition Layer_ok :: "Layer \<Rightarrow> bool" where
  "Layer_ok x \<longleftrightarrow> cstring_ok (layer_id x) \<and> cstring_ok (layer_name x) \<and> cstring_ok (layer_summary x) \<and>
       cstring_ok (layer_description x) \<and> Owner_ok (layer_owner x) \<and> Coverage_ok (layer_coverage x) \<and>
       LayerSchema_ok (layer_schema x) \<and> cstring_ok (content_type x) \<and> cstring_ok (content_encoding x) \<and>
       Partitioning_ok (partitioning x) \<and> cstring_ok (layer_type x) \<and> cstring_ok (digest x) \<and>
       list_all (cstring_ok) (layer_tags x) \<and> list_all (cstring_ok) (layer_billing_tags x) \<and> optional_ok (int64_range) (layer_ttl x) \<and>
       IndexProperties_ok (index_properties x) \<and> StreamProperties_ok (stream_properties x) \<and> Volume_ok (volume x)"

definition Notifications_ok :: "Notifications \<Rightarrow> bool" where
  "Notifications_ok x \<longleftrightarrow> True"

definition Catalog_ok :: "Catalog \<Rightarrow> bool" where
  "Catalog_ok x \<longleftrightarrow> cstring_ok (catalog_id x) \<and> cstring_ok (catalog_hrn x) \<and> cstring_ok (catalog_name x) \<and>
       cstring_ok (catalog_summary x) \<and> cstring_ok (catalog_description x) \<and> Coverage_ok (catalog_coverage x) \<and>
       Owner_ok (catalog_owner x) \<and> list_all (cstring_ok) (catalog_tags x) \<and> list_all (cstring_ok) (catalog_billing_tags x) \<and>
       cstring_ok (created x) \<and> list_all (Layer_ok) (layers x) \<and> int64_range (catalog_version x) \<and>
       Notifications_ok (notifications x)"

definition VersionResponse_ok :: "VersionResponse \<Rightarrow> bool" where
  "VersionResponse_ok x \<longleftrightarrow> int64_range (vr_version x)"

definition Partition_ok :: "Partition \<Rightarrow> bool" where
  "Partition_ok x \<longleftrightarrow> optional_ok (cstring_ok) (checksum x) \<and> optional_ok (int64_range) (compressed_data_size x) \<and>
       cstring_ok (data_handle x) \<and> optional_ok (int64_range) (data_size x) \<and> cstring_ok (partition_id x) \<and>
       optional_ok (int64_range) (partition_version x)"

definition Partitions_ok :: "Partitions \<Rightarrow> bool" where
  "Partitions_ok x \<longleftrightarrow> list_all (Partition_ok) (partitions x)"

definition LayerVersion_ok :: "LayerVersion \<Rightarrow> bool" where
  "LayerVersion_ok x \<longleftrightarrow> cstring_ok (lv_layer x) \<and> int64_range (lv_version x) \<and> int64_range (lv_timestamp x)"

definition LayerVersions_ok :: "LayerVersions \<Rightarrow> bool" where
  "LayerVersions_ok x \<longleftrightarrow> list_all (LayerVersion_ok) (layer_versions x) \<and> int64_range (lvs_version x)"

definition Api_ok :: "Api \<Rightarrow> bool" where
  "Api_ok x \<longleftrightarrow> cstring_ok (api_name x) \<and> cstring_ok (api_version x) \<and> cstring_ok (api_base_url x) \<and>
       cmap_ok (api_parameters x)"

section \<open>Texts\<close>

text \<open>The parsers the REST interfaces call on a response, and the text a cache repository stores; the address of an
  interface is stored as it is (\<open>ApiCacheRepository.cpp\<close>).\<close>

definition Catalog_parse :: "'v rapidjson \<Rightarrow> string \<Rightarrow> Catalog option" where
  "Catalog_parse J = parse_json J (Catalog_from_json J) Catalog_new"

definition VersionResponse_parse :: "'v rapidjson \<Rightarrow> string \<Rightarrow> VersionResponse option" where
  "VersionResponse_parse J = parse_json J (VersionResponse_from_json J) VersionResponse_new"

definition LayerVersions_parse :: "'v rapidjson \<Rightarrow> string \<Rightarrow> LayerVersions option" where
  "LayerVersions_parse J = parse_json J (LayerVersions_from_json J) LayerVersions_new"

definition Partition_parse :: "'v rapidjson \<Rightarrow> string \<Rightarrow> Partition option" where
  "Partition_parse J = parse_json J (Partition_from_json J) Partition_new"

definition Partitions_parse :: "'v rapidjson \<Rightarrow> string \<Rightarrow> Partitions option" where
  "Partitions_parse J = parse_json J (Partitions_from_json J) Partitions_new"

definition ids_parse :: "'v rapidjson \<Rightarrow> string \<Rightarrow> string list option" where
  "ids_parse J = parse_json J (vector_from_json J (string_from_json J)) []"

definition Apis_parse :: "'v rapidjson \<Rightarrow> string \<Rightarrow> Api list option" where
  "Apis_parse J = parse_json J (vector_from_json J (Api_from_json J)) []"

definition Index_parse :: "'v rapidjson \<Rightarrow> string \<Rightarrow> Index option" where
  "Index_parse J = parse_json J (Index_from_json J) Index_new"

fun cached_text :: "'v rapidjson \<Rightarrow> cached \<Rightarrow> string" where
  "cached_text J (CCatalog x) = serialize_json J (Catalog_to_json J x)"
| "cached_text J (CVersion x) = serialize_json J (VersionResponse_to_json J x)"
| "cached_text J (CLayerVersions x) = serialize_json J (LayerVersions_to_json J x)"
| "cached_text J (CPartition x) = serialize_json J (Partition_to_json J x)"
| "cached_text J (CIds x) = serialize_json J (vector_to_json J (string_to_json J) x)"
| "cached_text J (CString x) = x"

section \<open>An instance\<close>

text \<open>Values as a datatype; the text of a value is its number, written in unary.\<close>

datatype json_value = JNull | JBool bool | JInt int | JString string | JArray "json_value list" | JObject "(string \<times> json_value) list"

instance json_value :: countable
  by countable_datatype

fun json_add :: "json_value \<Rightarrow> string \<Rightarrow> json_value \<Rightarrow> json_value" where
  "json_add (JObject ms) k x = JObject (ms @ [(k, x)])"
| "json_add v _ _ = v"

fun json_push :: "json_value \<Rightarrow> json_value \<Rightarrow> json_value" where
  "json_push (JArray vs) x = JArray (vs @ [x])"
| "json_push v _ = v"

definition example_rapidjson :: "json_value rapidjson" where
  "example_rapidjson =
     \<lparr>rj_Parse = \<lambda>s. from_nat (length s),
      rj_Accept = \<lambda>v. replicate (to_nat v) CHR ''1'',
      rj_IsNull = \<lambda>v. v = JNull,
      rj_IsObject = \<lambda>v. case v of JObject _ \<Rightarrow> True | _ \<Rightarrow> False,
      rj_IsArray = \<lambda>v. case v of JArray _ \<Rightarrow> True | _ \<Rightarrow> False,
      rj_GetString = \<lambda>v. case v of JString s \<Rightarrow> Some s | _ \<Rightarrow> None,
      rj_GetInt64 = \<lambda>v. case v of JInt n \<Rightarrow> Some n | _ \<Rightarrow> None,
      rj_GetUint = \<lambda>v. case v of JInt n \<Rightarrow> (if 0 \<le> n \<and> n < 2 ^ 32 then Some n else None) | _ \<Rightarrow> None,
      rj_GetDouble = \<lambda>v. case v of JInt n \<Rightarrow> Some (of_int n) | _ \<Rightarrow> None,
      rj_GetBool = \<lambda>v. case v of JBool b \<Rightarrow> Some b | _ \<Rightarrow> None,
      rj_Members = \<lambda>v. case v of JObject ms \<Rightarrow> Some ms | _ \<Rightarrow> None,
      rj_FindMember = \<lambda>v k. case v of JObject ms \<Rightarrow> Some (map_of ms k) | _ \<Rightarrow> None,
      rj_Elements = \<lambda>v. case v of JArray vs \<Rightarrow> Some vs | _ \<Rightarrow> None,
      rj_Null = JNull, rj_String = JString, rj_Int64 = JInt, rj_Bool = JBool,
      rj_Object = JObject [], rj_AddMember = json_add, rj_Array = JArray [], rj_PushBack = json_push,
      rj_HasParseError = \<lambda>_. False\<rparr>"

end
