(* ===== verification/Json_Roundtrip.thy ===== *)
theory Json_Roundtrip
  imports Json_Codec
begin

text \<open>
  The generated parsers against the generated serializers: for every class that the cache repositories store, the
  parser reads back the object that the serializer was given. \<open>encodes\<close> states this for a pair of functions and is shown
  for the wrappers once, then for each class from its members.
\<close>

section \<open>The laws of RapidJSON\<close>

named_theorems codec_rules

lemma rj_laws:
  assumes "rapidjson_laws J"
  shows "built J v \<Longrightarrow> rj_Parse J (rj_Accept J v) = v" "built J v \<Longrightarrow> CHR 0x00 \<notin> set (rj_Accept J v)"
    and "rj_IsNull J (rj_Null J)" "built J v \<Longrightarrow> \<not> rj_IsNull J v"
    and "rj_GetString J (rj_String J s) = Some s" "int64_range n \<Longrightarrow> rj_GetInt64 J (rj_Int64 J n) = Some n"
    and "\<bar>n\<bar> \<le> 2 ^ 53 \<Longrightarrow> rj_GetDouble J (rj_Int64 J n) = Some (of_int n)" "rj_GetBool J (rj_Bool J b) = Some b"
    and "rj_IsObject J (rj_Object J)" "rj_IsObject J v \<Longrightarrow> rj_IsObject J (rj_AddMember J v k x)"
    and "rj_FindMember J (rj_Object J) k = Some None"
    and "rj_Members J (rj_Object J) = Some []"
    and "rj_Members J v = Some ms \<Longrightarrow> rj_Members J (rj_AddMember J v k x) = Some (ms @ [(k, x)])"
    and "rj_IsArray J (rj_Array J)" "rj_IsArray J v \<Longrightarrow> rj_IsArray J (rj_PushBack J v x)"
    and "rj_Elements J (rj_Array J) = Some []" "rj_Elements J v = Some vs \<Longrightarrow> rj_Elements J (rj_PushBack J v x) = Some (vs @ [x])"
    and "\<not> rj_IsObject J (rj_Null J)"
  using assms unfolding rapidjson_laws_def by simp_all

lemma rj_find:
  assumes "rapidjson_laws J" "rj_IsObject J v"
  shows "rj_FindMember J (rj_AddMember J v k x) n =
     (case rj_FindMember J v n of None \<Rightarrow> None | Some None \<Rightarrow> Some (if k = n then Some x else None) | Some (Some y) \<Rightarrow> Some (Some y))"
  using assms unfolding rapidjson_laws_def by blast

lemma cstr_ok [simp]: "cstring_ok s \<Longrightarrow> cstr s = s"
  by (auto simp: cstr_def cstring_ok_def takeWhile_eq_all_conv)

section \<open>Pairs of functions that fit\<close>

definition encodes :: "'v rapidjson \<Rightarrow> ('x \<Rightarrow> 'v) \<Rightarrow> ('v \<Rightarrow> 'x option) \<Rightarrow> ('x \<Rightarrow> bool) \<Rightarrow> bool" where
  "encodes J to from ok \<longleftrightarrow> (\<forall>x. ok x \<longrightarrow> built J (to x) \<and> from (to x) = Some x)"

lemma encodesI: "(\<And>x. ok x \<Longrightarrow> built J (to x)) \<Longrightarrow> (\<And>x. ok x \<Longrightarrow> from (to x) = Some x) \<Longrightarrow> encodes J to from ok"
  by (simp add: encodes_def)

lemma encodesD:
  assumes "encodes J to from ok" "ok x"
  shows "built J (to x)" "from (to x) = Some x"
  using assms by (simp_all add: encodes_def)

lemma encodes_string [codec_rules]: "rapidjson_laws J \<Longrightarrow> encodes J (string_to_json J) (string_from_json J) cstring_ok"
  by (rule encodesI) (simp_all add: string_to_json_def string_from_json_def built_String rj_laws)

lemma encodes_int64 [codec_rules]: "rapidjson_laws J \<Longrightarrow> encodes J (int64_to_json J) (int64_from_json J) int64_range"
  by (rule encodesI) (simp_all add: int64_to_json_def int64_from_json_def built_Int64 rj_laws)

lemma encodes_bool [codec_rules]: "rapidjson_laws J \<Longrightarrow> encodes J (bool_to_json J) (bool_from_json J) (\<lambda>_. True)"
  by (rule encodesI) (simp_all add: bool_to_json_def bool_from_json_def built_Bool rj_laws)

lemma elements_from_json_map:
  "\<forall>x \<in> set xs. from (to x) = Some x \<Longrightarrow> elements_from_json from (map to xs) acc = Some (acc @ xs)"
  by (induction xs arbitrary: acc) auto

lemma push_back_all:
  assumes "rapidjson_laws J" "\<forall>x \<in> set xs. built J (to x)" "built J v" "rj_IsArray J v" "rj_Elements J v = Some vs"
  shows "let w = foldl (\<lambda>value y. rj_PushBack J value (to y)) v xs in
           built J w \<and> rj_IsArray J w \<and> rj_Elements J w = Some (vs @ map to xs)"
  using assms(2-)
proof (induction xs arbitrary: v vs)
  case (Cons x xs)
  then show ?case
    using Cons.IH [of "rj_PushBack J v (to x)" "vs @ [to x]"] by (simp add: built_PushBack rj_laws [OF assms(1)])
qed simp

lemma encodes_vector [codec_rules]:
  assumes "rapidjson_laws J" "encodes J to from ok"
  shows "encodes J (vector_to_json J to) (vector_from_json J from) (list_all ok)"
proof (rule encodesI)
  fix xs assume "list_all ok xs"
  then have ok: "\<forall>x \<in> set xs. built J (to x)" "\<forall>x \<in> set xs. from (to x) = Some x"
    using encodesD [OF assms(2)] by (auto simp: list_all_iff)
  note w = push_back_all [OF assms(1) ok(1) built_Array rj_laws(14,16) [OF assms(1)], unfolded Let_def]
  show "built J (vector_to_json J to xs)" using w by (simp add: vector_to_json_def)
  show "vector_from_json J from (vector_to_json J to xs) = Some xs"
    using w ok(2) by (simp add: vector_to_json_def vector_from_json_def elements_from_json_map)
qed

lemma subscript_assign_last:
  "\<forall>k \<in> set (map fst m). bytes_less k key \<and> k \<noteq> key \<and> \<not> bytes_less key k \<Longrightarrow> subscript_assign key x m = m @ [(key, x)]"
  by (induction m) auto

lemma bytes_less_irrefl [simp]: "\<not> bytes_less s s"
  by (induction s) auto

lemma bytes_less_asym: "bytes_less a b \<Longrightarrow> \<not> bytes_less b a"
  using bytes_less_trans bytes_less_irrefl by blast

lemma members_from_json_map:
  assumes "sorted_wrt bytes_less (map fst (acc @ m))" "\<forall>(k, x) \<in> set m. from (to x) = Some x \<and> cstring_ok k"
  shows "members_from_json from (map (\<lambda>(k, x). (cstr k, to x)) m) acc = Some (acc @ m)"
  using assms
proof (induction m arbitrary: acc)
  case (Cons p m)
  obtain k x where p: "p = (k, x)" by (cases p)
  have "subscript_assign k x acc = acc @ [(k, x)]"
    using Cons.prems(1) by (intro subscript_assign_last) (auto simp: p sorted_wrt_append dest: bytes_less_asym)
  then show ?case using Cons.IH [of "acc @ [(k, x)]"] Cons.prems by (simp add: p)
qed simp

lemma add_all:
  assumes "rapidjson_laws J" "\<forall>(k, x) \<in> set m. built J (to x)" "built J v" "rj_IsObject J v" "rj_Members J v = Some ms"
  shows "let w = foldl (\<lambda>value (k, y). rj_AddMember J value (cstr k) (to y)) v m in
           built J w \<and> rj_Members J w = Some (ms @ map (\<lambda>(k, x). (cstr k, to x)) m)"
  using assms(2-)
proof (induction m arbitrary: v ms)
  case (Cons p m)
  obtain k x where p: "p = (k, x)" by (cases p)
  show ?case
    using Cons.prems Cons.IH [of "rj_AddMember J v (cstr k) (to x)" "ms @ [(cstr k, to x)]"]
    by (simp add: p built_AddMember rj_laws [OF assms(1)])
qed simp

lemma encodes_map [codec_rules]:
  assumes "rapidjson_laws J"
  shows "encodes J (map_to_json J (string_to_json J)) (map_from_json J (string_from_json J)) cmap_ok"
proof (rule encodesI)
  fix m assume m: "cmap_ok m"
  note str = encodesD [OF encodes_string [OF assms]]
  have ok: "\<forall>(k, x) \<in> set m. built J (string_to_json J x)"
    "\<forall>(k, x) \<in> set m. string_from_json J (string_to_json J x) = Some x \<and> cstring_ok k"
    using m str by (fastforce simp: cmap_ok_def list_all_iff)+
  note w = add_all [OF assms ok(1) built_Object rj_laws(9,12) [OF assms], unfolded Let_def]
  show "built J (map_to_json J (string_to_json J) m)" using w by (simp add: map_to_json_def)
  show "map_from_json J (string_from_json J) (map_to_json J (string_to_json J) m) = Some m"
    using w m members_from_json_map [of "[]" m "string_from_json J" "string_to_json J", OF _ ok(2)] by (simp add: map_to_json_def map_from_json_def cmap_ok_def)
qed

section \<open>Members of an object\<close>

lemma cstr_simps [simp]: "cstr [] = []" "cstr (c # s) = (if c = CHR 0x00 then [] else c # cstr s)"
  by (simp_all add: cstr_def)

lemma serialize_object:
  assumes "rapidjson_laws J" "rj_IsObject J v"
  shows "rj_IsObject J (serialize_member J k i v)"
    and "built J v \<Longrightarrow> rj_IsNull J i \<or> built J i \<Longrightarrow> built J (serialize_member J k i v)"
    and "cstr k \<noteq> n \<Longrightarrow> rj_FindMember J (serialize_member J k i v) n = rj_FindMember J v n"
    and "cstr k \<noteq> cstr m \<Longrightarrow> parse_member J from new (serialize_member J k i v) m = parse_member J from new v m"
    and "cstr k = cstr m \<Longrightarrow> rj_FindMember J v (cstr m) = Some None \<Longrightarrow> built J i \<Longrightarrow>
           parse_member J from new (serialize_member J k i v) m = from i"
  using assms(2) rj_laws(4) [OF assms(1), of i]
  by (auto simp: serialize_member_def parse_member_def rj_laws(10) [OF assms(1)] rj_find [OF assms] built_AddMember split: option.splits)

lemma serialize_optional:
  assumes "rapidjson_laws J" "encodes J to from ok" "optional_ok ok x"
  shows "rj_IsNull J (optional_to_json J to x) \<or> built J (optional_to_json J to x)"
    and "rj_IsObject J v \<Longrightarrow> cstr k = cstr m \<Longrightarrow> rj_FindMember J v (cstr m) = Some None \<Longrightarrow>
           parse_member J (optional_from_json from) None (serialize_member J k (optional_to_json J to x) v) m = Some x"
proof -
  have *: "built J (to y) \<and> from (to y) = Some y \<and> \<not> rj_IsNull J (to y)" if "x = Some y" for y
    using assms that rj_laws(4) [OF assms(1)] by (auto simp: optional_ok_def dest: encodesD)
  show "rj_IsNull J (optional_to_json J to x) \<or> built J (optional_to_json J to x)"
    using * rj_laws(3) [OF assms(1)] by (cases x) (auto simp: optional_to_json_def)
  show "parse_member J (optional_from_json from) None (serialize_member J k (optional_to_json J to x) v) m = Some x"
    if "rj_IsObject J v" "cstr k = cstr m" "rj_FindMember J v (cstr m) = Some None"
    using that * rj_laws(3) [OF assms(1)]
    by (cases x) (auto simp: optional_to_json_def serialize_member_def parse_member_def optional_from_json_def rj_find [OF assms(1)])
qed

declare built_Object [simp]

lemmas object_simps = serialize_object rj_laws(9,11)

section \<open>The classes of dataservice-read\<close>

lemma encodes_Coverage:
  assumes "rapidjson_laws J"
  shows "encodes J (Coverage_to_json J) (Coverage_from_json J) Coverage_ok"
  by (rule encodesI)
    (simp_all add: Coverage_ok_def Coverage_to_json_def Coverage_from_json_def object_simps [OF assms]
      encodesD [OF encodes_vector [OF assms encodes_string [OF assms]]])

lemma encodes_IndexDefinition:
  assumes "rapidjson_laws J"
  shows "encodes J (IndexDefinition_to_json J) (IndexDefinition_from_json J) IndexDefinition_ok"
  by (rule encodesI)
    (simp_all add: IndexDefinition_ok_def IndexDefinition_to_json_def IndexDefinition_from_json_def object_simps [OF assms]
      encodesD [OF encodes_string [OF assms]]
      encodesD [OF encodes_int64 [OF assms]])

lemma encodes_IndexProperties:
  assumes "rapidjson_laws J"
  shows "encodes J (IndexProperties_to_json J) (IndexProperties_from_json J) IndexProperties_ok"
  by (rule encodesI)
    (simp_all add: IndexProperties_ok_def IndexProperties_to_json_def IndexProperties_from_json_def object_simps [OF assms]
      encodesD [OF encodes_string [OF assms]]
      encodesD [OF encodes_vector [OF assms encodes_IndexDefinition [OF assms]]])

lemma encodes_Creator:
  assumes "rapidjson_laws J"
  shows "encodes J (Creator_to_json J) (Creator_from_json J) Creator_ok"
  by (rule encodesI)
    (simp_all add: Creator_ok_def Creator_to_json_def Creator_from_json_def object_simps [OF assms]
      encodesD [OF encodes_string [OF assms]])

lemma encodes_Owner:
  assumes "rapidjson_laws J"
  shows "encodes J (Owner_to_json J) (Owner_from_json J) Owner_ok"
  by (rule encodesI)
    (simp_all add: Owner_ok_def Owner_to_json_def Owner_from_json_def object_simps [OF assms]
      encodesD [OF encodes_Creator [OF assms]])

lemma encodes_Partitioning:
  assumes "rapidjson_laws J"
  shows "encodes J (Partitioning_to_json J) (Partitioning_from_json J) Partitioning_ok"
  by (rule encodesI)
    (simp_all add: Partitioning_ok_def Partitioning_to_json_def Partitioning_from_json_def object_simps [OF assms]
      encodesD [OF encodes_string [OF assms]]
      encodesD [OF encodes_vector [OF assms encodes_int64 [OF assms]]])

lemma encodes_LayerSchema:
  assumes "rapidjson_laws J"
  shows "encodes J (LayerSchema_to_json J) (LayerSchema_from_json J) LayerSchema_ok"
  by (rule encodesI)
    (simp_all add: LayerSchema_ok_def LayerSchema_to_json_def LayerSchema_from_json_def object_simps [OF assms]
      encodesD [OF encodes_string [OF assms]])

lemma encodes_StreamProperties:
  assumes "rapidjson_laws J"
  shows "encodes J (StreamProperties_to_json J) (StreamProperties_from_json J) StreamProperties_ok"
proof (rule encodesI)
  fix x assume ok: "StreamProperties_ok x"
  have range: "double_exact n \<Longrightarrow> int64_range n" for n by (auto simp: double_exact_def int64_range_def)
  have read: "double_exact n \<Longrightarrow> double_from_json J (int64_to_json J n) = Some (of_int n)" for n
    by (simp add: double_from_json_def int64_to_json_def double_exact_def rj_laws [OF assms])
  have trunc: "truncate_double (of_int n) = n" for n by (simp add: truncate_double_def)
  note simps = StreamProperties_ok_def StreamProperties_to_json_def StreamProperties_from_json_def object_simps [OF assms]
    encodesD [OF encodes_int64 [OF assms] range] read trunc
  show "built J (StreamProperties_to_json J x)" using ok by (simp add: simps)
  show "StreamProperties_from_json J (StreamProperties_to_json J x) = Some x" using ok by (simp add: simps)
qed

lemma encodes_Encryption:
  assumes "rapidjson_laws J"
  shows "encodes J (Encryption_to_json J) (Encryption_from_json J) Encryption_ok"
  by (rule encodesI)
    (simp_all add: Encryption_ok_def Encryption_to_json_def Encryption_from_json_def object_simps [OF assms]
      encodesD [OF encodes_string [OF assms]])

lemma encodes_Volume:
  assumes "rapidjson_laws J"
  shows "encodes J (Volume_to_json J) (Volume_from_json J) Volume_ok"
  by (rule encodesI)
    (simp_all add: Volume_ok_def Volume_to_json_def Volume_from_json_def object_simps [OF assms]
      encodesD [OF encodes_string [OF assms]]
      encodesD [OF encodes_Encryption [OF assms]])

lemma encodes_Layer:
  assumes "rapidjson_laws J"
  shows "encodes J (Layer_to_json J) (Layer_from_json J) Layer_ok"
  by (rule encodesI)
    (simp_all add: Layer_ok_def Layer_to_json_def Layer_from_json_def object_simps [OF assms]
      encodesD [OF encodes_string [OF assms]]
      encodesD [OF encodes_Owner [OF assms]]
      encodesD [OF encodes_Coverage [OF assms]]
      encodesD [OF encodes_LayerSchema [OF assms]]
      encodesD [OF encodes_Partitioning [OF assms]]
      encodesD [OF encodes_vector [OF assms encodes_string [OF assms]]]
      encodesD [OF encodes_IndexProperties [OF assms]]
      encodesD [OF encodes_StreamProperties [OF assms]]
      encodesD [OF encodes_Volume [OF assms]]
      serialize_optional [OF assms encodes_int64 [OF assms]])

lemma encodes_Notifications:
  assumes "rapidjson_laws J"
  shows "encodes J (Notifications_to_json J) (Notifications_from_json J) Notifications_ok"
  by (rule encodesI)
    (simp_all add: Notifications_ok_def Notifications_to_json_def Notifications_from_json_def object_simps [OF assms]
      encodesD [OF encodes_bool [OF assms]])

lemma encodes_Catalog:
  assumes "rapidjson_laws J"
  shows "encodes J (Catalog_to_json J) (Catalog_from_json J) Catalog_ok"
  by (rule encodesI)
    (simp_all add: Catalog_ok_def Catalog_to_json_def Catalog_from_json_def object_simps [OF assms]
      encodesD [OF encodes_string [OF assms]]
      encodesD [OF encodes_Coverage [OF assms]]
      encodesD [OF encodes_Owner [OF assms]]
      encodesD [OF encodes_vector [OF assms encodes_string [OF assms]]]
      encodesD [OF encodes_vector [OF assms encodes_Layer [OF assms]]]
      encodesD [OF encodes_int64 [OF assms]]
      encodesD [OF encodes_Notifications [OF assms]])

lemma encodes_VersionResponse:
  assumes "rapidjson_laws J"
  shows "encodes J (VersionResponse_to_json J) (VersionResponse_from_json J) VersionResponse_ok"
  by (rule encodesI)
    (simp_all add: VersionResponse_ok_def VersionResponse_to_json_def VersionResponse_from_json_def object_simps [OF assms]
      encodesD [OF encodes_int64 [OF assms]])

lemma encodes_Partition:
  assumes "rapidjson_laws J"
  shows "encodes J (Partition_to_json J) (Partition_from_json J) Partition_ok"
  by (rule encodesI)
    (simp_all add: Partition_ok_def Partition_to_json_def Partition_from_json_def object_simps [OF assms]
      encodesD [OF encodes_string [OF assms]]
      serialize_optional [OF assms encodes_string [OF assms]]
      serialize_optional [OF assms encodes_int64 [OF assms]])

lemma encodes_Partitions:
  assumes "rapidjson_laws J"
  shows "encodes J (Partitions_to_json J) (Partitions_from_json J) Partitions_ok"
  by (rule encodesI)
    (simp_all add: Partitions_ok_def Partitions_to_json_def Partitions_from_json_def object_simps [OF assms]
      encodesD [OF encodes_vector [OF assms encodes_Partition [OF assms]]])

lemma encodes_LayerVersion:
  assumes "rapidjson_laws J"
  shows "encodes J (LayerVersion_to_json J) (LayerVersion_from_json J) LayerVersion_ok"
  by (rule encodesI)
    (simp_all add: LayerVersion_ok_def LayerVersion_to_json_def LayerVersion_from_json_def object_simps [OF assms]
      encodesD [OF encodes_string [OF assms]]
      encodesD [OF encodes_int64 [OF assms]])

lemma encodes_LayerVersions:
  assumes "rapidjson_laws J"
  shows "encodes J (LayerVersions_to_json J) (LayerVersions_from_json J) LayerVersions_ok"
  by (rule encodesI)
    (simp_all add: LayerVersions_ok_def LayerVersions_to_json_def LayerVersions_from_json_def object_simps [OF assms]
      encodesD [OF encodes_vector [OF assms encodes_LayerVersion [OF assms]]]
      encodesD [OF encodes_int64 [OF assms]])

lemma encodes_Api:
  assumes "rapidjson_laws J"
  shows "encodes J (Api_to_json J) (Api_from_json J) Api_ok"
  by (rule encodesI)
    (simp_all add: Api_ok_def Api_to_json_def Api_from_json_def object_simps [OF assms]
      encodesD [OF encodes_string [OF assms]]
      encodesD [OF encodes_map [OF assms]])

section \<open>Texts\<close>

lemma parse_serialized:
  assumes "rapidjson_laws J" "encodes J to from ok" "ok x" "rj_IsObject J (to x) \<or> rj_IsArray J (to x)"
  shows "parse_json J from new (serialize_json J (to x)) = Some x"
proof -
  have b: "built J (to x)" using assms by (auto dest: encodesD)
  then have "cstring_ok (rj_Accept J (to x))" using rj_laws(2) [OF assms(1)] by (simp add: cstring_ok_def)
  then show ?thesis
    using assms(4) b by (simp add: parse_json_def serialize_json_def rj_laws(1) [OF assms(1)] encodesD(2) [OF assms(2,3)] Let_def)
qed

lemma vector_to_json_array:
  assumes "rapidjson_laws J"
  shows "rj_IsArray J (vector_to_json J to xs)"
proof -
  have "rj_IsArray J (foldl (\<lambda>value y. rj_PushBack J value (to y)) v xs)" if "rj_IsArray J v" for v
    using that by (induction xs arbitrary: v) (simp_all add: rj_laws [OF assms])
  then show ?thesis by (simp add: vector_to_json_def rj_laws [OF assms])
qed

lemma to_json_object:
  assumes "rapidjson_laws J"
  shows "rj_IsObject J (Catalog_to_json J x1)" "rj_IsObject J (VersionResponse_to_json J x2)" "rj_IsObject J (LayerVersions_to_json J x3)"
    "rj_IsObject J (Partition_to_json J x4)" "rj_IsObject J (Partitions_to_json J x5)"
  by (simp_all add: Catalog_to_json_def VersionResponse_to_json_def LayerVersions_to_json_def Partition_to_json_def Partitions_to_json_def
      object_simps [OF assms])

section \<open>The instance\<close>

lemma json_add_find:
  "(case v of JObject _ \<Rightarrow> True | _ \<Rightarrow> False) \<Longrightarrow>
   (case json_add v k x of JObject ms \<Rightarrow> Some (map_of ms n) | _ \<Rightarrow> None) =
     (case (case v of JObject ms \<Rightarrow> Some (map_of ms n) | _ \<Rightarrow> None) of
        None \<Rightarrow> None | Some None \<Rightarrow> Some (if k = n then Some x else None) | Some (Some y) \<Rightarrow> Some (Some y))"
  by (cases v) (auto simp: map_add_def split: option.splits)

lemma example_built: "built example_rapidjson v \<Longrightarrow> v \<noteq> JNull"
proof (induction rule: built.induct)
  case (built_AddMember v x k)
  then show ?case by (cases v) (auto simp: example_rapidjson_def)
next
  case (built_PushBack v x)
  then show ?case by (cases v) (auto simp: example_rapidjson_def)
qed (auto simp: example_rapidjson_def)

lemma example_rapidjson_laws: "rapidjson_laws example_rapidjson"
  unfolding rapidjson_laws_def
proof (intro conjI allI impI)
  fix v x and k n :: string assume "rj_IsObject example_rapidjson v"
  then show "rj_FindMember example_rapidjson (rj_AddMember example_rapidjson v k x) n =
       (case rj_FindMember example_rapidjson v n of None \<Rightarrow> None
        | Some None \<Rightarrow> Some (if k = n then Some x else None) | Some (Some y) \<Rightarrow> Some (Some y))"
    using json_add_find [where v = v and k = k and x = x and n = n] by (simp add: example_rapidjson_def)
next
  fix v assume "built example_rapidjson v"
  then show "\<not> rj_IsNull example_rapidjson v" using example_built [of v] by (simp add: example_rapidjson_def)
qed (auto simp: example_rapidjson_def split: json_value.splits)

section \<open>Properties\<close>

text \<open>C15: what a cache repository stores as text, a catalog, a version, layer versions, a partition or the identifiers of
  partitions, is parsed back to the same object.\<close>

theorem stored_models_parse_back:
  assumes "rapidjson_laws J"
  shows "(Catalog_ok c \<longrightarrow> Catalog_parse J (cached_text J (CCatalog c)) = Some c) \<and>
    (int64_range (vr_version v) \<longrightarrow> VersionResponse_parse J (cached_text J (CVersion v)) = Some v) \<and>
    (LayerVersions_ok lvs \<longrightarrow> LayerVersions_parse J (cached_text J (CLayerVersions lvs)) = Some lvs) \<and>
    (Partition_ok p \<longrightarrow> Partition_parse J (cached_text J (CPartition p)) = Some p) \<and>
    (list_all cstring_ok ids \<longrightarrow> ids_parse J (cached_text J (CIds ids)) = Some ids)"
proof (intro conjI)
  note parse = parse_serialized [OF assms]
  note objects = to_json_object [OF assms]
  show "Catalog_ok c \<longrightarrow> Catalog_parse J (cached_text J (CCatalog c)) = Some c"
    using parse [OF encodes_Catalog [OF assms]] objects by (simp add: Catalog_parse_def)
  show "int64_range (vr_version v) \<longrightarrow> VersionResponse_parse J (cached_text J (CVersion v)) = Some v"
    using parse [OF encodes_VersionResponse [OF assms], of v] objects by (simp add: VersionResponse_parse_def VersionResponse_ok_def)
  show "LayerVersions_ok lvs \<longrightarrow> LayerVersions_parse J (cached_text J (CLayerVersions lvs)) = Some lvs"
    using parse [OF encodes_LayerVersions [OF assms]] objects by (simp add: LayerVersions_parse_def)
  show "Partition_ok p \<longrightarrow> Partition_parse J (cached_text J (CPartition p)) = Some p"
    using parse [OF encodes_Partition [OF assms]] objects by (simp add: Partition_parse_def)
  show "list_all cstring_ok ids \<longrightarrow> ids_parse J (cached_text J (CIds ids)) = Some ids"
    using parse [OF encodes_vector [OF assms encodes_string [OF assms]]]
    by (simp add: ids_parse_def vector_to_json_array [OF assms])
qed

theorem stored_models_parse_back_witness:
  "Catalog_parse example_rapidjson (cached_text example_rapidjson (CCatalog (Catalog_new\<lparr>layers := [Layer_new\<lparr>layer_id := ''roads''\<rparr>], catalog_version := 3\<rparr>)))
     = Some (Catalog_new\<lparr>layers := [Layer_new\<lparr>layer_id := ''roads''\<rparr>], catalog_version := 3\<rparr>)"
proof -
  have "Catalog_ok (Catalog_new\<lparr>layers := [Layer_new\<lparr>layer_id := ''roads''\<rparr>], catalog_version := 3\<rparr>)"
    by (simp add: Catalog_ok_def Catalog_new_def Layer_ok_def Layer_new_def Coverage_ok_def Coverage_new_def Owner_ok_def Owner_new_def
      Creator_ok_def Creator_new_def LayerSchema_ok_def LayerSchema_new_def Partitioning_ok_def Partitioning_new_def IndexProperties_ok_def
      IndexProperties_new_def StreamProperties_ok_def StreamProperties_new_def Volume_ok_def Volume_new_def Encryption_ok_def
      Encryption_new_def Notifications_ok_def Notifications_new_def cstring_ok_def int64_range_def double_exact_def optional_ok_def)
  then show ?thesis using stored_models_parse_back [OF example_rapidjson_laws] by blast
qed

text \<open>A catalog that was put on disk is what the repository reads, as long as its parser agrees with the code's.\<close>

lemma catalog_read_from_disk:
  assumes "rapidjson_laws J" "Catalog_ok cat" "\<And>s x. Catalog_parse J s = Some x \<Longrightarrow> parse_Catalog (repo_parsers R) s = x"
    and "repo_serialize R = cached_text J" "repo_cache R = DefaultCache_kv S now"
    and "kv_laws S" "is_open c" "memory_cache c = None" "disk_cache c = Some d" "now < time_max"
    and "kv_Put (repo_cache R) (catalog_key (ToCatalogHRNString (repo_hrn R))) (AnyModel (CCatalog cat)) (repo_serialize R (CCatalog cat)) time_max
           (w, c) = Some (True, w1, c1)"
    and "DiskCache_Get S w d (CreateExpiryKey (catalog_key (ToCatalogHRNString (repo_hrn R)))) = None"
  shows "CatalogCache_Put R cat (w, c) = Some (w1, c1) \<and> CatalogCache_Get R (w1, c1) = Some (Some cat, w1, c1)"
proof
  let ?k = "catalog_key (ToCatalogHRNString (repo_hrn R))"
  show "CatalogCache_Put R cat (w, c) = Some (w1, c1)"
    using assms(11) by (simp add: CatalogCache_Put_def put_model_def)
  have put: "DefaultCache_put S now w c ?k (AnyModel (CCatalog cat)) (cached_text J (CCatalog cat)) time_max = Inr (True, w1, c1)"
    using assms(4,5,11) by (auto simp: DefaultCache_kv_def DefaultCache_Put_def throws_def split: sum.splits)
  note c1 = put_disk(1) [OF put assms(7-9)]
  obtain w0 where w0: "(if time_max < time_max then StoreExpiry S now w ?k d time_max else (True, w)) = (True, w0)"
    "DiskCache_Put S w0 d ?k (cached_text J (CCatalog cat)) = (True, w1)" using put_disk(2) [OF put assms(7-9)] by blast
  have "parse_Catalog (repo_parsers R) (cached_text J (CCatalog cat)) = cat"
    using parse_serialized [OF assms(1) encodes_Catalog [OF assms(1)] assms(2)] to_json_object [OF assms(1)] assms(3)
    by (simp add: Catalog_parse_def)
  moreover have "DefaultCache_get S now w1 c ?k dec = Inr (dec (cached_text J (CCatalog cat)), w1, c)" for dec
    using put_disk_expiry [OF assms(6) w0] assms(12) w0(2)
    by (intro get_disk_hit [OF assms(7-9)]) (auto simp: DiskCache_Put_Get(1) [OF assms(6) w0(2)] time_max_def)
  ultimately show "CatalogCache_Get R (w1, c1) = Some (Some cat, w1, c1)"
    using c1 by (simp add: CatalogCache_Get_def get_model_def assms(5) DefaultCache_kv_def DefaultCache_Get_def throws_simps)
qed

end
