(* ===== verification/Write_Json.thy ===== *)
theory Write_Json
  imports Json_Roundtrip
begin

text \<open>
  Component dataservice-write: the generated parsers and serializers (\<open>generated/parser\<close>, \<open>generated/serializer\<close>), over
  RapidJSON as in \<open>Json_Codec\<close>. The classes that are the same in dataservice-read have their parsers there. A
  serializer of this component fills the value it is given, and \<open>None\<close> is a failed assertion of RapidJSON or a cast
  of a pointer to a class the object does not have.

  Shown: what becomes of a queued request of a stream layer when it is written and parsed, and that an index with metadata
  has no text.
\<close>

section \<open>Parsers\<close>

definition WriteLayer_from_json :: "'v rapidjson \<Rightarrow> 'v \<Rightarrow> WriteLayer option" where
  "WriteLayer_from_json J value = do {
     x0 \<leftarrow> parse_member J (string_from_json J) [] value ''id'';
     x1 \<leftarrow> parse_member J (string_from_json J) [] value ''name'';
     x2 \<leftarrow> parse_member J (string_from_json J) [] value ''summary'';
     x3 \<leftarrow> parse_member J (string_from_json J) [] value ''description'';
     x4 \<leftarrow> parse_member J (Owner_from_json J) Owner_new value ''owner'';
     x5 \<leftarrow> parse_member J (Coverage_from_json J) Coverage_new value ''coverage'';
     x6 \<leftarrow> parse_member J (LayerSchema_from_json J) LayerSchema_new value ''schema'';
     x7 \<leftarrow> parse_member J (string_from_json J) [] value ''contentType'';
     x8 \<leftarrow> parse_member J (string_from_json J) [] value ''contentEncoding'';
     x9 \<leftarrow> parse_member J (Partitioning_from_json J) Partitioning_new value ''partitioning'';
     x10 \<leftarrow> parse_member J (string_from_json J) [] value ''layerType'';
     x11 \<leftarrow> parse_member J (string_from_json J) [] value ''digest'';
     x12 \<leftarrow> parse_member J (vector_from_json J (string_from_json J)) [] value ''tags'';
     x13 \<leftarrow> parse_member J (vector_from_json J (string_from_json J)) [] value ''billingTags'';
     x14 \<leftarrow> parse_member J (int64_from_json J) 0 value ''ttl'';
     x15 \<leftarrow> parse_member J (IndexProperties_from_json J) IndexProperties_new value ''indexProperties'';
     x16 \<leftarrow> parse_member J (StreamProperties_from_json J) StreamProperties_new value ''streamProperties'';
     x17 \<leftarrow> parse_member J (Volume_from_json J) Volume_new value ''volume'';
     Some \<lparr>wl_id = x0, wl_name = x1, wl_summary = x2, wl_description = x3, wl_owner = x4, wl_coverage = x5, wl_schema = x6,
           wl_content_type = x7, wl_content_encoding = x8, wl_partitioning = x9, wl_layer_type = x10, wl_digest = x11, wl_tags = x12,
           wl_billing_tags = x13, wl_ttl = x14, wl_index_properties = x15, wl_stream_properties = x16, wl_volume = x17\<rparr>
   }"

definition WriteCatalog_from_json :: "'v rapidjson \<Rightarrow> 'v \<Rightarrow> WriteCatalog option" where
  "WriteCatalog_from_json J value = do {
     x0 \<leftarrow> parse_member J (string_from_json J) [] value ''id'';
     x1 \<leftarrow> parse_member J (string_from_json J) [] value ''hrn'';
     x2 \<leftarrow> parse_member J (string_from_json J) [] value ''name'';
     x3 \<leftarrow> parse_member J (string_from_json J) [] value ''summary'';
     x4 \<leftarrow> parse_member J (string_from_json J) [] value ''description'';
     x5 \<leftarrow> parse_member J (Coverage_from_json J) Coverage_new value ''coverage'';
     x6 \<leftarrow> parse_member J (Owner_from_json J) Owner_new value ''owner'';
     x7 \<leftarrow> parse_member J (vector_from_json J (string_from_json J)) [] value ''tags'';
     x8 \<leftarrow> parse_member J (vector_from_json J (string_from_json J)) [] value ''billingTags'';
     x9 \<leftarrow> parse_member J (string_from_json J) [] value ''created'';
     x10 \<leftarrow> parse_member J (vector_from_json J (WriteLayer_from_json J)) [] value ''layers'';
     x11 \<leftarrow> parse_member J (int64_from_json J) 0 value ''version'';
     x12 \<leftarrow> parse_member J (Notifications_from_json J) Notifications_new value ''notifications'';
     Some \<lparr>wc_id = x0, wc_hrn = x1, wc_name = x2, wc_summary = x3, wc_description = x4, wc_coverage = x5, wc_owner = x6, wc_tags = x7,
           wc_billing_tags = x8, wc_created = x9, wc_layers = x10, wc_version = x11, wc_notifications = x12\<rparr>
   }"

definition Details_new :: Details where
  "Details_new = \<lparr>details_state = [], details_message = [], details_started = 0, details_modified = 0, details_expires = 0\<rparr>"

definition Details_from_json :: "'v rapidjson \<Rightarrow> 'v \<Rightarrow> Details option" where
  "Details_from_json J value = do {
     x0 \<leftarrow> parse_member J (string_from_json J) [] value ''state'';
     x1 \<leftarrow> parse_member J (string_from_json J) [] value ''message'';
     x2 \<leftarrow> parse_member J (int64_from_json J) 0 value ''started'';
     x3 \<leftarrow> parse_member J (int64_from_json J) 0 value ''modified'';
     x4 \<leftarrow> parse_member J (int64_from_json J) 0 value ''expires'';
     Some \<lparr>details_state = x0, details_message = x1, details_started = x2, details_modified = x3, details_expires = x4\<rparr>
   }"

definition VersionDependency_new :: VersionDependency where
  "VersionDependency_new = \<lparr>dep_direct = False, dep_hrn = [], dep_version = 0\<rparr>"

definition VersionDependency_from_json :: "'v rapidjson \<Rightarrow> 'v \<Rightarrow> VersionDependency option" where
  "VersionDependency_from_json J value = do {
     x0 \<leftarrow> parse_member J (bool_from_json J) False value ''direct'';
     x1 \<leftarrow> parse_member J (string_from_json J) [] value ''hrn'';
     x2 \<leftarrow> parse_member J (int64_from_json J) 0 value ''version'';
     Some \<lparr>dep_direct = x0, dep_hrn = x1, dep_version = x2\<rparr>
   }"

definition Publication_from_json :: "'v rapidjson \<Rightarrow> 'v \<Rightarrow> Publication option" where
  "Publication_from_json J value = do {
     x0 \<leftarrow> parse_member J (string_from_json J) [] value ''id'';
     x1 \<leftarrow> parse_member J (Details_from_json J) Details_new value ''details'';
     x2 \<leftarrow> parse_member J (vector_from_json J (string_from_json J)) [] value ''layerIds'';
     x3 \<leftarrow> parse_member J (int64_from_json J) 0 value ''catalogVersion'';
     x4 \<leftarrow> parse_member J (vector_from_json J (VersionDependency_from_json J)) [] value ''versionDependencies'';
     Some \<lparr>pub_id = Some x0, pub_details = Some x1, pub_layer_ids = Some x2, pub_catalog_version = Some x3,
           pub_version_dependencies = Some x4\<rparr>
   }"

definition PublishPartition_from_json :: "'v rapidjson \<Rightarrow> 'v \<Rightarrow> PublishPartition option" where
  "PublishPartition_from_json J value = do {
     x0 \<leftarrow> parse_member J (string_from_json J) [] value ''partition'';
     x1 \<leftarrow> parse_member J (string_from_json J) [] value ''checksum'';
     x2 \<leftarrow> parse_member J (int64_from_json J) 0 value ''compressedDataSize'';
     x3 \<leftarrow> parse_member J (int64_from_json J) 0 value ''dataSize'';
     x4 \<leftarrow> parse_member J (data_from_json J) None value ''data'';
     x5 \<leftarrow> parse_member J (string_from_json J) [] value ''dataHandle'';
     x6 \<leftarrow> parse_member J (int64_from_json J) 0 value ''timestamp'';
     Some \<lparr>pp_partition = Some x0, pp_checksum = Some x1, pp_compressed_data_size = Some x2, pp_data_size = Some x3, pp_data = x4,
           pp_data_handle = Some x5, pp_timestamp = Some x6\<rparr>
   }"

definition PublishPartitions_from_json :: "'v rapidjson \<Rightarrow> 'v \<Rightarrow> PublishPartitions option" where
  "PublishPartitions_from_json J value = do {
     x0 \<leftarrow> parse_member J (vector_from_json J (PublishPartition_from_json J)) [] value ''partitions'';
     Some \<lparr>pps_partitions = Some x0\<rparr>
   }"

definition TraceID_new :: TraceID where
  "TraceID_new = \<lparr>parent_id = [], generated_ids = []\<rparr>"

definition TraceID_from_json :: "'v rapidjson \<Rightarrow> 'v \<Rightarrow> TraceID option" where
  "TraceID_from_json J value = do {
     x0 \<leftarrow> parse_member J (string_from_json J) [] value ''ParentID'';
     x1 \<leftarrow> parse_member J (vector_from_json J (string_from_json J)) [] value ''GeneratedIDs'';
     Some \<lparr>parent_id = x0, generated_ids = x1\<rparr>
   }"

definition ResponseOk_new :: ResponseOk where
  "ResponseOk_new = \<lparr>rok_trace_id = TraceID_new\<rparr>"

definition ResponseOk_from_json :: "'v rapidjson \<Rightarrow> 'v \<Rightarrow> ResponseOk option" where
  "ResponseOk_from_json J value = do {
     x0 \<leftarrow> parse_member J (TraceID_from_json J) TraceID_new value ''TraceID'';
     Some \<lparr>rok_trace_id = x0\<rparr>
   }"

definition ResponseOkSingle_new :: ResponseOkSingle where
  "ResponseOkSingle_new = \<lparr>ros_trace_id = []\<rparr>"

definition ResponseOkSingle_from_json :: "'v rapidjson \<Rightarrow> 'v \<Rightarrow> ResponseOkSingle option" where
  "ResponseOkSingle_from_json J value = do {
     x0 \<leftarrow> parse_member J (string_from_json J) [] value ''TraceID'';
     Some \<lparr>ros_trace_id = x0\<rparr>
   }"

definition PublishDataRequest_from_json :: "'v rapidjson \<Rightarrow> 'v \<Rightarrow> PublishDataRequest option" where
  "PublishDataRequest_from_json J value = do {
     x0 \<leftarrow> parse_member J (data_from_json J) None value ''data'';
     x1 \<leftarrow> parse_member J (string_from_json J) [] value ''layerId'';
     x2 \<leftarrow> parse_member J (string_from_json J) [] value ''traceId'';
     x3 \<leftarrow> parse_member J (string_from_json J) [] value ''billingTag'';
     x4 \<leftarrow> parse_member J (string_from_json J) [] value ''checksum'';
     Some \<lparr>pdr_data = x0, pdr_layer_id = x1, pdr_trace_id = Some x2, pdr_billing_tag = Some x3, pdr_checksum = Some x4\<rparr>
   }"

section \<open>Serializers\<close>

text \<open>\<open>AddMember(key, StringRef(x.c_str()), allocator)\<close>, for a value that is there.\<close>

definition add_string :: "'v rapidjson \<Rightarrow> string \<Rightarrow> string option \<Rightarrow> 'v \<Rightarrow> 'v" where
  "add_string J key x value = (case x of None \<Rightarrow> value | Some s \<Rightarrow> rj_AddMember J value key (rj_String J (cstr s)))"

definition add_int64 :: "'v rapidjson \<Rightarrow> string \<Rightarrow> int option \<Rightarrow> 'v \<Rightarrow> 'v" where
  "add_int64 J key x value = (case x of None \<Rightarrow> value | Some n \<Rightarrow> rj_AddMember J value key (rj_Int64 J n))"

text \<open>Data with its size: zero bytes are kept.\<close>

definition add_data :: "'v rapidjson \<Rightarrow> string \<Rightarrow> string option \<Rightarrow> 'v \<Rightarrow> 'v" where
  "add_data J key x value = (case x of None \<Rightarrow> value | Some s \<Rightarrow> rj_AddMember J value key (rj_String J s))"

definition Details_to_json :: "'v rapidjson \<Rightarrow> Details \<Rightarrow> 'v" where
  "Details_to_json J x =
     (let v1 = add_string J ''state'' (Some (details_state x)) (rj_Object J);
          v2 = add_string J ''message'' (Some (details_message x)) v1;
          v3 = add_int64 J ''started'' (Some (details_started x)) v2;
          v4 = add_int64 J ''modified'' (Some (details_modified x)) v3
      in add_int64 J ''expires'' (Some (details_expires x)) v4)"

definition VersionDependency_to_json :: "'v rapidjson \<Rightarrow> VersionDependency \<Rightarrow> 'v" where
  "VersionDependency_to_json J x =
     (let v1 = rj_AddMember J (rj_Object J) ''direct'' (rj_Bool J (dep_direct x));
          v2 = add_string J ''hrn'' (Some (dep_hrn x)) v1
      in add_int64 J ''version'' (Some (dep_version x)) v2)"

definition Publication_to_json :: "'v rapidjson \<Rightarrow> Publication \<Rightarrow> 'v \<Rightarrow> 'v" where
  "Publication_to_json J x value =
     (let v1 = add_string J ''id'' (pub_id x) value;
          v2 = (case pub_details x of None \<Rightarrow> v1 | Some details \<Rightarrow> rj_AddMember J v1 ''details'' (Details_to_json J details));
          v3 = (case pub_layer_ids x of None \<Rightarrow> v2
                | Some ids \<Rightarrow> rj_AddMember J v2 ''layerIds'' (vector_to_json J (\<lambda>s. rj_String J (cstr s)) ids));
          v4 = add_int64 J ''catalogVersion'' (pub_catalog_version x) v3
      in case pub_version_dependencies x of None \<Rightarrow> v4
         | Some deps \<Rightarrow> rj_AddMember J v4 ''versionDependencies'' (vector_to_json J (VersionDependency_to_json J) deps))"

definition PublishDataRequest_to_json :: "'v rapidjson \<Rightarrow> PublishDataRequest \<Rightarrow> 'v \<Rightarrow> 'v" where
  "PublishDataRequest_to_json J x value =
     (let v1 = add_data J ''data'' (pdr_data x) value;
          v2 = add_string J ''layerId'' (Some (pdr_layer_id x)) v1;
          v3 = add_string J ''traceId'' (pdr_trace_id x) v2;
          v4 = add_string J ''billingTag'' (pdr_billing_tag x) v3
      in add_string J ''checksum'' (pdr_checksum x) v4)"

definition PublishPartition_to_json :: "'v rapidjson \<Rightarrow> PublishPartition \<Rightarrow> 'v \<Rightarrow> 'v" where
  "PublishPartition_to_json J x value =
     (let v1 = add_string J ''partition'' (pp_partition x) value;
          v2 = add_string J ''checksum'' (pp_checksum x) v1;
          v3 = add_int64 J ''compressedDataSize'' (pp_compressed_data_size x) v2;
          v4 = add_int64 J ''dataSize'' (pp_data_size x) v3;
          v5 = add_data J ''data'' (pp_data x) v4;
          v6 = add_string J ''dataHandle'' (pp_data_handle x) v5
      in add_int64 J ''timestamp'' (pp_timestamp x) v6)"

definition PublishPartitions_to_json :: "'v rapidjson \<Rightarrow> PublishPartitions \<Rightarrow> 'v \<Rightarrow> 'v" where
  "PublishPartitions_to_json J x value =
     (case pps_partitions x of None \<Rightarrow> value
      | Some ps \<Rightarrow> rj_AddMember J value ''partitions'' (vector_to_json J (\<lambda>p. PublishPartition_to_json J p (rj_Object J)) ps))"

text \<open>An index. The serializer looks at the type of a value and casts the pointer; a value of another type is left out.\<close>

fun getIndexType :: "IndexValue \<Rightarrow> IndexType" where
  "getIndexType (BooleanIndexValue _ t) = t"
| "getIndexType (IntIndexValue _ t) = t"
| "getIndexType (StringIndexValue _ t) = t"
| "getIndexType (TimeWindowIndexValue _ t) = t"
| "getIndexType (HereTileIndexValue _ t) = t"
| "getIndexType (EmptyIndexValue t) = t"
| "getIndexType (UnsupportedIndexValue t) = t"

definition index_field_to_json :: "'v rapidjson \<Rightarrow> string \<Rightarrow> IndexValue \<Rightarrow> 'v \<Rightarrow> 'v option" where
  "index_field_to_json J key x flds =
     (let k = cstr key
      in case getIndexType x of
           IxString \<Rightarrow> (case x of StringIndexValue s _ \<Rightarrow> Some (rj_AddMember J flds k (rj_String J s)) | _ \<Rightarrow> None)
         | IxInt \<Rightarrow> (case x of IntIndexValue n _ \<Rightarrow> Some (rj_AddMember J flds k (rj_Int64 J n)) | _ \<Rightarrow> None)
         | IxBool \<Rightarrow> (case x of BooleanIndexValue b _ \<Rightarrow> Some (rj_AddMember J flds k (rj_Bool J b)) | _ \<Rightarrow> None)
         | IxHeretile \<Rightarrow> (case x of HereTileIndexValue n _ \<Rightarrow> Some (rj_AddMember J flds k (rj_Int64 J n)) | _ \<Rightarrow> None)
         | IxTimeWindow \<Rightarrow> (case x of TimeWindowIndexValue n _ \<Rightarrow> Some (rj_AddMember J flds k (rj_Int64 J n)) | _ \<Rightarrow> None)
         | IxUnsupported \<Rightarrow> Some flds)"

fun index_fields_to_json :: "'v rapidjson \<Rightarrow> (string \<times> IndexValue) list \<Rightarrow> 'v \<Rightarrow> 'v option" where
  "index_fields_to_json J [] indexFields = Some indexFields"
| "index_fields_to_json J ((k, x) # flds) indexFields = do {
     v \<leftarrow> index_field_to_json J k x indexFields;
     index_fields_to_json J flds v
   }"

text \<open>Metadata is added to the value of the fields, which is null since it was moved into the index.\<close>

fun metadata_to_json :: "'v rapidjson \<Rightarrow> (string \<times> string) list \<Rightarrow> 'v \<Rightarrow> 'v option" where
  "metadata_to_json J [] indexFields = Some indexFields"
| "metadata_to_json J ((k, x) # metadata) indexFields =
     (if rj_IsObject J indexFields
      then metadata_to_json J metadata (rj_AddMember J indexFields (cstr k) (rj_String J (cstr x)))
      else None)"

definition index_object :: "'v rapidjson \<Rightarrow> WriteIndex \<Rightarrow> 'v option" where
  "index_object J x = do {
     flds \<leftarrow> index_fields_to_json J (ix_fields x) (rj_Object J);
     let v1 = add_string J ''id'' (Some (ix_id x)) (rj_Object J);
     let v2 = rj_AddMember J v1 ''fields'' flds;
     let indexFields = rj_Null J;
     _ \<leftarrow> (case ix_metadata x of None \<Rightarrow> Some indexFields | Some metadata \<Rightarrow> metadata_to_json J metadata indexFields);
     let v3 = add_string J ''checksum'' (ix_checksum x) v2;
     Some (add_int64 J ''size'' (ix_size x) v3)
   }"

definition Index_to_json :: "'v rapidjson \<Rightarrow> WriteIndex \<Rightarrow> 'v option" where
  "Index_to_json J x = do {
     jsonValue \<leftarrow> index_object J x;
     Some (rj_PushBack J (rj_Array J) jsonValue)
   }"

fun index_objects :: "'v rapidjson \<Rightarrow> WriteIndex list \<Rightarrow> 'v \<Rightarrow> 'v option" where
  "index_objects J [] additions = Some additions"
| "index_objects J (x # xs) additions = do {
     additionValue \<leftarrow> index_object J x;
     index_objects J xs (rj_PushBack J additions additionValue)
   }"

definition UpdateIndexRequest_to_json :: "'v rapidjson \<Rightarrow> UpdateIndexRequest \<Rightarrow> 'v \<Rightarrow> 'v option" where
  "UpdateIndexRequest_to_json J x value = do {
     additions \<leftarrow> index_objects J (uir_additions x) (rj_Array J);
     let v1 = rj_AddMember J value ''additions'' additions;
     Some (rj_AddMember J v1 ''removals'' (vector_to_json J (\<lambda>s. rj_String J (cstr s)) (uir_removals x)))
   }"

section \<open>Texts\<close>

definition PublishDataRequest_new :: PublishDataRequest where
  "PublishDataRequest_new = \<lparr>pdr_data = None, pdr_layer_id = [], pdr_trace_id = None, pdr_billing_tag = None, pdr_checksum = None\<rparr>"

definition PublishDataRequest_text :: "'v rapidjson \<Rightarrow> PublishDataRequest \<Rightarrow> string" where
  "PublishDataRequest_text J x = serialize_json J (PublishDataRequest_to_json J x (rj_Object J))"

definition PublishDataRequest_parse :: "'v rapidjson \<Rightarrow> string \<Rightarrow> PublishDataRequest option" where
  "PublishDataRequest_parse J = parse_json J (PublishDataRequest_from_json J) PublishDataRequest_new"

section \<open>Lemmas\<close>

definition holds :: "'v rapidjson \<Rightarrow> 'v \<Rightarrow> (string \<times> 'v) list \<Rightarrow> bool" where
  "holds J v ms \<longleftrightarrow> built J v \<and> rj_IsObject J v \<and> (\<forall>n. rj_FindMember J v n = Some (map_of ms n))"

lemma holds_Object: "rapidjson_laws J \<Longrightarrow> holds J (rj_Object J) []"
  by (simp add: holds_def rj_laws)

lemma holds_add:
  assumes "rapidjson_laws J" "holds J v ms" "built J x" "map_of ms k = None"
  shows "holds J (rj_AddMember J v k x) (ms @ [(k, x)])"
  using assms by (auto simp: holds_def built_AddMember rj_laws(10) [OF assms(1)] rj_find [OF assms(1)] map_add_def split: option.splits)

lemma holds_add_optional:
  assumes "rapidjson_laws J" "holds J v ms" "map_of ms k = None"
  shows "holds J (add_string J k x v) (ms @ (case x of None \<Rightarrow> [] | Some s \<Rightarrow> [(k, rj_String J (cstr s))]))"
    and "holds J (add_data J k x v) (ms @ (case x of None \<Rightarrow> [] | Some s \<Rightarrow> [(k, rj_String J s)]))"
  using assms holds_add [OF assms(1,2) built_String assms(3)]
  by (auto simp: add_string_def add_data_def split: option.splits)

lemma parse_held: "holds J v ms \<Longrightarrow> parse_member J from new v n = (case map_of ms (cstr n) of None \<Rightarrow> Some new | Some i \<Rightarrow> from i)"
  by (simp add: holds_def parse_member_def)

lemma cstr_cstr [simp]: "cstr (cstr s) = cstr s"
  by (induction s) auto

definition string_or_empty :: "string option \<Rightarrow> string" where
  "string_or_empty x = (case x of None \<Rightarrow> [] | Some s \<Rightarrow> cstr s)"

section \<open>Properties\<close>

text \<open>C40: a queued request that is written to the cache and parsed again ends its data at the first zero byte, and a trace
  identifier, billing tag or checksum that was not set is then set to the empty string.\<close>

theorem queued_request_parse_back:
  assumes "rapidjson_laws J"
  shows "PublishDataRequest_parse J (PublishDataRequest_text J x) =
    Some \<lparr>pdr_data = map_option cstr (pdr_data x), pdr_layer_id = cstr (pdr_layer_id x),
          pdr_trace_id = Some (string_or_empty (pdr_trace_id x)), pdr_billing_tag = Some (string_or_empty (pdr_billing_tag x)),
          pdr_checksum = Some (string_or_empty (pdr_checksum x))\<rparr>"
proof -
  let ?v = "PublishDataRequest_to_json J x (rj_Object J)"
  let ?opt = "\<lambda>k y. case y of None \<Rightarrow> [] | Some s \<Rightarrow> [(k, rj_String J (cstr s))]"
  let ?ms = "(((([] @ (case pdr_data x of None \<Rightarrow> [] | Some s \<Rightarrow> [(''data'', rj_String J s)])) @
    ?opt ''layerId'' (Some (pdr_layer_id x))) @ ?opt ''traceId'' (pdr_trace_id x)) @ ?opt ''billingTag'' (pdr_billing_tag x)) @
    ?opt ''checksum'' (pdr_checksum x)"
  have v: "holds J ?v ?ms"
    unfolding PublishDataRequest_to_json_def Let_def
    by (intro holds_add_optional [OF assms] holds_Object [OF assms]) (auto split: option.splits)
  then have doc: "rj_Parse J (cstr (rj_Accept J ?v)) = ?v" "rj_IsObject J ?v"
    using rj_laws(1,2) [OF assms, of ?v] cstr_ok [of "rj_Accept J ?v"] by (simp_all add: holds_def cstring_ok_def)
  show ?thesis
    unfolding PublishDataRequest_parse_def PublishDataRequest_text_def parse_json_def serialize_json_def Let_def
    using doc by (auto simp: PublishDataRequest_from_json_def parse_held [OF v] string_from_json_def data_from_json_def
      string_or_empty_def rj_laws(5) [OF assms] split: option.splits)
qed

theorem queued_request_parse_back_witness:
  "PublishDataRequest_parse example_rapidjson (PublishDataRequest_text example_rapidjson
       (PublishDataRequest_new\<lparr>pdr_data := Some [CHR ''a'', CHR 0x00, CHR ''b''], pdr_layer_id := ''stream''\<rparr>)) =
     Some \<lparr>pdr_data = Some ''a'', pdr_layer_id = ''stream'', pdr_trace_id = Some [], pdr_billing_tag = Some [], pdr_checksum = Some []\<rparr>"
  using queued_request_parse_back [OF example_rapidjson_laws,
    of "PublishDataRequest_new\<lparr>pdr_data := Some [CHR ''a'', CHR 0x00, CHR ''b''], pdr_layer_id := ''stream''\<rparr>"]
  by (simp add: PublishDataRequest_new_def string_or_empty_def)

text \<open>An index with an entry of metadata has no text, alone or as an addition of an update: the entry is added to the value
  of the fields after that value was moved.\<close>

theorem index_metadata_fails:
  assumes "rapidjson_laws J" "ix_metadata x = Some (m # ms)" "x \<in> set (uir_additions r)"
  shows "Index_to_json J x = None \<and> UpdateIndexRequest_to_json J r value = None"
proof -
  have x: "index_object J x = None"
    using assms(2) rj_laws(18) [OF assms(1)] by (cases m) (auto simp: index_object_def Let_def split: Option.bind_splits)
  have "index_objects J xs v = None" if "x \<in> set xs" for xs v
    using that by (induction xs arbitrary: v) (auto simp: x split: Option.bind_splits)
  with x assms(3) show ?thesis by (simp add: Index_to_json_def UpdateIndexRequest_to_json_def)
qed

theorem index_metadata_fails_witness:
  "Index_to_json example_rapidjson \<lparr>ix_checksum = None, ix_metadata = Some [(''a'', ''b'')], ix_size = None, ix_id = ''i'', ix_fields = []\<rparr> = None"
  using index_metadata_fails [OF example_rapidjson_laws, of
    "\<lparr>ix_checksum = None, ix_metadata = Some [(''a'', ''b'')], ix_size = None, ix_id = ''i'', ix_fields = []\<rparr>" _ _
    "\<lparr>uir_layer_id = [], uir_billing_tag = None, uir_checksum = None,
       uir_additions = [\<lparr>ix_checksum = None, ix_metadata = Some [(''a'', ''b'')], ix_size = None, ix_id = ''i'', ix_fields = []\<rparr>],
       uir_removals = []\<rparr>"]
  by simp

text \<open>Without metadata, and with values that have the class of their type, an index is written.\<close>

fun index_value_ok :: "IndexValue \<Rightarrow> bool" where
  "index_value_ok (BooleanIndexValue _ t) \<longleftrightarrow> t \<in> {IxBool, IxUnsupported}"
| "index_value_ok (IntIndexValue _ t) \<longleftrightarrow> t \<in> {IxInt, IxUnsupported}"
| "index_value_ok (StringIndexValue _ t) \<longleftrightarrow> t \<in> {IxString, IxUnsupported}"
| "index_value_ok (TimeWindowIndexValue _ t) \<longleftrightarrow> t \<in> {IxTimeWindow, IxUnsupported}"
| "index_value_ok (HereTileIndexValue _ t) \<longleftrightarrow> t \<in> {IxHeretile, IxUnsupported}"
| "index_value_ok (EmptyIndexValue t) \<longleftrightarrow> t = IxUnsupported"
| "index_value_ok (UnsupportedIndexValue t) \<longleftrightarrow> t = IxUnsupported"

lemma index_fields_written: "\<forall>(k, v) \<in> set fs. index_value_ok v \<Longrightarrow> \<exists>w. index_fields_to_json J fs u = Some w"
proof (induction fs arbitrary: u)
  case (Cons f fs)
  obtain k v where f: "f = (k, v)" by (cases f)
  have "\<exists>w. index_field_to_json J k v u = Some w"
    using Cons.prems f by (cases v) (auto simp: index_field_to_json_def Let_def split: IndexType.splits)
  then show ?case using Cons f by auto
qed simp

lemma index_written:
  assumes "\<forall>(k, v) \<in> set (ix_fields x). index_value_ok v" "ix_metadata x \<in> {None, Some []}"
  shows "\<exists>v. Index_to_json J x = Some v"
  using index_fields_written [OF assms(1), of J "rj_Object J"] assms(2)
  by (auto simp: Index_to_json_def index_object_def Let_def)

end
