(* ===== verification/Base64_Codec.thy ===== *)
theory Base64_Codec
  imports Prelude
begin

text \<open>
  Component core/utils: \<open>Base64.cpp\<close>. The iterators of Boost that regroup bits, \<open>base64_from_binary\<close> over
  \<open>transform_width<6, 8>\<close> and \<open>binary_from_base64\<close> below \<open>transform_width<8, 6>\<close>, are the parameter \<open>boost_base64\<close>;
  the padding and the check of a text are the code's own.

  Shown: an encoded sequence of bytes is valid, has no line feed and is decoded to itself.
\<close>

record boost_base64 =
  bb_encode :: "u8 list \<Rightarrow> string"
  bb_decode :: "string \<Rightarrow> u8 list"

definition char_in :: "char \<Rightarrow> char \<Rightarrow> char \<Rightarrow> bool" where
  "char_in lo hi c \<longleftrightarrow> (of_char lo :: nat) \<le> of_char c \<and> (of_char c :: nat) \<le> of_char hi"

definition notBase64Symbol :: "char \<Rightarrow> bool" where
  "notBase64Symbol c \<longleftrightarrow>
     \<not> (char_in CHR ''/'' CHR ''9'' c \<or> char_in CHR ''A'' CHR ''Z'' c \<or> char_in CHR ''a'' CHR ''z'' c \<or> c = CHR ''+'')"

text \<open>The text without its padding, of which at most the last two characters are looked at.\<close>

definition no_padding :: "string \<Rightarrow> string" where
  "no_padding s =
     (let len = length s
      in if s ! (len - 1) = CHR ''='' then if s ! (len - 2) = CHR ''='' then take (len - 2) s else take (len - 1) s else s)"

definition isValidBase64 :: "string \<Rightarrow> bool" where
  "isValidBase64 s \<longleftrightarrow>
     (let len = length s
      in if len = 0 then True else if len mod 4 \<noteq> 0 then False else list_all (\<lambda>c. \<not> notBase64Symbol c) (no_padding s))"

definition Base64Encode :: "boost_base64 \<Rightarrow> u8 list \<Rightarrow> string" where
  "Base64Encode B bytes =
     (let n = length bytes
      in if n = 0 then [] else bb_encode B bytes @ replicate ((3 - n mod 3) mod 3) CHR ''='')"

definition Base64Decode :: "boost_base64 \<Rightarrow> string \<Rightarrow> bool \<Rightarrow> u8 list option" where
  "Base64Decode B s write_null_bytes =
     (if s = [] then Some []
      else if \<not> isValidBase64 s then None
      else let bytes = bb_decode B (no_padding s) in Some (if write_null_bytes then bytes else filter (\<lambda>b. b \<noteq> 0) bytes))"

text \<open>What Boost documents: a symbol for every six bits, of the alphabet of base64, and the inverse.\<close>

definition boost_laws :: "boost_base64 \<Rightarrow> bool" where
  "boost_laws B \<longleftrightarrow>
     (\<forall>bs. length (bb_encode B bs) = (8 * length bs + 5) div 6 \<and> list_all (\<lambda>c. \<not> notBase64Symbol c) (bb_encode B bs) \<and>
       bb_decode B (bb_encode B bs) = bs)"

section \<open>An instance\<close>

text \<open>The groups of six bits of RFC 4648 on numbers, and their symbols.\<close>

fun sextets :: "nat list \<Rightarrow> nat list" where
  "sextets [] = []"
| "sextets [a] = [a div 4, a mod 4 * 16]"
| "sextets [a, b] = [a div 4, a mod 4 * 16 + b div 16, b mod 16 * 4]"
| "sextets (a # b # c # r) = [a div 4, a mod 4 * 16 + b div 16, b mod 16 * 4 + c div 64, c mod 64] @ sextets r"

fun octets :: "nat list \<Rightarrow> nat list" where
  "octets (w # x # y # z # r) = [w * 4 + x div 16, x mod 16 * 16 + y div 4, y mod 4 * 64 + z] @ octets r"
| "octets [w, x, y] = [w * 4 + x div 16, x mod 16 * 16 + y div 4]"
| "octets [w, x] = [w * 4 + x div 16]"
| "octets _ = []"

definition sextet_char :: "nat \<Rightarrow> char" where
  "sextet_char n = char_of (if n < 26 then 65 + n else if n < 52 then 71 + n else if n < 62 then n - 4 else if n = 62 then 43 else 47 :: nat)"

definition char_sextet :: "char \<Rightarrow> nat" where
  "char_sextet c =
     (let n = of_char c
      in if 65 \<le> n \<and> n \<le> 90 then n - 65 else if 97 \<le> n \<and> n \<le> 122 then n - 71 else if 48 \<le> n \<and> n \<le> 57 then n + 4 else if n = 43 then 62 else 63)"

definition rfc4648 :: boost_base64 where
  "rfc4648 = \<lparr>bb_encode = \<lambda>bs. map sextet_char (sextets (map unat bs)), bb_decode = \<lambda>s. map of_nat (octets (map char_sextet s))\<rparr>"

section \<open>Lemmas\<close>

lemma padding_length:
  fixes n :: nat
  shows "((8 * n + 5) div 6 + (3 - n mod 3) mod 3) mod 4 = 0"
proof -
  have "n mod 3 = 0 \<or> n mod 3 = 1 \<or> n mod 3 = 2" by arith
  then obtain k where k: "n mod 3 = k" "k = 0 \<or> k = 1 \<or> k = 2" by auto
  obtain q where n: "n = 3 * q + k" using k(1) by (metis mult_div_mod_eq)
  from k(2) show ?thesis
  proof (elim disjE)
    assume "k = 0"
    then have "(8 * n + 5) div 6 = 4 * q" using n by simp
    with \<open>k = 0\<close> k(1) show ?thesis by simp
  next
    assume "k = 1"
    then have "(8 * n + 5) div 6 = 4 * q + 2" using n by simp
    with \<open>k = 1\<close> k(1) show ?thesis by simp
  next
    assume "k = 2"
    then have "(8 * n + 5) div 6 = 4 * q + 3" using n by simp
    with \<open>k = 2\<close> k(1) show ?thesis by simp
  qed
qed

lemma equals_not_symbol: "notBase64Symbol CHR ''=''" "notBase64Symbol CHR 0x0A"
  by (simp_all add: notBase64Symbol_def char_in_def)

lemma no_padding_encoded:
  assumes "list_all (\<lambda>c. \<not> notBase64Symbol c) s" "2 \<le> length s" "k \<le> 2"
  shows "no_padding (s @ replicate k CHR ''='') = s"
proof -
  have sym: "s ! i \<noteq> CHR ''=''" if "i < length s" for i
    using assms(1) that equals_not_symbol by (metis list_all_length)
  consider "k = 0" | "k = 1" | "k = 2" using assms(3) by linarith
  then show ?thesis
    using assms(2) sym [of "length s - 1"] sym [of "length s - 2"]
    by cases (auto simp: no_padding_def Let_def nth_append numeral_2_eq_2)
qed

lemma sextets_bound: "\<forall>a \<in> set as. a < 256 \<Longrightarrow> \<forall>n \<in> set (sextets as). n < 64"
  by (induction as rule: sextets.induct) auto

lemma length_sextets: "length (sextets as) = (8 * length as + 5) div 6"
  by (induction as rule: sextets.induct) auto

lemma octets_sextets: "\<forall>a \<in> set as. a < 256 \<Longrightarrow> octets (sextets as) = as"
  by (induction as rule: sextets.induct) (auto simp: div_mult2_eq [symmetric] mult.commute)

lemma plus_symbol: "char_of (43 :: nat) = CHR ''+''"
  by code_simp

lemma sextet_symbols: "n < 64 \<Longrightarrow> char_sextet (sextet_char n) = n \<and> \<not> notBase64Symbol (sextet_char n)"
  by (auto simp: char_sextet_def sextet_char_def notBase64Symbol_def char_in_def plus_symbol Let_def)

lemma rfc4648_laws: "boost_laws rfc4648"
  unfolding boost_laws_def
proof (intro allI conjI)
  fix bs :: "u8 list"
  have b: "\<forall>a \<in> set (map unat bs). a < 256" using unsigned_less [where ?'a = nat and ?'b = 8] by auto
  note s = sextets_bound [OF b] sextet_symbols
  show "length (bb_encode rfc4648 bs) = (8 * length bs + 5) div 6" by (simp add: rfc4648_def length_sextets)
  show "list_all (\<lambda>c. \<not> notBase64Symbol c) (bb_encode rfc4648 bs)" using s by (auto simp: rfc4648_def list_all_iff)
  have "map char_sextet (map sextet_char (sextets (map unat bs))) = sextets (map unat bs)"
    using s by (auto simp: comp_def intro: map_idI)
  then show "bb_decode rfc4648 (bb_encode rfc4648 bs) = bs"
    by (simp add: rfc4648_def octets_sextets [OF b] comp_def)
qed

theorem base64_roundtrip:
  assumes "boost_laws B"
  shows "Base64Decode B (Base64Encode B bytes) True = Some bytes \<and> isValidBase64 (Base64Encode B bytes) \<and>
    CHR 0x0A \<notin> set (Base64Encode B bytes)"
proof (cases "bytes = []")
  case False
  let ?s = "bb_encode B bytes" and ?k = "(3 - length bytes mod 3) mod 3"
  have laws: "length ?s = (8 * length bytes + 5) div 6" "list_all (\<lambda>c. \<not> notBase64Symbol c) ?s" "bb_decode B ?s = bytes"
    using assms by (auto simp: boost_laws_def)
  have "length ?s \<ge> 2" using False laws(1) by (cases bytes) auto
  moreover have "?k \<le> 2" using mod_less_divisor [of 3 "3 - length bytes mod 3"] by linarith
  ultimately have np: "no_padding (?s @ replicate ?k CHR ''='') = ?s" by (rule no_padding_encoded [OF laws(2)])
  have enc: "Base64Encode B bytes = ?s @ replicate ?k CHR ''=''" using False by (simp add: Base64Encode_def)
  have valid: "isValidBase64 (Base64Encode B bytes)"
    unfolding enc isValidBase64_def Let_def np using laws(1,2) padding_length [of "length bytes"] by simp
  moreover have "CHR 0x0A \<notin> set (Base64Encode B bytes)"
    unfolding enc using laws(2) equals_not_symbol by (auto simp: list_all_iff)
  moreover have "Base64Decode B (Base64Encode B bytes) True = Some bytes"
    using valid laws(3) np \<open>length ?s \<ge> 2\<close> unfolding Base64Decode_def enc by auto
  ultimately show ?thesis by blast
qed (simp add: Base64Encode_def Base64Decode_def isValidBase64_def)

end
