(* ===== verification/Authentication.thy ===== *)
theory Authentication
  imports Json_Codec Crypto Url_Codec Base64_Codec Lru_Cache Network_Request
begin

text \<open>
  Component authentication: \<open>AuthenticationClient.cpp\<close> and the results it makes from an answer (\<open>BaseResult.cpp\<close>,
  \<open>SignInResultImpl.cpp\<close>, \<open>SignInUserResultImpl.cpp\<close>, \<open>SignUpResultImpl.cpp\<close>, \<open>SignOutResultImpl.cpp\<close>).

  A call of the client sends a request and leaves a callback with the network; \<open>AuthRespond\<close> is the moment the network calls
  it, with a status, an error text and the payload. The network object lives as long as a callback holds it. The answers
  that were passed to the callbacks of the application are kept, newest first. Parameters are RapidJSON, the writer of a
  body, Boost's base64, the identifiers and the clock; \<open>None\<close> is a failed assertion of RapidJSON.

  Shown: the token caches hold only what a sign-in with the same key was answered with status 200, an offline answer is such
  a token or an error and never fails an assertion; users of one application share one cached token.
\<close>

section \<open>Data\<close>

record AuthenticationCredentials =
  cred_key :: string
  cred_secret :: string

record AuthError =
  auth_code :: ErrorCode
  auth_message :: string
  auth_retryable :: bool

definition GetErrorForNetworkErrorCode :: "int \<Rightarrow> ErrorCode" where
  "GetErrorForNetworkErrorCode network_code =
     (if network_code = IOError then ErrNetworkConnection
      else if network_code = InvalidURLError then ErrNotFound
      else if network_code = Offline then ErrServiceUnavailable
      else if network_code = NetCancelled then ErrCancelled
      else if network_code = AuthorizationError \<or> network_code = AuthenticationError then ErrAccessDenied
      else if network_code = TimedOut then ErrRequestTimeout
      else ErrUnknown)"

definition IsRetryableNetworkCode :: "int \<Rightarrow> bool" where
  "IsRetryableNetworkCode network_code \<longleftrightarrow> network_code \<in> {Offline, NetCancelled, TimedOut}"

definition AuthError_new :: "int \<Rightarrow> string \<Rightarrow> AuthError" where
  "AuthError_new network_code msg =
     \<lparr>auth_code = GetErrorForNetworkErrorCode network_code, auth_message = msg, auth_retryable = IsRetryableNetworkCode network_code\<rparr>"

record ErrorResponse =
  er_code :: int
  er_message :: string

record ErrorField = ErrorResponse +
  ef_name :: string

record BaseResult =
  base_valid :: bool
  result_status :: int
  result_error :: ErrorResponse
  result_error_fields :: "ErrorField list"

record SignInResult = BaseResult +
  signin_valid :: bool
  access_token :: string
  token_type :: string
  expiry_time :: time_t
  refresh_token :: string
  user_identifier :: string

record SignInUserResult = SignInResult +
  term_acceptance_token :: string
  terms_of_service_url :: string
  terms_of_service_url_json :: string
  private_policy_url :: string
  private_policy_url_json :: string

record SignUpResult = BaseResult +
  signup_user_identifier :: string

section \<open>Results of an answer\<close>

record 'v Document =
  doc_error :: bool
  doc_value :: 'v

definition ParseStream :: "'v rapidjson \<Rightarrow> string \<Rightarrow> 'v Document" where
  "ParseStream J payload = \<lparr>doc_error = rj_HasParseError J payload, doc_value = rj_Parse J payload\<rparr>"

definition HasMember :: "'v rapidjson \<Rightarrow> 'v \<Rightarrow> string \<Rightarrow> bool option" where
  "HasMember J v name = map_option (\<lambda>m. m \<noteq> None) (rj_FindMember J v name)"

text \<open>\<open>v[name].GetString()\<close> and \<open>v[name].GetUint()\<close>.\<close>

definition string_member :: "'v rapidjson \<Rightarrow> 'v \<Rightarrow> string \<Rightarrow> string option" where
  "string_member J v name = do { m \<leftarrow> rj_FindMember J v name; x \<leftarrow> m; s \<leftarrow> rj_GetString J x; Some (cstr s) }"

definition uint_member :: "'v rapidjson \<Rightarrow> 'v \<Rightarrow> string \<Rightarrow> int option" where
  "uint_member J v name = do { m \<leftarrow> rj_FindMember J v name; x \<leftarrow> m; rj_GetUint J x }"

text \<open>A string that is read when the member is there.\<close>

definition string_if :: "'v rapidjson \<Rightarrow> 'v \<Rightarrow> string \<Rightarrow> string option" where
  "string_if J v name = do { has \<leftarrow> HasMember J v name; if has then string_member J v name else Some [] }"

definition find_char :: "char \<Rightarrow> string \<Rightarrow> size_t" where
  "find_char c s = (if c \<in> set s then of_nat (length (takeWhile (\<lambda>x. x \<noteq> c) s)) else - 1)"

definition HasError :: "'z BaseResult_scheme \<Rightarrow> bool" where
  "HasError r \<longleftrightarrow> result_status r \<noteq> 200"

fun error_fields_from :: "'v rapidjson \<Rightarrow> 'v list \<Rightarrow> ErrorField list \<Rightarrow> ErrorField list option" where
  "error_fields_from J [] found = Some found"
| "error_fields_from J (field # flds) found = do {
     has \<leftarrow> HasMember J field ''message'';
     if has then do {
       name \<leftarrow> string_member J field ''name'';
       code \<leftarrow> uint_member J field ''errorCode'';
       msg \<leftarrow> string_member J field ''message'';
       error_fields_from J flds (found @ [\<lparr>er_code = code, er_message = msg, ef_name = name\<rparr>])
     } else error_fields_from J flds found
   }"

definition BaseResult_new :: "'v rapidjson \<Rightarrow> int \<Rightarrow> string \<Rightarrow> 'v Document option \<Rightarrow> BaseResult option" where
  "BaseResult_new J http_status error json_document =
     (let r = \<lparr>base_valid = (case json_document of None \<Rightarrow> False | Some d \<Rightarrow> \<not> doc_error d), result_status = http_status,
               result_error = \<lparr>er_code = 0, er_message = error\<rparr>, result_error_fields = []\<rparr>
      in case json_document of
           None \<Rightarrow> Some r
         | Some d \<Rightarrow>
             (if \<not> HasError r \<or> \<not> base_valid r then Some r
              else let v = doc_value d in do {
                has \<leftarrow> HasMember J v ''errorCode'';
                if \<not> has then Some r else do {
                  code \<leftarrow> uint_member J v ''errorCode'';
                  has_message \<leftarrow> HasMember J v ''message'';
                  if \<not> has_message then Some (r\<lparr>result_error := \<lparr>er_code = code, er_message = error\<rparr>\<rparr>) else do {
                    msg \<leftarrow> string_member J v ''message'';
                    flds \<leftarrow> rj_FindMember J v ''errorFields'';
                    case flds of
                      None \<Rightarrow> Some (r\<lparr>result_error := \<lparr>er_code = code, er_message = msg\<rparr>\<rparr>)
                    | Some arr \<Rightarrow> do {
                        let r1 = r\<lparr>result_error := \<lparr>er_code = code, er_message = take (unat (find_char CHR ''.'' msg + 1)) msg\<rparr>\<rparr>;
                        if rj_IsArray J arr then do {
                          elements \<leftarrow> rj_Elements J arr;
                          found \<leftarrow> error_fields_from J elements [];
                          Some (r1\<lparr>result_error_fields := found\<rparr>)
                        } else Some r1
                      }
                  }
                }
              }))"

definition SignInResult_new :: "'v rapidjson \<Rightarrow> time_t \<Rightarrow> int \<Rightarrow> string \<Rightarrow> 'v Document option \<Rightarrow> SignInResult option" where
  "SignInResult_new J now http_status error json_document = do {
     b \<leftarrow> BaseResult_new J http_status error json_document;
     valid \<leftarrow> (case json_document of
        None \<Rightarrow> Some False
      | Some d \<Rightarrow>
          if \<not> base_valid b then Some False else do {
            a \<leftarrow> HasMember J (doc_value d) ''accessToken'';
            if \<not> a then Some False else do {
              t \<leftarrow> HasMember J (doc_value d) ''tokenType'';
              if \<not> t then Some False else HasMember J (doc_value d) ''expiresIn''
            }
          });
     let r = BaseResult.extend b (SignInResult.fields valid [] [] 0 [] []);
     if HasError r then Some r
     else if \<not> valid then
       Some (r\<lparr>result_status := 503, result_error := (result_error r)\<lparr>er_message := ''Service unavailable''\<rparr>\<rparr>)
     else case json_document of
       None \<Rightarrow> Some r
     | Some d \<Rightarrow> do {
         a \<leftarrow> string_if J (doc_value d) ''accessToken'';
         t \<leftarrow> string_if J (doc_value d) ''tokenType'';
         rt \<leftarrow> string_if J (doc_value d) ''refreshToken'';
         expires \<leftarrow> uint_member J (doc_value d) ''expiresIn'';
         u \<leftarrow> string_if J (doc_value d) ''userId'';
         Some (r\<lparr>access_token := a, token_type := t, refresh_token := rt, expiry_time := now + expires, user_identifier := u\<rparr>)
       }
   }"

definition SignInUserResult_new :: "'v rapidjson \<Rightarrow> time_t \<Rightarrow> int \<Rightarrow> string \<Rightarrow> 'v Document option \<Rightarrow> SignInUserResult option" where
  "SignInUserResult_new J now http_status error json_document = do {
     s \<leftarrow> SignInResult_new J now http_status error json_document;
     let r = SignInResult.extend s (SignInUserResult.fields [] [] [] [] []);
     case json_document of
       None \<Rightarrow> Some r
     | Some d \<Rightarrow>
         if \<not> base_valid r then Some r else do {
           token \<leftarrow> string_if J (doc_value d) ''termsReacceptanceToken'';
           urls \<leftarrow> rj_FindMember J (doc_value d) ''url'';
           case urls of
             None \<Rightarrow> Some (r\<lparr>term_acceptance_token := token\<rparr>)
           | Some obj \<Rightarrow> do {
               tos \<leftarrow> string_if J obj ''tos'';
               tosJSON \<leftarrow> string_if J obj ''tosJSON'';
               pp \<leftarrow> string_if J obj ''pp'';
               ppJSON \<leftarrow> string_if J obj ''ppJSON'';
               Some (r\<lparr>term_acceptance_token := token, terms_of_service_url := tos, terms_of_service_url_json := tosJSON,
                       private_policy_url := pp, private_policy_url_json := ppJSON\<rparr>)
             }
         }
   }"

definition SignUpResult_new :: "'v rapidjson \<Rightarrow> int \<Rightarrow> string \<Rightarrow> 'v Document option \<Rightarrow> SignUpResult option" where
  "SignUpResult_new J http_status error json_document = do {
     b \<leftarrow> BaseResult_new J http_status error json_document;
     u \<leftarrow> (case json_document of None \<Rightarrow> Some [] | Some d \<Rightarrow> if base_valid b then string_if J (doc_value d) ''userId'' else Some []);
     Some (BaseResult.extend b (SignUpResult.fields u))
   }"

definition SignOutResult_new :: "'v rapidjson \<Rightarrow> int \<Rightarrow> string \<Rightarrow> 'v Document option \<Rightarrow> BaseResult option" where
  "SignOutResult_new J http_status error json_document = BaseResult_new J http_status error json_document"

section \<open>Bodies\<close>

text \<open>The members that are written to the object of a body.\<close>

datatype body_member = BString string string | BUint string int | BBool string bool

definition string_unless_empty :: "string \<Rightarrow> string \<Rightarrow> body_member list" where
  "string_unless_empty key x = (if x = [] then [] else [BString key (cstr x)])"

definition uint_if_positive :: "string \<Rightarrow> u32 \<Rightarrow> body_member list" where
  "uint_if_positive key n = (if n > 0 then [BUint key (uint n)] else [])"

record UserProperties =
  user_email :: string
  user_password :: string
  user_expires_in :: u32

record FederatedProperties =
  fed_access_token :: string
  fed_country_code :: string
  fed_language :: string
  fed_email :: string
  fed_expires_in :: u32

record SignUpProperties =
  su_email :: string
  su_password :: string
  su_date_of_birth :: string
  su_first_name :: string
  su_last_name :: string
  su_country_code :: string
  su_language :: string
  su_marketing_enabled :: bool
  su_phone_number :: string
  su_realm :: string
  su_invite_token :: string

record RefreshProperties =
  rp_access_token :: string
  rp_refresh_token :: string
  rp_expires_in :: u32

datatype FederatedSignInType = FacebookSignIn | GoogleSignIn | ArcgisSignIn

definition generateClientBody :: "u32 \<Rightarrow> body_member list" where
  "generateClientBody expires_in = [BString ''grantType'' ''client_credentials''] @ uint_if_positive ''expiresIn'' expires_in"

definition generateUserBody :: "UserProperties \<Rightarrow> body_member list" where
  "generateUserBody p = [BString ''grantType'' ''password''] @ string_unless_empty ''email'' (user_email p) @
     string_unless_empty ''password'' (user_password p) @ uint_if_positive ''expiresIn'' (user_expires_in p)"

definition generateFederatedBody :: "FederatedSignInType \<Rightarrow> FederatedProperties \<Rightarrow> body_member list" where
  "generateFederatedBody type p =
     [BString ''grantType'' (case type of FacebookSignIn \<Rightarrow> ''facebook'' | GoogleSignIn \<Rightarrow> ''google'' | ArcgisSignIn \<Rightarrow> ''arcgis'')] @
     string_unless_empty ''accessToken'' (fed_access_token p) @ string_unless_empty ''countryCode'' (fed_country_code p) @
     string_unless_empty ''language'' (fed_language p) @ string_unless_empty ''email'' (fed_email p) @
     uint_if_positive ''expiresIn'' (fed_expires_in p)"

definition generateRefreshBody :: "RefreshProperties \<Rightarrow> body_member list" where
  "generateRefreshBody p = [BString ''grantType'' ''refresh_token''] @ string_unless_empty ''accessToken'' (rp_access_token p) @
     string_unless_empty ''refreshToken'' (rp_refresh_token p) @ uint_if_positive ''expiresIn'' (rp_expires_in p)"

definition generateSignUpBody :: "SignUpProperties \<Rightarrow> body_member list" where
  "generateSignUpBody p =
     string_unless_empty ''email'' (su_email p) @ string_unless_empty ''password'' (su_password p) @
     string_unless_empty ''dob'' (su_date_of_birth p) @ string_unless_empty ''firstname'' (su_first_name p) @
     string_unless_empty ''lastname'' (su_last_name p) @ string_unless_empty ''countryCode'' (su_country_code p) @
     string_unless_empty ''language'' (su_language p) @
     (if su_marketing_enabled p then [BBool ''marketingEnabled'' True] else []) @
     string_unless_empty ''phoneNumber'' (su_phone_number p) @ string_unless_empty ''realm'' (su_realm p) @
     string_unless_empty ''inviteToken'' (su_invite_token p)"

definition generateAcceptTermBody :: "string \<Rightarrow> body_member list" where
  "generateAcceptTermBody reacceptance_token = [BString ''termsReacceptanceToken'' (cstr reacceptance_token)]"

section \<open>Headers\<close>

text \<open>The environment: Boost, the writer of a body, the memory of a digest and the name of the build.\<close>

record auth_env =
  ae_boost :: boost_base64
  ae_write :: "body_member list \<Rightarrow> string"
  ae_heap :: "u32 list"
  ae_agent :: string

definition base64Encode :: "boost_base64 \<Rightarrow> u8 list \<Rightarrow> string" where
  "base64Encode B vector =
     (let ret = Base64Encode B vector in if ret \<noteq> [] then takeWhile (\<lambda>c. c \<noteq> CHR 0x0A) ret else ret)"

definition oauth_query :: "string \<Rightarrow> string \<Rightarrow> string \<Rightarrow> string" where
  "oauth_query key uid currentTime =
     ''oauth_consumer_key='' @ key @ ''&oauth_nonce='' @ uid @ ''&oauth_signature_method=HMAC-SHA256&oauth_timestamp='' @ currentTime @
     ''&oauth_version=1.0''"

definition quoted :: "string \<Rightarrow> string" where
  "quoted s = [CHR 0x22] @ s @ [CHR 0x22]"

definition generateHeader :: "auth_env \<Rightarrow> string \<Rightarrow> time_t \<Rightarrow> AuthenticationCredentials \<Rightarrow> string \<Rightarrow> string option" where
  "generateHeader E uid now credentials address =
     (let currentTime = to_string_int now;
          signatureBase = ''POST&'' @ Url_Encode address @ ''&'' @ Url_Encode (oauth_query (cred_key credentials) uid currentTime)
      in do {
        hmacResult \<leftarrow> hmac_sha256 (ae_heap E) (cred_secret credentials @ ''&'') signatureBase;
        let signature = base64Encode (ae_boost E) hmacResult;
        Some (''OAuth oauth_consumer_key='' @ quoted (Url_Encode (cred_key credentials)) @ '',oauth_nonce='' @ quoted (Url_Encode uid) @
          '',oauth_signature_method='' @ quoted ''HMAC-SHA256'' @ '',oauth_timestamp='' @ quoted (Url_Encode currentTime) @
          '',oauth_version='' @ quoted ''1.0'' @ '',oauth_signature='' @ quoted (Url_Encode signature))
      })"

definition generateBearerHeader :: "string \<Rightarrow> string" where
  "generateBearerHeader bearer_token = ''Bearer '' @ bearer_token"

section \<open>The client\<close>

datatype auth_kind = KClient AuthenticationCredentials | KUser AuthenticationCredentials | KSignUp | KSignOut

datatype auth_answer =
    AClient AuthenticationCredentials "AuthError + SignInResult"
  | AUser AuthenticationCredentials "AuthError + SignInUserResult"
  | ASignUp "AuthError + SignUpResult"
  | ASignOut "AuthError + BaseResult"

record auth_pending =
  ap_id :: nat
  ap_request :: NetworkRequest
  ap_kind :: auth_kind

record auth_client =
  ac_server_url :: string
  ac_network_ptr :: "NetworkConfig option"
  ac_client_cache :: "(string, SignInResult) LruCache"
  ac_user_cache :: "(string, SignInUserResult) LruCache"
  ac_network_config :: NetworkConfig
  ac_pending :: "auth_pending list"
  ac_next_id :: nat
  ac_answers :: "auth_answer list"

definition AuthenticationClient_new :: "string \<Rightarrow> size_t \<Rightarrow> auth_client" where
  "AuthenticationClient_new server_url token_cache_limit =
     \<lparr>ac_server_url = server_url, ac_network_ptr = None, ac_client_cache = LruCache_new token_cache_limit,
      ac_user_cache = LruCache_new token_cache_limit, ac_network_config = NetworkConfig_default, ac_pending = [], ac_next_id = 0, ac_answers = []\<rparr>"

text \<open>The proxy is taken only while no network is alive.\<close>

record NetworkProxySettings =
  nps_host :: string
  nps_port :: u16
  nps_username :: string
  nps_password :: string

definition SetNetworkProxySettings :: "NetworkProxySettings \<Rightarrow> auth_client \<Rightarrow> bool \<times> auth_client" where
  "SetNetworkProxySettings p st =
     (let network_proxy = \<lparr>proxy_name = nps_host p, proxy_port = nps_port p, proxy_type = ProxyHttp,
                           proxy_user_name = nps_username p, proxy_user_password = nps_password p\<rparr>
      in if \<not> NetworkProxy_IsValid network_proxy then (False, st)
         else if ac_network_ptr st \<noteq> None then (False, st)
         else (True, st\<lparr>ac_network_config := SetProxy network_proxy (ac_network_config st)\<rparr>))"

definition GetScopedNetwork :: "auth_client \<Rightarrow> auth_client" where
  "GetScopedNetwork st = (case ac_network_ptr st of Some _ \<Rightarrow> st | None \<Rightarrow> st\<lparr>ac_network_ptr := Some (ac_network_config st)\<rparr>)"

definition auth_send :: "NetworkRequest \<Rightarrow> auth_kind \<Rightarrow> auth_client \<Rightarrow> nat \<times> auth_client" where
  "auth_send request kind st =
     (let st1 = GetScopedNetwork st; request_id = ac_next_id st1
      in (request_id, st1\<lparr>ac_pending := ac_pending st1 @ [\<lparr>ap_id = request_id, ap_request = request, ap_kind = kind\<rparr>],
                          ac_next_id := request_id + 1\<rparr>))"

text \<open>A signed request with a body.\<close>

definition signed_request :: "auth_env \<Rightarrow> string \<Rightarrow> time_t \<Rightarrow> AuthenticationCredentials \<Rightarrow> string \<Rightarrow> body_member list \<Rightarrow> NetworkRequest option" where
  "signed_request E uid now credentials address body = do {
     header \<leftarrow> generateHeader E uid now credentials address;
     let r1 = AddHeader ''Authorization'' header (NetworkRequest_new now address 0 PriorityDefault POST);
     let r2 = AddHeader ''User-Agent'' (ae_agent E) (AddHeader ''Content-Type'' ''application/json'' r1);
     Some (SetContent (Some (ae_write E body)) r2)
   }"

definition SignInClient ::
  "auth_env \<Rightarrow> string \<Rightarrow> time_t \<Rightarrow> AuthenticationCredentials \<Rightarrow> int \<Rightarrow> auth_client \<Rightarrow> (nat \<times> auth_client) option" where
  "SignInClient E uid now credentials expires_in st = do {
     request \<leftarrow> signed_request E uid now credentials (ac_server_url st @ ''/oauth2/token'') (generateClientBody (word_of_int expires_in));
     Some (auth_send request (KClient credentials) st)
   }"

definition HandleUserRequest ::
  "auth_env \<Rightarrow> string \<Rightarrow> time_t \<Rightarrow> AuthenticationCredentials \<Rightarrow> string \<Rightarrow> body_member list \<Rightarrow> auth_client \<Rightarrow> (nat \<times> auth_client) option" where
  "HandleUserRequest E uid now credentials endpoint request_body st = do {
     request \<leftarrow> signed_request E uid now credentials (ac_server_url st @ endpoint) request_body;
     Some (auth_send request (KUser credentials) st)
   }"

definition SignInHereUser :: "auth_env \<Rightarrow> string \<Rightarrow> time_t \<Rightarrow> AuthenticationCredentials \<Rightarrow> UserProperties \<Rightarrow> auth_client \<Rightarrow> (nat \<times> auth_client) option" where
  "SignInHereUser E uid now credentials p = HandleUserRequest E uid now credentials ''/oauth2/token'' (generateUserBody p)"

definition SignInRefresh :: "auth_env \<Rightarrow> string \<Rightarrow> time_t \<Rightarrow> AuthenticationCredentials \<Rightarrow> RefreshProperties \<Rightarrow> auth_client \<Rightarrow> (nat \<times> auth_client) option" where
  "SignInRefresh E uid now credentials p = HandleUserRequest E uid now credentials ''/oauth2/token'' (generateRefreshBody p)"

definition SignInFederated ::
  "auth_env \<Rightarrow> string \<Rightarrow> time_t \<Rightarrow> AuthenticationCredentials \<Rightarrow> FederatedSignInType \<Rightarrow> FederatedProperties \<Rightarrow> auth_client \<Rightarrow> (nat \<times> auth_client) option" where
  "SignInFederated E uid now credentials type p = HandleUserRequest E uid now credentials ''/oauth2/token'' (generateFederatedBody type p)"

definition AcceptTerms :: "auth_env \<Rightarrow> string \<Rightarrow> time_t \<Rightarrow> AuthenticationCredentials \<Rightarrow> string \<Rightarrow> auth_client \<Rightarrow> (nat \<times> auth_client) option" where
  "AcceptTerms E uid now credentials reacceptanceToken = HandleUserRequest E uid now credentials ''/terms'' (generateAcceptTermBody reacceptanceToken)"

definition SignUpHereUser :: "auth_env \<Rightarrow> string \<Rightarrow> time_t \<Rightarrow> AuthenticationCredentials \<Rightarrow> SignUpProperties \<Rightarrow> auth_client \<Rightarrow> (nat \<times> auth_client) option" where
  "SignUpHereUser E uid now credentials p st = do {
     request \<leftarrow> signed_request E uid now credentials (ac_server_url st @ ''/user'') (generateSignUpBody p);
     Some (auth_send request KSignUp st)
   }"

definition SignOut :: "auth_env \<Rightarrow> time_t \<Rightarrow> string \<Rightarrow> auth_client \<Rightarrow> nat \<times> auth_client" where
  "SignOut E now userAccessToken st =
     (let request = NetworkRequest_new now (ac_server_url st @ ''/logout'') 0 PriorityDefault POST;
          r1 = AddHeader ''Authorization'' (generateBearerHeader userAccessToken) request
      in auth_send (AddHeader ''User-Agent'' (ae_agent E) r1) KSignOut st)"

section \<open>Callbacks\<close>

definition client_callback ::
  "'v rapidjson \<Rightarrow> time_t \<Rightarrow> AuthenticationCredentials \<Rightarrow> int \<Rightarrow> string \<Rightarrow> string \<Rightarrow> auth_client \<Rightarrow> auth_client option" where
  "client_callback J now credentials response_status error_msg payload st =
     (let callback = (\<lambda>r st. st\<lparr>ac_answers := AClient credentials r # ac_answers st\<rparr>)
      in if response_status < 0 then
           if response_status = NetCancelled then Some (callback (Inl (AuthError_new NetCancelled error_msg)) st)
           else do {
             (it, c) \<leftarrow> Find (ac_client_cache st) (cred_key credentials);
             let st1 = st\<lparr>ac_client_cache := c\<rparr>;
             case iterator_value c it of
               Some r \<Rightarrow> Some (callback (Inr r) st1)
             | None \<Rightarrow> Some (callback (Inl (AuthError_new response_status error_msg)) st1)
           }
         else do {
           resp \<leftarrow> SignInResult_new J now response_status error_msg (Some (ParseStream J payload));
           if \<not> signin_valid resp then Some (callback (Inr resp) st)
           else if response_status = 200 then do {
             (_, c, _) \<leftarrow> InsertOrAssign (\<lambda>_. 1) (ac_client_cache st) (cred_key credentials) resp;
             Some (callback (Inr resp) (st\<lparr>ac_client_cache := c\<rparr>))
           } else Some (callback (Inr resp) st)
         })"

definition user_callback ::
  "'v rapidjson \<Rightarrow> time_t \<Rightarrow> AuthenticationCredentials \<Rightarrow> int \<Rightarrow> string \<Rightarrow> string \<Rightarrow> auth_client \<Rightarrow> auth_client option" where
  "user_callback J now credentials response_status error_msg payload st =
     (let callback = (\<lambda>r st. st\<lparr>ac_answers := AUser credentials r # ac_answers st\<rparr>)
      in if response_status < 0 then
           if response_status = NetCancelled then Some (callback (Inl (AuthError_new NetCancelled error_msg)) st)
           else do {
             (it, c) \<leftarrow> Find (ac_user_cache st) (cred_key credentials);
             let st1 = st\<lparr>ac_user_cache := c\<rparr>;
             case iterator_value c it of
               Some r \<Rightarrow> Some (callback (Inr r) st1)
             | None \<Rightarrow> do {
                 resp \<leftarrow> SignInUserResult_new J now response_status error_msg None;
                 Some (callback (Inr resp) st1)
               }
           }
         else do {
           resp \<leftarrow> SignInUserResult_new J now response_status error_msg (Some (ParseStream J payload));
           if \<not> signin_valid resp then Some (callback (Inr resp) st)
           else if response_status = 200 then do {
             (_, c, _) \<leftarrow> InsertOrAssign (\<lambda>_. 1) (ac_user_cache st) (cred_key credentials) resp;
             Some (callback (Inr resp) (st\<lparr>ac_user_cache := c\<rparr>))
           } else Some (callback (Inr resp) st)
         })"

definition signup_callback :: "'v rapidjson \<Rightarrow> int \<Rightarrow> string \<Rightarrow> string \<Rightarrow> auth_client \<Rightarrow> auth_client option" where
  "signup_callback J response_status error_msg payload st =
     (if response_status < 0 then Some (st\<lparr>ac_answers := ASignUp (Inl (AuthError_new response_status error_msg)) # ac_answers st\<rparr>)
      else do {
        resp \<leftarrow> SignUpResult_new J response_status error_msg (Some (ParseStream J payload));
        Some (st\<lparr>ac_answers := ASignUp (Inr resp) # ac_answers st\<rparr>)
      })"

definition signout_callback :: "'v rapidjson \<Rightarrow> int \<Rightarrow> string \<Rightarrow> string \<Rightarrow> auth_client \<Rightarrow> auth_client option" where
  "signout_callback J response_status error_msg payload st =
     (if response_status < 0 then Some (st\<lparr>ac_answers := ASignOut (Inl (AuthError_new response_status error_msg)) # ac_answers st\<rparr>)
      else do {
        resp \<leftarrow> SignOutResult_new J response_status error_msg (Some (ParseStream J payload));
        Some (st\<lparr>ac_answers := ASignOut (Inr resp) # ac_answers st\<rparr>)
      })"

text \<open>The network calls the callback of a request and drops it; with the last callback the network goes.\<close>

definition release_network :: "auth_client \<Rightarrow> auth_client" where
  "release_network st = (if ac_pending st = [] then st\<lparr>ac_network_ptr := None\<rparr> else st)"

definition auth_respond :: "'v rapidjson \<Rightarrow> nat \<Rightarrow> time_t \<Rightarrow> int \<Rightarrow> string \<Rightarrow> string \<Rightarrow> auth_client \<Rightarrow> auth_client option" where
  "auth_respond J request_id now response_status error_msg payload st =
     (case find (\<lambda>p. ap_id p = request_id) (ac_pending st) of
        None \<Rightarrow> Some st
      | Some p \<Rightarrow> do {
          st1 \<leftarrow> (case ap_kind p of
             KClient credentials \<Rightarrow> client_callback J now credentials response_status error_msg payload st
           | KUser credentials \<Rightarrow> user_callback J now credentials response_status error_msg payload st
           | KSignUp \<Rightarrow> signup_callback J response_status error_msg payload st
           | KSignOut \<Rightarrow> signout_callback J response_status error_msg payload st);
          Some (release_network (st1\<lparr>ac_pending := filter (\<lambda>q. ap_id q \<noteq> request_id) (ac_pending st1)\<rparr>))
        })"

section \<open>Runs\<close>

datatype auth_op =
    OpSignInClient string time_t AuthenticationCredentials int
  | OpSignInHereUser string time_t AuthenticationCredentials UserProperties
  | OpSignInRefresh string time_t AuthenticationCredentials RefreshProperties
  | OpSignInFederated string time_t AuthenticationCredentials FederatedSignInType FederatedProperties
  | OpAcceptTerms string time_t AuthenticationCredentials string
  | OpSignUp string time_t AuthenticationCredentials SignUpProperties
  | OpSignOut time_t string
  | OpSetProxy NetworkProxySettings
  | OpRespond nat time_t int string string

fun auth_step :: "'v rapidjson \<Rightarrow> auth_env \<Rightarrow> auth_client \<Rightarrow> auth_op \<Rightarrow> auth_client option" where
  "auth_step J E st (OpSignInClient uid now credentials expires) = map_option snd (SignInClient E uid now credentials expires st)"
| "auth_step J E st (OpSignInHereUser uid now credentials p) = map_option snd (SignInHereUser E uid now credentials p st)"
| "auth_step J E st (OpSignInRefresh uid now credentials p) = map_option snd (SignInRefresh E uid now credentials p st)"
| "auth_step J E st (OpSignInFederated uid now credentials t p) = map_option snd (SignInFederated E uid now credentials t p st)"
| "auth_step J E st (OpAcceptTerms uid now credentials token) = map_option snd (AcceptTerms E uid now credentials token st)"
| "auth_step J E st (OpSignUp uid now credentials p) = map_option snd (SignUpHereUser E uid now credentials p st)"
| "auth_step J E st (OpSignOut now token) = Some (snd (SignOut E now token st))"
| "auth_step J E st (OpSetProxy p) = Some (snd (SetNetworkProxySettings p st))"
| "auth_step J E st (OpRespond i now s e payload) = auth_respond J i now s e payload st"

inductive auth_reachable :: "'v rapidjson \<Rightarrow> auth_env \<Rightarrow> auth_client \<Rightarrow> bool" for J E where
  auth_created: "auth_reachable J E (AuthenticationClient_new u n)"
| auth_stepped: "auth_reachable J E st \<Longrightarrow> auth_step J E st op = Some st' \<Longrightarrow> auth_reachable J E st'"

section \<open>Lemmas\<close>

text \<open>The token caches, through the refinement of the cache.\<close>

lemma lru_find:
  assumes "lru_rel cost c (xs, mx)"
  obtains it c' where "Find c k = Some (it, c')" "iterator_value c' it = map_of xs k" "lru_rel cost c' (to_front k xs, mx)"
  using Find_refines [OF assms, of k] by (auto simp: map_option_case split: option.splits prod.splits)

lemma set_to_front: "set (to_front k xs) = set xs"
  by (auto simp: to_front_def)

lemma lru_assign:
  assumes "lru_rel cost c (xs, mx)"
  obtains res c' es ys where "InsertOrAssign cost c k v = Some (res, c', es)" "lru_rel cost c' (ys, mx)" "set ys \<subseteq> insert (k, v) (set xs)"
proof -
  have sub: "set (snd (spec_put cost mx zs)) \<subseteq> set zs" for zs
    using trim_subset [of cost mx zs] by (simp add: spec_put_def Let_def)
  have "set (fst (snd (spec_step cost (xs, mx) (OpInsertOrAssign k v)))) \<subseteq> insert (k, v) (set xs)"
    using sub [of "(k, v) # filter (\<lambda>x. fst x \<noteq> k) xs"] sub [of "(k, v) # xs"] by (auto simp: split_beta Let_def)
  moreover have "snd (snd (spec_step cost (xs, mx) (OpInsertOrAssign k v))) = mx" by (simp add: split_beta Let_def)
  ultimately show thesis
    using InsertOrAssign_refines [OF assms, of k v] that
    by (auto simp: map_option_case simp del: spec_step.simps split: option.splits prod.splits) (metis prod.collapse)
qed

lemma base_result_status: "BaseResult_new J s e d = Some b \<Longrightarrow> result_status b = s"
  by (auto simp: BaseResult_new_def Let_def split: option.splits if_splits Option.bind_splits)

lemma signin_result_status: "SignInResult_new J now 200 e d = Some r \<Longrightarrow> signin_valid r \<Longrightarrow> result_status r = 200"
  by (auto simp: SignInResult_new_def Let_def BaseResult.defs SignInResult.defs HasError_def dest!: base_result_status
      split: option.splits if_splits Option.bind_splits)

lemma user_result_status: "SignInUserResult_new J now 200 e d = Some r \<Longrightarrow> signin_valid r \<Longrightarrow> result_status r = 200"
  by (auto simp: SignInUserResult_new_def Let_def SignInResult.defs SignInUserResult.defs dest!: signin_result_status
      split: option.splits if_splits Option.bind_splits)

lemma signin_no_document: "\<exists>r. SignInUserResult_new J now s e None = Some r"
  by (simp add: SignInUserResult_new_def SignInResult_new_def BaseResult_new_def Let_def)

section \<open>The token caches\<close>

definition client_genuine :: "auth_client \<Rightarrow> string \<Rightarrow> SignInResult \<Rightarrow> bool" where
  "client_genuine st k r \<longleftrightarrow>
     (\<exists>cred. cred_key cred = k \<and> AClient cred (Inr r) \<in> set (ac_answers st)) \<and> result_status r = 200 \<and> signin_valid r"

definition user_genuine :: "auth_client \<Rightarrow> string \<Rightarrow> SignInUserResult \<Rightarrow> bool" where
  "user_genuine st k r \<longleftrightarrow>
     (\<exists>cred. cred_key cred = k \<and> AUser cred (Inr r) \<in> set (ac_answers st)) \<and> result_status r = 200 \<and> signin_valid r"

definition tokens_inv :: "auth_client \<Rightarrow> bool" where
  "tokens_inv st \<longleftrightarrow>
     (\<exists>xs mx. lru_rel (\<lambda>_. 1) (ac_client_cache st) (xs, mx) \<and> (\<forall>(k, r) \<in> set xs. client_genuine st k r)) \<and>
     (\<exists>xs mx. lru_rel (\<lambda>_. 1) (ac_user_cache st) (xs, mx) \<and> (\<forall>(k, r) \<in> set xs. user_genuine st k r))"

lemma tokens_inv_same:
  "tokens_inv st \<Longrightarrow> ac_client_cache st' = ac_client_cache st \<Longrightarrow> ac_user_cache st' = ac_user_cache st \<Longrightarrow>
   set (ac_answers st) \<subseteq> set (ac_answers st') \<Longrightarrow> tokens_inv st'"
  unfolding tokens_inv_def client_genuine_def user_genuine_def by fastforce

lemma auth_send_same:
  "ac_client_cache (snd (auth_send r k st)) = ac_client_cache st" "ac_user_cache (snd (auth_send r k st)) = ac_user_cache st"
  "ac_answers (snd (auth_send r k st)) = ac_answers st"
  by (simp_all add: auth_send_def GetScopedNetwork_def Let_def split: option.splits)

lemma auth_send_inv: "auth_send r k st = (i, st') \<Longrightarrow> tokens_inv st \<Longrightarrow> tokens_inv st'"
  using tokens_inv_same [of st st'] auth_send_same [of r k st] by simp

definition kept :: "auth_client \<Rightarrow> auth_client \<Rightarrow> bool" where
  "kept st st' \<longleftrightarrow> tokens_inv st' \<and> set (ac_answers st) \<subseteq> set (ac_answers st') \<and> ac_pending st' = ac_pending st"

lemma client_genuine_mono: "client_genuine st k r \<Longrightarrow> set (ac_answers st) \<subseteq> set (ac_answers st') \<Longrightarrow> client_genuine st' k r"
  unfolding client_genuine_def by blast

lemma user_genuine_mono: "user_genuine st k r \<Longrightarrow> set (ac_answers st) \<subseteq> set (ac_answers st') \<Longrightarrow> user_genuine st' k r"
  unfolding user_genuine_def by blast

lemma client_cache_found:
  assumes "tokens_inv st"
  obtains it c where "Find (ac_client_cache st) k = Some (it, c)" "\<And>r. iterator_value c it = Some r \<Longrightarrow> client_genuine st k r"
    "\<And>a. kept st (st\<lparr>ac_client_cache := c, ac_answers := a # ac_answers st\<rparr>)"
proof -
  obtain xs mx where xs: "lru_rel (\<lambda>_. 1) (ac_client_cache st) (xs, mx)" "\<forall>(k, r) \<in> set xs. client_genuine st k r"
    and u: "\<exists>xs mx. lru_rel (\<lambda>_. 1) (ac_user_cache st) (xs, mx) \<and> (\<forall>(k, r) \<in> set xs. user_genuine st k r)"
    using assms by (auto simp: tokens_inv_def)
  obtain it c where c: "Find (ac_client_cache st) k = Some (it, c)" "iterator_value c it = map_of xs k"
    "lru_rel (\<lambda>_. 1) c (to_front k xs, mx)" by (rule lru_find [OF xs(1)])
  have "\<forall>(k, r) \<in> set (to_front k xs). client_genuine (st\<lparr>ac_client_cache := c, ac_answers := a # ac_answers st\<rparr>) k r" for a
    using xs(2) by (auto simp: set_to_front intro: client_genuine_mono)
  then have "kept st (st\<lparr>ac_client_cache := c, ac_answers := a # ac_answers st\<rparr>)" for a
    using c(3) u unfolding kept_def tokens_inv_def by (fastforce intro: user_genuine_mono)
  moreover have "client_genuine st k r" if "iterator_value c it = Some r" for r
    using that c(2) xs(2) by (auto dest: map_of_SomeD)
  ultimately show thesis using c(1) that by blast
qed

lemma user_cache_found:
  assumes "tokens_inv st"
  obtains it c where "Find (ac_user_cache st) k = Some (it, c)" "\<And>r. iterator_value c it = Some r \<Longrightarrow> user_genuine st k r"
    "\<And>a. kept st (st\<lparr>ac_user_cache := c, ac_answers := a # ac_answers st\<rparr>)"
proof -
  obtain xs mx where xs: "lru_rel (\<lambda>_. 1) (ac_user_cache st) (xs, mx)" "\<forall>(k, r) \<in> set xs. user_genuine st k r"
    and u: "\<exists>xs mx. lru_rel (\<lambda>_. 1) (ac_client_cache st) (xs, mx) \<and> (\<forall>(k, r) \<in> set xs. client_genuine st k r)"
    using assms by (auto simp: tokens_inv_def)
  obtain it c where c: "Find (ac_user_cache st) k = Some (it, c)" "iterator_value c it = map_of xs k"
    "lru_rel (\<lambda>_. 1) c (to_front k xs, mx)" by (rule lru_find [OF xs(1)])
  have "\<forall>(k, r) \<in> set (to_front k xs). user_genuine (st\<lparr>ac_user_cache := c, ac_answers := a # ac_answers st\<rparr>) k r" for a
    using xs(2) by (auto simp: set_to_front intro: user_genuine_mono)
  then have "kept st (st\<lparr>ac_user_cache := c, ac_answers := a # ac_answers st\<rparr>)" for a
    using c(3) u unfolding kept_def tokens_inv_def by (fastforce intro: client_genuine_mono)
  moreover have "user_genuine st k r" if "iterator_value c it = Some r" for r
    using that c(2) xs(2) by (auto dest: map_of_SomeD)
  ultimately show thesis using c(1) that by blast
qed

lemma client_cache_assigned:
  assumes "tokens_inv st" "result_status r = 200" "signin_valid r"
  obtains res c es where "InsertOrAssign (\<lambda>_. 1) (ac_client_cache st) (cred_key cred) r = Some (res, c, es)"
    "kept st (st\<lparr>ac_client_cache := c, ac_answers := AClient cred (Inr r) # ac_answers st\<rparr>)"
proof -
  obtain xs mx where xs: "lru_rel (\<lambda>_. 1) (ac_client_cache st) (xs, mx)" "\<forall>(k, r) \<in> set xs. client_genuine st k r"
    and u: "\<exists>xs mx. lru_rel (\<lambda>_. 1) (ac_user_cache st) (xs, mx) \<and> (\<forall>(k, r) \<in> set xs. user_genuine st k r)"
    using assms(1) by (auto simp: tokens_inv_def)
  obtain res c es ys where c: "InsertOrAssign (\<lambda>_. 1) (ac_client_cache st) (cred_key cred) r = Some (res, c, es)"
    "lru_rel (\<lambda>_. 1) c (ys, mx)" "set ys \<subseteq> insert (cred_key cred, r) (set xs)" by (rule lru_assign [OF xs(1)])
  let ?st = "st\<lparr>ac_client_cache := c, ac_answers := AClient cred (Inr r) # ac_answers st\<rparr>"
  have "client_genuine ?st (cred_key cred) r" using assms(2,3) by (auto simp: client_genuine_def)
  then have "\<forall>(k, r) \<in> set ys. client_genuine ?st k r"
    using c(3) xs(2) client_genuine_mono [of st _ _ ?st] by fastforce
  then have "kept st ?st" using c(2) u unfolding kept_def tokens_inv_def by (fastforce intro: user_genuine_mono)
  then show thesis using c(1) that by blast
qed

lemma user_cache_assigned:
  assumes "tokens_inv st" "result_status r = 200" "signin_valid r"
  obtains res c es where "InsertOrAssign (\<lambda>_. 1) (ac_user_cache st) (cred_key cred) r = Some (res, c, es)"
    "kept st (st\<lparr>ac_user_cache := c, ac_answers := AUser cred (Inr r) # ac_answers st\<rparr>)"
proof -
  obtain xs mx where xs: "lru_rel (\<lambda>_. 1) (ac_user_cache st) (xs, mx)" "\<forall>(k, r) \<in> set xs. user_genuine st k r"
    and u: "\<exists>xs mx. lru_rel (\<lambda>_. 1) (ac_client_cache st) (xs, mx) \<and> (\<forall>(k, r) \<in> set xs. client_genuine st k r)"
    using assms(1) by (auto simp: tokens_inv_def)
  obtain res c es ys where c: "InsertOrAssign (\<lambda>_. 1) (ac_user_cache st) (cred_key cred) r = Some (res, c, es)"
    "lru_rel (\<lambda>_. 1) c (ys, mx)" "set ys \<subseteq> insert (cred_key cred, r) (set xs)" by (rule lru_assign [OF xs(1)])
  let ?st = "st\<lparr>ac_user_cache := c, ac_answers := AUser cred (Inr r) # ac_answers st\<rparr>"
  have "user_genuine ?st (cred_key cred) r" using assms(2,3) by (auto simp: user_genuine_def)
  then have "\<forall>(k, r) \<in> set ys. user_genuine ?st k r"
    using c(3) xs(2) user_genuine_mono [of st _ _ ?st] by fastforce
  then have "kept st ?st" using c(2) u unfolding kept_def tokens_inv_def by (fastforce intro: client_genuine_mono)
  then show thesis using c(1) that by blast
qed

lemma kept_answer: "tokens_inv st \<Longrightarrow> kept st (st\<lparr>ac_answers := a # ac_answers st\<rparr>)"
  by (auto simp: kept_def intro: tokens_inv_same)

lemma client_callback_kept:
  assumes "tokens_inv st" "client_callback J now cred s e payload st = Some st'"
  shows "kept st st'"
proof (cases "s < 0")
  case True
  obtain it c where "Find (ac_client_cache st) (cred_key cred) = Some (it, c)"
    "\<And>a. kept st (st\<lparr>ac_client_cache := c, ac_answers := a # ac_answers st\<rparr>)" using client_cache_found [OF assms(1)] by metis
  with True assms show ?thesis by (auto simp: client_callback_def Let_def kept_answer split: if_splits option.splits)
next
  case False
  then obtain r where r: "SignInResult_new J now s e (Some (ParseStream J payload)) = Some r"
    using assms(2) by (auto simp: client_callback_def Let_def split: Option.bind_splits)
  show ?thesis
  proof (cases "signin_valid r \<and> s = 200")
    case True
    then obtain res c es where "InsertOrAssign (\<lambda>_. 1) (ac_client_cache st) (cred_key cred) r = Some (res, c, es)"
      "kept st (st\<lparr>ac_client_cache := c, ac_answers := AClient cred (Inr r) # ac_answers st\<rparr>)"
      using client_cache_assigned [OF assms(1)] signin_result_status r by metis
    then show ?thesis using True r assms(2) by (auto simp: client_callback_def Let_def)
  next
    case other: False
    then show ?thesis using False r assms by (auto simp: client_callback_def Let_def kept_answer split: if_splits)
  qed
qed

lemma user_callback_kept:
  assumes "tokens_inv st" "user_callback J now cred s e payload st = Some st'"
  shows "kept st st'"
proof (cases "s < 0")
  case True
  obtain it c where "Find (ac_user_cache st) (cred_key cred) = Some (it, c)"
    "\<And>a. kept st (st\<lparr>ac_user_cache := c, ac_answers := a # ac_answers st\<rparr>)" using user_cache_found [OF assms(1)] by metis
  with True assms show ?thesis
    by (auto simp: user_callback_def Let_def kept_answer split: if_splits option.splits Option.bind_splits)
next
  case False
  then obtain r where r: "SignInUserResult_new J now s e (Some (ParseStream J payload)) = Some r"
    using assms(2) by (auto simp: user_callback_def Let_def split: Option.bind_splits)
  show ?thesis
  proof (cases "signin_valid r \<and> s = 200")
    case True
    then obtain res c es where "InsertOrAssign (\<lambda>_. 1) (ac_user_cache st) (cred_key cred) r = Some (res, c, es)"
      "kept st (st\<lparr>ac_user_cache := c, ac_answers := AUser cred (Inr r) # ac_answers st\<rparr>)"
      using user_cache_assigned [OF assms(1)] user_result_status r by metis
    then show ?thesis using True r assms(2) by (auto simp: user_callback_def Let_def)
  next
    case other: False
    then show ?thesis using False r assms by (auto simp: user_callback_def Let_def kept_answer split: if_splits)
  qed
qed

lemma other_callbacks_kept:
  "tokens_inv st \<Longrightarrow> signup_callback J s e payload st = Some st' \<Longrightarrow> kept st st'"
  "tokens_inv st \<Longrightarrow> signout_callback J s e payload st = Some st' \<Longrightarrow> kept st st'"
  by (auto simp: signup_callback_def signout_callback_def kept_answer split: if_splits Option.bind_splits)

lemma auth_step_inv:
  assumes "tokens_inv st" "auth_step J E st oper = Some st'"
  shows "tokens_inv st'"
proof (cases oper)
  case (OpRespond i now s e payload)
  show ?thesis
  proof (cases "find (\<lambda>p. ap_id p = i) (ac_pending st)")
    case None
    then show ?thesis using assms OpRespond by (simp add: auth_respond_def)
  next
    case (Some p)
    then obtain st1 where "kept st st1" "st' = release_network (st1\<lparr>ac_pending := filter (\<lambda>q. ap_id q \<noteq> i) (ac_pending st1)\<rparr>)"
      using assms OpRespond
      by (auto simp: auth_respond_def dest: client_callback_kept user_callback_kept other_callbacks_kept
        split: Option.bind_splits auth_kind.splits)
    then show ?thesis by (auto simp: kept_def release_network_def intro: tokens_inv_same)
  qed
next
  case (OpSetProxy p)
  then show ?thesis using assms by (auto simp: SetNetworkProxySettings_def Let_def intro: tokens_inv_same)
next
  case (OpSignOut now token)
  then show ?thesis using assms by (auto simp: SignOut_def Let_def auth_send_same intro: tokens_inv_same)
qed (use assms in \<open>auto simp: SignInClient_def SignInHereUser_def SignInRefresh_def SignInFederated_def AcceptTerms_def SignUpHereUser_def
    HandleUserRequest_def split: Option.bind_splits intro: auth_send_inv\<close>)

lemma auth_reachable_inv: "auth_reachable J E st \<Longrightarrow> tokens_inv st"
proof (induction rule: auth_reachable.induct)
  case (auth_created u n)
  show ?case
    unfolding tokens_inv_def AuthenticationClient_new_def by (auto intro!: exI [of _ "[]"] exI [of _ n] lru_rel_new)
qed (rule auth_step_inv)

section \<open>Requests\<close>

lemma base64Encode_all:
  assumes "boost_laws B"
  shows "base64Encode B bytes = Base64Encode B bytes"
  using base64_roundtrip [OF assms, of bytes] by (auto simp: base64Encode_def Let_def takeWhile_eq_all_conv)

lemma Url_Encode_unreserved: "(\<And>c. c \<in> set s \<Longrightarrow> unreserved c) \<Longrightarrow> Url_Encode s = s"
  unfolding Url_Encode_def by (induction s) auto

lemma signed_request_defined: "length (ae_heap E) = 48 \<Longrightarrow> \<exists>r. signed_request E uid now cred address body = Some r"
  by (simp add: signed_request_def generateHeader_def hmac_eq Let_def)

lemma lru_assign_new:
  assumes "lru_rel cost c ([], mx)" "cost v \<le> mx"
  obtains res c' es where "InsertOrAssign cost c k v = Some (res, c', es)" "lru_rel cost c' ([(k, v)], mx)"
proof -
  have "trim cost mx [(k, v)] = [(k, v)]" using assms(2) by (intro trim_id) simp
  then have "snd (spec_step cost ([], mx) (OpInsertOrAssign k v)) = ([(k, v)], mx)"
    using assms(2) by (auto simp: spec_put_def Let_def not_less)
  then show thesis
    using InsertOrAssign_refines [OF assms(1), of k v] that
    by (auto simp: map_option_case simp del: spec_step.simps split: option.splits prod.splits)
qed

section \<open>Properties\<close>

text \<open>C16: when the network is not available, the answer to a sign-in is defined. It is a result that an earlier sign-in with the
  same key was answered with status 200, or a failure with the network's code, and the callback is called once.\<close>

theorem offline_sign_in:
  assumes "auth_reachable J E st" "find (\<lambda>p. ap_id p = i) (ac_pending st) = Some p" "s < 0" "s \<noteq> NetCancelled"
  shows "\<exists>st'. auth_respond J i now s e payload st = Some st' \<and> ac_pending st' = filter (\<lambda>q. ap_id q \<noteq> i) (ac_pending st) \<and>
    (case ap_kind p of
       KClient cred \<Rightarrow> (\<exists>a. ac_answers st' = AClient cred a # ac_answers st \<and>
         (case a of Inl err \<Rightarrow> err = AuthError_new s e | Inr r \<Rightarrow> client_genuine st (cred_key cred) r))
     | KUser cred \<Rightarrow> (\<exists>r. ac_answers st' = AUser cred (Inr r) # ac_answers st \<and>
         (user_genuine st (cred_key cred) r \<or> SignInUserResult_new J now s e None = Some r))
     | KSignUp \<Rightarrow> ac_answers st' = ASignUp (Inl (AuthError_new s e)) # ac_answers st
     | KSignOut \<Rightarrow> ac_answers st' = ASignOut (Inl (AuthError_new s e)) # ac_answers st)"
proof (cases "ap_kind p")
  case (KClient cred)
  obtain it c where c: "Find (ac_client_cache st) (cred_key cred) = Some (it, c)"
    "\<And>r. iterator_value c it = Some r \<Longrightarrow> client_genuine st (cred_key cred) r"
    using client_cache_found [OF auth_reachable_inv [OF assms(1)]] by metis
  with KClient assms show ?thesis
    by (cases "iterator_value c it") (auto simp: auth_respond_def client_callback_def Let_def release_network_def)
next
  case (KUser cred)
  obtain it c where c: "Find (ac_user_cache st) (cred_key cred) = Some (it, c)"
    "\<And>r. iterator_value c it = Some r \<Longrightarrow> user_genuine st (cred_key cred) r"
    using user_cache_found [OF auth_reachable_inv [OF assms(1)]] by metis
  with KUser assms signin_no_document [of J now s e] show ?thesis
    by (cases "iterator_value c it") (auto simp: auth_respond_def user_callback_def Let_def release_network_def)
qed (use assms in \<open>simp_all add: auth_respond_def signup_callback_def signout_callback_def release_network_def\<close>)

definition example_auth_env :: auth_env where
  "example_auth_env = \<lparr>ae_boost = rfc4648, ae_write = \<lambda>_. ''{}'', ae_heap = replicate 48 0, ae_agent = ''sdk''\<rparr>"

definition example_credentials :: AuthenticationCredentials where
  "example_credentials = \<lparr>cred_key = ''key'', cred_secret = ''secret''\<rparr>"

lemma example_heap: "length (ae_heap example_auth_env) = 48"
  by (simp add: example_auth_env_def)

theorem offline_sign_in_witness:
  "\<exists>st st'. auth_step example_rapidjson example_auth_env (AuthenticationClient_new ''https://account'' 100)
       (OpSignInClient ''uid'' 7 example_credentials 0) = Some st \<and>
     auth_respond example_rapidjson 0 8 Offline ''offline'' [] st = Some st' \<and> ac_pending st' = []"
proof -
  obtain r where r: "signed_request example_auth_env ''uid'' 7 example_credentials (''https://account'' @ ''/oauth2/token'') (generateClientBody 0) = Some r"
    using signed_request_defined [OF example_heap] by blast
  define st where "st = snd (auth_send r (KClient example_credentials) (AuthenticationClient_new ''https://account'' 100))"
  have step: "auth_step example_rapidjson example_auth_env (AuthenticationClient_new ''https://account'' 100)
       (OpSignInClient ''uid'' 7 example_credentials 0) = Some st"
    using r by (auto simp: SignInClient_def st_def AuthenticationClient_new_def intro: prod.collapse [symmetric])
  have p: "ac_pending st = [\<lparr>ap_id = 0, ap_request = r, ap_kind = KClient example_credentials\<rparr>]"
    by (simp add: st_def auth_send_def GetScopedNetwork_def AuthenticationClient_new_def)
  obtain st' where "auth_respond example_rapidjson 0 8 Offline ''offline'' [] st = Some st'"
    "ac_pending st' = filter (\<lambda>q. ap_id q \<noteq> 0) (ac_pending st)"
    using offline_sign_in [OF auth_stepped [OF auth_created step], of 0 _ Offline 8 "''offline''" "[]"] p
    by (auto simp: network_codes)
  with step p show ?thesis by auto
qed

text \<open>The user token is cached for the key of the application alone: after one user has signed in, an offline sign-in of any other
  user of the application, with any password, is answered with the first user's token.\<close>

theorem user_token_shared:
  assumes "length (ae_heap E) = 48" "1 \<le> n" "s < 0" "s \<noteq> NetCancelled"
    and "SignInUserResult_new J now1 200 e1 (Some (ParseStream J payload1)) = Some r" "signin_valid r"
  shows "\<exists>st. fold_option (\<lambda>oper st. auth_step J E st oper)
      [OpSignInHereUser uid1 t1 cred user1, OpRespond 0 now1 200 e1 payload1, OpSignInHereUser uid2 t2 cred user2, OpRespond 1 now2 s e2 payload2]
      (AuthenticationClient_new u n) = Some st \<and> ac_answers st = [AUser cred (Inr r), AUser cred (Inr r)]"
proof -
  obtain r1 r2 where r: "signed_request E uid1 t1 cred (u @ ''/oauth2/token'') (generateUserBody user1) = Some r1"
    "signed_request E uid2 t2 cred (u @ ''/oauth2/token'') (generateUserBody user2) = Some r2"
    using signed_request_defined [OF assms(1)] by metis
  have new: "lru_rel (\<lambda>_. 1) (LruCache_new n :: (string, SignInUserResult) LruCache) ([], n)" by (rule lru_rel_new)
  obtain res c es where c: "InsertOrAssign (\<lambda>_. 1) (LruCache_new n) (cred_key cred) r = Some (res, c, es)"
    "lru_rel (\<lambda>_. 1) c ([(cred_key cred, r)], n)" using lru_assign_new [OF new, where v = r and k = "cred_key cred"] assms(2) by blast
  obtain it c2 where c2: "Find c (cred_key cred) = Some (it, c2)" "iterator_value c2 it = Some r"
    using lru_find [OF c(2), of "cred_key cred"] by (metis map_of_Cons_code(2))
  show ?thesis
    using r c(1) c2 assms(3-)
    by (simp add: SignInHereUser_def HandleUserRequest_def AuthenticationClient_new_def auth_send_def GetScopedNetwork_def
      auth_respond_def user_callback_def release_network_def network_codes)
qed

definition example_user_payload :: string where
  "example_user_payload = rj_Accept example_rapidjson
     (JObject [(''accessToken'', JString ''first''), (''tokenType'', JString ''bearer''), (''expiresIn'', JInt 3600)])"

lemma example_user_document:
  "doc_value (ParseStream example_rapidjson example_user_payload) =
     JObject [(''accessToken'', JString ''first''), (''tokenType'', JString ''bearer''), (''expiresIn'', JInt 3600)]"
  "doc_error (ParseStream example_rapidjson example_user_payload) = False"
  by (simp_all add: ParseStream_def example_user_payload_def example_rapidjson_def)

theorem user_token_shared_witness:
  "\<exists>st r. fold_option (\<lambda>oper st. auth_step example_rapidjson example_auth_env st oper)
      [OpSignInHereUser ''1'' 5 example_credentials \<lparr>user_email = ''alice'', user_password = ''a'', user_expires_in = 0\<rparr>,
       OpRespond 0 6 200 [] example_user_payload,
       OpSignInHereUser ''2'' 7 example_credentials \<lparr>user_email = ''bob'', user_password = ''wrong'', user_expires_in = 0\<rparr>,
       OpRespond 1 8 Offline [] []]
      (AuthenticationClient_new ''https://account'' 100) = Some st \<and>
     ac_answers st = [AUser example_credentials (Inr r), AUser example_credentials (Inr r)] \<and> access_token r = ''first''"
proof -
  let ?find = "rj_FindMember example_rapidjson"
  have members: "?find (JObject ms) k = Some (map_of ms k)" "rj_GetString example_rapidjson (JString x) = Some x"
    "rj_GetUint example_rapidjson (JInt n) = (if 0 \<le> n \<and> n < 2 ^ 32 then Some n else None)" for ms k x n
    by (simp_all add: example_rapidjson_def)
  obtain r where r: "SignInUserResult_new example_rapidjson 6 200 [] (Some (ParseStream example_rapidjson example_user_payload)) = Some r"
    "signin_valid r" "access_token r = ''first''"
    by (auto simp: SignInUserResult_new_def SignInResult_new_def BaseResult_new_def HasError_def HasMember_def string_if_def string_member_def
      uint_member_def example_user_document members BaseResult.defs SignInResult.defs SignInUserResult.defs Let_def cstr_def)
  have "1 \<le> (100 :: size_t)" "Offline < 0" "Offline \<noteq> NetCancelled" by (simp_all add: network_codes)
  from user_token_shared [OF example_heap this r(1,2)] r(3) show ?thesis by blast
qed

text \<open>C32: the signature in the header of a request is the whole base64 of the HMAC-SHA256, under the secret and an ampersand, of the
  method, the address and the parameters, which are encoded.\<close>

theorem oauth_signature:
  assumes "length (ae_heap E) = 48" "boost_laws (ae_boost E)"
  shows "generateHeader E uid now cred address = Some
    (''OAuth oauth_consumer_key='' @ quoted (Url_Encode (cred_key cred)) @ '',oauth_nonce='' @ quoted (Url_Encode uid) @
     '',oauth_signature_method='' @ quoted ''HMAC-SHA256'' @ '',oauth_timestamp='' @ quoted (to_string_int now) @
     '',oauth_version='' @ quoted ''1.0'' @ '',oauth_signature='' @ quoted (Url_Encode (Base64Encode (ae_boost E)
       (HMAC (toUnsignedCharVector (cred_secret cred @ ''&''))
         (toUnsignedCharVector (''POST&'' @ Url_Encode address @ ''&'' @ Url_Encode (oauth_query (cred_key cred) uid (to_string_int now))))))))"
proof -
  have "unreserved c" if "c \<in> set (to_string_int now)" for c
    using that to_string_int_chars [of c now] by (auto simp: unreserved_def char_between_def is_digit_def)
  then have "Url_Encode (to_string_int now) = to_string_int now" by (rule Url_Encode_unreserved)
  then show ?thesis
    by (simp add: generateHeader_def hmac_eq [OF assms(1)] base64Encode_all [OF assms(2)] Let_def)
qed

theorem oauth_signature_witness:
  "\<exists>signature. generateHeader example_auth_env ''uid'' 7 example_credentials ''https://account/oauth2/token'' =
     Some (''OAuth oauth_consumer_key='' @ quoted ''key'' @ '',oauth_nonce='' @ quoted ''uid'' @ '',oauth_signature_method='' @ quoted ''HMAC-SHA256'' @
       '',oauth_timestamp='' @ quoted (to_string_int 7) @ '',oauth_version='' @ quoted ''1.0'' @ '',oauth_signature='' @ quoted signature)"
proof -
  have "boost_laws (ae_boost example_auth_env)" by (simp add: example_auth_env_def rfc4648_laws)
  from oauth_signature [OF example_heap this, of "''uid''" 7 example_credentials] show ?thesis
    by (auto simp: example_credentials_def Url_Encode_def unreserved_def char_between_def)
qed

end
