(* ===== verification/Token_Refresh.thy ===== *)
theory Token_Refresh
  imports Authentication
begin

text \<open>
  Component authentication: \<open>TokenEndpoint.cpp\<close>, \<open>TokenResult.cpp\<close>, \<open>AutoRefreshingToken.cpp\<close> and \<open>TokenProvider.h\<close>.

  Times are nanoseconds of the system clock, which is read several times in one call; the readings are part of the
  call, with the answer the endpoint gives when it is asked. The state of an \<open>AutoRefreshingToken\<close> changes only in the
  section that holds its mutex and in the callback of an answer, so these are the steps of \<open>token_reachable\<close>; calls of
  several threads are sequences of such steps.

  Shown: a token that is returned without asking the endpoint is valid for longer than the smallest validity that was asked
  for, though not for the validity of this call; the address of the endpoint is put together as it was given.
\<close>

section \<open>The endpoint\<close>

record TokenResult =
  tr_access_token :: string
  tr_expiry_time :: time_t
  tr_http_status :: int
  tr_error :: ErrorResponse

text \<open>A response without success has the value \<open>TokenResult()\<close>, which is zero.\<close>

type_synonym TokenResponse = "AuthError + TokenResult"

definition TokenResult_new :: TokenResult where
  "TokenResult_new = \<lparr>tr_access_token = [], tr_expiry_time = 0, tr_http_status = 0, tr_error = \<lparr>er_code = 0, er_message = []\<rparr>\<rparr>"

definition token_result :: "TokenResponse \<Rightarrow> TokenResult" where
  "token_result resp = (case resp of Inr r \<Rightarrow> r | Inl _ \<Rightarrow> TokenResult_new)"

fun find_text :: "string \<Rightarrow> string \<Rightarrow> nat option" where
  "find_text p [] = (if p = [] then Some 0 else None)"
| "find_text p (c # s) = (if take (length p) (c # s) = p then Some 0 else map_option Suc (find_text p s))"

definition kOauth2TokenEndpoint :: string where
  "kOauth2TokenEndpoint = ''/oauth2/token''"

definition strip_endpoint :: "string \<Rightarrow> string" where
  "strip_endpoint address =
     (case find_text kOauth2TokenEndpoint address of
        Some pos \<Rightarrow> take pos address @ drop (pos + length kOauth2TokenEndpoint) address
      | None \<Rightarrow> address)"

record TokenSettings =
  ts_network_proxy_settings :: "NetworkProxySettings option"
  ts_token_endpoint_url :: string

record TokenEndpoint =
  te_auth_client :: auth_client
  te_auth_credentials :: AuthenticationCredentials

definition TokenEndpoint_new :: "AuthenticationCredentials \<Rightarrow> TokenSettings \<Rightarrow> TokenEndpoint" where
  "TokenEndpoint_new credentials settings =
     (let client = AuthenticationClient_new (strip_endpoint (ts_token_endpoint_url settings)) 100
      in \<lparr>te_auth_client = (case ts_network_proxy_settings settings of
             None \<Rightarrow> client | Some p \<Rightarrow> snd (SetNetworkProxySettings p client)),
          te_auth_credentials = credentials\<rparr>)"

definition RequestToken :: "auth_env \<Rightarrow> string \<Rightarrow> time_t \<Rightarrow> int \<Rightarrow> TokenEndpoint \<Rightarrow> (nat \<times> TokenEndpoint) option" where
  "RequestToken E uid now expires_in te = do {
     (i, c) \<leftarrow> SignInClient E uid now (te_auth_credentials te) expires_in (te_auth_client te);
     Some (i, te\<lparr>te_auth_client := c\<rparr>)
   }"

text \<open>The callback that turns the response of the sign-in into a response with a token.\<close>

definition token_response :: "AuthError + SignInResult \<Rightarrow> TokenResponse" where
  "token_response signInResponse =
     (case signInResponse of
        Inr r \<Rightarrow> Inr \<lparr>tr_access_token = access_token r, tr_expiry_time = expiry_time r, tr_http_status = result_status r,
                       tr_error = result_error r\<rparr>
      | Inl e \<Rightarrow> Inl e)"

section \<open>The token that refreshes itself\<close>

definition second :: int where "second = 10 ^ 9"

record AutoRefreshingToken =
  current_token :: TokenResponse
  token_refresh_time :: int

definition AutoRefreshingToken_new :: AutoRefreshingToken where
  "AutoRefreshingToken_new =
     \<lparr>current_token = Inl \<lparr>auth_code = ErrUnknown, auth_message = [], auth_retryable = False\<rparr>, token_refresh_time = 0\<rparr>"

definition shouldRefreshNow :: "int \<Rightarrow> AutoRefreshingToken \<Rightarrow> bool" where
  "shouldRefreshNow now a \<longleftrightarrow> now \<ge> token_refresh_time a"

definition forceRefresh :: "int \<Rightarrow> bool" where
  "forceRefresh minimumValidity \<longleftrightarrow> minimumValidity \<le> 0"

definition computeTokenRefreshTime :: "int \<Rightarrow> int \<Rightarrow> time_t \<Rightarrow> int \<Rightarrow> int" where
  "computeTokenRefreshTime now1 now2 expiryTime minimumValidity =
     (let expiryTimeChrono = expiryTime * second
      in if expiryTimeChrono \<le> now1 then now2 else expiryTimeChrono - minimumValidity * second)"

text \<open>A call: the validity, the readings of the clock in their order, and the answer of the endpoint.\<close>

record token_call =
  tc_validity :: int
  tc_now :: int
  tc_locked :: int
  tc_answer :: TokenResponse
  tc_expiry_now :: int
  tc_refresh_now :: int

definition token_answered :: "int \<Rightarrow> TokenResponse \<Rightarrow> int \<Rightarrow> int \<Rightarrow> AutoRefreshingToken \<Rightarrow> AutoRefreshingToken" where
  "token_answered minimumValidity resp now1 now2 a =
     (let a1 = a\<lparr>current_token := resp\<rparr>
      in a1\<lparr>token_refresh_time := computeTokenRefreshTime now1 now2 (tr_expiry_time (token_result (current_token a1))) minimumValidity\<rparr>)"

definition tryRefreshCurrentToken :: "token_call \<Rightarrow> AutoRefreshingToken \<Rightarrow> bool \<times> AutoRefreshingToken" where
  "tryRefreshCurrentToken c a =
     (if \<not> forceRefresh (tc_validity c) \<and> \<not> shouldRefreshNow (tc_locked c) a then (False, a)
      else (True, token_answered (tc_validity c) (tc_answer c) (tc_expiry_now c) (tc_refresh_now c) a))"

text \<open>The flag says whether the endpoint was asked.\<close>

definition getToken :: "token_call \<Rightarrow> AutoRefreshingToken \<Rightarrow> bool \<times> TokenResponse \<times> AutoRefreshingToken" where
  "getToken c a =
     (let (asked, a1) =
        (if forceRefresh (tc_validity c) \<or> shouldRefreshNow (tc_now c) a then tryRefreshCurrentToken c a else (False, a))
      in (asked, current_token a1, a1))"

text \<open>With a callback: the token at once, or \<open>None\<close> when the endpoint is asked and \<open>token_answered\<close> follows.\<close>

definition getToken_callback :: "int \<Rightarrow> int \<Rightarrow> int \<Rightarrow> AutoRefreshingToken \<Rightarrow> TokenResponse option" where
  "getToken_callback minimumValidity now locked a =
     (if forceRefresh minimumValidity \<or> shouldRefreshNow now a then
        if \<not> forceRefresh minimumValidity \<and> \<not> shouldRefreshNow locked a then Some (current_token a) else None
      else Some (current_token a))"

inductive token_reachable :: "int \<Rightarrow> int \<Rightarrow> AutoRefreshingToken \<Rightarrow> bool" for v where
  token_created: "token_reachable v 0 AutoRefreshingToken_new"
| token_locked: "token_reachable v T a \<Longrightarrow> v \<le> tc_validity c \<Longrightarrow> T \<le> tc_locked c \<Longrightarrow> tc_locked c \<le> tc_expiry_now c \<Longrightarrow>
    tc_expiry_now c \<le> tc_refresh_now c \<Longrightarrow> token_reachable v (tc_refresh_now c) (snd (tryRefreshCurrentToken c a))"
| token_callback: "token_reachable v T a \<Longrightarrow> v \<le> w \<Longrightarrow> T \<le> now1 \<Longrightarrow> now1 \<le> now2 \<Longrightarrow>
    token_reachable v now2 (token_answered w resp now1 now2 a)"

section \<open>The provider\<close>

definition IsTokenResponseOK :: "TokenResponse \<Rightarrow> bool" where
  "IsTokenResponseOK resp \<longleftrightarrow> (case resp of Inl _ \<Rightarrow> False | Inr _ \<Rightarrow> er_code (tr_error (token_result resp)) = 0)"

text \<open>\<open>operator()\<close> asks for the response twice.\<close>

definition provider_token :: "token_call \<Rightarrow> token_call \<Rightarrow> AutoRefreshingToken \<Rightarrow> string \<times> AutoRefreshingToken" where
  "provider_token c1 c2 a =
     (let (_, resp, a1) = getToken c1 a
      in case resp of
           Inr _ \<Rightarrow> (let (_, resp2, a2) = getToken c2 a1 in (tr_access_token (token_result resp2), a2))
         | Inl _ \<Rightarrow> ([], a1))"

definition provider_status :: "token_call \<Rightarrow> token_call \<Rightarrow> AutoRefreshingToken \<Rightarrow> int \<times> AutoRefreshingToken" where
  "provider_status c1 c2 a =
     (let (_, resp, a1) = getToken c1 a
      in case resp of
           Inr _ \<Rightarrow> (let (_, resp2, a2) = getToken c2 a1 in (tr_http_status (token_result resp2), a2))
         | Inl _ \<Rightarrow> (503, a1))"

section \<open>Lemmas\<close>

definition token_fresh :: "int \<Rightarrow> int \<Rightarrow> AutoRefreshingToken \<Rightarrow> bool" where
  "token_fresh v T a \<longleftrightarrow>
     (T < token_refresh_time a \<longrightarrow> (\<exists>r. current_token a = Inr r \<and> token_refresh_time a \<le> tr_expiry_time r * second - v * second))"

lemma token_answered_fresh:
  assumes "v \<le> w" "0 \<le> now1" "now1 \<le> now2"
  shows "token_fresh v now2 (token_answered w resp now1 now2 a)"
proof -
  have "v * second \<le> w * second" using assms(1) by (simp add: second_def)
  then show ?thesis using assms
    by (cases resp) (auto simp: token_fresh_def token_answered_def computeTokenRefreshTime_def token_result_def TokenResult_new_def Let_def)
qed

lemma token_fresh_later: "token_fresh v T a \<Longrightarrow> T \<le> T' \<Longrightarrow> token_fresh v T' a"
  by (auto simp: token_fresh_def)

lemma token_reachable_fresh: "token_reachable v T a \<Longrightarrow> 0 \<le> T \<and> token_fresh v T a"
proof (induction rule: token_reachable.induct)
  case token_created
  then show ?case by (simp add: token_fresh_def AutoRefreshingToken_new_def)
next
  case (token_locked T a c)
  then show ?case
    using token_answered_fresh [of v "tc_validity c" "tc_expiry_now c" "tc_refresh_now c" "tc_answer c" a]
      token_fresh_later [of v T a "tc_refresh_now c"]
    by (auto simp: tryRefreshCurrentToken_def)
next
  case (token_callback T a w now1 now2 resp)
  then show ?case using token_answered_fresh [of v w now1 now2 resp a] by auto
qed

section \<open>Properties\<close>



text \<open>The validity of the call that asked the endpoint decides, not that of the later calls: a token that expires in 90 seconds is
  returned to a caller that asks for 300.\<close>

theorem token_validity_of_last_refresh:
  "let c = \<lparr>tc_validity = 10, tc_now = 5 * second, tc_locked = 5 * second, tc_answer = Inr \<lparr>tr_access_token = ''t'', tr_expiry_time = 100,
        tr_http_status = 200, tr_error = \<lparr>er_code = 0, er_message = []\<rparr>\<rparr>, tc_expiry_now = 6 * second, tc_refresh_now = 6 * second\<rparr>;
       a = snd (tryRefreshCurrentToken c AutoRefreshingToken_new)
   in token_reachable 10 (6 * second) a \<and>
      getToken (c\<lparr>tc_validity := 300, tc_now := 10 * second, tc_locked := 10 * second\<rparr>) a = (False, tc_answer c, a)"
proof -
  let ?c = "\<lparr>tc_validity = 10, tc_now = 5 * second, tc_locked = 5 * second, tc_answer = Inr \<lparr>tr_access_token = ''t'', tr_expiry_time = 100,
        tr_http_status = 200, tr_error = \<lparr>er_code = 0, er_message = []\<rparr>\<rparr>, tc_expiry_now = 6 * second, tc_refresh_now = 6 * second\<rparr>"
  have "token_reachable 10 (6 * second) (snd (tryRefreshCurrentToken ?c AutoRefreshingToken_new))"
    using token_locked [OF token_created, of 10 ?c] by (simp add: second_def)
  then show ?thesis
    by (simp add: getToken_def tryRefreshCurrentToken_def token_answered_def computeTokenRefreshTime_def token_result_def
      forceRefresh_def shouldRefreshNow_def AutoRefreshingToken_new_def second_def)
qed

text \<open>A response that failed leads to a request at the next call.\<close>

lemma failed_response_retried:
  assumes "now1 \<le> now2" "0 \<le> now1" "now2 \<le> tc_now c" "now2 \<le> tc_locked c"
  shows "fst (getToken c (token_answered w (Inl err) now1 now2 a))"
  using assms by (auto simp: getToken_def tryRefreshCurrentToken_def token_answered_def computeTokenRefreshTime_def token_result_def
      TokenResult_new_def shouldRefreshNow_def Let_def)

text \<open>The provider takes a rejected request for a success when the answer names no error code, and gives an empty token.\<close>

lemma rejected_token_ok:
  "let r = \<lparr>tr_access_token = [], tr_expiry_time = 0, tr_http_status = 401, tr_error = \<lparr>er_code = 0, er_message = ''Unauthorized''\<rparr>\<rparr>
   in token_response (Inr \<lparr>base_valid = False, result_status = 401, result_error = \<lparr>er_code = 0, er_message = ''Unauthorized''\<rparr>,
        result_error_fields = [], signin_valid = False, access_token = [], token_type = [], expiry_time = 0, refresh_token = [],
        user_identifier = []\<rparr>) = Inr r \<and> IsTokenResponseOK (Inr r)"
  by (simp add: token_response_def IsTokenResponseOK_def token_result_def)

text \<open>A token is requested from the address that was configured.\<close>

lemma find_text_last: "find_text p (a @ p) = Some (length a) \<Longrightarrow> kOauth2TokenEndpoint = p \<Longrightarrow> strip_endpoint (a @ p) = a"
  by (simp add: strip_endpoint_def)

lemma send_url: "ap_request (last (ac_pending (snd (auth_send r k st)))) = r"
  by (simp add: auth_send_def Let_def)

lemma token_endpoint_address:
  assumes "find_text kOauth2TokenEndpoint (base @ kOauth2TokenEndpoint) = Some (length base)"
    and "ts_token_endpoint_url settings = base @ kOauth2TokenEndpoint"
    and "RequestToken E uid now expires (TokenEndpoint_new cred settings) = Some (i, te)"
  shows "url (ap_request (last (ac_pending (te_auth_client te)))) = ts_token_endpoint_url settings"
proof -
  let ?c = "te_auth_client (TokenEndpoint_new cred settings)"
  have u: "ac_server_url ?c = base"
    using assms(1,2) find_text_last [OF assms(1)]
    by (auto simp: TokenEndpoint_new_def AuthenticationClient_new_def SetNetworkProxySettings_def Let_def split: option.splits)
  have cr: "te_auth_credentials (TokenEndpoint_new cred settings) = cred" by (simp add: TokenEndpoint_new_def Let_def)
  obtain r where r: "signed_request E uid now cred (base @ ''/oauth2/token'') (generateClientBody (word_of_int expires)) = Some r"
    "te_auth_client te = snd (auth_send r (KClient cred) ?c)"
    using assms(3) u cr by (auto simp: RequestToken_def SignInClient_def split: Option.bind_splits prod.splits)
  have "url r = base @ ''/oauth2/token''"
    using r(1) by (auto simp: signed_request_def AddHeader_def SetContent_def NetworkRequest_new_def SetPriority_def split: Option.bind_splits)
  then show ?thesis using r(2) send_url [of r] assms(2) by (simp add: kOauth2TokenEndpoint_def)
qed

end
