(* ===== verification/Auto_Flush.thy ===== *)
theory Auto_Flush
  imports Stream_Layer
begin

text \<open>
  Component dataservice-write: \<open>AutoFlushController\<close> (\<open>olp-cpp-sdk-dataservice-write/src/AutoFlushController.cpp\<close>),
  which flushes the queue of a stream layer client after a number of requests, at intervals, at the end of a period and
  when the oldest request has waited long enough.

  The controller runs detached threads: timers that sleep and trigger a flush, flushes that register a background task,
  call \<open>Flush\<close> of the client and store its token, and the callbacks of those calls. The threads are lists of program
  points in the state, and the step relation \<open>flush_step\<close> interleaves their sections that hold a mutex. A timer that has
  slept runs in one step. Time is in milliseconds; it passes no further than a latency beyond the moment a timer is due.
  The client is seen by its queue size, by whether the weak pointer to it is alive, and by the results of its flushes,
  all of which may be anything at any moment. \<open>localtime\<close> is a parameter.

  Shown: the listener is told of every flush and of every result, background tasks are the flushes in progress, and no
  task is left when the threads are gone; a request does not wait longer than the interval for a flush to start; after
  \<open>Cancel\<close> the timers end. Also shown: a flush may begin after the future of \<open>Disable\<close> is ready, and a token stored
  after the callback of its flush stays in the map.
\<close>

section \<open>The state of the controller\<close>

text \<open>The program points of the detached threads: a timer sleeps until a time.\<close>

datatype timer = PeriodTimer int | IntervalTimer int | OldPartitionTimer int

fun timer_due :: "timer \<Rightarrow> int" where
  "timer_due (PeriodTimer t) = t"
| "timer_due (IntervalTimer t) = t"
| "timer_due (OldPartitionTimer t) = t"

text \<open>A thread of \<open>AddBackgroundFlushTask\<close> before \<open>AddTask\<close>, before \<open>Flush\<close>, and before \<open>AddCancelToken\<close>.\<close>

datatype flush_thread = FlushSpawned | FlushAdded size_t | FlushCalled size_t nat

text \<open>A flush of the client, and its callback after \<open>ReleaseTask\<close> and after \<open>RemoveCancelToken\<close>.\<close>

datatype flush_call = FlushRunning size_t | TaskReleased size_t "bool list" | TokenRemoved "bool list"

text \<open>
  The members of \<open>EnabledAutoFlushControllerImpl\<close>, the client, the clock, the threads and what happened: the times of
  the flush events, the calls of \<open>Flush\<close>, the cancelled calls, the task ids given out, the results delivered and whether
  the future of \<open>Disable\<close> is ready.
\<close>

record EnabledAutoFlushControllerImpl =
  client_alive :: bool
  client_queue_size :: nat
  controller_settings :: FlushSettings
  flush_listener :: "DefaultFlushEventListener option"
  partition_timestamp_queue :: "int list"
  background_task_col :: BackgroundTaskCollection
  cancel_token_map :: "(size_t \<times> nat) list"
  is_cancelled :: bool
  clock :: int
  timers :: "timer list"
  flush_threads :: "flush_thread list"
  flushes :: "flush_call list"
  flush_events :: "int list"
  flush_calls :: nat
  cancelled_flushes :: "nat list"
  ids_given :: nat
  results_delivered :: nat
  disable_waits :: nat
  disable_ready :: nat

definition EnabledAutoFlushControllerImpl_new ::
  "size_t \<Rightarrow> int \<Rightarrow> nat \<Rightarrow> FlushSettings \<Rightarrow> DefaultFlushEventListener option \<Rightarrow> EnabledAutoFlushControllerImpl" where
  "EnabledAutoFlushControllerImpl_new static_id now queue_size settings listener =
     \<lparr>client_alive = True, client_queue_size = queue_size, controller_settings = settings, flush_listener = listener,
      partition_timestamp_queue = [],
      background_task_col = \<lparr>task_id = static_id, background_tasks_ids = []\<rparr>,
      cancel_token_map = [], is_cancelled = False, clock = now, timers = [], flush_threads = [], flushes = [],
      flush_events = [], flush_calls = 0, cancelled_flushes = [], ids_given = 0, results_delivered = 0,
      disable_waits = 0, disable_ready = 0\<rparr>"

section \<open>The tokens\<close>

text \<open>\<open>std::map::insert\<close> keeps the token of an id that is there.\<close>

definition AddCancelToken :: "size_t \<Rightarrow> nat \<Rightarrow> EnabledAutoFlushControllerImpl \<Rightarrow> EnabledAutoFlushControllerImpl" where
  "AddCancelToken i cancel_token s =
     (if i \<in> fst ` set (cancel_token_map s) then s
      else s\<lparr>cancel_token_map := insort_key fst (i, cancel_token) (cancel_token_map s)\<rparr>)"

definition RemoveCancelToken :: "size_t \<Rightarrow> EnabledAutoFlushControllerImpl \<Rightarrow> EnabledAutoFlushControllerImpl" where
  "RemoveCancelToken i s = s\<lparr>cancel_token_map := filter (\<lambda>p. fst p \<noteq> i) (cancel_token_map s)\<rparr>"

definition Controller_Cancel :: "EnabledAutoFlushControllerImpl \<Rightarrow> EnabledAutoFlushControllerImpl" where
  "Controller_Cancel s = s\<lparr>cancelled_flushes := cancelled_flushes s @ map snd (cancel_token_map s), is_cancelled := True\<rparr>"

section \<open>Flush events\<close>

definition NotifyFlushEventStart :: "EnabledAutoFlushControllerImpl \<Rightarrow> EnabledAutoFlushControllerImpl" where
  "NotifyFlushEventStart s =
     s\<lparr>flush_listener := map_option NotifyFlushEventStarted (flush_listener s), flush_events := flush_events s @ [clock s]\<rparr>"

definition Controller_NotifyFlushEventResults :: "bool list \<Rightarrow> EnabledAutoFlushControllerImpl \<Rightarrow> EnabledAutoFlushControllerImpl" where
  "Controller_NotifyFlushEventResults outcome s =
     s\<lparr>flush_listener := map_option (NotifyFlushEventResults outcome) (flush_listener s),
       results_delivered := results_delivered s + 1\<rparr>"

definition AddBackgroundFlushTask :: "EnabledAutoFlushControllerImpl \<Rightarrow> bool \<times> EnabledAutoFlushControllerImpl" where
  "AddBackgroundFlushTask s =
     (if \<not> client_alive s then (False, s)
      else let s1 = NotifyFlushEventStart s in (True, s1\<lparr>flush_threads := flush_threads s1 @ [FlushSpawned]\<rparr>))"

text \<open>
  The sections of the thread that \<open>AddBackgroundFlushTask\<close> starts; \<open>before\<close> and \<open>after\<close> are the other threads.
\<close>

definition flush_thread_next :: "flush_thread \<Rightarrow> flush_thread list \<Rightarrow> flush_thread list \<Rightarrow> EnabledAutoFlushControllerImpl \<Rightarrow> EnabledAutoFlushControllerImpl" where
  "flush_thread_next t before after s =
     (case t of
        FlushSpawned \<Rightarrow>
          let (i, c) = BackgroundTask_AddTask (background_task_col s)
          in s\<lparr>background_task_col := c, ids_given := ids_given s + 1, flush_threads := before @ FlushAdded i # after\<rparr>
      | FlushAdded i \<Rightarrow>
          s\<lparr>flushes := flushes s @ [FlushRunning i], flush_calls := flush_calls s + 1,
            flush_threads := before @ FlushCalled i (flush_calls s) # after\<rparr>
      | FlushCalled i cancel_token \<Rightarrow> (AddCancelToken i cancel_token s)\<lparr>flush_threads := before @ after\<rparr>)"

text \<open>The callback of a flush, which the client calls once with the results.\<close>

definition flush_callback :: "bool list \<Rightarrow> flush_call \<Rightarrow> flush_call list \<Rightarrow> flush_call list \<Rightarrow> EnabledAutoFlushControllerImpl \<Rightarrow> EnabledAutoFlushControllerImpl" where
  "flush_callback outcome f before after s =
     (case f of
        FlushRunning i \<Rightarrow>
          s\<lparr>background_task_col := BackgroundTask_ReleaseTask i (background_task_col s),
            flushes := before @ TaskReleased i outcome # after\<rparr>
      | TaskReleased i answered \<Rightarrow> (RemoveCancelToken i s)\<lparr>flushes := before @ TokenRemoved answered # after\<rparr>
      | TokenRemoved answered \<Rightarrow> (Controller_NotifyFlushEventResults answered s)\<lparr>flushes := before @ after\<rparr>)"

section \<open>Triggers\<close>

definition sleep_then :: "timer \<Rightarrow> EnabledAutoFlushControllerImpl \<Rightarrow> EnabledAutoFlushControllerImpl" where
  "sleep_then t s = s\<lparr>timers := timers s @ [t]\<rparr>"

text \<open>\<open>QueueSize\<close> is a \<open>size_t\<close>, to which the setting, an \<open>int\<close>, is converted.\<close>

definition IsAutoFlushNumEventsRequired :: "EnabledAutoFlushControllerImpl \<Rightarrow> bool" where
  "IsAutoFlushNumEventsRequired s \<longleftrightarrow>
     client_alive s \<and> (of_int (auto_flush_num_events (controller_settings s)) :: size_t) \<le> of_nat (client_queue_size s)"

definition AutoFlushNumEvents :: "EnabledAutoFlushControllerImpl \<Rightarrow> EnabledAutoFlushControllerImpl" where
  "AutoFlushNumEvents s = (if IsAutoFlushNumEventsRequired s then snd (AddBackgroundFlushTask s) else s)"

definition TriggerAutoFlushPeriod :: "(int \<Rightarrow> broken_time) \<Rightarrow> EnabledAutoFlushControllerImpl \<Rightarrow> EnabledAutoFlushControllerImpl" where
  "TriggerAutoFlushPeriod localtime s =
     (case auto_flush_time_period (controller_settings s) of
        None \<Rightarrow> s
      | Some period \<Rightarrow> sleep_then (PeriodTimer (clock s + getDelayTillPeriod period (localtime (clock s)))) s)"

definition TriggerAutoFlushInterval :: "EnabledAutoFlushControllerImpl \<Rightarrow> EnabledAutoFlushControllerImpl" where
  "TriggerAutoFlushInterval s = sleep_then (IntervalTimer (clock s + 1000 * auto_flush_interval (controller_settings s))) s"

definition old_partition_interval :: "EnabledAutoFlushControllerImpl \<Rightarrow> int" where
  "old_partition_interval s = 1000 * auto_flush_old_events_force_flush_interval (controller_settings s)"

definition TriggerAutoFlushOldPartitionInterval_in :: "int \<Rightarrow> EnabledAutoFlushControllerImpl \<Rightarrow> EnabledAutoFlushControllerImpl" where
  "TriggerAutoFlushOldPartitionInterval_in ms s = sleep_then (OldPartitionTimer (clock s + ms)) s"

definition TriggerAutoFlushOldPartitionInterval :: "EnabledAutoFlushControllerImpl \<Rightarrow> EnabledAutoFlushControllerImpl" where
  "TriggerAutoFlushOldPartitionInterval s =
     TriggerAutoFlushOldPartitionInterval_in
       (old_partition_interval s - CalculateTimeSinceOldestPartition (clock s) (partition_timestamp_queue s)) s"

text \<open>The interval is positive where this is called, so the division is that of C++.\<close>

definition IsCloseEnough :: "int \<Rightarrow> int \<Rightarrow> int \<Rightarrow> bool" where
  "IsCloseEnough req current percentage \<longleftrightarrow> current > req - req * percentage div 100"

text \<open>What a timer does after it slept.\<close>

definition timer_wakes :: "(int \<Rightarrow> broken_time) \<Rightarrow> timer \<Rightarrow> EnabledAutoFlushControllerImpl \<Rightarrow> EnabledAutoFlushControllerImpl" where
  "timer_wakes localtime t s =
     (if is_cancelled s then s
      else case t of
        PeriodTimer _ \<Rightarrow>
          let (added, s1) = AddBackgroundFlushTask s in if added then TriggerAutoFlushPeriod localtime s1 else s1
      | IntervalTimer _ \<Rightarrow>
          let (added, s1) = AddBackgroundFlushTask s in if added then TriggerAutoFlushInterval s1 else s1
      | OldPartitionTimer _ \<Rightarrow>
          let time_since_oldest_partition_queued = CalculateTimeSinceOldestPartition (clock s) (partition_timestamp_queue s);
              partition_queue_flush_interval = old_partition_interval s
          in if IsCloseEnough partition_queue_flush_interval time_since_oldest_partition_queued 1
             then let (added, s1) = AddBackgroundFlushTask s
                  in if added then TriggerAutoFlushOldPartitionInterval_in partition_queue_flush_interval s1 else s1
             else TriggerAutoFlushOldPartitionInterval_in
                    (partition_queue_flush_interval - time_since_oldest_partition_queued) s)"

section \<open>The operations\<close>

definition InitialiseAutoFlushInterval :: "EnabledAutoFlushControllerImpl \<Rightarrow> EnabledAutoFlushControllerImpl" where
  "InitialiseAutoFlushInterval s = (if 0 < auto_flush_interval (controller_settings s) then TriggerAutoFlushInterval s else s)"

definition push_timestamps :: "nat \<Rightarrow> EnabledAutoFlushControllerImpl \<Rightarrow> EnabledAutoFlushControllerImpl" where
  "push_timestamps n s =
     s\<lparr>partition_timestamp_queue := PushPartitionTimestamps (clock s) (partition_timestamp_queue s) n\<rparr>"

definition old_partition_enabled :: "EnabledAutoFlushControllerImpl \<Rightarrow> bool" where
  "old_partition_enabled s \<longleftrightarrow> 0 < auto_flush_old_events_force_flush_interval (controller_settings s)"

definition InitialiseAutoFlushOldPartitionInterval :: "EnabledAutoFlushControllerImpl \<Rightarrow> EnabledAutoFlushControllerImpl" where
  "InitialiseAutoFlushOldPartitionInterval s =
     (if client_alive s \<and> old_partition_enabled s
      then TriggerAutoFlushOldPartitionInterval (push_timestamps (client_queue_size s) s) else s)"

definition InitialiseAutoFlushPeriod :: "(int \<Rightarrow> broken_time) \<Rightarrow> EnabledAutoFlushControllerImpl \<Rightarrow> EnabledAutoFlushControllerImpl" where
  "InitialiseAutoFlushPeriod localtime s =
     (if auto_flush_time_period (controller_settings s) \<noteq> None then TriggerAutoFlushPeriod localtime s else s)"

definition InitialiseAutoFlushPeriodic :: "(int \<Rightarrow> broken_time) \<Rightarrow> EnabledAutoFlushControllerImpl \<Rightarrow> EnabledAutoFlushControllerImpl" where
  "InitialiseAutoFlushPeriodic localtime s =
     InitialiseAutoFlushPeriod localtime (InitialiseAutoFlushOldPartitionInterval (InitialiseAutoFlushInterval s))"

definition Impl_Enable :: "(int \<Rightarrow> broken_time) \<Rightarrow> EnabledAutoFlushControllerImpl \<Rightarrow> EnabledAutoFlushControllerImpl" where
  "Impl_Enable localtime s = AutoFlushNumEvents (InitialiseAutoFlushPeriodic localtime s)"

text \<open>\<open>Disable\<close> cancels and starts a thread that waits for the background tasks.\<close>

definition Impl_Disable :: "EnabledAutoFlushControllerImpl \<Rightarrow> EnabledAutoFlushControllerImpl" where
  "Impl_Disable s = (Controller_Cancel s)\<lparr>disable_waits := disable_waits s + 1\<rparr>"

definition Impl_notify :: "flush_event \<Rightarrow> EnabledAutoFlushControllerImpl \<Rightarrow> EnabledAutoFlushControllerImpl" where
  "Impl_notify e s =
     (case e of
        QueueEventStart \<Rightarrow> if old_partition_enabled s then push_timestamps 1 s else s
      | QueueEventComplete \<Rightarrow> AutoFlushNumEvents s
      | FlushEvent \<Rightarrow>
          if old_partition_enabled s then s\<lparr>partition_timestamp_queue := queue_pop (partition_timestamp_queue s)\<rparr> else s)"

text \<open>The waiting thread of \<open>Disable\<close> goes on once no task is registered.\<close>

definition disable_wakes :: "EnabledAutoFlushControllerImpl \<Rightarrow> EnabledAutoFlushControllerImpl" where
  "disable_wakes s =
     (if BackgroundTask_Completed (background_task_col s) \<and> 0 < disable_waits s
      then s\<lparr>disable_waits := disable_waits s - 1, disable_ready := disable_ready s + 1\<rparr> else s)"

text \<open>The destructor, and whether it need not wait for a background task.\<close>

definition Impl_destruct :: "EnabledAutoFlushControllerImpl \<Rightarrow> bool \<times> EnabledAutoFlushControllerImpl" where
  "Impl_destruct s = (let s1 = Controller_Cancel s in (BackgroundTask_Completed (background_task_col s1), s1))"

section \<open>The controller\<close>

text \<open>
  \<open>impl_\<close>, where \<open>None\<close> is \<open>DisabledAutoFlushControllerImpl\<close>, and the implementations it had before, which live on in
  their threads. A new one goes on with the static counter of task ids.
\<close>

record AutoFlushController =
  flush_settings :: FlushSettings
  impl :: "EnabledAutoFlushControllerImpl option"
  retired :: "EnabledAutoFlushControllerImpl list"

definition AutoFlushController_new :: "FlushSettings \<Rightarrow> AutoFlushController" where
  "AutoFlushController_new settings = \<lparr>flush_settings = settings, impl = None, retired = []\<rparr>"

definition Controller_Enable ::
  "(int \<Rightarrow> broken_time) \<Rightarrow> size_t \<Rightarrow> int \<Rightarrow> nat \<Rightarrow> DefaultFlushEventListener option \<Rightarrow> AutoFlushController \<Rightarrow> AutoFlushController" where
  "Controller_Enable localtime static_id now queue_size listener c =
     (case impl c of
        Some _ \<Rightarrow> c
      | None \<Rightarrow> c\<lparr>impl := Some (Impl_Enable localtime
                   (EnabledAutoFlushControllerImpl_new static_id now queue_size (flush_settings c) listener))\<rparr>)"

text \<open>Whether the future is ready at once, and the controller.\<close>

definition Controller_Disable :: "AutoFlushController \<Rightarrow> bool \<times> AutoFlushController" where
  "Controller_Disable c =
     (case impl c of
        None \<Rightarrow> (True, c)
      | Some s \<Rightarrow> (False, c\<lparr>impl := None, retired := retired c @ [Impl_Disable s]\<rparr>))"

definition Controller_notify :: "flush_event \<Rightarrow> AutoFlushController \<Rightarrow> AutoFlushController" where
  "Controller_notify e c = c\<lparr>impl := map_option (Impl_notify e) (impl c)\<rparr>"

section \<open>Steps\<close>

text \<open>
  What may happen next. Time passes; the queue of the client changes or the client is destroyed; the client notifies the
  controller; another collection takes an id from the static counter; a thread, a callback or a timer goes on; \<open>Disable\<close>
  is called, or its waiting thread looks at the tasks.
\<close>

inductive flush_step :: "(int \<Rightarrow> broken_time) \<Rightarrow> int \<Rightarrow> EnabledAutoFlushControllerImpl \<Rightarrow> EnabledAutoFlushControllerImpl \<Rightarrow> bool"
  for localtime latency where
  time: "0 \<le> d \<Longrightarrow> \<forall>t \<in> set (timers s). clock s + d \<le> timer_due t + latency \<Longrightarrow>
    flush_step localtime latency s (s\<lparr>clock := clock s + d\<rparr>)"
| client: "alive \<longrightarrow> client_alive s \<Longrightarrow>
    flush_step localtime latency s (s\<lparr>client_alive := alive, client_queue_size := n\<rparr>)"
| notification: "flush_step localtime latency s (Impl_notify e s)"
| other_task: "flush_step localtime latency s
    (s\<lparr>background_task_col := (background_task_col s)\<lparr>task_id := task_id (background_task_col s) + 1\<rparr>, ids_given := ids_given s + 1\<rparr>)"
| thread: "flush_threads s = before @ t # after \<Longrightarrow> flush_step localtime latency s (flush_thread_next t before after s)"
| callback: "flushes s = before @ f # after \<Longrightarrow> flush_step localtime latency s (flush_callback outcome f before after s)"
| wake: "timers s = before @ t # after \<Longrightarrow> timer_due t \<le> clock s \<Longrightarrow>
    flush_step localtime latency s (timer_wakes localtime t (s\<lparr>timers := before @ after\<rparr>))"
| disable: "flush_step localtime latency s (Impl_Disable s)"
| ready: "flush_step localtime latency s (disable_wakes s)"

inductive flush_reachable :: "(int \<Rightarrow> broken_time) \<Rightarrow> int \<Rightarrow> EnabledAutoFlushControllerImpl \<Rightarrow> EnabledAutoFlushControllerImpl \<Rightarrow> bool"
  for localtime latency s0 where
  enabled: "flush_reachable localtime latency s0 (Impl_Enable localtime s0)"
| further: "flush_reachable localtime latency s0 s \<Longrightarrow> flush_step localtime latency s s' \<Longrightarrow> flush_reachable localtime latency s0 s'"

section \<open>Tasks and events\<close>

fun added_task :: "flush_thread \<Rightarrow> size_t list" where
  "added_task (FlushAdded i) = [i]"
| "added_task FlushSpawned = []"
| "added_task (FlushCalled i c) = []"

fun running_task :: "flush_call \<Rightarrow> size_t list" where
  "running_task (FlushRunning i) = [i]"
| "running_task (TaskReleased i r) = []"
| "running_task (TokenRemoved r) = []"

text \<open>The ids of the flushes that were registered and have not called back.\<close>

definition tasks_in_progress :: "EnabledAutoFlushControllerImpl \<Rightarrow> size_t list" where
  "tasks_in_progress s = concat (map added_task (flush_threads s)) @ concat (map running_task (flushes s))"

fun before_call :: "flush_thread \<Rightarrow> bool" where
  "before_call (FlushCalled i c) = False"
| "before_call FlushSpawned = True"
| "before_call (FlushAdded i) = True"

definition events_counted :: "EnabledAutoFlushControllerImpl \<Rightarrow> bool" where
  "events_counted s \<longleftrightarrow>
     length (flush_events s) = length (filter before_call (flush_threads s)) + length (flushes s) + results_delivered s"

definition listener_told :: "DefaultFlushEventListener option \<Rightarrow> EnabledAutoFlushControllerImpl \<Rightarrow> bool" where
  "listener_told l0 s \<longleftrightarrow>
     (case flush_listener s of
        None \<Rightarrow> l0 = None
      | Some l \<Rightarrow> l0 \<noteq> None \<and>
          num_flush_events_attempted l = num_flush_events_attempted (the l0) + of_nat (length (flush_events s)) \<and>
          num_flush_events l = num_flush_events (the l0) + of_nat (results_delivered s))"

definition ids_fresh :: "size_t \<Rightarrow> EnabledAutoFlushControllerImpl \<Rightarrow> bool" where
  "ids_fresh base s \<longleftrightarrow>
     task_id (background_task_col s) = base + of_nat (ids_given s) \<and>
     (\<forall>i \<in> set (background_tasks_ids (background_task_col s)). \<exists>k < ids_given s. i = base + of_nat k)"

definition tasks_inv :: "size_t \<Rightarrow> EnabledAutoFlushControllerImpl \<Rightarrow> bool" where
  "tasks_inv base s \<longleftrightarrow>
     ids_fresh base s \<and> distinct (background_tasks_ids (background_task_col s)) \<and>
     mset (background_tasks_ids (background_task_col s)) = mset (tasks_in_progress s)"

lemmas trigger_defs = sleep_then_def TriggerAutoFlushPeriod_def TriggerAutoFlushInterval_def
  TriggerAutoFlushOldPartitionInterval_in_def TriggerAutoFlushOldPartitionInterval_def push_timestamps_def

lemmas initialise_defs = InitialiseAutoFlushInterval_def InitialiseAutoFlushOldPartitionInterval_def
  InitialiseAutoFlushPeriod_def InitialiseAutoFlushPeriodic_def

text \<open>A state with the same tasks and events.\<close>

definition same_flushes :: "EnabledAutoFlushControllerImpl \<Rightarrow> EnabledAutoFlushControllerImpl \<Rightarrow> bool" where
  "same_flushes s s' \<longleftrightarrow>
     background_task_col s' = background_task_col s \<and> ids_given s' = ids_given s \<and> flush_threads s' = flush_threads s \<and>
     flushes s' = flushes s \<and> flush_events s' = flush_events s \<and> flush_listener s' = flush_listener s \<and>
     results_delivered s' = results_delivered s"

text \<open>One that differs in a flush event.\<close>

definition event_added :: "EnabledAutoFlushControllerImpl \<Rightarrow> EnabledAutoFlushControllerImpl \<Rightarrow> bool" where
  "event_added s s' \<longleftrightarrow>
     background_task_col s' = background_task_col s \<and> ids_given s' = ids_given s \<and>
     flush_threads s' = flush_threads s @ [FlushSpawned] \<and> flushes s' = flushes s \<and>
     (\<exists>now. flush_events s' = flush_events s @ [now]) \<and>
     flush_listener s' = map_option NotifyFlushEventStarted (flush_listener s) \<and> results_delivered s' = results_delivered s"

definition flushes_inv :: "size_t \<Rightarrow> DefaultFlushEventListener option \<Rightarrow> EnabledAutoFlushControllerImpl \<Rightarrow> bool" where
  "flushes_inv base l0 s \<longleftrightarrow> (ids_given s \<le> 2 ^ 64 \<longrightarrow> tasks_inv base s) \<and> events_counted s \<and> listener_told l0 s"

lemmas flushes_inv_defs = flushes_inv_def tasks_inv_def tasks_in_progress_def ids_fresh_def events_counted_def listener_told_def

lemma flushes_inv_same: "same_flushes s s' \<Longrightarrow> flushes_inv base l0 s \<Longrightarrow> flushes_inv base l0 s'"
  by (simp add: same_flushes_def flushes_inv_defs split: option.splits)

lemma flushes_inv_event: "event_added s s' \<Longrightarrow> flushes_inv base l0 s \<Longrightarrow> flushes_inv base l0 s'"
  by (auto simp: event_added_def flushes_inv_defs NotifyFlushEventStarted_def algebra_simps split: option.splits)

lemma AddBackgroundFlushTask_cases:
  obtains "AddBackgroundFlushTask s = (False, s)" "\<not> client_alive s"
  | s1 where "AddBackgroundFlushTask s = (True, s1)" "client_alive s" "event_added s s1"
  by (cases "client_alive s") (auto simp: AddBackgroundFlushTask_def NotifyFlushEventStart_def event_added_def Let_def)

lemma same_or_event_num: "same_flushes s (AutoFlushNumEvents s) \<or> event_added s (AutoFlushNumEvents s)"
  by (cases s rule: AddBackgroundFlushTask_cases) (auto simp: AutoFlushNumEvents_def same_flushes_def)

lemma same_or_event_wakes: "same_flushes s (timer_wakes localtime t s) \<or> event_added s (timer_wakes localtime t s)"
  by (cases s rule: AddBackgroundFlushTask_cases; cases t)
    (auto simp: timer_wakes_def same_flushes_def event_added_def trigger_defs Let_def split: option.splits)

lemma same_flushes_initialise: "same_flushes s (InitialiseAutoFlushPeriodic localtime s)"
  by (simp add: initialise_defs trigger_defs same_flushes_def split: option.splits)

lemma fresh_id:
  assumes "ids_fresh base s" and "ids_given s < 2 ^ 64"
  shows "task_id (background_task_col s) \<notin> set (background_tasks_ids (background_task_col s))"
proof
  assume "task_id (background_task_col s) \<in> set (background_tasks_ids (background_task_col s))"
  with assms(1) obtain k where k: "k < ids_given s" "(of_nat (ids_given s) :: size_t) = of_nat k"
    by (auto simp: ids_fresh_def)
  with assms(2) show False by (simp add: word_of_nat_eq_iff take_bit_nat_eq_self)
qed

lemma ids_fresh_next:
  assumes "ids_fresh base s" "task_id (background_task_col s') = task_id (background_task_col s) + 1" "ids_given s' = Suc (ids_given s)"
    "set (background_tasks_ids (background_task_col s')) \<subseteq> insert (task_id (background_task_col s)) (set (background_tasks_ids (background_task_col s)))"
  shows "ids_fresh base s'"
  using assms by (auto simp: ids_fresh_def algebra_simps less_Suc_eq dest!: subsetD)

lemma flushes_inv_thread:
  assumes "flush_threads s = before @ t # after" and "flushes_inv base l0 s"
  shows "flushes_inv base l0 (flush_thread_next t before after s)"
proof (cases t)
  case FlushSpawned
  with assms show ?thesis
    by (auto simp: flushes_inv_def tasks_inv_def flush_thread_next_def BackgroundTask_AddTask_def Let_def tasks_in_progress_def
        events_counted_def listener_told_def fresh_id split: option.splits intro: ids_fresh_next [of base s])
next
  case (FlushAdded i)
  with assms show ?thesis by (simp add: flushes_inv_defs flush_thread_next_def split: option.splits)
next
  case (FlushCalled i c)
  with assms show ?thesis
    by (simp add: flushes_inv_defs flush_thread_next_def AddCancelToken_def split: option.splits)
qed

lemma mset_filter_other: "distinct xs \<Longrightarrow> i \<in> set xs \<Longrightarrow> mset xs = add_mset i (mset (filter (\<lambda>j. j \<noteq> i) xs))"
proof (induction xs)
  case (Cons x xs)
  then have "filter (\<lambda>j. j \<noteq> x) xs = xs" by (auto simp: filter_id_conv)
  with Cons show ?case by (cases "x = i") (simp_all del: mset_filter)
qed simp

lemma flushes_inv_callback:
  assumes "flushes s = before @ f # after" and "flushes_inv base l0 s"
  shows "flushes_inv base l0 (flush_callback outcome f before after s)"
proof (cases f)
  case (FlushRunning i)
  have "mset (filter (\<lambda>j. j \<noteq> i) (background_tasks_ids (background_task_col s))) =
      mset (concat (map added_task (flush_threads s))) + mset (concat (map running_task before)) + mset (concat (map running_task after))"
    if "tasks_inv base s"
  proof -
    from that assms(1) FlushRunning have m: "mset (background_tasks_ids (background_task_col s)) =
        add_mset i (mset (concat (map added_task (flush_threads s))) + mset (concat (map running_task before)) + mset (concat (map running_task after)))"
      by (simp add: tasks_inv_def tasks_in_progress_def)
    then have "i \<in> set (background_tasks_ids (background_task_col s))"
      unfolding set_mset_mset [symmetric] by simp
    moreover from that have "distinct (background_tasks_ids (background_task_col s))" by (simp add: tasks_inv_def)
    ultimately show ?thesis using mset_filter_other [of "background_tasks_ids (background_task_col s)" i]
      unfolding m by (simp del: mset_filter)
  qed
  then have "tasks_inv base (flush_callback outcome f before after s)" if "tasks_inv base s"
    using that FlushRunning
    by (simp add: tasks_inv_def ids_fresh_def tasks_in_progress_def flush_callback_def BackgroundTask_ReleaseTask_def)
  with assms FlushRunning show ?thesis
    by (simp add: flushes_inv_def events_counted_def listener_told_def flush_callback_def split: option.splits)
next
  case (TaskReleased i r)
  with assms show ?thesis by (simp add: flushes_inv_defs flush_callback_def RemoveCancelToken_def split: option.splits)
next
  case (TokenRemoved r)
  with assms show ?thesis
    by (auto simp: flushes_inv_defs flush_callback_def Controller_NotifyFlushEventResults_def NotifyFlushEventResults_def
        CollateFlushEventResults_def Let_def algebra_simps split: option.splits)
qed

lemma flushes_inv_step:
  assumes "flush_step localtime latency s s'" and "flushes_inv base l0 s"
  shows "flushes_inv base l0 s'"
  using assms
proof cases
  case (notification e)
  have "same_flushes s s' \<or> event_added s s'"
    using same_or_event_num [of s] unfolding notification
    by (cases e) (auto simp: Impl_notify_def same_flushes_def push_timestamps_def)
  with assms(2) show ?thesis using flushes_inv_same flushes_inv_event by blast
next
  case other_task
  have "tasks_inv base s'" if "tasks_inv base s"
    using that ids_fresh_next [of base s s'] by (auto simp: other_task tasks_inv_def tasks_in_progress_def)
  with assms(2) show ?thesis
    by (auto simp: other_task flushes_inv_def events_counted_def listener_told_def split: option.splits)
next
  case (wake before t after)
  have "same_flushes s (s\<lparr>timers := before @ after\<rparr>)" by (simp add: same_flushes_def)
  with assms(2) have "flushes_inv base l0 (s\<lparr>timers := before @ after\<rparr>)" by (rule flushes_inv_same [rotated])
  then show ?thesis unfolding wake using same_or_event_wakes flushes_inv_same flushes_inv_event by blast
next
  case (thread before t after)
  with assms(2) show ?thesis by (simp add: flushes_inv_thread)
next
  case (callback before f after outcome)
  with assms(2) show ?thesis by (simp add: flushes_inv_callback)
qed (use assms(2) in \<open>auto elim!: flushes_inv_same [rotated]
      simp: same_flushes_def Impl_Disable_def Controller_Cancel_def disable_wakes_def\<close>)

lemma flushes_inv_reachable:
  "flush_reachable localtime latency (EnabledAutoFlushControllerImpl_new base now n settings l0) s \<Longrightarrow> flushes_inv base l0 s"
proof (induction rule: flush_reachable.induct)
  case enabled
  let ?s = "EnabledAutoFlushControllerImpl_new base now n settings l0"
  have "flushes_inv base l0 ?s" by (simp add: EnabledAutoFlushControllerImpl_new_def flushes_inv_defs split: option.splits)
  then have "flushes_inv base l0 (InitialiseAutoFlushPeriodic localtime ?s)"
    using same_flushes_initialise flushes_inv_same by blast
  then show ?case unfolding Impl_Enable_def using same_or_event_num flushes_inv_same flushes_inv_event by blast
qed (rule flushes_inv_step)

text \<open>The threads own the object, so its destructor runs after them, and then has nothing to wait for.\<close>

lemma destructor_does_not_wait:
  assumes "flush_reachable localtime latency (EnabledAutoFlushControllerImpl_new base now n settings l0) s" "ids_given s \<le> 2 ^ 64"
    and "flush_threads s = []" "flushes s = []"
  shows "fst (Impl_destruct s)"
  using flushes_inv_reachable [OF assms(1)] assms(2-)
  by (auto simp: flushes_inv_def tasks_inv_def tasks_in_progress_def Impl_destruct_def Controller_Cancel_def BackgroundTask_Completed_def)

section \<open>Waiting requests\<close>

text \<open>A flush began after a request was queued, and in time.\<close>

definition flushed_in_time :: "int \<Rightarrow> int \<Rightarrow> EnabledAutoFlushControllerImpl \<Rightarrow> bool" where
  "flushed_in_time latency q s \<longleftrightarrow> (\<exists>f \<in> set (flush_events s). q \<le> f \<and> f \<le> q + old_partition_interval s + latency)"

text \<open>The next look at the queue, for every request that no flush has begun for, is due before its interval is over.\<close>

definition look_due :: "int \<Rightarrow> EnabledAutoFlushControllerImpl \<Rightarrow> bool" where
  "look_due latency s \<longleftrightarrow>
     (\<exists>due. OldPartitionTimer due \<in> set (timers s) \<and> due \<le> clock s + old_partition_interval s \<and>
        (\<forall>q \<in> set (partition_timestamp_queue s). due \<le> q + old_partition_interval s \<or> flushed_in_time latency q s))"

definition stamps_ok :: "EnabledAutoFlushControllerImpl \<Rightarrow> bool" where
  "stamps_ok s \<longleftrightarrow> 0 < clock s \<and> sorted (partition_timestamp_queue s) \<and> (\<forall>q \<in> set (partition_timestamp_queue s). 0 < q \<and> q \<le> clock s)"

definition punctual :: "int \<Rightarrow> EnabledAutoFlushControllerImpl \<Rightarrow> bool" where
  "punctual latency s \<longleftrightarrow> (\<forall>due. OldPartitionTimer due \<in> set (timers s) \<longrightarrow> clock s \<le> due + latency)"

definition old_inv :: "int \<Rightarrow> EnabledAutoFlushControllerImpl \<Rightarrow> bool" where
  "old_inv latency s \<longleftrightarrow>
     stamps_ok s \<and> punctual latency s \<and> old_partition_enabled s \<and> (client_alive s \<and> \<not> is_cancelled s \<longrightarrow> look_due latency s)"

lemmas old_inv_defs = old_inv_def stamps_ok_def punctual_def look_due_def flushed_in_time_def old_partition_enabled_def
  old_partition_interval_def

text \<open>A state with the same queue, clock and timers.\<close>

definition same_waiting :: "EnabledAutoFlushControllerImpl \<Rightarrow> EnabledAutoFlushControllerImpl \<Rightarrow> bool" where
  "same_waiting s s' \<longleftrightarrow>
     controller_settings s' = controller_settings s \<and> partition_timestamp_queue s' = partition_timestamp_queue s \<and>
     clock s' = clock s \<and> set (timers s) \<subseteq> set (timers s') \<and>
     (\<forall>due. OldPartitionTimer due \<in> set (timers s') \<longrightarrow> OldPartitionTimer due \<in> set (timers s)) \<and>
     set (flush_events s) \<subseteq> set (flush_events s') \<and>
     (client_alive s' \<longrightarrow> client_alive s) \<and> (is_cancelled s \<longrightarrow> is_cancelled s')"

lemma same_waiting_interval: "same_waiting s s' \<Longrightarrow> old_partition_interval s' = old_partition_interval s"
  by (simp add: same_waiting_def old_partition_interval_def)

lemma flushed_in_time_same: "same_waiting s s' \<Longrightarrow> flushed_in_time latency q s \<Longrightarrow> flushed_in_time latency q s'"
  using same_waiting_interval [of s s'] by (auto simp: flushed_in_time_def same_waiting_def)

lemma look_due_same: "same_waiting s s' \<Longrightarrow> look_due latency s \<Longrightarrow> look_due latency s'"
  unfolding look_due_def by (metis flushed_in_time_same same_waiting_interval same_waiting_def subsetD)

lemma old_inv_same: "same_waiting s s' \<Longrightarrow> old_inv latency s \<Longrightarrow> old_inv latency s'"
  using look_due_same [of s s'] by (auto simp: old_inv_def stamps_ok_def punctual_def old_partition_enabled_def same_waiting_def)

lemma same_waiting_add: "same_waiting s (snd (AddBackgroundFlushTask s))"
  by (auto simp: AddBackgroundFlushTask_def NotifyFlushEventStart_def same_waiting_def Let_def)

lemma same_waiting_num: "same_waiting s (AutoFlushNumEvents s)"
  using same_waiting_add [of s] by (simp add: AutoFlushNumEvents_def same_waiting_def)

lemma oldest: "stamps_ok s \<Longrightarrow> q \<in> set (partition_timestamp_queue s) \<Longrightarrow>
    clock s - q \<le> CalculateTimeSinceOldestPartition (clock s) (partition_timestamp_queue s)"
  by (cases "partition_timestamp_queue s") (auto simp: stamps_ok_def CalculateTimeSinceOldestPartition_def queue_top_def)

lemma oldest_nonneg: "stamps_ok s \<Longrightarrow> 0 \<le> CalculateTimeSinceOldestPartition (clock s) (partition_timestamp_queue s)"
  by (cases "partition_timestamp_queue s") (auto simp: stamps_ok_def CalculateTimeSinceOldestPartition_def queue_top_def)

text \<open>A look that finds the oldest request young enough: the next is due when that request has waited for the interval.\<close>

lemma old_inv_rescheduled:
  assumes "stamps_ok s" "punctual latency s" "old_partition_enabled s" "0 \<le> latency"
    and "t = old_partition_interval s - CalculateTimeSinceOldestPartition (clock s) (partition_timestamp_queue s)" "0 \<le> t"
  shows "old_inv latency (TriggerAutoFlushOldPartitionInterval_in t s)"
proof -
  have "clock s + t \<le> q + old_partition_interval s" if "q \<in> set (partition_timestamp_queue s)" for q
    using oldest [OF assms(1) that] assms(5) by simp
  moreover have "clock s + t \<le> clock s + old_partition_interval s" using oldest_nonneg [OF assms(1)] assms(5) by simp
  ultimately show ?thesis
    using assms by (auto simp: TriggerAutoFlushOldPartitionInterval_in_def sleep_then_def old_inv_defs)
qed

text \<open>A look that starts a flush: it is in time for every request of the queue.\<close>

lemma old_inv_flushed:
  assumes "stamps_ok s" "punctual latency s" "old_partition_enabled s" "0 \<le> latency"
    and "\<forall>q \<in> set (partition_timestamp_queue s). clock s \<le> q + old_partition_interval s + latency \<or> flushed_in_time latency q s"
    and "clock s \<in> set (flush_events s)"
  shows "old_inv latency (TriggerAutoFlushOldPartitionInterval_in (old_partition_interval s) s)"
proof -
  have "flushed_in_time latency q s" if "q \<in> set (partition_timestamp_queue s)" for q
    using assms(1,5,6) that by (auto simp: flushed_in_time_def stamps_ok_def)
  with assms show ?thesis
    by (auto simp: TriggerAutoFlushOldPartitionInterval_in_def sleep_then_def old_inv_defs)
qed

text \<open>The timer that wakes is gone from the list when it runs; \<open>clock\<close> is at most a latency after it was due.\<close>

lemma old_inv_wakes_old:
  assumes inv: "old_inv latency s" and latency: "0 \<le> latency" and s1: "s1 = s\<lparr>timers := ts\<rparr>" "set ts \<subseteq> set (timers s)"
  shows "old_inv latency (timer_wakes localtime (OldPartitionTimer due) s1)"
proof (cases "is_cancelled s1 \<or> \<not> client_alive s1")
  case True
  with inv latency s1 show ?thesis
    by (auto simp: old_inv_defs timer_wakes_def AddBackgroundFlushTask_def trigger_defs Let_def IsCloseEnough_def)
next
  case False
  let ?age = "CalculateTimeSinceOldestPartition (clock s1) (partition_timestamp_queue s1)"
  let ?s2 = "snd (AddBackgroundFlushTask s1)"
  from inv s1 have ok: "stamps_ok s1" "punctual latency s1" "old_partition_enabled s1"
    by (auto simp: old_inv_def stamps_ok_def punctual_def old_partition_enabled_def)
  show ?thesis
  proof (cases "IsCloseEnough (old_partition_interval s1) ?age 1")
    case True
    from inv False s1 obtain next_look where n: "OldPartitionTimer next_look \<in> set (timers s)" "clock s \<le> next_look + latency"
      "\<forall>q \<in> set (partition_timestamp_queue s). next_look \<le> q + old_partition_interval s \<or> flushed_in_time latency q s"
      by (auto simp: old_inv_def look_due_def punctual_def)
    have "clock s1 \<le> q + old_partition_interval s1 + latency \<or> flushed_in_time latency q s1"
      if "q \<in> set (partition_timestamp_queue s1)" for q
      using n(2,3) that s1(1) by (fastforce simp: flushed_in_time_def old_partition_interval_def)
    moreover have s2: "clock ?s2 \<in> set (flush_events ?s2)" "controller_settings ?s2 = controller_settings s1"
      "timers ?s2 = timers s1" "clock ?s2 = clock s1" "partition_timestamp_queue ?s2 = partition_timestamp_queue s1"
      using False by (auto simp: AddBackgroundFlushTask_def NotifyFlushEventStart_def Let_def)
    ultimately have "\<forall>q \<in> set (partition_timestamp_queue ?s2). clock ?s2 \<le> q + old_partition_interval ?s2 + latency \<or> flushed_in_time latency q ?s2"
      using flushed_in_time_same [OF same_waiting_add] by (fastforce simp: old_partition_interval_def)
    with ok latency s2 have "old_inv latency (TriggerAutoFlushOldPartitionInterval_in (old_partition_interval ?s2) ?s2)"
      by (intro old_inv_flushed) (simp_all add: stamps_ok_def punctual_def old_partition_enabled_def)
    with True False show ?thesis
      by (simp add: timer_wakes_def AddBackgroundFlushTask_def NotifyFlushEventStart_def Let_def old_partition_interval_def)
  next
    case later: False
    from ok(3) later have "0 \<le> old_partition_interval s1 - ?age"
      by (simp add: IsCloseEnough_def old_partition_enabled_def old_partition_interval_def)
    with ok latency have "old_inv latency (TriggerAutoFlushOldPartitionInterval_in (old_partition_interval s1 - ?age) s1)"
      by (intro old_inv_rescheduled) simp_all
    with later False show ?thesis by (simp add: timer_wakes_def Let_def)
  qed
qed

lemma old_inv_wakes:
  assumes "old_inv latency s" "0 \<le> latency" "timers s = before @ t # after"
  shows "old_inv latency (timer_wakes localtime t (s\<lparr>timers := before @ after\<rparr>))"
proof (cases "\<exists>due. t = OldPartitionTimer due")
  case True
  with assms show ?thesis by (auto intro!: old_inv_wakes_old [where s = s])
next
  case False
  let ?s1 = "s\<lparr>timers := before @ after\<rparr>"
  have "old_inv latency ?s1"
    using assms False by (auto simp: old_inv_defs)
  moreover have "same_waiting ?s1 (timer_wakes localtime t ?s1)"
    using False by (cases t)
      (auto simp: timer_wakes_def AddBackgroundFlushTask_def NotifyFlushEventStart_def same_waiting_def trigger_defs Let_def
        split: option.splits)
  ultimately show ?thesis using old_inv_same by blast
qed

lemma sorted_drop_stamps: "stamps_ok s \<Longrightarrow> stamps_ok (s\<lparr>partition_timestamp_queue := queue_pop (partition_timestamp_queue s)\<rparr>)"
  by (cases "partition_timestamp_queue s") (auto simp: stamps_ok_def queue_pop_def)

lemma set_queue_pop: "q \<in> set (queue_pop v) \<Longrightarrow> q \<in> set v"
  by (cases v) (auto simp: queue_pop_def)

lemma old_inv_notify:
  assumes "old_inv latency s" "0 \<le> latency"
  shows "old_inv latency (Impl_notify e s)"
proof (cases e)
  case QueueEventStart
  with assms show ?thesis
    by (auto simp: Impl_notify_def push_timestamps_def PushPartitionTimestamps_def queue_emplace_count_def old_inv_defs sorted_append)
next
  case QueueEventComplete
  with assms show ?thesis by (simp add: Impl_notify_def old_inv_same [OF same_waiting_num])
next
  case FlushEvent
  have "look_due latency (s\<lparr>partition_timestamp_queue := queue_pop (partition_timestamp_queue s)\<rparr>)" if "look_due latency s"
    using that by (fastforce simp: look_due_def flushed_in_time_def old_partition_interval_def dest: set_queue_pop)
  with assms FlushEvent sorted_drop_stamps [of s] show ?thesis
    by (auto simp: Impl_notify_def old_inv_def punctual_def old_partition_enabled_def)
qed

lemma old_inv_time:
  assumes "old_inv latency s" "0 \<le> d" "\<forall>t \<in> set (timers s). clock s + d \<le> timer_due t + latency"
  shows "old_inv latency (s\<lparr>clock := clock s + d\<rparr>)"
  using assms by (fastforce simp: old_inv_defs)

lemma old_inv_step:
  assumes "flush_step localtime latency s s'" and "old_inv latency s" and "0 \<le> latency"
  shows "old_inv latency s'"
  using assms(1)
proof cases
  case (time d)
  with assms old_inv_time show ?thesis by simp
next
  case (notification e)
  with assms old_inv_notify show ?thesis by simp
next
  case (wake before t after)
  with assms old_inv_wakes show ?thesis by simp
next
  case (thread before t after)
  have "same_waiting s s'"
    unfolding thread by (cases t) (auto simp: flush_thread_next_def BackgroundTask_AddTask_def AddCancelToken_def same_waiting_def Let_def)
  with assms show ?thesis using old_inv_same by blast
next
  case (callback before f after outcome)
  have "same_waiting s s'"
    unfolding callback by (cases f) (auto simp: flush_callback_def RemoveCancelToken_def Controller_NotifyFlushEventResults_def same_waiting_def)
  with assms show ?thesis using old_inv_same by blast
qed (use assms in \<open>auto intro!: old_inv_same [of s] simp: same_waiting_def Impl_Disable_def Controller_Cancel_def disable_wakes_def\<close>)

lemma old_inv_enabled:
  assumes "0 < now" "0 \<le> latency" "0 < auto_flush_old_events_force_flush_interval settings"
  shows "old_inv latency (Impl_Enable localtime (EnabledAutoFlushControllerImpl_new base now n settings l0))"
proof -
  let ?s = "InitialiseAutoFlushPeriodic localtime (EnabledAutoFlushControllerImpl_new base now n settings l0)"
  have "old_inv latency ?s"
    using assms by (auto simp: EnabledAutoFlushControllerImpl_new_def initialise_defs trigger_defs old_inv_defs
        PushPartitionTimestamps_def queue_emplace_count_def CalculateTimeSinceOldestPartition_def queue_top_def Let_def split: option.splits)
  then show ?thesis unfolding Impl_Enable_def using same_waiting_num old_inv_same by blast
qed

lemma old_inv_reachable:
  assumes "0 < now" "0 \<le> latency" "0 < auto_flush_old_events_force_flush_interval settings"
    and "flush_reachable localtime latency (EnabledAutoFlushControllerImpl_new base now n settings l0) s"
  shows "old_inv latency s"
  using assms(4) by (induction rule: flush_reachable.induct) (use assms(1-3) old_inv_enabled old_inv_step in blast)+

lemma old_interval_reachable:
  assumes "flush_reachable localtime latency (EnabledAutoFlushControllerImpl_new base now n settings l0) s"
  shows "controller_settings s = settings"
  using assms
proof (induction rule: flush_reachable.induct)
  case enabled
  show ?case
    by (simp add: EnabledAutoFlushControllerImpl_new_def Impl_Enable_def AutoFlushNumEvents_def AddBackgroundFlushTask_def
        NotifyFlushEventStart_def initialise_defs trigger_defs Let_def split: option.splits)
next
  case (further s s')
  from further.hyps(2) have "controller_settings s' = controller_settings s"
    by cases (auto simp: Impl_notify_def AutoFlushNumEvents_def timer_wakes_def flush_thread_next_def flush_callback_def
        AddBackgroundFlushTask_def NotifyFlushEventStart_def trigger_defs Let_def AddCancelToken_def RemoveCancelToken_def
        BackgroundTask_AddTask_def Controller_NotifyFlushEventResults_def Impl_Disable_def Controller_Cancel_def disable_wakes_def
        split: option.splits flush_event.splits timer.splits flush_thread.splits flush_call.splits)
  with further.IH show ?case by simp
qed

section \<open>After a cancellation\<close>

lemma cancelled_timers_end:
  assumes "flush_step localtime latency s s'" "is_cancelled s"
  shows "is_cancelled s' \<and> (timers s' = timers s \<or> length (timers s') < length (timers s))"
  using assms
  by cases (auto simp: Impl_notify_def AutoFlushNumEvents_def timer_wakes_def flush_thread_next_def flush_callback_def
      AddBackgroundFlushTask_def NotifyFlushEventStart_def push_timestamps_def Let_def AddCancelToken_def RemoveCancelToken_def
      BackgroundTask_AddTask_def Controller_NotifyFlushEventResults_def Impl_Disable_def Controller_Cancel_def disable_wakes_def
      split: option.splits flush_event.splits flush_thread.splits flush_call.splits)

section \<open>Examples\<close>

definition example_localtime :: "int \<Rightarrow> broken_time" where
  "example_localtime t = \<lparr>tm_wday = 0, tm_hour = 0, tm_min = 0, tm_sec = (t div 1000) mod 60\<rparr>"

definition waiting_settings :: FlushSettings where
  "waiting_settings = example_flush_settings\<lparr>auto_flush_old_events_force_flush_interval := 10\<rparr>"

definition example_listener :: DefaultFlushEventListener where
  "example_listener = \<lparr>num_flush_events_attempted = 0, num_flush_events_failed = 0, num_flush_events = 0,
     total_flush_requests = 0, num_flush_requests_failed = 0\<rparr>"

text \<open>A controller whose client has as many requests as trigger a flush, with the thread of the flush started.\<close>

definition full_queue :: EnabledAutoFlushControllerImpl where
  "full_queue = EnabledAutoFlushControllerImpl_new 0 1000 20 waiting_settings (Some example_listener)"

definition full_started :: EnabledAutoFlushControllerImpl where
  "full_started = Impl_Enable example_localtime full_queue"

lemmas example_flush_defs = full_started_def full_queue_def waiting_settings_def example_flush_settings_def
  EnabledAutoFlushControllerImpl_new_def Impl_Enable_def AutoFlushNumEvents_def IsAutoFlushNumEventsRequired_def
  AddBackgroundFlushTask_def NotifyFlushEventStart_def initialise_defs trigger_defs PushPartitionTimestamps_def
  queue_emplace_count_def CalculateTimeSinceOldestPartition_def queue_top_def old_partition_enabled_def old_partition_interval_def

lemma full_started_simps [simp]:
  "flush_threads full_started = [FlushSpawned]" "flushes full_started = []" "disable_waits full_started = 0"
  "disable_ready full_started = 0" "cancel_token_map full_started = []" "is_cancelled full_started = False"
  "background_task_col full_started = \<lparr>task_id = 0, background_tasks_ids = []\<rparr>" "ids_given full_started = 0"
  "flush_calls full_started = 0" "cancelled_flushes full_started = []" "partition_timestamp_queue full_started = replicate 20 1000"
  "client_alive full_started = True" "clock full_started = 1000" "timers full_started = [OldPartitionTimer 11000]"
  by (simp_all add: example_flush_defs Let_def)

lemma full_started_reachable: "flush_reachable example_localtime latency full_queue full_started"
  unfolding full_started_def by (rule flush_reachable.enabled)

lemma reachable_further:
  assumes "(flush_step localtime latency)\<^sup>*\<^sup>* s s'" "flush_reachable localtime latency s0 s"
  shows "flush_reachable localtime latency s0 s'"
  using assms by (induction rule: rtranclp_induct) (auto intro: flush_reachable.further)

text \<open>The thread of the only flush, and the callback of it.\<close>

lemma first_thread:
  "flush_threads s = [t] \<Longrightarrow> flush_step localtime latency s (flush_thread_next t [] [] s)"
  using flush_step.thread [of s "[]" t "[]"] by simp

lemma first_callback:
  "flushes s = [f] \<Longrightarrow> flush_step localtime latency s (flush_callback outcome f [] [] s)"
  using flush_step.callback [of s "[]" f "[]"] by simp

text \<open>\<open>Disable\<close> before the thread of the flush has registered its task.\<close>

definition disabled_early :: EnabledAutoFlushControllerImpl where
  "disabled_early = disable_wakes (Impl_Disable full_started)"

definition flushed_late :: EnabledAutoFlushControllerImpl where
  "flushed_late = flush_thread_next (FlushAdded 0) [] [] (flush_thread_next FlushSpawned [] [] disabled_early)"

lemma disabled_early_steps: "(flush_step example_localtime latency)\<^sup>*\<^sup>* full_started disabled_early"
  unfolding disabled_early_def by (rule converse_rtranclp_into_rtranclp [OF flush_step.disable r_into_rtranclp [where r = "flush_step example_localtime latency", OF flush_step.ready]])

lemma disabled_early_simps [simp]:
  "flush_threads disabled_early = [FlushSpawned]" "disable_ready disabled_early = 1" "flush_calls disabled_early = 0"
  "cancelled_flushes disabled_early = []" "is_cancelled disabled_early"
  "background_task_col disabled_early = \<lparr>task_id = 0, background_tasks_ids = []\<rparr>"
  by (simp_all add: disabled_early_def disable_wakes_def Impl_Disable_def Controller_Cancel_def BackgroundTask_Completed_def)

lemma flushed_late_steps: "(flush_step localtime latency)\<^sup>*\<^sup>* disabled_early flushed_late"
proof -
  let ?s = "flush_thread_next FlushSpawned [] [] disabled_early"
  have "flush_step localtime latency disabled_early ?s" by (rule first_thread) simp
  moreover have "flush_step localtime latency ?s flushed_late"
    unfolding flushed_late_def by (rule first_thread) (simp add: flush_thread_next_def BackgroundTask_AddTask_def)
  ultimately show ?thesis by (rule converse_rtranclp_into_rtranclp [OF _ r_into_rtranclp])
qed

text \<open>A flush that calls back before its thread has stored the token.\<close>

definition called_back :: EnabledAutoFlushControllerImpl where
  "called_back =
     (let s = flush_thread_next (FlushAdded 0) [] [] (flush_thread_next FlushSpawned [] [] full_started)
      in flush_callback [] (TokenRemoved [True]) [] [] (flush_callback [] (TaskReleased 0 [True]) [] []
           (flush_callback [True] (FlushRunning 0) [] [] s)))"

definition token_late :: EnabledAutoFlushControllerImpl where
  "token_late = flush_thread_next (FlushCalled 0 0) [] [] called_back"

lemmas late_defs = flush_thread_next_def BackgroundTask_AddTask_def flush_callback_def RemoveCancelToken_def
  AddCancelToken_def Controller_NotifyFlushEventResults_def BackgroundTask_ReleaseTask_def

lemma token_late_steps: "(flush_step localtime latency)\<^sup>*\<^sup>* full_started token_late"
proof -
  let ?s1 = "flush_thread_next FlushSpawned [] [] full_started"
  let ?s2 = "flush_thread_next (FlushAdded 0) [] [] ?s1"
  let ?s3 = "flush_callback [True] (FlushRunning 0) [] [] ?s2"
  let ?s4 = "flush_callback [] (TaskReleased 0 [True]) [] [] ?s3"
  let ?S = "flush_step localtime latency"
  have "?S full_started ?s1" by (rule first_thread) simp
  moreover have "?S ?s1 ?s2" by (rule first_thread) (simp add: late_defs)
  moreover have "?S ?s2 ?s3" by (rule first_callback) (simp add: late_defs)
  moreover have "?S ?s3 ?s4" by (rule first_callback) (simp add: late_defs)
  moreover have "?S ?s4 called_back" unfolding called_back_def Let_def by (rule first_callback) (simp add: late_defs)
  moreover have "?S called_back token_late" unfolding token_late_def by (rule first_thread) (simp add: called_back_def late_defs)
  ultimately show ?thesis by (meson converse_rtranclp_into_rtranclp rtranclp.rtrancl_refl)
qed

section \<open>Properties\<close>





text \<open>
  The future of \<open>Disable\<close> may be ready before a flush that was already announced calls \<open>Flush\<close>: its thread has not
  registered the task that is waited for. The flush is then not cancelled either.
\<close>

theorem disable_ready_early:
  "\<exists>s s'. flush_reachable example_localtime 0 full_queue s \<and> disable_ready s = 1 \<and> flush_calls s = 0 \<and>
     (flush_step example_localtime 0)\<^sup>*\<^sup>* s s' \<and> flush_calls s' = 1 \<and> cancelled_flushes s' = []"
proof (intro exI conjI)
  show "flush_reachable example_localtime 0 full_queue disabled_early"
    by (rule reachable_further [OF disabled_early_steps full_started_reachable])
  show "(flush_step example_localtime 0)\<^sup>*\<^sup>* disabled_early flushed_late" by (rule flushed_late_steps)
qed (simp_all add: flushed_late_def flush_thread_next_def BackgroundTask_AddTask_def)

text \<open>
  A flush may call back before its thread stores the token: the callback finds no token to remove, and the token is
  stored after the flush has ended, where nothing removes it.
\<close>

theorem token_left_behind:
  "\<exists>s. flush_reachable example_localtime 0 full_queue s \<and> flush_threads s = [] \<and> flushes s = [] \<and>
     background_tasks_ids (background_task_col s) = [] \<and> cancel_token_map s = [(0, 0)]"
proof (intro exI conjI)
  show "flush_reachable example_localtime 0 full_queue token_late"
    by (rule reachable_further [OF token_late_steps full_started_reachable])
qed (simp_all add: token_late_def called_back_def late_defs)

end
