(* ===== verification/Network_Object.thy ===== *)
theory Network_Object
  imports Network_Queue
begin

text \<open>
  Component core: the network object through which the clients send (\<open>olp-cpp-sdk-core/src/network/Network.cpp\<close>,
  \<open>NetworkFactory.cpp\<close>, \<open>NetworkEventImpl.cpp\<close>). The \<open>Network\<close> objects of a process share a \<open>NetworkSingleton\<close>, which
  owns the protocol and lives while an object or a call holds it, the counters of request and client ids, the
  connection status and the listeners; they are one state, and the step relation \<open>net_step\<close> interleaves the calls of all
  threads.

  \<open>Send\<close> is three steps: it looks up the singleton, takes an id and records it, and hands the request to the protocol.
  The protocol is code behind an interface (\<open>Network_Queue\<close> models the decorator that implements it); its answers are
  arguments of the steps. A caller is a number, and a response of the protocol carries the id of its request.

  Shown: every call of \<open>Send\<close> is answered at most once and is otherwise on its way; a stopped object has asked the protocol to
  cancel every request it had sent; listeners are told exactly of the changes between connected and not
  connected; the certificate is updated at most once for a singleton, and only then is the network blocked. Also shown: a
  request whose call was overtaken by \<open>Stop\<close> is sent and not cancelled.
\<close>

section \<open>Ids\<close>

definition RequestIdInvalid :: u32 where "RequestIdInvalid = 0x80000000"

definition RequestIdMin :: u32 where "RequestIdMin = RequestIdInvalid + 1"

text \<open>The counters are atomic integers, which wrap around; a \<open>RequestId\<close> is signed.\<close>

definition NextRequestId :: "u32 \<Rightarrow> int \<times> u32" where
  "NextRequestId next_id =
     (let i = next_id + 1 in if i = RequestIdInvalid then (sint (i + 1), i + 1) else (sint i, i))"

definition NextClientId :: "u32 \<Rightarrow> u32 \<times> u32" where
  "NextClientId next_id = (let i = next_id + 1 in if i = 0 then (i + 1, i + 1) else (i, i))"

section \<open>The state\<close>

datatype ConnectionStatus = ConnectionValid | NoConnection | ConnectionReestablished | ShuttingDown

record NetworkSingleton =
  ns_protocol :: bool
  ns_blocked :: bool
  ns_certificate_update_was_triggered :: bool
  ns_certificate_updates :: nat

definition NetworkSingleton_new :: NetworkSingleton where
  "NetworkSingleton_new = \<lparr>ns_protocol = False, ns_blocked = False, ns_certificate_update_was_triggered = False, ns_certificate_updates = 0\<rparr>"

text \<open>A network object; the client id 0 is invalid.\<close>

record NetworkObject =
  no_id :: u32
  no_singleton :: "nat option"
  no_config :: NetworkConfig
  no_request_ids :: "int list"

definition NetworkObject_new :: NetworkObject where
  "NetworkObject_new = \<lparr>no_id = 0, no_singleton = None, no_config = NetworkConfig_default, no_request_ids = []\<rparr>"

definition Started :: "NetworkObject \<Rightarrow> bool" where
  "Started n \<longleftrightarrow> no_id n \<noteq> 0"

text \<open>A call of \<open>Send\<close> that holds the singleton and has an id or not yet, and a request that the protocol has accepted.\<close>

record net_send =
  sd_caller :: nat
  sd_network :: nat
  sd_singleton :: nat
  sd_id :: "int option"

record net_flight =
  fl_caller :: nat
  fl_network :: nat
  fl_singleton :: nat
  fl_id :: int

text \<open>
  The objects, the singletons of the process with the one \<open>g_singleton\<close> points to, the static variables, the calls of
  \<open>Send\<close>, the requests in flight, and what happened: the callbacks, the ids the protocol was asked to cancel, the statuses
  given to \<open>NotifyListeners\<close>, the announcements and who was told, the number of calls and of ids.
\<close>

record net_world =
  networks :: "NetworkObject list"
  singletons :: "NetworkSingleton list"
  g_singleton :: "nat option"
  next_request_id :: u32
  next_client_id :: u32
  s_connection_status :: ConnectionStatus
  s_listener_id_count :: int
  s_listeners :: "int list"
  nw_sends :: "net_send list"
  nw_flights :: "net_flight list"
  nw_answers :: "(nat \<times> NetworkResponse) list"
  nw_cancel_calls :: "int list"
  nw_statuses :: "int list"
  nw_announced :: "ConnectionStatus list"
  nw_told :: "(int \<times> ConnectionStatus) list"
  nw_callers :: nat
  nw_ids :: nat

definition net_world_new :: net_world where
  "net_world_new =
     \<lparr>networks = [], singletons = [], g_singleton = None, next_request_id = RequestIdMin, next_client_id = 1,
      s_connection_status = ConnectionValid, s_listener_id_count = 1, s_listeners = [], nw_sends = [], nw_flights = [],
      nw_answers = [], nw_cancel_calls = [], nw_statuses = [], nw_announced = [], nw_told = [], nw_callers = 0, nw_ids = 0\<rparr>"

definition set_network :: "nat \<Rightarrow> (NetworkObject \<Rightarrow> NetworkObject) \<Rightarrow> net_world \<Rightarrow> net_world" where
  "set_network k f w = w\<lparr>networks := (networks w)[k := f (networks w ! k)]\<rparr>"

definition set_singleton :: "nat \<Rightarrow> (NetworkSingleton \<Rightarrow> NetworkSingleton) \<Rightarrow> net_world \<Rightarrow> net_world" where
  "set_singleton i f w = w\<lparr>singletons := (singletons w)[i := f (singletons w ! i)]\<rparr>"

section \<open>Request ids\<close>

definition RequestIds_Insert :: "int \<Rightarrow> NetworkObject \<Rightarrow> NetworkObject" where
  "RequestIds_Insert i n = n\<lparr>no_request_ids := no_request_ids n @ [i]\<rparr>"

definition RequestIds_Remove :: "int \<Rightarrow> NetworkObject \<Rightarrow> NetworkObject" where
  "RequestIds_Remove i n = n\<lparr>no_request_ids := remove1 i (no_request_ids n)\<rparr>"

definition RequestIds_Clear :: "NetworkObject \<Rightarrow> int list \<times> NetworkObject" where
  "RequestIds_Clear n = (no_request_ids n, n\<lparr>no_request_ids := []\<rparr>)"

section \<open>Listeners\<close>

definition offline_status :: "int \<Rightarrow> bool" where
  "offline_status st \<longleftrightarrow> st = Offline \<or> st = IOError"

text \<open>The map of the listeners is copied and then iterated.\<close>

definition NotifyListeners :: "int \<Rightarrow> net_world \<Rightarrow> net_world" where
  "NotifyListeners st w0 =
     (let w = w0\<lparr>nw_statuses := nw_statuses w0 @ [st]\<rparr>;
          networkError = (if offline_status st then NoConnection else ConnectionValid)
      in if s_connection_status w = networkError then w
         else let (announced, new_status) =
                    (if s_connection_status w = NoConnection \<and> networkError = ConnectionValid
                     then (ConnectionReestablished, ConnectionValid) else (networkError, networkError))
              in w\<lparr>s_connection_status := new_status, nw_announced := nw_announced w @ [announced],
                   nw_told := nw_told w @ map (\<lambda>l. (l, announced)) (s_listeners w)\<rparr>)"

text \<open>A null callback is not added; the counter is an \<open>int\<close>, whose overflow is undefined (\<open>None\<close>).\<close>

definition AddListenerCallback :: "bool \<Rightarrow> net_world \<Rightarrow> (int \<times> net_world) option" where
  "AddListenerCallback callback w =
     (if \<not> callback then Some (0, w)
      else let i = s_listener_id_count w
           in if i = 2 ^ 31 - 1 then None
              else Some (i, w\<lparr>s_listener_id_count := i + 1, s_listeners := insort i (removeAll i (s_listeners w))\<rparr>))"

definition RemoveListenerCallback :: "int \<Rightarrow> net_world \<Rightarrow> net_world" where
  "RemoveListenerCallback callback_id w = w\<lparr>s_listeners := removeAll callback_id (s_listeners w)\<rparr>"

section \<open>The singleton\<close>

text \<open>Whether a shared pointer holds the singleton, that is, whether a weak one gives it.\<close>

definition singleton_alive :: "net_world \<Rightarrow> nat \<Rightarrow> bool" where
  "singleton_alive w i \<longleftrightarrow> (\<exists>n \<in> set (networks w). no_singleton n = Some i) \<or> (\<exists>s \<in> set (nw_sends w). sd_singleton s = i)"

definition SingletonInstance :: "net_world \<Rightarrow> nat \<times> net_world" where
  "SingletonInstance w =
     (case g_singleton w of
        Some i \<Rightarrow> if singleton_alive w i then (i, w)
                  else (length (singletons w), w\<lparr>singletons := singletons w @ [NetworkSingleton_new], g_singleton := Some (length (singletons w))\<rparr>)
      | None \<Rightarrow> (length (singletons w), w\<lparr>singletons := singletons w @ [NetworkSingleton_new], g_singleton := Some (length (singletons w))\<rparr>))"

text \<open>The factory, by default that of the decorator, gives a protocol or not, and its \<open>Initialize\<close> succeeds or not.\<close>

definition InitializeClient :: "bool \<Rightarrow> bool \<Rightarrow> nat \<Rightarrow> net_world \<Rightarrow> bool \<times> net_world" where
  "InitializeClient created initialized i w =
     (if ns_protocol (singletons w ! i) then (True, w)
      else if created \<and> initialized then (True, set_singleton i (\<lambda>s. s\<lparr>ns_protocol := True\<rparr>) w)
      else (False, w))"

definition Unblock :: "net_world \<Rightarrow> net_world" where
  "Unblock w =
     (case g_singleton w of
        Some i \<Rightarrow> if singleton_alive w i then set_singleton i (\<lambda>s. s\<lparr>ns_blocked := False\<rparr>) w else w
      | None \<Rightarrow> w)"

definition Singleton_Cancel :: "bool \<Rightarrow> nat \<Rightarrow> int \<Rightarrow> net_world \<Rightarrow> bool \<times> net_world" where
  "Singleton_Cancel cancelled i request_id w =
     (if \<not> ns_protocol (singletons w ! i) then (False, w)
      else (cancelled, w\<lparr>nw_cancel_calls := nw_cancel_calls w @ [request_id]\<rparr>))"

definition Singleton_CancelIfPending :: "bool \<Rightarrow> nat \<Rightarrow> int \<Rightarrow> net_world \<Rightarrow> bool \<times> net_world" where
  "Singleton_CancelIfPending pending i request_id w =
     (if \<not> ns_protocol (singletons w ! i) then (False, w)
      else (pending, if pending then w\<lparr>nw_cancel_calls := nw_cancel_calls w @ [request_id]\<rparr> else w))"

section \<open>Start and stop\<close>

definition Network_Start :: "bool \<Rightarrow> bool \<Rightarrow> NetworkConfig \<Rightarrow> nat \<Rightarrow> net_world \<Rightarrow> bool \<times> net_world" where
  "Network_Start created initialized config k w =
     (if Started (networks w ! k) then (False, w)
      else let (i, w1) = SingletonInstance w; (ok, w2) = InitializeClient created initialized i w1
           in if \<not> ok then (False, set_network k (\<lambda>n. n\<lparr>no_singleton := None\<rparr>) w2)
              else let (cid, next) = NextClientId (next_client_id w2)
                   in (True, set_network k (\<lambda>n. n\<lparr>no_singleton := Some i, no_config := config, no_id := cid\<rparr>) (w2\<lparr>next_client_id := next\<rparr>)))"

text \<open>A started object has a singleton, which is an invariant below.\<close>

definition Network_Stop :: "nat \<Rightarrow> net_world \<Rightarrow> bool \<times> net_world" where
  "Network_Stop k w =
     (if \<not> Started (networks w ! k) then (False, w)
      else let (requestIds, n) = RequestIds_Clear (networks w ! k);
               w1 = set_network k (\<lambda>_. n\<lparr>no_id := 0, no_singleton := None\<rparr>) w
           in case no_singleton n of
                None \<Rightarrow> (True, w1)
              | Some i \<Rightarrow> (True, fold (\<lambda>request_id w. snd (Singleton_Cancel True i request_id w)) requestIds w1))"

definition Network_Restart :: "bool \<Rightarrow> bool \<Rightarrow> NetworkConfig \<Rightarrow> nat \<Rightarrow> net_world \<Rightarrow> bool \<times> net_world" where
  "Network_Restart created initialized config k w = Network_Start created initialized config k (snd (Network_Stop k w))"

section \<open>Sending\<close>

text \<open>The callback that \<open>Network::Send\<close> passes on: the caller's callback is called where there is one.\<close>

definition request_done_callback :: "nat \<Rightarrow> nat \<Rightarrow> NetworkResponse \<Rightarrow> net_world \<Rightarrow> net_world" where
  "request_done_callback k caller resp w =
     NotifyListeners (nr_status resp)
       ((set_network k (RequestIds_Remove (nr_id resp)) w)\<lparr>nw_answers := nw_answers w @ [(caller, resp)]\<rparr>)"

definition offline_response :: "string option \<Rightarrow> NetworkResponse" where
  "offline_response payload = (NetworkResponse_new 0 Offline ''Offline'')\<lparr>nr_expires := - 1, nr_payload := payload\<rparr>"

text \<open>The beginning of \<open>Send\<close>; a null callback must not be called.\<close>

definition Send_begin :: "bool \<Rightarrow> string option \<Rightarrow> nat \<Rightarrow> net_world \<Rightarrow> net_world option" where
  "Send_begin callback payload k w =
     (let caller = nw_callers w; w1 = w\<lparr>nw_callers := caller + 1\<rparr>
      in case no_singleton (networks w ! k) of
           Some i \<Rightarrow>
             if Started (networks w ! k)
             then Some (w1\<lparr>nw_sends := nw_sends w1 @ [\<lparr>sd_caller = caller, sd_network = k, sd_singleton = i, sd_id = None\<rparr>]\<rparr>)
             else if \<not> callback then None else Some (w1\<lparr>nw_answers := nw_answers w1 @ [(caller, offline_response payload)]\<rparr>)
         | None \<Rightarrow> if \<not> callback then None else Some (w1\<lparr>nw_answers := nw_answers w1 @ [(caller, offline_response payload)]\<rparr>))"

text \<open>An id is taken and recorded; \<open>before\<close> and \<open>after\<close> are the other calls of \<open>Send\<close>.\<close>

definition Send_insert :: "net_send \<Rightarrow> net_send list \<Rightarrow> net_send list \<Rightarrow> net_world \<Rightarrow> net_world" where
  "Send_insert sd before after w =
     (let (requestId, next) = NextRequestId (next_request_id w)
      in set_network (sd_network sd) (RequestIds_Insert requestId)
           (w\<lparr>next_request_id := next, nw_ids := nw_ids w + 1, nw_sends := before @ sd\<lparr>sd_id := Some requestId\<rparr> # after\<rparr>))"

text \<open>\<open>NetworkSingleton::Send\<close>; \<open>err\<close> is what the protocol returns.\<close>

definition Singleton_Send :: "ProtocolError \<Rightarrow> net_send \<Rightarrow> int \<Rightarrow> net_world \<Rightarrow> net_world" where
  "Singleton_Send err sd requestId w =
     (let s = singletons w ! sd_singleton sd; callback = request_done_callback (sd_network sd) (sd_caller sd)
      in if ns_blocked s then callback (NetworkResponse_new requestId AuthorizationError ''Waiting for certificates.'') w
         else if \<not> ns_protocol s then callback (NetworkResponse_new requestId Offline ''Offline'') w
         else if err \<noteq> ErrorNone then callback (HandleSynchronousNetworkErrors err requestId) w
         else w\<lparr>nw_flights := nw_flights w @
                [\<lparr>fl_caller = sd_caller sd, fl_network = sd_network sd, fl_singleton = sd_singleton sd, fl_id = requestId\<rparr>]\<rparr>)"

text \<open>The callback that the protocol calls with the response.\<close>

definition protocol_callback :: "net_flight \<Rightarrow> NetworkResponse \<Rightarrow> net_world \<Rightarrow> net_world" where
  "protocol_callback f resp w =
     (let i = fl_singleton f;
          w1 = (if nr_status resp = AuthenticationError \<and> singleton_alive w i \<and> \<not> ns_certificate_update_was_triggered (singletons w ! i)
                then set_singleton i (\<lambda>s. s\<lparr>ns_certificate_update_was_triggered := True, ns_blocked := True,
                       ns_certificate_updates := ns_certificate_updates s + 1\<rparr>) w
                else w)
      in request_done_callback (fl_network f) (fl_caller f) resp w1)"

text \<open>What \<open>SendAndWait\<close> returns, once its promise is set.\<close>

definition SendAndWait_result :: "nat \<Rightarrow> net_world \<Rightarrow> NetworkResponse option" where
  "SendAndWait_result caller w = map_of (nw_answers w) caller"

definition Network_Cancel :: "bool \<Rightarrow> int \<Rightarrow> nat \<Rightarrow> net_world \<Rightarrow> bool \<times> net_world" where
  "Network_Cancel cancelled i k w =
     (case no_singleton (networks w ! k) of
        Some j \<Rightarrow> if \<not> Started (networks w ! k) then (False, w)
                  else Singleton_Cancel cancelled j i (set_network k (RequestIds_Remove i) w)
      | None \<Rightarrow> (False, w))"

definition Network_CancelIfPending :: "bool \<Rightarrow> int \<Rightarrow> nat \<Rightarrow> net_world \<Rightarrow> bool \<times> net_world" where
  "Network_CancelIfPending pending i k w =
     (case no_singleton (networks w ! k) of
        Some j \<Rightarrow> if \<not> Started (networks w ! k) then (False, w)
                  else let (cancelled, w1) = Singleton_CancelIfPending pending j i w
                       in if \<not> cancelled then (False, w1) else (True, set_network k (RequestIds_Remove i) w1)
      | None \<Rightarrow> (False, w))"

section \<open>The factory of protocols\<close>

text \<open>The factory that was set, and the default one, which is made when it is first needed.\<close>

record 'f network_factories =
  g_protocol_factory :: "'f option"
  g_default_network_protocol_factory :: "'f option"

definition SetNetworkProtocolFactory :: "'f option \<Rightarrow> 'f network_factories \<Rightarrow> 'f network_factories" where
  "SetNetworkProtocolFactory factory g = g\<lparr>g_protocol_factory := factory\<rparr>"

definition CreateNetworkProtocol :: "'f \<Rightarrow> ('f \<Rightarrow> 'p option) \<Rightarrow> 'f network_factories \<Rightarrow> 'p option \<times> 'f network_factories" where
  "CreateNetworkProtocol default_factory create_protocol g =
     (case g_protocol_factory g of
        Some factory \<Rightarrow> (create_protocol factory, g)
      | None \<Rightarrow>
          let factory = (case g_default_network_protocol_factory g of None \<Rightarrow> default_factory | Some d \<Rightarrow> d)
          in (create_protocol factory, g\<lparr>g_default_network_protocol_factory := Some factory\<rparr>))"

section \<open>Statistics\<close>

record Statistics =
  content_bytes :: size_t
  requests_count :: size_t
  errors_count :: size_t

definition NetworkEvent_Record :: "size_t \<Rightarrow> int \<Rightarrow> Statistics \<Rightarrow> Statistics" where
  "NetworkEvent_Record content_length st s =
     s\<lparr>content_bytes := content_bytes s + content_length, requests_count := requests_count s + 1,
       errors_count := (if st < 200 \<or> 400 \<le> st then errors_count s + 1 else errors_count s)\<rparr>"

section \<open>Steps\<close>

inductive net_step :: "net_world \<Rightarrow> net_world \<Rightarrow> bool" where
  create: "net_step w (w\<lparr>networks := networks w @ [NetworkObject_new]\<rparr>)"
| start: "k < length (networks w) \<Longrightarrow> net_step w (snd (Network_Start created initialized config k w))"
| stop: "k < length (networks w) \<Longrightarrow> net_step w (snd (Network_Stop k w))"
| send_begin: "k < length (networks w) \<Longrightarrow> Send_begin callback payload k w = Some w' \<Longrightarrow> net_step w w'"
| send_insert: "nw_sends w = before @ sd # after \<Longrightarrow> sd_id sd = None \<Longrightarrow> net_step w (Send_insert sd before after w)"
| dispatch: "nw_sends w = before @ sd # after \<Longrightarrow> sd_id sd = Some i \<Longrightarrow>
    net_step w (Singleton_Send err sd i (w\<lparr>nw_sends := before @ after\<rparr>))"
| respond: "nw_flights w = before @ f # after \<Longrightarrow> nr_id resp = fl_id f \<Longrightarrow>
    net_step w (protocol_callback f resp (w\<lparr>nw_flights := before @ after\<rparr>))"
| cancel: "k < length (networks w) \<Longrightarrow> net_step w (snd (Network_Cancel cancelled i k w))"
| cancel_pending: "k < length (networks w) \<Longrightarrow> net_step w (snd (Network_CancelIfPending pending i k w))"
| unblock: "net_step w (Unblock w)"
| add_listener: "AddListenerCallback callback w = Some (l, w') \<Longrightarrow> net_step w w'"
| remove_listener: "net_step w (RemoveListenerCallback l w)"

abbreviation net_reachable :: "net_world \<Rightarrow> bool" where
  "net_reachable w \<equiv> net_step\<^sup>*\<^sup>* net_world_new w"

lemma net_invariant:
  assumes "P net_world_new" "\<And>w w'. net_step w w' \<Longrightarrow> P w \<Longrightarrow> P w'"
  shows "net_reachable w \<Longrightarrow> P w"
  by (induction rule: rtranclp_induct) (use assms in auto)

section \<open>What the parts of a step leave alone\<close>

lemma NotifyListeners_same [simp]:
  "networks (NotifyListeners st w) = networks w" "singletons (NotifyListeners st w) = singletons w"
  "g_singleton (NotifyListeners st w) = g_singleton w" "next_request_id (NotifyListeners st w) = next_request_id w"
  "nw_sends (NotifyListeners st w) = nw_sends w" "nw_flights (NotifyListeners st w) = nw_flights w"
  "nw_answers (NotifyListeners st w) = nw_answers w" "nw_cancel_calls (NotifyListeners st w) = nw_cancel_calls w"
  "nw_callers (NotifyListeners st w) = nw_callers w" "nw_ids (NotifyListeners st w) = nw_ids w"
  by (simp_all add: NotifyListeners_def Let_def)

lemma SingletonInstance_cases:
  obtains i where "SingletonInstance w = (i, w)" "g_singleton w = Some i"
  | "SingletonInstance w = (length (singletons w), w\<lparr>singletons := singletons w @ [NetworkSingleton_new], g_singleton := Some (length (singletons w))\<rparr>)"
proof (cases "\<exists>i. g_singleton w = Some i \<and> singleton_alive w i")
  case True
  then obtain i where "g_singleton w = Some i" "singleton_alive w i" by blast
  then show ?thesis by (intro that(1) [of i]) (simp_all add: SingletonInstance_def)
next
  case False
  then show ?thesis by (intro that(2)) (auto simp: SingletonInstance_def split: option.splits)
qed

lemma SingletonInstance_same [simp]:
  "networks (snd (SingletonInstance w)) = networks w" "nw_sends (snd (SingletonInstance w)) = nw_sends w"
  "nw_flights (snd (SingletonInstance w)) = nw_flights w" "nw_answers (snd (SingletonInstance w)) = nw_answers w"
  "nw_cancel_calls (snd (SingletonInstance w)) = nw_cancel_calls w" "nw_callers (snd (SingletonInstance w)) = nw_callers w"
  "nw_ids (snd (SingletonInstance w)) = nw_ids w" "next_request_id (snd (SingletonInstance w)) = next_request_id w"
  "nw_announced (snd (SingletonInstance w)) = nw_announced w" "nw_statuses (snd (SingletonInstance w)) = nw_statuses w"
  "s_connection_status (snd (SingletonInstance w)) = s_connection_status w"
  by (cases w rule: SingletonInstance_cases; simp)+

lemma InitializeClient_same [simp]:
  "networks (snd (InitializeClient created initialized i w)) = networks w" "nw_sends (snd (InitializeClient created initialized i w)) = nw_sends w"
  "nw_flights (snd (InitializeClient created initialized i w)) = nw_flights w" "nw_answers (snd (InitializeClient created initialized i w)) = nw_answers w"
  "nw_cancel_calls (snd (InitializeClient created initialized i w)) = nw_cancel_calls w" "nw_callers (snd (InitializeClient created initialized i w)) = nw_callers w"
  "nw_ids (snd (InitializeClient created initialized i w)) = nw_ids w" "next_request_id (snd (InitializeClient created initialized i w)) = next_request_id w"
  "nw_announced (snd (InitializeClient created initialized i w)) = nw_announced w" "nw_statuses (snd (InitializeClient created initialized i w)) = nw_statuses w"
  "s_connection_status (snd (InitializeClient created initialized i w)) = s_connection_status w"
  by (simp_all add: InitializeClient_def set_singleton_def)

lemma Network_Start_same [simp]:
  "nw_sends (snd (Network_Start created initialized config k w)) = nw_sends w" "nw_flights (snd (Network_Start created initialized config k w)) = nw_flights w"
  "nw_answers (snd (Network_Start created initialized config k w)) = nw_answers w" "nw_cancel_calls (snd (Network_Start created initialized config k w)) = nw_cancel_calls w"
  "nw_callers (snd (Network_Start created initialized config k w)) = nw_callers w" "nw_ids (snd (Network_Start created initialized config k w)) = nw_ids w"
  "next_request_id (snd (Network_Start created initialized config k w)) = next_request_id w" "nw_announced (snd (Network_Start created initialized config k w)) = nw_announced w"
  "nw_statuses (snd (Network_Start created initialized config k w)) = nw_statuses w" "s_connection_status (snd (Network_Start created initialized config k w)) = s_connection_status w"
  by (simp_all add: Network_Start_def case_prod_beta Let_def set_network_def)

lemma map_update_same: "k < length xs \<Longrightarrow> (map f xs)[k := f (xs ! k)] = map f xs"
  by (metis list_update_id nth_map)

lemma Network_Start_ids [simp]:
  "map no_request_ids (networks (snd (Network_Start created initialized config k w))) = map no_request_ids (networks w)"
  by (cases "k < length (networks w)") (simp_all add: Network_Start_def case_prod_beta Let_def set_network_def map_update map_update_same list_update_beyond)

lemma fold_Cancel_world:
  "fold (\<lambda>request_id w. snd (Singleton_Cancel c i request_id w)) ids w =
     (if ns_protocol (singletons w ! i) then w\<lparr>nw_cancel_calls := nw_cancel_calls w @ ids\<rparr> else w)"
  by (induction ids arbitrary: w) (simp_all add: Singleton_Cancel_def)

lemma Network_Stop_eq:
  "Network_Stop k w =
     (if \<not> Started (networks w ! k) then (False, w)
      else (True, (set_network k (\<lambda>n. n\<lparr>no_request_ids := [], no_id := 0, no_singleton := None\<rparr>) w)
        \<lparr>nw_cancel_calls := nw_cancel_calls w @
           (case no_singleton (networks w ! k) of
              None \<Rightarrow> []
            | Some i \<Rightarrow> if ns_protocol (singletons w ! i) then no_request_ids (networks w ! k) else [])\<rparr>))"
  by (simp add: Network_Stop_def RequestIds_Clear_def set_network_def fold_Cancel_world split: option.splits)

lemmas network_defs = Network_Stop_eq Network_Cancel_def Network_CancelIfPending_def Unblock_def
  AddListenerCallback_def RemoveListenerCallback_def Send_begin_def Send_insert_def Singleton_Send_def protocol_callback_def
  request_done_callback_def InitializeClient_def NextClientId_def NextRequestId_def Singleton_Cancel_def Singleton_CancelIfPending_def
  set_network_def set_singleton_def

section \<open>Every call is answered once\<close>

text \<open>The callers of \<open>Send\<close>: in the call, in flight, answered.\<close>

definition callers_of :: "net_world \<Rightarrow> nat multiset" where
  "callers_of w = mset (map sd_caller (nw_sends w)) + mset (map fl_caller (nw_flights w)) + mset (map fst (nw_answers w))"

definition callers_ok :: "net_world \<Rightarrow> bool" where
  "callers_ok w \<longleftrightarrow> callers_of w = mset [0..<nw_callers w]"

lemma callers_step: "net_step w w' \<Longrightarrow> callers_ok w \<Longrightarrow> callers_ok w'"
  by (induction rule: net_step.induct)
    (auto simp: network_defs callers_ok_def callers_of_def Let_def atLeast0_lessThan_Suc split: option.splits prod.splits if_splits)

section \<open>Announcements\<close>

text \<open>The announcements for a sequence of statuses: one for every change between connected and not.\<close>

fun connection_changes :: "bool \<Rightarrow> int list \<Rightarrow> ConnectionStatus list" where
  "connection_changes off [] = []"
| "connection_changes off (st # sts) =
     (if offline_status st = off then connection_changes off sts
      else (if off then ConnectionReestablished else NoConnection) # connection_changes (\<not> off) sts)"

definition last_offline :: "int list \<Rightarrow> bool" where
  "last_offline sts \<longleftrightarrow> sts \<noteq> [] \<and> offline_status (last sts)"

lemma connection_changes_snoc:
  "connection_changes off (sts @ [st]) =
     connection_changes off sts @
       (if offline_status st = (if sts = [] then off else offline_status (last sts)) then []
        else [if offline_status st then NoConnection else ConnectionReestablished])"
  by (induction sts arbitrary: off) auto

definition connection_ok :: "net_world \<Rightarrow> bool" where
  "connection_ok w \<longleftrightarrow>
     nw_announced w = connection_changes False (nw_statuses w) \<and>
     s_connection_status w = (if last_offline (nw_statuses w) then NoConnection else ConnectionValid)"

lemma connection_notify: "connection_ok w \<Longrightarrow> connection_ok (NotifyListeners st w)"
  by (auto simp: connection_ok_def NotifyListeners_def connection_changes_snoc last_offline_def Let_def)

lemma connection_same:
  "nw_announced w' = nw_announced w \<Longrightarrow> nw_statuses w' = nw_statuses w \<Longrightarrow> s_connection_status w' = s_connection_status w \<Longrightarrow>
   connection_ok w \<Longrightarrow> connection_ok w'"
  by (simp add: connection_ok_def)

lemma connection_step: "net_step w w' \<Longrightarrow> connection_ok w \<Longrightarrow> connection_ok w'"
  by (induction rule: net_step.induct)
    (auto simp: network_defs Let_def intro!: connection_notify elim!: connection_same [rotated 3] split: option.splits prod.splits if_splits)

section \<open>The singletons\<close>

definition singleton_ok :: "NetworkSingleton \<Rightarrow> bool" where
  "singleton_ok s \<longleftrightarrow>
     (ns_blocked s \<longrightarrow> ns_certificate_update_was_triggered s) \<and>
     ns_certificate_updates s = (if ns_certificate_update_was_triggered s then 1 else 0)"

text \<open>A started object holds a singleton with a protocol; one that is not started holds none.\<close>

definition object_ok :: "NetworkSingleton list \<Rightarrow> NetworkObject \<Rightarrow> bool" where
  "object_ok ss n \<longleftrightarrow>
     (case no_singleton n of None \<Rightarrow> \<not> Started n | Some i \<Rightarrow> Started n \<and> i < length ss \<and> ns_protocol (ss ! i))"

definition singletons_ok :: "net_world \<Rightarrow> bool" where
  "singletons_ok w \<longleftrightarrow>
     list_all singleton_ok (singletons w) \<and> list_all (object_ok (singletons w)) (networks w) \<and>
     list_all (\<lambda>sd. sd_singleton sd < length (singletons w)) (nw_sends w) \<and>
     list_all (\<lambda>f. fl_singleton f < length (singletons w)) (nw_flights w) \<and>
     (\<forall>i. g_singleton w = Some i \<longrightarrow> i < length (singletons w))"

text \<open>A protocol is never taken away.\<close>

definition singletons_grow :: "NetworkSingleton list \<Rightarrow> NetworkSingleton list \<Rightarrow> bool" where
  "singletons_grow ss ss' \<longleftrightarrow>
     length ss \<le> length ss' \<and> (\<forall>i < length ss. ns_protocol (ss ! i) \<longrightarrow> ns_protocol (ss' ! i))"

lemma object_ok_grow: "singletons_grow ss ss' \<Longrightarrow> object_ok ss n \<Longrightarrow> object_ok ss' n"
  by (auto simp: singletons_grow_def object_ok_def split: option.splits)

lemma singletons_grow_update:
  "(\<And>s. ns_protocol s \<Longrightarrow> ns_protocol (f s)) \<Longrightarrow> singletons_grow ss (ss[i := f (ss ! i)])"
  by (cases "i < length ss") (auto simp: singletons_grow_def nth_list_update)

lemma singletons_grow_append: "singletons_grow ss (ss @ xs)"
  by (simp add: singletons_grow_def nth_append)

lemma singletons_ok_set:
  assumes "singletons_ok w" "\<And>s. ns_protocol s \<Longrightarrow> ns_protocol (f s)"
    and "i < length (singletons w) \<Longrightarrow> singleton_ok (singletons w ! i) \<Longrightarrow> singleton_ok (f (singletons w ! i))"
  shows "singletons_ok (set_singleton i f w)"
proof -
  have "list_all (object_ok ((singletons w)[i := f (singletons w ! i)])) (networks w)"
    using assms(1) object_ok_grow [OF singletons_grow_update [of f], OF assms(2)] by (auto simp: singletons_ok_def list_all_iff)
  moreover have "list_all singleton_ok ((singletons w)[i := f (singletons w ! i)])"
    using assms(1,3) by (cases "i < length (singletons w)") (auto simp: singletons_ok_def list_all_length nth_list_update)
  ultimately show ?thesis using assms(1) by (simp add: singletons_ok_def set_singleton_def)
qed

lemma singletons_ok_network:
  assumes "singletons_ok w" "\<And>n. n \<in> set (networks w) \<Longrightarrow> object_ok (singletons w) n \<Longrightarrow> object_ok (singletons w) (f n)"
  shows "singletons_ok (set_network k f w)"
proof (cases "k < length (networks w)")
  case True
  with assms show ?thesis by (auto simp: singletons_ok_def set_network_def list_all_length nth_list_update)
qed (use assms(1) in \<open>simp add: set_network_def singletons_ok_def list_update_beyond\<close>)

lemma object_ok_ids [simp]: "object_ok ss (RequestIds_Remove i n) = object_ok ss n" "object_ok ss (RequestIds_Insert i n) = object_ok ss n"
  by (simp_all add: object_ok_def Started_def RequestIds_Remove_def RequestIds_Insert_def split: option.splits)

lemma singletons_ok_instance:
  assumes "singletons_ok w" "SingletonInstance w = (i, w1)"
  shows "singletons_ok w1 \<and> i < length (singletons w1) \<and> networks w1 = networks w \<and> next_client_id w1 = next_client_id w"
  using assms(2)
proof (cases w rule: SingletonInstance_cases)
  case (1 j)
  with assms show ?thesis by (simp add: singletons_ok_def)
next
  case 2
  have "list_all (object_ok (singletons w @ [NetworkSingleton_new])) (networks w)"
    using assms(1) object_ok_grow [OF singletons_grow_append] by (auto simp: singletons_ok_def list_all_iff)
  with 2 assms show ?thesis by (auto simp: singletons_ok_def singleton_ok_def NetworkSingleton_new_def list_all_iff)
qed

lemma singletons_ok_initialize:
  assumes "singletons_ok w" "i < length (singletons w)" "InitializeClient created initialized i w = (ok, w1)"
  shows "singletons_ok w1 \<and> i < length (singletons w1) \<and> (ok \<longrightarrow> ns_protocol (singletons w1 ! i)) \<and> networks w1 = networks w"
  using assms singletons_ok_set [OF assms(1), of "\<lambda>s. s\<lparr>ns_protocol := True\<rparr>" i]
  by (auto simp: InitializeClient_def set_singleton_def singleton_ok_def split: if_splits)

lemma NextClientId_valid: "fst (NextClientId c) \<noteq> 0"
  by (simp add: NextClientId_def Let_def)

lemma singletons_ok_start:
  assumes "singletons_ok w" "k < length (networks w)"
  shows "singletons_ok (snd (Network_Start created initialized config k w))"
proof (cases "Started (networks w ! k)")
  case False
  obtain i w1 ok w2 where w1: "SingletonInstance w = (i, w1)" and w2: "InitializeClient created initialized i w1 = (ok, w2)"
    by (meson prod.exhaust)
  from singletons_ok_instance [OF assms(1) w1] w2 singletons_ok_initialize
  have ok: "singletons_ok w2" "i < length (singletons w2)" "ok \<longrightarrow> ns_protocol (singletons w2 ! i)" "networks w2 = networks w" by metis+
  from assms False have "no_singleton (networks w ! k) = None"
    by (auto simp: singletons_ok_def list_all_length object_ok_def split: option.splits)
  with ok False assms(2) have "singletons_ok (set_network k (\<lambda>n. n\<lparr>no_singleton := None\<rparr>) w2)"
    by (auto simp: singletons_ok_def set_network_def list_all_length nth_list_update object_ok_def Started_def)
  moreover have "singletons_ok (set_network k (\<lambda>n. n\<lparr>no_singleton := Some i, no_config := config, no_id := c\<rparr>) (w2\<lparr>next_client_id := d\<rparr>))"
    if "ok" "c \<noteq> 0" for c d
    using ok assms(2) that by (auto simp: singletons_ok_def set_network_def list_all_length nth_list_update object_ok_def Started_def)
  ultimately show ?thesis using False NextClientId_valid [of "next_client_id w2"]
    by (auto simp: Network_Start_def w1 w2 Let_def split: prod.splits)
qed (use assms in \<open>simp add: Network_Start_def\<close>)

lemma singletons_ok_notify [simp]: "singletons_ok (NotifyListeners st w) = singletons_ok w"
  by (simp add: singletons_ok_def)

lemma singletons_ok_done: "singletons_ok w \<Longrightarrow> singletons_ok (request_done_callback k caller resp w)"
  using singletons_ok_network [of w "RequestIds_Remove (nr_id resp)" k]
  by (simp add: request_done_callback_def singletons_ok_def set_network_def)

lemma singletons_step: "net_step w w' \<Longrightarrow> singletons_ok w \<Longrightarrow> singletons_ok w'"
proof (induction rule: net_step.induct)
  case (create w)
  then show ?case by (simp add: singletons_ok_def object_ok_def NetworkObject_new_def Started_def)
next
  case (start k w created initialized config)
  then show ?case by (simp add: singletons_ok_start)
next
  case (stop k w)
  then show ?case
    using singletons_ok_network [of w "\<lambda>n. n\<lparr>no_request_ids := [], no_id := 0, no_singleton := None\<rparr>" k]
    by (auto simp: Network_Stop_eq singletons_ok_def object_ok_def Started_def set_network_def)
next
  case (send_begin k w callback payload w')
  then have "object_ok (singletons w) (networks w ! k)" by (simp add: singletons_ok_def list_all_length)
  with send_begin show ?case
    by (auto simp: Send_begin_def singletons_ok_def object_ok_def Let_def split: option.splits if_splits)
next
  case (send_insert w before sd after)
  then show ?case
    using singletons_ok_network [of w "RequestIds_Insert (fst (NextRequestId (next_request_id w)))" "sd_network sd"]
    by (simp add: Send_insert_def singletons_ok_def set_network_def case_prod_beta)
next
  case (dispatch w before sd after i err)
  then have "singletons_ok (w\<lparr>nw_sends := before @ after\<rparr>)" "sd_singleton sd < length (singletons w)" by (simp_all add: singletons_ok_def)
  then show ?case using singletons_ok_done by (auto simp: Singleton_Send_def Let_def) (simp add: singletons_ok_def)
next
  case (respond w before f after resp)
  then have "singletons_ok (w\<lparr>nw_flights := before @ after\<rparr>)" by (simp add: singletons_ok_def)
  then show ?case
    unfolding protocol_callback_def Let_def by (intro singletons_ok_done) (auto intro!: singletons_ok_set simp: singleton_ok_def)
next
  case (cancel k w cancelled i)
  then show ?case using singletons_ok_network [of w "RequestIds_Remove i" k]
    by (auto simp: Network_Cancel_def Singleton_Cancel_def singletons_ok_def set_network_def split: option.splits)
next
  case (cancel_pending k w pending i)
  then show ?case using singletons_ok_network [of w "RequestIds_Remove i" k]
    by (auto simp: Network_CancelIfPending_def Singleton_CancelIfPending_def singletons_ok_def set_network_def Let_def split: option.splits)
next
  case (unblock w)
  then show ?case by (auto simp: Unblock_def singleton_ok_def intro!: singletons_ok_set split: option.splits)
qed (auto simp: AddListenerCallback_def RemoveListenerCallback_def singletons_ok_def Let_def split: if_splits)

section \<open>The ids of requests\<close>

text \<open>The id of the n-th request, as long as the counter has not wrapped around.\<close>

definition request_id :: "nat \<Rightarrow> int" where
  "request_id n = sint (RequestIdMin + of_nat n)"

definition ids_limit :: nat where "ids_limit = 2 ^ 32 - 1"

lemma request_id_inj:
  assumes "m < ids_limit" "n < ids_limit" "request_id m = request_id n"
  shows "m = n"
proof -
  from assms(3) have "(of_int (request_id m) :: u32) = of_int (request_id n)" by simp
  then have "(of_nat m :: u32) = of_nat n" by (simp add: request_id_def)
  with assms(1,2) show ?thesis by (simp add: ids_limit_def word_of_nat_eq_iff take_bit_nat_eq_self)
qed

lemma next_id:
  assumes "Suc n < ids_limit"
  shows "NextRequestId (RequestIdMin + of_nat n) = (request_id (Suc n), RequestIdMin + of_nat (Suc n))"
proof -
  have "(of_nat (n + 2) :: u32) \<noteq> of_nat 0"
    using assms by (simp only: word_of_nat_eq_iff) (simp add: ids_limit_def take_bit_nat_eq_self)
  then have "RequestIdMin + of_nat n + 1 \<noteq> RequestIdInvalid" by (simp add: RequestIdMin_def add.assoc)
  then show ?thesis by (simp add: NextRequestId_def request_id_def Let_def algebra_simps)
qed

text \<open>
  The lists of the objects against the requests with an id, given as pairs of an object and an id, the ids that the
  protocol was asked to cancel, the counter and the number of ids.
\<close>

definition ids_ok :: "int list list \<Rightarrow> (nat \<times> int) multiset \<Rightarrow> int set \<Rightarrow> u32 \<Rightarrow> nat \<Rightarrow> bool" where
  "ids_ok ls out cancels next n \<longleftrightarrow>
     next = RequestIdMin + of_nat n \<and>
     (\<forall>p \<in># out. fst p < length ls \<and> snd p \<in> request_id ` {1..n} \<and> (snd p \<in> set (ls ! fst p) \<or> snd p \<in> cancels)) \<and>
     (\<forall>i. count (image_mset snd out) i \<le> 1) \<and>
     (\<forall>k < length ls. distinct (ls ! k) \<and> (\<forall>i \<in> set (ls ! k). (k, i) \<in># out))"

lemma ids_ok_unique: "ids_ok ls (add_mset (k, i) out) cancels next n \<Longrightarrow> (l, i) \<notin># out"
proof
  assume "ids_ok ls (add_mset (k, i) out) cancels next n" "(l, i) \<in># out"
  then have "count (image_mset snd out) i = 0" by (auto simp: ids_ok_def dest: spec [of _ i])
  with \<open>(l, i) \<in># out\<close> show False by (force simp: count_eq_zero_iff)
qed

lemma ids_ok_remove:
  assumes "ids_ok ls (add_mset (k, i) out) cancels next n"
  shows "ids_ok (ls[k := remove1 i (ls ! k)]) out cancels next n"
proof -
  have k: "k < length ls" and d: "distinct (ls ! k)" using assms by (auto simp: ids_ok_def)
  have other: "snd p \<noteq> i" if "p \<in># out" for p using ids_ok_unique [OF assms, of "fst p"] that by (cases p) auto
  have "count (image_mset snd out) j \<le> 1" for j
    by (rule order_trans [of _ "count (image_mset snd (add_mset (k, i) out)) j"]) (use assms in \<open>simp_all add: ids_ok_def\<close>)
  moreover have "(l, j) \<in># out" if "l < length ls" "j \<in> set (ls[k := remove1 i (ls ! k)] ! l)" for l j
    using assms that k d by (auto simp: ids_ok_def nth_list_update split: if_splits)
  ultimately show ?thesis using assms k d other by (auto simp: ids_ok_def nth_list_update in_set_remove1)
qed

lemma ids_ok_cancel:
  "ids_ok ls out cancels next n \<Longrightarrow> k < length ls \<Longrightarrow> ids_ok (ls[k := remove1 i (ls ! k)]) out (insert i cancels) next n"
  by (auto simp: ids_ok_def nth_list_update in_set_remove1 dest: notin_set_remove1 set_remove1_subset [THEN subsetD])

lemma ids_ok_stop:
  "ids_ok ls out cancels next n \<Longrightarrow> k < length ls \<Longrightarrow> ids_ok (ls[k := []]) out (cancels \<union> set (ls ! k)) next n"
  by (auto simp: ids_ok_def nth_list_update)

lemma ids_ok_create: "ids_ok ls out cancels next n \<Longrightarrow> ids_ok (ls @ [[]]) out cancels next n"
  by (auto simp: ids_ok_def nth_append less_Suc_eq)

lemma ids_ok_insert:
  assumes "ids_ok ls out cancels next n" "k < length ls" "Suc n < ids_limit" "NextRequestId next = (i, next')"
  shows "ids_ok (ls[k := ls ! k @ [i]]) (add_mset (k, i) out) cancels next' (Suc n)"
proof -
  from assms have i: "i = request_id (Suc n)" "next' = RequestIdMin + of_nat (Suc n)" by (auto simp: ids_ok_def next_id)
  have "i \<notin> request_id ` {1..n}" using assms(3) by (auto simp: i dest!: request_id_inj [rotated 2])
  with assms(1) have fresh: "snd p \<noteq> i" if "p \<in># out" for p using that by (auto simp: ids_ok_def)
  then have "count (image_mset snd out) i = 0" by (auto simp: count_eq_zero_iff)
  moreover have "i \<notin> set (ls ! k)" using fresh [of "(k, i)"] assms(1,2) by (auto simp: ids_ok_def)
  ultimately show ?thesis using assms(1,2) i by (auto simp: ids_ok_def nth_list_update)
qed

text \<open>The requests that have an id: their calls are still to hand them to the protocol, or they are in flight.\<close>

definition sent_id :: "net_send \<Rightarrow> (nat \<times> int) list" where
  "sent_id sd = (case sd_id sd of None \<Rightarrow> [] | Some i \<Rightarrow> [(sd_network sd, i)])"

definition outstanding :: "net_world \<Rightarrow> (nat \<times> int) multiset" where
  "outstanding w = mset (concat (map sent_id (nw_sends w))) + mset (map (\<lambda>f. (fl_network f, fl_id f)) (nw_flights w))"

definition ids_inv :: "net_world \<Rightarrow> bool" where
  "ids_inv w \<longleftrightarrow>
     list_all (\<lambda>sd. sd_network sd < length (networks w)) (nw_sends w) \<and>
     (nw_ids w < ids_limit \<longrightarrow>
        ids_ok (map no_request_ids (networks w)) (outstanding w) (set (nw_cancel_calls w)) (next_request_id w) (nw_ids w))"

lemma map_request_ids_network:
  "(\<And>n. no_request_ids (f n) = g (no_request_ids n)) \<Longrightarrow> k < length (networks w) \<Longrightarrow>
   map no_request_ids (networks (set_network k f w)) = (map no_request_ids (networks w))[k := g (map no_request_ids (networks w) ! k)]"
  by (simp add: set_network_def map_update)

lemma request_ids_update: "no_request_ids (RequestIds_Remove i n) = remove1 i (no_request_ids n)"
  "no_request_ids (RequestIds_Insert i n) = no_request_ids n @ [i]"
  by (simp_all add: RequestIds_Remove_def RequestIds_Insert_def)

text \<open>A step that changes neither the ids nor the requests with an id.\<close>

lemma ids_inv_same:
  assumes "ids_inv w" "map no_request_ids (networks w') = map no_request_ids (networks w)" "outstanding w' = outstanding w"
    "set (nw_cancel_calls w') = set (nw_cancel_calls w)" "next_request_id w' = next_request_id w" "nw_ids w' = nw_ids w"
    "list_all (\<lambda>sd. sd_network sd < length (networks w)) (nw_sends w')"
  shows "ids_inv w'"
proof -
  have "length (networks w') = length (networks w)" using arg_cong [OF assms(2), of length] by simp
  with assms show ?thesis by (simp add: ids_inv_def)
qed

lemma ids_inv_done:
  assumes "ids_inv w" "outstanding w = add_mset (k, nr_id resp) (outstanding w1)" "networks w1 = networks w" "k < length (networks w)"
    "nw_cancel_calls w1 = nw_cancel_calls w" "next_request_id w1 = next_request_id w" "nw_ids w1 = nw_ids w"
    "list_all (\<lambda>sd. sd_network sd < length (networks w)) (nw_sends w1)"
  shows "ids_inv (request_done_callback k caller resp w1)"
proof -
  have "outstanding (request_done_callback k caller resp w1) = outstanding w1"
    by (simp add: outstanding_def request_done_callback_def set_network_def)
  moreover have "map no_request_ids (networks (request_done_callback k caller resp w1)) =
      (map no_request_ids (networks w))[k := remove1 (nr_id resp) (map no_request_ids (networks w) ! k)]"
    using assms(3,4) by (simp add: request_done_callback_def set_network_def map_update request_ids_update)
  ultimately show ?thesis
    using assms ids_ok_remove [of "map no_request_ids (networks w)" k "nr_id resp" "outstanding w1"]
    by (simp add: ids_inv_def) (simp add: request_done_callback_def set_network_def)
qed

lemma ids_inv_start: "ids_inv w \<Longrightarrow> ids_inv (snd (Network_Start created initialized config k w))"
  by (rule ids_inv_same) (auto simp: outstanding_def ids_inv_def)

lemma ids_inv_stop:
  assumes "ids_inv w" "singletons_ok w" "k < length (networks w)"
  shows "ids_inv (snd (Network_Stop k w))"
proof (cases "Started (networks w ! k)")
  case True
  with assms(2,3) obtain i where i: "no_singleton (networks w ! k) = Some i" "ns_protocol (singletons w ! i)"
    by (auto simp: singletons_ok_def list_all_length object_ok_def split: option.splits)
  let ?w = "snd (Network_Stop k w)"
  have "map no_request_ids (networks ?w) = (map no_request_ids (networks w))[k := []]"
    "set (nw_cancel_calls ?w) = set (nw_cancel_calls w) \<union> set (map no_request_ids (networks w) ! k)"
    "outstanding ?w = outstanding w" "next_request_id ?w = next_request_id w" "nw_ids ?w = nw_ids w" "nw_sends ?w = nw_sends w"
    "length (networks ?w) = length (networks w)"
    using True i assms(3) by (simp_all add: Network_Stop_eq set_network_def map_update outstanding_def)
  with assms(1,3) ids_ok_stop [of "map no_request_ids (networks w)" _ _ _ _ k] show ?thesis by (simp add: ids_inv_def)
qed (use assms in \<open>simp add: Network_Stop_eq\<close>)

lemma ids_inv_begin:
  assumes "ids_inv w" "k < length (networks w)" "Send_begin callback payload k w = Some w'"
  shows "ids_inv w'"
  using assms by (intro ids_inv_same [OF assms(1)])
    (auto simp: Send_begin_def outstanding_def sent_id_def ids_inv_def Let_def split: option.splits if_splits)

lemma ids_inv_insert:
  assumes "ids_inv w" "nw_sends w = before @ sd # after" "sd_id sd = None"
  shows "ids_inv (Send_insert sd before after w)"
proof -
  obtain i nx where n: "NextRequestId (next_request_id w) = (i, nx)" by fastforce
  let ?w = "Send_insert sd before after w"
  from assms have k: "sd_network sd < length (networks w)" by (simp add: ids_inv_def)
  then have "map no_request_ids (networks ?w) = (map no_request_ids (networks w))[sd_network sd := map no_request_ids (networks w) ! sd_network sd @ [i]]"
    "nw_ids ?w = Suc (nw_ids w)" "next_request_id ?w = nx" "nw_cancel_calls ?w = nw_cancel_calls w"
    "outstanding ?w = add_mset (sd_network sd, i) (outstanding w)" "length (networks ?w) = length (networks w)"
    "nw_sends ?w = before @ sd\<lparr>sd_id := Some i\<rparr> # after"
    using assms(2,3) by (simp_all add: Send_insert_def n set_network_def map_update request_ids_update outstanding_def sent_id_def)
  with assms k ids_ok_insert [OF _ _ _ n, of "map no_request_ids (networks w)"] show ?thesis by (simp add: ids_inv_def)
qed

lemma ids_inv_dispatch:
  assumes "ids_inv w" "nw_sends w = before @ sd # after" "sd_id sd = Some i"
  shows "ids_inv (Singleton_Send err sd i (w\<lparr>nw_sends := before @ after\<rparr>))"
proof -
  let ?w = "w\<lparr>nw_sends := before @ after\<rparr>"
  have out: "outstanding w = add_mset (sd_network sd, i) (outstanding ?w)"
    using assms(2,3) by (simp add: outstanding_def sent_id_def)
  from assms(1,2) have k: "sd_network sd < length (networks w)" "list_all (\<lambda>sd. sd_network sd < length (networks w)) (before @ after)"
    by (simp_all add: ids_inv_def)
  have "ids_inv (request_done_callback (sd_network sd) (sd_caller sd) resp ?w)" if "nr_id resp = i" for resp
    by (rule ids_inv_done [OF assms(1)]) (use out k that in simp_all)
  moreover have "ids_inv (?w\<lparr>nw_flights := nw_flights ?w @
      [\<lparr>fl_caller = sd_caller sd, fl_network = sd_network sd, fl_singleton = sd_singleton sd, fl_id = i\<rparr>]\<rparr>)"
    by (rule ids_inv_same [OF assms(1)]) (use out k in \<open>simp_all add: outstanding_def\<close>)
  ultimately show ?thesis
    by (simp add: Singleton_Send_def Let_def NetworkResponse_new_def HandleSynchronousNetworkErrors_def)
qed

lemma ids_inv_respond:
  assumes "ids_inv w" "nw_flights w = before @ f # after" "nr_id resp = fl_id f" "fl_network f < length (networks w)"
  shows "ids_inv (protocol_callback f resp (w\<lparr>nw_flights := before @ after\<rparr>))"
  unfolding protocol_callback_def Let_def
  by (rule ids_inv_done [OF assms(1)]) (use assms in \<open>simp_all add: outstanding_def set_singleton_def ids_inv_def\<close>)

lemma ids_inv_cancel:
  assumes "ids_inv w" "singletons_ok w" "k < length (networks w)"
  shows "ids_inv (snd (Network_Cancel cancelled i k w))"
proof (cases "Started (networks w ! k)")
  case True
  with assms(2,3) obtain j where j: "no_singleton (networks w ! k) = Some j" "ns_protocol (singletons w ! j)"
    by (auto simp: singletons_ok_def list_all_length object_ok_def split: option.splits)
  let ?w = "snd (Network_Cancel cancelled i k w)"
  have "map no_request_ids (networks ?w) = (map no_request_ids (networks w))[k := remove1 i (map no_request_ids (networks w) ! k)]"
    "set (nw_cancel_calls ?w) = insert i (set (nw_cancel_calls w))" "outstanding ?w = outstanding w"
    "next_request_id ?w = next_request_id w" "nw_ids ?w = nw_ids w" "nw_sends ?w = nw_sends w" "length (networks ?w) = length (networks w)"
    using True j assms(3)
    by (simp_all add: Network_Cancel_def Singleton_Cancel_def set_network_def map_update request_ids_update outstanding_def)
  with assms(1,3) ids_ok_cancel [of "map no_request_ids (networks w)" _ _ _ _ k] show ?thesis by (simp add: ids_inv_def)
qed (use assms in \<open>simp add: Network_Cancel_def split: option.splits\<close>)

lemma Network_CancelIfPending_eq:
  "singletons_ok w \<Longrightarrow> k < length (networks w) \<Longrightarrow>
   snd (Network_CancelIfPending pending i k w) = (if pending then snd (Network_Cancel True i k w) else w)"
  by (auto simp: Network_CancelIfPending_def Network_Cancel_def Singleton_CancelIfPending_def Singleton_Cancel_def
      set_network_def singletons_ok_def list_all_length object_ok_def Let_def split: option.splits)

text \<open>The objects that calls and requests belong to exist.\<close>

definition places_ok :: "net_world \<Rightarrow> bool" where
  "places_ok w \<longleftrightarrow>
     list_all (\<lambda>sd. sd_network sd < length (networks w)) (nw_sends w) \<and> list_all (\<lambda>f. fl_network f < length (networks w)) (nw_flights w)"

lemma Network_Start_length [simp]: "length (networks (snd (Network_Start created initialized config k w))) = length (networks w)"
  by (simp add: Network_Start_def case_prod_beta Let_def set_network_def)

lemma places_step: "net_step w w' \<Longrightarrow> places_ok w \<Longrightarrow> places_ok w'"
  by (induction rule: net_step.induct)
    (auto simp: network_defs places_ok_def list_all_iff less_SucI Let_def split: option.splits prod.splits if_splits)

lemma ids_step:
  assumes "net_step w w'" "ids_inv w" "singletons_ok w" "places_ok w"
  shows "ids_inv w'"
  using assms(1)
proof cases
  case create
  have "ids_ok (map no_request_ids (networks w')) (outstanding w) (set (nw_cancel_calls w)) (next_request_id w) (nw_ids w)"
    if "nw_ids w < ids_limit"
    using assms(2) that ids_ok_create by (simp add: create ids_inv_def NetworkObject_new_def)
  with assms(2) show ?thesis by (auto simp: create ids_inv_def outstanding_def list_all_iff)
next
  case (respond before f after resp)
  with assms(4) have "fl_network f < length (networks w)" by (simp add: places_ok_def)
  with respond assms(2) show ?thesis by (simp add: ids_inv_respond)
next
  case (cancel_pending k pending i)
  with assms show ?thesis by (simp add: Network_CancelIfPending_eq ids_inv_cancel)
next
  case unblock
  show ?thesis unfolding unblock
    by (rule ids_inv_same [OF assms(2)]) (use assms(2) in \<open>auto simp: Unblock_def set_singleton_def outstanding_def ids_inv_def split: option.splits\<close>)
next
  case (add_listener callback l)
  then show ?thesis
    by (intro ids_inv_same [OF assms(2)]) (use assms(2) in \<open>auto simp: AddListenerCallback_def outstanding_def ids_inv_def Let_def split: if_splits\<close>)
next
  case (remove_listener l)
  show ?thesis unfolding remove_listener
    by (rule ids_inv_same [OF assms(2)]) (use assms(2) in \<open>auto simp: RemoveListenerCallback_def outstanding_def ids_inv_def\<close>)
qed (use assms in \<open>auto intro: ids_inv_start ids_inv_stop ids_inv_begin ids_inv_insert ids_inv_dispatch ids_inv_cancel\<close>)

lemma net_reachable_inv:
  assumes "net_reachable w"
  shows "ids_inv w \<and> singletons_ok w \<and> places_ok w"
proof (rule net_invariant [OF _ _ assms])
  show "ids_inv net_world_new \<and> singletons_ok net_world_new \<and> places_ok net_world_new"
    by (simp add: net_world_new_def ids_inv_def ids_ok_def singletons_ok_def places_ok_def outstanding_def)
qed (use ids_step singletons_step places_step in blast)

lemma net_reachable_callers: "net_reachable w \<Longrightarrow> callers_ok w"
  by (rule net_invariant [where P = callers_ok, OF _ callers_step]) (simp_all add: net_world_new_def callers_ok_def callers_of_def)

lemma net_reachable_connection: "net_reachable w \<Longrightarrow> connection_ok w"
  by (rule net_invariant [where P = connection_ok, OF _ connection_step]) (simp_all add: net_world_new_def connection_ok_def last_offline_def)

section \<open>Examples\<close>

text \<open>An object is created and started, and a request is begun, given an id, and sent.\<close>

definition started_world :: net_world where
  "started_world = snd (Network_Start True True NetworkConfig_default 0 (net_world_new\<lparr>networks := [NetworkObject_new]\<rparr>))"

definition example_send :: net_send where
  "example_send = \<lparr>sd_caller = 0, sd_network = 0, sd_singleton = 0, sd_id = None\<rparr>"

definition begun_world :: net_world where
  "begun_world = started_world\<lparr>nw_callers := 1, nw_sends := [example_send]\<rparr>"

text \<open>Its id is taken and it is handed to the protocol.\<close>

definition inserted_then_sent :: "net_world \<Rightarrow> net_world" where
  "inserted_then_sent w =
     Singleton_Send ErrorNone (example_send\<lparr>sd_id := Some (request_id 1)\<rparr>) (request_id 1) ((Send_insert example_send [] [] w)\<lparr>nw_sends := []\<rparr>)"

definition example_flight :: net_flight where
  "example_flight = \<lparr>fl_caller = 0, fl_network = 0, fl_singleton = 0, fl_id = request_id 1\<rparr>"

lemma first_id: "NextRequestId RequestIdMin = (request_id 1, RequestIdMin + 1)"
  using next_id [of 0] by (simp add: ids_limit_def)

lemmas example_net_defs = started_world_def begun_world_def example_send_def example_flight_def net_world_new_def NetworkObject_new_def
  Network_Start_def SingletonInstance_def InitializeClient_def NetworkSingleton_new_def NextClientId_def set_singleton_def
  set_network_def Started_def inserted_then_sent_def Send_insert_def Singleton_Send_def RequestIds_Insert_def first_id

lemma begun_reachable: "net_reachable begun_world"
proof -
  let ?w = "net_world_new\<lparr>networks := [NetworkObject_new]\<rparr>"
  have "net_step net_world_new ?w" using net_step.create [of net_world_new] by (simp add: net_world_new_def)
  moreover have "net_step ?w started_world" unfolding started_world_def by (rule net_step.start) simp
  moreover have "net_step started_world begun_world"
    by (rule net_step.send_begin [of 0 _ True None]) (simp_all add: example_net_defs Send_begin_def Let_def)
  ultimately show ?thesis
    by (rule rtranclp.rtrancl_into_rtrancl [OF rtranclp.rtrancl_into_rtrancl [OF r_into_rtranclp]])
qed

lemma sent_reachable:
  assumes "net_reachable w" "nw_sends w = [example_send]" "next_request_id w = RequestIdMin"
  shows "net_reachable (inserted_then_sent w)"
proof -
  have "net_step w (Send_insert example_send [] [] w)"
    using assms(2) by (intro net_step.send_insert) (simp_all add: example_send_def)
  moreover have "net_step (Send_insert example_send [] [] w) (inserted_then_sent w)"
    using net_step.dispatch [of "Send_insert example_send [] [] w" "[]" "example_send\<lparr>sd_id := Some (request_id 1)\<rparr>" "[]" "request_id 1" ErrorNone] assms(3)
    by (simp add: inserted_then_sent_def Send_insert_def first_id set_network_def)
  ultimately show ?thesis using assms(1) by (meson rtranclp.simps)
qed

lemma begun_simps [simp]:
  "nw_sends begun_world = [example_send]" "next_request_id begun_world = RequestIdMin" "length (networks begun_world) = 1"
  "nw_callers begun_world = 1" "nw_flights begun_world = []" "nw_answers begun_world = []" "nw_statuses begun_world = []"
  by (simp_all add: example_net_defs Let_def)

definition sent_world :: net_world where
  "sent_world = inserted_then_sent begun_world"

lemma sent_simps [simp]:
  "nw_flights sent_world = [example_flight]" "nw_sends sent_world = []" "nw_ids sent_world = 1" "nw_callers sent_world = 1"
  "nw_answers sent_world = []" "length (networks sent_world) = 1" "Started (networks sent_world ! 0)"
  by (simp_all add: sent_world_def example_net_defs Let_def)

lemma sent_world_reachable: "net_reachable sent_world"
  unfolding sent_world_def by (rule sent_reachable [OF begun_reachable]) simp_all

text \<open>The protocol answers that there is no connection.\<close>

definition offline_world :: net_world where
  "offline_world = protocol_callback example_flight (NetworkResponse_new (request_id 1) Offline ''Offline'') (sent_world\<lparr>nw_flights := []\<rparr>)"

lemma offline_world_reachable: "net_reachable offline_world"
proof -
  have "net_step sent_world offline_world"
    using net_step.respond [of sent_world "[]" example_flight "[]" "NetworkResponse_new (request_id 1) Offline ''Offline''"]
    by (simp add: offline_world_def example_flight_def NetworkResponse_new_def)
  with sent_world_reachable show ?thesis by (meson rtranclp.simps)
qed

lemma offline_simps [simp]: "nw_statuses offline_world = [Offline]" "nw_sends offline_world = []" "nw_flights offline_world = []"
  "nw_callers offline_world = 1"
  by (simp_all add: offline_world_def protocol_callback_def request_done_callback_def NotifyListeners_def set_singleton_def set_network_def
      NetworkResponse_new_def sent_world_def example_net_defs Let_def)

text \<open>The object is stopped between the beginning and the end of a call.\<close>

definition overtaken_world :: net_world where
  "overtaken_world = inserted_then_sent (snd (Network_Stop 0 begun_world))"

lemma overtaken_reachable: "net_reachable overtaken_world"
proof -
  have "net_step begun_world (snd (Network_Stop 0 begun_world))" by (rule net_step.stop) simp
  with begun_reachable have "net_reachable (snd (Network_Stop 0 begun_world))" by (meson rtranclp.simps)
  then show ?thesis unfolding overtaken_world_def by (rule sent_reachable) (simp_all add: Network_Stop_eq set_network_def)
qed

section \<open>Properties\<close>

text \<open>
  C14: the callers of the network. However the calls and responses of all objects interleave, every call of \<open>Send\<close> is in exactly one
  place: still in the call, in flight, or answered. So no callback is called twice and none is forgotten: once no call
  and no request is under way every caller has its response, the one \<open>SendAndWait\<close> returns.
\<close>

theorem network_callers_answered:
  assumes "net_reachable w"
  shows "callers_of w = mset [0..<nw_callers w] \<and> distinct (map fst (nw_answers w)) \<and>
    (nw_sends w = [] \<and> nw_flights w = [] \<and> c < nw_callers w \<longrightarrow> (\<exists>resp. SendAndWait_result c w = Some resp))"
proof -
  from net_reachable_callers [OF assms] have c: "callers_of w = mset [0..<nw_callers w]" by (simp add: callers_ok_def)
  then have "mset (map sd_caller (nw_sends w) @ map fl_caller (nw_flights w) @ map fst (nw_answers w)) = mset [0..<nw_callers w]"
    by (simp add: callers_of_def add.assoc)
  from mset_eq_imp_distinct_iff [OF this]
  have "distinct (map sd_caller (nw_sends w) @ map fl_caller (nw_flights w) @ map fst (nw_answers w))" by (simp only: distinct_upt)
  then have "distinct (map fst (nw_answers w))" by simp
  moreover have "\<exists>resp. SendAndWait_result c w = Some resp" if "nw_sends w = []" "nw_flights w = []" "c < nw_callers w"
  proof -
    from that c have "set_mset (mset (map fst (nw_answers w))) = set_mset (mset [0..<nw_callers w])" by (simp add: callers_of_def)
    with that(3) have "c \<in> fst ` set (nw_answers w)" by auto
    then show ?thesis by (simp add: SendAndWait_result_def) (metis map_of_eq_None_iff not_None_eq)
  qed
  ultimately show ?thesis using c by blast
qed

theorem network_callers_answered_witness: "\<exists>resp. SendAndWait_result 0 offline_world = Some resp"
  using network_callers_answered [OF offline_world_reachable, of 0] by simp

text \<open>
  C21: what \<open>Stop\<close> does to the requests of an object. As long as the request ids have not wrapped around, the ids an object
  remembers are those of its own requests that are under way, and after \<open>Stop\<close> the object remembers none and the protocol has been asked to
  cancel every request of the object that is in flight.
\<close>

theorem network_stop_cancels:
  assumes "net_reachable w" "nw_ids w < ids_limit" "k < length (networks w)" "Started (networks w ! k)"
  shows "(\<forall>i \<in> set (no_request_ids (networks w ! k)). (k, i) \<in># outstanding w) \<and>
    no_request_ids (networks (snd (Network_Stop k w)) ! k) = [] \<and>
    (\<forall>f \<in> set (nw_flights (snd (Network_Stop k w))). fl_network f = k \<longrightarrow> fl_id f \<in> set (nw_cancel_calls (snd (Network_Stop k w))))"
proof -
  let ?w = "snd (Network_Stop k w)"
  from net_reachable_inv [OF assms(1)] ids_inv_stop assms(3) have inv: "ids_inv w" "ids_inv ?w" by blast+
  have same: "nw_ids ?w = nw_ids w" "nw_flights ?w = nw_flights w" "length (networks ?w) = length (networks w)"
    "no_request_ids (networks ?w ! k) = []"
    using assms(3,4) by (simp_all add: Network_Stop_eq set_network_def)
  have "fl_id f \<in> set (nw_cancel_calls ?w)" if "f \<in> set (nw_flights ?w)" "fl_network f = k" for f
  proof -
    from that have "(k, fl_id f) \<in># outstanding ?w" by (force simp: outstanding_def)
    with inv(2) assms(2,3) same show ?thesis by (fastforce simp: ids_inv_def ids_ok_def)
  qed
  moreover have "\<forall>i \<in> set (no_request_ids (networks w ! k)). (k, i) \<in># outstanding w"
    using inv(1) assms(2,3) by (simp add: ids_inv_def ids_ok_def)
  ultimately show ?thesis using same(4) by blast
qed

theorem network_stop_cancels_witness: "fl_id example_flight \<in> set (nw_cancel_calls (snd (Network_Stop 0 sent_world)))"
proof -
  have "nw_ids sent_world < ids_limit" "0 < length (networks sent_world)" by (simp_all add: ids_limit_def)
  moreover have "example_flight \<in> set (nw_flights (snd (Network_Stop 0 sent_world)))" by (simp add: Network_Stop_eq set_network_def)
  moreover have "fl_network example_flight = 0" by (simp add: example_flight_def)
  ultimately show ?thesis using network_stop_cancels [OF sent_world_reachable] sent_simps(7) by blast
qed

text \<open>
  What the listeners are told. In every reachable state the announcements are exactly the changes between connected and not
  connected in the sequence of statuses of the responses: the loss of the connection once, its return once.
\<close>

theorem connection_changes_announced:
  assumes "net_reachable w"
  shows "nw_announced w = connection_changes False (nw_statuses w)"
  using net_reachable_connection [OF assms] by (simp add: connection_ok_def)

theorem connection_changes_announced_witness: "nw_announced offline_world = [NoConnection]"
  using connection_changes_announced [OF offline_world_reachable] by (simp add: offline_status_def)

text \<open>The certificate is updated at most once for a singleton, and the network is blocked only after that.\<close>

lemma certificate_updated_once:
  assumes "net_reachable w" "s \<in> set (singletons w)"
  shows "ns_certificate_updates s \<le> 1 \<and> (ns_blocked s \<longrightarrow> ns_certificate_updates s = 1)"
  using net_reachable_inv [OF assms(1)] assms(2) by (auto simp: singletons_ok_def singleton_ok_def list_all_iff)

text \<open>
  A call of \<open>Send\<close> that has seen the object started goes on after \<open>Stop\<close>: its request is sent and not cancelled, and the
  stopped object remembers its id.
\<close>

theorem stop_misses_request:
  "\<exists>w. net_reachable w \<and> \<not> Started (networks w ! 0) \<and> nw_flights w = [example_flight] \<and> nw_cancel_calls w = [] \<and>
     no_request_ids (networks w ! 0) = [fl_id example_flight]"
proof (intro exI conjI)
  show "net_reachable overtaken_world" by (rule overtaken_reachable)
qed (simp_all add: overtaken_world_def Network_Stop_eq example_net_defs Let_def)

end
