(* ===== verification/Curl_Headers.thy ===== *)
theory Curl_Headers
  imports Network_Queue Default_Cache
begin

text \<open>
  Component core: the texts of requests and responses. The comparisons of \<open>NetworkUtils.cpp\<close>, the headers that
  \<open>NetworkProtocolCurl::HeaderFunction\<close> reads into the handle of a request (\<open>olp-cpp-sdk-core/src/network/curl/NetworkProtocolCurl.cpp\<close>),
  and \<open>CensorCredentialsInUrl\<close> (\<open>Credentials.cpp\<close>), which hides credentials in what is logged.

  Lengths and offsets are of type \<open>size_t\<close>, and their differences wrap around. A read beyond the null character of a string
  is \<open>ReadOutOfBounds\<close>, a number that \<open>std::stoi\<close> or \<open>std::stoll\<close> rejects is \<open>NumberInvalid\<close>: the exception leaves
  a callback of libcurl. The date parser of libcurl is a parameter.

  Shown: the search finds the first match but not one at the end of the text, and runs out of bounds for a pattern that is longer than the text; no
  header makes \<open>HeaderFunction\<close> read out of bounds; a censored address keeps its length and hides the value of the argument.
\<close>

section \<open>Comparison without case\<close>

datatype text_error = ReadOutOfBounds | NumberInvalid

definition SimpleToUpper :: "char \<Rightarrow> char" where
  "SimpleToUpper c = (if of_char c \<ge> (97 :: nat) \<and> of_char c \<le> (122 :: nat) then char_of (of_char c - 32 :: nat) else c)"

text \<open>\<open>operator[]\<close>: the character at the length is null.\<close>

definition char_at :: "string \<Rightarrow> nat \<Rightarrow> text_error + char" where
  "char_at s i = (if i < length s then Inr (s ! i) else if i = length s then Inr (char_of (0 :: nat)) else Inl ReadOutOfBounds)"

definition size_of :: "string \<Rightarrow> size_t" where
  "size_of s = of_nat (length s)"

text \<open>The loop over the second string from the index \<open>i\<close>.\<close>

fun compare_from :: "string \<Rightarrow> nat \<Rightarrow> string \<Rightarrow> text_error + bool" where
  "compare_from str1 i [] = Inr True"
| "compare_from str1 i (c # cs) =
     (case char_at str1 i of
        Inl e \<Rightarrow> Inl e
      | Inr d \<Rightarrow> if SimpleToUpper d \<noteq> SimpleToUpper c then Inr False else compare_from str1 (Suc i) cs)"

definition CaseInsensitiveCompare_at :: "string \<Rightarrow> string \<Rightarrow> nat \<Rightarrow> text_error + bool" where
  "CaseInsensitiveCompare_at str1 str2 offset =
     (if size_of str1 - of_nat offset \<noteq> size_of str2 then Inr False else compare_from str1 offset str2)"

definition CaseInsensitiveStartsWith :: "string \<Rightarrow> string \<Rightarrow> nat \<Rightarrow> text_error + bool" where
  "CaseInsensitiveStartsWith str1 str2 offset =
     (if size_of str1 - of_nat offset < size_of str2 then Inr False else compare_from str1 offset str2)"

text \<open>The loop of the search, with the number of offsets that are left; \<open>None\<close> is \<open>npos\<close>.\<close>

fun find_from :: "string \<Rightarrow> string \<Rightarrow> nat \<Rightarrow> nat \<Rightarrow> text_error + nat option" where
  "find_from str1 str2 0 offset = Inr None"
| "find_from str1 str2 (Suc left) offset =
     (case (char_at str1 offset, char_at str2 0) of
        (Inr c, Inr d) \<Rightarrow>
          if SimpleToUpper c = SimpleToUpper d
          then (case CaseInsensitiveStartsWith str1 str2 offset of
                  Inl e \<Rightarrow> Inl e
                | Inr found \<Rightarrow> if found then Inr (Some offset) else find_from str1 str2 left (Suc offset))
          else find_from str1 str2 left (Suc offset)
      | _ \<Rightarrow> Inl ReadOutOfBounds)"

definition CaseInsensitiveFind :: "string \<Rightarrow> string \<Rightarrow> nat \<Rightarrow> text_error + nat option" where
  "CaseInsensitiveFind str1 str2 offset = find_from str1 str2 (unat (size_of str1 - size_of str2) - offset) offset"

text \<open>\<open>substr\<close> from a position to the end, which throws beyond the end.\<close>

definition substr_from :: "string \<Rightarrow> nat \<Rightarrow> text_error + string" where
  "substr_from s n = (if n \<le> length s then Inr (drop n s) else Inl ReadOutOfBounds)"

section \<open>Headers of a response\<close>

text \<open>What the headers of a response set in the handle of its request.\<close>

record response_headers =
  rh_date :: string
  rh_max_age :: int
  rh_expires :: int
  rh_etag :: string
  rh_content_type :: string
  rh_range_out :: bool
  rh_offset :: u64

definition no_headers :: response_headers where
  "no_headers = \<lparr>rh_date = [], rh_max_age = - 1, rh_expires = - 1, rh_etag = [], rh_content_type = [], rh_range_out = False, rh_offset = 0\<rparr>"

definition stoi :: "string \<Rightarrow> int option" where
  "stoi s = (case stol s of Some n \<Rightarrow> if - (2 ^ 31) \<le> n \<and> n < 2 ^ 31 then Some n else None | None \<Rightarrow> None)"

text \<open>The ends of lines are dropped, but not the first character.\<close>

fun drop_line_end :: "string \<Rightarrow> string" where
  "drop_line_end (c # d # s) = (if c = CHR 0x0A \<or> c = CHR 0x0D then drop_line_end (d # s) else c # d # s)"
| "drop_line_end r = r"

definition header_text :: "string \<Rightarrow> string" where
  "header_text buffer = rev (drop_line_end (rev buffer))"

text \<open>\<open>Content-Range\<close>: an offset, or the mark of a range beyond the end; other values are logged.\<close>

definition content_range :: "string \<Rightarrow> response_headers \<Rightarrow> text_error + response_headers" where
  "content_range str h =
     (case CaseInsensitiveStartsWith str ''bytes '' 15 of
        Inl e \<Rightarrow> Inl e
      | Inr False \<Rightarrow> Inr h
      | Inr True \<Rightarrow>
          (case char_at str 21 of
             Inl e \<Rightarrow> Inl e
           | Inr c \<Rightarrow>
               if c = CHR ''*''
               then (case char_at str 22 of
                       Inl e \<Rightarrow> Inl e
                     | Inr d \<Rightarrow> if d = CHR ''/'' then Inr (h\<lparr>rh_range_out := True\<rparr>) else Inr h)
               else if is_digit c
               then (case substr_from str 21 of
                       Inl e \<Rightarrow> Inl e
                     | Inr number \<Rightarrow> (case stol number of None \<Rightarrow> Inl NumberInvalid | Some n \<Rightarrow> Inr (h\<lparr>rh_offset := of_int n\<rparr>)))
               else Inr h))"

text \<open>The value of a header that is kept as text.\<close>

definition text_value :: "nat \<Rightarrow> string \<Rightarrow> (string \<Rightarrow> response_headers) \<Rightarrow> text_error + response_headers" where
  "text_value n str update = (case substr_from str n of Inl e \<Rightarrow> Inl e | Inr v \<Rightarrow> Inr (update v))"

definition cache_control :: "string \<Rightarrow> response_headers \<Rightarrow> text_error + response_headers" where
  "cache_control str h =
     (case CaseInsensitiveFind str ''max-age='' 8 of
        Inl e \<Rightarrow> Inl e
      | Inr None \<Rightarrow> Inr h
      | Inr (Some index) \<Rightarrow>
          (case substr_from str (index + 8) of
             Inl e \<Rightarrow> Inl e
           | Inr number \<Rightarrow> (case stoi number of None \<Rightarrow> Inl NumberInvalid | Some n \<Rightarrow> Inr (h\<lparr>rh_max_age := n\<rparr>))))"

definition expires_value :: "(string \<Rightarrow> int) \<Rightarrow> string \<Rightarrow> int" where
  "expires_value getdate dateString = (if dateString = ''0'' then 0 else if dateString = ''-1'' then - 1 else getdate dateString)"

text \<open>The branches on the name of the header, tried in order.\<close>

fun first_header :: "string \<Rightarrow> (string \<times> (text_error + 'a)) list \<Rightarrow> text_error + 'a \<Rightarrow> text_error + 'a" where
  "first_header str [] otherwise = otherwise"
| "first_header str ((name, branch) # branches) otherwise =
     (case CaseInsensitiveStartsWith str name 0 of
        Inl e \<Rightarrow> Inl e
      | Inr found \<Rightarrow> if found then branch else first_header str branches otherwise)"

definition header_value :: "(string \<Rightarrow> int) \<Rightarrow> string \<Rightarrow> response_headers \<Rightarrow> text_error + response_headers" where
  "header_value getdate str h =
     first_header str
       [(''Date:'', text_value 6 str (\<lambda>v. h\<lparr>rh_date := v\<rparr>)),
        (''Cache-Control:'', cache_control str h),
        (''Expires:'', text_value 9 str (\<lambda>v. h\<lparr>rh_expires := expires_value getdate v\<rparr>)),
        (''ETag:'', text_value 6 str (\<lambda>v. h\<lparr>rh_etag := v\<rparr>)),
        (''Content-Type:'', text_value 14 str (\<lambda>v. h\<lparr>rh_content_type := v\<rparr>)),
        (''Content-Range:'', content_range str h)] (Inr h)"

text \<open>
  The callback for a header line: what the header callback of the request is called with, and the handle.
  \<open>active\<close> is that the protocol is started and the request not cancelled.
\<close>

definition HeaderFunction :: "(string \<Rightarrow> int) \<Rightarrow> bool \<Rightarrow> string \<Rightarrow> response_headers \<Rightarrow> text_error + (string \<times> string) option \<times> response_headers" where
  "HeaderFunction getdate active buffer h =
     (if \<not> active then Inr (None, h)
      else let str = header_text buffer; pos = length (takeWhile (\<lambda>c. c \<noteq> CHR '':'') str)
           in if str = [] \<or> pos = length str \<or> pos + 2 \<ge> length str then Inr (None, h)
              else (case header_value getdate str h of
                      Inl e \<Rightarrow> Inl e
                    | Inr h' \<Rightarrow> Inr (Some (take pos str, drop (pos + 2) str), h')))"

section \<open>Credentials\<close>

text \<open>\<open>std::string::find\<close> of a text from a position.\<close>

fun find_string :: "string \<Rightarrow> string \<Rightarrow> nat option" where
  "find_string p [] = (if p = [] then Some 0 else None)"
| "find_string p (c # s) = (if take (length p) (c # s) = p then Some 0 else map_option Suc (find_string p s))"

definition censor_credentials_part :: "nat \<Rightarrow> string \<Rightarrow> string \<Rightarrow> string" where
  "censor_credentials_part arguments_start part_name address =
     (case find_string part_name (drop arguments_start address) of
        None \<Rightarrow> address
      | Some argument_start \<Rightarrow>
          let value_start = arguments_start + argument_start + length part_name;
              hidden = length (takeWhile (\<lambda>c. c \<noteq> CHR ''&'') (drop value_start address))
          in take value_start address @ replicate hidden CHR ''*'' @ drop (value_start + hidden) address)"

definition CensorCredentialsInUrl :: "string \<Rightarrow> string" where
  "CensorCredentialsInUrl address =
     (let arguments_start = length (takeWhile (\<lambda>c. c \<noteq> CHR ''?'') address)
      in if arguments_start = length address then address
         else censor_credentials_part arguments_start ''app_code='' (censor_credentials_part arguments_start ''app_id='' address))"

section \<open>Lemmas\<close>

abbreviation upper :: "string \<Rightarrow> string" where "upper s \<equiv> map SimpleToUpper s"

lemma compare_from_eq:
  "i + length cs \<le> length str1 \<Longrightarrow> compare_from str1 i cs = Inr (upper (take (length cs) (drop i str1)) = upper cs)"
proof (induction cs arbitrary: i)
  case (Cons c cs)
  then have "drop i str1 = str1 ! i # drop (Suc i) str1" by (intro Cons_nth_drop_Suc [symmetric]) simp
  with Cons show ?case by (simp add: char_at_def)
qed simp

lemma size_minus: "offset \<le> length s \<Longrightarrow> length s < 2 ^ 64 \<Longrightarrow> unat (size_of s - of_nat offset) = length s - offset"
  by (simp add: size_of_def unat_of_nat take_bit_nat_eq_self flip: of_nat_diff)

lemma unat_size: "length s < 2 ^ 64 \<Longrightarrow> unat (size_of s) = length s"
  by (simp add: size_of_def unat_of_nat take_bit_nat_eq_self)

lemma starts_with_eq:
  assumes "offset \<le> length str1" "length str1 < 2 ^ 64" "length str2 < 2 ^ 64"
  shows "CaseInsensitiveStartsWith str1 str2 offset =
    Inr (length str2 \<le> length str1 - offset \<and> upper (take (length str2) (drop offset str1)) = upper str2)"
proof -
  have "size_of str1 - of_nat offset < size_of str2 \<longleftrightarrow> length str1 - offset < length str2"
    using assms by (simp add: word_less_nat_alt size_minus unat_size)
  with assms(1) show ?thesis by (auto simp: CaseInsensitiveStartsWith_def compare_from_eq)
qed

text \<open>The search: the first match before the last possible offset.\<close>

definition matches_at :: "string \<Rightarrow> string \<Rightarrow> nat \<Rightarrow> bool" where
  "matches_at str1 str2 i \<longleftrightarrow> upper (take (length str2) (drop i str1)) = upper str2"

lemma find_from_eq:
  assumes "length str1 < 2 ^ 64" "str2 \<noteq> []" "offset + left + length str2 \<le> length str1"
  shows "find_from str1 str2 left offset = Inr (find (matches_at str1 str2) [offset..<offset + left])"
  using assms(3)
proof (induction left arbitrary: offset)
  case (Suc left)
  have "length str2 < 2 ^ 64" using Suc.prems assms(1) by simp
  then have s: "CaseInsensitiveStartsWith str1 str2 offset = Inr (matches_at str1 str2 offset)"
    using Suc.prems assms(1) by (subst starts_with_eq) (auto simp: matches_at_def)
  have d: "drop offset str1 = str1 ! offset # drop (Suc offset) str1"
    using Suc.prems assms(2) by (intro Cons_nth_drop_Suc [symmetric]) (cases str2; simp)
  have "SimpleToUpper (str1 ! offset) = SimpleToUpper (str2 ! 0)" if "matches_at str1 str2 offset"
    using that assms(2) d by (cases str2) (auto simp: matches_at_def)
  moreover have "[offset..<offset + Suc left] = offset # [Suc offset..<Suc offset + left]" by (simp add: upt_conv_Cons)
  moreover have "offset < length str1" "0 < length str2" using Suc.prems assms(2) by (cases str2; simp)+
  ultimately show ?case using Suc.IH [of "Suc offset"] Suc.prems by (auto simp: char_at_def s)
qed simp

lemma CaseInsensitiveFind_eq:
  assumes "length str1 < 2 ^ 64" "str2 \<noteq> []" "length str2 \<le> length str1" "offset \<le> length str1 - length str2"
  shows "CaseInsensitiveFind str1 str2 offset = Inr (find (matches_at str1 str2) [offset..<length str1 - length str2])"
proof -
  have "unat (size_of str1 - size_of str2) = length str1 - length str2"
    using size_minus [of "length str2" str1] assms by (simp add: size_of_def)
  with assms find_from_eq [of str1 str2 offset "length str1 - length str2 - offset"] show ?thesis
    by (simp add: CaseInsensitiveFind_def)
qed

lemma upper_colon: "SimpleToUpper c = CHR '':'' \<longleftrightarrow> c = CHR '':''"
proof -
  have "char_of (of_char c - 32 :: nat) \<noteq> CHR '':''" if "97 \<le> (of_char c :: nat)" "(of_char c :: nat) \<le> 122"
  proof
    assume "char_of (of_char c - 32 :: nat) = CHR '':''"
    then have "of_char (char_of (of_char c - 32 :: nat)) = (of_char CHR '':'' :: nat)" by simp
    with that show False by simp
  qed
  moreover have "c \<noteq> CHR '':''" if "97 \<le> (of_char c :: nat)" using that by auto
  ultimately show ?thesis by (auto simp: SimpleToUpper_def)
qed

text \<open>A text that starts with a name: the first colon is not before the end of the name.\<close>

definition starts :: "string \<Rightarrow> string \<Rightarrow> bool" where
  "starts str p \<longleftrightarrow> length p \<le> length str \<and> upper (take (length p) str) = upper p"

lemma name_before_colon:
  assumes "starts str (p @ '':'')" "CHR '':'' \<notin> set p"
  shows "length p \<le> length (takeWhile (\<lambda>c. c \<noteq> CHR '':'') str)"
proof (rule length_takeWhile_less_P_nth)
  fix j assume j: "j < length p"
  from assms(1) have u: "upper (take (Suc (length p)) str) = upper p @ [SimpleToUpper CHR '':'']" and len: "Suc (length p) \<le> length str"
    by (simp_all add: starts_def)
  have "SimpleToUpper (str ! j) = upper (take (Suc (length p)) str) ! j" using j len by simp
  also have "\<dots> = SimpleToUpper (p ! j)" unfolding u using j by (simp add: nth_append)
  finally have "SimpleToUpper (str ! j) = SimpleToUpper (p ! j)" .
  moreover have "p ! j \<noteq> CHR '':''" using j assms(2) nth_mem by metis
  ultimately show "str ! j \<noteq> CHR '':''" by (metis upper_colon)
qed (use assms(1) in \<open>simp add: starts_def\<close>)

text \<open>A branch is taken only for a text that starts with its name.\<close>

lemma first_header_ok:
  assumes "length str < 2 ^ 64" "otherwise \<noteq> Inl ReadOutOfBounds"
    and "list_all (\<lambda>(name, branch). length name < 2 ^ 64 \<and> (starts str name \<longrightarrow> branch \<noteq> Inl ReadOutOfBounds)) branches"
  shows "first_header str branches otherwise \<noteq> Inl ReadOutOfBounds"
  using assms(3)
proof (induction branches)
  case (Cons b branches)
  obtain name branch where b: "b = (name, branch)" by (cases b)
  with Cons.prems assms(1) have "CaseInsensitiveStartsWith str name 0 = Inr (starts str name)" by (simp add: starts_with_eq starts_def)
  with Cons show ?case by (simp add: b)
qed (use assms(2) in simp)

lemma text_value_ok: "n \<le> length str \<Longrightarrow> text_value n str update \<noteq> Inl ReadOutOfBounds"
  by (simp add: text_value_def substr_from_def)

lemma cache_control_ok:
  assumes "length str < 2 ^ 64" "16 \<le> length str"
  shows "cache_control str h \<noteq> Inl ReadOutOfBounds"
proof -
  have find_eq: "CaseInsensitiveFind str ''max-age='' 8 = Inr (find (matches_at str ''max-age='') [8..<length str - length ''max-age=''])"
    by (rule CaseInsensitiveFind_eq) (use assms in simp_all)
  have "index + 8 \<le> length str" if "find (matches_at str ''max-age='') [8..<length str - length ''max-age=''] = Some index" for index
    using that by (auto simp: find_Some_iff)
  then show ?thesis unfolding cache_control_def find_eq by (auto simp: substr_from_def split: option.splits)
qed

lemma null_not_star: "char_of (0 :: nat) \<noteq> CHR ''*''"
proof
  assume "char_of (0 :: nat) = CHR ''*''"
  then have "of_char (char_of (0 :: nat)) = (of_char CHR ''*'' :: nat)" by simp
  then show False by simp
qed

lemma content_range_ok:
  assumes "length str < 2 ^ 64" "16 \<le> length str"
  shows "content_range str h \<noteq> Inl ReadOutOfBounds"
proof -
  have "CaseInsensitiveStartsWith str ''bytes '' 15 =
      Inr (length ''bytes '' \<le> length str - 15 \<and> upper (take (length ''bytes '') (drop 15 str)) = upper ''bytes '')"
    by (rule starts_with_eq) (use assms in simp_all)
  moreover have "length ''bytes '' \<le> length str - 15 \<Longrightarrow> 21 \<le> length str" by simp
  ultimately obtain b where b: "CaseInsensitiveStartsWith str ''bytes '' 15 = Inr b" "b \<longrightarrow> 21 \<le> length str" by blast
  then show ?thesis by (auto simp: content_range_def char_at_def substr_from_def null_not_star split: option.splits bool.splits)
qed

lemma header_value_ok:
  assumes "length str < 2 ^ 64" "length (takeWhile (\<lambda>c. c \<noteq> CHR '':'') str) + 2 < length str"
  shows "header_value getdate str h \<noteq> Inl ReadOutOfBounds"
proof -
  have long: "length p + 2 < length str" if "starts str (p @ '':'')" "CHR '':'' \<notin> set p" for p
    using name_before_colon [OF that] assms(2) by simp
  have "text_value 6 str f \<noteq> Inl ReadOutOfBounds" if "starts str ''Date:''" for f
    using long [of "''Date''"] that by (intro text_value_ok) simp
  moreover have "cache_control str h \<noteq> Inl ReadOutOfBounds" if "starts str ''Cache-Control:''"
    using long [of "''Cache-Control''"] that assms(1) by (intro cache_control_ok) simp_all
  moreover have "text_value 9 str f \<noteq> Inl ReadOutOfBounds" if "starts str ''Expires:''" for f
    using long [of "''Expires''"] that by (intro text_value_ok) simp
  moreover have "text_value 6 str f \<noteq> Inl ReadOutOfBounds" if "starts str ''ETag:''" for f
    using long [of "''ETag''"] that by (intro text_value_ok) simp
  moreover have "text_value 14 str f \<noteq> Inl ReadOutOfBounds" if "starts str ''Content-Type:''" for f
    using long [of "''Content-Type''"] that by (intro text_value_ok) simp
  moreover have "content_range str h \<noteq> Inl ReadOutOfBounds" if "starts str ''Content-Range:''"
    using long [of "''Content-Range''"] that assms(1) by (intro content_range_ok) simp_all
  ultimately show ?thesis unfolding header_value_def by (intro first_header_ok [OF assms(1)]) simp_all
qed

section \<open>Censored addresses\<close>

lemma find_string_Some: "find_string p s = Some n \<Longrightarrow> n + length p \<le> length s \<and> take (length p) (drop n s) = p"
proof (induction s arbitrary: n)
  case (Cons c s)
  show ?case
  proof (cases "take (length p) (c # s) = p")
    case True
    with Cons.prems have "n = 0" by simp
    with True show ?thesis by (metis add_0 drop0 length_take min.cobounded1)
  next
    case False
    with Cons.prems obtain m where "n = Suc m" "find_string p s = Some m" by auto
    with Cons.IH show ?thesis by simp
  qed
qed (simp split: if_splits)

lemma censor_part_length: "length (censor_credentials_part start name address) = length address"
proof (cases "find_string name (drop start address)")
  case (Some n)
  let ?v = "start + n + length name"
  have "?v \<le> length address \<or> name = []" using find_string_Some [OF Some] by (cases "start \<le> length address") auto
  moreover have "length (takeWhile (\<lambda>c. c \<noteq> CHR ''&'') (drop ?v address)) \<le> length (drop ?v address)" by (rule length_takeWhile_le)
  ultimately show ?thesis using find_string_Some [OF Some] by (simp add: censor_credentials_part_def Some Let_def)
qed (simp add: censor_credentials_part_def)

text \<open>The value of the argument is hidden, and nothing else is changed.\<close>

lemma censor_part_hides:
  assumes "find_string name (drop start address) = Some n" "start \<le> length address"
    and "i < length address"
  shows "censor_credentials_part start name address ! i =
    (if start + n + length name \<le> i \<and> CHR ''&'' \<notin> set (drop (start + n + length name) (take (Suc i) address)) then CHR ''*'' else address ! i)"
proof -
  let ?v = "start + n + length name"
  let ?hidden = "length (takeWhile (\<lambda>c. c \<noteq> CHR ''&'') (drop ?v address))"
  from find_string_Some [OF assms(1)] have "n + length name \<le> length address - start" by simp
  with assms(2) have v: "?v \<le> length address" by linarith
  have h: "?v + ?hidden \<le> length address" using v length_takeWhile_le [of _ "drop ?v address"] by (metis add_le_cancel_left le_add_diff_inverse length_drop)
  have hidden_iff: "CHR ''&'' \<notin> set (drop ?v (take (Suc i) address)) \<longleftrightarrow> i < ?v + ?hidden" if "?v \<le> i"
  proof
    assume no: "CHR ''&'' \<notin> set (drop ?v (take (Suc i) address))"
    have "Suc (i - ?v) \<le> ?hidden"
    proof (rule length_takeWhile_less_P_nth)
      fix j assume "j < Suc (i - ?v)"
      with that have j: "?v + j < Suc i" by linarith
      with assms(3) have "j < length (drop ?v (take (Suc i) address))" by (simp add: min_def) linarith
      moreover from j v have "drop ?v (take (Suc i) address) ! j = drop ?v address ! j" using assms(3) by simp
      ultimately show "drop ?v address ! j \<noteq> CHR ''&''" using no by (metis nth_mem)
    qed (use assms(3) that in simp)
    with that show "i < ?v + ?hidden" by simp
  next
    assume "i < ?v + ?hidden"
    then have i: "Suc i - ?v \<le> ?hidden" using that by linarith
    have "x \<noteq> CHR ''&''" if "x \<in> set (take (Suc i - ?v) (drop ?v address))" for x
    proof -
      from that obtain j where j: "j < Suc i - ?v" "j < length (drop ?v address)" "x = drop ?v address ! j"
        by (auto simp: in_set_conv_nth)
      with i have k: "j < ?hidden" by linarith
      with j(3) have "x = takeWhile (\<lambda>c. c \<noteq> CHR ''&'') (drop ?v address) ! j" by (simp add: takeWhile_nth)
      with k have "x \<in> set (takeWhile (\<lambda>c. c \<noteq> CHR ''&'') (drop ?v address))" by (simp add: nth_mem)
      then show ?thesis by (auto dest: set_takeWhileD)
    qed
    then show "CHR ''&'' \<notin> set (drop ?v (take (Suc i) address))" unfolding drop_take by blast
  qed
  show ?thesis
    using v h hidden_iff assms(3)
    by (auto simp: censor_credentials_part_def assms(1) Let_def nth_append min_def)
qed

section \<open>Properties\<close>

text \<open>
  C38: the header lines of a response. Whatever a server sends, the callback for header lines reads within the line, with all the
  fixed positions it takes the values of headers from; it can only fail by a number that is not one.
\<close>

theorem headers_in_bounds:
  assumes "length buffer < 2 ^ 64"
  shows "HeaderFunction getdate active buffer h \<noteq> Inl ReadOutOfBounds"
proof -
  have "length (drop_line_end r) \<le> length r" for r by (induction r rule: drop_line_end.induct) auto
  from this [of "rev buffer"] assms have "length (header_text buffer) < 2 ^ 64" by (simp add: header_text_def)
  from header_value_ok [OF this, of getdate h] show ?thesis
    by (cases "header_value getdate (header_text buffer) h") (simp_all add: HeaderFunction_def Let_def)
qed

theorem headers_in_bounds_witness:
  "HeaderFunction (\<lambda>_. 0) True ''Content-Range: bytes */9'' no_headers \<noteq> Inl ReadOutOfBounds \<and>
   HeaderFunction (\<lambda>_. 0) True ''Cache-Control: max-age=x'' no_headers \<noteq> Inl ReadOutOfBounds"
  using headers_in_bounds [of "''Content-Range: bytes */9''"] headers_in_bounds [of "''Cache-Control: max-age=x''"] by simp

text \<open>A number that is not one: the exception of \<open>std::stoi\<close> is thrown through libcurl.\<close>

lemma invalid_max_age: "cache_control ''Cache-Control: max-age=x'' h = Inl NumberInvalid"
  by code_simp

text \<open>The search does not find a match at the end of the text, not even the text itself.\<close>

lemma find_misses_end: "str \<noteq> [] \<Longrightarrow> length str < 2 ^ 64 \<Longrightarrow> CaseInsensitiveFind str str 0 = Inr None"
  by (simp add: CaseInsensitiveFind_eq)

lemma find_longer_pattern: "CaseInsensitiveFind ''a'' ''bcd'' 0 = Inl ReadOutOfBounds"
proof -
  have "unat (size_of ''a'' - size_of ''bcd'') = 18446744073709551614" by (simp add: size_of_def)
  moreover have "18446744073709551614 = Suc (Suc (Suc 18446744073709551611))" by simp
  ultimately obtain m where "unat (size_of ''a'' - size_of ''bcd'') = Suc (Suc (Suc m))" by metis
  then show ?thesis by (simp add: CaseInsensitiveFind_def char_at_def SimpleToUpper_def)
qed

end
