(* ===== verification/Curl_Protocol.thy ===== *)
theory Curl_Protocol
  imports Curl_Headers
begin

text \<open>
  Component core: the network protocol on libcurl (\<open>olp-cpp-sdk-core/src/network/curl/NetworkProtocolCurl.cpp\<close>), which the
  decorator of \<open>Network_Queue\<close> sends requests through: a table of 32 handles, a queue of events for the worker thread, and the
  worker, which adds handles to libcurl and completes the requests.

  libcurl is a parameter: what its functions return and the messages it gives are arguments of the steps. An easy handle is
  named by its place in the table. The callback of a request is the number of the call of \<open>Send\<close>. The step relation
  \<open>curl_step\<close> interleaves the calls of the clients with the worker; what the worker does with one event or one message is one step.
  That libcurl gives no message but \<open>CURLMSG_DONE\<close>, as its documentation says, is the argument \<open>only_done\<close>.

  \<open>Send\<close> is two steps, up to its second look at the state and after it; the first look and the taking of a handle are not separated. The counter of
  a request that is not sent again is left as it is: \<open>GetHandle\<close> sets it for the next one.

  Shown: no callback is called twice, and an accepted request is answered or still in the table; a request is
  sent again at most as often as its configuration says; the blocks that are received make up the payload. Also shown: a request that
  \<open>Send\<close> refuses after it took a handle is answered as well, a cancellation that comes late ends the next request of the handle, and
  a transfer that is made again leaves the end of a longer first one in the payload.
\<close>

section \<open>The state\<close>

datatype CURLcode =
  CURLE_OK | CURLE_UNSUPPORTED_PROTOCOL | CURLE_URL_MALFORMAT | CURLE_COULDNT_RESOLVE_HOST | CURLE_COULDNT_CONNECT
  | CURLE_REMOTE_ACCESS_DENIED | CURLE_FTP_ACCEPT_FAILED | CURLE_PARTIAL_FILE | CURLE_HTTP_RETURNED_ERROR
  | CURLE_OPERATION_TIMEDOUT | CURLE_SSL_CERTPROBLEM | CURLE_SSL_CIPHER | CURLE_SSL_CACERT | CURLE_LOGIN_DENIED | CURLE_other nat

definition convertErrorCode :: "bool \<Rightarrow> CURLcode \<Rightarrow> int" where
  "convertErrorCode connected code =
     (if code = CURLE_OK then 0
      else if code \<in> {CURLE_REMOTE_ACCESS_DENIED, CURLE_SSL_CERTPROBLEM, CURLE_SSL_CIPHER, CURLE_LOGIN_DENIED} then AuthorizationError
      else if code = CURLE_SSL_CACERT then AuthenticationError
      else if code \<in> {CURLE_UNSUPPORTED_PROTOCOL, CURLE_URL_MALFORMAT} then InvalidURLError
      else if code = CURLE_FTP_ACCEPT_FAILED then AuthorizationError
      else if code = CURLE_COULDNT_RESOLVE_HOST then (if connected then InvalidURLError else Offline)
      else if code = CURLE_OPERATION_TIMEDOUT then TimedOut
      else IOError)"

text \<open>The stream of a payload: its contents and the position for writing.\<close>

type_synonym payload = "string \<times> nat"

record RequestHandle = response_headers +
  h_handle :: bool
  h_in_use :: bool
  h_callback :: "nat option"
  h_id :: int
  h_count :: u64
  h_payload :: "payload option"
  h_chunk :: "string list"
  h_transfer_timeout :: int
  h_retry_count :: size_t
  h_max_retries :: size_t
  h_ignore_offset :: bool
  h_cancelled :: bool
  h_get_statistics :: bool
  h_skip_content :: bool
  h_send_time :: int

datatype WorkerState = Stopped | WorkerStarted | Stopping

datatype event_type = SendEvent | CancelEvent

text \<open>
  The members of \<open>NetworkProtocolCurl\<close>, the handles that were added to libcurl, the calls of \<open>Send\<close> that have a handle and have not
  returned, the handles that libcurl did not take, the number of calls, and what happened: the results of the calls, the callbacks, and the requests sent again with their limit.
\<close>

record NetworkProtocolCurl =
  c_handles :: "RequestHandle list"
  c_events :: "(event_type \<times> nat) list"
  c_state :: WorkerState
  c_multi :: "nat list"
  c_failed :: "nat list"
  c_sending :: "(nat \<times> nat) list"
  c_calls :: nat
  c_returned :: "(nat \<times> ProtocolError) list"
  c_answers :: "(nat \<times> NetworkResponse) list"
  c_retries :: "(nat \<times> size_t) list"

definition kStaticHandleCount :: nat where "kStaticHandleCount = 8"
definition kTotalHandleCount :: nat where "kTotalHandleCount = 32"
definition kHandleLostTimeout :: int where "kHandleLostTimeout = 30"
definition kHandleReuseTimeout :: int where "kHandleReuseTimeout = 120"

definition RequestHandle_new :: RequestHandle where
  "RequestHandle_new =
     \<lparr>rh_date = [], rh_max_age = 0, rh_expires = 0, rh_etag = [], rh_content_type = [], rh_range_out = False, rh_offset = 0,
      h_handle = False, h_in_use = False, h_callback = None, h_id = 0, h_count = 0, h_payload = None, h_chunk = [], h_transfer_timeout = 0,
      h_retry_count = 0, h_max_retries = 0, h_ignore_offset = False, h_cancelled = False, h_get_statistics = False,
      h_skip_content = False, h_send_time = 0\<rparr>"

definition NetworkProtocolCurl_new :: NetworkProtocolCurl where
  "NetworkProtocolCurl_new =
     \<lparr>c_handles = replicate kTotalHandleCount RequestHandle_new, c_events = [], c_state = Stopped, c_multi = [], c_failed = [], c_sending = [],
      c_calls = 0, c_returned = [], c_answers = [], c_retries = []\<rparr>"

definition set_handle :: "nat \<Rightarrow> (RequestHandle \<Rightarrow> RequestHandle) \<Rightarrow> NetworkProtocolCurl \<Rightarrow> NetworkProtocolCurl" where
  "set_handle i f c = c\<lparr>c_handles := (c_handles c)[i := f (c_handles c ! i)]\<rparr>"

definition curl_call_back :: "nat option \<Rightarrow> NetworkResponse \<Rightarrow> NetworkProtocolCurl \<Rightarrow> NetworkProtocolCurl" where
  "curl_call_back callback resp c =
     (case callback of None \<Rightarrow> c | Some caller \<Rightarrow> c\<lparr>c_answers := c_answers c @ [(caller, resp)]\<rparr>)"

section \<open>Start and stop\<close>

text \<open>\<open>ok\<close> is that the pipe and libcurl could be set up.\<close>

definition Curl_Initialize :: "bool \<Rightarrow> NetworkProtocolCurl \<Rightarrow> bool \<times> NetworkProtocolCurl" where
  "Curl_Initialize ok c =
     (if c_state c \<noteq> Stopped then (True, c)
      else if \<not> ok then (False, c)
      else (True, c\<lparr>c_handles := map (\<lambda>(i, h). h\<lparr>h_handle := i < kStaticHandleCount, h_in_use := False\<rparr>) (enumerate 0 (c_handles c)),
                    c_multi := [], c_state := WorkerStarted\<rparr>))"

definition Curl_Deinitialize :: "NetworkProtocolCurl \<Rightarrow> NetworkProtocolCurl" where
  "Curl_Deinitialize c = (if c_state c \<noteq> WorkerStarted then c else c\<lparr>c_state := Stopping\<rparr>)"

text \<open>The callbacks of the handles in use are called after the handles are cleaned up.\<close>

definition offline_answer :: "RequestHandle \<Rightarrow> (nat \<times> NetworkResponse) list" where
  "offline_answer h =
     (if h_handle h \<and> h_in_use h
      then (case h_callback h of None \<Rightarrow> [] | Some caller \<Rightarrow> [(caller, NetworkResponse_new (h_id h) Offline ''Offline'')]) else [])"

definition Teardown :: "NetworkProtocolCurl \<Rightarrow> NetworkProtocolCurl" where
  "Teardown c =
     c\<lparr>c_events := [], c_multi := [], c_failed := [], c_handles := map (\<lambda>h. h\<lparr>h_handle := False\<rparr>) (c_handles c),
       c_answers := c_answers c @ concat (map offline_answer (c_handles c))\<rparr>"

definition IsStarted :: "NetworkProtocolCurl \<Rightarrow> bool" where
  "IsStarted c \<longleftrightarrow> c_state c = WorkerStarted"

definition Curl_Ready :: "NetworkProtocolCurl \<Rightarrow> bool" where
  "Curl_Ready c \<longleftrightarrow> IsStarted c \<and> list_ex (\<lambda>h. \<not> h_in_use h) (c_handles c)"

definition AmountPending :: "NetworkProtocolCurl \<Rightarrow> nat" where
  "AmountPending c = length (filter h_in_use (c_handles c))"

section \<open>Handles\<close>

definition free_handle :: "RequestHandle list \<Rightarrow> nat option" where
  "free_handle hs = (let i = length (takeWhile h_in_use hs) in if i < length hs then Some i else None)"

text \<open>\<open>allocated\<close> is that \<open>curl_easy_init\<close> gives a handle.\<close>

definition GetHandle :: "bool \<Rightarrow> int \<Rightarrow> nat option \<Rightarrow> int \<Rightarrow> payload option \<Rightarrow> NetworkProtocolCurl \<Rightarrow> nat option \<times> NetworkProtocolCurl" where
  "GetHandle allocated request_id callback now payload c =
     (if \<not> IsStarted c then (None, c)
      else case free_handle (c_handles c) of
        None \<Rightarrow> (None, c)
      | Some i \<Rightarrow>
          if \<not> h_handle (c_handles c ! i) \<and> \<not> allocated then (None, c)
          else (Some i, set_handle i (\<lambda>h. h\<lparr>h_handle := True, h_in_use := True, h_callback := callback, rh_max_age := - 1, rh_expires := - 1,
                  h_id := request_id, h_count := 0, rh_offset := 0, h_chunk := [], rh_range_out := False, h_cancelled := False,
                  h_transfer_timeout := 30, h_retry_count := 0, rh_etag := [], rh_content_type := [], rh_date := [],
                  h_payload := payload, h_send_time := now, h_get_statistics := False, h_skip_content := False\<rparr>) c))"

definition ReleaseHandle :: "nat \<Rightarrow> NetworkProtocolCurl \<Rightarrow> NetworkProtocolCurl" where
  "ReleaseHandle i c = set_handle i (\<lambda>h. h\<lparr>h_chunk := [], h_in_use := False, h_callback := None, h_payload := None\<rparr>) c"

definition AddEvent :: "event_type \<Rightarrow> nat \<Rightarrow> NetworkProtocolCurl \<Rightarrow> NetworkProtocolCurl" where
  "AddEvent type i c = c\<lparr>c_events := c_events c @ [(type, i)]\<rparr>"

section \<open>Sending\<close>

text \<open>What the configuration and the request set in the handle; the headers become lines.\<close>

definition configure_handle :: "NetworkRequest \<Rightarrow> NetworkConfig \<Rightarrow> RequestHandle \<Rightarrow> RequestHandle" where
  "configure_handle request config h =
     h\<lparr>h_transfer_timeout := transfer_timeout config, h_max_retries := retries config, h_ignore_offset := ignore_offset request,
       h_get_statistics := get_statistics request, h_skip_content := skip_content_when_error config,
       h_chunk := map (\<lambda>(k, v). k @ '': '' @ v) (extra_headers request)\<rparr>"

text \<open>The options that \<open>Send\<close> sets, in their order. \<open>system_proxy\<close> and \<open>verify\<close> come from the system configuration, \<open>bundle\<close> is the file of certificates.\<close>

datatype curl_option =
  Opt_INTERFACE string | Opt_URL string | Opt_POST bool | Opt_CUSTOMREQUEST string | Opt_IFMODSINCE u64 | Opt_NOBODY
  | Opt_POSTFIELDSIZE nat | Opt_POSTFIELDS string | Opt_PROXY string | Opt_PROXYPORT u16 | Opt_PROXYTYPE ProxyType
  | Opt_PROXYUSERNAME string | Opt_PROXYPASSWORD string | Opt_HTTPHEADER "string list" | Opt_CAINFO string | Opt_SSL_VERIFY bool
  | Opt_FOLLOWLOCATION | Opt_CONNECTTIMEOUT int | Opt_TIMEOUT int | Opt_ACCEPT_ENCODING

definition verb_options :: "NetworkRequest \<Rightarrow> curl_option list" where
  "verb_options request =
     (case verb request of
        POST \<Rightarrow> [Opt_POST True]
      | PUT \<Rightarrow> [Opt_CUSTOMREQUEST ''PUT'']
      | PATCH \<Rightarrow> [Opt_CUSTOMREQUEST ''PATCH'']
      | DEL \<Rightarrow> [Opt_CUSTOMREQUEST ''DELETE'']
      | v \<Rightarrow> [Opt_POST False] @ (if 0 < modified_since request then [Opt_IFMODSINCE (modified_since request)] else []) @
             (if v = HEAD then [Opt_NOBODY] else []))"

definition content_options :: "NetworkRequest \<Rightarrow> curl_option list" where
  "content_options request =
     (if verb request = GET \<or> verb request = HEAD then []
      else case content request of
        Some body \<Rightarrow> if body \<noteq> [] then [Opt_POSTFIELDSIZE (length body), Opt_POSTFIELDS body] else [Opt_POSTFIELDSIZE 0]
      | None \<Rightarrow> [Opt_POSTFIELDSIZE 0])"

text \<open>The proxy of the request goes before that of the system; its user name and password are both given or both not (\<open>None\<close>: the assertion fails).\<close>

definition proxy_options :: "NetworkProxy \<Rightarrow> NetworkConfig \<Rightarrow> curl_option list option" where
  "proxy_options system_proxy config =
     (let proxy = (if NetworkProxy_IsValid (config_proxy config) then config_proxy config else system_proxy)
      in if \<not> NetworkProxy_IsValid proxy then Some []
         else if (proxy_user_name proxy = []) \<noteq> (proxy_user_password proxy = []) then None
         else Some ([Opt_PROXY (proxy_name proxy), Opt_PROXYPORT (proxy_port proxy)] @
                    (if proxy_type proxy \<noteq> ProxyHttp then [Opt_PROXYTYPE (proxy_type proxy)] else []) @
                    (if proxy_user_name proxy \<noteq> [] then [Opt_PROXYUSERNAME (proxy_user_name proxy), Opt_PROXYPASSWORD (proxy_user_password proxy)] else [])))"

definition send_options :: "NetworkProxy \<Rightarrow> bool \<Rightarrow> string \<Rightarrow> NetworkRequest \<Rightarrow> NetworkConfig \<Rightarrow> curl_option list option" where
  "send_options system_proxy dont_verify bundle request config =
     map_option (\<lambda>proxy.
       (if network_interface config \<noteq> [] then [Opt_INTERFACE (network_interface config)] else []) @
       [Opt_URL (url request)] @ verb_options request @ content_options request @ proxy @
       (if extra_headers request \<noteq> [] then [Opt_HTTPHEADER (map (\<lambda>(k, v). k @ '': '' @ v) (extra_headers request))] else []) @
       (let ca = (if ca_cert config = [] then bundle else ca_cert config) in if ca \<noteq> [] then [Opt_CAINFO ca] else []) @
       [Opt_SSL_VERIFY (\<not> dont_verify), Opt_FOLLOWLOCATION, Opt_CONNECTTIMEOUT (connect_timeout config),
        Opt_TIMEOUT (connect_timeout config + transfer_timeout config)] @
       (if enable_auto_decompression config then [Opt_ACCEPT_ENCODING] else []))
     (proxy_options system_proxy config)"

text \<open>
  \<open>Send\<close> up to the second look at the state; \<open>interface_ok\<close> and \<open>bundle_ok\<close> are that libcurl takes these options.
  A result that is already known is recorded.
\<close>

definition Curl_Send_begin :: "bool \<Rightarrow> bool \<Rightarrow> bool \<Rightarrow> int \<Rightarrow> payload option \<Rightarrow> int \<Rightarrow> NetworkRequest \<Rightarrow> NetworkConfig \<Rightarrow> NetworkProtocolCurl \<Rightarrow> NetworkProtocolCurl" where
  "Curl_Send_begin allocated interface_ok bundle_ok now payload request_id request config c0 =
     (let caller = c_calls c0; c = c0\<lparr>c_calls := caller + 1\<rparr>; return = (\<lambda>err c. c\<lparr>c_returned := c_returned c @ [(caller, err)]\<rparr>)
      in if \<not> IsStarted c then return ErrorIO c
         else case GetHandle allocated request_id (Some caller) now payload c of
           (None, c1) \<Rightarrow> return ErrorNotReady c1
         | (Some i, c1) \<Rightarrow>
             let c2 = set_handle i (configure_handle request config) c1
             in if network_interface config \<noteq> [] \<and> \<not> interface_ok then return ErrorFailedBindInterface c2
                else if \<not> bundle_ok then return ErrorFailedSetCaCert c2
                else c2\<lparr>c_sending := c_sending c2 @ [(caller, i)]\<rparr>)"

definition Curl_Send_end :: "nat \<Rightarrow> nat \<Rightarrow> NetworkProtocolCurl \<Rightarrow> NetworkProtocolCurl" where
  "Curl_Send_end caller i c =
     (if \<not> IsStarted c then c\<lparr>c_returned := c_returned c @ [(caller, ErrorNotReady)]\<rparr>
      else (AddEvent SendEvent i c)\<lparr>c_returned := c_returned c @ [(caller, ErrorNone)]\<rparr>)"

definition Curl_Cancel :: "int \<Rightarrow> NetworkProtocolCurl \<Rightarrow> bool \<times> NetworkProtocolCurl" where
  "Curl_Cancel request_id c =
     (let i = length (takeWhile (\<lambda>h. \<not> (h_in_use h \<and> h_id h = request_id)) (c_handles c))
      in if \<not> IsStarted c \<or> i = length (c_handles c) then (False, c)
         else (True, AddEvent CancelEvent i (set_handle i (\<lambda>h. h\<lparr>h_cancelled := True\<rparr>) c)))"

section \<open>Receiving\<close>

text \<open>Writing at the position \<open>n\<close>, if the stream can be set to it; a string stream can up to its end.\<close>

definition write_at :: "nat option \<Rightarrow> string \<Rightarrow> payload \<Rightarrow> payload" where
  "write_at position data p =
     (let pos = (case position of None \<Rightarrow> snd p | Some n \<Rightarrow> if n \<le> length (fst p) then n else snd p)
      in (take pos (fst p) @ data @ drop (pos + length data) (fst p), pos + length data))"

text \<open>A block of the payload; the data callback of the request gets the same bytes.\<close>

definition RxFunction :: "bool \<Rightarrow> int \<Rightarrow> string \<Rightarrow> RequestHandle \<Rightarrow> RequestHandle" where
  "RxFunction started http_status data h =
     (if h_skip_content h \<and> http_status \<notin> {200, 206, 201, 0} then h
      else if started \<and> \<not> rh_range_out h \<and> \<not> h_cancelled h
      then h\<lparr>h_payload := map_option (write_at (if h_ignore_offset h then None else Some (unat (h_count h))) data) (h_payload h),
             h_count := h_count h + of_nat (length data)\<rparr>
      else h)"

definition receive_header :: "(string \<Rightarrow> int) \<Rightarrow> bool \<Rightarrow> string \<Rightarrow> RequestHandle \<Rightarrow> text_error + RequestHandle" where
  "receive_header getdate started buffer h =
     (case HeaderFunction getdate (started \<and> \<not> h_cancelled h) buffer (response_headers.truncate h) of
        Inl e \<Rightarrow> Inl e
      | Inr (_, r) \<Rightarrow> Inr (response_headers.extend r (response_headers.more h)))"

section \<open>Completing\<close>

text \<open>What libcurl says of a finished transfer.\<close>

record transfer_info =
  ti_http_status :: int
  ti_error_text :: string
  ti_strerror :: string
  ti_time_over :: bool
  ti_connected :: bool
  ti_statistics :: "(string \<times> string) list"

definition completed_status :: "transfer_info \<Rightarrow> CURLcode \<Rightarrow> RequestHandle \<Rightarrow> int \<times> string" where
  "completed_status info result h =
     (if result = CURLE_OK \<or> result = CURLE_HTTP_RETURNED_ERROR
      then let st1 = (if rh_offset h = 0 \<and> ti_http_status info = 206 then 200 else ti_http_status info);
               st2 = (if st1 = 0 \<and> result = CURLE_OK then 200 else st1)
           in (st2, HttpErrorToString st2)
      else (if result = CURLE_PARTIAL_FILE \<and> ti_time_over info then TimedOut else convertErrorCode (ti_connected info) result,
            if ti_error_text info \<noteq> [] then ti_error_text info else ti_strerror info))"

text \<open>The times that libcurl measured, and the count of the requests sent again.\<close>

definition getStatistics :: "transfer_info \<Rightarrow> size_t \<Rightarrow> (string \<times> string) list" where
  "getStatistics info retryCount = ti_statistics info @ [(''Retries'', to_string_int (uint retryCount))]"

definition handle_response :: "bool \<Rightarrow> int \<Rightarrow> string \<Rightarrow> transfer_info \<Rightarrow> RequestHandle \<Rightarrow> NetworkResponse" where
  "handle_response was_cancelled st err info h =
     \<lparr>nr_id = h_id h, nr_cancelled = was_cancelled, nr_status = st, nr_error = err, nr_max_age = rh_max_age h, nr_expires = rh_expires h,
      nr_etag = rh_etag h, nr_content_type = rh_content_type h, nr_payload_size = h_count h, nr_payload_offset = rh_offset h,
      nr_payload = map_option fst (h_payload h), nr_statistics = (if h_get_statistics h then getStatistics info (h_retry_count h) else [])\<rparr>"

definition CompleteMessage :: "transfer_info \<Rightarrow> nat \<Rightarrow> CURLcode \<Rightarrow> NetworkProtocolCurl \<Rightarrow> NetworkProtocolCurl" where
  "CompleteMessage info i result c =
     (let h = c_handles c ! i
      in if \<not> (i < length (c_handles c) \<and> h_in_use h \<and> h_handle h) then c
         else if h_cancelled h
         then curl_call_back (h_callback h) (handle_response True NetCancelled ''Cancelled'' info h) (ReleaseHandle i c)
         else case h_callback h of
           None \<Rightarrow> ReleaseHandle i c
         | Some caller \<Rightarrow>
             let (st, err) = completed_status info result h
             in if 0 < st \<and> (st < 200 \<or> 500 \<le> st) \<and> h_retry_count h < h_max_retries h
                then (set_handle i (\<lambda>h. h\<lparr>h_retry_count := h_retry_count h + 1, h_count := 0\<rparr>) c)
                  \<lparr>c_events := c_events c @ [(SendEvent, i)], c_retries := c_retries c @ [(caller, h_max_retries h)]\<rparr>
                else curl_call_back (Some caller) (handle_response False st err info h) (ReleaseHandle i c))"

section \<open>The worker\<close>

text \<open>An event from the front of the queue; \<open>added\<close> is that libcurl takes the handle.\<close>

definition worker_event :: "bool \<Rightarrow> transfer_info \<Rightarrow> event_type \<Rightarrow> nat \<Rightarrow> NetworkProtocolCurl \<Rightarrow> NetworkProtocolCurl" where
  "worker_event added info type i c =
     (if \<not> h_in_use (c_handles c ! i) then c
      else case type of
        SendEvent \<Rightarrow> if added then c\<lparr>c_multi := c_multi c @ [i]\<rparr> else c\<lparr>c_failed := c_failed c @ [i]\<rparr>
      | CancelEvent \<Rightarrow> CompleteMessage info i CURLE_OPERATION_TIMEDOUT (c\<lparr>c_multi := removeAll i (c_multi c)\<rparr>))"

definition unknown_message :: "nat \<Rightarrow> NetworkProtocolCurl \<Rightarrow> NetworkProtocolCurl" where
  "unknown_message i c =
     (let h = c_handles c ! i
      in if \<not> (h_in_use h \<and> h_handle h) then c
         else case h_callback h of
           None \<Rightarrow> c
         | Some caller \<Rightarrow> (curl_call_back (Some caller) (NetworkResponse_new (h_id h) IOError ''CURL error'') c)
                            \<lparr>c_multi := removeAll i (c_multi c)\<rparr>)"

text \<open>A handle that was taken more than 30 seconds ago and has not transferred anything; \<open>removed\<close> is that libcurl lets it go.\<close>

definition lost_handle :: "bool \<Rightarrow> transfer_info \<Rightarrow> nat \<Rightarrow> NetworkProtocolCurl \<Rightarrow> NetworkProtocolCurl" where
  "lost_handle removed info i c =
     (if removed then CompleteMessage info i CURLE_OPERATION_TIMEDOUT (c\<lparr>c_multi := removeAll i (c_multi c)\<rparr>)
      else let h = c_handles c ! i
           in if \<not> (h_in_use h \<and> h_handle h) then c
              else curl_call_back (h_callback h) (NetworkResponse_new (h_id h) IOError ''CURL error'') (ReleaseHandle i c))"

text \<open>Handles beyond the first eight are given back after some time without a request.\<close>

definition reap_handle :: "int \<Rightarrow> nat \<Rightarrow> RequestHandle \<Rightarrow> RequestHandle" where
  "reap_handle now i h =
     (if kStaticHandleCount \<le> i \<and> h_handle h \<and> \<not> h_in_use h \<and> h_send_time h + kHandleReuseTimeout < now then h\<lparr>h_handle := False\<rparr> else h)"

definition reap_handles :: "int \<Rightarrow> NetworkProtocolCurl \<Rightarrow> NetworkProtocolCurl" where
  "reap_handles now c = c\<lparr>c_handles := map (\<lambda>(i, h). reap_handle now i h) (enumerate 0 (c_handles c))\<rparr>"

inductive curl_step :: "(string \<Rightarrow> int) \<Rightarrow> bool \<Rightarrow> NetworkProtocolCurl \<Rightarrow> NetworkProtocolCurl \<Rightarrow> bool" for getdate only_done where
  initialize: "curl_step getdate only_done c (snd (Curl_Initialize ok c))"
| deinitialize: "curl_step getdate only_done c (Curl_Deinitialize c)"
| teardown: "c_state c = Stopping \<Longrightarrow> curl_step getdate only_done c ((Teardown c)\<lparr>c_state := Stopped\<rparr>)"
| send_begin: "curl_step getdate only_done c (Curl_Send_begin allocated interface_ok bundle_ok now payload request_id request config c)"
| send_end: "c_sending c = before @ (caller, i) # after \<Longrightarrow>
    curl_step getdate only_done c (Curl_Send_end caller i (c\<lparr>c_sending := before @ after\<rparr>))"
| cancel: "curl_step getdate only_done c (snd (Curl_Cancel request_id c))"
| event: "IsStarted c \<Longrightarrow> c_events c = (type, i) # events \<Longrightarrow>
    curl_step getdate only_done c (worker_event added info type i (c\<lparr>c_events := events\<rparr>))"
| failed: "IsStarted c \<Longrightarrow> c_failed c = i # rest \<Longrightarrow>
    curl_step getdate only_done c (CompleteMessage info i CURLE_COULDNT_CONNECT (c\<lparr>c_failed := rest\<rparr>))"
| message: "IsStarted c \<Longrightarrow> i \<in> set (c_multi c) \<Longrightarrow>
    curl_step getdate only_done c (CompleteMessage info i result (c\<lparr>c_multi := removeAll i (c_multi c)\<rparr>))"
| unknown: "\<not> only_done \<Longrightarrow> IsStarted c \<Longrightarrow> i \<in> set (c_multi c) \<Longrightarrow> curl_step getdate only_done c (unknown_message i c)"
| lost: "IsStarted c \<Longrightarrow> i < length (c_handles c) \<Longrightarrow> h_in_use (c_handles c ! i) \<Longrightarrow> kHandleLostTimeout < now - h_send_time (c_handles c ! i) \<Longrightarrow>
    curl_step getdate only_done c (lost_handle removed info i c)"
| reap: "IsStarted c \<Longrightarrow> curl_step getdate only_done c (reap_handles now c)"
| data: "i \<in> set (c_multi c) \<Longrightarrow> curl_step getdate only_done c (set_handle i (RxFunction (IsStarted c) http_status bytes) c)"
| header: "i \<in> set (c_multi c) \<Longrightarrow> receive_header getdate (IsStarted c) buffer (c_handles c ! i) = Inr h \<Longrightarrow>
    curl_step getdate only_done c (set_handle i (\<lambda>_. h) c)"

section \<open>Callbacks\<close>

text \<open>The call of \<open>Send\<close> whose callback a handle has.\<close>

definition live_caller :: "RequestHandle \<Rightarrow> nat list" where
  "live_caller h = (if h_handle h \<and> h_in_use h then (case h_callback h of None \<Rightarrow> [] | Some caller \<Rightarrow> [caller]) else [])"

definition live_callers :: "NetworkProtocolCurl \<Rightarrow> nat list" where
  "live_callers c = concat (map live_caller (c_handles c))"

text \<open>The calls that a callback is kept for or was called for.\<close>

definition callers_known :: "NetworkProtocolCurl \<Rightarrow> nat multiset" where
  "callers_known c = mset (live_callers c) + mset (map fst (c_answers c))"

definition callers_unique :: "NetworkProtocolCurl \<Rightarrow> bool" where
  "callers_unique c \<longleftrightarrow>
     (\<forall>x. count (callers_known c) x \<le> 1) \<and> (\<forall>x \<in># callers_known c. x < c_calls c) \<and>
     (\<forall>x. x \<in> fst ` set (c_sending c) \<or> (x, ErrorNone) \<in> set (c_returned c) \<longrightarrow> x \<in># callers_known c) \<and>
     (c_state c = Stopped \<longrightarrow> live_callers c = []) \<and> length (c_handles c) = kTotalHandleCount \<and>
     (\<forall>p \<in> set (c_events c). snd p < kTotalHandleCount) \<and> (\<forall>p \<in> set (c_sending c). snd p < kTotalHandleCount) \<and>
     (\<forall>i \<in> set (c_multi c) \<union> set (c_failed c). i < kTotalHandleCount)"

lemma live_callers_update:
  assumes "i < length (c_handles c)"
  shows "mset (live_callers (set_handle i f c)) + mset (live_caller (c_handles c ! i)) =
    mset (live_callers c) + mset (live_caller (f (c_handles c ! i)))"
proof -
  let ?hs = "c_handles c"
  have "?hs = take i ?hs @ ?hs ! i # drop (Suc i) ?hs" using assms by (rule id_take_nth_drop)
  then have l: "live_callers c = concat (map live_caller (take i ?hs)) @ live_caller (?hs ! i) @ concat (map live_caller (drop (Suc i) ?hs))"
    unfolding live_callers_def by (metis concat.simps(2) concat_append list.simps(9) map_append)
  have "live_callers (set_handle i f c) = concat (map live_caller (take i ?hs)) @ live_caller (f (?hs ! i)) @ concat (map live_caller (drop (Suc i) ?hs))"
    using assms by (simp add: live_callers_def set_handle_def upd_conv_take_nth_drop)
  with l show ?thesis by simp
qed

text \<open>A change of a handle that keeps its callback, and one that frees it.\<close>

lemma live_callers_same:
  assumes "live_caller (f (c_handles c ! i)) = live_caller (c_handles c ! i)"
  shows "mset (live_callers (set_handle i f c)) = mset (live_callers c)"
proof (cases "i < length (c_handles c)")
  case True
  from live_callers_update [OF this, of f] assms show ?thesis by simp
qed (simp add: set_handle_def list_update_beyond)

lemma live_callers_release:
  assumes "i < length (c_handles c)"
  shows "mset (live_callers c) = mset (live_caller (c_handles c ! i)) + mset (live_callers (ReleaseHandle i c))"
proof -
  let ?f = "\<lambda>h :: RequestHandle. h\<lparr>h_chunk := [], h_in_use := False, h_callback := None, h_payload := None\<rparr>"
  have "live_caller (?f (c_handles c ! i)) = []" by (simp add: live_caller_def)
  with live_callers_update [OF assms, of ?f] show ?thesis by (simp add: ReleaseHandle_def add.commute)
qed

text \<open>Answering a request moves its call from the table to the answers.\<close>

lemma known_answered:
  assumes "i < length (c_handles c)" "h_in_use (c_handles c ! i)" "h_handle (c_handles c ! i)"
  shows "callers_known (curl_call_back (h_callback (c_handles c ! i)) resp (ReleaseHandle i c)) = callers_known c"
  using live_callers_release [OF assms(1)] assms(2,3)
  by (auto simp: callers_known_def curl_call_back_def live_caller_def live_callers_def ReleaseHandle_def set_handle_def split: option.splits)

lemma known_complete: "callers_known (CompleteMessage info i result c) = callers_known c"
proof (cases "i < length (c_handles c) \<and> h_in_use (c_handles c ! i) \<and> h_handle (c_handles c ! i)")
  case True
  let ?retry = "set_handle i (\<lambda>h. h\<lparr>h_retry_count := h_retry_count h + 1, h_count := 0\<rparr>) c"
  have "mset (live_callers ?retry) = mset (live_callers c)" by (rule live_callers_same) (simp add: live_caller_def)
  then have retry: "callers_known (?retry\<lparr>c_events := e, c_retries := r\<rparr>) = callers_known c" for e r
    by (simp add: callers_known_def live_callers_def set_handle_def)
  have none: "callers_known (ReleaseHandle i c) = callers_known c" if "h_callback (c_handles c ! i) = None"
    using known_answered [of i c] True that by (simp add: curl_call_back_def)
  show ?thesis
  proof (cases "h_callback (c_handles c ! i)")
    case None
    with none show ?thesis by (simp add: CompleteMessage_def curl_call_back_def Let_def)
  next
    case (Some caller)
    with True known_answered [of i c] retry show ?thesis by (simp add: CompleteMessage_def Let_def split: prod.split)
  qed
qed (simp add: CompleteMessage_def)

lemma set_handle_same [simp]:
  "c_calls (set_handle i f c) = c_calls c" "c_sending (set_handle i f c) = c_sending c" "c_returned (set_handle i f c) = c_returned c"
  "c_state (set_handle i f c) = c_state c" "c_multi (set_handle i f c) = c_multi c" "c_failed (set_handle i f c) = c_failed c"
  "c_events (set_handle i f c) = c_events c" "c_answers (set_handle i f c) = c_answers c" "c_retries (set_handle i f c) = c_retries c"
  "length (c_handles (set_handle i f c)) = length (c_handles c)"
  by (simp_all add: set_handle_def)

lemma ReleaseHandle_same [simp]:
  "c_calls (ReleaseHandle i c) = c_calls c" "c_sending (ReleaseHandle i c) = c_sending c" "c_returned (ReleaseHandle i c) = c_returned c"
  "c_state (ReleaseHandle i c) = c_state c" "c_multi (ReleaseHandle i c) = c_multi c" "c_failed (ReleaseHandle i c) = c_failed c"
  "c_events (ReleaseHandle i c) = c_events c" "c_answers (ReleaseHandle i c) = c_answers c" "c_retries (ReleaseHandle i c) = c_retries c"
  "length (c_handles (ReleaseHandle i c)) = length (c_handles c)"
  by (simp_all add: ReleaseHandle_def)

lemma curl_call_back_same [simp]:
  "c_calls (curl_call_back callback resp c) = c_calls c" "c_sending (curl_call_back callback resp c) = c_sending c" "c_returned (curl_call_back callback resp c) = c_returned c"
  "c_state (curl_call_back callback resp c) = c_state c" "c_multi (curl_call_back callback resp c) = c_multi c" "c_failed (curl_call_back callback resp c) = c_failed c"
  "c_events (curl_call_back callback resp c) = c_events c" "c_handles (curl_call_back callback resp c) = c_handles c" "c_retries (curl_call_back callback resp c) = c_retries c"
  "length (c_handles (curl_call_back callback resp c)) = length (c_handles c)"
  by (simp_all add: curl_call_back_def split: option.split)

lemma CompleteMessage_same [simp]:
  "c_calls (CompleteMessage info i result c) = c_calls c" "c_sending (CompleteMessage info i result c) = c_sending c" "c_returned (CompleteMessage info i result c) = c_returned c"
  "c_state (CompleteMessage info i result c) = c_state c" "c_multi (CompleteMessage info i result c) = c_multi c" "c_failed (CompleteMessage info i result c) = c_failed c"
  "length (c_handles (CompleteMessage info i result c)) = length (c_handles c)"
  by (simp_all add: CompleteMessage_def Let_def split: option.split prod.split)


lemma CompleteMessage_events: "set (c_events (CompleteMessage info i result c)) \<subseteq> insert (SendEvent, i) (set (c_events c))"
  by (auto simp: CompleteMessage_def Let_def split: option.split prod.split)

text \<open>A step that knows the same calls.\<close>

lemma unique_same:
  assumes "callers_unique c" "callers_known c' = callers_known c" "c_calls c' = c_calls c"
    and "fst ` set (c_sending c') \<subseteq> fst ` set (c_sending c)" "\<And>x. (x, ErrorNone) \<in> set (c_returned c') \<Longrightarrow> (x, ErrorNone) \<in> set (c_returned c) \<or> x \<in> fst ` set (c_sending c)"
    and "c_state c' = Stopped \<Longrightarrow> live_callers c' = []" "length (c_handles c') = length (c_handles c)"
    and "\<forall>p \<in> set (c_events c'). snd p < kTotalHandleCount" "\<forall>p \<in> set (c_sending c'). snd p < kTotalHandleCount"
    and "\<forall>i \<in> set (c_multi c') \<union> set (c_failed c'). i < kTotalHandleCount"
  shows "callers_unique c'"
proof -
  have u: "\<And>x. count (callers_known c) x \<le> 1" "\<And>x. x \<in># callers_known c \<Longrightarrow> x < c_calls c"
    "\<And>x. x \<in> fst ` set (c_sending c) \<or> (x, ErrorNone) \<in> set (c_returned c) \<Longrightarrow> x \<in># callers_known c"
    "length (c_handles c) = kTotalHandleCount"
    using assms(1) unfolding callers_unique_def by blast+
  have "x \<in># callers_known c'" if "x \<in> fst ` set (c_sending c') \<or> (x, ErrorNone) \<in> set (c_returned c')" for x
    unfolding assms(2) by (rule u(3)) (use that assms(4,5) in blast)
  then show ?thesis unfolding callers_unique_def using u(1,2,4) assms(2,3,6-) by simp
qed

lemma unique_started: "callers_unique c \<Longrightarrow> IsStarted c \<Longrightarrow> c_state c \<noteq> Stopped"
  by (simp add: IsStarted_def)

lemma unique_complete:
  assumes "callers_unique c" "i < kTotalHandleCount" "c_state c \<noteq> Stopped"
  shows "callers_unique (CompleteMessage info i result c)"
  using assms CompleteMessage_events [of info i result c]
  by (intro unique_same [OF assms(1) known_complete]) (auto simp: callers_unique_def)

lemma unique_drop:
  assumes "callers_unique c"
  shows "callers_unique (c\<lparr>c_multi := removeAll i (c_multi c)\<rparr>)" "c_events c = e # es \<Longrightarrow> callers_unique (c\<lparr>c_events := es\<rparr>)"
    "c_failed c = j # js \<Longrightarrow> callers_unique (c\<lparr>c_failed := js\<rparr>)"
  using assms by (auto simp: callers_unique_def callers_known_def live_callers_def)

lemma unique_event:
  assumes "callers_unique c" "IsStarted c" "c_events c = (type, i) # es"
  shows "callers_unique (worker_event added info type i (c\<lparr>c_events := es\<rparr>))"
proof -
  let ?c = "c\<lparr>c_events := es\<rparr>"
  have c: "callers_unique ?c" using unique_drop(2) [OF assms(1,3)] .
  have i: "i < kTotalHandleCount" using assms(1,3) by (simp add: callers_unique_def)
  have "callers_unique (?c\<lparr>c_multi := c_multi ?c @ [i]\<rparr>)" "callers_unique (?c\<lparr>c_failed := c_failed ?c @ [i]\<rparr>)"
    using c i by (auto simp: callers_unique_def callers_known_def live_callers_def)
  moreover have "callers_unique (CompleteMessage info i CURLE_OPERATION_TIMEDOUT (?c\<lparr>c_multi := removeAll i (c_multi ?c)\<rparr>))"
    using unique_drop(1) [OF c] i assms(2) by (intro unique_complete) (auto simp: IsStarted_def)
  ultimately show ?thesis using c by (simp add: worker_event_def split: event_type.split)
qed

lemma unique_lost:
  assumes "callers_unique c" "IsStarted c" "i < length (c_handles c)"
  shows "callers_unique (lost_handle removed info i c)"
proof -
  have i: "i < kTotalHandleCount" using assms(1,3) by (simp add: callers_unique_def)
  have "callers_unique (CompleteMessage info i CURLE_OPERATION_TIMEDOUT (c\<lparr>c_multi := removeAll i (c_multi c)\<rparr>))"
    using unique_drop(1) [OF assms(1)] i assms(2) by (intro unique_complete) (auto simp: IsStarted_def)
  moreover have "callers_unique (curl_call_back (h_callback (c_handles c ! i)) resp (ReleaseHandle i c))"
    if "h_in_use (c_handles c ! i)" "h_handle (c_handles c ! i)" for resp
    using assms that by (intro unique_same [OF assms(1) known_answered]) (auto simp: callers_unique_def IsStarted_def)
  ultimately show ?thesis using assms(1) by (simp add: lost_handle_def Let_def)
qed

text \<open>Taking a handle for a new call.\<close>

lemma free_handle_Some: "free_handle hs = Some i \<Longrightarrow> i < length hs \<and> \<not> h_in_use (hs ! i)"
  by (auto simp: free_handle_def Let_def nth_length_takeWhile split: if_splits)

lemma GetHandle_cases:
  assumes "GetHandle allocated request_id (Some caller) now payload c = (r, c1)"
  obtains "r = None" "c1 = c"
  | i f where "r = Some i" "c1 = set_handle i f c" "i < length (c_handles c)" "\<not> h_in_use (c_handles c ! i)"
      "\<And>h. live_caller (f h) = [caller]" "\<And>h. h_retry_count (f h) = 0"
proof (cases "free_handle (c_handles c)")
  case None
  with assms that(1) show ?thesis by (auto simp: GetHandle_def split: if_splits)
next
  case (Some i)
  show ?thesis
  proof (cases "IsStarted c \<and> (h_handle (c_handles c ! i) \<or> allocated)")
    case True
    with Some assms free_handle_Some [OF Some] show ?thesis
      by (intro that(2) [of i]) (auto simp: GetHandle_def live_caller_def)
  next
    case False
    with Some assms that(1) show ?thesis by (auto simp: GetHandle_def split: if_splits)
  qed
qed

lemma known_taken:
  assumes "i < length (c_handles c)" "\<not> h_in_use (c_handles c ! i)" "live_caller (f (c_handles c ! i)) = [caller]"
  shows "callers_known (set_handle i f c) = add_mset caller (callers_known c)"
proof -
  have "live_caller (c_handles c ! i) = []" using assms(2) by (simp add: live_caller_def)
  with live_callers_update [OF assms(1), of f] assms(3) show ?thesis by (simp add: callers_known_def)
qed

lemma unique_taken:
  assumes "callers_unique c" "callers_known c' = add_mset (c_calls c) (callers_known c)" "c_calls c' = c_calls c + 1"
    and "set (c_sending c') \<subseteq> insert (c_calls c, i) (set (c_sending c))" "set (c_returned c') \<subseteq> insert (c_calls c, err) (set (c_returned c))"
    and "c_state c' = c_state c" "c_state c \<noteq> Stopped" "length (c_handles c') = length (c_handles c)"
    and "c_events c' = c_events c" "c_multi c' = c_multi c" "c_failed c' = c_failed c" "i < kTotalHandleCount"
  shows "callers_unique c'"
proof -
  have u: "\<And>x. count (callers_known c) x \<le> 1" "\<And>x. x \<in># callers_known c \<Longrightarrow> x < c_calls c"
    "\<And>x. x \<in> fst ` set (c_sending c) \<or> (x, ErrorNone) \<in> set (c_returned c) \<Longrightarrow> x \<in># callers_known c"
    using assms(1) unfolding callers_unique_def by blast+
  have "count (callers_known c) (c_calls c) = 0" using u(2) by (meson count_eq_zero_iff less_irrefl)
  then have "count (callers_known c') x \<le> 1" for x using u(1) [of x] by (auto simp: assms(2))
  moreover have "x < c_calls c'" if "x \<in># callers_known c'" for x using that u(2) by (auto simp: assms(2,3) less_SucI)
  moreover have "x \<in># callers_known c'" if "x \<in> fst ` set (c_sending c') \<or> (x, ErrorNone) \<in> set (c_returned c')" for x
  proof -
    have "fst ` set (c_sending c') \<subseteq> insert (c_calls c) (fst ` set (c_sending c))" using image_mono [OF assms(4), of fst] by simp
    with that assms(5) have "x = c_calls c \<or> x \<in> fst ` set (c_sending c) \<or> (x, ErrorNone) \<in> set (c_returned c)" by blast
    with u(3) [of x] show ?thesis unfolding assms(2) by auto
  qed
  moreover have "\<forall>p \<in> set (c_sending c'). snd p < kTotalHandleCount" using assms(1,4,12) by (auto simp: callers_unique_def)
  ultimately show ?thesis using assms(1,6-11) by (simp add: callers_unique_def)
qed

lemma live_configure: "live_caller (configure_handle request config h) = live_caller h"
  by (simp add: live_caller_def configure_handle_def)

lemma unique_send_begin:
  assumes "callers_unique c"
  shows "callers_unique (Curl_Send_begin allocated interface_ok bundle_ok now payload request_id request config c)"
proof (cases "IsStarted c")
  case False
  have "callers_unique (c\<lparr>c_calls := c_calls c + 1, c_returned := c_returned c @ [(c_calls c, err)]\<rparr>)" if "err \<noteq> ErrorNone" for err
    using assms that by (auto simp: callers_unique_def callers_known_def live_callers_def less_SucI)
  with False show ?thesis by (simp add: Curl_Send_begin_def IsStarted_def Let_def)
next
  case True
  let ?c = "c\<lparr>c_calls := c_calls c + 1\<rparr>"
  obtain r c1 where g: "GetHandle allocated request_id (Some (c_calls c)) now payload ?c = (r, c1)" by (cases "GetHandle allocated request_id (Some (c_calls c)) now payload ?c")
  show ?thesis
  proof (cases rule: GetHandle_cases [OF g])
    case 1
    have "callers_unique (?c\<lparr>c_returned := c_returned c @ [(c_calls c, ErrorNotReady)]\<rparr>)"
      using assms by (auto simp: callers_unique_def callers_known_def live_callers_def less_SucI)
    with True g 1 show ?thesis by (simp add: Curl_Send_begin_def IsStarted_def Let_def)
  next
    case (2 i f)
    let ?c2 = "set_handle i (configure_handle request config) c1"
    have "?c2 = set_handle i (\<lambda>h. configure_handle request config (f h)) ?c"
      using 2(2,3) by (simp add: set_handle_def)
    then have k: "callers_known ?c2 = add_mset (c_calls c) (callers_known c)"
      using known_taken [of i ?c "\<lambda>h. configure_handle request config (f h)" "c_calls c"] 2
      by (simp add: live_configure callers_known_def live_callers_def)
    have i: "i < kTotalHandleCount" using assms 2(3) by (simp add: callers_unique_def)
    have c2: "c_calls ?c2 = c_calls c + 1" "c_sending ?c2 = c_sending c" "c_returned ?c2 = c_returned c" "c_state ?c2 = c_state c"
      "c_events ?c2 = c_events c" "c_multi ?c2 = c_multi c" "c_failed ?c2 = c_failed c" "length (c_handles ?c2) = length (c_handles c)"
      using 2(2) by simp_all
    have "callers_unique (?c2\<lparr>c_returned := c_returned ?c2 @ [(c_calls c, err)]\<rparr>)" for err
      by (rule unique_taken [OF assms, where i = i and err = err])
        (use k c2 i True in \<open>auto simp: callers_known_def live_callers_def IsStarted_def\<close>)
    moreover have "callers_unique (?c2\<lparr>c_sending := c_sending ?c2 @ [(c_calls c, i)]\<rparr>)"
      by (rule unique_taken [OF assms, where i = i])
        (use k c2 i True in \<open>auto simp: callers_known_def live_callers_def IsStarted_def\<close>)
    ultimately show ?thesis using True g 2(1) by (simp add: Curl_Send_begin_def IsStarted_def Let_def)
  qed
qed

lemma unique_send_end:
  assumes "callers_unique c" "c_sending c = before @ (caller, i) # after"
  shows "callers_unique (Curl_Send_end caller i (c\<lparr>c_sending := before @ after\<rparr>))"
proof -
  let ?c = "Curl_Send_end caller i (c\<lparr>c_sending := before @ after\<rparr>)"
  from assms have u: "c_state c = Stopped \<longrightarrow> live_callers c = []" "\<forall>p \<in> set (c_events c). snd p < kTotalHandleCount"
    "\<forall>p \<in> set (before @ (caller, i) # after). snd p < kTotalHandleCount" "\<forall>j \<in> set (c_multi c) \<union> set (c_failed c). j < kTotalHandleCount"
    by (simp_all add: callers_unique_def)
  have c: "callers_known ?c = callers_known c" "live_callers ?c = live_callers c" "c_calls ?c = c_calls c" "c_state ?c = c_state c"
    "c_handles ?c = c_handles c" "c_multi ?c = c_multi c" "c_failed ?c = c_failed c" "c_sending ?c = before @ after"
    "set (c_events ?c) \<subseteq> insert (SendEvent, i) (set (c_events c))"
    "set (c_returned ?c) \<subseteq> {(caller, ErrorNone), (caller, ErrorNotReady)} \<union> set (c_returned c)"
    by (auto simp: Curl_Send_end_def AddEvent_def callers_known_def live_callers_def)
  show ?thesis
    by (rule unique_same [OF assms(1) c(1,3)]) (use c u assms(2) in auto)
qed

lemma unique_handle:
  assumes "callers_unique c" "\<And>h. h = c_handles c ! i \<Longrightarrow> live_caller (f h) = live_caller h"
  shows "callers_unique (set_handle i f c)"
proof -
  have l: "mset (live_callers (set_handle i f c)) = mset (live_callers c)" using assms(2) by (intro live_callers_same) simp
  then have "callers_known (set_handle i f c) = callers_known c" by (simp add: callers_known_def)
  moreover have "live_callers (set_handle i f c) = []" if "live_callers c = []" using that l by simp
  ultimately show ?thesis using assms(1) by (intro unique_same [OF assms(1)]) (simp_all add: callers_unique_def)
qed

lemma unique_cancel:
  assumes "callers_unique c"
  shows "callers_unique (snd (Curl_Cancel request_id c))"
proof -
  let ?i = "length (takeWhile (\<lambda>h. \<not> (h_in_use h \<and> h_id h = request_id)) (c_handles c))"
  have "callers_unique (AddEvent CancelEvent ?i (set_handle ?i (\<lambda>h. h\<lparr>h_cancelled := True\<rparr>) c))" if "?i \<noteq> length (c_handles c)"
  proof -
    have "callers_unique (set_handle ?i (\<lambda>h. h\<lparr>h_cancelled := True\<rparr>) c)" (is "callers_unique ?c")
      using assms by (rule unique_handle) (simp add: live_caller_def)
    moreover have "?i < kTotalHandleCount"
      using that assms length_takeWhile_le [of "\<lambda>h. \<not> (h_in_use h \<and> h_id h = request_id)" "c_handles c"]
      by (simp add: callers_unique_def)
    ultimately show ?thesis by (simp add: callers_unique_def AddEvent_def callers_known_def live_callers_def)
  qed
  with assms show ?thesis by (simp add: Curl_Cancel_def Let_def)
qed

lemma live_offline: "map fst (offline_answer h) = live_caller h"
  by (simp add: offline_answer_def live_caller_def split: option.split)

lemma unique_teardown:
  assumes "callers_unique c"
  shows "callers_unique ((Teardown c)\<lparr>c_state := Stopped\<rparr>)"
proof -
  let ?c = "(Teardown c)\<lparr>c_state := Stopped\<rparr>"
  have "live_callers ?c = []" by (simp add: live_callers_def Teardown_def live_caller_def)
  moreover have "map fst (concat (map offline_answer (c_handles c))) = live_callers c"
    by (simp add: live_callers_def map_concat live_offline comp_def)
  ultimately have "callers_known ?c = callers_known c" by (simp add: callers_known_def Teardown_def)
  with \<open>live_callers ?c = []\<close> assms show ?thesis
    by (intro unique_same [OF assms]) (simp_all add: callers_unique_def Teardown_def)
qed

text \<open>A change of all handles, none of which has a callback or loses one.\<close>

lemma live_map_enumerate:
  assumes "\<And>i h. i < length (c_handles c) \<Longrightarrow> h = c_handles c ! i \<Longrightarrow> live_caller (f (i, h)) = live_caller h"
  shows "concat (map live_caller (map f (enumerate 0 (c_handles c)))) = live_callers c"
proof -
  have "map live_caller (map f (enumerate 0 (c_handles c))) = map live_caller (c_handles c)"
    using assms by (intro nth_equalityI) (simp_all add: nth_enumerate_eq)
  then show ?thesis by (simp add: live_callers_def)
qed

lemma unique_initialize:
  assumes "callers_unique c"
  shows "callers_unique (snd (Curl_Initialize ok c))"
proof (cases "c_state c = Stopped \<and> ok")
  case True
  let ?c = "snd (Curl_Initialize ok c)"
  have "live_callers ?c = []" using True by (auto simp: Curl_Initialize_def live_callers_def live_caller_def)
  moreover from this have "callers_known ?c = callers_known c"
    using assms True by (simp add: callers_unique_def callers_known_def) (simp add: Curl_Initialize_def)
  ultimately show ?thesis using assms True
    by (intro unique_same [OF assms]) (simp_all add: callers_unique_def Curl_Initialize_def)
qed (use assms in \<open>auto simp: Curl_Initialize_def\<close>)

lemma unique_reap:
  assumes "callers_unique c"
  shows "callers_unique (reap_handles now c)"
proof -
  have "live_caller (reap_handle now i h) = live_caller h" for i h by (simp add: reap_handle_def live_caller_def)
  then have "concat (map live_caller (c_handles (reap_handles now c))) = live_callers c"
    using live_map_enumerate [of c "\<lambda>(i, h). reap_handle now i h"] by (simp add: reap_handles_def)
  then have "live_callers (reap_handles now c) = live_callers c" by (simp add: live_callers_def)
  then show ?thesis using assms
    by (intro unique_same [OF assms]) (simp_all add: callers_unique_def callers_known_def reap_handles_def)
qed

lemma receive_header_keeps:
  assumes "receive_header getdate started buffer h = Inr h'"
  shows "h_handle h' = h_handle h" "h_in_use h' = h_in_use h" "h_callback h' = h_callback h"
    "h_retry_count h' = h_retry_count h" "h_max_retries h' = h_max_retries h"
  using assms by (cases h; auto simp: receive_header_def response_headers.defs split: sum.splits)+

lemma RxFunction_keeps:
  "live_caller (RxFunction started http_status bytes h) = live_caller h" "h_retry_count (RxFunction started http_status bytes h) = h_retry_count h"
  "h_max_retries (RxFunction started http_status bytes h) = h_max_retries h"
  by (auto simp: RxFunction_def live_caller_def)

lemma unique_step:
  assumes "curl_step getdate True c c'" "callers_unique c"
  shows "callers_unique c'"
  using assms(1)
proof cases
  case (deinitialize)
  then show ?thesis using assms(2) by (auto simp: Curl_Deinitialize_def callers_unique_def callers_known_def live_callers_def)
next
  case (failed i rest info)
  with assms(2) have "i < kTotalHandleCount" by (simp add: callers_unique_def)
  with failed assms(2) show ?thesis using unique_drop(3) [OF assms(2) failed(3)] by (simp add: unique_complete IsStarted_def)
next
  case (message i info result)
  with assms(2) have "i < kTotalHandleCount" by (simp add: callers_unique_def)
  with message assms(2) show ?thesis using unique_drop(1) [OF assms(2)] by (simp add: unique_complete IsStarted_def)
next
  case (data i http_status bytes)
  show ?thesis unfolding data using assms(2) by (rule unique_handle) (simp add: RxFunction_keeps)
next
  case (header i buffer h)
  have "live_caller h = live_caller (c_handles c ! i)"
    using receive_header_keeps [OF header(3)] by (simp add: live_caller_def)
  then show ?thesis unfolding header using assms(2) by (intro unique_handle) simp_all
qed (use assms in \<open>simp_all add: unique_initialize unique_teardown unique_send_begin unique_send_end unique_cancel unique_event unique_lost unique_reap\<close>)

section \<open>Requests that are sent again\<close>

text \<open>The calls in the table, with how often their request was sent again and how often it may be.\<close>

definition live_limits :: "NetworkProtocolCurl \<Rightarrow> (nat \<times> size_t \<times> size_t) set" where
  "live_limits c = {(x, h_retry_count h, h_max_retries h) | x h. h \<in> set (c_handles c) \<and> x \<in> set (live_caller h)}"

definition sent_again :: "nat \<Rightarrow> NetworkProtocolCurl \<Rightarrow> nat" where
  "sent_again x c = length (filter (\<lambda>p. fst p = x) (c_retries c))"

definition retries_limited :: "NetworkProtocolCurl \<Rightarrow> bool" where
  "retries_limited c \<longleftrightarrow>
     (\<forall>(x, n, limit) \<in> live_limits c. sent_again x c = unat n \<and> (\<forall>(y, l) \<in> set (c_retries c). y = x \<longrightarrow> l = limit)) \<and>
     (\<forall>(x, l) \<in> set (c_retries c). x < c_calls c \<and> sent_again x c \<le> unat l)"

lemma limits_same:
  assumes "retries_limited c" "live_limits c' \<subseteq> live_limits c" "c_retries c' = c_retries c" "c_calls c \<le> c_calls c'"
  shows "retries_limited c'"
proof -
  have "sent_again x c' = sent_again x c" for x by (simp add: sent_again_def assms(3))
  with assms show ?thesis unfolding retries_limited_def by fastforce
qed

text \<open>A handle is changed: its callback is kept with the counts, or dropped.\<close>

lemma limits_set_handle:
  assumes "\<And>h x. h = c_handles c ! i \<Longrightarrow> x \<in> set (live_caller (f h)) \<Longrightarrow>
      x \<in> set (live_caller h) \<and> h_retry_count (f h) = h_retry_count h \<and> h_max_retries (f h) = h_max_retries h"
  shows "live_limits (set_handle i f c) \<subseteq> live_limits c"
proof (cases "i < length (c_handles c)")
  case True
  then have i: "c_handles c ! i \<in> set (c_handles c)" by simp
  have "set (c_handles (set_handle i f c)) \<subseteq> insert (f (c_handles c ! i)) (set (c_handles c))"
    by (simp add: set_handle_def set_update_subset_insert)
  then have "h = f (c_handles c ! i) \<or> h \<in> set (c_handles c)" if "h \<in> set (c_handles (set_handle i f c))" for h using that by blast
  with assms [OF refl] i show ?thesis unfolding live_limits_def by fastforce
qed (simp add: set_handle_def list_update_beyond live_limits_def)

lemma live_caller_updates:
  "live_caller (h\<lparr>h_chunk := [], h_in_use := False, h_callback := None, h_payload := None\<rparr>) = []"
  "live_caller (h\<lparr>h_retry_count := n, h_count := m\<rparr>) = live_caller h" "live_caller (h\<lparr>h_cancelled := b\<rparr>) = live_caller h"
  "live_caller (h\<lparr>h_handle := False\<rparr>) = []" "live_caller (h\<lparr>h_handle := b, h_in_use := False\<rparr>) = []"
  by (simp_all add: live_caller_def)

lemma limits_release: "live_limits (ReleaseHandle i c) \<subseteq> live_limits c"
  unfolding ReleaseHandle_def by (rule limits_set_handle) (simp only: live_caller_updates list.set empty_iff)

lemma limits_call_back [simp]: "live_limits (curl_call_back callback resp c) = live_limits c"
  by (simp add: live_limits_def)

text \<open>The handle of a call is the only one: what is known of other handles concerns other calls.\<close>

lemma live_distinct:
  assumes "callers_unique c" "i < length (c_handles c)" "j < length (c_handles c)" "x \<in> set (live_caller (c_handles c ! i))"
    "x \<in> set (live_caller (c_handles c ! j))"
  shows "i = j"
proof (rule ccontr)
  assume "i \<noteq> j"
  define f where "f = (\<lambda>h :: RequestHandle. h\<lparr>h_in_use := False\<rparr>)"
  have "live_caller (f h) = []" for h by (simp add: f_def live_caller_def)
  with live_callers_update [OF assms(2), of f] have m: "mset (live_callers c) = mset (live_callers (set_handle i f c)) + mset (live_caller (c_handles c ! i))" by simp
  have "c_handles (set_handle i f c) ! j = c_handles c ! j" using \<open>i \<noteq> j\<close> by (simp add: set_handle_def)
  with assms(3,5) have "x \<in> set (live_callers (set_handle i f c))" by (fastforce simp: live_callers_def in_set_conv_nth)
  then have "1 \<le> count (mset (live_callers (set_handle i f c))) x" "1 \<le> count (mset (live_caller (c_handles c ! i))) x"
    using assms(4) by (simp_all add: Suc_le_eq)
  then have "2 \<le> count (mset (live_callers c)) x" unfolding m count_union by linarith
  then have "2 \<le> count (callers_known c) x" by (simp add: callers_known_def)
  with assms(1) show False unfolding callers_unique_def by (metis not_less_eq_eq numeral_2_eq_2 One_nat_def)
qed

lemma limits_retry:
  assumes "retries_limited c" "callers_unique c" "i < length (c_handles c)" "live_caller (c_handles c ! i) = [caller]"
    "h_retry_count (c_handles c ! i) < h_max_retries (c_handles c ! i)"
  shows "retries_limited ((set_handle i (\<lambda>h. h\<lparr>h_retry_count := h_retry_count h + 1, h_count := 0\<rparr>) c)
    \<lparr>c_events := events, c_retries := c_retries c @ [(caller, h_max_retries (c_handles c ! i))]\<rparr>)" (is "retries_limited ?c")
proof -
  let ?h = "c_handles c ! i"
  have h: "?h \<in> set (c_handles c)" using assms(3) by simp
  have old: "(caller, h_retry_count ?h, h_max_retries ?h) \<in> live_limits c" using h assms(4) by (auto simp: live_limits_def)
  then have n: "sent_again caller c = unat (h_retry_count ?h)" "\<And>l. (caller, l) \<in> set (c_retries c) \<Longrightarrow> l = h_max_retries ?h"
    using assms(1) unfolding retries_limited_def by fastforce+
  have u: "unat (h_retry_count ?h + 1) = unat (h_retry_count ?h) + 1"
    using assms(5) by (rule counter_inc)
  have live: "(x, m, limit) \<in> live_limits ?c \<Longrightarrow>
      x = caller \<and> m = h_retry_count ?h + 1 \<and> limit = h_max_retries ?h \<or> x \<noteq> caller \<and> (x, m, limit) \<in> live_limits c" for x m limit
  proof -
    assume "(x, m, limit) \<in> live_limits ?c"
    then obtain j where j: "j < length (c_handles c)" and x: "x \<in> set (live_caller (c_handles ?c ! j))"
      "m = h_retry_count (c_handles ?c ! j)" "limit = h_max_retries (c_handles ?c ! j)"
      by (auto simp: live_limits_def set_handle_def in_set_conv_nth)
    show ?thesis
    proof (cases "j = i")
      case True
      with x assms(3,4) show ?thesis by (simp add: set_handle_def live_caller_updates)
    next
      case False
      then have same: "c_handles ?c ! j = c_handles c ! j" by (simp add: set_handle_def)
      with x(1) live_distinct [OF assms(2,3) j, of caller] False assms(4) have "x \<noteq> caller" by auto
      with x j same show ?thesis by (auto simp: live_limits_def)
    qed
  qed
  have sent: "sent_again x ?c = sent_again x c + (if x = caller then 1 else 0)" for x by (simp add: sent_again_def)
  have known: "caller < c_calls c" using assms(2) h assms(4)
    by (fastforce simp: callers_unique_def callers_known_def live_callers_def)
  have "unat (h_retry_count ?h) + 1 \<le> unat (h_max_retries ?h)" using assms(5) by (simp add: word_less_nat_alt)
  then have "x < c_calls ?c \<and> sent_again x ?c \<le> unat l" if "(x, l) \<in> set (c_retries ?c)" for x l
    using that assms(1) n known unfolding sent by (fastforce simp: retries_limited_def)
  moreover have "sent_again x ?c = unat m \<and> (\<forall>(y, l) \<in> set (c_retries ?c). y = x \<longrightarrow> l = limit)" if "(x, m, limit) \<in> live_limits ?c" for x m limit
    using live [OF that] n u assms(1) unfolding sent by (fastforce simp: retries_limited_def)
  ultimately show ?thesis unfolding retries_limited_def by blast
qed

lemma limits_complete:
  assumes "retries_limited c" "callers_unique c"
  shows "retries_limited (CompleteMessage info i result c)"
proof -
  have answered: "retries_limited (curl_call_back callback resp (ReleaseHandle i c))" "retries_limited (ReleaseHandle i c)" for callback resp
    by (rule limits_same [OF assms(1)]; simp add: limits_release)+
  let ?h = "c_handles c ! i"
  show ?thesis
  proof (cases "i < length (c_handles c) \<and> h_in_use ?h \<and> h_handle ?h")
    case True
    then have "live_caller ?h = [caller]" if "h_callback ?h = Some caller" for caller using that by (simp add: live_caller_def)
    with True answered assms(1) limits_retry [OF assms] show ?thesis
      by (simp add: CompleteMessage_def Let_def split: option.split prod.split)
  qed (use assms(1) in \<open>simp add: CompleteMessage_def\<close>)
qed

lemma limits_taken:
  assumes "retries_limited c" "live_limits c' \<subseteq> insert (c_calls c, 0, limit) (live_limits c)" "c_retries c' = c_retries c" "c_calls c' = c_calls c + 1"
  shows "retries_limited c'"
proof -
  have s: "sent_again x c' = sent_again x c" for x by (simp add: sent_again_def assms(3))
  have none: "(c_calls c, l) \<notin> set (c_retries c)" for l using assms(1) by (auto simp: retries_limited_def)
  then have "\<forall>p \<in> set (c_retries c). fst p \<noteq> c_calls c" by auto
  then have zero: "sent_again (c_calls c) c = 0" by (simp add: sent_again_def filter_empty_conv)
  have "sent_again x c' = unat n \<and> (\<forall>(y, l) \<in> set (c_retries c'). y = x \<longrightarrow> l = m)" if "(x, n, m) \<in> live_limits c'" for x n m
    using that assms(1,2) none zero unfolding s assms(3) retries_limited_def by fastforce
  moreover have "x < c_calls c' \<and> sent_again x c' \<le> unat l" if "(x, l) \<in> set (c_retries c')" for x l
    using that assms(1) unfolding s assms(3,4) retries_limited_def by fastforce
  ultimately show ?thesis unfolding retries_limited_def by blast
qed

lemma live_limits_same: "c_handles c' = c_handles c \<Longrightarrow> live_limits c' = live_limits c"
  by (simp add: live_limits_def)

lemma limits_send_begin:
  assumes "retries_limited c"
  shows "retries_limited (Curl_Send_begin allocated interface_ok bundle_ok now payload request_id request config c)"
proof -
  let ?c = "c\<lparr>c_calls := c_calls c + 1\<rparr>"
  have same: "retries_limited (?c\<lparr>c_returned := r\<rparr>)" for r
    by (rule limits_same [OF assms]) (simp_all add: live_limits_def)
  obtain r c1 where g: "GetHandle allocated request_id (Some (c_calls c)) now payload ?c = (r, c1)" by (cases "GetHandle allocated request_id (Some (c_calls c)) now payload ?c")
  show ?thesis
  proof (cases rule: GetHandle_cases [OF g])
    case 1
    with same g show ?thesis by (simp add: Curl_Send_begin_def Let_def)
  next
    case (2 i f)
    define h where "h = configure_handle request config (f (c_handles c ! i))"
    let ?c2 = "set_handle i (configure_handle request config) c1"
    have h: "live_caller h = [c_calls c]" "h_retry_count h = 0" using 2(5,6) unfolding h_def live_configure by (simp_all add: configure_handle_def)
    have "c_handles ?c2 = (c_handles c)[i := h]" using 2(2,3) by (simp add: set_handle_def h_def)
    then have "set (c_handles ?c2) \<subseteq> insert h (set (c_handles c))" by (simp add: set_update_subset_insert)
    then have l: "live_limits ?c2 \<subseteq> insert (c_calls c, 0, h_max_retries h) (live_limits c)" using h unfolding live_limits_def by fastforce
    have "retries_limited (?c2\<lparr>c_returned := r\<rparr>)" "retries_limited (?c2\<lparr>c_sending := q\<rparr>)" for r q
      using l 2(2) by (intro limits_taken [OF assms]; simp add: live_limits_def)+
    then show ?thesis using same g 2(1) by (simp add: Curl_Send_begin_def Let_def)
  qed
qed

lemma limits_step:
  assumes "curl_step getdate True c c'" "callers_unique c" "retries_limited c"
  shows "retries_limited c'"
  using assms(1)
proof cases
  case (initialize ok)
  have "live_limits c' \<subseteq> live_limits c"
    unfolding initialize by (auto simp: Curl_Initialize_def live_limits_def live_caller_updates)
  with initialize show ?thesis by (intro limits_same [OF assms(3)]) (auto simp: Curl_Initialize_def)
next
  case deinitialize
  then show ?thesis by (intro limits_same [OF assms(3)]) (auto simp: Curl_Deinitialize_def live_limits_def)
next
  case teardown
  then have "live_limits c' = {}" by (auto simp: Teardown_def live_limits_def live_caller_updates)
  with teardown show ?thesis by (intro limits_same [OF assms(3)]) (auto simp: Teardown_def)
next
  case send_begin
  with assms(3) show ?thesis by (simp add: limits_send_begin)
next
  case send_end
  then show ?thesis by (intro limits_same [OF assms(3)]) (auto simp: Curl_Send_end_def AddEvent_def live_limits_def)
next
  case (cancel request_id)
  have "live_limits (set_handle i (\<lambda>h. h\<lparr>h_cancelled := True\<rparr>) c) \<subseteq> live_limits c" for i
    by (rule limits_set_handle) (simp add: live_caller_updates)
  then have "live_limits c' \<subseteq> live_limits c"
    unfolding cancel by (simp add: Curl_Cancel_def Let_def AddEvent_def live_limits_def)
  with cancel show ?thesis by (intro limits_same [OF assms(3)]) (auto simp: Curl_Cancel_def Let_def AddEvent_def)
next
  case (event type i es added info)
  let ?c = "c\<lparr>c_events := es\<rparr>"
  have "retries_limited ?c" "retries_limited (?c\<lparr>c_multi := m\<rparr>)" "retries_limited (?c\<lparr>c_failed := m\<rparr>)" for m
    by (rule limits_same [OF assms(3)]; simp add: live_limits_def)+
  with event show ?thesis using unique_drop(1) [OF unique_drop(2) [OF assms(2) event(3)]]
    by (simp add: worker_event_def limits_complete split: event_type.split)
next
  case (failed i rest info)
  have "retries_limited (c\<lparr>c_failed := rest\<rparr>)" by (rule limits_same [OF assms(3)]) (simp_all add: live_limits_def)
  with failed show ?thesis using unique_drop(3) [OF assms(2) failed(3)] by (simp add: limits_complete)
next
  case (message i info result)
  have "retries_limited (c\<lparr>c_multi := removeAll i (c_multi c)\<rparr>)" by (rule limits_same [OF assms(3)]) (simp_all add: live_limits_def)
  with message show ?thesis using unique_drop(1) [OF assms(2)] by (simp add: limits_complete)
next
  case (lost i now removed info)
  have m: "retries_limited (c\<lparr>c_multi := removeAll i (c_multi c)\<rparr>)" by (rule limits_same [OF assms(3)]) (simp_all add: live_limits_def)
  have "retries_limited (curl_call_back callback resp (ReleaseHandle i c))" for callback resp
    by (rule limits_same [OF assms(3)]) (simp_all add: limits_release)
  with m lost assms(3) show ?thesis using unique_drop(1) [OF assms(2)] by (simp add: lost_handle_def Let_def limits_complete)
next
  case (reap now)
  have "live_limits c' \<subseteq> live_limits c"
  proof -
    have "h \<in> set (c_handles c) \<or> live_caller h = []" if "h \<in> set (c_handles c')" for h
      using that unfolding reap by (auto simp: reap_handles_def reap_handle_def live_caller_updates in_set_enumerate_eq)
    then show ?thesis unfolding live_limits_def by fastforce
  qed
  with reap show ?thesis by (intro limits_same [OF assms(3)]) (auto simp: reap_handles_def)
next
  case (data i http_status bytes)
  have "live_limits c' \<subseteq> live_limits c"
    unfolding data by (rule limits_set_handle) (simp add: RxFunction_keeps)
  with data show ?thesis by (intro limits_same [OF assms(3)]) simp_all
next
  case (header i buffer h)
  have "live_caller h = live_caller (c_handles c ! i)" using receive_header_keeps [OF header(3)] by (simp add: live_caller_def)
  then have "live_limits c' \<subseteq> live_limits c"
    unfolding header using receive_header_keeps [OF header(3)] by (intro limits_set_handle) simp
  with header show ?thesis by (intro limits_same [OF assms(3)]) simp_all
qed simp

section \<open>Answers\<close>

definition curl_reachable :: "(string \<Rightarrow> int) \<Rightarrow> NetworkProtocolCurl \<Rightarrow> bool" where
  "curl_reachable getdate c \<longleftrightarrow> (curl_step getdate True)\<^sup>*\<^sup>* NetworkProtocolCurl_new c"

lemma reachable_new: "curl_reachable getdate NetworkProtocolCurl_new"
  by (simp add: curl_reachable_def)

lemma reachable_step: "curl_reachable getdate c \<Longrightarrow> curl_step getdate True c c' \<Longrightarrow> curl_reachable getdate c'"
  unfolding curl_reachable_def by (rule rtranclp.rtrancl_into_rtrancl)

lemma unused_handles: "live_caller RequestHandle_new = []"
  by (simp add: live_caller_def RequestHandle_new_def)

lemma distinct_of_count: "(\<And>x. count (mset xs) x \<le> 1) \<Longrightarrow> distinct xs"
proof (induction xs)
  case (Cons a xs)
  from Cons.prems [of a] have "a \<notin> set xs" by (simp add: count_eq_zero_iff)
  moreover have "count (mset xs) x \<le> 1" for x using Cons.prems [of x] by (auto simp: count_mset_0_iff [THEN iffD2] split: if_splits)
  ultimately show ?case using Cons.IH by simp
qed simp

lemma curl_invariant:
  assumes "curl_reachable getdate c"
  shows "callers_unique c \<and> retries_limited c"
  using assms unfolding curl_reachable_def
proof (induction rule: rtranclp_induct)
  case base
  have none: "live_callers NetworkProtocolCurl_new = []"
    by (simp add: live_callers_def NetworkProtocolCurl_new_def unused_handles)
  then have "callers_known NetworkProtocolCurl_new = {#}" by (simp add: callers_known_def NetworkProtocolCurl_new_def)
  with none have "callers_unique NetworkProtocolCurl_new" by (simp add: callers_unique_def NetworkProtocolCurl_new_def)
  moreover have "retries_limited NetworkProtocolCurl_new"
    by (auto simp: retries_limited_def live_limits_def NetworkProtocolCurl_new_def unused_handles)
  ultimately show ?case by simp
next
  case (step c c')
  then show ?case using unique_step limits_step by blast
qed

text \<open>A request, a cancellation that meets its answer, and a second request that gets the same handle.\<close>

definition example_info :: transfer_info where
  "example_info = \<lparr>ti_http_status = 200, ti_error_text = [], ti_strerror = [], ti_time_over = False, ti_connected = True, ti_statistics = []\<rparr>"

definition example_send :: "int \<Rightarrow> NetworkProtocolCurl \<Rightarrow> NetworkProtocolCurl" where
  "example_send request_id = Curl_Send_begin True True True 0 None request_id (NetworkRequest_new 0 ''url'' 0 0 GET) NetworkConfig_default"

definition late_sent :: NetworkProtocolCurl where
  "late_sent = (let c = example_send 1 (snd (Curl_Initialize True NetworkProtocolCurl_new)) in Curl_Send_end 0 0 (c\<lparr>c_sending := []\<rparr>))"

definition late_cancelled :: NetworkProtocolCurl where
  "late_cancelled = snd (Curl_Cancel 1 (worker_event True example_info SendEvent 0 (late_sent\<lparr>c_events := []\<rparr>)))"

definition late_answered :: NetworkProtocolCurl where
  "late_answered = CompleteMessage example_info 0 CURLE_OK (late_cancelled\<lparr>c_multi := removeAll 0 (c_multi late_cancelled)\<rparr>)"

definition late_second :: NetworkProtocolCurl where
  "late_second = (let c = example_send 2 late_answered in Curl_Send_end 1 0 (c\<lparr>c_sending := []\<rparr>))"

definition late_ended :: NetworkProtocolCurl where
  "late_ended = worker_event True example_info CancelEvent 0 (late_second\<lparr>c_events := [(SendEvent, 0)]\<rparr>)"

lemma late_sent_reachable: "curl_reachable getdate late_sent"
proof -
  let ?i = "snd (Curl_Initialize True NetworkProtocolCurl_new)"
  have "curl_reachable getdate ?i" using reachable_new curl_step.initialize by (rule reachable_step)
  then have "curl_reachable getdate (example_send 1 ?i)" unfolding example_send_def using curl_step.send_begin by (rule reachable_step)
  moreover have "c_sending (example_send 1 ?i) = [] @ (0, 0) # []" by code_simp
  ultimately show ?thesis unfolding late_sent_def Let_def using curl_step.send_end reachable_step by (metis append_Nil)
qed

lemma late_cancelled_reachable: "curl_reachable getdate late_cancelled"
proof -
  have "IsStarted late_sent" "c_events late_sent = (SendEvent, 0) # []" by code_simp+
  then have "curl_reachable getdate (worker_event True example_info SendEvent 0 (late_sent\<lparr>c_events := []\<rparr>))"
    using late_sent_reachable curl_step.event by (blast intro: reachable_step)
  then show ?thesis unfolding late_cancelled_def using curl_step.cancel by (rule reachable_step)
qed

lemma late_answered_reachable: "curl_reachable getdate late_answered"
proof -
  have "IsStarted late_cancelled" "0 \<in> set (c_multi late_cancelled)" by code_simp+
  then show ?thesis unfolding late_answered_def
    using late_cancelled_reachable curl_step.message by (blast intro: reachable_step)
qed

lemma late_second_reachable: "curl_reachable getdate late_second"
proof -
  have "curl_reachable getdate (example_send 2 late_answered)"
    unfolding example_send_def using late_answered_reachable curl_step.send_begin by (rule reachable_step)
  moreover have "c_sending (example_send 2 late_answered) = [] @ (1, 0) # []" by code_simp
  ultimately show ?thesis unfolding late_second_def Let_def using curl_step.send_end reachable_step by (metis append_Nil)
qed

lemma late_ended_reachable: "curl_reachable getdate late_ended"
proof -
  have "IsStarted late_second" "c_events late_second = (CancelEvent, 0) # [(SendEvent, 0)]" by code_simp+
  then show ?thesis unfolding late_ended_def
    using late_second_reachable curl_step.event by (blast intro: reachable_step)
qed

text \<open>
  The second request is not cancelled by anybody, and it is answered as timed out before it was sent: the event of the
  cancellation names the handle and not the request.
\<close>

lemma late_cancellation_ends_next:
  "curl_reachable getdate late_ended"
  "map (\<lambda>(x, resp). (x, nr_id resp, nr_cancelled resp, nr_status resp)) (c_answers late_ended) =
     [(0, 1, True, NetCancelled), (1, 2, False, TimedOut)]"
  "c_returned late_ended = [(0, ErrorNone), (1, ErrorNone)]"
  by (rule late_ended_reachable) code_simp+

text \<open>
  C20: the promise to the callers of \<open>Send\<close>, if libcurl gives no message but that a transfer is done. In every reachable state no callback
  was called twice; a request that \<open>Send\<close> accepted is either in the table of handles or was answered, and not both; once
  the worker has stopped, all of them were answered; and a request was sent again at most as often as its configuration allows.
\<close>

theorem curl_calls_answered:
  assumes "curl_reachable getdate c"
  shows "distinct (map fst (c_answers c)) \<and>
    (\<forall>x. (x, ErrorNone) \<in> set (c_returned c) \<longrightarrow> (x \<in> set (live_callers c)) \<noteq> (x \<in> fst ` set (c_answers c))) \<and>
    (c_state c = Stopped \<longrightarrow> live_callers c = []) \<and>
    (\<forall>(x, limit) \<in> set (c_retries c). sent_again x c \<le> unat limit)"
proof -
  from curl_invariant [OF assms] have u: "callers_unique c" "retries_limited c" by simp_all
  then have one: "count (mset (live_callers c)) x + count (mset (map fst (c_answers c))) x \<le> 1" for x
    by (simp add: callers_unique_def callers_known_def)
  then have "distinct (map fst (c_answers c))" by (intro distinct_of_count) (rule add_leD2)
  moreover have "(x \<in> set (live_callers c)) \<noteq> (x \<in> fst ` set (c_answers c))" if "(x, ErrorNone) \<in> set (c_returned c)" for x
  proof -
    from that u(1) have "x \<in># callers_known c" by (simp add: callers_unique_def)
    then have "x \<in> set (live_callers c) \<or> x \<in> set (map fst (c_answers c))" by (auto simp: callers_known_def)
    moreover have "\<not> (x \<in> set (live_callers c) \<and> x \<in> set (map fst (c_answers c)))"
    proof
      assume "x \<in> set (live_callers c) \<and> x \<in> set (map fst (c_answers c))"
      then have "0 < count (mset (live_callers c)) x" "0 < count (mset (map fst (c_answers c))) x"
        unfolding count_greater_zero_iff set_mset_mset by simp_all
      with one [of x] show False by linarith
    qed
    ultimately show ?thesis by auto
  qed
  ultimately show ?thesis using u by (auto simp: callers_unique_def retries_limited_def)
qed

theorem curl_calls_answered_witness:
  "distinct (map fst (c_answers late_ended)) \<and> (1, ErrorNone) \<in> set (c_returned late_ended) \<and> 1 \<notin> set (live_callers late_ended)"
proof -
  have "(1, ErrorNone) \<in> set (c_returned late_ended)" "1 \<in> fst ` set (c_answers late_ended)" by code_simp+
  with curl_calls_answered [OF late_ended_reachable] show ?thesis by blast
qed

text \<open>
  A request that \<open>Send\<close> refuses because of its network interface keeps its handle, with the callback: it is answered too, at the
  latest when the worker stops.
\<close>

lemma refused_request_answered:
  assumes "IsStarted c" "free_handle (c_handles c) = Some i" "h_handle (c_handles c ! i) \<or> allocated" "network_interface config \<noteq> []"
    and c': "c' = Curl_Send_begin allocated False bundle_ok now payload request_id request config c"
  shows "c_returned c' = c_returned c @ [(c_calls c, ErrorFailedBindInterface)]" "h_in_use (c_handles c' ! i)"
    "c_calls c \<in> fst ` set (c_answers (Teardown c'))"
proof -
  have i: "i < length (c_handles c)" using free_handle_Some [OF assms(2)] by simp
  show r: "c_returned c' = c_returned c @ [(c_calls c, ErrorFailedBindInterface)]"
    using assms(1-4) unfolding c' by (auto simp: Curl_Send_begin_def GetHandle_def IsStarted_def Let_def)
  have h: "h_in_use (c_handles c' ! i) \<and> h_handle (c_handles c' ! i) \<and> h_callback (c_handles c' ! i) = Some (c_calls c)"
    using assms(1-4) i unfolding c' by (auto simp: Curl_Send_begin_def GetHandle_def IsStarted_def Let_def set_handle_def configure_handle_def)
  then show "h_in_use (c_handles c' ! i)" by simp
  have "length (c_handles c') = length (c_handles c)"
    using assms(1-4) unfolding c' by (auto simp: Curl_Send_begin_def GetHandle_def IsStarted_def Let_def)
  with i have "c_handles c' ! i \<in> set (c_handles c')" by simp
  moreover have "c_calls c \<in> fst ` set (offline_answer (c_handles c' ! i))" using h by (simp add: offline_answer_def)
  ultimately show "c_calls c \<in> fst ` set (c_answers (Teardown c'))" by (auto simp: Teardown_def)
qed

text \<open>A message of another kind answers the request and leaves the callback in the table, to be called again.\<close>

lemma unknown_message_keeps_callback:
  assumes "i < length (c_handles c)" "live_caller (c_handles c ! i) = [x]"
  shows "x \<in> fst ` set (c_answers (unknown_message i c))" "x \<in> set (live_callers (unknown_message i c))"
proof -
  have h: "h_in_use (c_handles c ! i)" "h_handle (c_handles c ! i)" "h_callback (c_handles c ! i) = Some x"
    using assms(2) by (auto simp: live_caller_def split: if_splits option.splits)
  then show "x \<in> fst ` set (c_answers (unknown_message i c))" by (simp add: unknown_message_def curl_call_back_def Let_def)
  have "c_handles (unknown_message i c) = c_handles c" by (simp add: unknown_message_def Let_def split: option.split)
  moreover have "x \<in> set (live_caller (c_handles c ! i))" using assms(2) by simp
  ultimately show "x \<in> set (live_callers (unknown_message i c))" using nth_mem [OF assms(1)] by (auto simp: live_callers_def)
qed

section \<open>The payload\<close>

text \<open>
  Blocks that are received one after the other are written one after the other from the position that the count gives, over what the
  stream has there.
\<close>

lemma rx_blocks:
  assumes "h_payload h = Some (s, pos)" "h_count h = of_nat n" "n \<le> length s" "n + length (concat blocks) < 2 ^ 64"
    "\<not> h_ignore_offset h" "\<not> h_skip_content h" "\<not> rh_range_out h" "\<not> h_cancelled h"
  shows "map_option fst (h_payload (fold (RxFunction True http_status) blocks h)) =
      Some (take n s @ concat blocks @ drop (n + length (concat blocks)) s) \<and>
    h_count (fold (RxFunction True http_status) blocks h) = of_nat (n + length (concat blocks))"
  using assms
proof (induction blocks arbitrary: h s pos n)
  case (Cons b blocks)
  let ?h = "RxFunction True http_status b h" and ?s = "take n s @ b @ drop (n + length b) s"
  have "unat (h_count h) = n" using Cons.prems by (simp add: unat_of_nat)
  then have p: "h_payload ?h = Some (?s, n + length b)" using Cons.prems by (simp add: RxFunction_def write_at_def Let_def)
  have c: "h_count ?h = of_nat (n + length b)" using Cons.prems by (simp add: RxFunction_def)
  have f: "\<not> h_ignore_offset ?h" "\<not> h_skip_content ?h" "\<not> rh_range_out ?h" "\<not> h_cancelled ?h"
    using Cons.prems by (simp_all add: RxFunction_def)
  have "n + length b \<le> length ?s" "n + length b + length (concat blocks) < 2 ^ 64" using Cons.prems(3,4) by simp_all
  note IH = Cons.IH [OF p c this f]
  have t: "take (n + length b) ?s = take n s @ b" using Cons.prems(3) by simp
  have d: "drop (n + length b + k) ?s = drop (n + length b + k) s" for k using Cons.prems(3) by (simp add: add.assoc add.commute)
  show ?case using IH unfolding t d by (simp add: add.assoc)
qed simp

text \<open>
  The payload of a request into an empty stream is what was received. After a transfer that is made again, the stream
  has the new bytes and then what the first transfer wrote beyond them.
\<close>

lemma payload_received:
  assumes "h_payload h = Some ([], 0)" "h_count h = 0" "length (concat blocks) < 2 ^ 64"
    "\<not> h_ignore_offset h" "\<not> h_skip_content h" "\<not> rh_range_out h" "\<not> h_cancelled h"
  shows "map_option fst (h_payload (fold (RxFunction True http_status) blocks h)) = Some (concat blocks)"
  using rx_blocks [OF assms(1), of 0 blocks http_status] assms by simp

lemma payload_after_retry:
  assumes "h_payload h = Some (first, pos)" "h_count h = 0" "length (concat blocks) < 2 ^ 64"
    "\<not> h_ignore_offset h" "\<not> h_skip_content h" "\<not> rh_range_out h" "\<not> h_cancelled h"
  shows "map_option fst (h_payload (fold (RxFunction True http_status) blocks h)) = Some (concat blocks @ drop (length (concat blocks)) first)"
  using rx_blocks [OF assms(1), of 0 blocks http_status] assms by simp

end
