(* ===== verification/Spec2Isabelle.thy ===== *)
theory Spec2Isabelle
  imports Tile_Navigation Prefetch_Tiles Multi_Request Read_Answers Prefetch_Provider Url_Codec Crypto Thread_Pool Stream_Queue Volatile_Layer Index_Layer
    Write_Json Token_Refresh Auto_Flush Network_Object Curl_Protocol
begin

text \<open>
  HERE OLP Edge SDK for C++: a model of its core, of the clients that read from and write to the data service and of
  authentication, and what was proved of it. Paths are relative to \<open>src/\<close>.

  \<^bold>\<open>The program.\<close> A \<open>CatalogClient\<close> (\<open>olp-cpp-sdk-dataservice-read\<close>) reads the metadata, partitions and data
  of a catalog. Its repositories answer a request from a cache or from REST interfaces, whose addresses are
  looked up first. Concurrent requests of one key are merged, the client keeps the tokens of the requests that are not
  answered, and a prefetch fetches the tiles of a region one after the other. The clients of dataservice-write
  (\<open>olp-cpp-sdk-dataservice-write\<close>), one class per type of layer, publish data: the client of a stream layer queues requests in
  its cache and flushes them, the others initialise their interfaces on the first request and publish in batches. The REST
  interfaces are called through \<open>OlpClient\<close> (\<open>olp-cpp-sdk-core/src/client\<close>), which makes requests, retries and cancels them and
  hands them to the network, where a decorator queues them by priority and quota (\<open>src/network\<close>). What is sent, received and
  cached is JSON, by generated parsers and serializers. The cache (\<open>src/cache\<close>) keeps items in memory, in an LRU cache
  (\<open>olp/core/utils/LruCache.h\<close>) with expiry times, in front of a LevelDB database. Tasks run in a thread pool
  (\<open>src/thread\<close>). Tokens for the requests come from \<open>olp-cpp-sdk-authentication\<close>, which signs its own requests, caches the answers and
  refreshes a token before it expires. Tiles of layers are named by tile keys (\<open>src/geo/tiling\<close>), and catalogs by resource
  names (\<open>HRN\<close>).

  \<^bold>\<open>The theories: core.\<close>

  \<^item> \<open>Prelude\<close>: machine types, results, generic lemmas. \<open>Refinement\<close>: the locale \<open>data_refinement\<close>, from
    single steps of code and specification to sequences of operations; it is interpreted by the LRU cache
    and by the memory cache.
  \<^item> \<open>Tile_Key\<close>, \<open>Tile_Codes\<close>, \<open>Tile_Navigation\<close>: \<open>TileKey.h\<close>, \<open>TileKey.cpp\<close>, \<open>TileKeyUtils.cpp\<close>, \<open>SubTiles.h\<close> and the
    subdivision schemes. Rows, columns, levels and quad keys are words. The codes of a tile read back as
    the tile, and every number of the right form is a code; children and ancestors agree with prefixes of
    the quad key; sub keys and relative keys are inverted as long as at most 30 levels lie between; the
    search for the nearest stored level is optimal; the iterator visits every sub tile once. The two
    subdivision schemes are instances of the locale \<open>subdivision_scheme\<close>, and the order of tile keys is an
    instance of \<open>linorder\<close>.
  \<^item> \<open>Lru_Cache\<close>: \<open>LruCache.h\<close> with its links between buckets; a refinement of the list of entries from the
    most to the least recently used, with the bound on the cost.
  \<^item> \<open>Memory_Cache\<close>: \<open>InMemoryCache.cpp\<close> as a refinement of a specification with expiry records; nothing
    expired is returned. \<open>Default_Cache\<close>: \<open>DefaultCache.cpp\<close> and \<open>DiskCache.cpp\<close>, with LevelDB and the file system as the
    record \<open>storage_ops\<close>; no undefined behaviour, get after put in memory and on disk, removal by prefix.
  \<^item> \<open>Hrn\<close>: \<open>HRN.cpp\<close> and \<open>Tokenizer.h\<close>; the round trip of names. \<open>Url_Codec\<close>: \<open>Url.cpp\<close>; the decoder against percent decoding, and
    the round trip. \<open>Base64_Codec\<close>: \<open>Base64.cpp\<close>; the round trip.
  \<^item> \<open>Network_Request\<close>: status and error codes, \<open>NetworkRequest\<close>, its configuration, and
    \<open>NetworkRequestPriorityQueue\<close>. \<open>Network_Queue\<close>: \<open>NetworkRequestPriorityQueueDecorator.cpp\<close> as the step
    relation \<open>dec_step\<close> of its sender thread, its callers and the callbacks of the protocol; quotas,
    conservation of requests, and the quota that a refused request does not give back. \<open>Network_Object\<close>: \<open>Network.cpp\<close>, the objects that
    send through one singleton; every caller is answered once, \<open>Stop\<close> cancels what is in flight, listeners are told of the changes.
  \<^item> \<open>Curl_Headers\<close>: \<open>NetworkUtils.cpp\<close>, the header lines that \<open>NetworkProtocolCurl\<close> reads, and \<open>Credentials.cpp\<close>; no header makes it
    read out of bounds. \<open>Curl_Protocol\<close>: the rest of \<open>NetworkProtocolCurl.cpp\<close>, the protocol that the decorator sends through, as the step relation
    \<open>curl_step\<close> of its callers, its worker and libcurl; callbacks are called once, requests are sent again within their limit, and the
    payload is what was received.
  \<^item> \<open>Olp_Client\<close>: \<open>CancellationToken.cpp\<close>, \<open>CancellationContext.inl\<close>, \<open>OlpClient.cpp\<close> and \<open>NetworkAsyncHandlerImpl.cpp\<close>; a call
    is the step relation \<open>call_step\<close>. Its callback is called exactly once, attempts and sleeps follow the
    settings, and the call ends.
  \<^item> \<open>Thread_Pool\<close>: \<open>SyncQueue\<close>, \<open>ThreadPoolTaskScheduler\<close> and \<open>ExecuteOrSchedule\<close>, with the condition variable as counts of
    notifications that are due; tasks run in order, no wake-up is lost, and the pool ends after the close.
  \<^item> \<open>Json_Codec\<close>, \<open>Json_Roundtrip\<close>: \<open>ParserWrapper.h\<close>, \<open>JsonParser.h\<close>, \<open>SerializerWrapper.h\<close>, \<open>JsonSerializer.h\<close> and the generated
    parsers and serializers of dataservice-read; what is serialized is parsed back, class by class, and a catalog that was put
    on disk is read from disk.

  \<^bold>\<open>The theories: dataservice-read.\<close>

  \<^item> \<open>Read_Requests\<close>: the request objects and their keys. \<open>Multi_Request\<close>: \<open>MultiRequestContext.h\<close>,
    \<open>PendingRequests.cpp\<close> and \<open>CatalogClientImpl.cpp\<close>, as step relations \<open>multi_step\<close> and \<open>client_step\<close>;
    who is answered, what a cancellation loses, which entries stay.
  \<^item> \<open>Read_Apis\<close>: the model classes, the calls of \<open>generated/api\<close> and \<open>ApiClientLookup.cpp\<close>.
    \<open>Cache_Repositories\<close>, \<open>Cache_Sequences\<close>: the classes \<open>*CacheRepository\<close> over the locale \<open>key_value_cache\<close>, the laws of the
    interface \<open>KeyValueCache\<close>, which the model of the default cache in memory is shown to satisfy; no read
    under a wrong type, no stale value.
  \<^item> \<open>Read_Repositories\<close>, \<open>Read_Answers\<close>: \<open>ApiRepository.cpp\<close>, \<open>CatalogRepository.cpp\<close>, \<open>PartitionsRepository.cpp\<close> and
    \<open>DataRepository.cpp\<close> on top of them; the network calls of a request, that it is answered, and what a later
    request finds in the cache.
  \<^item> \<open>Prefetch_Tiles\<close>: \<open>EffectiveTileKeys\<close> of \<open>PrefetchTilesRepository.cpp\<close>. For a minimum level of at least 1
    the result is exactly the requested tiles with their relatives in the range of levels; for
    the minimum level 0, the default, the loop over the parents does not end. \<open>Prefetch_Provider\<close>: \<open>PrefetchTilesProvider.cpp\<close> and
    \<open>GetSubTiles\<close>; one prefetch at a time, answered, with a bound on its network calls.

  \<^bold>\<open>The theories: dataservice-write.\<close>

  \<^item> \<open>Write_Queue\<close>: \<open>ThreadSafeQueue\<close>, \<open>CancellationTokenList\<close>, \<open>BackgroundTaskCollection\<close> and the times of a flush; a bounded queue is a
    window of what was pushed, the list of tokens implements a map. \<open>Write_Apis\<close>: the data, the requests and the calls of
    \<open>generated\<close>. \<open>Write_Json\<close>: the parsers and serializers; what becomes of a queued request that goes through a text, and why an index
    with metadata has no text.
  \<^item> \<open>Stream_Layer\<close>: \<open>StreamLayerClientImpl.cpp\<close>; every request is answered and releases the initialisation, large data is published by
    four calls in order. \<open>Stream_Queue\<close>: its queue in the cache, over the locale \<open>stream_cache_laws\<close>; requests are popped in
    their order, and a flush ends. \<open>Auto_Flush\<close>: \<open>AutoFlushController.cpp\<close>, its timers and flush threads as steps on a clock; the tasks
    waited for are the flushes in progress, and a request does not wait longer than the interval for a flush to start.
  \<^item> \<open>Layer_Client\<close>, with the locale \<open>layer_client\<close>: what \<open>VersionedLayerClientImpl.cpp\<close>, \<open>VolatileLayerClientImpl.cpp\<close> and \<open>IndexLayerClientImpl.cpp\<close>
    share. \<open>Versioned_Layer\<close> and \<open>Volatile_Layer\<close> interpret its extension \<open>batch_client\<close>, \<open>Index_Layer\<close> the locale itself. Requests are answered,
    data is stored before a partition refers to it; this theory has the properties of all three.

  \<^bold>\<open>The theories: authentication.\<close>

  \<^item> \<open>Crypto\<close>: \<open>Crypto.cpp\<close>; SHA-256 and HMAC are those of FIPS 180-4 and FIPS 198-1, whose constants are defined from the roots of primes.
  \<^item> \<open>Authentication\<close>: \<open>AuthenticationClient.cpp\<close> and the classes of results; the header with its signature, the requests, and the token
    caches, which hold only what a sign-in with the key was answered.
  \<^item> \<open>Token_Refresh\<close>: \<open>TokenEndpoint.cpp\<close>, \<open>AutoRefreshingToken.cpp\<close> and \<open>TokenProvider.h\<close>; how long a token that is not refreshed is valid.

  \<^bold>\<open>Conventions.\<close> Undefined behaviour, a failed assertion, an exception, a deadlock and fuel that ran out are \<open>None\<close>;
  theorems that an operation is defined say that \<open>None\<close> is not reached. Errors of the SDK are \<open>Inl\<close> of
  \<open>ApiError\<close>, or of \<open>AuthError\<close> in authentication. The state of a concurrent component changes by steps, each what runs under one lock,
  and the theorems hold for every interleaving. Times are arguments.

  \<^bold>\<open>Fuel.\<close> Fuel stands where loops of the code may not end. The functions of \<open>EffectiveTileKeys\<close> take 72, tree
  depth 32 plus 40 for the loops over parents, shown to be enough for a minimum level of at least 1. The
  loop of \<open>AddedSubkey\<close> needs none: it is a partial function whose value is \<open>None\<close> where it does not
  end, which is shown to be so for 31 levels; for at most 30 its result is shown. The flush of a stream layer is shown to end for
  every queue.

  \<^bold>\<open>Parameters.\<close> Code outside the repository is a parameter: LevelDB and the directory functions
  (\<open>storage_ops\<close>), libcurl (the arguments of the steps of \<open>Curl_Protocol\<close>), the platform's network protocol elsewhere (the answers of the steps of \<open>Network_Queue\<close> and \<open>Olp_Client\<close>, \<open>server\<close> in \<open>Read_Apis\<close>,
  \<open>we_server\<close> in \<open>Write_Apis\<close>, with the moments of a cancellation and whether an answer comes before the call returns),
  RapidJSON (\<open>rapidjson\<close>), the iterators of Boost for base64 (\<open>boost_base64\<close>), identifiers, uninitialised memory in the hash
  functions, and the cost function of the LRU cache. The clients take the parsers and serializers as the records \<open>parsers\<close> and
  \<open>write_codecs\<close>; \<open>Json_Codec\<close> and \<open>Write_Json\<close> are their code. Each set of laws has a concrete instance that satisfies it.

  \<^bold>\<open>Composition.\<close> \<open>Read_Answers\<close> rests on the locale facts of the cache, which rest on the refinements of
  \<open>Memory_Cache\<close> and \<open>Lru_Cache\<close>: the theorem that every read request is answered covers the code from the
  data repository to the links between the buckets of the LRU cache. \<open>Stream_Queue\<close> and the token caches of \<open>Authentication\<close> rest on the same
  cache, the signature on \<open>Crypto\<close>, \<open>Base64_Codec\<close> and \<open>Url_Codec\<close>. The repositories see one call of a REST interface
  as one response; that the callback is called exactly once is what \<open>Olp_Client\<close> shows.

  \<^bold>\<open>Not modelled.\<close> The bindings to JNI, NSURLSession and WinHTTP in \<open>src/network\<close> and all those in \<open>src/http\<close>, which
  call libraries outside the repository; the classes of \<open>core/http\<close> and \<open>core/network2\<close>, which
  no client sends requests through; floating-point geometry (\<open>geo/coordinates\<close>, \<open>geo/projection\<close>, \<open>math\<close>), since the rounding of
  double is not modelled; logging; the size limit of the LevelDB environment; the facades \<open>CatalogClient\<close>, \<open>StreamLayerClient\<close> and the like,
  and the variants of methods that return futures, which forward; the move operations of \<open>LruCache\<close>; the destructor of
  \<open>MultiRequestContext\<close>, which waits for its providers.
\<close>

section \<open>The clients of versioned, volatile and index layers\<close>





end
